(* ===== verification/Des_Prelude.thy ===== *)
theory Des_Prelude
  imports Main "HOL-Library.Word" "HOL-Library.Multiset" "HOL-Library.Product_Lexorder"
begin

text \<open>
  Shared vocabulary of the development: the machine integers of the Rust sources, the
  saturating and checked arithmetic of the standard library on them, the three-valued result
  of \<open>Ord::cmp\<close>, \<open>Vec::swap_remove\<close> and \<open>Iterator::min_by_key\<close>, together with the
  generic lemmas the component theories use. The collections \<open>sat_simps\<close> (arithmetic
  read through \<open>unat\<close>) and \<open>vec_simps\<close> (multiset and length facts of the vector
  operations) carry most component proofs.
\<close>

named_theorems sat_simps \<open>saturating and checked arithmetic, read through unat\<close>
named_theorems vec_simps \<open>multisets and lengths of vector operations\<close>

section \<open>Machine integers\<close>

type_synonym byte = "8 word"
type_synonym u32 = "32 word"
type_synonym u64 = "64 word"
type_synonym u128 = "128 word"

text \<open>\<open>usize\<close> values that count or index elements are natural numbers.\<close>

type_synonym usize = nat

abbreviation u64_max :: u64 where
  "u64_max \<equiv> - 1"

definition saturating_add :: "'a::len word \<Rightarrow> 'a word \<Rightarrow> 'a word" where
  "saturating_add a b = (if unat a + unat b < 2 ^ LENGTH('a) then a + b else - 1)"

definition saturating_sub :: "'a::len word \<Rightarrow> 'a word \<Rightarrow> 'a word" where
  "saturating_sub a b = (if b \<le> a then a - b else 0)"

definition saturating_mul :: "'a::len word \<Rightarrow> 'a word \<Rightarrow> 'a word" where
  "saturating_mul a b = (if unat a * unat b < 2 ^ LENGTH('a) then a * b else - 1)"

definition checked_add :: "'a::len word \<Rightarrow> 'a word \<Rightarrow> 'a word option" where
  "checked_add a b = (if unat a + unat b < 2 ^ LENGTH('a) then Some (a + b) else None)"

definition checked_sub :: "'a::len word \<Rightarrow> 'a word \<Rightarrow> 'a word option" where
  "checked_sub a b = (if b \<le> a then Some (a - b) else None)"

text \<open>\<open>TryFrom\<close> into a word: \<open>None\<close> when the value does not fit.\<close>

definition try_from_nat :: "nat \<Rightarrow> 'a::len word option" where
  "try_from_nat n = (if n < 2 ^ LENGTH('a) then Some (word_of_nat n) else None)"

lemma unat_max [sat_simps]: "unat (- 1 :: 'a::len word) = 2 ^ LENGTH('a) - 1"
  by (simp add: unsigned_minus_1_eq_mask mask_eq_exp_minus_1)

lemma unat_saturating_add [sat_simps]:
  "unat (saturating_add a b) = min (unat a + unat b) (2 ^ LENGTH('a) - 1)"
  for a b :: "'a::len word"
proof (cases "unat a + unat b < 2 ^ LENGTH('a)")
  case True
  then have "unat (a + b) = unat a + unat b"
    by (simp add: unat_word_ariths)
  with True show ?thesis
    by (simp add: saturating_add_def)
next
  case False
  then show ?thesis
    by (simp add: saturating_add_def unat_max)
qed

lemma unat_saturating_sub [sat_simps]: "unat (saturating_sub a b) = unat a - unat b"
  by (auto simp: saturating_sub_def unat_sub word_le_nat_alt)

lemma unat_saturating_mul [sat_simps]:
  "unat (saturating_mul a b) = min (unat a * unat b) (2 ^ LENGTH('a) - 1)"
  for a b :: "'a::len word"
proof (cases "unat a * unat b < 2 ^ LENGTH('a)")
  case True
  then have "unat (a * b) = unat a * unat b"
    by (simp add: unat_word_ariths)
  with True show ?thesis
    by (simp add: saturating_mul_def)
next
  case False
  then show ?thesis
    by (simp add: saturating_mul_def unat_max)
qed

lemma unat_lt_pow: "unat a < 2 ^ LENGTH('a)" for a :: "'a::len word"
  by (fact unsigned_less)

lemma unat_le_max: "unat a \<le> 2 ^ LENGTH('a) - 1" for a :: "'a::len word"
  using unat_lt_pow [of a] by linarith

lemma saturating_add_ge: "a \<le> saturating_add a b"
  using unat_le_max [of a] by (auto simp: word_le_nat_alt unat_saturating_add)

lemma saturating_add_mono: "b \<le> c \<Longrightarrow> saturating_add a b \<le> saturating_add a c"
  by (auto simp: word_le_nat_alt unat_saturating_add)

lemma saturating_add_0 [simp]: "saturating_add a 0 = a" "saturating_add 0 a = a"
  using unat_lt_pow [of a] by (simp_all add: saturating_add_def)

lemma saturating_add_strict: "a < - 1 \<Longrightarrow> 0 < b \<Longrightarrow> a < saturating_add a b"
  by (auto simp: word_less_nat_alt unat_saturating_add unat_max)

lemma saturating_add_sub: "a \<le> b \<Longrightarrow> saturating_add a (b - a) = b"
  using unat_le_max [of b]
  by (simp add: word_unat_eq_iff unat_saturating_add unat_sub word_le_nat_alt)

lemma checked_add_Some [sat_simps]:
  "checked_add a b = Some c \<longleftrightarrow> unat a + unat b < 2 ^ LENGTH('a) \<and> unat c = unat a + unat b"
  for a b c :: "'a::len word"
  by (auto simp: checked_add_def unat_word_ariths word_unat_eq_iff)

lemma checked_add_None [sat_simps]:
  "checked_add a b = None \<longleftrightarrow> 2 ^ LENGTH('a) \<le> unat a + unat b" for a b :: "'a::len word"
  by (simp add: checked_add_def not_less)

lemma checked_sub_Some [sat_simps]:
  "checked_sub a b = Some c \<longleftrightarrow> unat b \<le> unat a \<and> unat c = unat a - unat b"
  by (auto simp: checked_sub_def unat_sub word_le_nat_alt word_unat_eq_iff)

lemma checked_sub_None [sat_simps]: "checked_sub a b = None \<longleftrightarrow> unat a < unat b"
  by (simp add: checked_sub_def word_le_nat_alt not_le)

lemma try_from_nat_unat [simp]: "try_from_nat (unat a) = Some a"
  using unat_lt_pow [of a] by (simp add: try_from_nat_def)

lemma try_from_nat_Some [sat_simps]:
  "(try_from_nat n :: 'a::len word option) = Some w \<longleftrightarrow> n < 2 ^ LENGTH('a) \<and> unat w = n"
  by (auto simp: try_from_nat_def unat_of_nat word_unat_eq_iff)

lemma try_from_nat_None [sat_simps]:
  "(try_from_nat n :: 'a::len word option) = None \<longleftrightarrow> 2 ^ LENGTH('a) \<le> n"
  by (simp add: try_from_nat_def not_less)

text \<open>Incrementing a counter that has not reached its maximum.\<close>

lemma unat_Suc_word: "w \<noteq> - 1 \<Longrightarrow> unat (w + 1) = Suc (unat w)" for w :: "'a::len word"
proof -
  assume "w \<noteq> - 1"
  then have "1 + w \<noteq> 0"
    by (metis add.commute add_eq_0_iff)
  then show ?thesis
    using unatSuc [of w] by (simp add: add.commute)
qed

lemma less_Suc_word: "w \<noteq> - 1 \<Longrightarrow> w < w + 1" for w :: "'a::len word"
  by (simp add: word_less_nat_alt unat_Suc_word)

lemma le_less_Suc_word: "w \<noteq> - 1 \<Longrightarrow> v \<le> w \<Longrightarrow> v < w + 1" for w :: "'a::len word"
  using less_Suc_word order_le_less_trans by blast

lemma numeral_le_one_word [simp]:
  "(numeral n :: 'a::len word) \<le> 1 \<longleftrightarrow> unat (numeral n :: 'a word) \<le> 1"
  by (simp add: word_le_nat_alt)

section \<open>Comparison results\<close>

datatype ordering = Less | Equal | Greater

definition cmp :: "'a::linorder \<Rightarrow> 'a \<Rightarrow> ordering" where
  "cmp a b = (if a < b then Less else if a = b then Equal else Greater)"

fun then_with :: "ordering \<Rightarrow> ordering \<Rightarrow> ordering" where
  "then_with Equal o2 = o2"
| "then_with o1 o2 = o1"

lemma cmp_simps [simp]:
  "cmp a b = Less \<longleftrightarrow> a < b"
  "cmp a b = Equal \<longleftrightarrow> a = b"
  "cmp a b = Greater \<longleftrightarrow> b < a"
  by (auto simp: cmp_def)

lemma then_with_cmp_pair: "then_with (cmp a b) (cmp c d) = cmp (a, c) (b, d)"
  by (auto simp: cmp_def less_prod_def')

section \<open>Vectors\<close>

text \<open>
  \<open>Vec::swap_remove(i)\<close> removes the element at \<open>i\<close> and moves the last element into
  its place; it panics (\<open>None\<close>) when \<open>i\<close> is out of range.
\<close>

definition swap_remove :: "'a list \<Rightarrow> nat \<Rightarrow> ('a \<times> 'a list) option" where
  "swap_remove xs i =
     (if i < length xs then Some (xs ! i, butlast (xs[i := last xs])) else None)"

lemma swap_remove_Some_iff [vec_simps]: "swap_remove xs i \<noteq> None \<longleftrightarrow> i < length xs"
  by (simp add: swap_remove_def)

lemma swap_remove_last: "swap_remove (xs @ [x]) (length xs) = Some (x, xs)"
  by (simp add: swap_remove_def)

lemma swap_remove_mset [vec_simps]:
  assumes "swap_remove xs i = Some (x, ys)"
  shows "mset xs = add_mset x (mset ys)"
proof -
  from assms have i: "i < length xs" and x: "x = xs ! i" and ys: "ys = butlast (xs[i := last xs])"
    by (auto simp: swap_remove_def split: if_splits)
  define zs where "zs = xs[i := last xs]"
  have zs: "zs \<noteq> []" and lz: "last zs = last xs"
    using i by (auto simp: zs_def last_conv_nth nth_list_update simp flip: length_greater_0_conv)
  have "mset zs = add_mset (last xs) (mset xs - {#xs ! i#})"
    using i by (simp add: zs_def mset_update)
  moreover have "mset zs = add_mset (last zs) (mset (butlast zs))"
    using zs by (metis add_mset_add_single append_butlast_last_id mset_append mset_single_iff
        mset.simps(1,2))
  ultimately have "mset (butlast zs) = mset xs - {#xs ! i#}"
    by (simp add: lz)
  moreover have "xs ! i \<in># mset xs"
    using i by simp
  ultimately show ?thesis
    by (simp add: x ys zs_def)
qed

lemma swap_remove_set: "swap_remove xs i = Some (x, ys) \<Longrightarrow> set xs = insert x (set ys)"
  by (metis set_mset_add_mset_insert set_mset_mset swap_remove_mset)

lemma swap_remove_length [vec_simps]:
  "swap_remove xs i = Some (x, ys) \<Longrightarrow> length xs = Suc (length ys)"
  by (metis size_mset size_add_mset swap_remove_mset)

text \<open>
  \<open>iter().enumerate().min_by_key(k).map(|(i, _)| i)\<close>: the index of the first element
  with the least key.
\<close>

fun min_index_by :: "('a \<Rightarrow> 'k::linorder) \<Rightarrow> 'a list \<Rightarrow> nat option" where
  "min_index_by k [] = None"
| "min_index_by k (x # xs) =
     (case min_index_by k xs of
        None \<Rightarrow> Some 0
      | Some j \<Rightarrow> if k (xs ! j) < k x then Some (Suc j) else Some 0)"

lemma min_index_by_None [simp]: "min_index_by k xs = None \<longleftrightarrow> xs = []"
  by (cases xs) (auto split: option.splits)

lemma min_index_by_Some:
  "min_index_by k xs = Some j \<Longrightarrow> j < length xs \<and> (\<forall>x\<in>set xs. k (xs ! j) \<le> k x)"
proof (induction k xs arbitrary: j rule: min_index_by.induct)
  case (2 k x xs)
  show ?case
  proof (cases "min_index_by k xs")
    case None
    with 2 show ?thesis by auto
  next
    case (Some i)
    with "2.IH" have "i < length xs \<and> (\<forall>x\<in>set xs. k (xs ! i) \<le> k x)" by blast
    with 2 Some show ?thesis by (force split: if_splits)
  qed
qed simp

text \<open>On a list whose head has the least key the first index is chosen.\<close>

lemma min_index_by_head:
  "\<forall>y\<in>set xs. k x \<le> k y \<Longrightarrow> min_index_by k (x # xs) = Some 0"
  by (cases "min_index_by k xs") (auto dest!: min_index_by_Some simp: not_less)

section \<open>Sorted lists\<close>

text \<open>On a list sorted by \<open>f\<close> the elements with the least value form a prefix.\<close>

lemma sorted_takeWhile_eq_filter:
  "sorted (map f xs) \<Longrightarrow> \<forall>x\<in>set xs. t \<le> f x \<Longrightarrow>
   takeWhile (\<lambda>x. f x = t) xs = filter (\<lambda>x. f x = t) xs"
proof (induction xs)
  case (Cons x xs)
  show ?case
  proof (cases "f x = t")
    case False
    with Cons.prems have "\<forall>y\<in>set xs. t < f y"
      by (metis (no_types, lifting) image_eqI list.set_intros(1) list.simps(9) order_le_neq_trans
          order_less_le_trans set_map sorted_simps(2))
    then have "filter (\<lambda>x. f x = t) xs = []" by (auto simp: filter_empty_conv)
    with False show ?thesis by simp
  qed (use Cons in simp)
qed simp

lemma sorted_dropWhile_eq_filter:
  "sorted (map f xs) \<Longrightarrow> \<forall>x\<in>set xs. t \<le> f x \<Longrightarrow>
   dropWhile (\<lambda>x. f x = t) xs = filter (\<lambda>x. f x \<noteq> t) xs"
proof (induction xs)
  case (Cons x xs)
  show ?case
  proof (cases "f x = t")
    case False
    with Cons.prems have "\<forall>y\<in>set xs. t < f y"
      by (metis (no_types, lifting) image_eqI list.set_intros(1) list.simps(9) order_le_neq_trans
          order_less_le_trans set_map sorted_simps(2))
    then have "filter (\<lambda>x. f x \<noteq> t) xs = xs" by (auto simp: filter_id_conv)
    with False show ?thesis by simp
  qed (use Cons in simp)
qed simp

lemma filter_dropWhile_not: "filter (\<lambda>x. \<not> P x) (dropWhile P xs) = filter (\<lambda>x. \<not> P x) xs"
  by (induction xs) auto

lemma distinct_subseteq_mset:
  assumes "mset xs \<subseteq># mset ys" "distinct ys"
  shows "distinct xs"
proof -
  have "count (mset ys) a \<le> 1" for a
    using assms(2) by (metis distinct_count_atmost_1 order.refl zero_le_one)
  then have le: "count (mset xs) a \<le> 1" for a
    using mset_subset_eq_count [OF assms(1), of a] order.trans by blast
  have "count (mset xs) a = (if a \<in> set xs then 1 else 0)" for a
    using le [of a] by (metis One_nat_def count_eq_zero_iff le_SucE le_zero_eq set_mset_mset)
  then show ?thesis by (simp add: distinct_count_atmost_1)
qed

end
