(* ===== verification/Sim_Time.thy ===== *)
theory Sim_Time
  imports Des_Prelude
begin

text \<open>
  \<open>des-core/src/time.rs\<close>: simulated time as a 64-bit count of nanoseconds. A
  \<open>std::time::Duration\<close> is represented by its value in nanoseconds
  (\<open>Duration::as_nanos\<close>), a natural number, since the code only converts durations
  from and to nanoseconds and never relies on the split into seconds and a fraction.
\<close>

type_synonym duration = nat

text \<open>The largest \<open>Duration\<close>: \<open>u64::MAX\<close> seconds and 999999999 nanoseconds.\<close>

definition duration_max :: duration where
  "duration_max = (2 ^ 64 - 1) * 1000000000 + 999999999"

definition duration_from_millis :: "nat \<Rightarrow> duration" where
  "duration_from_millis ms = ms * 1000000"

definition duration_as_millis :: "duration \<Rightarrow> nat" where
  "duration_as_millis d = d div 1000000"

datatype simtime = SimTime (as_nanos: u64)

lemma simtime_eq_iff: "t = u \<longleftrightarrow> as_nanos t = as_nanos u"
  by (cases t; cases u) simp

instantiation simtime :: linorder
begin

definition less_eq_simtime :: "simtime \<Rightarrow> simtime \<Rightarrow> bool" where
  "less_eq_simtime t u \<longleftrightarrow> as_nanos t \<le> as_nanos u"

definition less_simtime :: "simtime \<Rightarrow> simtime \<Rightarrow> bool" where
  "less_simtime t u \<longleftrightarrow> as_nanos t < as_nanos u"

instance
  by standard (auto simp: less_eq_simtime_def less_simtime_def simtime_eq_iff)

end

lemmas simtime_order = less_eq_simtime_def less_simtime_def

lemma simtime_order_simps [simp]:
  "SimTime a \<le> SimTime b \<longleftrightarrow> a \<le> b"
  "SimTime a < SimTime b \<longleftrightarrow> a < b"
  by (simp_all add: simtime_order)

section \<open>Construction and conversion\<close>

definition zero :: simtime where
  "zero = SimTime 0"

definition from_nanos :: "u64 \<Rightarrow> simtime" where
  "from_nanos nanos = SimTime nanos"

text \<open>The products are plain \<open>u64\<close> products: they wrap when overflow checks are off.\<close>

definition from_micros :: "u64 \<Rightarrow> simtime" where
  "from_micros micros = SimTime (micros * 1000)"

definition from_millis :: "u64 \<Rightarrow> simtime" where
  "from_millis millis = SimTime (millis * 1000000)"

definition from_secs :: "u64 \<Rightarrow> simtime" where
  "from_secs secs = SimTime (secs * 1000000000)"

definition from_duration :: "duration \<Rightarrow> simtime" where
  "from_duration d =
     (let nanos = (case try_from_nat d of Some n \<Rightarrow> n | None \<Rightarrow> u64_max) in SimTime nanos)"

definition try_from_duration :: "duration \<Rightarrow> simtime option" where
  "try_from_duration d = map_option SimTime (try_from_nat d)"

definition as_duration :: "simtime \<Rightarrow> duration" where
  "as_duration t = unat (as_nanos t)"

section \<open>Arithmetic\<close>

definition duration_since :: "simtime \<Rightarrow> simtime \<Rightarrow> duration" where
  "duration_since t earlier = unat (saturating_sub (as_nanos t) (as_nanos earlier))"

definition checked_duration_since :: "simtime \<Rightarrow> simtime \<Rightarrow> duration option" where
  "checked_duration_since t earlier =
     map_option unat (checked_sub (as_nanos t) (as_nanos earlier))"

definition add_duration :: "simtime \<Rightarrow> duration \<Rightarrow> simtime" where
  "add_duration t d =
     (let nanos = (case try_from_nat d of Some n \<Rightarrow> n | None \<Rightarrow> u64_max)
      in SimTime (saturating_add (as_nanos t) nanos))"

definition checked_add_duration :: "simtime \<Rightarrow> duration \<Rightarrow> simtime option" where
  "checked_add_duration t d =
     (case try_from_nat d of
        None \<Rightarrow> None
      | Some nanos \<Rightarrow> map_option SimTime (checked_add (as_nanos t) nanos))"

definition sub_duration :: "simtime \<Rightarrow> duration \<Rightarrow> simtime" where
  "sub_duration t d =
     (let nanos = (case try_from_nat d of Some n \<Rightarrow> n | None \<Rightarrow> u64_max)
      in SimTime (saturating_sub (as_nanos t) nanos))"

definition checked_sub_duration :: "simtime \<Rightarrow> duration \<Rightarrow> simtime option" where
  "checked_sub_duration t d =
     (case try_from_nat d of
        None \<Rightarrow> None
      | Some nanos \<Rightarrow> map_option SimTime (checked_sub (as_nanos t) nanos))"

text \<open>\<open>impl Add<SimTime>\<close> and \<open>impl Mul<u64>\<close>.\<close>

definition add_simtime :: "simtime \<Rightarrow> simtime \<Rightarrow> simtime" where
  "add_simtime t u = SimTime (saturating_add (as_nanos t) (as_nanos u))"

definition mul_simtime :: "simtime \<Rightarrow> u64 \<Rightarrow> simtime" where
  "mul_simtime t n = SimTime (saturating_mul (as_nanos t) n)"

section \<open>Lemmas\<close>

lemma as_nanos_simps [simp]:
  "as_nanos zero = 0"
  "as_nanos (add_simtime t u) = saturating_add (as_nanos t) (as_nanos u)"
  "as_nanos (mul_simtime t n) = saturating_mul (as_nanos t) n"
  by (simp_all add: zero_def add_simtime_def mul_simtime_def)

lemma zero_le [simp]: "zero \<le> t"
  by (simp add: simtime_order)

lemma add_simtime_zero [simp]: "add_simtime t zero = t"
  by (simp add: simtime_eq_iff)

lemma add_simtime_ge [simp]: "t \<le> add_simtime t d"
  by (simp add: simtime_order saturating_add_ge)

lemma add_simtime_strict: "as_nanos t < u64_max \<Longrightarrow> zero < d \<Longrightarrow> t < add_simtime t d"
  by (auto simp: simtime_order intro: saturating_add_strict)

lemma saturated_nanos [sat_simps]:
  "unat (case try_from_nat d of Some n \<Rightarrow> n | None \<Rightarrow> u64_max) = min d (2 ^ 64 - 1)"
  by (auto simp: try_from_nat_def unat_of_nat unat_max)

lemma as_nanos_from_duration [sat_simps]:
  "unat (as_nanos (from_duration d)) = min d (2 ^ 64 - 1)"
  by (simp add: from_duration_def Let_def saturated_nanos)

lemma from_duration_as_duration [simp]: "from_duration (as_duration t) = t"
  by (simp add: from_duration_def as_duration_def simtime_eq_iff)

lemma add_duration_eq: "add_duration t d = add_simtime t (from_duration d)"
  by (simp add: add_duration_def add_simtime_def from_duration_def Let_def)

lemma simtime_wait_until:
  "t \<le> u \<Longrightarrow> add_simtime t (from_duration (duration_since u t)) = u"
  by (simp add: simtime_eq_iff word_unat_eq_iff sat_simps duration_since_def simtime_order
      word_le_nat_alt) (use unat_le_max [of "as_nanos u"] in simp)

text \<open>
  Time arithmetic never wraps. Read as natural numbers, adding a duration is addition
  capped at \<open>u64::MAX\<close>, subtracting is subtraction floored at zero, and the checked
  variants succeed exactly when the capped and the exact result agree, with that result.
\<close>

theorem simtime_arithmetic:
  "as_duration (add_duration t d) = min (as_duration t + d) (2 ^ 64 - 1)
   \<and> as_duration (sub_duration t d) = as_duration t - d
   \<and> duration_since t u = as_duration t - as_duration u
   \<and> checked_add_duration t d =
       (if as_duration t + d < 2 ^ 64 then Some (add_duration t d) else None)
   \<and> checked_sub_duration t d =
       (if d \<le> as_duration t then Some (sub_duration t d) else None)
   \<and> checked_duration_since t u =
       (if u \<le> t then Some (duration_since t u) else None)"
proof (intro conjI)
  have t: "as_duration t \<le> 2 ^ 64 - 1"
    using unat_le_max [of "as_nanos t"] by (simp add: as_duration_def)
  show "as_duration (add_duration t d) = min (as_duration t + d) (2 ^ 64 - 1)"
    by (auto simp: as_duration_def add_duration_def Let_def sat_simps)
  show "as_duration (sub_duration t d) = as_duration t - d"
    using t by (auto simp: as_duration_def sub_duration_def Let_def sat_simps)
  show "duration_since t u = as_duration t - as_duration u"
    by (simp add: duration_since_def as_duration_def sat_simps)
  show "checked_add_duration t d =
       (if as_duration t + d < 2 ^ 64 then Some (add_duration t d) else None)"
    by (auto simp: checked_add_duration_def add_duration_def as_duration_def try_from_nat_def
        saturating_add_def checked_add_def unat_of_nat)
  show "checked_sub_duration t d =
       (if d \<le> as_duration t then Some (sub_duration t d) else None)"
    using t by (auto simp: checked_sub_duration_def sub_duration_def as_duration_def
        try_from_nat_def saturating_sub_def checked_sub_def word_le_nat_alt unat_of_nat)
  show "checked_duration_since t u = (if u \<le> t then Some (duration_since t u) else None)"
    by (simp add: checked_duration_since_def duration_since_def checked_sub_def
        saturating_sub_def simtime_order)
qed

end
