(* ===== verification/Ids.thy ===== *)
theory Ids
  imports Des_Prelude
begin

text \<open>
  \<open>des-core/src/ids.rs\<close> and the hash of \<open>des-core/src/randomness.rs\<close>: deterministic
  identifiers for components and tasks. The point of the theory is that the mixing function
  is a bijection of the 64-bit words, so identifiers drawn from one seed and domain with
  different counters never collide.
\<close>

unbundle bit_operations_syntax

type_synonym uuid = u128

definition splitmix64 :: "u64 \<Rightarrow> u64" where
  "splitmix64 x =
     (let x = x + 0x9E3779B97F4A7C15;
          z = x;
          z = (z XOR drop_bit 30 z) * 0xBF58476D1CE4E5B9;
          z = (z XOR drop_bit 27 z) * 0x94D049BB133111EB
      in z XOR drop_bit 31 z)"

definition deterministic_uuid :: "u64 \<Rightarrow> u64 \<Rightarrow> u64 \<Rightarrow> uuid" where
  "deterministic_uuid seed domain counter =
     (let x0 = seed XOR domain XOR counter;
          lo = splitmix64 x0;
          hi = splitmix64 (x0 + 0xD1B54A32D192ED03)
      in push_bit 64 (ucast hi) OR ucast lo)"

definition UUID_DOMAIN_COMPONENT :: u64 where
  "UUID_DOMAIN_COMPONENT = 0x434F4D504F4E454E"

definition UUID_DOMAIN_TASK :: u64 where
  "UUID_DOMAIN_TASK = 0x5441534B5F49445F"

definition UUID_DOMAIN_KEY :: u64 where
  "UUID_DOMAIN_KEY = 0x4B45595F5F49445F"

definition UUID_DOMAIN_MANUAL_TASK :: u64 where
  "UUID_DOMAIN_MANUAL_TASK = 0x4D414E555441534B"

text \<open>\<open>randomness.rs\<close>: 64-bit FNV-1a over the bytes of a string.\<close>

fun fnv1a64_loop :: "u64 \<Rightarrow> 8 word list \<Rightarrow> u64" where
  "fnv1a64_loop hash [] = hash"
| "fnv1a64_loop hash (b # bs) = fnv1a64_loop ((hash XOR ucast b) * 0x100000001b3) bs"

definition fnv1a64 :: "8 word list \<Rightarrow> u64" where
  "fnv1a64 bytes = fnv1a64_loop 0xcbf29ce484222325 bytes"

section \<open>Invertibility of the mixing steps\<close>

lemma xorshift_inj:
  fixes z w :: "'a::len word"
  assumes k: "0 < k" and eq: "z XOR drop_bit k z = w XOR drop_bit k w"
  shows "z = w"
proof (rule bit_word_eqI)
  fix n
  assume "n < LENGTH('a)"
  have "bit z m = bit w m" for m
  proof (induction "LENGTH('a) - m" arbitrary: m rule: less_induct)
    case less
    show ?case
    proof (cases "m < LENGTH('a)")
      case True
      with k have "LENGTH('a) - (k + m) < LENGTH('a) - m" by linarith
      from less.hyps [OF this] have ih: "bit z (k + m) = bit w (k + m)" .
      from eq have "bit (z XOR drop_bit k z) m = bit (w XOR drop_bit k w) m" by simp
      with ih show ?thesis by (auto simp: bit_xor_iff bit_drop_bit_eq)
    next
      case False
      then show ?thesis by (metis bit_imp_le_length not_le)
    qed
  qed
  then show "bit z n = bit w n" .
qed

lemma mult_inj:
  fixes c :: "'a::len word"
  assumes "c * d = 1" and "x * c = y * c"
  shows "x = y"
proof -
  from assms(2) have "x * (c * d) = y * (c * d)" by (metis mult.assoc)
  with assms(1) show ?thesis by simp
qed

lemma splitmix64_mult1: "(0xBF58476D1CE4E5B9 :: u64) * 0x96DE1B173F119089 = 1"
  by simp

lemma splitmix64_mult2: "(0x94D049BB133111EB :: u64) * 0x319642B2D24D8EC3 = 1"
  by simp

lemma inj_xorshift: "0 < k \<Longrightarrow> inj (\<lambda>z :: 'a::len word. z XOR drop_bit k z)"
  by (rule injI) (rule xorshift_inj)

lemma inj_mult: "c * d = 1 \<Longrightarrow> inj (\<lambda>z :: 'a::len word. z * c)"
  by (rule injI) (rule mult_inj)

lemma splitmix64_inj: "inj splitmix64"
proof -
  have eq: "splitmix64 =
      (\<lambda>z. z XOR drop_bit 31 z) \<circ> (\<lambda>z. z * 0x94D049BB133111EB) \<circ> (\<lambda>z. z XOR drop_bit 27 z)
      \<circ> (\<lambda>z. z * 0xBF58476D1CE4E5B9) \<circ> (\<lambda>z. z XOR drop_bit 30 z) \<circ> (\<lambda>x. x + 0x9E3779B97F4A7C15)"
    by (simp add: fun_eq_iff splitmix64_def Let_def)
  show ?thesis
    by (subst eq) (intro inj_compose inj_xorshift inj_mult [OF splitmix64_mult1]
        inj_mult [OF splitmix64_mult2] inj_on_add', simp_all)
qed

lemma splitmix64_eq_iff [simp]: "splitmix64 x = splitmix64 y \<longleftrightarrow> x = y"
  using splitmix64_inj by (auto dest: injD)

lemma low_half: "ucast (push_bit 64 (ucast hi) OR ucast lo :: u128) = (lo :: u64)"
  by (rule bit_word_eqI) (auto simp: bit_simps)

text \<open>
  Two deterministic identifiers are equal exactly when the exclusive or of seed, domain
  and counter agree. In particular, under one seed and one domain different counters give
  different identifiers, for all \<open>2^64\<close> counters.
\<close>

theorem deterministic_uuid_eq_iff:
  "deterministic_uuid s d c = deterministic_uuid s' d' c' \<longleftrightarrow>
     s XOR d XOR c = s' XOR d' XOR c'"
proof
  assume "deterministic_uuid s d c = deterministic_uuid s' d' c'"
  then have "ucast (deterministic_uuid s d c) = (ucast (deterministic_uuid s' d' c') :: u64)"
    by simp
  then show "s XOR d XOR c = s' XOR d' XOR c'"
    by (simp add: deterministic_uuid_def Let_def low_half)
qed (simp add: deterministic_uuid_def Let_def)

lemma xor_left_cancel: "(a :: u64) XOR b XOR c = a XOR b XOR d \<longleftrightarrow> c = d"
  by (metis (no_types, lifting) xor.assoc xor.left_neutral xor_self_eq)

lemma task_uuid_inj: "deterministic_uuid s d c = deterministic_uuid s d c' \<longleftrightarrow> c = c'"
proof -
  have "ucast (deterministic_uuid s d x) = splitmix64 (s XOR d XOR x)" for x
    by (simp add: deterministic_uuid_def Let_def low_half)
  then show ?thesis
    by (metis splitmix64_eq_iff xor_left_cancel)
qed

end
