(* ===== verification/Binary_Heap.thy ===== *)
theory Binary_Heap
  imports Des_Prelude
begin

text \<open>
  The contract of \<open>std::collections::BinaryHeap\<close> as the scheduler and the priority queue
  use it. The interface \<open>min_heap\<close> says what \<open>push\<close>, \<open>pop\<close> and \<open>peek\<close>
  promise: nothing is lost or duplicated and \<open>pop\<close> returns an element with the least key
  (the Rust types reverse their \<open>Ord\<close>, which turns the max-heap into a min-heap).
  The model represents a heap by its elements in key order. Where all keys are distinct,
  which is an invariant of both clients, every implementation of the contract pops the same
  elements in the same order (lemma \<open>pop_unique\<close>), so the choice of representation is
  not observable.
\<close>

locale min_heap =
  fixes key :: "'a \<Rightarrow> 'k::linorder"
    and push :: "'a \<Rightarrow> 'h \<Rightarrow> 'h"
    and pop :: "'h \<Rightarrow> ('a \<times> 'h) option"
    and peek :: "'h \<Rightarrow> 'a option"
    and elems :: "'h \<Rightarrow> 'a multiset"
    and invar :: "'h \<Rightarrow> bool"
  assumes elems_push: "invar h \<Longrightarrow> elems (push x h) = add_mset x (elems h)"
    and invar_push: "invar h \<Longrightarrow> invar (push x h)"
    and pop_None: "invar h \<Longrightarrow> pop h = None \<longleftrightarrow> elems h = {#}"
    and elems_pop: "invar h \<Longrightarrow> pop h = Some (x, h') \<Longrightarrow> elems h = add_mset x (elems h')"
    and invar_pop: "invar h \<Longrightarrow> pop h = Some (x, h') \<Longrightarrow> invar h'"
    and pop_min: "invar h \<Longrightarrow> pop h = Some (x, h') \<Longrightarrow> y \<in># elems h \<Longrightarrow> key x \<le> key y"
    and peek_pop: "invar h \<Longrightarrow> peek h = map_option fst (pop h)"
begin

text \<open>With distinct keys the popped element is determined by the contents alone.\<close>

lemma pop_unique:
  assumes "invar h" and "pop h = Some (x, h')" and "inj_on key (set_mset (elems h))"
    and "y \<in># elems h" and "\<And>z. z \<in># elems h \<Longrightarrow> key y \<le> key z"
  shows "x = y"
proof -
  have x: "x \<in># elems h"
    using elems_pop [OF assms(1,2)] by simp
  have "key x = key y"
    using pop_min [OF assms(1,2,4)] assms(5) [OF x] by simp
  with assms(3,4) x show ?thesis by (auto dest: inj_onD)
qed

lemma peek_min: "invar h \<Longrightarrow> peek h = Some x \<Longrightarrow> y \<in># elems h \<Longrightarrow> key x \<le> key y"
  by (auto simp: peek_pop dest: pop_min)

lemma peek_None: "invar h \<Longrightarrow> peek h = None \<longleftrightarrow> elems h = {#}"
  by (simp add: peek_pop pop_None)

end

section \<open>The representation\<close>

type_synonym 'a heap = "'a list"

definition heap_push :: "('a \<Rightarrow> 'k::linorder) \<Rightarrow> 'a \<Rightarrow> 'a heap \<Rightarrow> 'a heap" where
  "heap_push key x h = insort_key key x h"

fun heap_pop :: "'a heap \<Rightarrow> ('a \<times> 'a heap) option" where
  "heap_pop [] = None"
| "heap_pop (x # h) = Some (x, h)"

fun heap_peek :: "'a heap \<Rightarrow> 'a option" where
  "heap_peek [] = None"
| "heap_peek (x # h) = Some x"

abbreviation heap_ok :: "('a \<Rightarrow> 'k::linorder) \<Rightarrow> 'a heap \<Rightarrow> bool" where
  "heap_ok key h \<equiv> sorted (map key h)"

lemma heap_ok_push: "heap_ok key h \<Longrightarrow> heap_ok key (heap_push key x h)"
  by (simp add: heap_push_def sorted_insort_key)

lemma mset_heap_push [simp]: "mset (heap_push key x h) = add_mset x (mset h)"
  by (simp add: heap_push_def mset_insort)

lemma set_heap_push [simp]: "set (heap_push key x h) = insert x (set h)"
  by (simp add: heap_push_def set_insort_key)

lemma length_heap_push [simp]: "length (heap_push key x h) = Suc (length h)"
  by (simp add: heap_push_def)

lemma heap_push_not_Nil [simp]: "heap_push key x h \<noteq> []"
  by (simp add: heap_push_def)

lemma heap_pop_Some [simp]: "heap_pop h = Some (x, h') \<longleftrightarrow> h = x # h'"
  by (cases h) auto

lemma heap_pop_None [simp]: "heap_pop h = None \<longleftrightarrow> h = []"
  by (cases h) auto

lemma heap_peek_Some: "heap_peek h = Some x \<longleftrightarrow> (\<exists>h'. h = x # h')"
  by (cases h) auto

lemma heap_peek_None [simp]: "heap_peek h = None \<longleftrightarrow> h = []"
  by (cases h) auto

interpretation sorted_heap: min_heap key "heap_push key" heap_pop heap_peek mset "heap_ok key"
  for key :: "'a \<Rightarrow> 'k::linorder"
proof unfold_locales
  fix h :: "'a heap" and x y h'
  show "heap_ok key h \<Longrightarrow> heap_peek h = map_option fst (heap_pop h)"
    by (cases h) auto
qed (auto intro: heap_ok_push)

text \<open>Equal contents with distinct keys means equal heaps.\<close>

lemma heap_eqI:
  "heap_ok key h \<Longrightarrow> heap_ok key h' \<Longrightarrow> mset h = mset h' \<Longrightarrow> inj_on key (set h) \<Longrightarrow> h = h'"
proof (induction h arbitrary: h')
  case (Cons x xs)
  then obtain y ys where h': "h' = y # ys"
    by (cases h') auto
  have sets: "insert x (set xs) = insert y (set ys)"
    using mset_eq_setD [OF Cons.prems(3)] h' by simp
  then have "key x = key y"
    using Cons.prems(1,2) h' by (intro order.antisym) auto
  then have "x = y"
    using inj_onD [OF Cons.prems(4)] sets by auto
  with Cons h' show ?case by (auto intro: inj_on_subset)
qed simp

end
