(* ===== verification/Scheduler.thy ===== *)
theory Scheduler
  imports Sim_Time Ids Binary_Heap
begin

text \<open>
  \<open>des-core/src/scheduler.rs\<close>: the event queue and the clock. Every operation of
  \<open>Scheduler\<close> is a function on the record \<open>scheduler\<close>, whose fields are the
  fields of the struct. Type parameters stand for the code the scheduler is generic in:
  \<open>'ev\<close> the component events, \<open>'t\<close> the boxed tasks, \<open>'v\<close> the values tasks return.
  A boxed task is run by a parameter \<open>exec\<close>. Logging is left out.
  Event and task identifiers come from 64-bit counters that are incremented once per call;
  they are natural numbers here, which agree with the words as long as fewer than
  \<open>2^64\<close> identifiers have been issued. Statements that depend on this say so
  (\<open>ids_fit\<close>).

  The invariants and properties are in \<open>Scheduler_Props\<close>.
\<close>

section \<open>Data\<close>

type_synonym task_id = uuid

text \<open>
  \<open>Box<dyn Any>\<close> as far as the scheduler inspects it: the unit value, or any other value.
\<close>

datatype 'v any = AnyUnit | AnyVal 'v

record 'ev component_event_entry =
  ce_event_id :: nat
  ce_time :: simtime
  component :: uuid
  inner :: 'ev

record task_event_entry =
  te_event_id :: nat
  te_time :: simtime
  te_task_id :: task_id

datatype 'ev event_entry =
    Component "'ev component_event_entry"
  | Task task_event_entry

fun component_idx :: "'ev event_entry \<Rightarrow> uuid option" where
  "component_idx (Component entry) = Some (component entry)"
| "component_idx (Task entry) = None"

fun entry_task_id :: "'ev event_entry \<Rightarrow> task_id option" where
  "entry_task_id (Component entry) = None"
| "entry_task_id (Task entry) = Some (te_task_id entry)"

fun entry_time :: "'ev event_entry \<Rightarrow> simtime" where
  "entry_time (Component entry) = ce_time entry"
| "entry_time (Task entry) = te_time entry"

fun seq :: "'ev event_entry \<Rightarrow> nat" where
  "seq (Component entry) = ce_event_id entry"
| "seq (Task entry) = te_event_id entry"

text \<open>\<open>impl Ord for EventEntry\<close>: reversed, so that the max-heap pops the earliest entry.\<close>

definition event_entry_cmp :: "'ev event_entry \<Rightarrow> 'ev event_entry \<Rightarrow> ordering" where
  "event_entry_cmp self other =
     then_with (cmp (entry_time other) (entry_time self)) (cmp (seq other) (seq self))"

datatype frontier_event_kind = FComponent | FTask

record frontier_event =
  fe_seq :: nat
  fe_kind :: frontier_event_kind
  fe_component_id :: "uuid option"
  fe_task_id :: "task_id option"

fun to_frontier_event :: "'ev event_entry \<Rightarrow> frontier_event" where
  "to_frontier_event (Component entry) =
     \<lparr>fe_seq = ce_event_id entry, fe_kind = FComponent,
      fe_component_id = Some (component entry), fe_task_id = None\<rparr>"
| "to_frontier_event (Task entry) =
     \<lparr>fe_seq = te_event_id entry, fe_kind = FTask,
      fe_component_id = None, fe_task_id = Some (te_task_id entry)\<rparr>"

definition simtime_to_nanos :: "simtime \<Rightarrow> u64" where
  "simtime_to_nanos t = word_of_nat (as_duration t)"

definition nanos_to_simtime :: "u64 \<Rightarrow> simtime" where
  "nanos_to_simtime nanos = from_duration (unat nanos)"

record frontier_signature =
  sig_time_nanos :: u64
  sig_frontier_seqs :: "nat list"

definition frontier_signature_new :: "simtime \<Rightarrow> frontier_event list \<Rightarrow> frontier_signature" where
  "frontier_signature_new t frontier =
     \<lparr>sig_time_nanos = simtime_to_nanos t, sig_frontier_seqs = map fe_seq frontier\<rparr>"

text \<open>
  A frontier policy is a stateful chooser; \<open>'p\<close> is the type of its state.
\<close>

type_synonym 'p frontier_policy = "'p \<Rightarrow> simtime \<Rightarrow> frontier_event list \<Rightarrow> nat \<times> 'p"

definition fifo_choose :: "unit frontier_policy" where
  "fifo_choose p t frontier =
     ((case min_index_by fe_seq frontier of Some i \<Rightarrow> i | None \<Rightarrow> 0), p)"

text \<open>
  The uniform random policy draws from an external generator: \<open>gen_range g n\<close> stands for
  \<open>rng.gen_range(0..n)\<close>.
\<close>

definition uniform_random_choose :: "('g \<Rightarrow> nat \<Rightarrow> nat \<times> 'g) \<Rightarrow> 'g frontier_policy" where
  "uniform_random_choose gen_range g t frontier =
     (if frontier = [] then (0, g) else gen_range g (length frontier))"

section \<open>The scheduler\<close>

definition event_key :: "'ev event_entry \<Rightarrow> simtime \<times> nat" where
  "event_key e = (entry_time e, seq e)"

record ('ev, 't, 'v) scheduler =
  next_event_id :: nat
  id_seed :: u64
  next_task_id :: nat
  events :: "'ev event_entry heap"
  clock :: u64
  pending_tasks :: "task_id \<rightharpoonup> 't"
  completed_task_results :: "task_id \<rightharpoonup> 'v any"
  cancelled_tasks :: "task_id set"
  executing_task_id :: "task_id option"

definition with_seed :: "u64 \<Rightarrow> ('ev, 't, 'v) scheduler" where
  "with_seed seed =
     \<lparr>next_event_id = 0, id_seed = seed, next_task_id = 0, events = [], clock = 0,
      pending_tasks = Map.empty, completed_task_results = Map.empty, cancelled_tasks = {},
      executing_task_id = None\<rparr>"

definition time :: "('ev, 't, 'v, 'z) scheduler_scheme \<Rightarrow> simtime" where
  "time s = nanos_to_simtime (clock s)"

definition schedule ::
  "simtime \<Rightarrow> uuid \<Rightarrow> 'ev \<Rightarrow> ('ev, 't, 'v, 'z) scheduler_scheme \<Rightarrow> ('ev, 't, 'v, 'z) scheduler_scheme"
where
  "schedule delay key event s =
     (let s = s\<lparr>next_event_id := next_event_id s + 1\<rparr>;
          absolute_time = add_simtime (time s) delay;
          entry = \<lparr>ce_event_id = next_event_id s, ce_time = absolute_time,
                   component = key, inner = event\<rparr>
      in s\<lparr>events := heap_push event_key (Component entry) (events s)\<rparr>)"

definition schedule_now ::
  "uuid \<Rightarrow> 'ev \<Rightarrow> ('ev, 't, 'v, 'z) scheduler_scheme \<Rightarrow> ('ev, 't, 'v, 'z) scheduler_scheme"
where
  "schedule_now key event s = schedule zero key event s"

definition event_count :: "('ev, 't, 'v, 'z) scheduler_scheme \<Rightarrow> nat" where
  "event_count s = length (events s)"

definition peek :: "('ev, 't, 'v, 'z) scheduler_scheme \<Rightarrow> 'ev event_entry option" where
  "peek s = heap_peek (events s)"

text \<open>The result says whether the event is to be skipped; a mark is consumed by the test.\<close>

definition is_cancelled_task_event ::
  "'ev event_entry \<Rightarrow> ('ev, 't, 'v, 'z) scheduler_scheme
    \<Rightarrow> bool \<times> ('ev, 't, 'v, 'z) scheduler_scheme"
where
  "is_cancelled_task_event event s =
     (case event of
        Task entry \<Rightarrow>
          if te_task_id entry \<in> cancelled_tasks s
          then (True, s\<lparr>cancelled_tasks := cancelled_tasks s - {te_task_id entry}\<rparr>)
          else (False, s)
      | Component _ \<Rightarrow> (False, s))"

lemma is_cancelled_events [simp]: "events (snd (is_cancelled_task_event e s)) = events s"
  by (auto simp: is_cancelled_task_event_def split: event_entry.splits)

lemma is_cancelled_events':
  "(c, s') = is_cancelled_task_event e s \<Longrightarrow> events s' = events s"
  by (metis is_cancelled_events snd_conv)

text \<open>
  The loop that \<open>pop\<close> and \<open>pop_with_policy\<close> both start with: take entries off the heap,
  dropping those of cancelled tasks, until one is live.
\<close>

function pop_live ::
  "('ev, 't, 'v, 'z) scheduler_scheme \<Rightarrow> 'ev event_entry option \<times> ('ev, 't, 'v, 'z) scheduler_scheme"
where
  "pop_live s =
     (case heap_pop (events s) of
        None \<Rightarrow> (None, s)
      | Some (event, rest) \<Rightarrow>
          (let (cancelled, s') = is_cancelled_task_event event (s\<lparr>events := rest\<rparr>)
           in if cancelled then pop_live s' else (Some event, s')))"
  by pat_completeness auto
termination
proof (relation "measure (\<lambda>s. length (events s))")
  fix s :: "('ev, 't, 'v, 'z) scheduler_scheme" and x2 event rest x cancelled s'
  assume "heap_pop (events s) = Some x2" "(event, rest) = x2"
    "x = is_cancelled_task_event event (s\<lparr>events := rest\<rparr>)" "(cancelled, s') = x"
  then have "events s = event # rest" and "events s' = rest"
    by (auto dest: is_cancelled_events')
  then show "(s', s) \<in> measure (\<lambda>s. length (events s))" by simp
qed simp

declare pop_live.simps [simp del]

definition pop ::
  "('ev, 't, 'v, 'z) scheduler_scheme \<Rightarrow> 'ev event_entry option \<times> ('ev, 't, 'v, 'z) scheduler_scheme"
where
  "pop s =
     (case pop_live s of
        (None, s') \<Rightarrow> (None, s')
      | (Some event, s') \<Rightarrow> (Some event, s'\<lparr>clock := simtime_to_nanos (entry_time event)\<rparr>))"

text \<open>The second loop of \<open>pop_with_policy\<close>: the other live entries at the same time.\<close>

function collect_frontier ::
  "simtime \<Rightarrow> ('ev, 't, 'v, 'z) scheduler_scheme
    \<Rightarrow> 'ev event_entry list \<times> ('ev, 't, 'v, 'z) scheduler_scheme"
where
  "collect_frontier frontier_time s =
     (case heap_pop (events s) of
        None \<Rightarrow> ([], s)
      | Some (event, rest) \<Rightarrow>
          if entry_time event \<noteq> frontier_time then ([], s)
          else (let (cancelled, s') = is_cancelled_task_event event (s\<lparr>events := rest\<rparr>)
                in if cancelled then collect_frontier frontier_time s'
                   else (let (es, s'') = collect_frontier frontier_time s'
                         in (event # es, s''))))"
  by pat_completeness auto
termination
proof (relation "measure (\<lambda>(_, s). length (events s))")
  fix frontier_time and s :: "('ev, 't, 'v, 'z) scheduler_scheme" and x2 event rest x cancelled s'
  assume "heap_pop (events s) = Some x2" "(event, rest) = x2"
    "x = is_cancelled_task_event event (s\<lparr>events := rest\<rparr>)" "(cancelled, s') = x"
  then have ev: "events s = event # rest" "events s' = rest"
    by (auto dest: is_cancelled_events')
  then show "((frontier_time, s'), frontier_time, s) \<in> measure (\<lambda>(_, s). length (events s))"
    by simp
  from ev show "((frontier_time, s'), frontier_time, s) \<in> measure (\<lambda>(_, s). length (events s))"
    by simp
qed simp

declare collect_frontier.simps [simp del]

text \<open>
  \<open>swap_remove\<close> cannot panic here: the index is clamped to the last entry of a vector that
  holds at least the first entry (lemma \<open>pop_with_policy_total\<close>).
\<close>

definition pop_with_policy ::
  "'p frontier_policy \<Rightarrow> 'p \<Rightarrow> ('ev, 't, 'v, 'z) scheduler_scheme
    \<Rightarrow> 'ev event_entry option \<times> 'p \<times> ('ev, 't, 'v, 'z) scheduler_scheme"
where
  "pop_with_policy policy p s =
     (case pop_live s of
        (None, s1) \<Rightarrow> (None, p, s1)
      | (Some first, s1) \<Rightarrow>
          (let frontier_time = entry_time first;
               (others, s2) = collect_frontier frontier_time s1;
               frontier_entries = first # others;
               (chosen_index, p') =
                 (if length frontier_entries \<le> 1 then (0, p)
                  else policy p frontier_time (map to_frontier_event frontier_entries));
               chosen_index = min chosen_index (length frontier_entries - 1)
           in case swap_remove frontier_entries chosen_index of
                None \<Rightarrow> (None, p', s2)
              | Some (chosen, remaining) \<Rightarrow>
                  (Some chosen, p',
                   s2\<lparr>events := fold (heap_push event_key) remaining (events s2),
                      clock := simtime_to_nanos frontier_time\<rparr>)))"

section \<open>Tasks\<close>

definition schedule_task_at ::
  "simtime \<Rightarrow> task_id \<Rightarrow> 't \<Rightarrow> ('ev, 't, 'v, 'z) scheduler_scheme
    \<Rightarrow> ('ev, 't, 'v, 'z) scheduler_scheme"
where
  "schedule_task_at t task_id task s =
     (let s = s\<lparr>pending_tasks := (pending_tasks s)(task_id \<mapsto> task)\<rparr>;
          s = s\<lparr>next_event_id := next_event_id s + 1\<rparr>;
          event = \<lparr>te_event_id = next_event_id s, te_time = t, te_task_id = task_id\<rparr>
      in s\<lparr>events := heap_push event_key (Task event) (events s)\<rparr>)"

text \<open>A \<open>TaskHandle\<close> is the identifier it holds.\<close>

definition schedule_task ::
  "simtime \<Rightarrow> 't \<Rightarrow> ('ev, 't, 'v, 'z) scheduler_scheme
    \<Rightarrow> task_id \<times> ('ev, 't, 'v, 'z) scheduler_scheme"
where
  "schedule_task delay task s =
     (let s = s\<lparr>next_task_id := next_task_id s + 1\<rparr>;
          task_uuid = deterministic_uuid (id_seed s) UUID_DOMAIN_TASK (word_of_nat (next_task_id s));
          t = add_simtime (time s) delay
      in (task_uuid, schedule_task_at t task_uuid task s))"

definition cancel_task ::
  "task_id \<Rightarrow> ('ev, 't, 'v, 'z) scheduler_scheme \<Rightarrow> bool \<times> ('ev, 't, 'v, 'z) scheduler_scheme"
where
  "cancel_task task_id s =
     (let was_pending = pending_tasks s task_id \<noteq> None;
          s = s\<lparr>pending_tasks := (pending_tasks s)(task_id := None)\<rparr>
      in (was_pending,
          if was_pending then s\<lparr>cancelled_tasks := insert task_id (cancelled_tasks s)\<rparr> else s))"

text \<open>
  \<open>exec\<close> runs the boxed task on the scheduler and returns its type-erased result.
\<close>

definition execute_task ::
  "('t \<Rightarrow> ('ev, 't, 'v, 'z) scheduler_scheme \<Rightarrow> 'v any \<times> ('ev, 't, 'v, 'z) scheduler_scheme)
    \<Rightarrow> task_id \<Rightarrow> ('ev, 't, 'v, 'z) scheduler_scheme \<Rightarrow> bool \<times> ('ev, 't, 'v, 'z) scheduler_scheme"
where
  "execute_task exec task_id s =
     (if task_id \<in> cancelled_tasks s
      then (False, s\<lparr>cancelled_tasks := cancelled_tasks s - {task_id}\<rparr>)
      else case pending_tasks s task_id of
        None \<Rightarrow> (False, s)
      | Some task \<Rightarrow>
          (let s = s\<lparr>pending_tasks := (pending_tasks s)(task_id := None)\<rparr>;
               previous = executing_task_id s;
               s = s\<lparr>executing_task_id := Some task_id\<rparr>;
               (result, s) = exec task s;
               s = s\<lparr>executing_task_id := previous\<rparr>
           in if pending_tasks s task_id \<noteq> None then (True, s)
              else case result of
                AnyUnit \<Rightarrow> (True, s)
              | AnyVal v \<Rightarrow>
                  (True, s\<lparr>completed_task_results :=
                             (completed_task_results s)(task_id \<mapsto> AnyVal v)\<rparr>)))"

text \<open>
  The result is taken out of the table before the downcast, so a failed downcast loses it.
\<close>

definition get_task_result ::
  "('v any \<Rightarrow> 'x option) \<Rightarrow> task_id \<Rightarrow> ('ev, 't, 'v, 'z) scheduler_scheme
    \<Rightarrow> 'x option \<times> ('ev, 't, 'v, 'z) scheduler_scheme"
where
  "get_task_result downcast task_id s =
     (Option.bind (completed_task_results s task_id) downcast,
      s\<lparr>completed_task_results := (completed_task_results s)(task_id := None)\<rparr>)"

end
