(* ===== verification/Scheduler_Props.thy ===== *)
theory Scheduler_Props
  imports Scheduler
begin

text \<open>
  Properties of the scheduler: the closed forms of its loops, its invariants, the relation of
  the calls user code can make, and the ordering and cancellation guarantees.
\<close>

named_theorems sched_simps \<open>fields after scheduler operations\<close>

section \<open>Clock and conversions\<close>

lemma simtime_to_nanos_eq [simp]: "simtime_to_nanos t = as_nanos t"
  by (simp add: simtime_to_nanos_def as_duration_def)

lemma nanos_to_simtime_eq [simp]: "nanos_to_simtime n = SimTime n"
  by (simp add: nanos_to_simtime_def from_duration_def)

lemma time_eq [sched_simps]: "time s = SimTime (clock s)"
  by (simp add: time_def)

text \<open>The heap order is the order \<open>EventEntry::cmp\<close> induces, reversed.\<close>

lemma event_entry_cmp_key: "event_entry_cmp a b = cmp (event_key b) (event_key a)"
  by (simp add: event_entry_cmp_def event_key_def then_with_cmp_pair)

lemma event_key_le_time: "event_key a \<le> event_key b \<Longrightarrow> entry_time a \<le> entry_time b"
  by (auto simp: event_key_def less_eq_prod_def)

section \<open>Cancelled and live entries\<close>

text \<open>Whether an entry belongs to a task in the set of cancelled tasks.\<close>

definition is_canc :: "task_id set \<Rightarrow> 'ev event_entry \<Rightarrow> bool" where
  "is_canc C e = (case entry_task_id e of None \<Rightarrow> False | Some i \<Rightarrow> i \<in> C)"

definition task_ids :: "'ev event_entry list \<Rightarrow> task_id list" where
  "task_ids es = List.map_filter entry_task_id es"

definition live :: "('ev, 't, 'v, 'z) scheduler_scheme \<Rightarrow> 'ev event_entry list" where
  "live s = filter (\<lambda>e. \<not> is_canc (cancelled_tasks s) e) (events s)"

lemma is_canc_simps [simp]:
  "is_canc C (Component c) = False"
  "is_canc C (Task t) = (te_task_id t \<in> C)"
  "is_canc {} e = False"
  by (auto simp: is_canc_def split: option.splits)

lemma task_ids_simps [simp]:
  "task_ids [] = []"
  "task_ids (Component c # es) = task_ids es"
  "task_ids (Task t # es) = te_task_id t # task_ids es"
  "task_ids (xs @ ys) = task_ids xs @ task_ids ys"
  by (simp_all add: task_ids_def map_filter_simps map_filter_def)

lemma task_ids_set: "i \<in> set (task_ids es) \<longleftrightarrow> (\<exists>e\<in>set es. entry_task_id e = Some i)"
  by (force simp: task_ids_def map_filter_def)

lemma mset_task_ids: "mset (task_ids es) = {#the (entry_task_id e). e \<in># filter_mset (\<lambda>e. entry_task_id e \<noteq> None) (mset es)#}"
  by (simp add: task_ids_def map_filter_def comp_def flip: mset_filter)

lemma task_ids_perm: "mset es = mset fs \<Longrightarrow> mset (task_ids es) = mset (task_ids fs)"
  by (simp add: mset_task_ids)

lemma task_ids_push [simp]:
  "set (task_ids (heap_push k (Task t) h)) = insert (te_task_id t) (set (task_ids h))"
  "set (task_ids (heap_push k (Component c) h)) = set (task_ids h)"
  by (auto simp: task_ids_set)

lemma distinct_task_ids_push [simp]:
  "distinct (task_ids (heap_push k e h)) = distinct (task_ids (e # h))"
  by (intro mset_eq_imp_distinct_iff task_ids_perm) simp

text \<open>Removing marks of entries that are gone does not change the status of the others.\<close>

lemma is_canc_diff:
  "e \<in> set fs \<Longrightarrow> distinct (task_ids (es @ fs)) \<Longrightarrow>
   is_canc (C - set (task_ids es)) e = is_canc C e"
proof (cases e)
  case (Task t)
  moreover assume "e \<in> set fs" and "distinct (task_ids (es @ fs))"
  ultimately have "te_task_id t \<in> set (task_ids fs)" "set (task_ids es) \<inter> set (task_ids fs) = {}"
    by (auto simp: task_ids_set intro!: bexI [of _ "Task t"])
  with Task show ?thesis by auto
qed simp

lemma set_task_ids_Cons: "set (task_ids (e # es)) = set (task_ids [e]) \<union> set (task_ids es)"
  by (cases e) auto

lemma diff_diff: "A - B - C = A - (B \<union> C)"
  by blast

section \<open>Closed forms of the loops\<close>

lemma is_cancelled_eq:
  "is_cancelled_task_event e s =
     (is_canc (cancelled_tasks s) e,
      s\<lparr>cancelled_tasks := cancelled_tasks s - set (task_ids [e])\<rparr>)"
  by (cases e) (auto simp: is_cancelled_task_event_def)

lemma pop_live_closed:
  "distinct (task_ids (events s)) \<Longrightarrow>
   pop_live s =
     (case dropWhile (is_canc (cancelled_tasks s)) (events s) of
        [] \<Rightarrow> (None, s\<lparr>events := [],
                 cancelled_tasks := cancelled_tasks s - set (task_ids (events s))\<rparr>)
      | e # rest \<Rightarrow> (Some e, s\<lparr>events := rest,
                 cancelled_tasks := cancelled_tasks s -
                   set (task_ids (takeWhile (is_canc (cancelled_tasks s)) (events s) @ [e]))\<rparr>))"
proof (induction "events s" arbitrary: s)
  case Nil
  then show ?case by (simp add: pop_live.simps)
next
  case (Cons e rest s)
  note ev = \<open>e # rest = events s\<close> [symmetric]
  let ?C = "cancelled_tasks s"
  let ?C' = "?C - set (task_ids [e])"
  show ?case
  proof (cases "is_canc ?C e")
    case False
    with ev show ?thesis by (simp add: pop_live.simps is_cancelled_eq)
  next
    case True
    have d: "distinct (task_ids rest)"
      using Cons.prems ev by (cases e) auto
    have same: "is_canc ?C' f = is_canc ?C f" if "f \<in> set rest" for f
      using that is_canc_diff [of f rest "[e]" ?C] Cons.prems ev by simp
    have dw: "dropWhile (is_canc ?C') rest = dropWhile (is_canc ?C) rest"
      by (rule dropWhile_cong) (simp_all only: same)
    have tw: "takeWhile (is_canc ?C') rest = takeWhile (is_canc ?C) rest"
      by (rule takeWhile_cong) (simp_all only: same)
    have "pop_live s = pop_live (s\<lparr>events := rest, cancelled_tasks := ?C'\<rparr>)"
      using ev True by (simp add: pop_live.simps [of s] is_cancelled_eq)
    moreover have "pop_live (s\<lparr>events := rest, cancelled_tasks := ?C'\<rparr>) =
      (case dropWhile (is_canc ?C) rest of
        [] \<Rightarrow> (None, s\<lparr>events := [], cancelled_tasks := ?C' - set (task_ids rest)\<rparr>)
      | f # rest' \<Rightarrow> (Some f, s\<lparr>events := rest',
            cancelled_tasks := ?C' - set (task_ids (takeWhile (is_canc ?C) rest @ [f]))\<rparr>))"
      by (subst Cons.hyps(1)) (simp_all add: d dw tw split: list.split del: dropWhile_eq_Nil_conv)
    ultimately show ?thesis
      by (cases "dropWhile (is_canc ?C) rest")
        (simp_all add: ev True diff_diff set_task_ids_Cons [of e rest]
          set_task_ids_Cons [of e "takeWhile (is_canc ?C) rest @ [f]" for f] Un_assoc
          del: dropWhile_eq_Nil_conv)
  qed
qed

lemma collect_frontier_closed:
  "distinct (task_ids (events s)) \<Longrightarrow>
   collect_frontier t s =
     (filter (\<lambda>e. \<not> is_canc (cancelled_tasks s) e) (takeWhile (\<lambda>e. entry_time e = t) (events s)),
      s\<lparr>events := dropWhile (\<lambda>e. entry_time e = t) (events s),
        cancelled_tasks := cancelled_tasks s -
          set (task_ids (takeWhile (\<lambda>e. entry_time e = t) (events s)))\<rparr>)"
proof (induction "events s" arbitrary: s)
  case Nil
  then show ?case by (simp add: collect_frontier.simps)
next
  case (Cons e rest s)
  note ev = \<open>e # rest = events s\<close> [symmetric]
  let ?C = "cancelled_tasks s"
  let ?C' = "?C - set (task_ids [e])"
  let ?F = "takeWhile (\<lambda>e. entry_time e = t) rest"
  let ?s = "s\<lparr>events := rest, cancelled_tasks := ?C'\<rparr>"
  show ?case
  proof (cases "entry_time e = t")
    case False
    with ev show ?thesis by (simp add: collect_frontier.simps)
  next
    case True
    have d: "distinct (task_ids rest)"
      using Cons.prems ev by (cases e) auto
    have same: "is_canc ?C' f = is_canc ?C f" if "f \<in> set rest" for f
      using that is_canc_diff [of f rest "[e]" ?C] Cons.prems ev by simp
    have F: "filter (\<lambda>e. \<not> is_canc ?C' e) ?F = filter (\<lambda>e. \<not> is_canc ?C e) ?F"
      by (intro filter_cong refl) (auto dest: set_takeWhileD simp: same)
    have "collect_frontier t ?s =
        (filter (\<lambda>e. \<not> is_canc ?C e) ?F,
         s\<lparr>events := dropWhile (\<lambda>e. entry_time e = t) rest,
            cancelled_tasks := ?C' - set (task_ids ?F)\<rparr>)"
      using Cons.hyps(1) [of ?s] d F by simp
    then show ?thesis
      by (cases "is_canc ?C e")
        (simp_all add: ev True collect_frontier.simps [of t s] is_cancelled_eq diff_diff
          set_task_ids_Cons [of e ?F])
  qed
qed

section \<open>Invariants\<close>

text \<open>
  The queue is ordered, no entry lies in the past, and sequence numbers are distinct and
  were all issued.
\<close>

definition sched_ok :: "('ev, 't, 'v, 'z) scheduler_scheme \<Rightarrow> bool" where
  "sched_ok s \<longleftrightarrow>
     heap_ok event_key (events s) \<and>
     (\<forall>e\<in>set (events s). time s \<le> entry_time e) \<and>
     distinct (map seq (events s)) \<and>
     (\<forall>e\<in>set (events s). seq e \<le> next_event_id s)"

definition issued :: "('ev, 't, 'v, 'z) scheduler_scheme \<Rightarrow> task_id \<Rightarrow> bool" where
  "issued s i \<longleftrightarrow>
     (\<exists>k. 0 < k \<and> k \<le> next_task_id s \<and>
        i = deterministic_uuid (id_seed s) UUID_DOMAIN_TASK (word_of_nat k))"

text \<open>The task counter still fits its 64-bit word.\<close>

definition ids_fit :: "('ev, 't, 'v, 'z) scheduler_scheme \<Rightarrow> bool" where
  "ids_fit s \<longleftrightarrow> next_task_id s < 2 ^ 64"

text \<open>
  Task bookkeeping. \<open>X\<close> holds the tasks whose entry has been popped but which have not
  been executed yet. Every other task that is pending or cancelled has exactly one entry in
  the queue, and no entry belongs to any other task.
\<close>

definition tasks_inv :: "task_id set \<Rightarrow> ('ev, 't, 'v, 'z) scheduler_scheme \<Rightarrow> bool" where
  "tasks_inv X s \<longleftrightarrow>
     distinct (task_ids (events s)) \<and>
     set (task_ids (events s)) \<inter> X = {} \<and>
     set (task_ids (events s)) \<union> X = dom (pending_tasks s) \<union> cancelled_tasks s \<and>
     dom (pending_tasks s) \<inter> cancelled_tasks s = {} \<and>
     (\<forall>i \<in> dom (pending_tasks s) \<union> cancelled_tasks s. issued s i)"

lemma with_seed_ok: "sched_ok (with_seed sd)" "tasks_inv {} (with_seed sd)"
  by (simp_all add: sched_ok_def tasks_inv_def with_seed_def)

lemma sched_ok_key_inj: "sched_ok s \<Longrightarrow> inj_on event_key (set (events s))"
  by (auto simp: sched_ok_def event_key_def distinct_map intro!: inj_onI dest: inj_onD)

lemma sorted_entry_times: "heap_ok event_key es \<Longrightarrow> sorted (map entry_time es)"
  by (induction es) (auto dest: event_key_le_time)

lemma live_subset: "set (live s) \<subseteq> set (events s)"
  by (auto simp: live_def)

section \<open>What removing an entry does\<close>

text \<open>
  The effect both pops share: the entry \<open>e\<close> and some entries of cancelled tasks leave
  the queue, the marks of the latter are consumed, the clock moves to the time of \<open>e\<close>,
  \<open>e\<close> is live, and nothing that stays behind is earlier than \<open>e\<close>.
\<close>

definition pop_effect ::
  "('ev, 't, 'v, 'z) scheduler_scheme \<Rightarrow> 'ev event_entry \<Rightarrow> ('ev, 't, 'v, 'z) scheduler_scheme \<Rightarrow> bool"
where
  "pop_effect s e s' \<longleftrightarrow>
     (\<exists>D. mset (events s) = add_mset e (mset (events s') + mset D) \<and>
          (\<forall>d\<in>set D. is_canc (cancelled_tasks s) d) \<and>
          s' = s\<lparr>events := events s', cancelled_tasks := cancelled_tasks s - set (task_ids D),
                 clock := as_nanos (entry_time e)\<rparr>) \<and>
     heap_ok event_key (events s') \<and>
     \<not> is_canc (cancelled_tasks s) e \<and>
     (\<forall>x\<in>set (live s) \<union> set (events s'). entry_time e \<le> entry_time x)"

lemma pop_live_None_iff:
  "distinct (task_ids (events s)) \<Longrightarrow> fst (pop_live s) = None \<longleftrightarrow> live s = []"
  by (simp add: pop_live_closed live_def filter_empty_conv split: list.split
      del: dropWhile_eq_Nil_conv) (metis dropWhile_eq_Nil_conv list.distinct(1))

lemma pop_live_SomeE:
  assumes d: "distinct (task_ids (events s))" and pl: "pop_live s = (Some e, s1)"
  obtains D rest where "events s = D @ e # rest" "\<forall>d\<in>set D. is_canc (cancelled_tasks s) d"
    "\<not> is_canc (cancelled_tasks s) e"
    "s1 = s\<lparr>events := rest, cancelled_tasks := cancelled_tasks s - set (task_ids D)\<rparr>"
    "live s = e # filter (\<lambda>x. \<not> is_canc (cancelled_tasks s) x) rest"
proof -
  let ?P = "is_canc (cancelled_tasks s)"
  from pl d obtain rest where dw: "dropWhile ?P (events s) = e # rest"
    and s1: "s1 = s\<lparr>events := rest, cancelled_tasks := cancelled_tasks s -
        set (task_ids (takeWhile ?P (events s) @ [e]))\<rparr>"
    by (auto simp: pop_live_closed split: list.splits)
  have e: "\<not> ?P e"
    using dw by (metis dropWhile_eq_Cons_conv)
  have "cancelled_tasks s - set (task_ids (takeWhile ?P (events s) @ [e])) =
      cancelled_tasks s - set (task_ids (takeWhile ?P (events s)))"
    using e by (cases e) auto
  moreover have "events s = takeWhile ?P (events s) @ e # rest"
    by (metis dw takeWhile_dropWhile_id)
  moreover have "live s = e # filter (\<lambda>x. \<not> ?P x) rest"
    using e filter_dropWhile_not [of ?P "events s"] by (simp add: live_def dw)
  moreover have "\<forall>d\<in>set (takeWhile ?P (events s)). ?P d"
    by (auto dest: set_takeWhileD)
  ultimately show thesis
    using that [of "takeWhile ?P (events s)" rest] e s1 by simp
qed

lemma pop_effect_pop:
  assumes ok: "sched_ok s" and d: "distinct (task_ids (events s))" and pop: "pop s = (Some e, s')"
  shows "pop_effect s e s' \<and> live s = e # live s'"
proof -
  from pop obtain s1 where pl: "pop_live s = (Some e, s1)"
    and s': "s' = s1\<lparr>clock := as_nanos (entry_time e)\<rparr>"
    by (auto simp: pop_def split: prod.splits option.splits)
  from pop_live_SomeE [OF d pl] obtain D rest where ev: "events s = D @ e # rest"
    and D: "\<forall>d\<in>set D. is_canc (cancelled_tasks s) d" and e: "\<not> is_canc (cancelled_tasks s) e"
    and s1: "s1 = s\<lparr>events := rest, cancelled_tasks := cancelled_tasks s - set (task_ids D)\<rparr>"
    and live: "live s = e # filter (\<lambda>x. \<not> is_canc (cancelled_tasks s) x) rest"
    by blast
  have srt: "heap_ok event_key (e # rest)"
    using ok ev by (auto simp: sched_ok_def sorted_append)
  have "is_canc (cancelled_tasks s - set (task_ids D)) x = is_canc (cancelled_tasks s) x"
    if "x \<in> set rest" for x
    by (rule is_canc_diff [of _ "e # rest"]) (use that d ev in auto)
  then have "live s' = filter (\<lambda>x. \<not> is_canc (cancelled_tasks s) x) rest"
    by (auto simp: live_def s' s1 intro: filter_cong)
  moreover have "\<forall>x\<in>set rest. entry_time e \<le> entry_time x"
    using srt by (auto dest: event_key_le_time)
  ultimately show ?thesis
    using srt D e ev live
    by (auto simp: pop_effect_def s' s1 intro!: exI [of _ D])
qed

text \<open>The two loops of \<open>pop_with_policy\<close> gather the earliest live entries.\<close>

lemma frontier_spec:
  assumes ok: "sched_ok s" and d: "distinct (task_ids (events s))"
    and pl: "pop_live s = (Some first, s1)"
    and cf: "collect_frontier (entry_time first) s1 = (others, s2)"
  obtains D h where
    "first # others = takeWhile (\<lambda>x. entry_time x = entry_time first) (live s)"
    "first # others = filter (\<lambda>x. entry_time x = entry_time first) (live s)"
    "mset (events s) = mset (first # others) + mset h + mset D"
    "\<forall>d\<in>set D. is_canc (cancelled_tasks s) d"
    "s2 = s\<lparr>events := h, cancelled_tasks := cancelled_tasks s - set (task_ids D)\<rparr>"
    "heap_ok event_key h"
    "\<forall>x\<in>set h. entry_time first < entry_time x"
    "\<forall>x\<in>set (live s). entry_time first \<le> entry_time x"
proof -
  let ?C = "cancelled_tasks s" and ?t = "entry_time first"
  from pop_live_SomeE [OF d pl] obtain D rest where ev: "events s = D @ first # rest"
    and D: "\<forall>d\<in>set D. is_canc ?C d" and e: "\<not> is_canc ?C first"
    and s1: "s1 = s\<lparr>events := rest, cancelled_tasks := ?C - set (task_ids D)\<rparr>"
    and live: "live s = first # filter (\<lambda>x. \<not> is_canc ?C x) rest"
    by blast
  let ?F = "filter (\<lambda>x. entry_time x = ?t) rest"
  let ?L = "filter (\<lambda>x. \<not> is_canc ?C x) ?F" and ?D = "D @ filter (is_canc ?C) ?F"
  have srt: "heap_ok event_key (first # rest)"
    using ok ev by (auto simp: sched_ok_def sorted_append)
  then have ge: "\<forall>x\<in>set rest. ?t \<le> entry_time x"
    by (auto dest: event_key_le_time)
  have drest: "distinct (task_ids rest)"
    using d ev by (cases first) auto
  have same: "is_canc (?C - set (task_ids D)) x = is_canc ?C x" if "x \<in> set rest" for x
    by (rule is_canc_diff [of _ "first # rest"]) (use that d ev in auto)
  have fl: "filter (\<lambda>x. entry_time x = ?t \<and> \<not> is_canc (?C - set (task_ids D)) x) rest =
      filter (\<lambda>x. entry_time x = ?t \<and> \<not> is_canc ?C x) rest"
    by (intro filter_cong refl) (auto simp: same)
  have "set (task_ids ?F) \<inter> ?C = set (task_ids (filter (is_canc ?C) ?F)) \<inter> ?C"
    by (force simp: task_ids_set is_canc_def)
  then have canc: "?C - set (task_ids D) - set (task_ids ?F) = ?C - set (task_ids ?D)"
    by auto
  have tw: "takeWhile (\<lambda>x. entry_time x = ?t) rest = ?F"
    and dw: "dropWhile (\<lambda>x. entry_time x = ?t) rest = filter (\<lambda>x. entry_time x \<noteq> ?t) rest"
    using sorted_entry_times [of rest] srt ge
    by (simp_all add: sorted_takeWhile_eq_filter sorted_dropWhile_eq_filter)
  have cf': "others = ?L"
    "s2 = s\<lparr>events := filter (\<lambda>x. entry_time x \<noteq> ?t) rest,
            cancelled_tasks := ?C - set (task_ids ?D)\<rparr>"
    using cf drest by (simp_all add: collect_frontier_closed s1 tw dw fl canc)
  have lf: "filter (\<lambda>x. entry_time x = ?t) (live s) = first # ?L"
    by (simp add: live conj_commute)
  have "sorted (map entry_time (live s))"
    using sorted_entry_times [of "events s"] ok
    by (simp add: live_def sched_ok_def sorted_filter)
  then have lt: "takeWhile (\<lambda>x. entry_time x = ?t) (live s) = first # ?L"
    using sorted_takeWhile_eq_filter [of entry_time "live s" ?t] ge lf by (simp add: live)
  have ms: "mset rest = mset ?L + mset (filter (is_canc ?C) ?F) +
      mset (filter (\<lambda>x. entry_time x \<noteq> ?t) rest)"
    by (induction rest) auto
  show thesis
  proof (rule that [of "filter (\<lambda>x. entry_time x \<noteq> ?t) rest" ?D])
    show "heap_ok event_key (filter (\<lambda>x. entry_time x \<noteq> ?t) rest)"
      using srt by (simp add: sorted_filter)
    show "\<forall>x\<in>set (filter (\<lambda>x. entry_time x \<noteq> ?t) rest). ?t < entry_time x"
      using ge by (auto simp: order_le_less)
    show "\<forall>x\<in>set (live s). ?t \<le> entry_time x"
      using ge by (auto simp: live)
    show "mset (events s) =
        mset (first # others) + mset (filter (\<lambda>x. entry_time x \<noteq> ?t) rest) + mset ?D"
      using ms by (simp add: ev cf' ac_simps)
  qed (use D lf lt cf' in auto)
qed

lemma fold_push_mset [simp]: "mset (fold (heap_push k) xs h) = mset xs + mset h"
  by (induction xs arbitrary: h) auto

lemma fold_push_ok: "heap_ok k h \<Longrightarrow> heap_ok k (fold (heap_push k) xs h)"
  by (induction xs arbitrary: h) (auto intro: heap_ok_push)

text \<open>The panic branch of \<open>swap_remove\<close> is never taken.\<close>

lemma pop_with_policy_total:
  "distinct (task_ids (events s)) \<Longrightarrow>
   fst (pop_with_policy policy p s) = None \<longleftrightarrow> live s = []"
  using pop_live_None_iff [of s]
  by (auto simp: pop_with_policy_def Let_def swap_remove_def min_def split: prod.splits option.splits)

lemma pop_effect_with_policy:
  assumes ok: "sched_ok s" and d: "distinct (task_ids (events s))"
    and pop: "pop_with_policy policy p s = (Some e, p', s')"
  shows "pop_effect s e s'"
proof -
  from pop obtain first s1 others s2 i R where pl: "pop_live s = (Some first, s1)"
    and cf: "collect_frontier (entry_time first) s1 = (others, s2)"
    and sr: "swap_remove (first # others) i = Some (e, R)"
    and s': "s' = s2\<lparr>events := fold (heap_push event_key) R (events s2),
                     clock := as_nanos (entry_time first)\<rparr>"
    by (auto simp: pop_with_policy_def Let_def split: prod.splits option.splits)
  let ?t = "entry_time first"
  from frontier_spec [OF ok d pl cf] obtain D h where
    fl: "first # others = filter (\<lambda>x. entry_time x = ?t) (live s)"
    and ms: "mset (events s) = mset (first # others) + mset h + mset D"
    and D: "\<forall>d\<in>set D. is_canc (cancelled_tasks s) d"
    and s2: "s2 = s\<lparr>events := h, cancelled_tasks := cancelled_tasks s - set (task_ids D)\<rparr>"
    and hp: "heap_ok event_key h"
    and later: "\<forall>x\<in>set h. ?t < entry_time x"
    and least: "\<forall>x\<in>set (live s). ?t \<le> entry_time x"
    by metis
  have fr: "set (first # others) = insert e (set R)" "mset (first # others) = add_mset e (mset R)"
    using swap_remove_set [OF sr] swap_remove_mset [OF sr] by simp_all
  have "set (first # others) = {x \<in> set (live s). entry_time x = ?t}"
    by (simp add: fl)
  then have e: "e \<in> set (live s)" and R: "\<forall>x\<in>insert e (set R). entry_time x = ?t"
    using fr(1) by auto
  have evs': "mset (events s') = mset R + mset h"
    by (simp add: s' s2)
  have "\<exists>D. mset (events s) = add_mset e (mset (events s') + mset D) \<and>
          (\<forall>d\<in>set D. is_canc (cancelled_tasks s) d) \<and>
          s' = s\<lparr>events := events s', cancelled_tasks := cancelled_tasks s - set (task_ids D),
                 clock := as_nanos (entry_time e)\<rparr>"
    using ms fr(2) D evs' R by (intro exI [of _ D]) (auto simp: s' s2)
  moreover have "heap_ok event_key (events s')"
    using hp by (simp add: s' s2 fold_push_ok)
  moreover have "\<not> is_canc (cancelled_tasks s) e"
    using e by (simp add: live_def)
  moreover have "set (events s') = set R \<union> set h"
    using evs' by (metis set_mset_mset set_mset_union)
  ultimately show ?thesis
    using later least R by (auto simp: pop_effect_def)
qed

subsection \<open>Consequences of the effect\<close>

lemma pop_effectE:
  assumes "pop_effect s e s'"
  obtains D h where "mset (events s) = add_mset e (mset h + mset D)"
    "\<forall>d\<in>set D. is_canc (cancelled_tasks s) d"
    "s' = s\<lparr>events := h, cancelled_tasks := cancelled_tasks s - set (task_ids D),
            clock := as_nanos (entry_time e)\<rparr>"
    "heap_ok event_key h" "\<not> is_canc (cancelled_tasks s) e"
    "\<forall>x\<in>set (live s) \<union> set h. entry_time e \<le> entry_time x"
  using assms unfolding pop_effect_def by blast

lemma pop_effect_split:
  assumes ms: "mset (events s) = add_mset e (mset h + mset D)" and d: "distinct (task_ids (events s))"
  shows "distinct (task_ids (e # D @ h))" "set (events s) = set (e # D @ h)"
    "set (task_ids (events s)) = set (task_ids (e # D @ h))"
proof -
  have m: "mset (events s) = mset (e # D @ h)"
    using ms by (simp add: ac_simps)
  from mset_eq_imp_distinct_iff [OF task_ids_perm [OF m]] d
  show "distinct (task_ids (e # D @ h))" by simp
  from mset_eq_setD [OF m] show "set (events s) = set (e # D @ h)" .
  from mset_eq_setD [OF task_ids_perm [OF m]]
  show "set (task_ids (events s)) = set (task_ids (e # D @ h))" .
qed

lemma pop_effect_live:
  assumes pe: "pop_effect s e s'" and d: "distinct (task_ids (events s))"
  shows "mset (live s) = add_mset e (mset (live s'))"
proof -
  from pe obtain D h where ms: "mset (events s) = add_mset e (mset h + mset D)"
    and D: "\<forall>d\<in>set D. is_canc (cancelled_tasks s) d"
    and s': "s' = s\<lparr>events := h, cancelled_tasks := cancelled_tasks s - set (task_ids D),
            clock := as_nanos (entry_time e)\<rparr>"
    and e: "\<not> is_canc (cancelled_tasks s) e"
    by (rule pop_effectE)
  have "distinct (task_ids (D @ h))"
    using pop_effect_split(1) [OF ms d] by (cases e) auto
  then have "is_canc (cancelled_tasks s - set (task_ids D)) x = is_canc (cancelled_tasks s) x"
    if "x \<in> set h" for x
    using that by (rule is_canc_diff [rotated])
  then have "live s' = filter (\<lambda>x. \<not> is_canc (cancelled_tasks s) x) h"
    by (auto simp: live_def s' intro: filter_cong)
  moreover have "filter_mset (\<lambda>x. \<not> is_canc (cancelled_tasks s) x) (mset D) = {#}"
    using D by auto
  ultimately show ?thesis
    using ms e by (simp add: live_def)
qed

lemma pop_effect_time:
  assumes "pop_effect s e s'" "sched_ok s"
  shows "time s' = entry_time e" "time s \<le> time s'" "\<forall>x\<in>set (live s). entry_time e \<le> entry_time x"
proof -
  from assms(1) obtain D h where ms: "mset (events s) = add_mset e (mset h + mset D)"
    and s': "s' = s\<lparr>events := h, cancelled_tasks := cancelled_tasks s - set (task_ids D),
            clock := as_nanos (entry_time e)\<rparr>"
    and le: "\<forall>x\<in>set (live s) \<union> set h. entry_time e \<le> entry_time x"
    by (rule pop_effectE)
  show t: "time s' = entry_time e"
    by (simp add: time_eq s')
  have "e \<in> set (events s)"
    using ms by (metis set_mset_mset union_single_eq_member)
  with assms(2) t show "time s \<le> time s'"
    by (auto simp: sched_ok_def)
  from le show "\<forall>x\<in>set (live s). entry_time e \<le> entry_time x" by blast
qed

lemma pop_effect_sched_ok:
  assumes pe: "pop_effect s e s'" and ok: "sched_ok s"
  shows "sched_ok s'"
proof -
  from pe obtain D h where ms: "mset (events s) = add_mset e (mset h + mset D)"
    and s': "s' = s\<lparr>events := h, cancelled_tasks := cancelled_tasks s - set (task_ids D),
            clock := as_nanos (entry_time e)\<rparr>"
    and hp: "heap_ok event_key h"
    and le: "\<forall>x\<in>set (live s) \<union> set h. entry_time e \<le> entry_time x"
    by (rule pop_effectE)
  have "mset (map seq (events s)) = mset (map seq (e # h @ D))"
    using ms by simp
  then have "distinct (map seq h)"
    using ok mset_eq_imp_distinct_iff by (fastforce simp: sched_ok_def)
  moreover have "set h \<subseteq> set (events s)"
    using ms by (metis set_mset_mset set_mset_add_mset_insert set_mset_union subset_insertI2 sup_ge1)
  ultimately show ?thesis
    using ok hp le by (auto simp: sched_ok_def s' time_eq)
qed

lemma pop_effect_tasks:
  assumes pe: "pop_effect s e s'" and ti: "tasks_inv {} s"
  shows "tasks_inv (set (task_ids [e])) s'" "set (task_ids [e]) \<subseteq> dom (pending_tasks s')"
proof -
  from pe obtain D h where ms: "mset (events s) = add_mset e (mset h + mset D)"
    and D: "\<forall>d\<in>set D. is_canc (cancelled_tasks s) d"
    and s': "s' = s\<lparr>events := h, cancelled_tasks := cancelled_tasks s - set (task_ids D),
            clock := as_nanos (entry_time e)\<rparr>"
    and e: "\<not> is_canc (cancelled_tasks s) e"
    by (rule pop_effectE)
  have d: "distinct (task_ids (events s))" using ti by (simp add: tasks_inv_def)
  note sp = pop_effect_split [OF ms d]
  have cD: "set (task_ids D) \<subseteq> cancelled_tasks s"
    using D by (force simp: task_ids_set is_canc_def)
  have nD: "set (task_ids D) \<inter> set (task_ids h) = {}"
    and ne: "set (task_ids [e]) \<inter> (set (task_ids D) \<union> set (task_ids h)) = {}"
    and dh: "distinct (task_ids h)"
    using sp(1) by (cases e; auto)+
  have un: "set (task_ids (events s)) = set (task_ids [e]) \<union> set (task_ids D) \<union> set (task_ids h)"
    using sp(3) by (cases e) auto
  have ce: "set (task_ids [e]) \<inter> cancelled_tasks s = {}"
    using e by (cases e) auto
  have pc: "set (task_ids (events s)) = dom (pending_tasks s) \<union> cancelled_tasks s"
    and dj: "dom (pending_tasks s) \<inter> cancelled_tasks s = {}"
    and iss: "\<forall>i \<in> dom (pending_tasks s) \<union> cancelled_tasks s. issued s i"
    using ti by (simp_all add: tasks_inv_def)
  have un': "set (task_ids h) \<union> set (task_ids [e]) =
      dom (pending_tasks s) \<union> (cancelled_tasks s - set (task_ids D))"
    using un pc cD nD ne dj by blast
  have "set (task_ids h) \<inter> set (task_ids [e]) = {}"
    using ne by blast
  then show "tasks_inv (set (task_ids [e])) s'"
    using dh un' dj iss by (auto simp: tasks_inv_def s' issued_def)
  show "set (task_ids [e]) \<subseteq> dom (pending_tasks s')"
    using pc ce un by (auto simp: s')
qed

text \<open>The pops leave the counters and the ambient state alone, whatever the state.\<close>

lemma pop_live_frame:
  "next_task_id (snd (pop_live s)) = next_task_id s \<and> scheduler.more (snd (pop_live s)) = scheduler.more s"
proof (induction "events s" arbitrary: s)
  case Nil
  then show ?case by (simp add: pop_live.simps [of s])
next
  case (Cons e rest s)
  let ?s = "s\<lparr>events := rest, cancelled_tasks := cancelled_tasks s - set (task_ids [e])\<rparr>"
  note Cons.hyps(1) [of ?s]
  with Cons.hyps(2) [symmetric] show ?case
    by (simp add: pop_live.simps [of s] is_cancelled_eq)
qed

lemma collect_frontier_frame:
  "next_task_id (snd (collect_frontier t s)) = next_task_id s \<and>
   scheduler.more (snd (collect_frontier t s)) = scheduler.more s"
proof (induction "events s" arbitrary: s)
  case Nil
  then show ?case by (simp add: collect_frontier.simps [of t s])
next
  case (Cons e rest s)
  let ?s = "s\<lparr>events := rest, cancelled_tasks := cancelled_tasks s - set (task_ids [e])\<rparr>"
  note Cons.hyps(1) [of ?s]
  with Cons.hyps(2) [symmetric] show ?case
    by (simp add: collect_frontier.simps [of t s] is_cancelled_eq split_beta)
qed

lemma pop_with_policy_frame:
  assumes "pop_with_policy pol p s = (r, p', s')"
  shows "next_task_id s' = next_task_id s \<and> scheduler.more s' = scheduler.more s"
proof -
  obtain r1 s1 where pl: "pop_live s = (r1, s1)" by fastforce
  have f: "next_task_id s1 = next_task_id s \<and> scheduler.more s1 = scheduler.more s"
    using pop_live_frame [of s] pl by simp
  show ?thesis
  proof (cases r1)
    case None
    with assms pl f show ?thesis by (simp add: pop_with_policy_def)
  next
    case (Some e)
    with assms pl f collect_frontier_frame [of "entry_time e" s1] show ?thesis
      by (auto simp: pop_with_policy_def Let_def split_beta split: option.splits if_splits)
  qed
qed

text \<open>
  What the pops do to the queue, without any assumption on the cancelled tasks: entries only
  leave it, and the earliest time among the entries is not passed.
\<close>

lemma pop_live_split:
  "pop_live s = (r, s1) \<Longrightarrow>
   (\<exists>D. events s = D @ (case r of None \<Rightarrow> [] | Some e \<Rightarrow> [e]) @ events s1)
   \<and> clock s1 = clock s \<and> next_event_id s1 = next_event_id s \<and> (r = None \<longrightarrow> events s1 = [])"
proof (induction "events s" arbitrary: s)
  case Nil
  then show ?case by (auto simp: pop_live.simps [of s])
next
  case (Cons e rest s)
  let ?s = "s\<lparr>events := rest, cancelled_tasks := cancelled_tasks s - set (task_ids [e])\<rparr>"
  note ev = Cons.hyps(2) [symmetric]
  show ?case
  proof (cases "is_canc (cancelled_tasks s) e")
    case True
    then have "pop_live ?s = (r, s1)"
      using Cons.prems ev by (simp add: pop_live.simps [of s] is_cancelled_eq)
    from Cons.hyps(1) [OF _ this] have ih:
      "\<exists>D. rest = D @ (case r of None \<Rightarrow> [] | Some e \<Rightarrow> [e]) @ events s1"
      "clock s1 = clock s \<and> next_event_id s1 = next_event_id s \<and> (r = None \<longrightarrow> events s1 = [])"
      by simp_all
    then obtain D where "rest = D @ (case r of None \<Rightarrow> [] | Some e \<Rightarrow> [e]) @ events s1"
      and fr: "clock s1 = clock s \<and> next_event_id s1 = next_event_id s \<and> (r = None \<longrightarrow> events s1 = [])"
      by blast
    then have "events s = (e # D) @ (case r of None \<Rightarrow> [] | Some e \<Rightarrow> [e]) @ events s1"
      by (simp add: ev)
    with fr show ?thesis by blast
  next
    case False
    then have "r = Some e" "s1 = ?s"
      using Cons.prems ev by (simp_all add: pop_live.simps [of s] is_cancelled_eq)
    then show ?thesis
      using ev by simp
  qed
qed

lemma collect_frontier_split:
  "collect_frontier t s = (es, s1) \<Longrightarrow>
   (\<exists>F. events s = F @ events s1 \<and> mset es \<subseteq># mset F \<and> (\<forall>x\<in>set es. entry_time x = t))
   \<and> clock s1 = clock s \<and> next_event_id s1 = next_event_id s"
proof (induction "events s" arbitrary: s es s1)
  case Nil
  then show ?case by (auto simp: collect_frontier.simps [of t s])
next
  case (Cons e rest s)
  let ?s = "s\<lparr>events := rest, cancelled_tasks := cancelled_tasks s - set (task_ids [e])\<rparr>"
  note ev = Cons.hyps(2) [symmetric]
  show ?case
  proof (cases "entry_time e = t")
    case False
    then show ?thesis
      using Cons.prems ev by (auto simp: collect_frontier.simps [of t s] intro: exI [of _ "[]"])
  next
    case True
    obtain fs s2 where cf: "collect_frontier t ?s = (fs, s2)" by fastforce
    from Cons.hyps(1) [OF _ cf] obtain F where F: "rest = F @ events s2" "mset fs \<subseteq># mset F"
      "\<forall>x\<in>set fs. entry_time x = t" and fr: "clock s2 = clock s" "next_event_id s2 = next_event_id s"
      by auto
    have es: "es = (if is_canc (cancelled_tasks s) e then fs else e # fs)" "s1 = s2"
      using Cons.prems ev True cf
      by (simp_all add: collect_frontier.simps [of t s] is_cancelled_eq split: if_splits)
    have "events s = (e # F) @ events s1" "mset es \<subseteq># mset (e # F)" "\<forall>x\<in>set es. entry_time x = t"
      using F es ev True by (auto simp: subset_mset.add_increasing2 subset_mset.trans
          intro: subset_mset.order_trans)
    with fr es show ?thesis by blast
  qed
qed

lemma pop_with_policy_split:
  assumes pop: "pop_with_policy pol p s = (Some e, p', s')" and ok: "sched_ok s"
  shows "add_mset e (mset (events s')) \<subseteq># mset (events s)" "time s' = entry_time e"
    "sched_ok s'" "\<forall>x\<in>set (events s'). entry_time e \<le> entry_time x"
proof -
  from pop obtain first s1 others s2 i R where pl: "pop_live s = (Some first, s1)"
    and cf: "collect_frontier (entry_time first) s1 = (others, s2)"
    and sr: "swap_remove (first # others) i = Some (e, R)"
    and s': "s' = s2\<lparr>events := fold (heap_push event_key) R (events s2),
                     clock := as_nanos (entry_time first)\<rparr>"
    by (auto simp: pop_with_policy_def Let_def split: prod.splits option.splits)
  from pop_live_split [OF pl] obtain D where D: "events s = D @ first # events s1"
    and f1: "next_event_id s1 = next_event_id s" by auto
  from collect_frontier_split [OF cf] obtain F where F: "events s1 = F @ events s2"
    "mset others \<subseteq># mset F" "\<forall>x\<in>set others. entry_time x = entry_time first"
    and f2: "next_event_id s2 = next_event_id s" using f1 by auto
  note R = swap_remove_mset [OF sr] swap_remove_set [OF sr]
  have e: "entry_time e = entry_time first" and tR: "\<forall>x\<in>set R. entry_time x = entry_time first"
    using R(2) F(3) by auto
  have "mset (first # others) + mset (events s2) \<subseteq># mset (first # F) + mset (events s2)"
    using F(2) by simp
  also have "\<dots> \<subseteq># mset (events s)"
    by (simp add: D F(1))
  finally have "mset (first # others) + mset (events s2) \<subseteq># mset (events s)" .
  then have "add_mset e (mset R) + mset (events s2) \<subseteq># mset (events s)"
    unfolding R(1) .
  then show sub: "add_mset e (mset (events s')) \<subseteq># mset (events s)"
    by (simp add: s')
  show "time s' = entry_time e"
    by (simp add: time_eq s' e)
  have "heap_ok event_key (first # events s1)"
    using ok D by (auto simp: sched_ok_def sorted_append)
  then have ge: "\<forall>x\<in>set (events s2). entry_time first \<le> entry_time x" and hp: "heap_ok event_key (events s2)"
    using F(1) by (auto simp: sorted_append dest: event_key_le_time)
  have set': "set (events s') = set R \<union> set (events s2)"
    by (metis fold_push_mset s' scheduler.select_convs(4) scheduler.surjective
        scheduler.update_convs(4,5) set_mset_mset set_mset_union)
  then show le: "\<forall>x\<in>set (events s'). entry_time e \<le> entry_time x"
    using ge tR e by auto
  have sset: "set (events s') \<subseteq> set (events s)"
    using sub by (metis mset_subset_eqD set_mset_mset subset_iff subset_mset.order_trans
        subset_mset.less_imp_le subset_mset.add_increasing subset_mset.zero_le multi_psub_of_add_self)
  have "mset (map seq (events s')) \<subseteq># mset (map seq (events s))"
    using image_mset_subseteq_mono [OF sub, of seq] by (simp add: subset_mset.order_trans)
      (meson mset_subset_eq_add_right subset_mset.order_trans subset_mset.order_refl mset_subset_eq_insertD subset_mset.less_imp_le)
  then have "distinct (map seq (events s'))"
    by (rule distinct_subseteq_mset) (use ok in \<open>simp add: sched_ok_def\<close>)
  then show "sched_ok s'"
    using ok le hp sset by (auto simp: sched_ok_def s' f2 time_eq e fold_push_ok)
qed

section \<open>Scheduling calls keep the invariants\<close>

lemma schedule_fields [sched_simps]:
  "next_event_id (schedule d k ev s) = next_event_id s + 1"
  "id_seed (schedule d k ev s) = id_seed s"
  "next_task_id (schedule d k ev s) = next_task_id s"
  "events (schedule d k ev s) =
     heap_push event_key
       (Component \<lparr>ce_event_id = next_event_id s + 1, ce_time = add_simtime (time s) d,
                   component = k, inner = ev\<rparr>) (events s)"
  "clock (schedule d k ev s) = clock s"
  "pending_tasks (schedule d k ev s) = pending_tasks s"
  "completed_task_results (schedule d k ev s) = completed_task_results s"
  "cancelled_tasks (schedule d k ev s) = cancelled_tasks s"
  "executing_task_id (schedule d k ev s) = executing_task_id s"
  by (simp_all add: schedule_def Let_def time_eq)

lemma schedule_task_at_fields [sched_simps]:
  "next_event_id (schedule_task_at t i task s) = next_event_id s + 1"
  "id_seed (schedule_task_at t i task s) = id_seed s"
  "next_task_id (schedule_task_at t i task s) = next_task_id s"
  "events (schedule_task_at t i task s) =
     heap_push event_key
       (Task \<lparr>te_event_id = next_event_id s + 1, te_time = t, te_task_id = i\<rparr>) (events s)"
  "clock (schedule_task_at t i task s) = clock s"
  "pending_tasks (schedule_task_at t i task s) = (pending_tasks s)(i \<mapsto> task)"
  "completed_task_results (schedule_task_at t i task s) = completed_task_results s"
  "cancelled_tasks (schedule_task_at t i task s) = cancelled_tasks s"
  "executing_task_id (schedule_task_at t i task s) = executing_task_id s"
  by (simp_all add: schedule_task_at_def Let_def)

lemma schedule_task_eq:
  "schedule_task delay task s =
     (let i = deterministic_uuid (id_seed s) UUID_DOMAIN_TASK (word_of_nat (next_task_id s + 1))
      in (i, schedule_task_at (add_simtime (time s) delay) i task
               (s\<lparr>next_task_id := next_task_id s + 1\<rparr>)))"
  by (simp add: schedule_task_def Let_def time_eq)

lemma sched_ok_push:
  assumes "sched_ok s" and "seq e = next_event_id s + 1" and "time s \<le> entry_time e"
    and "events s' = heap_push event_key e (events s)" and "clock s' = clock s"
    and "next_event_id s' = next_event_id s + 1"
  shows "sched_ok s'"
proof -
  have new: "\<forall>x\<in>set (events s). seq x < next_event_id s + 1"
    using assms(1) by (auto simp: sched_ok_def)
  have "mset (map seq (events s')) = mset (seq e # map seq (events s))"
    by (simp add: assms(4))
  moreover have "distinct (seq e # map seq (events s))"
    using new assms(1,2) by (auto simp: sched_ok_def)
  ultimately have "distinct (map seq (events s'))"
    by (metis mset_eq_imp_distinct_iff)
  then show ?thesis
    using assms new by (auto simp: sched_ok_def time_eq intro: heap_ok_push order.strict_implies_order)
qed

lemma sched_ok_schedule: "sched_ok s \<Longrightarrow> sched_ok (schedule d k ev s)"
  by (erule sched_ok_push) (auto simp: sched_simps)

lemma sched_ok_schedule_task_at:
  "sched_ok s \<Longrightarrow> time s \<le> t \<Longrightarrow> sched_ok (schedule_task_at t i task s)"
  by (erule sched_ok_push) (auto simp: sched_simps)

lemma tasks_inv_schedule: "tasks_inv X s \<Longrightarrow> tasks_inv X (schedule d k ev s)"
  by (simp add: tasks_inv_def issued_def sched_simps)

lemma word_of_nat_eq_iff_u64:
  "m < 2 ^ 64 \<Longrightarrow> n < 2 ^ 64 \<Longrightarrow> (word_of_nat m :: u64) = word_of_nat n \<longleftrightarrow> m = n"
  by (simp add: word_of_nat_eq_iff take_bit_nat_eq_self)

lemma issued_next:
  "next_task_id s + 1 < 2 ^ 64 \<Longrightarrow>
   \<not> issued s (deterministic_uuid (id_seed s) UUID_DOMAIN_TASK (word_of_nat (next_task_id s + 1)))"
proof
  assume fit: "next_task_id s + 1 < 2 ^ 64"
    and "issued s (deterministic_uuid (id_seed s) UUID_DOMAIN_TASK (word_of_nat (next_task_id s + 1)))"
  then obtain k where k: "k \<le> next_task_id s"
    and eq: "(word_of_nat k :: u64) = word_of_nat (next_task_id s + 1)"
    by (auto simp: issued_def task_uuid_inj)
  show False
    using word_of_nat_eq_iff_u64 [of k "next_task_id s + 1"] fit k eq by simp
qed

lemma issued_mono:
  "issued s i \<Longrightarrow> id_seed s' = id_seed s \<Longrightarrow> next_task_id s \<le> next_task_id s' \<Longrightarrow> issued s' i"
  by (auto simp: issued_def)

lemma tasks_inv_schedule_task_at:
  assumes "tasks_inv X s" "i \<notin> dom (pending_tasks s) \<union> cancelled_tasks s" "issued s i"
  shows "tasks_inv X (schedule_task_at t i task s)"
proof -
  have "i \<notin> set (task_ids (events s)) \<union> X"
    using assms(1,2) by (auto simp: tasks_inv_def)
  then show ?thesis
    using assms by (auto simp: tasks_inv_def sched_simps issued_def)
qed

lemma sched_ok_frame [simp]:
  "sched_ok (s\<lparr>next_task_id := n\<rparr>) = sched_ok s"
  "sched_ok (s\<lparr>pending_tasks := P\<rparr>) = sched_ok s"
  "sched_ok (s\<lparr>cancelled_tasks := C\<rparr>) = sched_ok s"
  "sched_ok (s\<lparr>completed_task_results := R\<rparr>) = sched_ok s"
  "sched_ok (s\<lparr>executing_task_id := x\<rparr>) = sched_ok s"
  "sched_ok (s\<lparr>scheduler.more := z\<rparr>) = sched_ok s"
  by (simp_all add: sched_ok_def time_eq)

lemma sched_ok_schedule_task: "sched_ok s \<Longrightarrow> sched_ok (snd (schedule_task d task s))"
  by (simp add: schedule_task_eq Let_def sched_ok_schedule_task_at time_eq)

text \<open>A new task gets an identifier that no earlier task of this scheduler has had.\<close>

lemma schedule_task_tasks_inv:
  assumes ti: "tasks_inv X s" and fit: "ids_fit s'" and st: "schedule_task d task s = (i, s')"
  shows "tasks_inv X s' \<and> \<not> issued s i \<and> issued s' i"
proof -
  let ?s = "s\<lparr>next_task_id := next_task_id s + 1\<rparr>"
  from st have i: "i = deterministic_uuid (id_seed s) UUID_DOMAIN_TASK (word_of_nat (next_task_id s + 1))"
    and s': "s' = schedule_task_at (add_simtime (time s) d) i task ?s"
    by (auto simp: schedule_task_eq Let_def)
  have new: "\<not> issued s i"
    unfolding i by (rule issued_next) (use fit in \<open>simp add: s' ids_fit_def sched_simps\<close>)
  have "issued ?s i"
    by (auto simp: issued_def i intro!: exI [of _ "next_task_id s + 1"])
  moreover have "issued ?s j" if "issued s j" for j
    using that by (rule issued_mono) simp_all
  then have "tasks_inv X ?s"
    using ti by (auto simp: tasks_inv_def)
  moreover have "i \<notin> dom (pending_tasks ?s) \<union> cancelled_tasks ?s"
    using new ti by (auto simp: tasks_inv_def)
  ultimately show ?thesis
    using new tasks_inv_schedule_task_at [of X ?s i "add_simtime (time s) d" task]
    by (simp add: s') (simp add: issued_def sched_simps)
qed

lemma cancel_task_fields [sched_simps]:
  "next_event_id (snd (cancel_task i s)) = next_event_id s"
  "id_seed (snd (cancel_task i s)) = id_seed s"
  "next_task_id (snd (cancel_task i s)) = next_task_id s"
  "events (snd (cancel_task i s)) = events s"
  "clock (snd (cancel_task i s)) = clock s"
  "pending_tasks (snd (cancel_task i s)) = (pending_tasks s)(i := None)"
  "completed_task_results (snd (cancel_task i s)) = completed_task_results s"
  "cancelled_tasks (snd (cancel_task i s)) =
     (if i \<in> dom (pending_tasks s) then insert i (cancelled_tasks s) else cancelled_tasks s)"
  "executing_task_id (snd (cancel_task i s)) = executing_task_id s"
  by (auto simp: cancel_task_def Let_def)

lemma cancel_task_ok:
  "sched_ok s \<Longrightarrow> sched_ok (snd (cancel_task i s))"
  "tasks_inv X s \<Longrightarrow> tasks_inv X (snd (cancel_task i s))"
  by (auto simp: sched_ok_def tasks_inv_def time_eq sched_simps issued_def)

section \<open>The calls available to user code\<close>

text \<open>
  Components and tasks get the scheduler as \<open>&mut Scheduler\<close>. Its fields are private, so
  all they can do to it is to call its public operations; \<open>api_step\<close> has one rule per
  operation they use. The last rule is for the state outside the scheduler (thread-local
  buffers), which the record extension holds.
\<close>

inductive api_step ::
  "('ev, 't, 'v, 'z) scheduler_scheme \<Rightarrow> ('ev, 't, 'v, 'z) scheduler_scheme \<Rightarrow> bool"
where
  api_schedule: "api_step s (schedule d k ev s)"
| api_schedule_task: "api_step s (snd (schedule_task d task s))"
| api_cancel_task: "api_step s (snd (cancel_task i s))"
| api_get_result: "api_step s (snd (get_task_result Some i s))"
| api_ambient: "api_step s (s\<lparr>scheduler.more := z\<rparr>)"

abbreviation api_run ::
  "('ev, 't, 'v, 'z) scheduler_scheme \<Rightarrow> ('ev, 't, 'v, 'z) scheduler_scheme \<Rightarrow> bool"
where
  "api_run \<equiv> api_step\<^sup>*\<^sup>*"

lemma api_step_frame:
  assumes "api_step s s'"
  shows "clock s' = clock s \<and> executing_task_id s' = executing_task_id s \<and> id_seed s' = id_seed s
    \<and> next_task_id s \<le> next_task_id s' \<and> (sched_ok s \<longrightarrow> sched_ok s')"
  using assms
proof (induction rule: api_step.induct)
  case (api_schedule_task s d task)
  then show ?case
    using sched_ok_schedule_task [of s d task] by (simp add: schedule_task_eq Let_def sched_simps)
qed (auto simp: sched_simps sched_ok_schedule cancel_task_ok get_task_result_def)

lemma api_run_frame:
  assumes "api_run s s'"
  shows "clock s' = clock s \<and> executing_task_id s' = executing_task_id s \<and> id_seed s' = id_seed s
    \<and> next_task_id s \<le> next_task_id s' \<and> (sched_ok s \<longrightarrow> sched_ok s')"
  using assms by (induction rule: rtranclp_induct) (auto dest!: api_step_frame)

lemma api_step_tasks_inv:
  assumes "api_step s s'" "tasks_inv X s" "ids_fit s'"
  shows "tasks_inv X s'"
  using assms
proof (induction rule: api_step.induct)
  case (api_schedule_task s d task)
  then show ?case
    using schedule_task_tasks_inv [of X s _ d task] surjective_pairing by blast
next
  case (api_get_result s i)
  then show ?case by (simp add: get_task_result_def tasks_inv_def issued_def)
next
  case (api_ambient s z)
  then show ?case by (simp add: tasks_inv_def issued_def)
qed (simp_all add: tasks_inv_schedule cancel_task_ok)

lemma ids_fit_mono: "api_run s s' \<Longrightarrow> ids_fit s' \<Longrightarrow> ids_fit s"
  by (drule api_run_frame) (simp add: ids_fit_def)

lemma api_run_tasks_inv:
  assumes "api_run s s'" "tasks_inv X s" "ids_fit s'"
  shows "tasks_inv X s'"
  using assms
proof (induction rule: rtranclp_induct)
  case (step y z)
  then show ?case
    using api_step_tasks_inv ids_fit_mono [of y z] by blast
qed simp

text \<open>
  A task that was issued earlier and is neither pending nor cancelled stays so: user code
  cannot bring it back.
\<close>

lemma api_run_gone:
  assumes "api_run s s'" "issued s i" "i \<notin> dom (pending_tasks s) \<union> cancelled_tasks s" "ids_fit s'"
  shows "issued s' i \<and> i \<notin> dom (pending_tasks s') \<union> cancelled_tasks s'"
  using assms
proof (induction rule: rtranclp_induct)
  case (step y z)
  then have y: "issued y i" "i \<notin> dom (pending_tasks y) \<union> cancelled_tasks y"
    using ids_fit_mono [of y z] by auto
  have "issued z i"
    using y(1) api_step_frame [OF step.hyps(2)] issued_mono by blast
  moreover from step.hyps(2) y step.prems(3) have "i \<notin> dom (pending_tasks z) \<union> cancelled_tasks z"
  proof (induction rule: api_step.induct)
    case (api_schedule_task s d task)
    then show ?case
      using issued_next [of s]
      by (auto simp: schedule_task_eq Let_def sched_simps ids_fit_def split: if_splits)
  qed (auto simp: sched_simps get_task_result_def)
  ultimately show ?case ..
qed simp

section \<open>Properties of the pops\<close>

lemma live_head_least:
  assumes "sched_ok s" "live s = e # r"
  shows "\<forall>x\<in>set r. event_key e < event_key x"
proof -
  have "heap_ok event_key (live s)"
    using assms(1) by (simp add: sched_ok_def live_def sorted_filter)
  moreover have "distinct (map event_key (live s))"
    using assms(1) sched_ok_key_inj live_subset [of s]
    by (auto simp: distinct_map sched_ok_def live_def intro: inj_on_subset)
  ultimately show ?thesis
    by (auto simp: assms(2) order_le_less)
qed

text \<open>
  C26. Whatever the frontier policy answers, \<open>pop_with_policy\<close> neither loses nor
  duplicates an event: the live entries are those returned plus those left. The returned
  entry is one of the earliest live ones, the clock is set to its time, and time does not
  run backwards.
\<close>

theorem pop_with_policy_correct:
  assumes "sched_ok s" and "tasks_inv {} s"
    and "pop_with_policy policy p s = (Some e, p', s')"
  shows "mset (live s) = add_mset e (mset (live s'))
    \<and> (\<forall>x\<in>set (live s). entry_time e \<le> entry_time x)
    \<and> time s' = entry_time e \<and> time s \<le> time s'
    \<and> sched_ok s'"
proof -
  have d: "distinct (task_ids (events s))"
    using assms(2) by (simp add: tasks_inv_def)
  have pe: "pop_effect s e s'"
    by (rule pop_effect_with_policy [OF assms(1) d assms(3)])
  show ?thesis
    using pop_effect_live [OF pe d] pop_effect_time [OF pe assms(1)]
      pop_effect_sched_ok [OF pe assms(1)] by blast
qed

text \<open>
  \<open>pop\<close> returns the live entry with the least pair of time and sequence number:
  earlier times first, and entries of the same time in the order they were scheduled.
  It returns nothing exactly when no live entry is left, and then the clock is unchanged.
\<close>

theorem pop_least:
  assumes "sched_ok s" and "tasks_inv {} s"
  shows "case pop s of
      (None, s') \<Rightarrow> live s = [] \<and> time s' = time s
    | (Some e, s') \<Rightarrow> live s = e # live s' \<and> time s' = entry_time e
        \<and> (\<forall>x\<in>set (live s'). event_key e < event_key x)"
proof -
  have d: "distinct (task_ids (events s))"
    using assms(2) by (simp add: tasks_inv_def)
  show ?thesis
  proof (cases "pop s")
    case (Pair r s')
    show ?thesis
    proof (cases r)
      case None
      with Pair have "pop_live s = (None, s')"
        by (auto simp: pop_def split: prod.splits option.splits)
      moreover from this have "live s = []"
        using pop_live_None_iff [OF d] by simp
      moreover from \<open>pop_live s = (None, s')\<close> have "clock s' = clock s"
        using d by (auto simp: pop_live_closed split: list.splits)
      ultimately show ?thesis using Pair None by (simp add: time_eq)
    next
      case (Some e)
      with Pair have pe: "pop_effect s e s'" and l: "live s = e # live s'"
        using pop_effect_pop [OF assms(1) d] by auto
      from live_head_least [OF assms(1) l] Pair Some l show ?thesis
        using pop_effect_time(1) [OF pe assms(1)] by simp
    qed
  qed
qed

text \<open>The FIFO policy picks the head of a frontier in heap order.\<close>

lemma fifo_choose_head:
  "\<forall>x\<in>set es. fe_seq e \<le> fe_seq x \<Longrightarrow> fifo_choose p t (e # es) = (0, p)"
  using min_index_by_head [of es fe_seq e] by (simp add: fifo_choose_def)

lemma fe_seq_frontier [simp]: "fe_seq (to_frontier_event e) = seq e"
  by (cases e) auto

text \<open>Under the FIFO policy the head of the live entries is taken.\<close>

lemma fifo_pop_head:
  assumes ok: "sched_ok s" and d: "distinct (task_ids (events s))"
    and pl: "pop_live s = (Some first, s1)"
  shows "\<exists>s'. pop_with_policy fifo_choose () s = (Some first, (), s')"
proof -
  obtain others s2 where cf: "collect_frontier (entry_time first) s1 = (others, s2)" by fastforce
  have fr: "first # others = filter (\<lambda>x. entry_time x = entry_time first) (live s)"
    by (rule frontier_spec [OF ok d pl cf])
  have "heap_ok event_key (first # others)"
    using ok by (simp add: fr sched_ok_def live_def sorted_filter)
  moreover have "set (first # others) = {x \<in> set (live s). entry_time x = entry_time first}"
    by (simp add: fr)
  then have "\<forall>x\<in>set others. entry_time x = entry_time first"
    by auto
  ultimately have "\<forall>x\<in>set others. seq first \<le> seq x"
    by (auto simp: event_key_def less_eq_prod_def)
  then have ch: "fifo_choose () t (map to_frontier_event (first # others)) = (0, ())" for t
    by (simp add: fifo_choose_head)
  obtain R where sr: "swap_remove (first # others) 0 = Some (first, R)"
    by (simp add: swap_remove_def)
  have pp: "pop_with_policy fifo_choose () s =
      (Some first, (), s2\<lparr>events := fold (heap_push event_key) R (events s2),
                         clock := as_nanos (entry_time first)\<rparr>)"
    using pl cf ch sr by (cases others) (simp_all add: pop_with_policy_def Let_def)
  then show ?thesis by blast
qed

text \<open>
  Under the default FIFO policy \<open>pop_with_policy\<close> agrees with \<open>pop\<close>: same entry,
  same clock and the same live entries left.
\<close>

theorem fifo_policy_is_pop:
  assumes "sched_ok s" and "tasks_inv {} s"
  shows "fst (pop_with_policy fifo_choose () s) = fst (pop s)
    \<and> time (snd (snd (pop_with_policy fifo_choose () s))) = time (snd (pop s))
    \<and> live (snd (snd (pop_with_policy fifo_choose () s))) = live (snd (pop s))"
proof -
  have d: "distinct (task_ids (events s))"
    using assms(2) by (simp add: tasks_inv_def)
  obtain r s1 where pl: "pop_live s = (r, s1)" by fastforce
  show ?thesis
  proof (cases r)
    case None
    with pl show ?thesis by (simp add: pop_with_policy_def pop_def)
  next
    case (Some first)
    note pl = pl [unfolded this]
    from fifo_pop_head [OF assms(1) d pl] obtain s3 where
      pp: "pop_with_policy fifo_choose () s = (Some first, (), s3)" by blast
    obtain s' where pop: "pop s = (Some first, s')"
      using pl by (simp add: pop_def)
    have pe1: "pop_effect s first (snd (snd (pop_with_policy fifo_choose () s)))"
      using pop_effect_with_policy [OF assms(1) d pp] by (simp add: pp)
    have pe2: "pop_effect s first s'" and l: "live s = first # live s'"
      using pop_effect_pop [OF assms(1) d pop] by auto
    let ?s = "snd (snd (pop_with_policy fifo_choose () s))"
    have "live ?s = live s'"
    proof (rule heap_eqI [of event_key])
      show "mset (live ?s) = mset (live s')"
        using pop_effect_live [OF pe1 d] pop_effect_live [OF pe2 d] by simp
      show "heap_ok event_key (live ?s)" "heap_ok event_key (live s')"
        using pop_effect_sched_ok [OF pe1 assms(1)] pop_effect_sched_ok [OF pe2 assms(1)]
        by (simp_all add: sched_ok_def live_def sorted_filter)
      show "inj_on event_key (set (live ?s))"
        using sched_ok_key_inj [OF pop_effect_sched_ok [OF pe1 assms(1)]] live_subset
        by (rule inj_on_subset)
    qed
    then show ?thesis
      using pop pp pop_effect_time(1) [OF pe1 assms(1)] pop_effect_time(1) [OF pe2 assms(1)]
      by simp
  qed
qed

section \<open>Cancellation\<close>

text \<open>
  Cancelling succeeds exactly for pending tasks, and removes precisely that task's entry
  from the live entries: the pops then behave as if it had never been scheduled, so it
  neither runs nor advances the clock. The task cannot be executed or cancelled again.
\<close>

theorem cancel_task_effect:
  assumes "tasks_inv {} s" and "cancel_task i s = (b, s')"
  shows "b = (i \<in> dom (pending_tasks s))
    \<and> live s' = (if b then filter (\<lambda>e. entry_task_id e \<noteq> Some i) (live s) else live s)
    \<and> tasks_inv {} s'
    \<and> fst (cancel_task i s') = False
    \<and> fst (execute_task exec i s') = False"
proof -
  have s': "s' = snd (cancel_task i s)" and b: "b = (i \<in> dom (pending_tasks s))"
    using assms(2) by (auto simp: cancel_task_def Let_def)
  have "live s' = (if b then filter (\<lambda>e. entry_task_id e \<noteq> Some i) (live s) else live s)"
    by (auto simp: live_def s' b sched_simps is_canc_def intro!: filter_cong split: option.splits)
  moreover have "tasks_inv {} s'"
    using cancel_task_ok(2) assms(1) by (simp add: s')
  moreover have "pending_tasks s' i = None"
    by (simp add: s' sched_simps)
  ultimately show ?thesis
    using b by (simp add: cancel_task_def execute_task_def Let_def)
qed

section \<open>A concrete scheduler\<close>

text \<open>Two component events at the same time, a task, and an earlier task that is cancelled.\<close>

definition demo_scheduler :: "(nat, nat, nat) scheduler" where
  "demo_scheduler =
     (let s = schedule (SimTime 5) 7 (1 :: nat) (with_seed 42);
          s = schedule (SimTime 5) 8 2 s;
          (i, s) = schedule_task (SimTime 3) 0 s;
          (j, s) = schedule_task (SimTime 9) 1 s
      in snd (cancel_task i s))"

lemma demo_scheduler_run: "api_run (with_seed 42) demo_scheduler"
proof -
  let ?s1 = "schedule (SimTime 5) 7 (1 :: nat) (with_seed 42 :: (nat, nat, nat) scheduler)"
  let ?s2 = "schedule (SimTime 5) 8 2 ?s1"
  let ?s3 = "snd (schedule_task (SimTime 3) 0 ?s2)"
  let ?s4 = "snd (schedule_task (SimTime 9) 1 ?s3)"
  have "api_step (with_seed 42) ?s1" "api_step ?s1 ?s2" "api_step ?s2 ?s3" "api_step ?s3 ?s4"
    by (rule api_step.intros)+
  moreover have "api_step ?s4 demo_scheduler"
    by (simp add: demo_scheduler_def Let_def split_beta api_cancel_task)
  ultimately show ?thesis
    by (meson rtranclp.rtrancl_into_rtrancl rtranclp.rtrancl_refl)
qed

lemma demo_scheduler_ok: "sched_ok demo_scheduler" "tasks_inv {} demo_scheduler"
  using api_run_frame [OF demo_scheduler_run] api_run_tasks_inv [OF demo_scheduler_run]
    with_seed_ok
  by (auto simp: ids_fit_def demo_scheduler_def Let_def split_beta sched_simps schedule_task_eq
      with_seed_def)

lemma demo_scheduler_live:
  "live demo_scheduler =
     [Component \<lparr>ce_event_id = 1, ce_time = SimTime 5, component = 7, inner = 1\<rparr>,
      Component \<lparr>ce_event_id = 2, ce_time = SimTime 5, component = 8, inner = 2\<rparr>,
      Task \<lparr>te_event_id = 4, te_time = SimTime 9,
            te_task_id = deterministic_uuid 42 UUID_DOMAIN_TASK 2\<rparr>]"
  by (simp add: live_def demo_scheduler_def Let_def split_beta sched_simps schedule_task_eq
      with_seed_def heap_push_def event_key_def task_uuid_inj add_simtime_def time_eq)

lemma demo_scheduler_pop:
  "\<exists>e p' s'. pop_with_policy fifo_choose () demo_scheduler = (Some e, p', s')"
  using pop_with_policy_total [of demo_scheduler fifo_choose "()"] demo_scheduler_ok
    demo_scheduler_live
  by (cases "pop_with_policy fifo_choose () demo_scheduler") (auto simp: tasks_inv_def)

theorem pop_with_policy_correct_witness:
  "\<exists>e p' s'. pop_with_policy fifo_choose () demo_scheduler = (Some e, p', s')
    \<and> mset (live demo_scheduler) = add_mset e (mset (live s')) \<and> time s' = entry_time e"
proof -
  from demo_scheduler_pop obtain e p' s' where
    *: "pop_with_policy fifo_choose () demo_scheduler = (Some e, p', s')" by blast
  from pop_with_policy_correct [OF demo_scheduler_ok this] * show ?thesis by blast
qed

theorem pop_least_witness:
  "fst (pop demo_scheduler) =
     Some (Component \<lparr>ce_event_id = 1, ce_time = SimTime 5, component = 7, inner = 1\<rparr>)"
  using pop_least [OF demo_scheduler_ok] demo_scheduler_live
  by (auto split: prod.splits option.splits)

theorem fifo_policy_is_pop_witness:
  "fst (pop_with_policy fifo_choose () demo_scheduler) = fst (pop demo_scheduler)"
  using fifo_policy_is_pop [OF demo_scheduler_ok] by blast

theorem cancel_task_effect_witness:
  "cancel_task (deterministic_uuid 42 UUID_DOMAIN_TASK 2) demo_scheduler =
     (True, snd (cancel_task (deterministic_uuid 42 UUID_DOMAIN_TASK 2) demo_scheduler))
   \<and> length (live (snd (cancel_task (deterministic_uuid 42 UUID_DOMAIN_TASK 2) demo_scheduler))) = 2"
proof -
  let ?i = "deterministic_uuid 42 UUID_DOMAIN_TASK 2"
  have "?i \<in> dom (pending_tasks demo_scheduler)"
    by (simp add: demo_scheduler_def Let_def split_beta sched_simps schedule_task_eq
        with_seed_def task_uuid_inj)
  with cancel_task_effect [OF demo_scheduler_ok(2) surjective_pairing, of ?i]
  show ?thesis
    by (auto simp: demo_scheduler_live prod_eq_iff)
qed

end
