(* ===== verification/Tasks.thy ===== *)
theory Tasks
  imports Scheduler_Props
begin

text \<open>
  \<open>des-core/src/task.rs\<close>: the four kinds of tasks. The closures of user code are values of
  a type \<open>'c\<close>; how they run is given by a record \<open>user_code\<close> of interpretations, since a
  closure over the scheduler cannot itself be stored in the scheduler's type. Counters are
  machine words; arithmetic wraps as it does with overflow checks off.
\<close>

section \<open>The task types\<close>

text \<open>A task result: a plain value, or the \<open>Result\<close> of a retried operation.\<close>

datatype ('r, 'e) task_value = Plain 'r | Res "'e + 'r"

record 'c retry_task =
  operation :: 'c
  max_attempts :: u32
  current_attempt :: u32
  base_delay :: simtime

record 'c periodic_task =
  callback :: 'c
  interval :: simtime
  remaining_executions :: "u32 option"

datatype 'c task =
    ClosureTask 'c
  | TimeoutTask 'c
  | RetryTask "'c retry_task"
  | PeriodicTask "'c periodic_task"

definition retry_task_new :: "'c \<Rightarrow> u32 \<Rightarrow> simtime \<Rightarrow> 'c retry_task" where
  "retry_task_new op attempts base =
     \<lparr>operation = op, max_attempts = attempts, current_attempt = 0, base_delay = base\<rparr>"

definition periodic_task_new :: "'c \<Rightarrow> simtime \<Rightarrow> 'c periodic_task" where
  "periodic_task_new cb iv = \<lparr>callback = cb, interval = iv, remaining_executions = None\<rparr>"

definition periodic_task_with_count :: "'c \<Rightarrow> simtime \<Rightarrow> u32 \<Rightarrow> 'c periodic_task" where
  "periodic_task_with_count cb iv n =
     \<lparr>callback = cb, interval = iv, remaining_executions = Some n\<rparr>"

text \<open>\<open>TaskId::new\<close>: identifiers outside a scheduler, from a process-wide counter.\<close>

definition task_id_new :: "u64 \<Rightarrow> task_id \<times> u64" where
  "task_id_new next =
     (let counter = next + 1
      in (deterministic_uuid 0 UUID_DOMAIN_MANUAL_TASK counter, counter))"

type_synonym ('ev, 'c, 'r, 'e, 'z) task_sched =
  "('ev, 'c task, ('r, 'e) task_value, 'z) scheduler_scheme"

record ('ev, 'c, 'r, 'e, 'z) user_code =
  run_closure ::
    "'c \<Rightarrow> ('ev, 'c, 'r, 'e, 'z) task_sched \<Rightarrow> ('r, 'e) task_value any \<times> ('ev, 'c, 'r, 'e, 'z) task_sched"
  run_callback :: "'c \<Rightarrow> ('ev, 'c, 'r, 'e, 'z) task_sched \<Rightarrow> ('ev, 'c, 'r, 'e, 'z) task_sched"
  run_operation ::
    "'c \<Rightarrow> ('ev, 'c, 'r, 'e, 'z) task_sched \<Rightarrow> ('e + 'r) \<times> ('ev, 'c, 'r, 'e, 'z) task_sched"
  default_task_id :: task_id

section \<open>Execution\<close>

text \<open>\<open>executing_task_id().unwrap_or_default()\<close>.\<close>

definition own_task_id :: "task_id \<Rightarrow> ('ev, 't, 'v, 'z) scheduler_scheme \<Rightarrow> task_id" where
  "own_task_id dflt s = (case executing_task_id s of Some i \<Rightarrow> i | None \<Rightarrow> dflt)"

definition execute_retry ::
  "('ev, 'c, 'r, 'e, 'z) user_code \<Rightarrow> 'c retry_task \<Rightarrow> ('ev, 'c, 'r, 'e, 'z) task_sched
    \<Rightarrow> ('e + 'r) \<times> ('ev, 'c, 'r, 'e, 'z) task_sched"
where
  "execute_retry u self s =
     (let self = self\<lparr>current_attempt := current_attempt self + 1\<rparr>;
          (result, s) = run_operation u (operation self) s
      in case result of
           Inr v \<Rightarrow> (Inr v, s)
         | Inl err \<Rightarrow>
             if max_attempts self \<le> current_attempt self then (Inl err, s)
             else
               (let delay = mul_simtime (base_delay self) (2 ^ unat (current_attempt self - 1));
                    task_id = own_task_id (default_task_id u) s
                in (Inl err,
                    schedule_task_at (add_simtime (time s) delay) task_id (RetryTask self) s)))"

definition execute_periodic ::
  "('ev, 'c, 'r, 'e, 'z) user_code \<Rightarrow> 'c periodic_task \<Rightarrow> ('ev, 'c, 'r, 'e, 'z) task_sched
    \<Rightarrow> ('ev, 'c, 'r, 'e, 'z) task_sched"
where
  "execute_periodic u self s =
     (let s = run_callback u (callback self) s;
          reschedule = (\<lambda>self.
            (let task_id = own_task_id (default_task_id u) s
             in schedule_task_at (add_simtime (time s) (interval self)) task_id
                  (PeriodicTask self) s))
      in case remaining_executions self of
           Some remaining \<Rightarrow>
             (let remaining = remaining - 1
              in if remaining = 0 then s
                 else reschedule (self\<lparr>remaining_executions := Some remaining\<rparr>))
         | None \<Rightarrow> reschedule self)"

fun exec_task ::
  "('ev, 'c, 'r, 'e, 'z) user_code \<Rightarrow> 'c task \<Rightarrow> ('ev, 'c, 'r, 'e, 'z) task_sched
    \<Rightarrow> ('r, 'e) task_value any \<times> ('ev, 'c, 'r, 'e, 'z) task_sched"
where
  "exec_task u (ClosureTask c) s = run_closure u c s"
| "exec_task u (TimeoutTask c) s = (AnyUnit, run_callback u c s)"
| "exec_task u (RetryTask r) s = (let (res, s') = execute_retry u r s in (AnyVal (Res res), s'))"
| "exec_task u (PeriodicTask p) s = (AnyUnit, execute_periodic u p s)"

text \<open>\<open>Scheduler::schedule_closure\<close> and \<open>Scheduler::timeout\<close>.\<close>

definition schedule_closure ::
  "simtime \<Rightarrow> 'c \<Rightarrow> ('ev, 'c, 'r, 'e, 'z) task_sched \<Rightarrow> task_id \<times> ('ev, 'c, 'r, 'e, 'z) task_sched"
where
  "schedule_closure delay closure s = schedule_task delay (ClosureTask closure) s"

definition timeout ::
  "simtime \<Rightarrow> 'c \<Rightarrow> ('ev, 'c, 'r, 'e, 'z) task_sched \<Rightarrow> task_id \<times> ('ev, 'c, 'r, 'e, 'z) task_sched"
where
  "timeout delay cb s = schedule_task delay (TimeoutTask cb) s"

section \<open>Invariants under task execution\<close>

text \<open>User code acts on the scheduler through its public operations only.\<close>

definition code_ok :: "('ev, 'c, 'r, 'e, 'z) user_code \<Rightarrow> bool" where
  "code_ok u \<longleftrightarrow>
     (\<forall>c s. api_run s (snd (run_closure u c s))) \<and>
     (\<forall>c s. api_run s (run_callback u c s)) \<and>
     (\<forall>c s. api_run s (snd (run_operation u c s)))"

text \<open>
  What running a task amounts to: calls of user code, possibly followed by one rescheduling
  of the task under its own identifier, at a time that is not in the past.
\<close>

inductive task_run ::
  "('ev, 't, 'v, 'z) scheduler_scheme \<Rightarrow> ('ev, 't, 'v, 'z) scheduler_scheme \<Rightarrow> bool"
where
  task_calls: "api_run s s' \<Longrightarrow> task_run s s'"
| task_resched: "api_run s s' \<Longrightarrow> executing_task_id s' = Some i \<Longrightarrow> time s' \<le> t \<Longrightarrow>
     task_run s (schedule_task_at t i task s')"

lemma own_task_id_run:
  assumes "api_run s s'" "executing_task_id s = Some i"
  shows "own_task_id dflt s' = i" "executing_task_id s' = Some i"
  using api_run_frame [OF assms(1)] assms(2) by (simp_all add: own_task_id_def)

lemma execute_retry_run:
  assumes "code_ok u" "executing_task_id s = Some i"
  shows "task_run s (snd (execute_retry u r s))"
proof -
  obtain res s1 where op: "run_operation u (operation r) s = (res, s1)" by fastforce
  have run: "api_run s s1"
    using assms(1) op by (metis code_ok_def snd_conv)
  note own = own_task_id_run [OF run assms(2)]
  show ?thesis
    using run own op
    by (auto simp: execute_retry_def Let_def split: sum.splits intro: task_calls task_resched)
qed

lemma execute_periodic_run:
  assumes "code_ok u" "executing_task_id s = Some i"
  shows "task_run s (execute_periodic u p s)"
proof -
  have run: "api_run s (run_callback u (callback p) s)"
    using assms(1) by (simp add: code_ok_def)
  note own = own_task_id_run [OF run assms(2)]
  show ?thesis
    using run own
    by (auto simp: execute_periodic_def Let_def split: option.splits intro: task_calls task_resched)
qed

lemma exec_task_run:
  assumes "code_ok u" "executing_task_id s = Some i"
  shows "task_run s (snd (exec_task u t s))"
proof (cases t)
  case (RetryTask r)
  then show ?thesis using execute_retry_run [OF assms] by (simp add: split_beta)
next
  case (PeriodicTask p)
  then show ?thesis using execute_periodic_run [OF assms] by simp
qed (use assms(1) in \<open>auto simp: code_ok_def intro: task_calls\<close>)

lemma ids_fit_schedule_task_at [simp]: "ids_fit (schedule_task_at t i task s) = ids_fit s"
  by (simp add: ids_fit_def sched_simps)

lemma task_run_ok:
  assumes "task_run s s'" "executing_task_id s = Some i" "sched_ok s" "tasks_inv {} s"
    and "issued s i" "i \<notin> dom (pending_tasks s) \<union> cancelled_tasks s" "ids_fit s'"
  shows "sched_ok s' \<and> tasks_inv {} s' \<and> clock s' = clock s \<and> next_task_id s \<le> next_task_id s'"
  using assms
proof (induction rule: task_run.induct)
  case (task_calls s s')
  then show ?case
    using api_run_frame api_run_tasks_inv by blast
next
  case (task_resched s s' j t task)
  note fr = api_run_frame [OF task_resched.hyps(1)]
  have j: "j = i"
    using fr task_resched by simp
  have fit: "ids_fit s'"
    using task_resched.prems by simp
  have "tasks_inv {} s'"
    by (rule api_run_tasks_inv [OF task_resched.hyps(1) _ fit]) fact
  moreover note api_run_gone [OF task_resched.hyps(1) task_resched.prems(4,5) fit]
  ultimately have "tasks_inv {} (schedule_task_at t i task s')"
    by (auto intro!: tasks_inv_schedule_task_at)
  then show ?case
    using fr j task_resched by (auto simp: sched_simps intro: sched_ok_schedule_task_at)
qed

text \<open>
  Executing a popped task, for any executor that behaves like \<open>task_run\<close>: the entry's
  task is found pending (so the call succeeds), and the invariants hold again afterwards.
\<close>

lemma execute_task_begin:
  assumes "sched_ok s" "tasks_inv {i} s" "pending_tasks s i = Some t"
  defines "s1 \<equiv> s\<lparr>pending_tasks := (pending_tasks s)(i := None), executing_task_id := Some i\<rparr>"
  shows "i \<notin> cancelled_tasks s" "sched_ok s1" "tasks_inv {} s1" "issued s1 i"
    "executing_task_id s1 = Some i" "i \<notin> dom (pending_tasks s1) \<union> cancelled_tasks s1"
proof -
  show canc: "i \<notin> cancelled_tasks s"
    using assms(2,3) by (auto simp: tasks_inv_def)
  show "issued s1 i"
    using assms(2,3) by (auto simp: tasks_inv_def s1_def issued_def)
  show "tasks_inv {} s1"
    using assms(2,3) canc by (auto simp: tasks_inv_def s1_def issued_def)
qed (use assms in \<open>auto simp: s1_def tasks_inv_def\<close>)

lemma execute_task_eq:
  assumes "i \<notin> cancelled_tasks s" "pending_tasks s i = Some t"
    and "exec t (s\<lparr>pending_tasks := (pending_tasks s)(i := None), executing_task_id := Some i\<rparr>) = (r, s2)"
  shows "execute_task exec i s =
    (True, s2\<lparr>executing_task_id := executing_task_id s,
              completed_task_results :=
                (case r of
                   AnyVal v \<Rightarrow> if i \<in> dom (pending_tasks s2) then completed_task_results s2
                               else (completed_task_results s2)(i \<mapsto> AnyVal v)
                 | AnyUnit \<Rightarrow> completed_task_results s2)\<rparr>)"
  using assms by (auto simp: execute_task_def Let_def split: any.splits)

lemma tasks_inv_frame [simp]:
  "tasks_inv X (s\<lparr>completed_task_results := R\<rparr>) = tasks_inv X s"
  "tasks_inv X (s\<lparr>executing_task_id := x\<rparr>) = tasks_inv X s"
  "tasks_inv X (s\<lparr>scheduler.more := z\<rparr>) = tasks_inv X s"
  by (simp_all add: tasks_inv_def issued_def)

lemma ids_fit_frame [simp]:
  "ids_fit (s\<lparr>completed_task_results := R\<rparr>) = ids_fit s"
  "ids_fit (s\<lparr>executing_task_id := x\<rparr>) = ids_fit s"
  "ids_fit (s\<lparr>scheduler.more := z\<rparr>) = ids_fit s"
  by (simp_all add: ids_fit_def)

lemma execute_task_ok:
  assumes ok: "sched_ok s" "tasks_inv {i} s" and pend: "pending_tasks s i = Some t"
    and exec: "\<And>t s. executing_task_id s = Some i \<Longrightarrow> task_run s (snd (exec t s))"
    and fit: "ids_fit (snd (execute_task exec i s))"
  shows "fst (execute_task exec i s) \<and> sched_ok (snd (execute_task exec i s)) \<and>
    tasks_inv {} (snd (execute_task exec i s)) \<and>
    clock (snd (execute_task exec i s)) = clock s \<and>
    next_task_id s \<le> next_task_id (snd (execute_task exec i s))"
proof -
  define s1 where "s1 = s\<lparr>pending_tasks := (pending_tasks s)(i := None), executing_task_id := Some i\<rparr>"
  note b = execute_task_begin [OF ok pend, folded s1_def]
  obtain r s2 where ex: "exec t s1 = (r, s2)" by fastforce
  note eq = execute_task_eq [of i s t exec, folded s1_def, OF b(1) pend ex]
  have run: "task_run s1 s2"
    using exec [OF b(5), of t] ex by simp
  have "ids_fit s2"
    using fit by (simp add: eq)
  from task_run_ok [OF run b(5,2,3,4,6) this] show ?thesis
    by (simp add: eq s1_def)
qed

section \<open>Outcome of retried and periodic tasks\<close>

lemma exec_task_gone:
  assumes "api_run s1 s2" "issued s1 i" "i \<notin> dom (pending_tasks s1) \<union> cancelled_tasks s1" "ids_fit s2"
  shows "i \<notin> dom (pending_tasks s2)"
  using api_run_gone [OF assms] by simp

text \<open>
  Executing a retry task: if the operation fails and attempts are left, the task is
  pending again under the same identifier, with one more attempt counted, due after
  \<open>base_delay * 2^attempts\<close>, and no result is stored for its handle. Otherwise the chain
  ends and the handle can fetch the final success or failure.
\<close>

theorem retry_task_outcome:
  assumes ok: "code_ok u" "sched_ok s" "tasks_inv {i} s"
    and pend: "pending_tasks s i = Some (RetryTask r)"
    and op: "run_operation u (operation r)
      (s\<lparr>pending_tasks := (pending_tasks s)(i := None), executing_task_id := Some i\<rparr>) = (res, s1)"
    and ex: "execute_task (exec_task u) i s = (b, s')" and fit: "ids_fit s'"
  shows "b \<and> sched_ok s' \<and> tasks_inv {} s' \<and>
    (if (\<exists>err. res = Inl err) \<and> current_attempt r + 1 < max_attempts r
     then pending_tasks s' i = Some (RetryTask (r\<lparr>current_attempt := current_attempt r + 1\<rparr>))
        \<and> completed_task_results s' = completed_task_results s1
        \<and> events s' = heap_push event_key
            (Task \<lparr>te_event_id = next_event_id s1 + 1,
                   te_time = add_simtime (time s)
                     (mul_simtime (base_delay r) (2 ^ unat (current_attempt r))),
                   te_task_id = i\<rparr>) (events s1)
     else pending_tasks s' i = None \<and> events s' = events s1
        \<and> completed_task_results s' i = Some (AnyVal (Res res)))"
proof -
  define s0 where "s0 = s\<lparr>pending_tasks := (pending_tasks s)(i := None), executing_task_id := Some i\<rparr>"
  note b = execute_task_begin [OF ok(2,3) pend, folded s0_def]
  note op = op [folded s0_def]
  have run: "api_run s0 s1"
    using ok(1) op by (metis code_ok_def snd_conv)
  note own = own_task_id_run [OF run b(5)]
  have t: "time s1 = time s"
    using api_run_frame [OF run] by (simp add: s0_def time_eq)
  note eq = execute_task_eq [of i s "RetryTask r" "exec_task u", folded s0_def, OF b(1) pend]
  have inv: "b \<and> sched_ok s' \<and> tasks_inv {} s'"
    using execute_task_ok [OF ok(2,3) pend, of "exec_task u"] exec_task_run [OF ok(1)] fit
    by (simp add: ex)
  show ?thesis
  proof (cases "(\<exists>err. res = Inl err) \<and> current_attempt r + 1 < max_attempts r")
    case True
    then obtain err where res: "res = Inl err" by blast
    with True have "exec_task u (RetryTask r) s0 = (AnyVal (Res res), schedule_task_at
        (add_simtime (time s) (mul_simtime (base_delay r) (2 ^ unat (current_attempt r)))) i
        (RetryTask (r\<lparr>current_attempt := current_attempt r + 1\<rparr>)) s1)"
      using op own t by (simp add: execute_retry_def Let_def not_le)
    from eq [OF this] True inv show ?thesis
      by (simp add: ex sched_simps)
  next
    case False
    then have e: "exec_task u (RetryTask r) s0 = (AnyVal (Res res), s1)"
      using op by (auto simp: execute_retry_def Let_def not_le split: sum.splits)
    have "ids_fit s1"
      using fit eq [OF e] by (simp add: ex)
    then have "pending_tasks s1 i = None"
      using exec_task_gone [OF run b(4,6)] by auto
    with eq [OF e] False inv show ?thesis
      by (simp add: ex domIff)
  qed
qed

lemma unlimited_update:
  "remaining_executions p = None \<Longrightarrow> p\<lparr>remaining_executions := None\<rparr> = p"
  by (cases p) simp

text \<open>
  Executing a periodic task: the callback runs, and unless this was the last execution
  the task is pending again under the same identifier, due one interval later, with one
  execution less to go. No result is stored. The count is a 32-bit word that is decremented
  before it is tested, so only a count of one ends the chain: a task created with count zero
  goes on with \<open>u32::MAX\<close> further executions when overflow checks are off.
\<close>

theorem periodic_task_outcome:
  assumes ok: "code_ok u" "sched_ok s" "tasks_inv {i} s"
    and pend: "pending_tasks s i = Some (PeriodicTask p)"
    and cb: "run_callback u (callback p)
      (s\<lparr>pending_tasks := (pending_tasks s)(i := None), executing_task_id := Some i\<rparr>) = s1"
    and ex: "execute_task (exec_task u) i s = (b, s')" and fit: "ids_fit s'"
  shows "b \<and> sched_ok s' \<and> tasks_inv {} s' \<and> completed_task_results s' = completed_task_results s1 \<and>
    (if remaining_executions p = Some 1
     then pending_tasks s' i = None \<and> events s' = events s1
     else pending_tasks s' i =
            Some (PeriodicTask (p\<lparr>remaining_executions :=
                                   map_option (\<lambda>n. n - 1) (remaining_executions p)\<rparr>))
        \<and> events s' = heap_push event_key
            (Task \<lparr>te_event_id = next_event_id s1 + 1, te_time = add_simtime (time s) (interval p),
                   te_task_id = i\<rparr>) (events s1))"
proof -
  define s0 where "s0 = s\<lparr>pending_tasks := (pending_tasks s)(i := None), executing_task_id := Some i\<rparr>"
  note b = execute_task_begin [OF ok(2,3) pend, folded s0_def]
  note cb = cb [folded s0_def]
  have run: "api_run s0 s1"
    using ok(1) cb by (metis code_ok_def)
  note own = own_task_id_run [OF run b(5)]
  have t: "time s1 = time s"
    using api_run_frame [OF run] by (simp add: s0_def time_eq)
  note eq = execute_task_eq [of i s "PeriodicTask p" "exec_task u", folded s0_def, OF b(1) pend]
  have inv: "b \<and> sched_ok s' \<and> tasks_inv {} s'"
    using execute_task_ok [OF ok(2,3) pend, of "exec_task u"] exec_task_run [OF ok(1)] fit
    by (simp add: ex)
  show ?thesis
  proof (cases "remaining_executions p = Some 1")
    case False
    then have "exec_task u (PeriodicTask p) s0 = (AnyUnit, schedule_task_at
        (add_simtime (time s) (interval p)) i
        (PeriodicTask (p\<lparr>remaining_executions :=
                           map_option (\<lambda>n. n - 1) (remaining_executions p)\<rparr>)) s1)"
      using cb own t
      by (auto simp: execute_periodic_def Let_def unlimited_update split: option.splits)
    from eq [OF this] False inv show ?thesis
      by (simp add: ex sched_simps)
  next
    case True
    then have e: "exec_task u (PeriodicTask p) s0 = (AnyUnit, s1)"
      using cb by (simp add: execute_periodic_def Let_def)
    have "ids_fit s1"
      using fit eq [OF e] by (simp add: ex)
    then have "pending_tasks s1 i = None"
      using exec_task_gone [OF run b(4,6)] by auto
    with eq [OF e] True inv show ?thesis
      by (simp add: ex)
  qed
qed

section \<open>Instances\<close>

text \<open>User code that changes nothing and whose operation fails.\<close>

definition idle_code :: "('ev, 'c, 'r, nat, 'z) user_code" where
  "idle_code =
     \<lparr>run_closure = (\<lambda>c s. (AnyUnit, s)), run_callback = (\<lambda>c s. s),
      run_operation = (\<lambda>c s. (Inl 1, s)), default_task_id = 0\<rparr>"

lemma idle_code_ok: "code_ok idle_code"
  by (simp add: code_ok_def idle_code_def)

text \<open>The scheduler at time 10, just after the entry of its only task has been popped.\<close>

definition popped_task :: "unit task \<Rightarrow> (unit, unit task, (unit, nat) task_value) scheduler" where
  "popped_task t = (with_seed 42)
     \<lparr>next_event_id := 1, next_task_id := 1, clock := 10,
      pending_tasks := [deterministic_uuid 42 UUID_DOMAIN_TASK 1 \<mapsto> t]\<rparr>"

lemma popped_task_ok:
  "sched_ok (popped_task t)" "tasks_inv {deterministic_uuid 42 UUID_DOMAIN_TASK 1} (popped_task t)"
  "pending_tasks (popped_task t) (deterministic_uuid 42 UUID_DOMAIN_TASK 1) = Some t"
  by (auto simp: popped_task_def sched_ok_def tasks_inv_def issued_def with_seed_def
      intro!: exI [of _ 1])

theorem retry_task_outcome_witness:
  "pending_tasks (snd (execute_task (exec_task idle_code) (deterministic_uuid 42 UUID_DOMAIN_TASK 1)
       (popped_task (RetryTask (retry_task_new () 3 (SimTime 100))))))
     (deterministic_uuid 42 UUID_DOMAIN_TASK 1) =
   Some (RetryTask \<lparr>operation = (), max_attempts = 3, current_attempt = 1, base_delay = SimTime 100\<rparr>)"
proof -
  let ?i = "deterministic_uuid 42 UUID_DOMAIN_TASK 1"
  let ?s = "popped_task (RetryTask (retry_task_new () 3 (SimTime 100)))"
  have "ids_fit (snd (execute_task (exec_task idle_code) ?i ?s))"
    by (simp add: execute_task_def popped_task_def with_seed_def Let_def execute_retry_def
        idle_code_def retry_task_new_def ids_fit_def own_task_id_def sched_simps)
  from retry_task_outcome [OF idle_code_ok popped_task_ok _ surjective_pairing this]
  show ?thesis
    by (simp add: idle_code_def retry_task_new_def)
qed

theorem periodic_task_outcome_witness:
  "pending_tasks (snd (execute_task (exec_task idle_code) (deterministic_uuid 42 UUID_DOMAIN_TASK 1)
       (popped_task (PeriodicTask (periodic_task_with_count () (SimTime 100) 3)))))
     (deterministic_uuid 42 UUID_DOMAIN_TASK 1) =
   Some (PeriodicTask \<lparr>callback = (), interval = SimTime 100, remaining_executions = Some 2\<rparr>)"
proof -
  let ?i = "deterministic_uuid 42 UUID_DOMAIN_TASK 1"
  let ?s = "popped_task (PeriodicTask (periodic_task_with_count () (SimTime 100) 3))"
  have "ids_fit (snd (execute_task (exec_task idle_code) ?i ?s))"
    by (simp add: execute_task_def popped_task_def with_seed_def Let_def execute_periodic_def
        idle_code_def periodic_task_with_count_def ids_fit_def own_task_id_def sched_simps)
  from periodic_task_outcome [OF idle_code_ok popped_task_ok _ surjective_pairing this]
  show ?thesis
    by (simp add: idle_code_def periodic_task_with_count_def)
qed

end
