(* ===== verification/Simulation.thy ===== *)
theory Simulation
  imports Tasks
begin

text \<open>
  \<open>des-core/src/lib.rs\<close> and the thread-local part of \<open>scheduler.rs\<close>: components,
  deferred wakes and one step of the simulation. The thread-locals \<open>DEFERRED_WAKES\<close> and
  \<open>CURRENT_CLOCK\<close> extend the scheduler record (a \<open>ClockRef\<close> shares the clock of the
  scheduler, so whether one is set is all there is to record). A boxed component is a value
  of a type \<open>'c\<close>; \<open>handle\<close> is its \<open>process_event\<close>, with \<open>None\<close> for the panic when
  the event has another type than the component expects.
\<close>

section \<open>Deferred wakes and the scheduler context\<close>

record ('ev, 't, 'v) world = "('ev, 't, 'v) scheduler" +
  deferred_wakes :: "(simtime \<times> uuid \<times> 'ev) list"
  current_clock :: bool

definition defer_wake_after ::
  "simtime \<Rightarrow> uuid \<Rightarrow> 'ev \<Rightarrow> ('ev, 't, 'v, 'z) world_scheme \<Rightarrow> ('ev, 't, 'v, 'z) world_scheme"
where
  "defer_wake_after delay key event w =
     w\<lparr>deferred_wakes := deferred_wakes w @ [(delay, key, event)]\<rparr>"

definition defer_wake ::
  "uuid \<Rightarrow> 'ev \<Rightarrow> ('ev, 't, 'v, 'z) world_scheme \<Rightarrow> ('ev, 't, 'v, 'z) world_scheme"
where
  "defer_wake key event w = defer_wake_after zero key event w"

definition drain_deferred_wakes ::
  "('ev, 't, 'v, 'z) world_scheme \<Rightarrow> ('ev, 't, 'v, 'z) world_scheme"
where
  "drain_deferred_wakes w =
     fold (\<lambda>(delay, key, event). schedule delay key event) (deferred_wakes w)
       (w\<lparr>deferred_wakes := []\<rparr>)"

definition in_scheduler_context :: "('ev, 't, 'v, 'z) world_scheme \<Rightarrow> bool" where
  "in_scheduler_context w = current_clock w"

definition current_time :: "('ev, 't, 'v, 'z) world_scheme \<Rightarrow> simtime option" where
  "current_time w = (if current_clock w then Some (time w) else None)"

definition set_scheduler_context ::
  "('ev, 't, 'v, 'z) world_scheme \<Rightarrow> ('ev, 't, 'v, 'z) world_scheme"
where
  "set_scheduler_context w = w\<lparr>current_clock := True\<rparr>"

definition clear_scheduler_context ::
  "('ev, 't, 'v, 'z) world_scheme \<Rightarrow> ('ev, 't, 'v, 'z) world_scheme"
where
  "clear_scheduler_context w = w\<lparr>current_clock := False\<rparr>"

section \<open>Components\<close>

record 'c components =
  component_table :: "uuid \<rightharpoonup> 'c"
  components_next_id :: nat
  components_id_seed :: u64

definition components_default :: "'c components" where
  "components_default =
     \<lparr>component_table = Map.empty, components_next_id = 0, components_id_seed = 0\<rparr>"

type_synonym ('c, 'ev, 't, 'v, 'z) handler =
  "'c \<Rightarrow> uuid \<Rightarrow> 'ev \<Rightarrow> ('ev, 't, 'v, 'z) world_scheme
     \<Rightarrow> ('c \<times> ('ev, 't, 'v, 'z) world_scheme) option"

type_synonym ('ev, 't, 'v, 'z) task_exec =
  "'t \<Rightarrow> ('ev, 't, 'v, 'z) world_scheme \<Rightarrow> 'v any \<times> ('ev, 't, 'v, 'z) world_scheme"

fun process_event_entry ::
  "('ev, 't, 'v, 'z) task_exec \<Rightarrow> ('c, 'ev, 't, 'v, 'z) handler \<Rightarrow> 'ev event_entry
    \<Rightarrow> 'c components \<Rightarrow> ('ev, 't, 'v, 'z) world_scheme
    \<Rightarrow> ('c components \<times> ('ev, 't, 'v, 'z) world_scheme) option"
where
  "process_event_entry exec handle (Component entry) cs w =
     (case component_table cs (component entry) of
        None \<Rightarrow> Some (cs, w)
      | Some c \<Rightarrow>
          (case handle c (component entry) (inner entry) w of
             None \<Rightarrow> None
           | Some (c', w') \<Rightarrow>
               Some (cs\<lparr>component_table := (component_table cs)(component entry \<mapsto> c')\<rparr>, w')))"
| "process_event_entry exec handle (Task entry) cs w =
     Some (cs, snd (execute_task exec (te_task_id entry) w))"

definition register_with_id :: "uuid \<Rightarrow> 'c \<Rightarrow> 'c components \<Rightarrow> uuid \<times> 'c components" where
  "register_with_id i c cs = (i, cs\<lparr>component_table := (component_table cs)(i \<mapsto> c)\<rparr>)"

definition register :: "'c \<Rightarrow> 'c components \<Rightarrow> uuid \<times> 'c components" where
  "register c cs =
     (let cs = cs\<lparr>components_next_id := components_next_id cs + 1\<rparr>;
          i = deterministic_uuid (components_id_seed cs) UUID_DOMAIN_COMPONENT
                (word_of_nat (components_next_id cs))
      in register_with_id i c cs)"

text \<open>The component is removed before the downcast, so a failed downcast drops it.\<close>

definition remove_component ::
  "('c \<Rightarrow> 'x option) \<Rightarrow> uuid \<Rightarrow> 'c components \<Rightarrow> 'x option \<times> 'c components"
where
  "remove_component downcast key cs =
     (Option.bind (component_table cs key) downcast,
      cs\<lparr>component_table := (component_table cs)(key := None)\<rparr>)"

section \<open>The simulation\<close>

record ('ev, 't, 'v, 'z, 'p, 'c) simulation =
  sched :: "('ev, 't, 'v, 'z) world_scheme"
  policy :: "'p frontier_policy"
  policy_state :: 'p
  next_component_id :: nat
  sim_components :: "'c components"
  config_seed :: u64

definition simulation_new :: "u64 \<Rightarrow> 'z \<Rightarrow> ('ev, 't, 'v, 'z, unit, 'c) simulation" where
  "simulation_new seed z =
     \<lparr>sched = world.extend (scheduler.extend (with_seed seed) (world.fields [] False)) z,
      policy = fifo_choose, policy_state = (), next_component_id = 0,
      sim_components = components_default, config_seed = seed\<rparr>"

definition set_frontier_policy ::
  "'q frontier_policy \<Rightarrow> 'q \<Rightarrow> ('ev, 't, 'v, 'z, 'p, 'c) simulation
    \<Rightarrow> ('ev, 't, 'v, 'z, 'q, 'c) simulation"
where
  "set_frontier_policy pol q sim =
     \<lparr>sched = sched sim, policy = pol, policy_state = q, next_component_id = next_component_id sim,
      sim_components = sim_components sim, config_seed = config_seed sim\<rparr>"

definition sim_time :: "('ev, 't, 'v, 'z, 'p, 'c) simulation \<Rightarrow> simtime" where
  "sim_time sim = time (sched sim)"

definition peek_next_event_time ::
  "('ev, 't, 'v, 'z, 'p, 'c) simulation \<Rightarrow> simtime option"
where
  "peek_next_event_time sim = map_option entry_time (peek (sched sim))"

definition has_pending_events :: "('ev, 't, 'v, 'z, 'p, 'c) simulation \<Rightarrow> bool" where
  "has_pending_events sim = (peek (sched sim) \<noteq> None)"

definition add_component ::
  "'c \<Rightarrow> ('ev, 't, 'v, 'z, 'p, 'c) simulation \<Rightarrow> uuid \<times> ('ev, 't, 'v, 'z, 'p, 'c) simulation"
where
  "add_component c sim =
     (let sim = sim\<lparr>next_component_id := next_component_id sim + 1\<rparr>;
          i = deterministic_uuid (config_seed sim) UUID_DOMAIN_COMPONENT
                (word_of_nat (next_component_id sim));
          (key, cs) = register_with_id i c (sim_components sim)
      in (key, sim\<lparr>sim_components := cs\<rparr>))"

definition step ::
  "('ev, 't, 'v, 'z) task_exec \<Rightarrow> ('c, 'ev, 't, 'v, 'z) handler
    \<Rightarrow> ('ev, 't, 'v, 'z, 'p, 'c) simulation \<Rightarrow> (bool \<times> ('ev, 't, 'v, 'z, 'p, 'c) simulation) option"
where
  "step exec handle sim =
     (let (popped, p, w) = pop_with_policy (policy sim) (policy_state sim) (sched sim);
          sim = sim\<lparr>policy_state := p, sched := w\<rparr>
      in case popped of
           None \<Rightarrow> Some (False, sim)
         | Some event \<Rightarrow>
             (let w = set_scheduler_context w
              in case process_event_entry exec handle event (sim_components sim) w of
                   None \<Rightarrow> None
                 | Some (cs, w) \<Rightarrow>
                     (let w = clear_scheduler_context w;
                          w = drain_deferred_wakes w
                      in Some (True, sim\<lparr>sched := w, sim_components := cs\<rparr>))))"

section \<open>Deferred wakes become events\<close>

lemma api_defer [intro]: "api_run w (w\<lparr>deferred_wakes := x\<rparr>)" "api_run w (w\<lparr>current_clock := b\<rparr>)"
proof -
  have "w\<lparr>deferred_wakes := x\<rparr> = w\<lparr>scheduler.more := scheduler.more (w\<lparr>deferred_wakes := x\<rparr>)\<rparr>"
    "w\<lparr>current_clock := b\<rparr> = w\<lparr>scheduler.more := scheduler.more (w\<lparr>current_clock := b\<rparr>)\<rparr>"
    by (cases w; simp)+
  then show "api_run w (w\<lparr>deferred_wakes := x\<rparr>)" "api_run w (w\<lparr>current_clock := b\<rparr>)"
    by (metis api_ambient r_into_rtranclp)+
qed

lemma api_run_schedule: "api_run w w' \<Longrightarrow> api_run w (schedule d k ev w')"
  by (erule rtranclp.rtrancl_into_rtrancl) (rule api_schedule)

lemma api_run_fold_schedule:
  "api_run w0 w \<Longrightarrow> api_run w0 (fold (\<lambda>(d, k, ev). schedule d k ev) ws w)"
  by (induction ws arbitrary: w) (auto intro: api_run_schedule)

lemma api_run_defer_wake: "api_run w (defer_wake_after d k ev w)"
  by (auto simp: defer_wake_after_def)

lemma api_run_drain: "api_run w (drain_deferred_wakes w)"
  by (auto simp: drain_deferred_wakes_def intro: api_run_fold_schedule)

lemma schedule_world [simp]:
  "deferred_wakes (schedule d k ev w) = deferred_wakes w"
  "current_clock (schedule d k ev w) = current_clock w"
  by (simp_all add: schedule_def Let_def)

lemma fold_schedule_world [simp]:
  "deferred_wakes (fold (\<lambda>(d, k, ev). schedule d k ev) ws w) = deferred_wakes w"
  "current_clock (fold (\<lambda>(d, k, ev). schedule d k ev) ws w) = current_clock w"
  by (induction ws arbitrary: w) auto

lemma drain_world [simp]:
  "deferred_wakes (drain_deferred_wakes w) = []"
  "current_clock (drain_deferred_wakes w) = current_clock w"
  by (simp_all add: drain_deferred_wakes_def)

text \<open>The entry the deferred wake with index \<open>n\<close> turns into.\<close>

definition wake_entry :: "('ev, 't, 'v, 'z) world_scheme \<Rightarrow> nat \<times> simtime \<times> uuid \<times> 'ev \<Rightarrow> 'ev event_entry" where
  "wake_entry w = (\<lambda>(n, d, k, ev). Component
     \<lparr>ce_event_id = next_event_id w + Suc n, ce_time = add_simtime (time w) d,
      component = k, inner = ev\<rparr>)"

lemma fold_schedule_mset:
  "mset (events (fold (\<lambda>(d, k, ev). schedule d k ev) ws w)) =
     mset (events w) + mset (map (wake_entry w) (List.enumerate 0 ws))"
proof (induction ws rule: rev_induct)
  case (snoc x ws)
  have "next_event_id (fold (\<lambda>(d, k, ev). schedule d k ev) ws w) = next_event_id w + length ws"
    "clock (fold (\<lambda>(d, k, ev). schedule d k ev) ws w) = clock w"
    by (induction ws arbitrary: w) (auto simp: sched_simps)
  with snoc show ?case
    by (auto simp: sched_simps wake_entry_def enumerate_append_eq time_eq split: prod.splits)
qed simp

text \<open>
  Draining loses no deferred wake: exactly one event per wake is added, in the order
  the wakes were registered (by increasing sequence numbers, after all events scheduled
  before), due at the current time plus the requested delay; the buffer is empty afterwards.
\<close>

theorem drain_deferred_wakes_correct:
  "mset (events (drain_deferred_wakes w)) =
     mset (events w) + mset (map (wake_entry w) (List.enumerate 0 (deferred_wakes w)))
   \<and> deferred_wakes (drain_deferred_wakes w) = []
   \<and> time (drain_deferred_wakes w) = time w"
proof -
  have "wake_entry (w\<lparr>deferred_wakes := []\<rparr>) = wake_entry w"
    by (simp add: wake_entry_def time_eq)
  then show ?thesis
    using fold_schedule_mset [of "deferred_wakes w" "w\<lparr>deferred_wakes := []\<rparr>"]
      api_run_frame [OF api_run_drain [of w]]
    by (simp add: drain_deferred_wakes_def time_eq)
qed

section \<open>Events behind a given key\<close>

text \<open>All live entries come after the key \<open>k\<close>, and new ones can only come after it.\<close>

definition behind :: "simtime \<times> nat \<Rightarrow> ('ev, 't, 'v, 'z) scheduler_scheme \<Rightarrow> bool" where
  "behind k s \<longleftrightarrow>
     (\<forall>x\<in>set (live s). k < event_key x) \<and> fst k \<le> time s \<and> snd k \<le> next_event_id s"

lemma behind_push:
  assumes "behind k s" "events s' = heap_push event_key e (events s)" "seq e = next_event_id s + 1"
    and "time s \<le> entry_time e" "clock s' = clock s" "next_event_id s' = next_event_id s + 1"
    and "cancelled_tasks s \<subseteq> cancelled_tasks s'"
  shows "behind k s'"
proof -
  have "k < event_key e"
    using assms(1,3,4) by (cases k) (auto simp: behind_def event_key_def less_prod_def)
  moreover have "set (live s') \<subseteq> insert e (set (live s))"
    using assms(2,7) by (auto simp: live_def is_canc_def split: option.splits)
  ultimately show ?thesis
    using assms by (auto simp: behind_def time_eq)
qed

lemma behind_mono:
  "behind k s \<Longrightarrow> events s' = events s \<Longrightarrow> clock s' = clock s \<Longrightarrow> next_event_id s' = next_event_id s \<Longrightarrow>
   cancelled_tasks s \<subseteq> cancelled_tasks s' \<Longrightarrow> behind k s'"
  by (auto simp: behind_def time_eq live_def is_canc_def split: option.splits)

lemma behind_schedule_task_at:
  "behind k s \<Longrightarrow> time s \<le> t \<Longrightarrow> behind k (schedule_task_at t i task s)"
  by (erule behind_push) (auto simp: sched_simps)

lemma behind_api_step:
  assumes "api_step s s'" "behind k s"
  shows "behind k s'"
  using assms
proof (induction rule: api_step.induct)
  case (api_schedule s d key ev)
  then show ?case
    by (rule behind_push) (simp_all add: sched_simps, simp_all add: simtime_order saturating_add_ge)
next
  case (api_schedule_task s d task)
  then have "behind k (s\<lparr>next_task_id := next_task_id s + 1\<rparr>)"
    by (rule behind_mono) simp_all
  then show ?case
    by (simp add: schedule_task_eq Let_def behind_schedule_task_at time_eq)
next
  case (api_cancel_task s i)
  then show ?case by (rule behind_mono) (auto simp: sched_simps)
qed (erule behind_mono, simp_all add: get_task_result_def)+

lemma behind_api_run: "api_run s s' \<Longrightarrow> behind k s \<Longrightarrow> behind k s'"
  by (induction rule: rtranclp_induct) (auto intro: behind_api_step)

lemma behind_task_run:
  assumes "task_run s s'" "behind k s"
  shows "behind k s'"
  using assms by (induction rule: task_run.induct)
    (auto intro: behind_api_run behind_schedule_task_at)

section \<open>Steps\<close>

text \<open>The invariant of a simulation between two steps.\<close>

definition sim_ok :: "('ev, 't, 'v, 'z, 'p, 'c) simulation \<Rightarrow> bool" where
  "sim_ok sim \<longleftrightarrow>
     sched_ok (sched sim) \<and> tasks_inv {} (sched sim) \<and>
     deferred_wakes (sched sim) = [] \<and> \<not> in_scheduler_context (sched sim)"

text \<open>The entry the next step is going to process.\<close>

definition next_entry :: "('ev, 't, 'v, 'z, 'p, 'c) simulation \<Rightarrow> 'ev event_entry option" where
  "next_entry sim = fst (pop_with_policy (policy sim) (policy_state sim) (sched sim))"

lemma context_fields [simp]:
  "sched_ok (set_scheduler_context w) = sched_ok w"
  "tasks_inv X (set_scheduler_context w) = tasks_inv X w"
  "pending_tasks (set_scheduler_context w) = pending_tasks w"
  "clock (set_scheduler_context w) = clock w"
  "next_task_id (set_scheduler_context w) = next_task_id w"
  "sched_ok (clear_scheduler_context w) = sched_ok w"
  "tasks_inv X (clear_scheduler_context w) = tasks_inv X w"
  "clock (clear_scheduler_context w) = clock w"
  "ids_fit (clear_scheduler_context w) = ids_fit w"
  by (simp_all add: set_scheduler_context_def clear_scheduler_context_def sched_ok_def time_eq
      tasks_inv_def issued_def ids_fit_def)

lemma context_fields2 [simp]:
  "events (set_scheduler_context w) = events w"
  "deferred_wakes (set_scheduler_context w) = deferred_wakes w"
  "cancelled_tasks (set_scheduler_context w) = cancelled_tasks w"
  "cancelled_tasks (clear_scheduler_context w) = cancelled_tasks w"
  by (simp_all add: set_scheduler_context_def clear_scheduler_context_def)

lemma drain_cancelled [simp]: "cancelled_tasks (drain_deferred_wakes w) = cancelled_tasks w"
proof -
  have "cancelled_tasks (fold (\<lambda>(d, k, ev). schedule d k ev) ws v) = cancelled_tasks v"
    for ws :: "(simtime \<times> uuid \<times> 'a) list" and v :: "('a, 'b, 'c, 'd) world_scheme"
    by (induction ws arbitrary: v) (auto simp: sched_simps)
  then show ?thesis by (simp add: drain_deferred_wakes_def)
qed

lemma behind_context [simp]:
  "behind k (set_scheduler_context w) = behind k w"
  "behind k (clear_scheduler_context w) = behind k w"
  by (simp_all add: set_scheduler_context_def clear_scheduler_context_def behind_def live_def time_eq)

lemma stepE:
  assumes "step exec handle sim = Some (b, sim')"
  obtains (idle) p w where "pop_with_policy (policy sim) (policy_state sim) (sched sim) = (None, p, w)"
      "\<not> b" "sim' = sim\<lparr>policy_state := p, sched := w\<rparr>"
    | (event) e p w cs w' where
      "pop_with_policy (policy sim) (policy_state sim) (sched sim) = (Some e, p, w)"
      "process_event_entry exec handle e (sim_components sim) (set_scheduler_context w) = Some (cs, w')"
      "b" "sim' = sim\<lparr>policy_state := p, sim_components := cs,
                     sched := drain_deferred_wakes (clear_scheduler_context w')\<rparr>"
  using assms by (auto simp: step_def Let_def split: prod.splits option.splits)

lemma pop_None:
  assumes "pop_with_policy pol p w = (None, p', w')" "distinct (task_ids (events w))"
  shows "live w = []" "w' = w\<lparr>events := [], cancelled_tasks := cancelled_tasks w - set (task_ids (events w))\<rparr>"
proof -
  have "live w = []"
    using pop_with_policy_total [OF assms(2), of pol p] assms(1) by simp
  moreover from this have "fst (pop_live w) = None"
    using pop_live_None_iff [OF assms(2)] by simp
  ultimately show "live w = []"
    "w' = w\<lparr>events := [], cancelled_tasks := cancelled_tasks w - set (task_ids (events w))\<rparr>"
    using assms pop_live_closed [OF assms(2)]
    by (auto simp: pop_with_policy_def split: prod.splits list.splits)
qed

lemma sim_ok_idle:
  assumes "sim_ok sim" "pop_with_policy (policy sim) (policy_state sim) (sched sim) = (None, p, w)"
  shows "sim_ok (sim\<lparr>policy_state := p, sched := w\<rparr>)"
proof -
  have ti: "tasks_inv {} (sched sim)" and d: "distinct (task_ids (events (sched sim)))"
    using assms(1) by (auto simp: sim_ok_def tasks_inv_def)
  note w = pop_None [OF assms(2) d]
  have "set (task_ids (events (sched sim))) \<subseteq> cancelled_tasks (sched sim)"
    using w(1) by (force simp: live_def filter_empty_conv task_ids_set is_canc_def)
  with ti have "dom (pending_tasks (sched sim)) = {}"
    by (auto simp: tasks_inv_def)
  then show ?thesis
    using assms(1) ti
    by (auto simp: sim_ok_def w(2) tasks_inv_def issued_def in_scheduler_context_def sched_ok_def)
qed

text \<open>
  The contract of the code a simulation runs: a task acts on the scheduler by the calls of
  \<open>api_run\<close>, and may reschedule itself; a component handler acts by such calls only.
\<close>

locale simulation_code =
  fixes exec :: "('ev, 't, 'v, 'z) task_exec"
    and handle :: "('c, 'ev, 't, 'v, 'z) handler"
  assumes exec_run: "executing_task_id w \<noteq> None \<Longrightarrow> task_run w (snd (exec t w))"
    and handle_run: "handle c k ev w = Some (c', w') \<Longrightarrow> api_run w w'"
begin

lemma process_entry_ok:
  assumes "process_event_entry exec handle e cs w = Some (cs', w')"
    and "sched_ok w" "tasks_inv (set (task_ids [e])) w" "set (task_ids [e]) \<subseteq> dom (pending_tasks w)"
    and "ids_fit w'"
  shows "sched_ok w' \<and> tasks_inv {} w' \<and> clock w' = clock w \<and> next_task_id w \<le> next_task_id w'"
proof (cases e)
  case (Component ce)
  then have "api_run w w'"
    using assms(1) handle_run by (auto split: option.splits)
  with assms Component show ?thesis
    using api_run_frame [of w w'] api_run_tasks_inv [of w w'] by simp
next
  case (Task te)
  then obtain t where "pending_tasks w (te_task_id te) = Some t"
    using assms(4) by auto
  with assms Task show ?thesis
    using execute_task_ok [of w "te_task_id te" t exec] exec_run by simp
qed

lemma process_entry_behind:
  assumes "process_event_entry exec handle e cs w = Some (cs', w')" "behind k w"
    and "sched_ok w" "tasks_inv (set (task_ids [e])) w" "set (task_ids [e]) \<subseteq> dom (pending_tasks w)"
  shows "behind k w'"
proof (cases e)
  case (Component ce)
  then have "api_run w w'"
    using assms(1) handle_run by (auto split: option.splits)
  with assms(2) show ?thesis by (auto intro: behind_api_run)
next
  case (Task te)
  let ?i = "te_task_id te"
  from Task obtain t where pend: "pending_tasks w ?i = Some t"
    using assms(5) by auto
  define w1 where "w1 = w\<lparr>pending_tasks := (pending_tasks w)(?i := None), executing_task_id := Some ?i\<rparr>"
  obtain r w2 where ex: "exec t w1 = (r, w2)" by fastforce
  have "?i \<notin> cancelled_tasks w"
    using execute_task_begin(1) [OF assms(3) _ pend] assms(4) Task by simp
  note eq = execute_task_eq [of ?i w t exec, folded w1_def, OF this pend ex]
  have "task_run w1 w2"
    using exec_run [of w1 t] ex by (simp add: w1_def)
  moreover have "behind k w1"
    using assms(2) by (rule behind_mono) (simp_all add: w1_def)
  ultimately have "behind k w2" by (rule behind_task_run)
  then show ?thesis
    using assms(1) Task by (auto simp: eq intro: behind_mono)
qed

lemma step_sound:
  assumes ok: "sim_ok sim" and st: "step exec handle sim = Some (b, sim')"
    and fit: "ids_fit (sched sim')"
  shows "sim_ok sim' \<and> policy sim' = policy sim \<and>
    next_task_id (sched sim) \<le> next_task_id (sched sim') \<and>
    (case next_entry sim of
       None \<Rightarrow> \<not> b \<and> live (sched sim) = [] \<and> sim_time sim' = sim_time sim
         \<and> sim_components sim' = sim_components sim
     | Some e \<Rightarrow> b \<and> e \<in> set (live (sched sim)) \<and> sim_time sim' = entry_time e
         \<and> sim_time sim \<le> sim_time sim' \<and> (\<forall>x\<in>set (live (sched sim)). entry_time e \<le> entry_time x))"
  using st
proof (cases rule: stepE)
  case (idle p w)
  have d: "distinct (task_ids (events (sched sim)))"
    using ok by (auto simp: sim_ok_def tasks_inv_def)
  note w = pop_None [OF idle(1) d]
  show ?thesis
    using idle w sim_ok_idle [OF ok idle(1)] by (simp add: next_entry_def sim_time_def time_eq)
next
  case (event e p w cs w')
  have so: "sched_ok (sched sim)" and ti: "tasks_inv {} (sched sim)"
    and d: "distinct (task_ids (events (sched sim)))"
    using ok by (auto simp: sim_ok_def tasks_inv_def)
  have pe: "pop_effect (sched sim) e w"
    by (rule pop_effect_with_policy [OF so d event(1)])
  have lv: "e \<in> set (live (sched sim))"
    using pop_effect_live [OF pe d] by (metis set_mset_mset union_single_eq_member)
  have nt: "next_task_id w = next_task_id (sched sim)"
    using pe by (auto elim: pop_effectE)
  let ?w = "clear_scheduler_context w'"
  have run: "api_run ?w (drain_deferred_wakes ?w)"
    by (rule api_run_drain)
  have fit': "ids_fit (drain_deferred_wakes ?w)"
    using fit event by simp
  have "ids_fit w'"
    using ids_fit_mono [OF run fit'] by simp
  with process_entry_ok [OF event(2)] pop_effect_sched_ok [OF pe so] pop_effect_tasks [OF pe ti]
  have w': "sched_ok w' \<and> tasks_inv {} w' \<and> clock w' = clock w \<and> next_task_id w \<le> next_task_id w'"
    by simp
  then have "sched_ok (drain_deferred_wakes ?w) \<and> tasks_inv {} (drain_deferred_wakes ?w)
      \<and> clock (drain_deferred_wakes ?w) = clock w"
    using api_run_frame [OF run] api_run_tasks_inv [OF run _ fit'] by simp
  moreover have "next_task_id w' \<le> next_task_id (drain_deferred_wakes ?w)"
    using api_run_frame [OF run] by (simp add: clear_scheduler_context_def)
  ultimately show ?thesis
    using event lv nt w' pop_effect_time [OF pe so]
    by (simp add: next_entry_def sim_ok_def sim_time_def time_eq in_scheduler_context_def
        clear_scheduler_context_def)
qed

lemma process_entry_next_task_id:
  assumes "process_event_entry exec handle e cs w = Some (cs', w')"
  shows "next_task_id w \<le> next_task_id w'"
proof (cases e)
  case (Component ce)
  then have "api_run w w'"
    using assms handle_run by (auto split: option.splits)
  then show ?thesis using api_run_frame by blast
next
  case (Task te)
  let ?i = "te_task_id te"
  have w': "w' = snd (execute_task exec ?i w)"
    using assms Task by simp
  show ?thesis
  proof (cases "?i \<in> cancelled_tasks w \<or> pending_tasks w ?i = None")
    case True
    then show ?thesis by (auto simp: w' execute_task_def)
  next
    case False
    then obtain t where pend: "pending_tasks w ?i = Some t" and nc: "?i \<notin> cancelled_tasks w" by auto
    define w1 where "w1 = w\<lparr>pending_tasks := (pending_tasks w)(?i := None), executing_task_id := Some ?i\<rparr>"
    obtain r w2 where ex: "exec t w1 = (r, w2)" by fastforce
    have "task_run w1 w2"
      using exec_run [of w1 t] ex by (simp add: w1_def)
    then have "next_task_id w1 \<le> next_task_id w2"
      by cases (auto dest: api_run_frame simp: sched_simps)
    then show ?thesis
      using execute_task_eq [of ?i w t exec, folded w1_def, OF nc pend ex] by (simp add: w' w1_def)
  qed
qed

lemma task_run_sched_ok:
  "task_run w w' \<Longrightarrow> sched_ok w \<Longrightarrow> sched_ok w' \<and> clock w' = clock w"
  by (induction rule: task_run.induct)
    (auto dest: api_run_frame simp: sched_simps intro: sched_ok_schedule_task_at)

text \<open>The queue and the clock alone need no assumption on the task table.\<close>

lemma process_entry_sched_ok:
  assumes "process_event_entry exec handle e cs w = Some (cs', w')" "sched_ok w"
  shows "sched_ok w' \<and> clock w' = clock w"
proof (cases e)
  case (Component ce)
  then have "api_run w w'"
    using assms handle_run by (auto split: option.splits)
  then show ?thesis using api_run_frame assms(2) by blast
next
  case (Task te)
  let ?i = "te_task_id te"
  have w': "w' = snd (execute_task exec ?i w)"
    using assms Task by simp
  show ?thesis
  proof (cases "?i \<in> cancelled_tasks w \<or> pending_tasks w ?i = None")
    case True
    then show ?thesis using assms(2) by (auto simp: w' execute_task_def)
  next
    case False
    then obtain t where pend: "pending_tasks w ?i = Some t" and nc: "?i \<notin> cancelled_tasks w" by auto
    define w1 where "w1 = w\<lparr>pending_tasks := (pending_tasks w)(?i := None), executing_task_id := Some ?i\<rparr>"
    obtain r w2 where ex: "exec t w1 = (r, w2)" by fastforce
    have "task_run w1 w2"
      using exec_run [of w1 t] ex by (simp add: w1_def)
    then have "sched_ok w2 \<and> clock w2 = clock w1"
      by (rule task_run_sched_ok) (use assms(2) in \<open>simp add: w1_def\<close>)
    then show ?thesis
      using execute_task_eq [of ?i w t exec, folded w1_def, OF nc pend ex] by (simp add: w' w1_def)
  qed
qed

lemma step_next_task_id:
  assumes "step exec handle sim = Some (b, sim')"
  shows "next_task_id (sched sim) \<le> next_task_id (sched sim')"
  using assms
proof (cases rule: stepE)
  case (idle p w)
  then show ?thesis using pop_with_policy_frame [OF idle(1)] by simp
next
  case (event e p w cs w')
  have "next_task_id w \<le> next_task_id w'"
    using process_entry_next_task_id [OF event(2)] by simp
  moreover have "next_task_id (clear_scheduler_context w') \<le>
      next_task_id (drain_deferred_wakes (clear_scheduler_context w'))"
    using api_run_frame [OF api_run_drain] by blast
  ultimately show ?thesis
    using pop_with_policy_frame [OF event(1)] event by (simp add: clear_scheduler_context_def)
qed

end

section \<open>Runs\<close>

text \<open>
  A run of several steps, with the entries it processes in order. A step that finds no live
  entry processes nothing.
\<close>

inductive sim_run ::
  "('ev, 't, 'v, 'z) task_exec \<Rightarrow> ('c, 'ev, 't, 'v, 'z) handler \<Rightarrow> ('ev, 't, 'v, 'z, 'p, 'c) simulation
    \<Rightarrow> 'ev event_entry list \<Rightarrow> ('ev, 't, 'v, 'z, 'p, 'c) simulation \<Rightarrow> bool"
  for exec handle
where
  run_nil: "sim_run exec handle sim [] sim"
| run_step: "next_entry sim = Some e \<Longrightarrow> step exec handle sim = Some (True, sim1) \<Longrightarrow>
     sim_run exec handle sim1 es sim2 \<Longrightarrow> sim_run exec handle sim (e # es) sim2"
| run_idle: "next_entry sim = None \<Longrightarrow> step exec handle sim = Some (False, sim1) \<Longrightarrow>
     sim_run exec handle sim1 es sim2 \<Longrightarrow> sim_run exec handle sim es sim2"

text \<open>A run of \<open>n\<close> steps that process an entry each.\<close>

fun run_n ::
  "('ev, 't, 'v, 'z) task_exec \<Rightarrow> ('c, 'ev, 't, 'v, 'z) handler \<Rightarrow> nat
    \<Rightarrow> ('ev, 't, 'v, 'z, 'p, 'c) simulation
    \<Rightarrow> ('ev event_entry list \<times> ('ev, 't, 'v, 'z, 'p, 'c) simulation) option"
where
  "run_n exec handle 0 sim = Some ([], sim)"
| "run_n exec handle (Suc n) sim =
     (case (next_entry sim, step exec handle sim) of
        (Some e, Some (True, sim)) \<Rightarrow> map_option (\<lambda>(es, sim). (e # es, sim)) (run_n exec handle n sim)
      | _ \<Rightarrow> None)"

lemma run_n_run: "run_n exec handle n sim = Some (es, sim') \<Longrightarrow> sim_run exec handle sim es sim' \<and> length es = n"
  by (induction n arbitrary: sim es) (auto split: option.splits bool.splits prod.splits intro: sim_run.intros)

context simulation_code
begin

lemma run_next_task_id:
  "sim_run exec handle sim es sim' \<Longrightarrow> next_task_id (sched sim) \<le> next_task_id (sched sim')"
  by (induction rule: sim_run.induct) (auto dest!: step_next_task_id)

lemma run_ids_fit: "sim_run exec handle sim es sim' \<Longrightarrow> ids_fit (sched sim') \<Longrightarrow> ids_fit (sched sim)"
  using run_next_task_id [of sim es sim'] by (simp add: ids_fit_def)

lemma run_sound:
  assumes "sim_run exec handle sim es sim'" "sim_ok sim" "ids_fit (sched sim')"
  shows "sim_ok sim' \<and> policy sim' = policy sim \<and> sorted (map entry_time es) \<and>
    (\<forall>e\<in>set es. sim_time sim \<le> entry_time e) \<and> sim_time sim \<le> sim_time sim' \<and>
    (\<forall>e\<in>set es. entry_time e \<le> sim_time sim')"
  using assms
proof (induction rule: sim_run.induct)
  case (run_step sim e sim1 es sim2)
  have "ids_fit (sched sim1)"
    by (rule run_ids_fit) fact+
  note s = step_sound [OF run_step.prems(1) run_step.hyps(2) this]
  with run_step show ?case by fastforce
next
  case (run_idle sim sim1 es sim2)
  have "ids_fit (sched sim1)"
    by (rule run_ids_fit) fact+
  note s = step_sound [OF run_idle.prems(1) run_idle.hyps(2) this]
  with run_idle show ?case by simp
qed simp

lemma step_idle:
  assumes "step exec handle sim = Some (False, sim')" "sim_ok sim"
  shows "sim_ok sim' \<and> live (sched sim) = [] \<and> events (sched sim') = [] \<and> sim_time sim' = sim_time sim
    \<and> next_event_id (sched sim') = next_event_id (sched sim)"
  using assms(1)
proof (cases rule: stepE)
  case (idle p w)
  have d: "distinct (task_ids (events (sched sim)))"
    using assms(2) by (auto simp: sim_ok_def tasks_inv_def)
  show ?thesis
    using idle pop_None [OF idle(1) d] sim_ok_idle [OF assms(2) idle(1)]
    by (simp add: sim_time_def time_eq)
qed simp

text \<open>Under the FIFO policy, everything left after a step is behind the processed entry.\<close>

lemma fifo_step_behind:
  assumes ok: "sim_ok sim" and ff: "policy sim = fifo_choose" and ne: "next_entry sim = Some e"
    and st: "step exec handle sim = Some (b, sim')"
  shows "behind (event_key e) (sched sim')"
  using st
proof (cases rule: stepE)
  case (idle p w)
  with ne show ?thesis by (simp add: next_entry_def)
next
  case (event e' p w cs w')
  have so: "sched_ok (sched sim)" and ti: "tasks_inv {} (sched sim)"
    and d: "distinct (task_ids (events (sched sim)))"
    using ok by (auto simp: sim_ok_def tasks_inv_def)
  have pop: "pop_with_policy fifo_choose () (sched sim) = (Some e, p, w)"
    using event(1) ne ff by (simp add: next_entry_def)
  have e': "e' = e"
    using event(1) ne by (simp add: next_entry_def)
  have pe: "pop_effect (sched sim) e w"
    by (rule pop_effect_with_policy [OF so d pop])
  have ms: "mset (live (sched sim)) = add_mset e (mset (live w))"
    by (rule pop_effect_live [OF pe d])
  obtain first s1 where pl: "pop_live (sched sim) = (Some first, s1)"
    using pop_live_None_iff [OF d] ms by (cases "pop_live (sched sim)") fastforce
  with fifo_pop_head [OF so d pl] pop have "first = e" by auto
  with pop_live_SomeE [OF d pl] obtain r where l: "live (sched sim) = e # r" by metis
  have "set (live w) = set r"
    using ms l by (metis add_mset_add_mset_same_iff mset.simps(2) set_mset_mset)
  moreover have "next_event_id w = next_event_id (sched sim)" "e \<in> set (events (sched sim))"
    using pe live_subset [of "sched sim"] l by (auto elim: pop_effectE)
  moreover have "seq e \<le> next_event_id (sched sim)"
    using so calculation by (auto simp: sched_ok_def)
  ultimately have "behind (event_key e) w"
    using live_head_least [OF so l] pop_effect_time(1) [OF pe so]
    by (simp add: behind_def event_key_def)
  then have "behind (event_key e) w'"
    using process_entry_behind [OF event(2), of "event_key e"] pop_effect_sched_ok [OF pe so]
      pop_effect_tasks [OF pe ti] by (simp add: e')
  then have "behind (event_key e) (drain_deferred_wakes (clear_scheduler_context w'))"
    by (intro behind_api_run [OF api_run_drain]) simp
  then show ?thesis using event by simp
qed

lemma fifo_run_sorted:
  assumes "sim_run exec handle sim es sim'" "sim_ok sim" "policy sim = fifo_choose"
    "ids_fit (sched sim')"
  shows "sorted_wrt (<) (map event_key es) \<and> (behind k (sched sim) \<longrightarrow> (\<forall>e\<in>set es. k < event_key e))"
  using assms
proof (induction arbitrary: k rule: sim_run.induct)
  case (run_step sim e sim1 es sim2)
  have "ids_fit (sched sim1)"
    by (rule run_ids_fit) fact+
  note s = step_sound [OF run_step.prems(1) run_step.hyps(2) this]
  have "behind (event_key e) (sched sim1)"
    by (rule fifo_step_behind) fact+
  with s run_step have es: "sorted_wrt (<) (map event_key es)" "\<forall>x\<in>set es. event_key e < event_key x"
    by auto
  have "e \<in> set (live (sched sim))"
    using s run_step.hyps(1) by simp
  with es show ?case
    by (auto simp: behind_def dest!: bspec)
next
  case (run_idle sim sim1 es sim2)
  have fit: "ids_fit (sched sim1)"
    by (rule run_ids_fit) fact+
  note i = step_idle [OF run_idle.hyps(2) run_idle.prems(1)]
  have "behind k (sched sim1)" if "behind k (sched sim)"
    using that i by (simp add: behind_def live_def sim_time_def)
  moreover have "policy sim1 = fifo_choose"
    using step_sound [OF run_idle.prems(1) run_idle.hyps(2) fit] run_idle.prems(2) by simp
  ultimately show ?case
    using run_idle i by blast
qed simp

end

section \<open>Properties of steps and runs\<close>

text \<open>
  C25. One step, under any frontier policy and any user code that respects the scheduler's
  interface: the step reports false exactly when no live entry is left, and then neither the
  clock nor a component changes; otherwise it processes one of the earliest live entries and
  the clock is at its time. The invariants hold again afterwards: no wake is left in the
  buffer and the scheduler context is cleared.
\<close>

theorem step_correct:
  assumes "simulation_code exec handle" and "sim_ok sim"
    and "step exec handle sim = Some (b, sim')" and "ids_fit (sched sim')"
  shows "sim_ok sim' \<and>
    (case next_entry sim of
       None \<Rightarrow> \<not> b \<and> live (sched sim) = [] \<and> sim_time sim' = sim_time sim
         \<and> sim_components sim' = sim_components sim
     | Some e \<Rightarrow> b \<and> e \<in> set (live (sched sim)) \<and> sim_time sim' = entry_time e
         \<and> sim_time sim \<le> sim_time sim' \<and> (\<forall>x\<in>set (live (sched sim)). entry_time e \<le> entry_time x))"
  using simulation_code.step_sound [OF assms] by blast

text \<open>
  Causality of runs: under any policy, the entries a run processes have non-decreasing
  times, none before the time the run starts at, and the clock ends at or after each of them.
\<close>

theorem run_time_order:
  assumes "simulation_code exec handle" and "sim_ok sim"
    and "sim_run exec handle sim es sim'" and "ids_fit (sched sim')"
  shows "sorted (map entry_time es) \<and> (\<forall>e\<in>set es. sim_time sim \<le> entry_time e \<and> entry_time e \<le> sim_time sim')
    \<and> sim_ok sim'"
  using simulation_code.run_sound [OF assms(1,3,2,4)] by blast

text \<open>
  C27. Determinism of the default policy: a run under FIFO processes entries in strictly
  increasing order of time and sequence number, also those that are scheduled, deferred or
  rescheduled while it runs.
\<close>

theorem fifo_run_order:
  assumes "simulation_code exec handle" and "sim_ok sim" and "policy sim = fifo_choose"
    and "sim_run exec handle sim es sim'" and "ids_fit (sched sim')"
  shows "sorted_wrt (<) (map event_key es)"
  using simulation_code.fifo_run_sorted [OF assms(1,4,2,3,5)] by blast

subsection \<open>Component identifiers\<close>

text \<open>The components of a simulation that were all added with \<open>add_component\<close>.\<close>

definition component_ids_ok :: "('ev, 't, 'v, 'z, 'p, 'c) simulation \<Rightarrow> bool" where
  "component_ids_ok sim \<longleftrightarrow>
     dom (component_table (sim_components sim)) \<subseteq>
       (\<lambda>n. deterministic_uuid (config_seed sim) UUID_DOMAIN_COMPONENT (word_of_nat n))
         ` {1..next_component_id sim}"

text \<open>
  A component added with \<open>add_component\<close> gets an identifier no other component of
  the simulation has, so it never replaces one, and an event sent to the returned key reaches
  it.
\<close>

theorem add_component_fresh:
  assumes "component_ids_ok sim" and "next_component_id sim + 1 < 2 ^ 64"
    and "add_component c sim = (key, sim')"
  shows "key \<notin> dom (component_table (sim_components sim))
    \<and> component_table (sim_components sim') = (component_table (sim_components sim))(key \<mapsto> c)
    \<and> component_ids_ok sim' \<and> sched sim' = sched sim"
proof -
  let ?id = "\<lambda>n. deterministic_uuid (config_seed sim) UUID_DOMAIN_COMPONENT (word_of_nat n)"
  have key: "key = ?id (next_component_id sim + 1)"
    using assms(3) by (auto simp: add_component_def register_with_id_def Let_def)
  have "?id n \<noteq> key" if "n \<le> next_component_id sim" for n
    using that assms(2) word_of_nat_eq_iff_u64 [of n "next_component_id sim + 1"]
    by (simp add: key task_uuid_inj)
  then have "key \<notin> ?id ` {1..next_component_id sim}" by force
  moreover have "{1..Suc (next_component_id sim)} = insert (Suc (next_component_id sim)) {1..next_component_id sim}"
    by auto
  moreover have sim': "component_table (sim_components sim') = (component_table (sim_components sim))(key \<mapsto> c)"
    "next_component_id sim' = Suc (next_component_id sim)" "config_seed sim' = config_seed sim"
    "sched sim' = sched sim"
    using assms(3) by (auto simp: add_component_def register_with_id_def Let_def)
  ultimately show ?thesis
    using assms(1) key by (auto simp: component_ids_ok_def sim' simp del: fun_upd_apply)
qed

section \<open>Instances\<close>

text \<open>A component that counts its events and sends itself the next one until zero.\<close>

definition count_handle :: "(nat, nat, 't, 'v, 'z) handler" where
  "count_handle c k n w =
     Some (c + 1, if n = 0 then w else defer_wake k 0 (schedule (SimTime 10) k (n - 1) w))"

lemma count_handle_code: "simulation_code (exec_task idle_code) count_handle"
proof (unfold_locales, goal_cases)
  case (1 w t)
  then show ?case
    using exec_task_run [OF idle_code_ok, of w _ t] by auto
next
  case (2 c k ev w c' w')
  have "api_run w (schedule (SimTime 10) k (ev - 1) w)"
    by (rule api_run_schedule) simp
  then have "api_run w (defer_wake k 0 (schedule (SimTime 10) k (ev - 1) w))"
    using api_run_defer_wake unfolding defer_wake_def by (rule rtranclp_trans)
  with 2 show ?case
    by (auto simp: count_handle_def split: if_splits)
qed

definition count_sim :: "(nat, unit task, (unit, nat) task_value, unit, unit, nat) simulation" where
  "count_sim =
     (let (k, sim) = add_component 0 (simulation_new 42 ())
      in sim\<lparr>sched := schedule (SimTime 5) k 1 (sched sim)\<rparr>)"

lemmas sim_new_eval = simulation_new_def add_component_def register_with_id_def
  world.defs scheduler.defs with_seed_def components_default_def

lemmas sched_eval = schedule_def Let_def heap_push_def add_simtime_def time_eq event_key_def
  saturating_add_def

lemmas step_eval = step_def next_entry_def pop_with_policy_def pop_live.simps
  collect_frontier.simps is_cancelled_task_event_def swap_remove_def set_scheduler_context_def
  clear_scheduler_context_def drain_deferred_wakes_def defer_wake_def defer_wake_after_def

lemma count_sim_ok: "sim_ok count_sim"
  by (simp add: count_sim_def sim_new_eval sched_eval sim_ok_def sched_ok_def tasks_inv_def
      in_scheduler_context_def)

lemma count_sim_next:
  "next_entry count_sim = Some (Component \<lparr>ce_event_id = 1, ce_time = SimTime 5,
     component = deterministic_uuid 42 UUID_DOMAIN_COMPONENT 1, inner = 1\<rparr>)"
  "policy count_sim = fifo_choose"
  by (simp_all add: count_sim_def sim_new_eval sched_eval step_eval)

lemma count_sim_step:
  "\<exists>sim'. step (exec_task idle_code) count_handle count_sim = Some (True, sim')
     \<and> ids_fit (sched sim') \<and> map entry_time (events (sched sim')) = [SimTime 5, SimTime 15]"
  by (simp add: count_sim_def sim_new_eval sched_eval step_eval count_handle_def ids_fit_def)

theorem step_correct_witness:
  "\<exists>sim'. step (exec_task idle_code) count_handle count_sim = Some (True, sim')
     \<and> sim_ok sim' \<and> sim_time sim' = SimTime 5"
proof -
  from count_sim_step obtain sim' where
    st: "step (exec_task idle_code) count_handle count_sim = Some (True, sim')"
    and fit: "ids_fit (sched sim')" by blast
  from step_correct [OF count_handle_code count_sim_ok st fit] st show ?thesis
    by (simp add: count_sim_next)
qed

lemma count_sim_run:
  "\<exists>e sim'. sim_run (exec_task idle_code) count_handle count_sim [e] sim' \<and> ids_fit (sched sim')
     \<and> entry_time e = SimTime 5"
  using count_sim_step count_sim_next by (force intro: sim_run.intros)

theorem run_time_order_witness:
  "\<exists>e sim'. sim_run (exec_task idle_code) count_handle count_sim [e] sim'
     \<and> sim_time count_sim \<le> entry_time e \<and> entry_time e \<le> sim_time sim'"
proof -
  from count_sim_run obtain e sim' where
    r: "sim_run (exec_task idle_code) count_handle count_sim [e] sim'"
    and fit: "ids_fit (sched sim')" by blast
  from run_time_order [OF count_handle_code count_sim_ok r fit] r show ?thesis by auto
qed

theorem fifo_run_order_witness:
  "\<exists>e sim'. sim_run (exec_task idle_code) count_handle count_sim [e] sim'
     \<and> sorted_wrt (<) (map event_key [e])"
proof -
  from count_sim_run obtain e sim' where
    r: "sim_run (exec_task idle_code) count_handle count_sim [e] sim'"
    and fit: "ids_fit (sched sim')" by blast
  from fifo_run_order [OF count_handle_code count_sim_ok count_sim_next(2) r fit] r
  show ?thesis by blast
qed

theorem add_component_fresh_witness:
  "fst (add_component 7 count_sim) \<notin> dom (component_table (sim_components count_sim))"
proof -
  have "component_ids_ok count_sim" "next_component_id count_sim + 1 < 2 ^ 64"
    by (simp_all add: count_sim_def sim_new_eval sched_eval component_ids_ok_def)
  from add_component_fresh [OF this surjective_pairing] show ?thesis by blast
qed

end
