(* ===== verification/Wakers.thy ===== *)
theory Wakers
  imports Des_Prelude
begin

text \<open>
  What the synchronization primitives of \<open>des-tokio\<close> share: the result of polling a future,
  runs labelled with the wakers that were called, and the contract of a waker slot. A waiting
  task leaves its waker in a slot of the primitive; the contract says that the slot is kept
  until the waker is called and that the step which makes the task's poll ready calls it.
  From this a task is never left asleep while it could proceed.
\<close>

datatype 'a poll = Ready 'a | Pending

text \<open>Runs of a step relation, with all wakers called on the way.\<close>

inductive trace :: "('s \<Rightarrow> 'w list \<Rightarrow> 's \<Rightarrow> bool) \<Rightarrow> 's \<Rightarrow> 'w list \<Rightarrow> 's \<Rightarrow> bool" for step where
  trace_refl: "trace step s [] s"
| trace_step: "step s ws s' \<Longrightarrow> trace step s' ws' s'' \<Longrightarrow> trace step s (ws @ ws') s''"

lemma trace_one: "step s ws s' \<Longrightarrow> trace step s ws s'"
  using trace_step [OF _ trace_refl] by force

lemma trace_trans: "trace step s ws s' \<Longrightarrow> trace step s' ws' s'' \<Longrightarrow> trace step s (ws @ ws') s''"
  by (induction rule: trace.induct) (auto simp: intro: trace_step)

lemma trace_invariant:
  assumes "trace step s ws s'" "I s" "\<And>s ws s'. step s ws s' \<Longrightarrow> I s \<Longrightarrow> I s'"
  shows "I s' \<and> trace (\<lambda>s ws s'. I s \<and> step s ws s') s ws s'"
  using assms(1,2) by (induction rule: trace.induct) (auto intro: trace.intros assms(3))

locale waker_slot =
  fixes step :: "'s \<Rightarrow> 'w list \<Rightarrow> 's \<Rightarrow> bool"
    and slot :: "'s \<Rightarrow> 'w option"
    and ready :: "'s \<Rightarrow> bool"
  assumes slot_kept: "step s ws s' \<Longrightarrow> slot s = Some w \<Longrightarrow> slot s' = Some w \<or> w \<in> set ws"
    and ready_wakes: "step s ws s' \<Longrightarrow> slot s = Some w \<Longrightarrow> \<not> ready s \<Longrightarrow> ready s' \<Longrightarrow> w \<in> set ws"
begin

lemma no_lost_wakeup:
  assumes "trace step s ws s'" "slot s = Some w" "\<not> ready s" "ready s'"
  shows "w \<in> set ws"
  using assms
proof (induction rule: trace.induct)
  case (trace_step s ws s1 ws' s')
  show ?case
  proof (cases "w \<in> set ws")
    case False
    with trace_step.hyps(1) trace_step.prems have "slot s1 = Some w" "\<not> ready s1"
      using slot_kept ready_wakes by blast+
    with trace_step show ?thesis by simp
  qed simp
qed simp

end

end
