(* ===== verification/Async_Runtime.thy ===== *)
theory Async_Runtime
  imports Simulation Wakers
begin

text \<open>
  \<open>des-core/src/async_runtime.rs\<close> and \<open>waker.rs\<close>: the runtime component that polls futures,
  its timers, the handles for spawning and cancelling tasks, and the sleep future. Futures
  are values of a type \<open>'f\<close>; their \<open>poll\<close> and \<open>drop\<close> are a parameter (\<open>future_code\<close>). The
  state that the handles share with the runtime and the thread-locals of the module extend
  the record of the simulation's world, the rest of which (\<open>'z\<close>) is the state of the user's
  futures. Task identifiers are natural numbers. Logging is left out.
\<close>

section \<open>Data\<close>

datatype runtime_event =
    Poll
  | Wake nat
  | Cancel nat
  | RegisterTimer nat simtime
  | CancelTimer nat simtime
  | TimerTick

text \<open>The events of a simulation with a runtime in it.\<close>

datatype 'e sim_event = RuntimeEv runtime_event | OtherEv 'e

record runtime_diagnostics =
  diag_task_count :: nat
  diag_timer_count :: nat
  diag_timer_registration :: nat
  diag_ready_queue_len :: nat
  diag_events_processed :: u64

record ('e, 't, 'v, 'f) rt_world = "('e sim_event, 't, 'v) world" +
  rt_next_task_id :: nat
  spawn_queue :: "(nat \<times> 'f) list"
  spawn_queue_local :: "(nat \<times> 'f) list"
  current_runtime_key :: "uuid option"
  current_task_id :: "nat option"
  rt_diag :: runtime_diagnostics

text \<open>A waker is the component key and the event it schedules.\<close>

type_synonym des_waker = "uuid \<times> runtime_event"

definition create_des_waker :: "uuid \<Rightarrow> runtime_event \<Rightarrow> des_waker" where
  "create_des_waker key event = (key, event)"

definition des_wake ::
  "des_waker \<Rightarrow> ('e, 't, 'v, 'f, 'z) rt_world_scheme \<Rightarrow> ('e, 't, 'v, 'f, 'z) rt_world_scheme"
where
  "des_wake wk w = defer_wake (fst wk) (RuntimeEv (snd wk)) w"

record ('f, 'w) future_code =
  poll_future :: "des_waker \<Rightarrow> 'f \<Rightarrow> 'w \<Rightarrow> unit poll \<times> 'f \<times> 'w"
  drop_future :: "'f \<Rightarrow> 'w \<Rightarrow> 'w"

record 'f rt_task =
  rt_future :: 'f
  queued :: bool

type_synonym 'p ready_policy = "'p \<Rightarrow> simtime \<Rightarrow> nat list \<Rightarrow> usize \<times> 'p"

definition fifo_ready_choose :: "'p ready_policy" where
  "fifo_ready_choose p now ready = (0, p)"

definition random_ready_choose :: "('rng \<Rightarrow> usize \<Rightarrow> usize \<times> 'rng) \<Rightarrow> 'rng ready_policy" where
  "random_ready_choose gen_range rng now ready =
     (if ready = [] then (0, rng) else gen_range rng (length ready))"

record ready_task_signature =
  rs_time_nanos :: u64
  rs_ready_task_ids :: "nat list"

definition ready_task_signature_new :: "simtime \<Rightarrow> nat list \<Rightarrow> ready_task_signature" where
  "ready_task_signature_new now ready =
     \<lparr>rs_time_nanos = (case try_from_nat (as_duration now) of Some n \<Rightarrow> n | None \<Rightarrow> u64_max),
      rs_ready_task_ids = ready\<rparr>"

text \<open>The timers are a \<open>BTreeMap\<close>: an association list in the order of the deadlines.\<close>

record ('f, 'p) des_runtime =
  rt_tasks :: "nat \<rightharpoonup> 'f rt_task"
  ready_queue :: "nat list"
  ready_task_policy :: "'p ready_policy"
  ready_policy_state :: 'p
  timers :: "(simtime \<times> nat list) list"
  next_timer_deadline :: "simtime option"
  runtime_key :: "uuid option"

definition des_runtime_new :: "('f, unit) des_runtime" where
  "des_runtime_new =
     \<lparr>rt_tasks = Map.empty, ready_queue = [], ready_task_policy = fifo_ready_choose,
      ready_policy_state = (), timers = [], next_timer_deadline = None, runtime_key = None\<rparr>"

definition set_ready_task_policy ::
  "'q ready_policy \<Rightarrow> 'q \<Rightarrow> ('f, 'p) des_runtime \<Rightarrow> ('f, 'q) des_runtime"
where
  "set_ready_task_policy pol q r =
     \<lparr>rt_tasks = rt_tasks r, ready_queue = ready_queue r, ready_task_policy = pol,
      ready_policy_state = q, timers = timers r, next_timer_deadline = next_timer_deadline r,
      runtime_key = runtime_key r\<rparr>"

section \<open>Handles\<close>

text \<open>\<open>in_scheduler_context\<close> decides whether the runtime is woken.\<close>

definition defer_in_context ::
  "uuid \<Rightarrow> runtime_event \<Rightarrow> ('e, 't, 'v, 'f, 'z) rt_world_scheme \<Rightarrow> ('e, 't, 'v, 'f, 'z) rt_world_scheme"
where
  "defer_in_context key ev w = (if in_scheduler_context w then defer_wake key (RuntimeEv ev) w else w)"

definition handle_spawn ::
  "uuid \<Rightarrow> 'f \<Rightarrow> ('e, 't, 'v, 'f, 'z) rt_world_scheme \<Rightarrow> nat \<times> ('e, 't, 'v, 'f, 'z) rt_world_scheme"
where
  "handle_spawn key f w =
     (let i = rt_next_task_id w;
          w = w\<lparr>rt_next_task_id := i + 1, spawn_queue := spawn_queue w @ [(i, f)]\<rparr>
      in (i, defer_in_context key Poll w))"

definition handle_spawn_local ::
  "uuid \<Rightarrow> 'f \<Rightarrow> ('e, 't, 'v, 'f, 'z) rt_world_scheme \<Rightarrow> nat \<times> ('e, 't, 'v, 'f, 'z) rt_world_scheme"
where
  "handle_spawn_local key f w =
     (let i = rt_next_task_id w;
          w = w\<lparr>rt_next_task_id := i + 1, spawn_queue_local := spawn_queue_local w @ [(i, f)]\<rparr>
      in (i, defer_in_context key Poll w))"

text \<open>The requests of the task are dropped, with the effects of dropping their futures.\<close>

definition drop_requests ::
  "('f, 'w) future_code \<Rightarrow> nat \<Rightarrow> (nat \<times> 'f) list \<Rightarrow> 'w \<Rightarrow> 'w"
where
  "drop_requests fc task_id q w = fold (\<lambda>(i, f). drop_future fc f) (filter (\<lambda>(i, f). i = task_id) q) w"

definition handle_cancel ::
  "('f, ('e, 't, 'v, 'f, 'z) rt_world_scheme) future_code \<Rightarrow> uuid \<Rightarrow> nat
    \<Rightarrow> ('e, 't, 'v, 'f, 'z) rt_world_scheme \<Rightarrow> ('e, 't, 'v, 'f, 'z) rt_world_scheme"
where
  "handle_cancel fc key task_id w =
     (let q = spawn_queue w;
          w = drop_requests fc task_id q (w\<lparr>spawn_queue := filter (\<lambda>(i, f). i \<noteq> task_id) q\<rparr>)
      in defer_in_context key (Cancel task_id) w)"

definition handle_cancel_local ::
  "('f, ('e, 't, 'v, 'f, 'z) rt_world_scheme) future_code \<Rightarrow> uuid \<Rightarrow> nat
    \<Rightarrow> ('e, 't, 'v, 'f, 'z) rt_world_scheme \<Rightarrow> ('e, 't, 'v, 'f, 'z) rt_world_scheme"
where
  "handle_cancel_local fc key task_id w =
     (let q = spawn_queue_local w;
          w = drop_requests fc task_id q (w\<lparr>spawn_queue_local := filter (\<lambda>(i, f). i \<noteq> task_id) q\<rparr>)
      in defer_in_context key (Cancel task_id) w)"

definition set_poll_context ::
  "uuid \<Rightarrow> nat \<Rightarrow> ('e, 't, 'v, 'f, 'z) rt_world_scheme \<Rightarrow> ('e, 't, 'v, 'f, 'z) rt_world_scheme"
where
  "set_poll_context key task_id w = w\<lparr>current_runtime_key := Some key, current_task_id := Some task_id\<rparr>"

definition clear_poll_context ::
  "('e, 't, 'v, 'f, 'z) rt_world_scheme \<Rightarrow> ('e, 't, 'v, 'f, 'z) rt_world_scheme"
where
  "clear_poll_context w = w\<lparr>current_runtime_key := None, current_task_id := None\<rparr>"

definition register_timer_at ::
  "simtime \<Rightarrow> ('e, 't, 'v, 'f, 'z) rt_world_scheme \<Rightarrow> ('e, 't, 'v, 'f, 'z) rt_world_scheme"
where
  "register_timer_at deadline w =
     (case (current_runtime_key w, current_task_id w) of
        (Some key, Some task_id) \<Rightarrow> defer_wake key (RuntimeEv (RegisterTimer task_id deadline)) w
      | _ \<Rightarrow> w)"

definition cancel_timer_at ::
  "simtime \<Rightarrow> ('e, 't, 'v, 'f, 'z) rt_world_scheme \<Rightarrow> ('e, 't, 'v, 'f, 'z) rt_world_scheme"
where
  "cancel_timer_at deadline w =
     (case (current_runtime_key w, current_task_id w) of
        (Some key, Some task_id) \<Rightarrow> defer_wake key (RuntimeEv (CancelTimer task_id deadline)) w
      | _ \<Rightarrow> w)"

section \<open>Polling\<close>

definition rt_spawn ::
  "'f \<Rightarrow> ('f, 'p) des_runtime \<Rightarrow> ('e, 't, 'v, 'f, 'z) rt_world_scheme
    \<Rightarrow> nat \<times> ('f, 'p) des_runtime \<times> ('e, 't, 'v, 'f, 'z) rt_world_scheme"
where
  "rt_spawn f r w =
     (let i = rt_next_task_id w
      in (i, r\<lparr>rt_tasks := (rt_tasks r)(i \<mapsto> \<lparr>rt_future = f, queued = True\<rparr>),
               ready_queue := ready_queue r @ [i]\<rparr>, w\<lparr>rt_next_task_id := i + 1\<rparr>))"

definition task_count :: "('f, 'p) des_runtime \<Rightarrow> nat" where
  "task_count r = card (dom (rt_tasks r))"

definition timer_count :: "('f, 'p) des_runtime \<Rightarrow> nat" where
  "timer_count r = length (timers r)"

definition total_timer_registrations :: "('f, 'p) des_runtime \<Rightarrow> nat" where
  "total_timer_registrations r = sum_list (map (length \<circ> snd) (timers r))"

definition poll_task ::
  "('f, ('e, 't, 'v, 'f, 'z) rt_world_scheme) future_code \<Rightarrow> nat
    \<Rightarrow> ('f, 'p) des_runtime \<Rightarrow> ('e, 't, 'v, 'f, 'z) rt_world_scheme
    \<Rightarrow> unit poll option \<times> ('f, 'p) des_runtime \<times> ('e, 't, 'v, 'f, 'z) rt_world_scheme"
where
  "poll_task fc task_id r w =
     (case runtime_key r of
        None \<Rightarrow> (None, r, w)
      | Some key \<Rightarrow>
          (case rt_tasks r task_id of
             None \<Rightarrow> (None, r, w)
           | Some task \<Rightarrow>
               (let w = set_poll_context key task_id w;
                    (result, f, w) = poll_future fc (create_des_waker key (Wake task_id)) (rt_future task) w;
                    w = clear_poll_context w
                in (Some result, r\<lparr>rt_tasks := (rt_tasks r)(task_id \<mapsto> task\<lparr>rt_future := f\<rparr>)\<rparr>, w))))"

text \<open>The two loops that drain the spawn queues.\<close>

fun install_requests :: "(nat \<times> 'f) list \<Rightarrow> ('f, 'p) des_runtime \<Rightarrow> ('f, 'p) des_runtime" where
  "install_requests [] r = r"
| "install_requests ((i, f) # q) r =
     install_requests q
       (r\<lparr>rt_tasks := (rt_tasks r)(i \<mapsto> \<lparr>rt_future = f, queued = True\<rparr>), ready_queue := ready_queue r @ [i]\<rparr>)"

text \<open>Removing a completed task drops its future, after the poll context has been cleared.\<close>

definition remove_task ::
  "('f, ('e, 't, 'v, 'f, 'z) rt_world_scheme) future_code \<Rightarrow> nat
    \<Rightarrow> ('f, 'p) des_runtime \<Rightarrow> ('e, 't, 'v, 'f, 'z) rt_world_scheme
    \<Rightarrow> ('f, 'p) des_runtime \<times> ('e, 't, 'v, 'f, 'z) rt_world_scheme"
where
  "remove_task fc task_id r w =
     (r\<lparr>rt_tasks := (rt_tasks r)(task_id := None)\<rparr>,
      case rt_tasks r task_id of Some task \<Rightarrow> drop_future fc (rt_future task) w | None \<Rightarrow> w)"

text \<open>The loop over the snapshot of ready tasks.\<close>

function poll_loop ::
  "('f, ('e, 't, 'v, 'f, 'z) rt_world_scheme) future_code \<Rightarrow> nat list
    \<Rightarrow> ('f, 'p) des_runtime \<Rightarrow> ('e, 't, 'v, 'f, 'z) rt_world_scheme
    \<Rightarrow> ('f, 'p) des_runtime \<times> ('e, 't, 'v, 'f, 'z) rt_world_scheme"
where
  "poll_loop fc poll_set r w =
     (if poll_set = [] then (r, w)
      else
        (let (chosen, p) = ready_task_policy r (ready_policy_state r) (time w) poll_set;
             r = r\<lparr>ready_policy_state := p\<rparr>;
             chosen = min chosen (length poll_set - 1)
         in case swap_remove poll_set chosen of
              None \<Rightarrow> (r, w)
            | Some (task_id, poll_set) \<Rightarrow>
                (case rt_tasks r task_id of
                   None \<Rightarrow> poll_loop fc poll_set r w
                 | Some task \<Rightarrow>
                     (let r = r\<lparr>rt_tasks := (rt_tasks r)(task_id \<mapsto> task\<lparr>queued := False\<rparr>)\<rparr>;
                          (result, r, w) = poll_task fc task_id r w;
                          (r, w) = (if result = Some (Ready ()) then remove_task fc task_id r w else (r, w))
                      in poll_loop fc poll_set r w))))"
  by pat_completeness auto
termination
  by (relation "measure (\<lambda>(fc, poll_set, r, w). length poll_set)")
    (auto simp: swap_remove_def split: if_splits)

declare poll_loop.simps [simp del]

definition poll_ready_tasks ::
  "('f, ('e, 't, 'v, 'f, 'z) rt_world_scheme) future_code
    \<Rightarrow> ('f, 'p) des_runtime \<Rightarrow> ('e, 't, 'v, 'f, 'z) rt_world_scheme
    \<Rightarrow> ('f, 'p) des_runtime \<times> ('e, 't, 'v, 'f, 'z) rt_world_scheme"
where
  "poll_ready_tasks fc r w =
     (let r = install_requests (spawn_queue w) r; w = w\<lparr>spawn_queue := []\<rparr>;
          r = install_requests (spawn_queue_local w) r; w = w\<lparr>spawn_queue_local := []\<rparr>;
          poll_set = ready_queue r
      in poll_loop fc poll_set (r\<lparr>ready_queue := []\<rparr>) w)"

definition wake_task :: "nat \<Rightarrow> ('f, 'p) des_runtime \<Rightarrow> ('f, 'p) des_runtime" where
  "wake_task task_id r =
     (case rt_tasks r task_id of
        None \<Rightarrow> r
      | Some task \<Rightarrow>
          if queued task then r
          else r\<lparr>rt_tasks := (rt_tasks r)(task_id \<mapsto> task\<lparr>queued := True\<rparr>),
                 ready_queue := ready_queue r @ [task_id]\<rparr>)"

section \<open>Timers\<close>

fun timers_push :: "simtime \<Rightarrow> nat \<Rightarrow> (simtime \<times> nat list) list \<Rightarrow> (simtime \<times> nat list) list" where
  "timers_push d i [] = [(d, [i])]"
| "timers_push d i ((d', is) # ts) =
     (if d < d' then (d, [i]) # (d', is) # ts
      else if d = d' then (d', is @ [i]) # ts
      else (d', is) # timers_push d i ts)"

definition first_deadline :: "('f, 'p) des_runtime \<Rightarrow> simtime option" where
  "first_deadline r = (case timers r of [] \<Rightarrow> None | (d, _) # _ \<Rightarrow> Some d)"

definition schedule_next_timer_tick ::
  "uuid \<Rightarrow> ('f, 'p) des_runtime \<Rightarrow> ('e, 't, 'v, 'f, 'z) rt_world_scheme
    \<Rightarrow> ('f, 'p) des_runtime \<times> ('e, 't, 'v, 'f, 'z) rt_world_scheme"
where
  "schedule_next_timer_tick self_id r w =
     (let now = time w; next_deadline = first_deadline r
      in if next_deadline = next_timer_deadline r then (r, w)
         else
           (let r = r\<lparr>next_timer_deadline := next_deadline\<rparr>
            in case next_deadline of
                 None \<Rightarrow> (r, w)
               | Some deadline \<Rightarrow>
                   (let delay = (if deadline \<le> now then zero else from_duration (duration_since deadline now))
                    in (r, schedule delay self_id (RuntimeEv TimerTick) w))))"

definition register_timer ::
  "nat \<Rightarrow> simtime \<Rightarrow> uuid \<Rightarrow> ('f, 'p) des_runtime \<Rightarrow> ('e, 't, 'v, 'f, 'z) rt_world_scheme
    \<Rightarrow> ('f, 'p) des_runtime \<times> ('e, 't, 'v, 'f, 'z) rt_world_scheme"
where
  "register_timer task_id deadline self_id r w =
     (if rt_tasks r task_id = None then (r, w)
      else schedule_next_timer_tick self_id (r\<lparr>timers := timers_push deadline task_id (timers r)\<rparr>) w)"

text \<open>\<open>retain\<close> on the list of a deadline; an empty list is removed from the map.\<close>

definition timers_retain :: "simtime \<Rightarrow> nat \<Rightarrow> (simtime \<times> nat list) list \<Rightarrow> (simtime \<times> nat list) list" where
  "timers_retain d i ts =
     filter (\<lambda>(d', is). d' \<noteq> d \<or> is \<noteq> [])
       (map (\<lambda>(d', is). (d', if d' = d then filter (\<lambda>j. j \<noteq> i) is else is)) ts)"

definition cancel_timer ::
  "nat \<Rightarrow> simtime \<Rightarrow> uuid \<Rightarrow> ('f, 'p) des_runtime \<Rightarrow> ('e, 't, 'v, 'f, 'z) rt_world_scheme
    \<Rightarrow> ('f, 'p) des_runtime \<times> ('e, 't, 'v, 'f, 'z) rt_world_scheme"
where
  "cancel_timer task_id deadline self_id r w =
     (case map_of (timers r) deadline of
        None \<Rightarrow> (r, w)
      | Some tasks \<Rightarrow>
          (let tasks = filter (\<lambda>tid. tid \<noteq> task_id) tasks;
               r = r\<lparr>timers := timers_retain deadline task_id (timers r)\<rparr>
           in if tasks = [] then schedule_next_timer_tick self_id r w else (r, w)))"

text \<open>The loop of \<open>handle_timer_tick\<close>: the entries that are due are popped, their tasks woken.\<close>

fun fire_timers :: "simtime \<Rightarrow> (simtime \<times> nat list) list \<Rightarrow> ('f, 'p) des_runtime \<Rightarrow> ('f, 'p) des_runtime" where
  "fire_timers now [] r = r\<lparr>timers := []\<rparr>"
| "fire_timers now ((deadline, tasks) # ts) r =
     (if now < deadline then r\<lparr>timers := (deadline, tasks) # ts\<rparr>
      else fire_timers now ts (fold wake_task tasks r))"

definition handle_timer_tick ::
  "('f, ('e, 't, 'v, 'f, 'z) rt_world_scheme) future_code \<Rightarrow> uuid
    \<Rightarrow> ('f, 'p) des_runtime \<Rightarrow> ('e, 't, 'v, 'f, 'z) rt_world_scheme
    \<Rightarrow> ('f, 'p) des_runtime \<times> ('e, 't, 'v, 'f, 'z) rt_world_scheme"
where
  "handle_timer_tick fc self_id r w =
     (let now = time w;
          r = r\<lparr>next_timer_deadline := None\<rparr>;
          r = fire_timers now (timers r) r;
          (r, w) = schedule_next_timer_tick self_id r w
      in poll_ready_tasks fc r w)"

text \<open>Removing the task drops its future.\<close>

definition rt_cancel_task ::
  "('f, ('e, 't, 'v, 'f, 'z) rt_world_scheme) future_code \<Rightarrow> nat \<Rightarrow> uuid
    \<Rightarrow> ('f, 'p) des_runtime \<Rightarrow> ('e, 't, 'v, 'f, 'z) rt_world_scheme
    \<Rightarrow> ('f, 'p) des_runtime \<times> ('e, 't, 'v, 'f, 'z) rt_world_scheme"
where
  "rt_cancel_task fc task_id self_id r w =
     (let w = (case rt_tasks r task_id of Some task \<Rightarrow> drop_future fc (rt_future task) w | None \<Rightarrow> w);
          r = r\<lparr>rt_tasks := (rt_tasks r)(task_id := None),
                timers := filter (\<lambda>(d, is). is \<noteq> [])
                  (map (\<lambda>(d, is). (d, filter (\<lambda>t. t \<noteq> task_id) is)) (timers r))\<rparr>
      in schedule_next_timer_tick self_id r w)"

section \<open>Event processing\<close>

fun dispatch_event ::
  "('f, ('e, 't, 'v, 'f, 'z) rt_world_scheme) future_code \<Rightarrow> uuid \<Rightarrow> runtime_event
    \<Rightarrow> ('f, 'p) des_runtime \<Rightarrow> ('e, 't, 'v, 'f, 'z) rt_world_scheme
    \<Rightarrow> ('f, 'p) des_runtime \<times> ('e, 't, 'v, 'f, 'z) rt_world_scheme"
where
  "dispatch_event fc self_id Poll r w = poll_ready_tasks fc r w"
| "dispatch_event fc self_id (Wake task_id) r w = poll_ready_tasks fc (wake_task task_id r) w"
| "dispatch_event fc self_id (Cancel task_id) r w = rt_cancel_task fc task_id self_id r w"
| "dispatch_event fc self_id (RegisterTimer task_id deadline) r w =
     register_timer task_id deadline self_id r w"
| "dispatch_event fc self_id (CancelTimer task_id deadline) r w =
     cancel_timer task_id deadline self_id r w"
| "dispatch_event fc self_id TimerTick r w = handle_timer_tick fc self_id r w"

definition update_diag ::
  "('f, 'p) des_runtime \<Rightarrow> ('e, 't, 'v, 'f, 'z) rt_world_scheme \<Rightarrow> ('e, 't, 'v, 'f, 'z) rt_world_scheme"
where
  "update_diag r w =
     w\<lparr>rt_diag := \<lparr>diag_task_count = task_count r, diag_timer_count = timer_count r,
        diag_timer_registration = total_timer_registrations r,
        diag_ready_queue_len = length (ready_queue r),
        diag_events_processed = diag_events_processed (rt_diag w) + 1\<rparr>\<rparr>"

definition rt_process_event ::
  "('f, ('e, 't, 'v, 'f, 'z) rt_world_scheme) future_code \<Rightarrow> uuid \<Rightarrow> runtime_event
    \<Rightarrow> ('f, 'p) des_runtime \<Rightarrow> ('e, 't, 'v, 'f, 'z) rt_world_scheme
    \<Rightarrow> ('f, 'p) des_runtime \<times> ('e, 't, 'v, 'f, 'z) rt_world_scheme"
where
  "rt_process_event fc self_id event r w =
     (let r = (if runtime_key r = None then r\<lparr>runtime_key := Some self_id\<rparr> else r);
          (r, w) = dispatch_event fc self_id event r w;
          w = (if ready_queue r \<noteq> [] then schedule_now self_id (RuntimeEv Poll) w else w)
      in (r, update_diag r w))"

section \<open>Sleep\<close>

record sim_sleep =
  target_time :: "simtime option"
  sl_duration :: duration
  timer_scheduled :: bool

definition sim_sleep_new :: "duration \<Rightarrow> sim_sleep" where
  "sim_sleep_new d = \<lparr>target_time = None, sl_duration = d, timer_scheduled = False\<rparr>"

definition sim_sleep_until :: "simtime \<Rightarrow> sim_sleep" where
  "sim_sleep_until t = \<lparr>target_time = Some t, sl_duration = 0, timer_scheduled = False\<rparr>"

definition sleep_poll ::
  "sim_sleep \<Rightarrow> ('e, 't, 'v, 'f, 'z) rt_world_scheme
    \<Rightarrow> unit poll \<times> sim_sleep \<times> ('e, 't, 'v, 'f, 'z) rt_world_scheme"
where
  "sleep_poll sl w =
     (case current_time w of
        None \<Rightarrow> (Pending, sl, w)
      | Some now \<Rightarrow>
          (let sl = (if target_time sl = None
                     then sl\<lparr>target_time := Some (add_simtime now (from_duration (sl_duration sl)))\<rparr> else sl);
               target = the (target_time sl)
           in if target \<le> now then (Ready (), sl\<lparr>timer_scheduled := False\<rparr>, w)
              else if \<not> timer_scheduled sl
              then (Pending, sl\<lparr>timer_scheduled := True\<rparr>, register_timer_at target w)
              else (Pending, sl, w)))"

definition sleep_drop ::
  "sim_sleep \<Rightarrow> ('e, 't, 'v, 'f, 'z) rt_world_scheme \<Rightarrow> ('e, 't, 'v, 'f, 'z) rt_world_scheme"
where
  "sleep_drop sl w =
     (if timer_scheduled sl
      then (case target_time sl of Some target \<Rightarrow> cancel_timer_at target w | None \<Rightarrow> w)
      else w)"

section \<open>Installation\<close>

datatype ('f, 'p, 'o) rt_component = RuntimeC "('f, 'p) des_runtime" | OtherC 'o

text \<open>A component that gets an event of another type panics (\<open>None\<close>).\<close>

fun rt_handle ::
  "('f, ('e, 't, 'v, 'f, 'z) rt_world_scheme) future_code
    \<Rightarrow> ('o \<Rightarrow> uuid \<Rightarrow> 'e \<Rightarrow> ('e, 't, 'v, 'f, 'z) rt_world_scheme
        \<Rightarrow> ('o \<times> ('e, 't, 'v, 'f, 'z) rt_world_scheme) option)
    \<Rightarrow> ('f, 'p, 'o) rt_component \<Rightarrow> uuid \<Rightarrow> 'e sim_event \<Rightarrow> ('e, 't, 'v, 'f, 'z) rt_world_scheme
    \<Rightarrow> (('f, 'p, 'o) rt_component \<times> ('e, 't, 'v, 'f, 'z) rt_world_scheme) option"
where
  "rt_handle fc other (RuntimeC r) k (RuntimeEv ev) w =
     (let (r, w) = rt_process_event fc k ev r w in Some (RuntimeC r, w))"
| "rt_handle fc other (OtherC c) k (OtherEv ev) w =
     map_option (\<lambda>(c, w). (OtherC c, w)) (other c k ev w)"
| "rt_handle fc other _ k _ w = None"

text \<open>\<open>install\<close>: the handles share the queues of the world with the runtime.\<close>

definition install where
  "install r sim =
     (let (key, sim) = add_component (RuntimeC r) sim
      in (key, sim\<lparr>sched := schedule zero key (RuntimeEv Poll) (sched sim)\<rparr>))"

end
