(* ===== verification/Pending_Events.thy ===== *)
theory Pending_Events
  imports Simulation
begin

text \<open>
  How many events of a kind are pending, and how the operations of the scheduler change that
  number. Components act by sending a list of messages; the invariants of the service
  components are stated over these counts.
\<close>

type_synonym 'ev message = "simtime \<times> uuid \<times> 'ev"

definition send :: "'ev message list \<Rightarrow> ('ev, 't, 'v, 'z) scheduler_scheme \<Rightarrow> ('ev, 't, 'v, 'z) scheduler_scheme" where
  "send ms s = fold (\<lambda>(d, k, ev). schedule d k ev) ms s"

fun entry_sat :: "(uuid \<Rightarrow> 'ev \<Rightarrow> bool) \<Rightarrow> 'ev event_entry \<Rightarrow> bool" where
  "entry_sat P (Component ce) = P (component ce) (inner ce)"
| "entry_sat P (Task te) = False"

definition pending :: "(uuid \<Rightarrow> 'ev \<Rightarrow> bool) \<Rightarrow> ('ev, 't, 'v, 'z) scheduler_scheme \<Rightarrow> nat" where
  "pending P s = size (filter_mset (entry_sat P) (mset (events s)))"

definition msg_count :: "(uuid \<Rightarrow> 'ev \<Rightarrow> bool) \<Rightarrow> 'ev message list \<Rightarrow> nat" where
  "msg_count P ms = length (filter (\<lambda>(d, k, ev). P k ev) ms)"

lemma msg_count_simps [simp]:
  "msg_count P [] = 0"
  "msg_count P ((d, k, ev) # ms) = (if P k ev then Suc (msg_count P ms) else msg_count P ms)"
  "msg_count P (ms @ ns) = msg_count P ms + msg_count P ns"
  by (simp_all add: msg_count_def)

lemma send_simps [simp]: "send [] s = s" "send ((d, k, ev) # ms) s = send ms (schedule d k ev s)"
  "send (ms @ ns) s = send ns (send ms s)"
  by (simp_all add: send_def)

lemma pending_events: "events s' = events s \<Longrightarrow> pending P s' = pending P s"
  by (simp add: pending_def)

lemma pending_schedule [simp]:
  "pending P (schedule d k ev s) = pending P s + (if P k ev then 1 else 0)"
  by (simp add: pending_def sched_simps)

lemma pending_schedule_task_at [simp]: "pending P (schedule_task_at t i task s) = pending P s"
  by (simp add: pending_def sched_simps)

lemma pending_send: "pending P (send ms s) = pending P s + msg_count P ms"
  by (induction ms arbitrary: s) auto

lemma pending_pop:
  assumes "pop_effect s e s'"
  shows "pending P s = pending P s' + (if entry_sat P e then 1 else 0)"
proof -
  from assms obtain D where ms: "mset (events s) = add_mset e (mset (events s') + mset D)"
    and D: "\<forall>d\<in>set D. is_canc (cancelled_tasks s) d"
    unfolding pop_effect_def by blast
  have "\<not> entry_sat P d" if "d \<in> set D" for d
    using D that by (cases d) (auto simp: is_canc_def)
  then have "filter_mset (entry_sat P) (mset D) = {#}"
    by (auto simp: filter_empty_conv simp flip: mset_filter)
  then show ?thesis by (simp add: pending_def ms)
qed

lemma pending_none: "pending P s = 0 \<longleftrightarrow> (\<forall>e\<in>set (events s). \<not> entry_sat P e)"
  by (simp add: pending_def filter_empty_conv flip: mset_filter)

lemma pending_pos: "e \<in> set (events s) \<Longrightarrow> entry_sat P e \<Longrightarrow> 0 < pending P s"
  using pending_none [of P s] by fastforce

lemma pending_context [simp]:
  "pending P (set_scheduler_context w) = pending P w"
  "pending P (clear_scheduler_context w) = pending P w"
  by (simp_all add: pending_def set_scheduler_context_def clear_scheduler_context_def)

lemma send_world [simp]:
  "deferred_wakes (send ms w) = deferred_wakes w"
  "current_clock (send ms w) = current_clock w"
  by (simp_all add: send_def)

lemma drain_nothing: "deferred_wakes w = [] \<Longrightarrow> drain_deferred_wakes w = w"
  by (simp add: drain_deferred_wakes_def)

lemma api_run_send: "api_run w (send ms w)"
  unfolding send_def by (rule api_run_fold_schedule) simp

lemma time_send [simp]: "time (send ms s) = time s"
  by (induction ms arbitrary: s) (auto simp: sched_simps)

end
