(* ===== verification/Runtime_Calls.thy ===== *)
theory Runtime_Calls
  imports Async_Runtime Pending_Events
begin

text \<open>
  What the code that runs inside a simulation with an async runtime can do to the world, and
  the facts that survive it. Futures, other components and tasks act by the calls of
  \<open>rt_call\<close>: the operations of the scheduler, deferred wakes, and the handles of the runtime.
\<close>

section \<open>Calls\<close>

inductive rt_call ::
  "uuid \<Rightarrow> ('e, 't, 'v, 'f, 'z) rt_world_scheme \<Rightarrow> ('e, 't, 'v, 'f, 'z) rt_world_scheme \<Rightarrow> bool" for k
where
  rc_schedule: "rt_call k w (schedule d key ev w)"
| rc_schedule_task: "rt_call k w (snd (schedule_task d task w))"
| rc_cancel_task: "rt_call k w (snd (cancel_task i w))"
| rc_get_result: "rt_call k w (snd (get_task_result Some i w))"
| rc_defer: "rt_call k w (defer_wake_after d key ev w)"
| rc_spawn: "rt_call k w (snd (handle_spawn k f w))"
| rc_spawn_local: "rt_call k w (snd (handle_spawn_local k f w))"
| rc_unqueue: "rt_call k w (w\<lparr>spawn_queue := filter (\<lambda>(i, f). i \<noteq> t) (spawn_queue w)\<rparr>)"
| rc_unqueue_local: "rt_call k w (w\<lparr>spawn_queue_local := filter (\<lambda>(i, f). i \<noteq> t) (spawn_queue_local w)\<rparr>)"
| rc_user: "rt_call k w (w\<lparr>rt_world.more := z\<rparr>)"

abbreviation rt_calls ::
  "uuid \<Rightarrow> ('e, 't, 'v, 'f, 'z) rt_world_scheme \<Rightarrow> ('e, 't, 'v, 'f, 'z) rt_world_scheme \<Rightarrow> bool"
where
  "rt_calls k \<equiv> (rt_call k)\<^sup>*\<^sup>*"

lemma rt_calls_defer: "rt_calls k w (defer_wake key ev w)"
  unfolding defer_wake_def by (rule r_into_rtranclp) (rule rc_defer)

lemma rt_calls_des_wake: "rt_calls k w (des_wake wk w)"
  unfolding des_wake_def by (rule rt_calls_defer)

lemma rt_calls_defer_in_context: "rt_calls k w (defer_in_context key ev w)"
  by (auto simp: defer_in_context_def intro: rt_calls_defer)

lemma rt_calls_timer_at:
  "rt_calls k w (register_timer_at d w)" "rt_calls k w (cancel_timer_at d w)"
  by (auto simp: register_timer_at_def cancel_timer_at_def intro: rt_calls_defer split: option.splits)

lemma rt_calls_sleep: "rt_calls k w (snd (snd (sleep_poll sl w)))" "rt_calls k w (sleep_drop sl w)"
  using rt_calls_timer_at
  by (auto simp: sleep_poll_def sleep_drop_def Let_def split: option.splits)

lemma rt_calls_handles:
  assumes "\<And>f w. rt_calls k w (drop_future fc f w)"
  shows "rt_calls k w (handle_cancel fc key i w)" "rt_calls k w (handle_cancel_local fc key i w)"
proof -
  have "rt_calls k v (fold (\<lambda>(i, f). drop_future fc f) q v)" for q v
    by (induction q arbitrary: v) (auto intro: rtranclp_trans assms)
  then have d: "rt_calls k v (drop_requests fc i q v)" for q v
    by (simp add: drop_requests_def)
  show "rt_calls k w (handle_cancel fc key i w)" "rt_calls k w (handle_cancel_local fc key i w)"
    unfolding handle_cancel_def handle_cancel_local_def Let_def
    by (blast intro: rtranclp_trans [OF rtranclp_trans [OF r_into_rtranclp d] rt_calls_defer_in_context]
        rc_unqueue rc_unqueue_local)+
qed

section \<open>What calls keep\<close>

text \<open>An event for component \<open>k\<close> is scheduled, at time \<open>t\<close> at the latest.\<close>

definition due :: "uuid \<Rightarrow> runtime_event \<Rightarrow> simtime \<Rightarrow> ('e sim_event, 't, 'v, 'z) scheduler_scheme \<Rightarrow> bool" where
  "due k ev t w \<longleftrightarrow>
     (\<exists>ce. Component ce \<in> set (events w) \<and> component ce = k \<and> inner ce = RuntimeEv ev \<and> ce_time ce \<le> t)"

text \<open>A poll of the runtime is scheduled for now, or deferred to the end of the step.\<close>

definition poll_coming :: "uuid \<Rightarrow> ('e, 't, 'v, 'f, 'z) rt_world_scheme \<Rightarrow> bool" where
  "poll_coming k w \<longleftrightarrow> due k Poll (time w) w \<or> (zero, k, RuntimeEv Poll) \<in> set (deferred_wakes w)"

definition spawn_ids :: "('e, 't, 'v, 'f, 'z) rt_world_scheme \<Rightarrow> nat list" where
  "spawn_ids w = map fst (spawn_queue w) @ map fst (spawn_queue_local w)"

definition spawn_ok :: "('e, 't, 'v, 'f, 'z) rt_world_scheme \<Rightarrow> bool" where
  "spawn_ok w \<longleftrightarrow> distinct (spawn_ids w) \<and> (\<forall>i\<in>set (spawn_ids w). i < rt_next_task_id w)"

text \<open>
  The relation between the worlds before and after calls: nothing scheduled or deferred is
  lost, the clock and the contexts stay, and queued spawns keep a poll coming.
\<close>

definition call_frame :: "uuid \<Rightarrow> ('e, 't, 'v, 'f, 'z) rt_world_scheme \<Rightarrow> ('e, 't, 'v, 'f, 'z) rt_world_scheme \<Rightarrow> bool" where
  "call_frame k w w' \<longleftrightarrow>
     clock w' = clock w \<and> current_clock w' = current_clock w \<and>
     set (events w) \<subseteq> set (events w') \<and> set (deferred_wakes w) \<subseteq> set (deferred_wakes w') \<and>
     rt_next_task_id w \<le> rt_next_task_id w' \<and>
     (\<forall>i\<in>set (spawn_ids w'). i \<in> set (spawn_ids w) \<or> rt_next_task_id w \<le> i) \<and>
     (spawn_ok w \<longrightarrow> spawn_ok w') \<and>
     (current_clock w \<longrightarrow> spawn_ids w' \<noteq> [] \<longrightarrow> spawn_ids w \<noteq> [] \<or> poll_coming k w')"

lemma call_frame_refl [simp]: "call_frame k w w"
  by (simp add: call_frame_def)

lemma due_mono: "due k ev t w \<Longrightarrow> set (events w) \<subseteq> set (events w') \<Longrightarrow> t \<le> t' \<Longrightarrow> due k ev t' w'"
  unfolding due_def by (blast intro: order_trans)

lemma call_frame_coming: "call_frame k w w' \<Longrightarrow> poll_coming k w \<Longrightarrow> poll_coming k w'"
  unfolding poll_coming_def call_frame_def by (auto simp: time_eq intro: due_mono)

lemma call_frame_trans [trans]:
  assumes "call_frame k w w'" "call_frame k w' w''"
  shows "call_frame k w w''"
proof -
  note coming = call_frame_coming [OF assms(2)]
  note a = assms(1) [unfolded call_frame_def] and b = assms(2) [unfolded call_frame_def]
  have "\<forall>i\<in>set (spawn_ids w''). i \<in> set (spawn_ids w) \<or> rt_next_task_id w \<le> i"
    using a b by (meson order_trans)
  moreover have "current_clock w \<longrightarrow> spawn_ids w'' \<noteq> [] \<longrightarrow> spawn_ids w \<noteq> [] \<or> poll_coming k w''"
    using a b coming by metis
  moreover have "set (events w) \<subseteq> set (events w'')" "set (deferred_wakes w) \<subseteq> set (deferred_wakes w'')"
    "rt_next_task_id w \<le> rt_next_task_id w''" "spawn_ok w \<longrightarrow> spawn_ok w''"
    using a b by (blast intro: order_trans)+
  moreover have "clock w'' = clock w" "current_clock w'' = current_clock w"
    using a b by simp_all
  ultimately show ?thesis unfolding call_frame_def by (intro conjI)
qed

lemma spawn_frames:
  "call_frame k w (snd (handle_spawn k f w))" "call_frame k w (snd (handle_spawn_local k f w))"
  by (auto simp: call_frame_def handle_spawn_def handle_spawn_local_def defer_in_context_def Let_def
      spawn_ids_def spawn_ok_def defer_wake_def defer_wake_after_def poll_coming_def in_scheduler_context_def
      intro: less_SucI)

lemma same_queues_frame:
  assumes "clock w' = clock w" "current_clock w' = current_clock w" "set (events w) \<subseteq> set (events w')"
    "set (deferred_wakes w) \<subseteq> set (deferred_wakes w')" "rt_next_task_id w' = rt_next_task_id w"
    "spawn_queue w' = spawn_queue w" "spawn_queue_local w' = spawn_queue_local w"
  shows "call_frame k w w'"
  using assms by (auto simp: call_frame_def spawn_ids_def spawn_ok_def)

lemma distinct_map_filter2:
  "distinct (map fst xs @ ys) \<Longrightarrow> distinct (map fst (filter P xs) @ ys)"
  "distinct (ys @ map fst xs) \<Longrightarrow> distinct (ys @ map fst (filter P xs))"
  by (auto simp: distinct_map_filter)

lemma unqueue_frame:
  "call_frame k w (w\<lparr>spawn_queue := filter P (spawn_queue w)\<rparr>)"
  "call_frame k w (w\<lparr>spawn_queue_local := filter P (spawn_queue_local w)\<rparr>)"
  by (auto simp: call_frame_def spawn_ids_def spawn_ok_def distinct_map_filter)

lemma schedule_rt_world [simp]:
  "rt_next_task_id (schedule d key ev w) = rt_next_task_id w"
  "spawn_queue (schedule d key ev w) = spawn_queue w"
  "spawn_queue_local (schedule d key ev w) = spawn_queue_local w"
  by (simp_all add: schedule_def Let_def)

lemma schedule_frame: "call_frame k w (schedule d key ev w)"
  by (rule same_queues_frame) (auto simp: sched_simps)

lemma rt_call_frame: "rt_call k w w' \<Longrightarrow> call_frame k w w'"
proof (induction rule: rt_call.induct)
  case (rc_schedule w d key ev)
  then show ?case by (rule schedule_frame)
next
  case (rc_schedule_task w d task)
  show ?case
    by (rule same_queues_frame)
      (auto simp: schedule_task_def schedule_task_at_def Let_def)
next
  case (rc_cancel_task w i)
  show ?case
    by (rule same_queues_frame) (auto simp: cancel_task_def Let_def)
next
  case (rc_get_result w i)
  show ?case by (rule same_queues_frame) (auto simp: get_task_result_def)
next
  case (rc_defer w d key ev)
  show ?case by (rule same_queues_frame) (auto simp: defer_wake_after_def)
next
  case (rc_user w z)
  show ?case by (rule same_queues_frame) auto
qed (auto intro: spawn_frames unqueue_frame)

lemma rt_calls_frame: "rt_calls k w w' \<Longrightarrow> call_frame k w w'"
  by (induction rule: rtranclp_induct) (auto intro: call_frame_trans rt_call_frame)

lemma ambient_api: "scheduler.truncate w' = scheduler.truncate w \<Longrightarrow> api_run w w'"
proof -
  assume "scheduler.truncate w' = scheduler.truncate w"
  then have "w' = w\<lparr>scheduler.more := scheduler.more w'\<rparr>"
    by (cases w; cases w') (simp add: scheduler.truncate_def)
  then show "api_run w w'" by (metis api_ambient r_into_rtranclp)
qed

lemma rt_call_api: "rt_call k w w' \<Longrightarrow> api_run w w'"
proof (induction rule: rt_call.induct)
  case (rc_defer w d key ev)
  then show ?case by (rule api_run_defer_wake)
qed (auto simp: handle_spawn_def handle_spawn_local_def defer_in_context_def defer_wake_def
      defer_wake_after_def Let_def
    intro: ambient_api api_schedule api_schedule_task api_cancel_task api_get_result
    simp: scheduler.truncate_def)

lemma rt_calls_api: "rt_calls k w w' \<Longrightarrow> api_run w w'"
  by (induction rule: rtranclp_induct) (auto intro: rtranclp_trans rt_call_api)

end
