(* ===== verification/Runtime_Polling.thy ===== *)
theory Runtime_Polling
  imports Runtime_Calls
begin

text \<open>
  The poll cycle of the async runtime: the loop over the snapshot of ready tasks is a fold of
  single polls over a permutation of the snapshot, which the ready-task policy determines.
\<close>

section \<open>Futures\<close>

text \<open>
  The contract of futures that run in the runtime with key \<open>k\<close>: polling and dropping them
  acts on the world by calls.
\<close>

locale async_futures =
  fixes k :: uuid and fc :: "('f, ('e, 't, 'v, 'f, 'z) rt_world_scheme) future_code"
  assumes poll_calls: "rt_calls k w (snd (snd (poll_future fc wk f w)))"
    and drop_calls: "rt_calls k w (drop_future fc f w)"

section \<open>The order of polls\<close>

definition poll_one ::
  "('f, ('e, 't, 'v, 'f, 'z) rt_world_scheme) future_code \<Rightarrow> nat
    \<Rightarrow> ('f, 'p) des_runtime \<times> ('e, 't, 'v, 'f, 'z) rt_world_scheme
    \<Rightarrow> ('f, 'p) des_runtime \<times> ('e, 't, 'v, 'f, 'z) rt_world_scheme"
where
  "poll_one fc task_id = (\<lambda>(r, w).
     case rt_tasks r task_id of
       None \<Rightarrow> (r, w)
     | Some task \<Rightarrow>
         (let r = r\<lparr>rt_tasks := (rt_tasks r)(task_id \<mapsto> task\<lparr>queued := False\<rparr>)\<rparr>;
              (result, r, w) = poll_task fc task_id r w;
              (r, w) = (if result = Some (Ready ()) then remove_task fc task_id r w else (r, w))
          in (r, w)))"

function poll_order :: "'p ready_policy \<Rightarrow> 'p \<Rightarrow> simtime \<Rightarrow> nat list \<Rightarrow> nat list \<times> 'p" where
  "poll_order pol p now poll_set =
     (if poll_set = [] then ([], p)
      else (let (chosen, p) = pol p now poll_set
            in case swap_remove poll_set (min chosen (length poll_set - 1)) of
                 None \<Rightarrow> ([], p)
               | Some (task_id, rest) \<Rightarrow>
                   (let (ts, p) = poll_order pol p now rest in (task_id # ts, p))))"
  by pat_completeness auto
termination
  by (relation "measure (\<lambda>(pol, p, now, poll_set). length poll_set)")
    (auto simp: swap_remove_def split: if_splits)

declare poll_order.simps [simp del]

lemma poll_order_perm: "mset (fst (poll_order pol p now poll_set)) = mset poll_set"
proof (induction pol p now poll_set rule: poll_order.induct)
  case (1 pol p now poll_set)
  show ?case
  proof (cases "poll_set = []")
    case False
    obtain c p' where c: "pol p now poll_set = (c, p')" by fastforce
    from False have "min c (length poll_set - 1) < length poll_set" by (cases poll_set) auto
    then obtain t rest where s: "swap_remove poll_set (min c (length poll_set - 1)) = Some (t, rest)"
      by (auto simp: swap_remove_def)
    obtain ts q where o: "poll_order pol p' now rest = (ts, q)" by fastforce
    from "1.IH" [OF False refl c [symmetric] s refl] o have "mset ts = mset rest" by simp
    then show ?thesis
      using False c s o swap_remove_mset [OF s] by (subst poll_order.simps) simp
  qed (simp add: poll_order.simps)
qed

lemma poll_one_policy:
  "poll_one fc t (r\<lparr>ready_policy_state := p\<rparr>, w) =
     ((fst (poll_one fc t (r, w)))\<lparr>ready_policy_state := p\<rparr>, snd (poll_one fc t (r, w)))"
  "ready_task_policy (fst (poll_one fc t (r, w))) = ready_task_policy r"
  "ready_policy_state (fst (poll_one fc t (r, w))) = ready_policy_state r"
  by (auto simp: poll_one_def poll_task_def remove_task_def Let_def split: option.splits prod.splits)

context async_futures
begin

lemma poll_one_frame: "call_frame k w (snd (poll_one fc t (r, w)))"
proof (cases "rt_tasks r t")
  case (Some task)
  show ?thesis
  proof (cases "runtime_key r")
    case (Some key)
    obtain res f w' where p:
      "poll_future fc (create_des_waker key (Wake t)) (rt_future task) (set_poll_context key t w) = (res, f, w')"
      using prod_cases3 by blast
    then have "call_frame k (set_poll_context key t w) w'"
      using rt_calls_frame [OF poll_calls, of "set_poll_context key t w" "create_des_waker key (Wake t)"
          "rt_future task"] by simp
    moreover have "call_frame k w (set_poll_context key t w)"
      by (rule same_queues_frame) (auto simp: set_poll_context_def)
    moreover have "call_frame k w' (clear_poll_context w')"
      by (rule same_queues_frame) (auto simp: clear_poll_context_def)
    ultimately have "call_frame k w (clear_poll_context w')"
      by (blast intro: call_frame_trans)
    moreover have "call_frame k (clear_poll_context w') (drop_future fc f (clear_poll_context w'))"
      using rt_calls_frame [OF drop_calls] by simp
    ultimately have "call_frame k w (clear_poll_context w')"
      "call_frame k w (drop_future fc f (clear_poll_context w'))"
      by (blast intro: call_frame_trans)+
    then show ?thesis
      using Some p \<open>rt_tasks r t = Some task\<close> by (simp add: poll_one_def poll_task_def remove_task_def)
  qed (simp add: poll_one_def poll_task_def Some)
qed (simp add: poll_one_def)

lemma poll_loop_order:
  "poll_loop fc poll_set r w =
     (case poll_order (ready_task_policy r) (ready_policy_state r) (time w) poll_set of
        (order, p) \<Rightarrow> fold (poll_one fc) order (r\<lparr>ready_policy_state := p\<rparr>, w))"
proof (induction "length poll_set" arbitrary: poll_set r w)
  case 0
  then show ?case by (simp add: poll_loop.simps poll_order.simps)
next
  case (Suc n)
  then have ne: "poll_set \<noteq> []" by auto
  obtain c p where c: "ready_task_policy r (ready_policy_state r) (time w) poll_set = (c, p)" by fastforce
  from ne have "min c (length poll_set - 1) < length poll_set" by (cases poll_set) auto
  then obtain t rest where s: "swap_remove poll_set (min c (length poll_set - 1)) = Some (t, rest)"
    by (auto simp: swap_remove_def)
  then have len: "n = length rest" using Suc.hyps(2) swap_remove_length [OF s] by simp
  obtain r1 w1 where one: "poll_one fc t (r\<lparr>ready_policy_state := p\<rparr>, w) = (r1, w1)" by fastforce
  have t1: "time w1 = time w"
    using poll_one_frame [of w t "r\<lparr>ready_policy_state := p\<rparr>"] one by (simp add: call_frame_def time_eq)
  have r1: "ready_task_policy r1 = ready_task_policy r" "ready_policy_state r1 = p"
    using poll_one_policy(2,3) [where r = "r\<lparr>ready_policy_state := p\<rparr>" and fc = fc and t = t and w = w] one by simp_all
  have "poll_loop fc poll_set r w = poll_loop fc rest r1 w1"
    using ne c s one
    by (subst poll_loop.simps) (auto simp: poll_one_def Let_def split: option.splits prod.splits)
  moreover obtain ts q where o: "poll_order (ready_task_policy r) p (time w) rest = (ts, q)" by fastforce
  moreover have "poll_one fc t (r\<lparr>ready_policy_state := q\<rparr>, w) = (r1\<lparr>ready_policy_state := q\<rparr>, w1)"
    using poll_one_policy(1) [where r = "r\<lparr>ready_policy_state := p\<rparr>" and p = q and fc = fc and t = t and w = w] one by simp
  ultimately show ?case
    using Suc.hyps(1) [OF len, of r1 w1] ne c s t1 r1 by (subst poll_order.simps) simp
qed

end

section \<open>FIFO\<close>

lemma swap_remove_first: "swap_remove (x # xs) 0 = Some (x, if xs = [] then [] else last xs # butlast xs)"
  by (auto simp: swap_remove_def)

text \<open>
  The FIFO policy always chooses index 0, but \<open>swap_remove\<close> then moves the last task of the
  snapshot to the front.
\<close>

lemma poll_order_fifo: "poll_order fifo_ready_choose p now (x # xs) = (x # rev xs, p)"
proof (induction "length xs" arbitrary: x xs)
  case 0
  then show ?case
    by (subst poll_order.simps) (simp add: fifo_ready_choose_def swap_remove_first poll_order.simps)
next
  case (Suc n)
  then have ne: "xs \<noteq> []" by auto
  with Suc(1) [of "butlast xs" "last xs"] Suc(2)
  have "poll_order fifo_ready_choose p now (last xs # butlast xs) = (last xs # rev (butlast xs), p)"
    by simp
  moreover have "last xs # rev (butlast xs) = rev xs"
    using ne by (metis append_butlast_last_id rev.simps(2) rev_append rev_singleton_conv append_Cons append_Nil)
  ultimately show ?case
    using ne by (subst poll_order.simps) (simp add: fifo_ready_choose_def swap_remove_first)
qed

section \<open>Tasks and the ready queue\<close>

text \<open>
  A task is marked as queued exactly when it is in \<open>Q\<close>, which holds no task twice; the
  identifiers of tasks and spawn requests are distinct and have been issued.
\<close>

definition known :: "nat \<Rightarrow> ('e, 't, 'v, 'f, 'z) rt_world_scheme \<Rightarrow> bool" where
  "known i w \<longleftrightarrow> i < rt_next_task_id w \<and> i \<notin> set (spawn_ids w)"

definition tasks_ok :: "nat list \<Rightarrow> ('f, 'p) des_runtime \<Rightarrow> ('e, 't, 'v, 'f, 'z) rt_world_scheme \<Rightarrow> bool" where
  "tasks_ok Q r w \<longleftrightarrow>
     distinct Q \<and> (\<forall>i\<in>set Q. known i w) \<and> spawn_ok w \<and>
     (\<forall>i task. rt_tasks r i = Some task \<longrightarrow> known i w \<and> (queued task \<longleftrightarrow> i \<in> set Q))"

lemma known_calls: "known i w \<Longrightarrow> call_frame k w w' \<Longrightarrow> known i w'"
  unfolding known_def call_frame_def by (meson leD less_le_trans)

lemma tasks_ok_calls:
  assumes "tasks_ok Q r w" "call_frame k w w'"
  shows "tasks_ok Q r w'"
proof -
  have "spawn_ok w'" using assms by (simp add: tasks_ok_def call_frame_def)
  with assms show ?thesis unfolding tasks_ok_def by (blast intro: known_calls)
qed

lemma poll_one_tasks:
  "ready_queue (fst (poll_one fc t (r, w))) = ready_queue r" "timers (fst (poll_one fc t (r, w))) = timers r"
  "next_timer_deadline (fst (poll_one fc t (r, w))) = next_timer_deadline r"
  "runtime_key (fst (poll_one fc t (r, w))) = runtime_key r"
  "i \<noteq> t \<Longrightarrow> rt_tasks (fst (poll_one fc t (r, w))) i = rt_tasks r i"
  "rt_tasks (fst (poll_one fc t (r, w))) t = Some task \<Longrightarrow> \<not> queued task \<and> rt_tasks r t \<noteq> None"
  by (auto simp: poll_one_def poll_task_def remove_task_def Let_def split: option.splits prod.splits if_splits)

lemma install_requests_fields:
  "ready_queue (install_requests q r) = ready_queue r @ map fst q"
  "timers (install_requests q r) = timers r" "next_timer_deadline (install_requests q r) = next_timer_deadline r"
  "runtime_key (install_requests q r) = runtime_key r"
  "ready_task_policy (install_requests q r) = ready_task_policy r"
  "ready_policy_state (install_requests q r) = ready_policy_state r"
  by (induction q r rule: install_requests.induct) auto

lemma install_requests_tasks:
  "rt_tasks (install_requests q r) i = Some task \<Longrightarrow>
     rt_tasks r i = Some task \<and> i \<notin> set (map fst q) \<or> queued task \<and> i \<in> set (map fst q)"
  by (induction q r rule: install_requests.induct) (auto split: if_splits)

lemma spawn_queue_known:
  assumes "spawn_ok w"
  shows "spawn_ok (w\<lparr>spawn_queue := []\<rparr>)" "spawn_ok (w\<lparr>spawn_queue_local := []\<rparr>)"
    "i \<in> set (map fst (spawn_queue w)) \<Longrightarrow> known i (w\<lparr>spawn_queue := []\<rparr>)"
    "i \<in> set (map fst (spawn_queue_local w)) \<Longrightarrow> known i (w\<lparr>spawn_queue_local := []\<rparr>)"
    "known i w \<Longrightarrow> known i (w\<lparr>spawn_queue := []\<rparr>) \<and> known i (w\<lparr>spawn_queue_local := []\<rparr>)"
    "known i w \<Longrightarrow> i \<notin> set (map fst (spawn_queue w)) \<and> i \<notin> set (map fst (spawn_queue_local w))"
  using assms by (auto simp: spawn_ok_def spawn_ids_def known_def)

lemma install_requests_tasks_ok:
  assumes ok: "tasks_ok (ready_queue r) r w" and d: "distinct (map fst q)"
    and q: "\<And>i. i \<in> set (map fst q) \<Longrightarrow> known i w' \<and> \<not> known i w"
    and w': "spawn_ok w'" "\<And>i. known i w \<Longrightarrow> known i w'"
  shows "tasks_ok (ready_queue (install_requests q r)) (install_requests q r) w'"
proof -
  have "known i w' \<and> (queued task \<longleftrightarrow> i \<in> set (ready_queue r @ map fst q))"
    if "rt_tasks (install_requests q r) i = Some task" for i task
    using install_requests_tasks [OF that] ok q [of i] w'(2) [of i] unfolding tasks_ok_def by auto
  moreover have "distinct (ready_queue r @ map fst q)"
    using ok d q unfolding tasks_ok_def distinct_append by blast
  moreover have "\<forall>i\<in>set (ready_queue r @ map fst q). known i w'"
    using ok q w'(2) unfolding tasks_ok_def set_append by blast
  ultimately show ?thesis
    using w'(1) unfolding tasks_ok_def install_requests_fields by blast
qed

lemma install_requests_ok:
  assumes "tasks_ok (ready_queue r) r w"
  shows "tasks_ok (ready_queue (install_requests (spawn_queue w) r)) (install_requests (spawn_queue w) r) (w\<lparr>spawn_queue := []\<rparr>)"
    "tasks_ok (ready_queue (install_requests (spawn_queue_local w) r)) (install_requests (spawn_queue_local w) r)
      (w\<lparr>spawn_queue_local := []\<rparr>)"
proof -
  have ok: "spawn_ok w" using assms by (simp add: tasks_ok_def)
  then have "distinct (map fst (spawn_queue w))" "distinct (map fst (spawn_queue_local w))"
    by (auto simp: spawn_ok_def spawn_ids_def)
  then show "tasks_ok (ready_queue (install_requests (spawn_queue w) r)) (install_requests (spawn_queue w) r) (w\<lparr>spawn_queue := []\<rparr>)"
    "tasks_ok (ready_queue (install_requests (spawn_queue_local w) r)) (install_requests (spawn_queue_local w) r)
      (w\<lparr>spawn_queue_local := []\<rparr>)"
    using spawn_queue_known [OF ok] by (blast intro: install_requests_tasks_ok [OF assms])+
qed

context async_futures
begin

lemma poll_one_ok:
  assumes "tasks_ok (t # Q) r w" "poll_one fc t (r, w) = (r', w')"
  shows "tasks_ok Q r' w'"
proof -
  have "call_frame k w w'" using poll_one_frame [of w t r] assms(2) by simp
  from tasks_ok_calls [OF assms(1) this] have ok: "tasks_ok (t # Q) r w'" .
  have "known i w' \<and> (queued task \<longleftrightarrow> i \<in> set Q)" if i: "rt_tasks r' i = Some task" for i task
  proof (cases "i = t")
    case True
    with i poll_one_tasks(6) [of fc t r w task] assms(2) have "\<not> queued task" by simp
    with ok True show ?thesis by (simp add: tasks_ok_def)
  next
    case False
    with i poll_one_tasks(5) [of i t fc r w] assms(2) have "rt_tasks r i = Some task" by simp
    with ok False show ?thesis by (simp add: tasks_ok_def)
  qed
  with ok show ?thesis by (simp add: tasks_ok_def)
qed

lemma poll_fold_ok:
  assumes "tasks_ok order r w" "fold (poll_one fc) order (r, w) = (r', w')"
  shows "tasks_ok [] r' w' \<and> call_frame k w w' \<and> ready_queue r' = ready_queue r \<and> timers r' = timers r \<and>
    next_timer_deadline r' = next_timer_deadline r \<and> runtime_key r' = runtime_key r"
  using assms
proof (induction order arbitrary: r w)
  case (Cons t order)
  obtain r1 w1 where one: "poll_one fc t (r, w) = (r1, w1)" by fastforce
  from poll_one_ok [OF Cons.prems(1) one] Cons.IH [of r1 w1] Cons.prems(2) one
  have "tasks_ok [] r' w' \<and> call_frame k w1 w' \<and> ready_queue r' = ready_queue r1 \<and> timers r' = timers r1 \<and>
    next_timer_deadline r' = next_timer_deadline r1 \<and> runtime_key r' = runtime_key r1" by simp
  then show ?case
    using poll_one_tasks(1-4) [of fc t r w] poll_one_frame [of w t r] one by (auto intro: call_frame_trans)
qed simp

lemma tasks_ok_perm: "tasks_ok Q r w \<Longrightarrow> mset Q' = mset Q \<Longrightarrow> tasks_ok Q' r (w :: ('e, 't, 'v, 'f, 'z) rt_world_scheme)"
  unfolding tasks_ok_def using mset_eq_imp_distinct_iff mset_eq_setD by blast

text \<open>
  A poll cycle polls each ready task once, in an order the policy determines, and leaves no
  task marked as queued.
\<close>

lemma poll_ready_tasks_cycle:
  assumes ok: "tasks_ok (ready_queue r) r w" and poll: "poll_ready_tasks fc r w = (r', w')"
  shows "\<exists>order p. mset order = mset (ready_queue r @ spawn_ids w) \<and>
      order = fst (poll_order (ready_task_policy r) (ready_policy_state r) (time w) (ready_queue r @ spawn_ids w)) \<and>
      (r', w') = fold (poll_one fc) order
        ((install_requests (spawn_queue_local w) (install_requests (spawn_queue w) r))
           \<lparr>ready_queue := [], ready_policy_state := p\<rparr>, w\<lparr>spawn_queue := [], spawn_queue_local := []\<rparr>)"
    and "tasks_ok [] r' w'" and "ready_queue r' = []" and "timers r' = timers r"
    and "next_timer_deadline r' = next_timer_deadline r" and "runtime_key r' = runtime_key r"
    and "call_frame k (w\<lparr>spawn_queue := [], spawn_queue_local := []\<rparr>) w'"
proof -
  let ?r = "install_requests (spawn_queue_local w) (install_requests (spawn_queue w) r)"
  let ?w = "w\<lparr>spawn_queue := [], spawn_queue_local := []\<rparr>"
  obtain order p where o: "poll_order (ready_task_policy r) (ready_policy_state r) (time w)
      (ready_queue r @ spawn_ids w) = (order, p)" by fastforce
  then have perm: "mset order = mset (ready_queue r @ spawn_ids w)"
    using poll_order_perm [of "ready_task_policy r"] by (metis fst_conv)
  have rq: "ready_queue ?r = ready_queue r @ spawn_ids w"
    by (simp add: install_requests_fields spawn_ids_def)
  have fold: "fold (poll_one fc) order (?r\<lparr>ready_queue := [], ready_policy_state := p\<rparr>, ?w) = (r', w')"
    using poll o by (simp add: poll_ready_tasks_def poll_loop_order spawn_ids_def install_requests_fields time_eq)
  have "tasks_ok (ready_queue ?r) ?r ?w"
    using install_requests_ok(2) [OF install_requests_ok(1) [OF ok]] by simp
  then have "tasks_ok order (?r\<lparr>ready_queue := [], ready_policy_state := p\<rparr>) ?w"
    using tasks_ok_perm [of "ready_queue ?r" ?r ?w order] perm rq by (simp add: tasks_ok_def)
  note res = poll_fold_ok [OF this fold]
  show "\<exists>order p. mset order = mset (ready_queue r @ spawn_ids w) \<and>
      order = fst (poll_order (ready_task_policy r) (ready_policy_state r) (time w) (ready_queue r @ spawn_ids w)) \<and>
      (r', w') = fold (poll_one fc) order (?r\<lparr>ready_queue := [], ready_policy_state := p\<rparr>, ?w)"
    using perm o fold by (intro exI [of _ order] exI [of _ p]) simp
  show "tasks_ok [] r' w'" "ready_queue r' = []" "timers r' = timers r"
    "next_timer_deadline r' = next_timer_deadline r" "runtime_key r' = runtime_key r" "call_frame k ?w w'"
    using res by (simp_all add: install_requests_fields)
qed

end

end
