(* ===== verification/Runtime_Events.thy ===== *)
theory Runtime_Events
  imports Runtime_Polling
begin

text \<open>
  What processing an event does to the async runtime: its timers always have a tick scheduled
  for the first deadline, and ready tasks and spawn requests have a poll scheduled.
\<close>

section \<open>Timers\<close>

definition timers_wf :: "(simtime \<times> nat list) list \<Rightarrow> bool" where
  "timers_wf ts \<longleftrightarrow> sorted_wrt (<) (map fst ts) \<and> [] \<notin> snd ` set ts"

definition timers_ok :: "('f, 'p) des_runtime \<Rightarrow> bool" where
  "timers_ok r \<longleftrightarrow> timers_wf (timers r) \<and> next_timer_deadline r = first_deadline r"

text \<open>The tick for the recorded deadline is scheduled.\<close>

definition tick_ok :: "uuid \<Rightarrow> ('f, 'p) des_runtime \<Rightarrow> ('e sim_event, 't, 'v, 'z) scheduler_scheme \<Rightarrow> bool" where
  "tick_ok k r w \<longleftrightarrow> (\<forall>d. next_timer_deadline r = Some d \<longrightarrow> due k TimerTick (max d (time w)) w)"

lemma timers_wf_simps [simp]:
  "timers_wf []"
  "timers_wf ((d, is) # ts) \<longleftrightarrow> is \<noteq> [] \<and> (\<forall>d'\<in>fst ` set ts. d < d') \<and> timers_wf ts"
  by (auto simp: timers_wf_def)

lemma timers_push_deadlines: "fst ` set (timers_push d i ts) = insert d (fst ` set ts)"
  by (induction d i ts rule: timers_push.induct) auto

lemma timers_push_wf: "timers_wf ts \<Longrightarrow> timers_wf (timers_push d i ts)"
  by (induction d i ts rule: timers_push.induct) (auto simp: timers_push_deadlines dest: order.strict_trans)

lemma timers_filter_wf:
  assumes "sorted_wrt (<) (map fst ts)"
  shows "timers_wf (filter (\<lambda>(d, is). is \<noteq> []) (map (\<lambda>(d, is). (d, g d is)) ts))"
  using assms by (induction ts) (auto simp: timers_wf_def)

lemma timers_retain_wf:
  assumes "timers_wf ts"
  shows "timers_wf (timers_retain d i ts)"
  using assms unfolding timers_retain_def by (induction ts) (fastforce split: if_splits)+

lemma timers_retain_keeps:
  assumes "timers_wf ts" "map_of ts d = Some is" "filter (\<lambda>j. j \<noteq> i) is \<noteq> []"
  shows "map fst (timers_retain d i ts) = map fst ts"
proof -
  have "filter (\<lambda>j. j \<noteq> i) js \<noteq> []" if "(d, js) \<in> set ts" for js
  proof -
    have "distinct (map fst ts)" using assms(1) by (simp add: timers_wf_def strict_sorted_iff)
    with that assms(2) have "js = is" by simp
    with assms(3) show ?thesis by simp
  qed
  then have "timers_retain d i ts = map (\<lambda>(d', is). (d', if d' = d then filter (\<lambda>j. j \<noteq> i) is else is)) ts"
    using assms(1) unfolding timers_retain_def timers_wf_def by (subst filter_True) (auto split: if_splits)
  then show ?thesis by (simp add: case_prod_beta comp_def)
qed

lemma first_deadline_fields [simp]:
  "first_deadline (r\<lparr>rt_tasks := x\<rparr>) = first_deadline r"
  "first_deadline (r\<lparr>next_timer_deadline := d\<rparr>) = first_deadline r"
  "first_deadline (r\<lparr>runtime_key := kk\<rparr>) = first_deadline r"
  by (simp_all add: first_deadline_def)

lemma first_deadline_cong: "map fst (timers r') = map fst (timers r) \<Longrightarrow> first_deadline r' = first_deadline r"
  by (auto simp: first_deadline_def split: list.splits)

lemma tick_ok_mono:
  "tick_ok k r w \<Longrightarrow> set (events w) \<subseteq> set (events w') \<Longrightarrow> time w \<le> time w' \<Longrightarrow>
   next_timer_deadline r' = next_timer_deadline r \<Longrightarrow> tick_ok k r' w'"
  unfolding tick_ok_def using due_mono [of k TimerTick _ w w'] max.mono [OF order_refl, of "time w" "time w'"] by metis

section \<open>Ticks\<close>

lemma due_schedule: "due k ev (add_simtime (time w) d) (schedule d k (RuntimeEv ev) w)"
  by (auto simp: due_def sched_simps)

lemma tick_time:
  "add_simtime now (if d \<le> now then zero else from_duration (duration_since d now)) = max d now"
  by (auto simp: max_def simtime_wait_until)

lemma schedule_next_timer_tick_ok:
  assumes "timers_wf (timers r)" "next_timer_deadline r \<noteq> None \<Longrightarrow> next_timer_deadline r = first_deadline r \<Longrightarrow> tick_ok k r w"
    and "schedule_next_timer_tick k r w = (r', w')"
  shows "timers_ok r'" "tick_ok k r' w'" "call_frame k w w'" "r' = r\<lparr>next_timer_deadline := first_deadline r\<rparr>"
proof -
  show r': "r' = r\<lparr>next_timer_deadline := first_deadline r\<rparr>"
    using assms(3) by (auto simp: schedule_next_timer_tick_def Let_def split: if_splits option.splits)
  then show "timers_ok r'" using assms(1) by (simp add: timers_ok_def)
  show "call_frame k w w'"
    using assms(3) schedule_frame [of k w]
    by (auto simp: schedule_next_timer_tick_def Let_def split: if_splits option.splits)
  show "tick_ok k r' w'"
  proof (cases "first_deadline r = next_timer_deadline r")
    case True
    then have "r' = r" "w' = w" using assms(3) by (simp_all add: schedule_next_timer_tick_def)
    then show ?thesis using assms(2) True by (cases "next_timer_deadline r") (auto simp: tick_ok_def)
  next
    case False
    show ?thesis
    proof (cases "first_deadline r")
      case (Some d)
      let ?delay = "if d \<le> time w then zero else from_duration (duration_since d (time w))"
      have w': "w' = schedule ?delay k (RuntimeEv TimerTick) w"
        using assms(3) False Some by (simp add: schedule_next_timer_tick_def Let_def)
      have "due k TimerTick (max d (time w)) w'"
        using due_schedule [of k TimerTick w ?delay] unfolding w' tick_time .
      moreover have "time w' = time w" by (simp add: w' sched_simps)
      ultimately show ?thesis using Some by (simp add: tick_ok_def r')
    qed (simp add: tick_ok_def r')
  qed
qed

section \<open>Waking\<close>

lemma wake_task_fields [simp]:
  "timers (wake_task t r) = timers r" "next_timer_deadline (wake_task t r) = next_timer_deadline r"
  "runtime_key (wake_task t r) = runtime_key r" "first_deadline (wake_task t r) = first_deadline r"
  by (auto simp: wake_task_def first_deadline_def split: option.splits)

lemma wake_task_ok: "tasks_ok (ready_queue r) r w \<Longrightarrow> tasks_ok (ready_queue (wake_task t r)) (wake_task t r) w"
  by (auto simp: wake_task_def tasks_ok_def split: option.splits)

lemma fold_wake_fields [simp]:
  "timers (fold wake_task is r) = timers r" "next_timer_deadline (fold wake_task is r) = next_timer_deadline r"
  "runtime_key (fold wake_task is r) = runtime_key r"
  by (induction "is" arbitrary: r) auto

lemma fold_wake_ok:
  "tasks_ok (ready_queue r) r w \<Longrightarrow> tasks_ok (ready_queue (fold wake_task is r)) (fold wake_task is r) w"
  by (induction "is" arbitrary: r) (auto simp: wake_task_ok)

lemma tasks_ok_timers [simp]:
  "tasks_ok Q (r\<lparr>timers := ts\<rparr>) w = tasks_ok Q r w" "tasks_ok Q (r\<lparr>next_timer_deadline := d\<rparr>) w = tasks_ok Q r w"
  "tasks_ok Q (r\<lparr>runtime_key := kk\<rparr>) w = tasks_ok Q r w"
  by (simp_all add: tasks_ok_def)

lemma fire_timers_fields:
  "timers (fire_timers now ts r) = dropWhile (\<lambda>(d, is). d \<le> now) ts"
  "next_timer_deadline (fire_timers now ts r) = next_timer_deadline r"
  "runtime_key (fire_timers now ts r) = runtime_key r"
  by (induction now ts r rule: fire_timers.induct) auto

lemma fire_timers_ok:
  "tasks_ok (ready_queue r) r w \<Longrightarrow> tasks_ok (ready_queue (fire_timers now ts r)) (fire_timers now ts r) w"
  by (induction now ts r rule: fire_timers.induct) (auto simp: fold_wake_ok)

lemma dropWhile_wf: "timers_wf ts \<Longrightarrow> timers_wf (dropWhile P ts)"
  by (induction ts) auto

section \<open>Events\<close>

text \<open>
  The state of the runtime while an event is processed: in order, and with a poll coming
  for the spawn requests.
\<close>

definition rt_inv :: "uuid \<Rightarrow> ('f, 'p) des_runtime \<Rightarrow> ('e, 't, 'v, 'f, 'z) rt_world_scheme \<Rightarrow> bool" where
  "rt_inv k r w \<longleftrightarrow> tasks_ok (ready_queue r) r w \<and> timers_ok r \<and> tick_ok k r w \<and>
     (spawn_ids w \<noteq> [] \<longrightarrow> poll_coming k w)"

text \<open>What processing an event keeps of the world.\<close>

definition world_frame :: "('e, 't, 'v, 'f, 'z) rt_world_scheme \<Rightarrow> ('e, 't, 'v, 'f, 'z) rt_world_scheme \<Rightarrow> bool" where
  "world_frame w w' \<longleftrightarrow> clock w' = clock w \<and> current_clock w' = current_clock w \<and>
     set (events w) \<subseteq> set (events w') \<and> set (deferred_wakes w) \<subseteq> set (deferred_wakes w')"

lemma call_world_frame: "call_frame k w w' \<Longrightarrow> world_frame w w'"
  by (simp add: call_frame_def world_frame_def)

lemma world_frame_trans: "world_frame w w' \<Longrightarrow> world_frame w' w'' \<Longrightarrow> world_frame w w''"
  by (auto simp: world_frame_def)

lemma tick_ok_frame: "tick_ok k r w \<Longrightarrow> world_frame w w' \<Longrightarrow> next_timer_deadline r' = next_timer_deadline r \<Longrightarrow> tick_ok k r' w'"
  by (erule tick_ok_mono) (auto simp: world_frame_def time_eq)

lemma calls_coming:
  assumes "call_frame k w w'" "current_clock w" "spawn_ids w \<noteq> [] \<longrightarrow> poll_coming k w"
  shows "spawn_ids w' \<noteq> [] \<longrightarrow> poll_coming k w'"
  using assms call_frame_coming [OF assms(1)] by (auto simp: call_frame_def)

context async_futures
begin

lemma poll_ready_tasks_ok:
  assumes ok: "tasks_ok (ready_queue r) r w" "timers_ok r" "tick_ok k r w" "current_clock w"
    and poll: "poll_ready_tasks fc r w = (r', w')"
  shows "rt_inv k r' w' \<and> world_frame w w' \<and> runtime_key r' = runtime_key r \<and> ready_queue r' = []"
proof -
  let ?w = "w\<lparr>spawn_queue := [], spawn_queue_local := []\<rparr>"
  note res = poll_ready_tasks_cycle(2-7) [OF ok(1) poll]
  have "world_frame w ?w" by (simp add: world_frame_def)
  then have frame: "world_frame w w'"
    using call_world_frame [OF res(6)] by (rule world_frame_trans)
  have "spawn_ids w' \<noteq> [] \<longrightarrow> poll_coming k w'"
    by (rule calls_coming [OF res(6)]) (use ok in \<open>simp_all add: spawn_ids_def\<close>)
  moreover have "timers_ok r'"
    using ok(2) res(3,4) by (simp add: timers_ok_def first_deadline_def)
  ultimately show ?thesis
    using res frame tick_ok_frame [OF ok(3) frame] by (simp add: rt_inv_def)
qed

lemma timer_tick_ok:
  assumes ok: "tasks_ok (ready_queue r) r w" "timers_ok r" "current_clock w"
    and tick: "handle_timer_tick fc k r w = (r', w')"
  shows "rt_inv k r' w' \<and> world_frame w w' \<and> runtime_key r' = runtime_key r \<and> ready_queue r' = []"
proof -
  let ?r = "fire_timers (time w) (timers r) (r\<lparr>next_timer_deadline := None\<rparr>)"
  obtain r1 w1 where s: "schedule_next_timer_tick k ?r w = (r1, w1)" by fastforce
  have "timers_wf (timers ?r)" using ok(2) by (simp add: fire_timers_fields timers_ok_def dropWhile_wf)
  note st = schedule_next_timer_tick_ok [OF this _ s]
  have n: "next_timer_deadline ?r = None" by (simp add: fire_timers_fields)
  have "tasks_ok (ready_queue ?r) ?r w" using ok(1) by (intro fire_timers_ok) simp
  then have t: "tasks_ok (ready_queue r1) r1 w1"
    using st(3,4) tasks_ok_calls n by fastforce
  have "poll_ready_tasks fc r1 w1 = (r', w')"
    using tick s by (simp add: handle_timer_tick_def Let_def)
  from poll_ready_tasks_ok [OF t _ _ _ this] show ?thesis
    using st n ok(3) call_world_frame [of k w w1]
    by (auto simp: fire_timers_fields call_frame_def intro: world_frame_trans)
qed

lemma tick_change_ok:
  assumes ok: "tasks_ok (ready_queue r) r w" "current_clock w" "spawn_ids w \<noteq> [] \<longrightarrow> poll_coming k w"
    and wf: "timers_wf (timers r)" "tick_ok k r w"
    and s: "schedule_next_timer_tick k r w = (r', w')"
  shows "rt_inv k r' w' \<and> world_frame w w' \<and> runtime_key r' = runtime_key r"
proof -
  note st = schedule_next_timer_tick_ok [OF wf(1) wf(2) s]
  have "tasks_ok (ready_queue r') r' w'" using st(4) tasks_ok_calls [OF ok(1) st(3)] by simp
  then show ?thesis
    using st calls_coming [OF st(3) ok(2,3)] call_world_frame [OF st(3)] by (simp add: rt_inv_def)
qed

lemma rt_inv_mono:
  assumes "rt_inv k r w" "call_frame k w w'" "current_clock w"
  shows "rt_inv k r w'"
  using assms tasks_ok_calls [OF _ assms(2), of "ready_queue r" r] calls_coming [OF assms(2,3)]
    tick_ok_frame [OF _ call_world_frame [OF assms(2)], where k = k and r = r and r' = r]
  by (simp add: rt_inv_def)

lemma cancel_task_inv:
  assumes inv: "rt_inv k r w" "current_clock w" and c: "rt_cancel_task fc t k r w = (r', w')"
  shows "rt_inv k r' w' \<and> world_frame w w' \<and> runtime_key r' = runtime_key r"
proof -
  let ?w = "case rt_tasks r t of Some task \<Rightarrow> drop_future fc (rt_future task) w | None \<Rightarrow> w"
  let ?ts = "filter (\<lambda>(d, is). is \<noteq> []) (map (\<lambda>(d, is). (d, filter (\<lambda>i. i \<noteq> t) is)) (timers r))"
  let ?r = "r\<lparr>rt_tasks := (rt_tasks r)(t := None), timers := ?ts\<rparr>"
  have f: "call_frame k w ?w"
    using rt_calls_frame [OF drop_calls] by (auto split: option.splits)
  note inv' = rt_inv_mono [OF inv(1) f inv(2)]
  have "timers_wf (timers ?r)"
    using inv(1) timers_filter_wf [of "timers r" "\<lambda>d. filter (\<lambda>i. i \<noteq> t)"]
    by (simp add: rt_inv_def timers_ok_def timers_wf_def [of "timers r"])
  moreover have "tasks_ok (ready_queue ?r) ?r ?w"
    using inv' by (auto simp: rt_inv_def tasks_ok_def)
  moreover have "tick_ok k ?r ?w" "spawn_ids ?w \<noteq> [] \<longrightarrow> poll_coming k ?w" "current_clock ?w"
    using inv' inv(2) f by (auto simp: rt_inv_def tick_ok_def call_frame_def)
  moreover have "schedule_next_timer_tick k ?r ?w = (r', w')"
    using c by (simp add: rt_cancel_task_def Let_def)
  ultimately have "rt_inv k r' w' \<and> world_frame ?w w' \<and> runtime_key r' = runtime_key ?r"
    by (intro tick_change_ok)
  then show ?thesis using world_frame_trans [OF call_world_frame [OF f]] by auto
qed

lemma timer_change_inv:
  assumes inv: "rt_inv k r w" "current_clock w"
    and c: "register_timer t d k r w = (r', w') \<or> cancel_timer t d k r w = (r', w')"
  shows "rt_inv k r' w' \<and> world_frame w w' \<and> runtime_key r' = runtime_key r"
proof -
  have wf: "timers_wf (timers r)" using inv(1) by (simp add: rt_inv_def timers_ok_def)
  have change: "rt_inv k r' w' \<and> world_frame w w' \<and> runtime_key r' = runtime_key r"
    if "timers_wf ts" "schedule_next_timer_tick k (r\<lparr>timers := ts\<rparr>) w = (r', w')" for ts
    using tick_change_ok [OF _ inv(2) _ _ _ that(2)] inv(1) that(1) by (simp add: rt_inv_def tick_ok_def)
  have same: ?thesis if "r' = r" "w' = w"
    using that inv by (simp add: world_frame_def)
  from c show ?thesis
  proof
    assume "register_timer t d k r w = (r', w')"
    then show ?thesis
      using same change [OF timers_push_wf [OF wf, of d t]] by (auto simp: register_timer_def split: if_splits)
  next
    assume c: "cancel_timer t d k r w = (r', w')"
    show ?thesis
    proof (cases "\<exists>is. map_of (timers r) d = Some is \<and> filter (\<lambda>j. j \<noteq> t) is \<noteq> []")
      case True
      then obtain "is" where i: "map_of (timers r) d = Some is" "filter (\<lambda>j. j \<noteq> t) is \<noteq> []" by blast
      let ?r = "r\<lparr>timers := timers_retain d t (timers r)\<rparr>"
      have "first_deadline ?r = first_deadline r"
        by (rule first_deadline_cong) (simp add: timers_retain_keeps [OF wf i])
      then have "rt_inv k ?r w"
        using inv(1) timers_retain_wf [OF wf] by (simp add: rt_inv_def timers_ok_def tick_ok_def)
      then show ?thesis using c i by (auto simp: cancel_timer_def Let_def world_frame_def)
    next
      case False
      then show ?thesis
        using c same change [OF timers_retain_wf [OF wf, of d t]]
        by (auto simp: cancel_timer_def Let_def split: option.splits)
    qed
  qed
qed

text \<open>
  Every event keeps the runtime in order; a tick need not be scheduled before a tick is
  processed, nor a poll before one of the events that poll.
\<close>

lemma dispatch_ok:
  assumes ok: "tasks_ok (ready_queue r) r w" "timers_ok r" "current_clock w"
    and tick: "ev \<noteq> TimerTick \<Longrightarrow> tick_ok k r w"
    and spawn: "ev \<noteq> Poll \<Longrightarrow> spawn_ids w \<noteq> [] \<longrightarrow> poll_coming k w"
    and d: "dispatch_event fc k ev r w = (r', w')"
  shows "rt_inv k r' w' \<and> world_frame w w' \<and> runtime_key r' = runtime_key r \<and> (ev = Poll \<longrightarrow> ready_queue r' = [])"
proof -
  have inv: "rt_inv k r w" if "ev \<noteq> TimerTick" "ev \<noteq> Poll"
    using ok tick spawn that by (simp add: rt_inv_def)
  show ?thesis
  proof (cases ev)
    case Poll
    with poll_ready_tasks_ok [OF ok(1,2) _ ok(3)] d tick show ?thesis by simp
  next
    case (Wake t)
    from poll_ready_tasks_ok [OF wake_task_ok [OF ok(1)], of t] Wake d ok tick show ?thesis
      by (simp add: timers_ok_def tick_ok_def)
  next
    case (Cancel t)
    with cancel_task_inv [OF inv ok(3), of t r' w'] d show ?thesis by simp
  next
    case (RegisterTimer t x)
    with timer_change_inv [OF inv ok(3), of t x r' w'] d show ?thesis by simp
  next
    case (CancelTimer t x)
    with timer_change_inv [OF inv ok(3), of t x r' w'] d show ?thesis by simp
  next
    case TimerTick
    with timer_tick_ok [OF ok] d show ?thesis by simp
  qed
qed

text \<open>After an event a poll is scheduled when tasks are ready.\<close>

lemma process_event_ok:
  assumes ok: "tasks_ok (ready_queue r) r w" "timers_ok r" "current_clock w"
    and tick: "ev \<noteq> TimerTick \<Longrightarrow> tick_ok k r w"
    and spawn: "ev \<noteq> Poll \<Longrightarrow> spawn_ids w \<noteq> [] \<longrightarrow> poll_coming k w"
    and p: "rt_process_event fc k ev r w = (r', w')"
  shows "rt_inv k r' w' \<and> world_frame w w' \<and> (ready_queue r' \<noteq> [] \<longrightarrow> due k Poll (time w') w')"
proof -
  let ?r = "if runtime_key r = None then r\<lparr>runtime_key := Some k\<rparr> else r"
  obtain r1 w1 where d: "dispatch_event fc k ev ?r w = (r1, w1)" by fastforce
  let ?w = "if ready_queue r1 \<noteq> [] then schedule_now k (RuntimeEv Poll) w1 else w1"
  from p d have r': "r' = r1" and w': "w' = update_diag r1 ?w"
    by (simp_all add: rt_process_event_def Let_def split: if_splits)
  have "tasks_ok (ready_queue ?r) ?r w" "timers_ok ?r" "ev \<noteq> TimerTick \<Longrightarrow> tick_ok k ?r w"
    using ok tick by (simp_all add: timers_ok_def tick_ok_def)
  from dispatch_ok [OF this(1,2) ok(3) this(3) spawn d]
  have inv: "rt_inv k r1 w1" and f: "world_frame w w1" by simp_all
  have fw: "call_frame k w1 ?w" by (auto simp: schedule_now_def intro: schedule_frame)
  have fu: "call_frame k ?w w'"
    unfolding w' by (rule same_queues_frame) (auto simp: update_diag_def)
  from call_frame_trans [OF fw fu] have f1: "call_frame k w1 w'" .
  have "rt_inv k r' w'" using rt_inv_mono [OF inv f1] f ok(3) r' by (simp add: world_frame_def)
  moreover have "world_frame w w'" using world_frame_trans [OF f call_world_frame [OF f1]] .
  moreover have "due k Poll (time w') w'" if "ready_queue r' \<noteq> []"
  proof -
    have "due k Poll (time w1) ?w"
      using that r' due_schedule [of k Poll w1 zero] by (simp add: schedule_now_def)
    moreover have "set (events ?w) \<subseteq> set (events w')" "time w1 \<le> time w'"
      using f1 fu unfolding call_frame_def time_eq by simp_all
    ultimately show ?thesis by (rule due_mono)
  qed
  ultimately show ?thesis by blast
qed

end

end
