(* ===== verification/Runtime_System.thy ===== *)
theory Runtime_System
  imports Runtime_Events
begin

text \<open>
  The async runtime inside a simulation: one runtime with key \<open>k\<close>, other components and
  scheduler tasks that may use its handles. The invariant of the runtime is lifted to the
  steps of the simulation, and the properties of the runtime are stated here.
\<close>

section \<open>The runtime acts through the scheduler\<close>

context async_futures
begin

lemma poll_future_api:
  assumes "poll_future fc wk f (set_poll_context key t w) = (res, f', w')"
  shows "api_run w (clear_poll_context w')"
proof -
  have "api_run w (set_poll_context key t w)" "api_run w' (clear_poll_context w')"
    by (rule ambient_api, simp add: set_poll_context_def clear_poll_context_def scheduler.truncate_def)+
  moreover have "api_run (set_poll_context key t w) w'"
    using rt_calls_api [OF poll_calls, of "set_poll_context key t w" wk f] assms by simp
  ultimately show ?thesis by (meson rtranclp_trans)
qed

lemma drop_future_api: "api_run w w1 \<Longrightarrow> api_run w (drop_future fc f w1)"
  using rt_calls_api [OF drop_calls, of w1 f] by (auto intro: rtranclp_trans)

lemma poll_one_api: "api_run w (snd (poll_one fc t (r, w)))"
  by (auto simp: poll_one_def poll_task_def remove_task_def Let_def split: option.splits prod.splits
      intro: poll_future_api drop_future_api)

lemma poll_fold_api: "api_run w (snd (fold (poll_one fc) order (r, w)))"
proof (induction order arbitrary: r w)
  case (Cons t order)
  obtain r1 w1 where "poll_one fc t (r, w) = (r1, w1)" by fastforce
  with poll_one_api [of w t r] Cons [of w1 r1] show ?case by (auto intro: rtranclp_trans)
qed simp

lemma poll_ready_tasks_api: "api_run w (snd (poll_ready_tasks fc r w))"
proof -
  have "api_run w (w\<lparr>spawn_queue := [], spawn_queue_local := []\<rparr>)"
    by (rule ambient_api) (simp add: scheduler.truncate_def)
  then show ?thesis
    by (auto simp: poll_ready_tasks_def poll_loop_order Let_def split: prod.splits
        intro: rtranclp_trans [OF _ poll_fold_api])
qed

lemma timer_tick_api: "api_run w (snd (schedule_next_timer_tick key r w))"
  by (auto simp: schedule_next_timer_tick_def Let_def intro: api_run_schedule split: option.splits)

lemma dispatch_api: "api_run w (snd (dispatch_event fc key ev r w))"
proof (cases ev)
  case (Cancel t)
  show ?thesis
    using rtranclp_trans [OF rt_calls_api [OF drop_calls] timer_tick_api] timer_tick_api
    by (auto simp: Cancel rt_cancel_task_def Let_def split: option.splits)
next
  case TimerTick
  show ?thesis
    using timer_tick_api [of w key "fire_timers (time w) (timers r) (r\<lparr>next_timer_deadline := None\<rparr>)"]
    by (auto simp: TimerTick handle_timer_tick_def Let_def split: prod.splits
        intro: rtranclp_trans [OF _ poll_ready_tasks_api])
qed (auto simp: poll_ready_tasks_api register_timer_def cancel_timer_def timer_tick_api Let_def
      split: option.splits)

lemma process_event_api:
  assumes "rt_process_event fc key ev r w = (r', w')"
  shows "api_run w w'"
proof -
  let ?r = "if runtime_key r = None then r\<lparr>runtime_key := Some key\<rparr> else r"
  obtain r1 w1 where d: "dispatch_event fc key ev ?r w = (r1, w1)" by fastforce
  let ?w = "if ready_queue r1 \<noteq> [] then schedule_now key (RuntimeEv Poll) w1 else w1"
  have "api_run w w1" using dispatch_api [of w key ev ?r] d by simp
  then have "api_run w ?w" by (auto simp: schedule_now_def intro: api_run_schedule)
  moreover have "api_run ?w (update_diag r1 ?w)"
    by (rule ambient_api) (simp add: update_diag_def scheduler.truncate_def)
  moreover have "w' = update_diag r1 ?w"
    using assms d by (simp add: rt_process_event_def Let_def split: if_splits)
  ultimately show ?thesis by (meson rtranclp_trans)
qed

end

section \<open>The simulation\<close>

text \<open>
  The contract of the rest of the system: other components act by calls, and so do the tasks
  of the scheduler, which may also reschedule themselves.
\<close>

locale async_system = async_futures k fc
  for k :: uuid and fc :: "('f, ('e, 't, 'v, 'f, 'z) rt_world_scheme) future_code" +
  fixes other :: "'o \<Rightarrow> uuid \<Rightarrow> 'e \<Rightarrow> ('e, 't, 'v, 'f, 'z) rt_world_scheme
      \<Rightarrow> ('o \<times> ('e, 't, 'v, 'f, 'z) rt_world_scheme) option"
    and exec :: "'t \<Rightarrow> ('e, 't, 'v, 'f, 'z) rt_world_scheme \<Rightarrow> 'v any \<times> ('e, 't, 'v, 'f, 'z) rt_world_scheme"
  assumes other_calls: "other c key ev w = Some (c', w') \<Longrightarrow> rt_calls k w w'"
    and exec_calls: "executing_task_id w \<noteq> None \<Longrightarrow>
      \<exists>w1. rt_calls k w w1 \<and> (snd (exec t w) = w1 \<or>
        (\<exists>due_time i task. executing_task_id w1 = Some i \<and> time w1 \<le> due_time \<and>
           snd (exec t w) = schedule_task_at due_time i task w1))"

sublocale async_system \<subseteq> simulation_code exec "rt_handle fc other"
proof
  fix w :: "('e, 't, 'v, 'f, 'z) rt_world_scheme" and t
  assume "executing_task_id w \<noteq> None"
  from exec_calls [OF this, of t] show "task_run w (snd (exec t w))"
    by (metis rt_calls_api task_run.intros)
next
  fix c key ev c' and w w' :: "('e, 't, 'v, 'f, 'z) rt_world_scheme"
  assume "rt_handle fc other c key ev w = Some (c', w')"
  then show "api_run w w'"
    using process_event_api [of key _ _ w] rt_calls_api [OF other_calls]
    by (cases c; cases ev) (auto split: prod.splits)
qed

section \<open>Invariant\<close>

text \<open>The runtime between two steps.\<close>

definition runtime_idle_ok :: "uuid \<Rightarrow> ('f, 'p) des_runtime \<Rightarrow> ('e, 't, 'v, 'f, 'z) rt_world_scheme \<Rightarrow> bool" where
  "runtime_idle_ok k r w \<longleftrightarrow> tasks_ok (ready_queue r) r w \<and> timers_ok r \<and> tick_ok k r w \<and>
     (ready_queue r \<noteq> [] \<or> spawn_ids w \<noteq> [] \<longrightarrow> due k Poll (time w) w)"

definition runtime_at ::
  "uuid \<Rightarrow> ('f, 'p) des_runtime \<Rightarrow> ('ev, 't, 'v, 'z, 'q, ('f, 'p, 'o) rt_component) simulation \<Rightarrow> bool"
where
  "runtime_at k r sim \<longleftrightarrow> component_table (sim_components sim) k = Some (RuntimeC r) \<and>
     (\<forall>k' r'. component_table (sim_components sim) k' = Some (RuntimeC r') \<longrightarrow> k' = k)"

lemma wake_entry_zero:
  "(zero, k, ev) \<in> set (deferred_wakes w) \<Longrightarrow>
   \<exists>ce. Component ce \<in> set (events (drain_deferred_wakes w)) \<and> component ce = k \<and> inner ce = ev \<and> ce_time ce = time w"
proof -
  assume "(zero, k, ev) \<in> set (deferred_wakes w)"
  then obtain n where n: "n < length (deferred_wakes w)" "deferred_wakes w ! n = (zero, k, ev)"
    by (auto simp: in_set_conv_nth)
  let ?x = "wake_entry w (n, zero, k, ev)"
  have "(n, zero, k, ev) \<in> set (List.enumerate 0 (deferred_wakes w))"
    using n by (auto simp: in_set_enumerate_eq)
  then have "?x \<in># mset (events w) + mset (map (wake_entry w) (List.enumerate 0 (deferred_wakes w)))"
    by auto
  then have "?x \<in> set (events (drain_deferred_wakes w))"
    using fold_schedule_mset [of "deferred_wakes w" "w\<lparr>deferred_wakes := []\<rparr>"]
    by (metis (no_types, lifting) drain_deferred_wakes_correct set_mset_mset)
  then show ?thesis by (auto simp: wake_entry_def)
qed

lemma fold_schedule_rt_world [simp]:
  "rt_next_task_id (fold (\<lambda>(d, k, ev). schedule d k ev) ws w) = rt_next_task_id w"
  "spawn_queue (fold (\<lambda>(d, k, ev). schedule d k ev) ws w) = spawn_queue w"
  "spawn_queue_local (fold (\<lambda>(d, k, ev). schedule d k ev) ws w) = spawn_queue_local w"
  by (induction ws arbitrary: w) auto

lemma drain_rt_world [simp]:
  "rt_next_task_id (drain_deferred_wakes w) = rt_next_task_id w"
  "spawn_queue (drain_deferred_wakes w) = spawn_queue w"
  "spawn_queue_local (drain_deferred_wakes w) = spawn_queue_local w"
  by (simp_all add: drain_deferred_wakes_def)

lemma drain_events: "set (events w) \<subseteq> set (events (drain_deferred_wakes w))"
  using drain_deferred_wakes_correct [of w] by (metis mset_subset_eq_add_left set_mset_mono set_mset_mset)

lemma known_cong:
  "rt_next_task_id w' = rt_next_task_id w \<Longrightarrow> spawn_queue w' = spawn_queue w \<Longrightarrow>
   spawn_queue_local w' = spawn_queue_local w \<Longrightarrow> tasks_ok Q r w' = tasks_ok Q r w \<and> spawn_ids w' = spawn_ids w"
  by (simp add: tasks_ok_def known_def spawn_ok_def spawn_ids_def)

lemma end_of_step:
  assumes "rt_inv k r w" "ready_queue r \<noteq> [] \<longrightarrow> poll_coming k w"
  shows "runtime_idle_ok k r (drain_deferred_wakes (clear_scheduler_context w))"
proof -
  let ?c = "clear_scheduler_context w" and ?w = "drain_deferred_wakes (clear_scheduler_context w)"
  have t: "time ?w = time w"
    using drain_deferred_wakes_correct [of ?c] by (simp add: time_eq clear_scheduler_context_def)
  have ev: "set (events w) \<subseteq> set (events ?w)"
    using drain_events [of ?c] by (simp add: clear_scheduler_context_def)
  have q: "tasks_ok (ready_queue r) r ?w = tasks_ok (ready_queue r) r w \<and> spawn_ids ?w = spawn_ids w"
    by (rule known_cong) (simp_all add: clear_scheduler_context_def)
  have "due k Poll (time ?w) ?w" if "poll_coming k w"
    using that unfolding poll_coming_def
  proof
    assume "due k Poll (time w) w"
    then show ?thesis using ev t by (auto intro: due_mono)
  next
    assume "(zero, k, RuntimeEv Poll) \<in> set (deferred_wakes w)"
    then have "(zero, k, RuntimeEv Poll) \<in> set (deferred_wakes ?c)" by (simp add: clear_scheduler_context_def)
    from wake_entry_zero [OF this] show ?thesis
      unfolding due_def t by (auto simp: time_eq clear_scheduler_context_def)
  qed
  moreover have "tick_ok k r ?w"
    by (rule tick_ok_mono [OF _ ev]) (use assms(1) t in \<open>simp_all add: rt_inv_def\<close>)
  ultimately show ?thesis
    using assms q unfolding runtime_idle_ok_def rt_inv_def by auto
qed

lemma pop_keeps_due:
  assumes pe: "pop_effect s e s'" and due: "due k ev t s"
    and e: "\<And>ce. e = Component ce \<Longrightarrow> component ce = k \<Longrightarrow> inner ce \<noteq> RuntimeEv ev"
  shows "due k ev t s'"
proof -
  from due obtain ce where ce: "Component ce \<in> set (events s)" "component ce = k"
    "inner ce = RuntimeEv ev" "ce_time ce \<le> t"
    by (auto simp: due_def)
  from pe obtain D where ms: "mset (events s) = add_mset e (mset (events s') + mset D)"
    and D: "\<forall>d\<in>set D. is_canc (cancelled_tasks s) d"
    unfolding pop_effect_def by blast
  have "Component ce \<noteq> e" using e ce by auto
  moreover have "Component ce \<notin> set D" using D by (auto simp: is_canc_def)
  moreover have "Component ce \<in># add_mset e (mset (events s') + mset D)" using ce(1) ms by (metis set_mset_mset)
  ultimately have "Component ce \<in> set (events s')" by auto
  with ce show ?thesis by (auto simp: due_def)
qed

lemma pop_idle:
  assumes pe: "pop_effect w e w'" and so: "sched_ok w" and idle: "runtime_idle_ok k r w"
  shows "tasks_ok (ready_queue r) r w'" "timers_ok r"
    "(\<And>ce. e = Component ce \<Longrightarrow> component ce = k \<Longrightarrow> inner ce \<noteq> RuntimeEv TimerTick) \<Longrightarrow> tick_ok k r w'"
    "(\<And>ce. e = Component ce \<Longrightarrow> component ce = k \<Longrightarrow> inner ce \<noteq> RuntimeEv Poll) \<Longrightarrow>
       ready_queue r \<noteq> [] \<or> spawn_ids w' \<noteq> [] \<longrightarrow> due k Poll (time w') w'"
proof -
  note tm = pop_effect_time [OF pe so]
  have m: "scheduler.more w' = scheduler.more w" using pe by (auto elim: pop_effectE)
  then have q: "tasks_ok (ready_queue r) r w' = tasks_ok (ready_queue r) r w \<and> spawn_ids w' = spawn_ids w"
    by (intro known_cong) (cases w; cases w'; simp)+
  show "tasks_ok (ready_queue r) r w'" "timers_ok r"
    using idle q by (auto simp: runtime_idle_ok_def)
  show "tick_ok k r w'"
    if "\<And>ce. e = Component ce \<Longrightarrow> component ce = k \<Longrightarrow> inner ce \<noteq> RuntimeEv TimerTick"
    unfolding tick_ok_def
  proof (intro allI impI)
    fix d assume "next_timer_deadline r = Some d"
    with idle have "due k TimerTick (max d (time w)) w" by (simp add: runtime_idle_ok_def tick_ok_def)
    from pop_keeps_due [OF pe this that] show "due k TimerTick (max d (time w')) w'"
      using due_mono [OF _ order_refl max.mono [OF order_refl tm(2)]] by blast
  qed
  show "ready_queue r \<noteq> [] \<or> spawn_ids w' \<noteq> [] \<longrightarrow> due k Poll (time w') w'"
    if "\<And>ce. e = Component ce \<Longrightarrow> component ce = k \<Longrightarrow> inner ce \<noteq> RuntimeEv Poll"
  proof
    assume "ready_queue r \<noteq> [] \<or> spawn_ids w' \<noteq> []"
    with idle q have "due k Poll (time w) w" by (auto simp: runtime_idle_ok_def)
    from pop_keeps_due [OF pe this that] show "due k Poll (time w') w'"
      using due_mono [OF _ order_refl tm(2)] by blast
  qed
qed

lemma schedule_task_at_frame: "call_frame k w (schedule_task_at t i task w)"
  by (rule same_queues_frame) (auto simp: schedule_task_at_def Let_def)

lemma set_context_idle:
  assumes "tasks_ok (ready_queue r) r w" "timers_ok r" "tick_ok k r w"
    "ready_queue r \<noteq> [] \<or> spawn_ids w \<noteq> [] \<longrightarrow> due k Poll (time w) w"
  shows "rt_inv k r (set_scheduler_context w)"
    "ready_queue r \<noteq> [] \<longrightarrow> poll_coming k (set_scheduler_context w)"
  using assms known_cong [of "set_scheduler_context w" w "ready_queue r" r]
  by (auto simp: rt_inv_def poll_coming_def tick_ok_def due_def time_eq set_scheduler_context_def)

context async_system
begin

lemma execute_task_frame: "call_frame k w (snd (execute_task exec i w))"
proof (cases "i \<in> cancelled_tasks w \<or> pending_tasks w i = None")
  case True
  then have "snd (execute_task exec i w) = w\<lparr>cancelled_tasks := cancelled_tasks w - {i}\<rparr> \<or> snd (execute_task exec i w) = w"
    by (auto simp: execute_task_def)
  then show ?thesis by (auto intro: same_queues_frame)
next
  case False
  then obtain task where p: "pending_tasks w i = Some task" by auto
  define w1 where "w1 = w\<lparr>pending_tasks := (pending_tasks w)(i := None), executing_task_id := Some i\<rparr>"
  obtain res w2 where e: "exec task w1 = (res, w2)" by fastforce
  have "call_frame k w w1" by (rule same_queues_frame) (auto simp: w1_def)
  moreover have "call_frame k w1 w2"
  proof -
    have "executing_task_id w1 \<noteq> None" by (simp add: w1_def)
    from exec_calls [OF this, of task] obtain v where v: "rt_calls k w1 v"
      and "w2 = v \<or> (\<exists>t j u. w2 = schedule_task_at t j u v)" using e by auto
    then show ?thesis using call_frame_trans [OF rt_calls_frame [OF v] schedule_task_at_frame] rt_calls_frame [OF v]
      by auto
  qed
  ultimately have f: "call_frame k w w2" by (rule call_frame_trans)
  have "call_frame k w2 (snd (execute_task exec i w))"
    using False p e unfolding w1_def
    by (auto simp: execute_task_def Let_def split: any.splits intro!: same_queues_frame)
  with f show ?thesis by (rule call_frame_trans)
qed

lemma process_entry_runtime:
  assumes at: "runtime_at k r sim"
    and w: "tasks_ok (ready_queue r) r w" "timers_ok r"
      "(\<And>ce. e = Component ce \<Longrightarrow> component ce = k \<Longrightarrow> inner ce \<noteq> RuntimeEv TimerTick) \<Longrightarrow> tick_ok k r w"
      "(\<And>ce. e = Component ce \<Longrightarrow> component ce = k \<Longrightarrow> inner ce \<noteq> RuntimeEv Poll) \<Longrightarrow>
         ready_queue r \<noteq> [] \<or> spawn_ids w \<noteq> [] \<longrightarrow> due k Poll (time w) w"
    and p: "process_event_entry exec (rt_handle fc other) e (sim_components sim) (set_scheduler_context w) = Some (cs, w')"
  shows "\<exists>r'. runtime_at k r' (sim\<lparr>sim_components := cs\<rparr>) \<and> rt_inv k r' w' \<and>
    (ready_queue r' \<noteq> [] \<longrightarrow> poll_coming k w')"
proof -
  have keep: ?thesis
    if "\<And>ce. e = Component ce \<Longrightarrow> component ce \<noteq> k" "call_frame k (set_scheduler_context w) w'"
      "runtime_at k r (sim\<lparr>sim_components := cs\<rparr>)"
  proof -
    have "current_clock (set_scheduler_context w)" by (simp add: set_scheduler_context_def)
    then show ?thesis
      using set_context_idle [OF w(1,2) w(3,4)] that rt_inv_mono [OF _ that(2)] call_frame_coming [OF that(2)]
      by blast
  qed
  show ?thesis
  proof (cases e)
    case (Task te)
    with p have "cs = sim_components sim" "w' = snd (execute_task exec (te_task_id te) (set_scheduler_context w))"
      by auto
    then show ?thesis using keep Task at execute_task_frame by (simp add: runtime_at_def)
  next
    case (Component ce)
    show ?thesis
    proof (cases "component ce = k")
      case True
      with at p Component obtain ev r' where ev: "inner ce = RuntimeEv ev"
        and pr: "rt_process_event fc k ev r (set_scheduler_context w) = (r', w')"
        and cs: "cs = (sim_components sim)\<lparr>component_table := (component_table (sim_components sim))(k \<mapsto> RuntimeC r')\<rparr>"
        by (cases "inner ce") (auto simp: runtime_at_def split: prod.splits)
      let ?w = "set_scheduler_context w"
      have eq: "tasks_ok (ready_queue r) r ?w = tasks_ok (ready_queue r) r w \<and> spawn_ids ?w = spawn_ids w"
        by (rule known_cong) (simp_all add: set_scheduler_context_def)
      have ctx: "time ?w = time w" "\<And>x t. due k x t ?w = due k x t w" "current_clock ?w"
        by (simp_all add: set_scheduler_context_def time_eq due_def)
      have "tick_ok k r ?w" if "ev \<noteq> TimerTick"
        using w(3) Component ev that ctx by (auto simp: tick_ok_def)
      moreover have "spawn_ids ?w \<noteq> [] \<longrightarrow> poll_coming k ?w" if "ev \<noteq> Poll"
        using w(4) Component ev that ctx eq by (auto simp: poll_coming_def)
      ultimately have res: "rt_inv k r' w' \<and> world_frame ?w w' \<and> (ready_queue r' \<noteq> [] \<longrightarrow> due k Poll (time w') w')"
        using process_event_ok [of r ?w ev r' w'] w(1,2) eq ctx(3) pr by blast
      moreover have "runtime_at k r' (sim\<lparr>sim_components := cs\<rparr>)"
        using at cs by (auto simp: runtime_at_def)
      ultimately show ?thesis unfolding poll_coming_def by blast
    next
      case False
      show ?thesis
      proof (cases "component_table (sim_components sim) (component ce)")
        case None
        with p Component have "cs = sim_components sim" "w' = set_scheduler_context w" by auto
        then show ?thesis using keep Component False at by (simp add: runtime_at_def)
      next
        case (Some c)
        with at False obtain o' where o': "c = OtherC o'" by (cases c) (auto simp: runtime_at_def)
        with p Component Some obtain ev o1 where o1: "other o' (component ce) ev (set_scheduler_context w) = Some (o1, w')"
          and cs: "cs = (sim_components sim)\<lparr>component_table := (component_table (sim_components sim))(component ce \<mapsto> OtherC o1)\<rparr>"
          by (cases "inner ce") (auto split: option.splits prod.splits)
        have "runtime_at k r (sim\<lparr>sim_components := cs\<rparr>)"
          using at cs False by (auto simp: runtime_at_def)
        then show ?thesis using keep Component False rt_calls_frame [OF other_calls [OF o1]] by simp
      qed
    qed
  qed
qed

text \<open>A step keeps the runtime in order.\<close>

lemma runtime_step:
  assumes ok: "sim_ok sim" and at: "runtime_at k r sim" and idle: "runtime_idle_ok k r (sched sim)"
    and st: "step exec (rt_handle fc other) sim = Some (b, sim')" and fit: "ids_fit (sched sim')"
  shows "sim_ok sim' \<and> (\<exists>r'. runtime_at k r' sim' \<and> runtime_idle_ok k r' (sched sim'))"
proof -
  have ok': "sim_ok sim'" using step_sound [OF ok st fit] by blast
  have d: "distinct (task_ids (events (sched sim)))" and so: "sched_ok (sched sim)"
    using ok by (auto simp: sim_ok_def tasks_inv_def)
  have "\<exists>r'. runtime_at k r' sim' \<and> runtime_idle_ok k r' (sched sim')"
    using st
  proof (cases rule: stepE)
    case (idle p w)
    note w = pop_None [OF idle(1) d]
    have "\<not> due k ev t (sched sim)" for ev t
      using w(1) by (auto simp: due_def live_def filter_empty_conv is_canc_def)
    then have e: "ready_queue r = []" "spawn_ids (sched sim) = []" "next_timer_deadline r = None"
      using \<open>runtime_idle_ok k r (sched sim)\<close> by (auto simp: runtime_idle_ok_def tick_ok_def)
    have "tasks_ok (ready_queue r) r w = tasks_ok (ready_queue r) r (sched sim) \<and> spawn_ids w = spawn_ids (sched sim)"
      by (rule known_cong) (simp_all add: w(2))
    then have "runtime_idle_ok k r w"
      using \<open>runtime_idle_ok k r (sched sim)\<close> e by (simp add: runtime_idle_ok_def tick_ok_def)
    then show ?thesis using at idle(3) by (auto simp: runtime_at_def)
  next
    case (event e p w cs w')
    have pe: "pop_effect (sched sim) e w" by (rule pop_effect_with_policy [OF so d event(1)])
    note pi = pop_idle [OF pe so \<open>runtime_idle_ok k r (sched sim)\<close>]
    from process_entry_runtime [OF at pi event(2)] obtain r' where
      "runtime_at k r' (sim\<lparr>sim_components := cs\<rparr>)" "rt_inv k r' w'" "ready_queue r' \<noteq> [] \<longrightarrow> poll_coming k w'"
      by blast
    then show ?thesis using event(4) end_of_step by (auto simp: runtime_at_def)
  qed
  with ok' show ?thesis by blast
qed

lemma runtime_run:
  assumes "sim_run exec (rt_handle fc other) sim es sim'" "sim_ok sim" "runtime_at k r sim"
    "runtime_idle_ok k r (sched sim)" "ids_fit (sched sim')"
  shows "\<exists>r'. runtime_at k r' sim' \<and> runtime_idle_ok k r' (sched sim')"
  using assms
proof (induction arbitrary: r rule: sim_run.induct)
  case (run_step sim e sim1 es sim2)
  have "ids_fit (sched sim1)" by (rule run_ids_fit) fact+
  from runtime_step [OF run_step.prems(1-3) run_step.hyps(2) this] run_step.IH run_step.prems(4)
  show ?case by blast
next
  case (run_idle sim sim1 es sim2)
  have "ids_fit (sched sim1)" by (rule run_ids_fit) fact+
  from runtime_step [OF run_idle.prems(1-3) run_idle.hyps(2) this] run_idle.IH run_idle.prems(4)
  show ?case by blast
qed blast

end

section \<open>Properties\<close>

text \<open>A runtime that has not processed an event yet: tasks may be spawned, no timers exist.\<close>

definition runtime_fresh :: "('f, 'p) des_runtime \<Rightarrow> ('e, 't, 'v, 'f, 'z) rt_world_scheme \<Rightarrow> bool" where
  "runtime_fresh r w \<longleftrightarrow> tasks_ok (ready_queue r) r w \<and> timers r = [] \<and> next_timer_deadline r = None"

lemma install_ok:
  assumes "install r sim0 = (k, sim)" "sim_ok sim0" "runtime_fresh r (sched sim0)"
    and "\<forall>c\<in>ran (component_table (sim_components sim0)). \<not> (\<exists>r'. c = RuntimeC r')"
  shows "sim_ok sim \<and> runtime_at k r sim \<and> runtime_idle_ok k r (sched sim)"
proof -
  obtain sim1 where a: "add_component (RuntimeC r) sim0 = (k, sim1)"
    and sim: "sim = sim1\<lparr>sched := schedule zero k (RuntimeEv Poll) (sched sim1)\<rparr>"
    using assms(1) by (auto simp: install_def split: prod.splits)
  have s1: "sched sim1 = sched sim0" "component_table (sim_components sim1) = (component_table (sim_components sim0))(k \<mapsto> RuntimeC r)"
    using a by (auto simp: add_component_def register_with_id_def Let_def)
  have "runtime_at k r sim"
    using assms(4) s1(2) by (auto simp: runtime_at_def sim ran_def)
  moreover have "sim_ok sim"
    using assms(2) sched_ok_schedule [of "sched sim0"] by (simp add: sim_ok_def sim s1 tasks_inv_schedule in_scheduler_context_def)
  moreover have "tasks_ok (ready_queue r) r (sched sim) = tasks_ok (ready_queue r) r (sched sim0) \<and> spawn_ids (sched sim) = spawn_ids (sched sim0)"
    by (rule known_cong) (simp_all add: sim s1)
  moreover have "due k Poll (time (sched sim)) (sched sim)"
    using due_schedule [of k Poll "sched sim0" zero] by (simp add: sim s1 sched_simps)
  ultimately show ?thesis
    using assms(3) by (simp add: runtime_idle_ok_def runtime_fresh_def timers_ok_def tick_ok_def first_deadline_def)
qed

text \<open>
  C3. The async runtime never stalls. In every state a simulation reaches after a runtime was
  installed, whatever futures, components and tasks do with its handles: while a task is
  ready or a spawn request is queued, a poll of the runtime is scheduled for the current
  time; and for every timer a tick is scheduled at its deadline or before, at once if the
  deadline has passed.
\<close>

theorem runtime_never_stalls:
  assumes "async_system k fc other exec"
    and "install r0 sim0 = (k, sim)" and "sim_ok sim0" and "runtime_fresh r0 (sched sim0)"
    and "\<forall>c\<in>ran (component_table (sim_components sim0)). \<not> (\<exists>r'. c = RuntimeC r')"
    and "sim_run exec (rt_handle fc other) sim es sim'" and "ids_fit (sched sim')"
  shows "\<exists>r. component_table (sim_components sim') k = Some (RuntimeC r) \<and>
    (ready_queue r \<noteq> [] \<or> spawn_ids (sched sim') \<noteq> [] \<longrightarrow> due k Poll (sim_time sim') (sched sim')) \<and>
    (\<forall>(d, ts)\<in>set (timers r). due k TimerTick (max d (sim_time sim')) (sched sim'))"
proof -
  note i = install_ok [OF assms(2-5)]
  obtain r where at: "runtime_at k r sim'" and idle: "runtime_idle_ok k r (sched sim')"
    using async_system.runtime_run [OF assms(1,6)] i assms(7) by blast
  have "due k TimerTick (max d (sim_time sim')) (sched sim')" if d: "(d, ts) \<in> set (timers r)" for d ts
  proof -
    from d obtain d0 ts0 rest where t: "timers r = (d0, ts0) # rest" by (cases "timers r") auto
    with idle have "due k TimerTick (max d0 (time (sched sim'))) (sched sim')"
      by (simp add: runtime_idle_ok_def timers_ok_def tick_ok_def first_deadline_def)
    moreover have "d0 \<le> d"
      using d t idle by (auto simp: runtime_idle_ok_def timers_ok_def)
    ultimately show ?thesis
      by (auto simp: sim_time_def intro: due_mono max.mono)
  qed
  with at idle show ?thesis
    by (auto simp: runtime_at_def runtime_idle_ok_def sim_time_def)
qed

text \<open>
  The tasks of a poll cycle: those in the table, and those of the spawn requests. The cycle starts
  when the requests have been installed and the ready queue has been emptied into the snapshot.
\<close>

definition cycle_task ::
  "('f, 'p) des_runtime \<Rightarrow> ('e, 't, 'v, 'f, 'z) rt_world_scheme \<Rightarrow> nat \<Rightarrow> 'f rt_task option"
where
  "cycle_task r w i =
     (case map_of (spawn_queue w @ spawn_queue_local w) i of
        Some f \<Rightarrow> Some \<lparr>rt_future = f, queued = True\<rparr>
      | None \<Rightarrow> rt_tasks r i)"

definition cycle_start ::
  "'p \<Rightarrow> ('f, 'p) des_runtime \<Rightarrow> ('e, 't, 'v, 'f, 'z) rt_world_scheme
    \<Rightarrow> ('f, 'p) des_runtime \<times> ('e, 't, 'v, 'f, 'z) rt_world_scheme"
where
  "cycle_start p r w =
     ((install_requests (spawn_queue_local w) (install_requests (spawn_queue w) r))
        \<lparr>ready_queue := [], ready_policy_state := p\<rparr>, w\<lparr>spawn_queue := [], spawn_queue_local := []\<rparr>)"

lemma install_requests_lookup:
  "distinct (map fst q) \<Longrightarrow> rt_tasks (install_requests q r) i =
     (case map_of q i of Some f \<Rightarrow> Some \<lparr>rt_future = f, queued = True\<rparr> | None \<Rightarrow> rt_tasks r i)"
proof (induction q r rule: install_requests.induct)
  case (2 j f q r)
  then have "map_of q j = None" by (simp add: map_of_eq_None_iff)
  with 2 show ?case by (simp split: option.splits)
qed simp

lemma cycle_start_fields:
  assumes "spawn_ok w"
  shows "rt_tasks (fst (cycle_start p r w)) i = cycle_task r w i"
    "runtime_key (fst (cycle_start p r w)) = runtime_key r"
proof -
  have d: "distinct (map fst (spawn_queue w))" "distinct (map fst (spawn_queue_local w))"
    "set (map fst (spawn_queue w)) \<inter> set (map fst (spawn_queue_local w)) = {}"
    using assms by (auto simp: spawn_ok_def spawn_ids_def)
  have "map_of (spawn_queue_local w) i = None" if "map_of (spawn_queue w) i = Some f" for f
  proof -
    have "i \<in> set (map fst (spawn_queue w))" using map_of_SomeD [OF that] by force
    with d(3) show ?thesis by (auto simp: map_of_eq_None_iff)
  qed
  then show "rt_tasks (fst (cycle_start p r w)) i = cycle_task r w i"
    by (auto simp: cycle_start_def cycle_task_def install_requests_lookup [OF d(1)] install_requests_lookup [OF d(2)]
        map_add_def split: option.splits)
qed (simp add: cycle_start_def install_requests_fields)

lemma poll_fold_others:
  "runtime_key (fst (fold (poll_one fc) ts rw)) = runtime_key (fst rw)"
  "i \<notin> set ts \<Longrightarrow> rt_tasks (fst (fold (poll_one fc) ts rw)) i = rt_tasks (fst rw) i"
proof (induction ts arbitrary: rw)
  case (Cons t ts)
  {
    case 1
    show ?case using Cons.IH(1) poll_one_tasks(4) [of fc t "fst rw" "snd rw"] by simp
  next
    case 2
    then show ?case using Cons.IH(2) poll_one_tasks(5) [of i t fc "fst rw" "snd rw"] by simp
  }
qed simp_all

text \<open>What one poll does to the task that is polled, and to the world.\<close>

lemma poll_one_effect:
  assumes "runtime_key r = Some key" "rt_tasks r i = Some task"
    and "poll_future fc (create_des_waker key (Wake i)) (rt_future task) (set_poll_context key i w) = (result, f, w1)"
    and "poll_one fc i (r, w) = (r', w')"
  shows "rt_tasks r' i = (if result = Ready () then None else Some \<lparr>rt_future = f, queued = False\<rparr>)"
    "w' = (if result = Ready () then drop_future fc f (clear_poll_context w1) else clear_poll_context w1)"
  using assms by (auto simp: poll_one_def poll_task_def remove_task_def Let_def split: if_splits)

text \<open>
  C24. A poll cycle polls every task that was ready or newly spawned exactly once, in the order
  that the ready-task policy determines, with the clock standing still. The cycle is the sequence
  of these polls, from the state where the spawned tasks are installed. When the turn of a task
  comes its future is still the one it had when the cycle began (or was spawned with), and
  exactly one poll of this future decides what becomes of it: a task that completes is
  removed and its future dropped, any other is kept, with the future the poll left and not queued.
  Afterwards no task is ready, so a task that was woken meanwhile waits for its own event.
\<close>

theorem poll_cycle_complete:
  assumes "async_futures k fc" and "tasks_ok (ready_queue r) r w" and "poll_ready_tasks fc r w = (r', w')"
    and "runtime_key r = Some key"
    and "poll_order (ready_task_policy r) (ready_policy_state r) (time w) (ready_queue r @ spawn_ids w) = (order, p)"
  shows "mset order = mset (ready_queue r @ spawn_ids w) \<and> distinct order \<and>
    (r', w') = fold (poll_one fc) order (cycle_start p r w) \<and> time w' = time w \<and>
    ready_queue r' = [] \<and> (\<forall>i task. rt_tasks r' i = Some task \<longrightarrow> \<not> queued task) \<and>
    (\<forall>pre i post task result f w1. order = pre @ i # post \<and> cycle_task r w i = Some task \<and>
       poll_future fc (create_des_waker key (Wake i)) (rt_future task)
         (set_poll_context key i (snd (fold (poll_one fc) pre (cycle_start p r w)))) = (result, f, w1) \<longrightarrow>
       rt_tasks r' i = (if result = Ready () then None else Some \<lparr>rt_future = f, queued = False\<rparr>) \<and>
       snd (fold (poll_one fc) (pre @ [i]) (cycle_start p r w)) =
         (if result = Ready () then drop_future fc f (clear_poll_context w1) else clear_poll_context w1))"
proof -
  note c = async_futures.poll_ready_tasks_cycle [OF assms(1-3)]
  have spawn: "spawn_ok w" and "distinct (ready_queue r @ spawn_ids w)"
    using assms(2) by (auto simp: tasks_ok_def known_def spawn_ok_def)
  have run: "(r', w') = fold (poll_one fc) order (cycle_start p r w)"
    using assms(3,5) by (simp add: poll_ready_tasks_def async_futures.poll_loop_order [OF assms(1)] cycle_start_def
        spawn_ids_def install_requests_fields time_eq)
  have perm: "mset order = mset (ready_queue r @ spawn_ids w)"
    using poll_order_perm [of "ready_task_policy r"] assms(5) by (metis fst_conv)
  with \<open>distinct (ready_queue r @ spawn_ids w)\<close> have d: "distinct order"
    using mset_eq_imp_distinct_iff by blast
  have "rt_tasks r' i = (if result = Ready () then None else Some \<lparr>rt_future = f, queued = False\<rparr>) \<and>
       snd (fold (poll_one fc) (pre @ [i]) (cycle_start p r w)) =
         (if result = Ready () then drop_future fc f (clear_poll_context w1) else clear_poll_context w1)"
    if o: "order = pre @ i # post" and task: "cycle_task r w i = Some task"
      and poll: "poll_future fc (create_des_waker key (Wake i)) (rt_future task)
        (set_poll_context key i (snd (fold (poll_one fc) pre (cycle_start p r w)))) = (result, f, w1)"
    for pre i post task result f w1
  proof -
    obtain r1 v1 where pre: "fold (poll_one fc) pre (cycle_start p r w) = (r1, v1)" by fastforce
    obtain r2 v2 where one: "poll_one fc i (r1, v1) = (r2, v2)" by fastforce
    have "i \<notin> set pre" "i \<notin> set post" using d o by auto
    then have "rt_tasks r1 i = Some task" "runtime_key r1 = Some key"
      using poll_fold_others [where fc = fc and ts = pre and rw = "cycle_start p r w"] pre task assms(4)
        cycle_start_fields [OF spawn, of p r] by auto
    from poll_one_effect [OF this(2,1) _ one] poll pre
    have "rt_tasks r2 i = (if result = Ready () then None else Some \<lparr>rt_future = f, queued = False\<rparr>)"
      "v2 = (if result = Ready () then drop_future fc f (clear_poll_context w1) else clear_poll_context w1)"
      by simp_all
    moreover have "rt_tasks r' i = rt_tasks r2 i"
      using run o pre one poll_fold_others(2) [OF \<open>i \<notin> set post\<close>, where fc = fc and rw = "(r2, v2)"]
      by simp (metis fst_conv)
    ultimately show ?thesis by (simp add: pre one)
  qed
  then have turn: "\<forall>pre i post task result f w1. order = pre @ i # post \<and> cycle_task r w i = Some task \<and>
       poll_future fc (create_des_waker key (Wake i)) (rt_future task)
         (set_poll_context key i (snd (fold (poll_one fc) pre (cycle_start p r w)))) = (result, f, w1) \<longrightarrow>
       rt_tasks r' i = (if result = Ready () then None else Some \<lparr>rt_future = f, queued = False\<rparr>) \<and>
       snd (fold (poll_one fc) (pre @ [i]) (cycle_start p r w)) =
         (if result = Ready () then drop_future fc f (clear_poll_context w1) else clear_poll_context w1)"
    by blast
  have "time w' = time w" "\<forall>i task. rt_tasks r' i = Some task \<longrightarrow> \<not> queued task"
    using c(2,7) by (simp_all add: call_frame_def time_eq tasks_ok_def)
  with perm d run c(3) turn show ?thesis by blast
qed

text \<open>
  The FIFO policy is not first in, first out: it always picks index 0, and since the chosen
  task is taken out with \<open>swap_remove\<close>, a poll cycle polls all ready tasks but the first in
  the reverse of the order in which they became ready.
\<close>

theorem fifo_policy_reverses:
  assumes "async_futures k fc" and "ready_task_policy r = fifo_ready_choose"
    and "ready_queue r = x # xs" and "spawn_queue w = []" and "spawn_queue_local w = []"
  shows "poll_ready_tasks fc r w = fold (poll_one fc) (x # rev xs) (r\<lparr>ready_queue := []\<rparr>, w)"
proof -
  have w: "w\<lparr>spawn_queue := [], spawn_queue_local := []\<rparr> = w" using assms(4,5) by (cases w) simp
  have "poll_ready_tasks fc r w =
      fold (poll_one fc) (x # rev xs) (r\<lparr>ready_queue := []\<rparr>, w\<lparr>spawn_queue := [], spawn_queue_local := []\<rparr>)"
    using assms by (simp add: poll_ready_tasks_def async_futures.poll_loop_order poll_order_fifo del: fold.simps)
  then show ?thesis unfolding w .
qed

text \<open>
  Cancelling one timer cancels its siblings: when a task has two sleeps with the same
  deadline, the event that dropping one of them sends removes both registrations. The other
  sleep considers its timer scheduled, so polling it does not register it again, and the task
  is left without a timer.
\<close>

theorem cancel_timer_drops_siblings:
  assumes "rt_tasks r t \<noteq> None" and "timers r = []" and "current_time w = Some now" and "now < d"
  shows "\<exists>r1 w1 r2 w2 r3 w3. register_timer t d k r w = (r1, w1) \<and> register_timer t d k r1 w1 = (r2, w2) \<and>
    timers r2 = [(d, [t, t])] \<and> cancel_timer t d k r2 w2 = (r3, w3) \<and> timers r3 = [] \<and>
    sleep_poll \<lparr>target_time = Some d, sl_duration = 0, timer_scheduled = True\<rparr> w =
      (Pending, \<lparr>target_time = Some d, sl_duration = 0, timer_scheduled = True\<rparr>, w)"
proof -
  obtain r1 w1 where 1: "register_timer t d k r w = (r1, w1)" by fastforce
  then have r1: "timers r1 = [(d, [t])]" "rt_tasks r1 t \<noteq> None"
    using assms by (auto simp: register_timer_def schedule_next_timer_tick_def Let_def split: if_splits option.splits)
  obtain r2 w2 where 2: "register_timer t d k r1 w1 = (r2, w2)" by fastforce
  then have r2: "timers r2 = [(d, [t, t])]"
    using r1 by (auto simp: register_timer_def schedule_next_timer_tick_def Let_def split: if_splits option.splits)
  obtain r3 w3 where 3: "cancel_timer t d k r2 w2 = (r3, w3)" by fastforce
  then have "timers r3 = []"
    using r2 by (auto simp: cancel_timer_def timers_retain_def schedule_next_timer_tick_def Let_def
        split: if_splits option.splits)
  moreover have "sleep_poll \<lparr>target_time = Some d, sl_duration = 0, timer_scheduled = True\<rparr> w =
      (Pending, \<lparr>target_time = Some d, sl_duration = 0, timer_scheduled = True\<rparr>, w)"
    using assms(3,4) by (simp add: sleep_poll_def Let_def)
  ultimately show ?thesis using 1 2 3 r2 by blast
qed

section \<open>Sleeping tasks\<close>

text \<open>
  The futures of the module's documentation: an async block that awaits a sequence of sleeps.
\<close>

fun sleeps_poll ::
  "des_waker \<Rightarrow> sim_sleep list \<Rightarrow> ('e, 't, 'v, 'f, 'z) rt_world_scheme
    \<Rightarrow> unit poll \<times> sim_sleep list \<times> ('e, 't, 'v, 'f, 'z) rt_world_scheme"
where
  "sleeps_poll wk [] w = (Ready (), [], w)"
| "sleeps_poll wk (sl # sls) w =
     (case sleep_poll sl w of
        (Ready _, sl, w) \<Rightarrow> sleeps_poll wk sls (sleep_drop sl w)
      | (Pending, sl, w) \<Rightarrow> (Pending, sl # sls, w))"

fun sleeps_drop ::
  "sim_sleep list \<Rightarrow> ('e, 't, 'v, 'f, 'z) rt_world_scheme \<Rightarrow> ('e, 't, 'v, 'f, 'z) rt_world_scheme"
where
  "sleeps_drop [] w = w"
| "sleeps_drop (sl # sls) w = sleep_drop sl w"

definition sleeps_code :: "(sim_sleep list, ('e, 't, 'v, sim_sleep list, 'z) rt_world_scheme) future_code" where
  "sleeps_code = \<lparr>poll_future = sleeps_poll, drop_future = sleeps_drop\<rparr>"

definition no_component ::
  "unit \<Rightarrow> uuid \<Rightarrow> unit \<Rightarrow> ('e, 't, 'v, 'f, 'z) rt_world_scheme
    \<Rightarrow> (unit \<times> ('e, 't, 'v, 'f, 'z) rt_world_scheme) option"
where
  "no_component c k ev w = Some (c, w)"

definition no_task :: "unit \<Rightarrow> 'w \<Rightarrow> unit any \<times> 'w" where
  "no_task t w = (AnyUnit, w)"

lemma sleeps_poll_calls: "rt_calls k w (snd (snd (sleeps_poll wk sls w)))"
proof (induction wk sls w rule: sleeps_poll.induct)
  case (2 wk sl sls w)
  obtain res sl' w' where p: "sleep_poll sl w = (res, sl', w')" using prod_cases3 by blast
  have 1: "rt_calls k w w'" using rt_calls_sleep(1) [of k w sl] p by simp
  show ?case
  proof (cases res)
    case (Ready u)
    with "2.IH" [OF p [symmetric] Ready refl] p
    have "rt_calls k (sleep_drop sl' w') (snd (snd (sleeps_poll wk (sl # sls) w)))" by simp
    then show ?thesis by (meson 1 rt_calls_sleep(2) rtranclp_trans)
  qed (use p 1 in simp)
qed simp

interpretation sleepers: async_system k sleeps_code no_component no_task for k
proof (unfold_locales, goal_cases)
  case (1 w wk f)
  show ?case by (simp add: sleeps_code_def sleeps_poll_calls)
next
  case (2 w f)
  show ?case using rt_calls_sleep(2) by (cases f) (auto simp: sleeps_code_def)
next
  case (3 c key ev w c' w')
  then show ?case by (simp add: no_component_def)
next
  case (4 w t)
  show ?case by (auto simp: no_task_def)
qed

section \<open>Instances\<close>

text \<open>A simulation whose runtime has one task, which sleeps for 5 nanoseconds.\<close>

type_synonym sleep_sim = "(unit sim_event, unit, unit, (sim_sleep list, unit) rt_world_ext, unit,
  (sim_sleep list, unit, unit) rt_component) simulation"

definition base_sim :: sleep_sim where
  "base_sim = simulation_new 42 (rt_world.fields 1 [] [] None None
     \<lparr>diag_task_count = 0, diag_timer_count = 0, diag_timer_registration = 0, diag_ready_queue_len = 0,
      diag_events_processed = 0\<rparr>)"

definition one_sleeper :: "(sim_sleep list, unit) des_runtime" where
  "one_sleeper = des_runtime_new\<lparr>rt_tasks := [0 \<mapsto> \<lparr>rt_future = [sim_sleep_new 5], queued = True\<rparr>], ready_queue := [0]\<rparr>"

abbreviation sleep_key :: uuid where
  "sleep_key \<equiv> deterministic_uuid 42 UUID_DOMAIN_COMPONENT 1"

lemmas base_sim_eval = base_sim_def simulation_new_def rt_world.defs world.defs scheduler.defs with_seed_def
  components_default_def

lemma base_sim_ok: "sim_ok base_sim" "runtime_fresh one_sleeper (sched base_sim)"
  "\<forall>c\<in>ran (component_table (sim_components base_sim)). \<not> (\<exists>r'. c = RuntimeC r')"
proof -
  show "sim_ok base_sim"
    by (simp add: base_sim_eval sim_ok_def sched_ok_def tasks_inv_def in_scheduler_context_def)
  show "runtime_fresh one_sleeper (sched base_sim)"
    by (simp add: base_sim_eval runtime_fresh_def one_sleeper_def des_runtime_new_def tasks_ok_def
        known_def spawn_ok_def spawn_ids_def)
  show "\<forall>c\<in>ran (component_table (sim_components base_sim)). \<not> (\<exists>r'. c = RuntimeC r')"
    by (simp add: base_sim_eval)
qed

definition started_sim :: sleep_sim where
  "started_sim = snd (install one_sleeper base_sim)"

lemma install_started: "install one_sleeper base_sim = (sleep_key, started_sim)"
  unfolding started_sim_def
  by (simp add: install_def add_component_def register_with_id_def base_sim_eval Let_def)

lemmas rt_eval = rt_process_event_def poll_ready_tasks_def poll_loop.simps poll_task_def remove_task_def sleeps_code_def
  sleep_poll_def sim_sleep_new_def register_timer_at_def set_poll_context_def clear_poll_context_def
  create_des_waker_def fifo_ready_choose_def current_time_def from_duration_def try_from_nat_def
  register_timer_def schedule_next_timer_tick_def first_deadline_def duration_since_def
  update_diag_def task_count_def timer_count_def total_timer_registrations_def saturating_sub_def
  handle_timer_tick_def wake_task_def sleep_drop_def as_duration_def

lemmas started_eval = started_sim_def install_def add_component_def register_with_id_def base_sim_eval
  Let_def one_sleeper_def des_runtime_new_def zero_def sched_eval step_eval rt_eval simtime_order

abbreviation sleep_step :: "sleep_sim \<Rightarrow> (bool \<times> sleep_sim) option" where
  "sleep_step \<equiv> step no_task (rt_handle sleeps_code no_component)"

text \<open>After two steps the timer is registered; after the third the task has completed, at time 5.\<close>

lemma sleep_two_steps:
  "\<exists>e1 sim1 e2 sim2. next_entry started_sim = Some e1 \<and> sleep_step started_sim = Some (True, sim1) \<and>
     next_entry sim1 = Some e2 \<and> sleep_step sim1 = Some (True, sim2) \<and>
     ids_fit (sched sim2) \<and> sim_time sim2 = SimTime 0 \<and>
     (\<exists>r. component_table (sim_components sim2) sleep_key = Some (RuntimeC r) \<and> timers r = [(SimTime 5, [0])])"
  by (simp add: started_eval ids_fit_def sim_time_def)

lemma sleeper_completes:
  "\<exists>sim1 sim2 sim3. sleep_step started_sim = Some (True, sim1) \<and>
     sleep_step sim1 = Some (True, sim2) \<and> sleep_step sim2 = Some (True, sim3) \<and>
     sim_time sim3 = SimTime 5 \<and>
     (\<exists>r. component_table (sim_components sim3) sleep_key = Some (RuntimeC r) \<and> rt_tasks r = Map.empty)"
  by (simp add: started_eval ids_fit_def sim_time_def)

theorem runtime_never_stalls_witness:
  "\<exists>es sim'. sim_run no_task (rt_handle sleeps_code no_component) started_sim es sim' \<and>
     due sleep_key TimerTick (SimTime 5) (sched sim')"
proof -
  obtain e1 sim1 e2 sim2 r where st: "next_entry started_sim = Some e1" "sleep_step started_sim = Some (True, sim1)"
    "next_entry sim1 = Some e2" "sleep_step sim1 = Some (True, sim2)" "ids_fit (sched sim2)" "sim_time sim2 = SimTime 0"
    and r: "component_table (sim_components sim2) sleep_key = Some (RuntimeC r)" "timers r = [(SimTime 5, [0])]"
    using sleep_two_steps by blast
  have run: "sim_run no_task (rt_handle sleeps_code no_component) started_sim [e1, e2] sim2"
    by (rule run_step [OF st(1,2) run_step [OF st(3,4) run_nil]])
  from runtime_never_stalls [OF sleepers.async_system_axioms install_started base_sim_ok run st(5)] r st(6)
  have "due sleep_key TimerTick (max (SimTime 5) (SimTime 0)) (sched sim2)" by auto
  then have "due sleep_key TimerTick (SimTime 5) (sched sim2)" by (simp add: max_def simtime_order)
  with run show ?thesis by blast
qed

theorem poll_cycle_complete_witness:
  "\<exists>r' w'. poll_ready_tasks sleeps_code (one_sleeper\<lparr>runtime_key := Some sleep_key\<rparr>)
     (set_scheduler_context (sched base_sim)) = (r', w') \<and>
     ready_queue r' = [] \<and>
     rt_tasks r' 0 = Some \<lparr>rt_future = [\<lparr>target_time = Some (SimTime 5), sl_duration = 5, timer_scheduled = True\<rparr>], queued = False\<rparr>"
proof -
  let ?r = "one_sleeper\<lparr>runtime_key := Some sleep_key\<rparr>" and ?w = "set_scheduler_context (sched base_sim)"
  let ?sl = "\<lparr>target_time = Some (SimTime 5), sl_duration = 5, timer_scheduled = True\<rparr>"
  obtain r' w' where p: "poll_ready_tasks sleeps_code ?r ?w = (r', w')" by fastforce
  have ok: "tasks_ok (ready_queue ?r) ?r ?w"
    by (simp add: base_sim_eval one_sleeper_def des_runtime_new_def tasks_ok_def known_def spawn_ok_def
        spawn_ids_def set_scheduler_context_def)
  have order: "poll_order (ready_task_policy ?r) (ready_policy_state ?r) (time ?w) (ready_queue ?r @ spawn_ids ?w) = ([0], ())"
    by (simp add: one_sleeper_def des_runtime_new_def base_sim_eval spawn_ids_def set_scheduler_context_def poll_order_fifo)
  have task: "cycle_task ?r ?w 0 = Some \<lparr>rt_future = [sim_sleep_new 5], queued = True\<rparr>"
    by (simp add: cycle_task_def one_sleeper_def base_sim_eval set_scheduler_context_def)
  have start: "snd (fold (poll_one sleeps_code) [] (cycle_start () ?r ?w)) = ?w"
    by (simp add: cycle_start_def base_sim_eval set_scheduler_context_def)
  have "\<exists>w1. poll_future sleeps_code (create_des_waker sleep_key (Wake 0)) [sim_sleep_new 5]
      (set_poll_context sleep_key 0 ?w) = (Pending, [?sl], w1)"
    by (simp add: rt_eval base_sim_eval set_scheduler_context_def zero_def add_simtime_def simtime_order time_eq saturating_add_def Let_def)
  then obtain w1 where poll: "poll_future sleeps_code (create_des_waker sleep_key (Wake 0)) [sim_sleep_new 5]
      (set_poll_context sleep_key 0 ?w) = (Pending, [?sl], w1)" by blast
  have "runtime_key ?r = Some sleep_key" by simp
  note c = poll_cycle_complete [OF sleepers.async_futures_axioms ok p this order]
  have "rt_tasks r' 0 = Some \<lparr>rt_future = [?sl], queued = False\<rparr>"
    using c [THEN conjunct2, THEN conjunct2, THEN conjunct2, THEN conjunct2, THEN conjunct2, THEN conjunct2,
        rule_format, of "[]" 0 "[]" "\<lparr>rt_future = [sim_sleep_new 5], queued = True\<rparr>" Pending "[?sl]" w1]
      task poll start by simp
  moreover have "ready_queue r' = []" using c by (elim conjE)
  ultimately show ?thesis using p by blast
qed

definition three_sleepers :: "(sim_sleep list, unit) des_runtime" where
  "three_sleepers = des_runtime_new\<lparr>rt_tasks := (\<lambda>i. if i < 3 then Some \<lparr>rt_future = [sim_sleep_new 5], queued = True\<rparr> else None),
     ready_queue := [0, 1, 2]\<rparr>"

theorem fifo_policy_reverses_witness:
  "poll_ready_tasks sleeps_code three_sleepers (sched base_sim) =
     fold (poll_one sleeps_code) [0, 2, 1] (three_sleepers\<lparr>ready_queue := []\<rparr>, sched base_sim)"
proof -
  have "ready_task_policy three_sleepers = fifo_ready_choose" "ready_queue three_sleepers = 0 # [1, 2]"
    "spawn_queue (sched base_sim) = []" "spawn_queue_local (sched base_sim) = []"
    by (simp_all add: three_sleepers_def des_runtime_new_def base_sim_eval)
  from fifo_policy_reverses [OF sleepers.async_futures_axioms this] show ?thesis by (simp del: fold.simps)
qed

theorem cancel_timer_drops_siblings_witness:
  "\<exists>r1 w1 r2 w2 r3 w3. register_timer 0 (SimTime 5) sleep_key one_sleeper (set_scheduler_context (sched base_sim)) = (r1, w1) \<and>
     register_timer 0 (SimTime 5) sleep_key r1 w1 = (r2, w2) \<and> cancel_timer 0 (SimTime 5) sleep_key r2 w2 = (r3, w3) \<and>
     timers r2 = [(SimTime 5, [0, 0])] \<and> timers r3 = []"
proof -
  have "rt_tasks one_sleeper 0 \<noteq> None" "timers one_sleeper = []"
    "current_time (set_scheduler_context (sched base_sim)) = Some zero" "zero < SimTime 5"
    by (simp_all add: one_sleeper_def des_runtime_new_def base_sim_eval current_time_def set_scheduler_context_def
        time_eq zero_def simtime_order)
  from cancel_timer_drops_siblings [OF this, of sleep_key] show ?thesis by blast
qed

text \<open>A sleep completes exactly when its target time is reached, not earlier.\<close>

lemma sleep_poll_target:
  assumes "current_time w = Some now"
  shows "fst (sleep_poll sl w) = Ready () \<longleftrightarrow>
    (case target_time sl of Some t \<Rightarrow> t \<le> now | None \<Rightarrow> add_simtime now (from_duration (sl_duration sl)) \<le> now)"
  using assms by (auto simp: sleep_poll_def Let_def split: option.splits)

end
