(* ===== verification/Executor.thy ===== *)
theory Executor
  imports Simulation
begin

text \<open>
  \<open>des-core/src/execute.rs\<close>: running a simulation until a condition holds. The side effect
  of an executor is a function that updates an accumulator after each successful step. The
  loops that end only when the queue allows it are partial functions: \<open>None\<close> stands for a
  run that panics or never ends. Progress logging is left out.
\<close>

datatype end_condition = EndTime simtime | NoEvents | Steps nat

definition unbound :: end_condition where
  "unbound = NoEvents"

definition timed :: "simtime \<Rightarrow> end_condition" where
  "timed t = EndTime t"

definition steps :: "nat \<Rightarrow> end_condition" where
  "steps n = Steps n"

type_synonym ('ev, 't, 'v, 'z, 'p, 'c, 'a) run_state = "('ev, 't, 'v, 'z, 'p, 'c) simulation \<times> 'a"

text \<open>The closure \<open>step_fn\<close> of \<open>run_with\<close>.\<close>

definition step_fn ::
  "('ev, 't, 'v, 'z) task_exec \<Rightarrow> ('c, 'ev, 't, 'v, 'z) handler
    \<Rightarrow> (('ev, 't, 'v, 'z, 'p, 'c) simulation \<Rightarrow> 'a \<Rightarrow> 'a) \<Rightarrow> ('ev, 't, 'v, 'z, 'p, 'c, 'a) run_state
    \<Rightarrow> (bool \<times> ('ev, 't, 'v, 'z, 'p, 'c, 'a) run_state) option"
where
  "step_fn exec handle side_effect = (\<lambda>(sim, a).
     case step exec handle sim of
       None \<Rightarrow> None
     | Some (r, sim') \<Rightarrow> Some (r, sim', if r then side_effect sim' a else a))"

partial_function (option) execute_until_empty ::
  "('ev, 't, 'v, 'z) task_exec \<Rightarrow> ('c, 'ev, 't, 'v, 'z) handler
    \<Rightarrow> (('ev, 't, 'v, 'z, 'p, 'c) simulation \<Rightarrow> 'a \<Rightarrow> 'a) \<Rightarrow> ('ev, 't, 'v, 'z, 'p, 'c, 'a) run_state
    \<Rightarrow> ('ev, 't, 'v, 'z, 'p, 'c, 'a) run_state option"
where
  "execute_until_empty exec handle side_effect x =
     Option.bind (step_fn exec handle side_effect x)
       (\<lambda>(r, x'). if r then execute_until_empty exec handle side_effect x' else Some x')"

definition next_due :: "simtime \<Rightarrow> ('ev, 't, 'v, 'z, 'p, 'c) simulation \<Rightarrow> bool" where
  "next_due limit sim = (case peek_next_event_time sim of Some t \<Rightarrow> t \<le> limit | None \<Rightarrow> False)"

partial_function (option) execute_until ::
  "('ev, 't, 'v, 'z) task_exec \<Rightarrow> ('c, 'ev, 't, 'v, 'z) handler
    \<Rightarrow> (('ev, 't, 'v, 'z, 'p, 'c) simulation \<Rightarrow> 'a \<Rightarrow> 'a) \<Rightarrow> simtime
    \<Rightarrow> ('ev, 't, 'v, 'z, 'p, 'c, 'a) run_state \<Rightarrow> ('ev, 't, 'v, 'z, 'p, 'c, 'a) run_state option"
where
  "execute_until exec handle side_effect limit x =
     (if next_due limit (fst x)
      then Option.bind (step_fn exec handle side_effect x)
             (\<lambda>(r, x'). execute_until exec handle side_effect limit x')
      else Some x)"

primrec execute_steps ::
  "('ev, 't, 'v, 'z) task_exec \<Rightarrow> ('c, 'ev, 't, 'v, 'z) handler
    \<Rightarrow> (('ev, 't, 'v, 'z, 'p, 'c) simulation \<Rightarrow> 'a \<Rightarrow> 'a) \<Rightarrow> nat
    \<Rightarrow> ('ev, 't, 'v, 'z, 'p, 'c, 'a) run_state \<Rightarrow> ('ev, 't, 'v, 'z, 'p, 'c, 'a) run_state option"
where
  "execute_steps exec handle side_effect 0 x = Some x"
| "execute_steps exec handle side_effect (Suc n) x =
     Option.bind (step_fn exec handle side_effect x)
       (\<lambda>(r, x'). if r then execute_steps exec handle side_effect n x' else Some x')"

fun run_with ::
  "('ev, 't, 'v, 'z) task_exec \<Rightarrow> ('c, 'ev, 't, 'v, 'z) handler
    \<Rightarrow> (('ev, 't, 'v, 'z, 'p, 'c) simulation \<Rightarrow> 'a \<Rightarrow> 'a) \<Rightarrow> end_condition
    \<Rightarrow> ('ev, 't, 'v, 'z, 'p, 'c, 'a) run_state \<Rightarrow> ('ev, 't, 'v, 'z, 'p, 'c, 'a) run_state option"
where
  "run_with exec handle side_effect (EndTime t) x = execute_until exec handle side_effect t x"
| "run_with exec handle side_effect NoEvents x = execute_until_empty exec handle side_effect x"
| "run_with exec handle side_effect (Steps n) x = execute_steps exec handle side_effect n x"

text \<open>\<open>Executor::execute\<close>: no side effect.\<close>

definition execute ::
  "('ev, 't, 'v, 'z) task_exec \<Rightarrow> ('c, 'ev, 't, 'v, 'z) handler \<Rightarrow> end_condition
    \<Rightarrow> ('ev, 't, 'v, 'z, 'p, 'c) simulation \<Rightarrow> ('ev, 't, 'v, 'z, 'p, 'c) simulation option"
where
  "execute exec handle e sim = map_option fst (run_with exec handle (\<lambda>_ a. a) e (sim, ()))"

section \<open>Results of the loops\<close>

lemma step_fnE:
  assumes "step_fn exec handle eff (sim, a) = Some (r, sim', a')"
  obtains "step exec handle sim = Some (r, sim')" "a' = (if r then eff sim' a else a)"
  using assms by (auto simp: step_fn_def split: option.splits)

lemma execute_until_empty_induct [consumes 1, case_names idle step]:
  assumes "execute_until_empty exec handle eff x = Some y"
    and idle: "\<And>x x'. step_fn exec handle eff x = Some (False, x') \<Longrightarrow> P x x'"
    and step: "\<And>x x' y. step_fn exec handle eff x = Some (True, x') \<Longrightarrow> P x' y \<Longrightarrow> P x y"
  shows "P x y"
proof -
  let ?P = "\<lambda>ex h f x y. ex = exec \<longrightarrow> h = handle \<longrightarrow> f = eff \<longrightarrow> P x y"
  have "?P exec handle eff x y"
  proof (rule execute_until_empty.raw_induct [of ?P "(((exec, handle), eff), x)" y, unfolded prod.case],
      goal_cases)
    case (1 f ex h ef x y)
    show ?case
    proof (intro impI)
      assume eq: "ex = exec" "h = handle" "ef = eff"
      from 1(2) [unfolded eq] obtain r x' where st: "step_fn exec handle eff x = Some (r, x')"
        and "(if r then f exec handle eff x' else Some x') = Some y"
        by (auto simp: Option.bind_eq_Some_conv)
      then show "P x y"
        using 1(1) [of exec handle eff x' y] idle [of x x'] step [of x x' y] by (cases r) auto
    qed
  qed (use assms(1) in simp)
  then show ?thesis by simp
qed

lemma execute_until_induct [consumes 1, case_names idle step]:
  assumes "execute_until exec handle eff limit x = Some y"
    and idle: "\<And>x. \<not> next_due limit (fst x) \<Longrightarrow> P x x"
    and step: "\<And>x r x' y. next_due limit (fst x) \<Longrightarrow> step_fn exec handle eff x = Some (r, x') \<Longrightarrow>
      P x' y \<Longrightarrow> P x y"
  shows "P x y"
proof -
  let ?P = "\<lambda>ex h f l x y. ex = exec \<longrightarrow> h = handle \<longrightarrow> f = eff \<longrightarrow> l = limit \<longrightarrow> P x y"
  have "?P exec handle eff limit x y"
  proof (rule execute_until.raw_induct [of ?P "((((exec, handle), eff), limit), x)" y, unfolded prod.case],
      goal_cases)
    case (1 f ex h ef l x y)
    show ?case
    proof (intro impI)
      assume [simp]: "ex = exec" "h = handle" "ef = eff" "l = limit"
      show "P x y"
      proof (cases "next_due limit (fst x)")
        case True
        with 1(2) obtain r x' where st: "step_fn exec handle eff x = Some (r, x')"
          and "f exec handle eff limit x' = Some y"
          by (auto simp: Option.bind_eq_Some_conv)
        then show ?thesis
          using 1(1) [of exec handle eff limit x' y] step [OF True st] by blast
      qed (use 1(2) idle in auto)
    qed
  qed (use assms(1) in simp)
  then show ?thesis by simp
qed

lemma next_due_iff:
  assumes "sched_ok (sched sim)"
  shows "next_due limit sim \<longleftrightarrow> (\<exists>x\<in>set (events (sched sim)). entry_time x \<le> limit)"
proof (cases "events (sched sim)")
  case (Cons e es)
  then have "\<forall>x\<in>set es. entry_time e \<le> entry_time x"
    using assms by (auto simp: sched_ok_def dest: event_key_le_time)
  with Cons show ?thesis
    by (auto simp: next_due_def peek_next_event_time_def peek_def intro: order_trans)
qed (simp add: next_due_def peek_next_event_time_def peek_def)

text \<open>
  What any of the loops does: a run of steps, where the side effect has seen one state per
  processed entry, each at the time of that entry.
\<close>

definition loop_result ::
  "('ev, 't, 'v, 'z) task_exec \<Rightarrow> ('c, 'ev, 't, 'v, 'z) handler
    \<Rightarrow> (('ev, 't, 'v, 'z, 'p, 'c) simulation \<Rightarrow> 'a \<Rightarrow> 'a) \<Rightarrow> ('ev, 't, 'v, 'z, 'p, 'c, 'a) run_state
    \<Rightarrow> nat \<Rightarrow> ('ev, 't, 'v, 'z, 'p, 'c, 'a) run_state \<Rightarrow> bool"
where
  "loop_result exec handle eff = (\<lambda>(sim, a) n (sim', a').
     next_task_id (sched sim) \<le> next_task_id (sched sim') \<and>
     (sim_ok sim \<longrightarrow> ids_fit (sched sim') \<longrightarrow> sim_ok sim' \<and>
       (\<exists>es ss. sim_run exec handle sim es sim' \<and> length es = n \<and> a' = fold eff ss a \<and>
          map sim_time ss = map entry_time es)))"

lemma loop_result_refl: "loop_result exec handle eff x 0 x"
  by (auto simp: loop_result_def split: prod.splits intro: run_nil)

context simulation_code
begin

lemma step_next_entry:
  assumes "step exec handle sim = Some (r, sim')"
  shows "r = (next_entry sim \<noteq> None)"
  using assms by (cases rule: stepE) (auto simp: next_entry_def)

lemma loop_result_step:
  assumes sf: "step_fn exec handle eff x = Some (r, x')" and lr: "loop_result exec handle eff x' n y"
  shows "loop_result exec handle eff x (if r then Suc n else n) y"
    "sim_ok (fst x) \<Longrightarrow> ids_fit (sched (fst y)) \<Longrightarrow> sim_ok (fst x') \<and> ids_fit (sched (fst x'))"
proof -
  obtain sim a sim1 a1 sim2 a2 where [simp]: "x = (sim, a)" "x' = (sim1, a1)" "y = (sim2, a2)"
    by (cases x; cases x'; cases y) auto
  from sf have st: "step exec handle sim = Some (r, sim1)" and a1: "a1 = (if r then eff sim1 a else a)"
    by (auto elim: step_fnE)
  have le: "next_task_id (sched sim) \<le> next_task_id (sched sim1)"
    by (rule step_next_task_id [OF st])
  have fit1: "ids_fit (sched sim1)" if "ids_fit (sched sim2)"
    using lr that by (simp add: loop_result_def ids_fit_def)
  then show "sim_ok (fst x) \<Longrightarrow> ids_fit (sched (fst y)) \<Longrightarrow> sim_ok (fst x') \<and> ids_fit (sched (fst x'))"
    using step_sound [OF _ st] by simp
  have "sim_ok sim2 \<and> (\<exists>es ss. sim_run exec handle sim es sim2 \<and>
      length es = (if r then Suc n else n) \<and> a2 = fold eff ss a \<and>
      map sim_time ss = map entry_time es)" if ok: "sim_ok sim" and fit2: "ids_fit (sched sim2)"
  proof -
    note s = step_sound [OF ok st fit1 [OF fit2]]
    from s lr fit2 obtain es ss where r: "sim_ok sim2" "sim_run exec handle sim1 es sim2"
      "length es = n" "a2 = fold eff ss a1" "map sim_time ss = map entry_time es"
      by (auto simp: loop_result_def)
    show ?thesis
    proof (cases "next_entry sim")
      case None
      with step_next_entry [OF st] st a1 r show ?thesis
        by (auto intro: run_idle)
    next
      case (Some e)
      with step_next_entry [OF st] st a1 r s have "sim_run exec handle sim (e # es) sim2" "r"
        "a2 = fold eff (sim1 # ss) a" "map sim_time (sim1 # ss) = map entry_time (e # es)"
        by (auto intro: run_step)
      with r(1,3) show ?thesis by (metis length_Cons)
    qed
  qed
  with le lr show "loop_result exec handle eff x (if r then Suc n else n) y"
    by (auto simp: loop_result_def)
qed

lemma step_fn_idle:
  assumes "step_fn exec handle eff x = Some (False, x')" "sim_ok (fst x)"
  shows "events (sched (fst x')) = []"
  using assms step_idle [of "fst x" "fst x'"] by (cases x; cases x') (auto elim: step_fnE)

lemma execute_steps_loop:
  assumes "execute_steps exec handle eff n x = Some y"
  shows "\<exists>m. loop_result exec handle eff x m y \<and>
    (sim_ok (fst x) \<longrightarrow> ids_fit (sched (fst y)) \<longrightarrow> m = n \<or> m < n \<and> events (sched (fst y)) = [])"
  using assms
proof (induction n arbitrary: x)
  case 0
  then show ?case using loop_result_refl [of exec handle eff x] by (auto intro!: exI [of _ 0])
next
  case (Suc n)
  then obtain r x' where sf: "step_fn exec handle eff x = Some (r, x')"
    and rest: "(if r then execute_steps exec handle eff n x' else Some x') = Some y"
    by (auto simp: Option.bind_eq_Some_conv)
  show ?case
  proof (cases r)
    case False
    with rest sf show ?thesis
      using loop_result_step(1) [OF sf loop_result_refl] step_fn_idle [of eff x x'] by auto
  next
    case True
    with Suc.IH [of x'] rest obtain m where lr: "loop_result exec handle eff x' m y" and
      "sim_ok (fst x') \<longrightarrow> ids_fit (sched (fst y)) \<longrightarrow> m = n \<or> m < n \<and> events (sched (fst y)) = []"
      by auto
    with loop_result_step [OF sf lr] True show ?thesis
      by (intro exI [of _ "Suc m"]) auto
  qed
qed

lemma execute_until_loop:
  assumes "execute_until exec handle eff limit x = Some y"
  shows "(\<exists>m. loop_result exec handle eff x m y) \<and> \<not> next_due limit (fst y)"
  using assms
proof (induction rule: execute_until_induct)
  case (idle x)
  then show ?case using loop_result_refl by blast
next
  case (step x r x' y)
  then show ?case using loop_result_step(1) by blast
qed

lemma execute_until_empty_loop:
  assumes "execute_until_empty exec handle eff x = Some y"
  shows "(\<exists>m. loop_result exec handle eff x m y) \<and>
    (sim_ok (fst x) \<longrightarrow> ids_fit (sched (fst y)) \<longrightarrow> events (sched (fst y)) = [])"
  using assms
proof (induction rule: execute_until_empty_induct)
  case (idle x x')
  then show ?case using loop_result_step(1) [OF idle loop_result_refl] step_fn_idle by blast
next
  case (step x x' y)
  then show ?case using loop_result_step [OF step(1)] by blast
qed

end

section \<open>Termination of timed runs\<close>

text \<open>
  User code that never panics and only schedules into the future: as long as time has not
  reached its maximum, processing an entry only adds entries later than the current time.
\<close>

definition advancing ::
  "('ev, 't, 'v, 'z) task_exec \<Rightarrow> ('c, 'ev, 't, 'v, 'z) handler \<Rightarrow> bool"
where
  "advancing exec handle \<longleftrightarrow>
     (\<forall>e cs w. sched_ok w \<longrightarrow> deferred_wakes w = [] \<longrightarrow>
        (\<exists>cs' w'. process_event_entry exec handle e cs w = Some (cs', w') \<and>
           (time w < SimTime u64_max \<longrightarrow>
             (\<exists>N. mset (events (drain_deferred_wakes (clear_scheduler_context w'))) = mset (events w) + N
                \<and> (\<forall>x\<in>#N. time w < entry_time x)))))"

text \<open>The entries that are due, each with the time left until the end of the 64-bit range.\<close>

definition due_left :: "simtime \<Rightarrow> 'ev event_entry multiset \<Rightarrow> nat multiset" where
  "due_left limit E =
     image_mset (\<lambda>x. 2 ^ 64 - as_duration (entry_time x)) (filter_mset (\<lambda>x. entry_time x \<le> limit) E)"

lemma as_duration_mono: "t < u \<Longrightarrow> as_duration t < as_duration u"
  by (simp add: simtime_order as_duration_def word_less_nat_alt)

lemma as_duration_lt: "as_duration t < 2 ^ 64"
  using unat_lt_pow [of "as_nanos t"] by (simp add: as_duration_def)

lemma due_left_advance:
  assumes sub: "add_mset e E \<subseteq># E0" and e: "entry_time e \<le> limit" and N: "\<forall>x\<in>#N. entry_time e < entry_time x"
  shows "(due_left limit (E + N), due_left limit E0) \<in> mult less_than"
proof -
  let ?f = "\<lambda>x :: 'a event_entry. 2 ^ 64 - as_duration (entry_time x)"
  have less: "?f x < ?f e" if "x \<in># N" for x
    using as_duration_mono [of "entry_time e" "entry_time x"] N that as_duration_lt [of "entry_time x"]
      as_duration_lt [of "entry_time e"] by (simp add: diff_less_mono2)
  have "(due_left limit E + due_left limit N, due_left limit E + {#?f e#}) \<in> mult less_than"
    by (rule one_step_implies_mult) (use less in \<open>auto simp: due_left_def\<close>)
  moreover have "due_left limit (E + N) = due_left limit E + due_left limit N"
    by (simp add: due_left_def)
  moreover have "due_left limit E + {#?f e#} = due_left limit (add_mset e E)"
    using e by (simp add: due_left_def)
  moreover have "due_left limit (add_mset e E) \<subseteq># due_left limit E0"
    unfolding due_left_def by (intro image_mset_subseteq_mono multiset_filter_mono sub)
  ultimately show ?thesis
    by (metis subset_implies_mult subset_mset.le_less trans_less_than transD trans_mult)
qed

lemma deferred_wakes_more:
  "scheduler.more w = scheduler.more w' \<Longrightarrow> deferred_wakes w = deferred_wakes w'"
  by (cases w; cases w') simp

lemma due_left_empty:
  "\<forall>x\<in>#E'. limit < entry_time x \<Longrightarrow> x \<in># E \<Longrightarrow> entry_time x \<le> limit \<Longrightarrow>
   (due_left limit E', due_left limit E) \<in> mult less_than"
proof -
  assume "\<forall>x\<in>#E'. limit < entry_time x" "x \<in># E" "entry_time x \<le> limit"
  then have "due_left limit E' = {#}" "due_left limit E \<noteq> {#}"
    by (auto simp: due_left_def)
  then show ?thesis
    by (simp add: subset_implies_mult subset_mset.zero_less_iff_neq_zero)
qed

context simulation_code
begin

lemma due_step:
  assumes adv: "advancing exec handle" and lim: "limit < SimTime u64_max"
    and ok: "sched_ok (sched sim)" and dw: "deferred_wakes (sched sim) = []"
    and due: "next_due limit sim"
  shows "\<exists>r sim'. step exec handle sim = Some (r, sim') \<and> sched_ok (sched sim') \<and>
    deferred_wakes (sched sim') = [] \<and>
    (due_left limit (mset (events (sched sim'))), due_left limit (mset (events (sched sim)))) \<in> mult less_than"
proof -
  obtain x where x: "x \<in> set (events (sched sim))" "entry_time x \<le> limit"
    using due next_due_iff [OF ok] by blast
  obtain r p w where pop: "pop_with_policy (policy sim) (policy_state sim) (sched sim) = (r, p, w)"
    by (metis prod_cases3)
  have more: "deferred_wakes w = []"
    using pop_with_policy_frame [OF pop] dw by (metis deferred_wakes_more)
  show ?thesis
  proof (cases r)
    case None
    with pop have "pop_live (sched sim) = (None, w)"
      by (auto simp: pop_with_policy_def Let_def swap_remove_def min_def
          split: prod.splits option.splits if_splits)
    then have "events w = []"
      using pop_live_split by blast
    then show ?thesis
      using None pop more x due_left_empty [of "{#}" limit x "mset (events (sched sim))"]
      by (auto simp: step_def sched_ok_def)
  next
    case (Some e)
    note sp = pop_with_policy_split [OF pop [unfolded Some] ok]
    let ?w = "set_scheduler_context w"
    have w: "sched_ok ?w" "deferred_wakes ?w = []" "time ?w = entry_time e" "events ?w = events w"
      using sp more by (simp_all add: time_eq)
    with adv obtain cs' w' where pr: "process_event_entry exec handle e (sim_components sim) ?w = Some (cs', w')"
      and N: "entry_time e < SimTime u64_max \<longrightarrow>
        (\<exists>N. mset (events (drain_deferred_wakes (clear_scheduler_context w'))) = mset (events w) + N
           \<and> (\<forall>x\<in>#N. entry_time e < entry_time x))"
      unfolding advancing_def by metis
    let ?w' = "drain_deferred_wakes (clear_scheduler_context w')"
    have ok': "sched_ok ?w' \<and> clock ?w' = clock ?w"
      using process_entry_sched_ok [OF pr w(1)] api_run_frame [OF api_run_drain [of "clear_scheduler_context w'"]]
      by simp
    have "(due_left limit (mset (events ?w')), due_left limit (mset (events (sched sim)))) \<in> mult less_than"
    proof (cases "entry_time e \<le> limit")
      case True
      with N lim obtain N where "mset (events ?w') = mset (events w) + N" "\<forall>x\<in>#N. entry_time e < entry_time x"
        by auto
      then show ?thesis
        using due_left_advance [OF sp(1) True] by simp
    next
      case False
      then have "\<forall>x\<in>#mset (events ?w'). limit < entry_time x"
        using ok' w(3) by (auto simp: sched_ok_def time_eq not_le)
      then show ?thesis
        using due_left_empty [of "mset (events ?w')" limit x] x by simp
    qed
    then show ?thesis
      using Some pop pr ok' by (auto simp: step_def)
  qed
qed

lemma execute_until_returns:
  assumes adv: "advancing exec handle" and lim: "limit < SimTime u64_max"
    and "sched_ok (sched sim)" and "deferred_wakes (sched sim) = []"
  shows "\<exists>y. execute_until exec handle eff limit (sim, a) = Some y"
  using assms(3,4)
proof (induction "due_left limit (mset (events (sched sim)))" arbitrary: sim a
    rule: wf_induct_rule [OF wf_mult [OF wf_less_than]])
  case (1 sim)
  show ?case
  proof (cases "next_due limit sim")
    case True
    from due_step [OF adv lim 1(2,3) True] obtain r sim' where st: "step exec handle sim = Some (r, sim')"
      and "sched_ok (sched sim')" "deferred_wakes (sched sim') = []"
      "(due_left limit (mset (events (sched sim'))), due_left limit (mset (events (sched sim)))) \<in> mult less_than"
      by blast
    from 1(1) [OF this(4,2,3)]
    obtain y where "execute_until exec handle eff limit (sim', if r then eff sim' a else a) = Some y" by blast
    then show ?thesis
      using st True by (simp add: execute_until.simps [of _ _ _ _ "(sim, a)"] step_fn_def)
  qed (simp add: execute_until.simps)
qed

text \<open>Without cancelled tasks, no entry after the limit is processed.\<close>

lemma no_cancel_step:
  assumes nc: "\<And>e cs w cs' w'. process_event_entry exec handle e cs w = Some (cs', w') \<Longrightarrow>
      cancelled_tasks w = {} \<Longrightarrow> cancelled_tasks w' = {}"
    and ok: "sim_ok sim" and "cancelled_tasks (sched sim) = {}"
    and st: "step exec handle sim = Some (r, sim')"
  shows "cancelled_tasks (sched sim') = {}"
  using st
proof (cases rule: stepE)
  case (idle p w)
  then show ?thesis
    using pop_None [OF idle(1)] ok assms(3) by (simp add: sim_ok_def tasks_inv_def)
next
  case (event e p w cs w')
  have "pop_effect (sched sim) e w"
    by (rule pop_effect_with_policy [OF _ _ event(1)]) (use ok in \<open>auto simp: sim_ok_def tasks_inv_def\<close>)
  then have "cancelled_tasks w = {}"
    using assms(3) by (auto elim: pop_effectE)
  then show ?thesis
    using nc [OF event(2)] event by simp
qed

lemma execute_until_limit:
  assumes nc: "\<And>e cs w cs' w'. process_event_entry exec handle e cs w = Some (cs', w') \<Longrightarrow>
      cancelled_tasks w = {} \<Longrightarrow> cancelled_tasks w' = {}"
    and "execute_until exec handle eff limit x = Some y"
  shows "(\<exists>m. loop_result exec handle eff x m y) \<and>
    (sim_ok (fst x) \<longrightarrow> cancelled_tasks (sched (fst x)) = {} \<longrightarrow> ids_fit (sched (fst y)) \<longrightarrow>
     (\<exists>es. sim_run exec handle (fst x) es (fst y) \<and> (\<forall>e\<in>set es. entry_time e \<le> limit)
        \<and> sim_time (fst y) \<le> max (sim_time (fst x)) limit))"
  using assms(2)
proof (induction rule: execute_until_induct)
  case (idle x)
  then show ?case using loop_result_refl [of exec handle eff x] by (auto intro: run_nil)
next
  case (step x r x' y)
  from step obtain m where lr: "loop_result exec handle eff x' m y" by blast
  have st: "Simulation.step exec handle (fst x) = Some (r, fst x')"
    using step.hyps(2) by (cases x; cases x') (auto elim: step_fnE)
  have "\<exists>es. sim_run exec handle (fst x) es (fst y) \<and> (\<forall>e\<in>set es. entry_time e \<le> limit)
      \<and> sim_time (fst y) \<le> max (sim_time (fst x)) limit"
    if ok: "sim_ok (fst x)" and c: "cancelled_tasks (sched (fst x)) = {}" and fit: "ids_fit (sched (fst y))"
  proof -
    note f1 = loop_result_step(2) [OF step.hyps(2) lr ok fit]
    have c1: "cancelled_tasks (sched (fst x')) = {}"
      by (rule no_cancel_step [OF nc ok c st])
    from step.IH f1 c1 fit obtain es where es: "sim_run exec handle (fst x') es (fst y)"
      "\<forall>e\<in>set es. entry_time e \<le> limit" "sim_time (fst y) \<le> max (sim_time (fst x')) limit"
      by blast
    have "set (live (sched (fst x))) = set (events (sched (fst x)))"
      using c by (simp add: live_def)
    then obtain z where z: "z \<in> set (live (sched (fst x)))" "entry_time z \<le> limit"
      using step.hyps(1) next_due_iff [of "fst x"] ok by (auto simp: sim_ok_def)
    note s = step_sound [OF ok st conjunct2 [OF f1]]
    then obtain e where e: "next_entry (fst x) = Some e" "sim_time (fst x') = entry_time e"
      "entry_time e \<le> entry_time z"
      using z(1) by (auto split: option.splits)
    then have "sim_run exec handle (fst x) (e # es) (fst y)"
      using st es(1) step_next_entry [OF st] by (auto intro: run_step)
    moreover have "entry_time e \<le> limit" using e z by simp
    ultimately show ?thesis
      using es e by (intro exI [of _ "e # es"]) (auto simp: le_max_iff_disj)
  qed
  with loop_result_step(1) [OF step.hyps(2) lr] show ?case by blast
qed

end

section \<open>Properties of the executors\<close>

text \<open>
  A timed run returns, for user code that does not panic and only schedules into the
  future: no matter how many events the handlers add, the loop reaches its limit.
\<close>

theorem timed_run_terminates:
  assumes "simulation_code exec handle" and "advancing exec handle" and "limit < SimTime u64_max"
    and "sim_ok sim"
  shows "\<exists>y. run_with exec handle side_effect (timed limit) (sim, a) = Some y"
  using simulation_code.execute_until_returns [OF assms(1-3), of sim side_effect a] assms(4)
  by (simp add: timed_def sim_ok_def)

text \<open>
  C28. A timed run that returns is a run of steps after which no entry at or before the limit
  is left, and the side effect has been called once per processed entry, at its time. If no
  task is cancelled, only entries up to the limit are processed and the clock stays within
  the limit.
\<close>

theorem timed_run_correct:
  assumes "simulation_code exec handle" and "sim_ok sim"
    and "run_with exec handle side_effect (timed limit) (sim, a) = Some (sim', a')"
    and "ids_fit (sched sim')"
  shows "sim_ok sim' \<and> (\<forall>x\<in>set (events (sched sim')). limit < entry_time x)
    \<and> (\<exists>es ss. sim_run exec handle sim es sim' \<and> a' = fold side_effect ss a \<and>
         map sim_time ss = map entry_time es)
    \<and> ((\<forall>e cs w cs' w'. process_event_entry exec handle e cs w = Some (cs', w') \<longrightarrow>
          cancelled_tasks w = {} \<longrightarrow> cancelled_tasks w' = {}) \<longrightarrow>
       cancelled_tasks (sched sim) = {} \<longrightarrow>
       (\<exists>es. sim_run exec handle sim es sim' \<and> (\<forall>e\<in>set es. entry_time e \<le> limit))
       \<and> sim_time sim' \<le> max (sim_time sim) limit)"
proof -
  have ex: "execute_until exec handle side_effect limit (sim, a) = Some (sim', a')"
    using assms(3) by (simp add: timed_def)
  from simulation_code.execute_until_loop [OF assms(1) ex] assms(2,4) have
    "sim_ok sim'" "\<not> next_due limit sim'" "\<exists>es ss. sim_run exec handle sim es sim' \<and>
       a' = fold side_effect ss a \<and> map sim_time ss = map entry_time es"
    by (auto simp: loop_result_def)
  moreover from this have "\<forall>x\<in>set (events (sched sim')). limit < entry_time x"
    using next_due_iff [of sim' limit] by (auto simp: sim_ok_def not_le)
  moreover have "(\<exists>es. sim_run exec handle sim es sim' \<and> (\<forall>e\<in>set es. entry_time e \<le> limit))
       \<and> sim_time sim' \<le> max (sim_time sim) limit"
    if "\<forall>e cs w cs' w'. process_event_entry exec handle e cs w = Some (cs', w') \<longrightarrow>
          cancelled_tasks w = {} \<longrightarrow> cancelled_tasks w' = {}" "cancelled_tasks (sched sim) = {}"
    using simulation_code.execute_until_limit [OF assms(1) _ ex] that assms(2,4) by fastforce
  ultimately show ?thesis by blast
qed

text \<open>
  A run with a step limit performs exactly that many steps, unless it runs out of
  entries before; an unbounded run that returns has processed everything.
\<close>

theorem bounded_and_unbounded_runs:
  assumes "simulation_code exec handle" and "sim_ok sim" and "ids_fit (sched sim')"
  shows "(run_with exec handle side_effect (steps n) (sim, a) = Some (sim', a') \<longrightarrow>
      sim_ok sim' \<and> (\<exists>es. sim_run exec handle sim es sim' \<and>
        (length es = n \<or> length es < n \<and> events (sched sim') = [])))
    \<and> (run_with exec handle side_effect unbound (sim, a) = Some (sim', a') \<longrightarrow>
      sim_ok sim' \<and> (\<exists>es. sim_run exec handle sim es sim') \<and> events (sched sim') = [])"
proof (intro conjI impI)
  assume "run_with exec handle side_effect (steps n) (sim, a) = Some (sim', a')"
  then have "execute_steps exec handle side_effect n (sim, a) = Some (sim', a')"
    by (simp add: steps_def)
  from simulation_code.execute_steps_loop [OF assms(1) this] assms(2,3)
  show "sim_ok sim'" "\<exists>es. sim_run exec handle sim es sim' \<and>
      (length es = n \<or> length es < n \<and> events (sched sim') = [])"
    by (auto simp: loop_result_def)
next
  assume "run_with exec handle side_effect unbound (sim, a) = Some (sim', a')"
  then have "execute_until_empty exec handle side_effect (sim, a) = Some (sim', a')"
    by (simp add: unbound_def)
  from simulation_code.execute_until_empty_loop [OF assms(1) this] assms(2,3)
  show "sim_ok sim'" "\<exists>es. sim_run exec handle sim es sim'" "events (sched sim') = []"
    by (auto simp: loop_result_def)
qed

text \<open>A cancelled task due at 3, and an event at 100.\<close>

definition overrun_sim :: "(nat, unit task, (unit, nat) task_value, unit, unit, nat) simulation" where
  "overrun_sim =
     (let (k, sim) = add_component 0 (simulation_new 42 ());
          w = schedule (SimTime 100) k 0 (sched sim);
          (i, w) = timeout (SimTime 3) () w
      in sim\<lparr>sched := snd (cancel_task i w)\<rparr>)"

text \<open>
  The bound on the clock does need its assumption on cancelled tasks. In
  \<open>overrun_sim\<close> a cancelled task is due at 3 and the only other entry at 100; the loop
  sees the cancelled entry when it peeks, the step skips it, and a run limited to time 10
  ends at time 100.
\<close>

theorem timed_run_overrun:
  "map_option sim_time (execute (exec_task idle_code) count_handle (timed (SimTime 10)) overrun_sim) =
     Some (SimTime 100)"
  by (simp add: overrun_sim_def sim_new_eval sched_eval step_eval count_handle_def execute_def
      timed_def execute_until.simps next_due_def peek_next_event_time_def peek_def step_fn_def
      timeout_def schedule_task_def schedule_task_at_def cancel_task_def sim_time_def)

section \<open>Instances\<close>

text \<open>Tasks that do nothing, and a component that counts down, one event per ten units.\<close>

definition idle_exec :: "('ev, 't, 'v, 'z) task_exec" where
  "idle_exec t w = (AnyUnit, w)"

definition tick_handle :: "(nat, nat, 't, 'v, 'z) handler" where
  "tick_handle c k n w = Some (c + 1, if n = 0 then w else schedule (SimTime 10) k (n - 1) w)"

lemma tick_handle_code: "simulation_code idle_exec tick_handle"
  by unfold_locales (auto simp: idle_exec_def tick_handle_def intro: task_calls api_run_schedule split: if_splits)

lemma tick_handle_advancing: "advancing idle_exec tick_handle"
  unfolding advancing_def
proof (intro allI impI)
  fix e cs and w :: "(nat, 't, 'v, 'z) world_scheme"
  assume "sched_ok w" and dw: "deferred_wakes w = []"
  have drain: "events (drain_deferred_wakes (clear_scheduler_context v)) = events v"
    if "deferred_wakes v = []" for v :: "(nat, 't, 'v, 'z) world_scheme"
    using that by (simp add: drain_deferred_wakes_def clear_scheduler_context_def)
  show "\<exists>cs' w'. process_event_entry idle_exec tick_handle e cs w = Some (cs', w') \<and>
     (time w < SimTime u64_max \<longrightarrow>
       (\<exists>N. mset (events (drain_deferred_wakes (clear_scheduler_context w'))) = mset (events w) + N
          \<and> (\<forall>x\<in>#N. time w < entry_time x)))"
  proof (cases e)
    case (Component ce)
    then show ?thesis
      using dw add_simtime_strict [of "time w" "SimTime 10"]
      by (auto simp: tick_handle_def drain sched_simps zero_def split: option.splits
          intro!: exI [of _ "{#_#}"])
  next
    case (Task te)
    then show ?thesis
      using dw by (auto simp: execute_task_def idle_exec_def drain Let_def split: option.splits)
  qed
qed

definition tick_sim :: "(nat, unit, unit, unit, unit, nat) simulation" where
  "tick_sim =
     (let (k, sim) = add_component 0 (simulation_new 42 ())
      in sim\<lparr>sched := schedule (SimTime 5) k 4 (sched sim)\<rparr>)"

lemma tick_sim_ok: "sim_ok tick_sim"
  by (simp add: tick_sim_def sim_new_eval sched_eval sim_ok_def sched_ok_def tasks_inv_def
      in_scheduler_context_def)

theorem timed_run_terminates_witness:
  "\<exists>y. run_with idle_exec tick_handle (\<lambda>_ n. n + 1) (timed (SimTime 1000)) (tick_sim, 0 :: nat) = Some y"
  by (rule timed_run_terminates [OF tick_handle_code tick_handle_advancing _ tick_sim_ok]) simp

lemmas run_eval = timed_def execute_until.simps next_due_def peek_next_event_time_def peek_def
  step_fn_def

lemma steps_2: "steps 2 = Steps (Suc (Suc 0))"
  by (simp add: steps_def)

lemma count_run:
  "\<exists>sim'. run_with (exec_task idle_code) count_handle (\<lambda>_ n. n + 1) (timed (SimTime 10)) (count_sim, 0 :: nat)
     = Some (sim', 2) \<and> ids_fit (sched sim')"
  by (simp add: count_sim_def sim_new_eval sched_eval step_eval count_handle_def run_eval ids_fit_def)

theorem timed_run_correct_witness:
  "\<exists>sim'. run_with (exec_task idle_code) count_handle (\<lambda>_ n. n + 1) (timed (SimTime 10)) (count_sim, 0 :: nat)
     = Some (sim', 2) \<and> sim_ok sim' \<and> (\<forall>x\<in>set (events (sched sim')). SimTime 10 < entry_time x)"
proof -
  from count_run obtain sim' where
    r: "run_with (exec_task idle_code) count_handle (\<lambda>_ n. n + 1) (timed (SimTime 10)) (count_sim, 0 :: nat)
      = Some (sim', 2)" and fit: "ids_fit (sched sim')" by blast
  from timed_run_correct [OF count_handle_code count_sim_ok r fit] r show ?thesis by blast
qed

lemma count_steps:
  "\<exists>sim'. run_with (exec_task idle_code) count_handle (\<lambda>_ n. n + 1) (steps 2) (count_sim, 0 :: nat)
     = Some (sim', 2) \<and> ids_fit (sched sim') \<and> events (sched sim') \<noteq> []"
  by (simp add: count_sim_def sim_new_eval sched_eval step_eval count_handle_def step_fn_def ids_fit_def
      steps_2)

theorem bounded_and_unbounded_runs_witness:
  "\<exists>sim' es. run_with (exec_task idle_code) count_handle (\<lambda>_ n. n + 1) (steps 2) (count_sim, 0 :: nat)
     = Some (sim', 2) \<and> sim_run (exec_task idle_code) count_handle count_sim es sim' \<and> length es = 2"
proof -
  from count_steps obtain sim' where
    r: "run_with (exec_task idle_code) count_handle (\<lambda>_ n. n + 1) (steps 2) (count_sim, 0 :: nat)
      = Some (sim', 2)" and fit: "ids_fit (sched sim')" and ne: "events (sched sim') \<noteq> []" by blast
  from bounded_and_unbounded_runs [OF count_handle_code count_sim_ok fit, of "\<lambda>_ n. n + 1" 2 0 2] r ne
  show ?thesis by blast
qed

end
