(* ===== verification/Batch_Semaphore.thy ===== *)
theory Batch_Semaphore
  imports Des_Prelude
begin

text \<open>
  \<open>des-tokio/src/sync/batch_semaphore.rs\<close> and \<open>semaphore.rs\<close>: a fair counting semaphore.
  The state behind the mutex is a record, an \<open>Acquire\<close> future another one; polling and
  dropping a future are functions on both. Wakers are values of a type \<open>'w\<close>; an operation
  that wakes returns the list of wakers in wake order. Permit counts are natural numbers; the
  one addition that can overflow \<open>usize\<close> panics (\<open>None\<close>). A future is polled inside the
  runtime, so the check for the current task is left out.
\<close>

section \<open>The state and its operations\<close>

datatype try_acquire_error = Closed | NoPermits

record 'w waiter =
  waiter_key :: nat
  required :: nat
  remaining :: nat
  waker :: 'w

record 'w sem_state =
  permits :: nat
  closed :: bool
  next_waiter_id :: nat
  queue :: "'w waiter list"
  ready :: "nat set"

definition sem_new :: "nat \<Rightarrow> 'w sem_state" where
  "sem_new n = \<lparr>permits = n, closed = False, next_waiter_id = 0, queue = [], ready = {}\<rparr>"

text \<open>
  The loop of \<open>add_permits_locked\<close>: the permits that stay available, the queue, the ready
  set and the wakers, after handing out \<open>available\<close> permits from the head of the queue.
\<close>

fun assign_permits ::
  "nat \<Rightarrow> 'w waiter list \<Rightarrow> nat set \<Rightarrow> 'w list \<Rightarrow> nat \<times> 'w waiter list \<times> nat set \<times> 'w list"
where
  "assign_permits available [] rdy to_wake = (available, [], rdy, to_wake)"
| "assign_permits available (front # rest) rdy to_wake =
     (if available = 0 then (0, front # rest, rdy, to_wake)
      else
        (let give = min available (remaining front);
             front' = front\<lparr>remaining := remaining front - give\<rparr>
         in if remaining front' = 0
            then assign_permits (available - give) rest (insert (waiter_key front) rdy)
                   (to_wake @ [waker front])
            else (0, front' # rest, rdy, to_wake)))"

definition add_permits_locked :: "nat \<Rightarrow> 'w sem_state \<Rightarrow> ('w list \<times> 'w sem_state) option" where
  "add_permits_locked added s =
     (if permits s + added < 2 ^ 64
      then (let (p, q, r, to_wake) = assign_permits (permits s + added) (queue s) (ready s) []
            in Some (to_wake, s\<lparr>permits := p, queue := q, ready := r\<rparr>))
      else None)"

definition remove_waiter_locked :: "nat \<Rightarrow> 'w sem_state \<Rightarrow> 'w waiter option \<times> 'w sem_state" where
  "remove_waiter_locked i s =
     (case filter (\<lambda>w. waiter_key w = i) (queue s) of
        [] \<Rightarrow> (None, s)
      | w # _ \<Rightarrow> (Some w, s\<lparr>queue := remove1 w (queue s)\<rparr>))"

definition try_acquire :: "nat \<Rightarrow> 'w sem_state \<Rightarrow> (try_acquire_error + unit) \<times> 'w sem_state" where
  "try_acquire n s =
     (if n = 0 then (Inr (), s)
      else if closed s then (Inl Closed, s)
      else if queue s \<noteq> [] then (Inl NoPermits, s)
      else if permits s < n then (Inl NoPermits, s)
      else (Inr (), s\<lparr>permits := permits s - n\<rparr>))"

definition add_permits :: "nat \<Rightarrow> 'w sem_state \<Rightarrow> ('w list \<times> 'w sem_state) option" where
  "add_permits n s = (if n = 0 then Some ([], s) else add_permits_locked n s)"

definition close :: "'w sem_state \<Rightarrow> 'w list \<times> 'w sem_state" where
  "close s =
     (if closed s then ([], s)
      else (map waker (queue s), s\<lparr>closed := True, queue := []\<rparr>))"

section \<open>The acquire future\<close>

record acquire =
  acq_permits :: nat
  waiter_id :: "nat option"
  completed :: bool

definition acquire_new :: "nat \<Rightarrow> acquire" where
  "acquire_new n = \<lparr>acq_permits = n, waiter_id = None, completed = False\<rparr>"

datatype poll_acquire = Pending | ReadyOk | ReadyErr

definition enqueue :: "'w \<Rightarrow> nat \<Rightarrow> acquire \<Rightarrow> 'w sem_state \<Rightarrow> acquire \<times> 'w sem_state" where
  "enqueue wk rem a s =
     (let i = next_waiter_id s
      in (a\<lparr>waiter_id := Some i\<rparr>,
          s\<lparr>next_waiter_id := i + 1,
            queue := queue s @ [\<lparr>waiter_key = i, required = acq_permits a, remaining = rem,
                                 waker = wk\<rparr>]\<rparr>))"

text \<open>The waker of a queued waiter is replaced.\<close>

fun refresh_waker :: "nat \<Rightarrow> 'w \<Rightarrow> 'w waiter list \<Rightarrow> 'w waiter list" where
  "refresh_waker i wk [] = []"
| "refresh_waker i wk (w # ws) =
     (if waiter_key w = i then w\<lparr>waker := wk\<rparr> # ws else w # refresh_waker i wk ws)"

definition acquire_poll ::
  "'w \<Rightarrow> acquire \<Rightarrow> 'w sem_state \<Rightarrow> poll_acquire \<times> acquire \<times> 'w sem_state"
where
  "acquire_poll wk a s =
     (if completed a then (ReadyOk, a, s)
      else if closed s then (ReadyErr, a, s)
      else case waiter_id a of
        Some i \<Rightarrow>
          if i \<in> ready s
          then (ReadyOk, a\<lparr>waiter_id := None, completed := True\<rparr>, s\<lparr>ready := ready s - {i}\<rparr>)
          else if i \<in> set (map waiter_key (queue s))
          then (Pending, a, s\<lparr>queue := refresh_waker i wk (queue s)\<rparr>)
          else (ReadyOk, a\<lparr>waiter_id := None, completed := True\<rparr>, s)
      | None \<Rightarrow>
          if queue s = []
          then
            if acq_permits a \<le> permits s
            then (ReadyOk, a\<lparr>completed := True\<rparr>, s\<lparr>permits := permits s - acq_permits a\<rparr>)
            else
              (let available = permits s;
                   (a', s') = enqueue wk (acq_permits a - available) a (s\<lparr>permits := 0\<rparr>)
               in (Pending, a', s'))
          else (let (a', s') = enqueue wk (acq_permits a) a s in (Pending, a', s')))"

definition cancel_locked :: "acquire \<Rightarrow> 'w sem_state \<Rightarrow> ('w list \<times> 'w sem_state) option" where
  "cancel_locked a s =
     (case waiter_id a of
        None \<Rightarrow> Some ([], s)
      | Some i \<Rightarrow>
          if i \<in> ready s
          then add_permits_locked (acq_permits a) (s\<lparr>ready := ready s - {i}\<rparr>)
          else case remove_waiter_locked i s of
            (None, s') \<Rightarrow> Some ([], s')
          | (Some w, s') \<Rightarrow>
              (let acquired = required w - remaining w
               in if acquired = 0 then Some ([], s') else add_permits_locked acquired s'))"

definition acquire_drop :: "acquire \<Rightarrow> 'w sem_state \<Rightarrow> ('w list \<times> 'w sem_state) option" where
  "acquire_drop a s = (if completed a then Some ([], s) else cancel_locked a s)"

section \<open>Guards\<close>

text \<open>
  \<open>semaphore.rs\<close>: a \<open>SemaphorePermit\<close> is the number of permits it holds. Dropping it
  gives them back; \<open>forget\<close> sets the number to zero first.
\<close>

definition try_acquire_many :: "nat \<Rightarrow> 'w sem_state \<Rightarrow> (try_acquire_error + nat) \<times> 'w sem_state" where
  "try_acquire_many n s =
     (case try_acquire n s of (Inl e, s') \<Rightarrow> (Inl e, s') | (Inr _, s') \<Rightarrow> (Inr n, s'))"

definition permit_drop :: "nat \<Rightarrow> 'w sem_state \<Rightarrow> ('w list \<times> 'w sem_state) option" where
  "permit_drop n s = (if n = 0 then Some ([], s) else add_permits n s)"

definition permit_forget :: "nat \<Rightarrow> 'w sem_state \<Rightarrow> ('w list \<times> 'w sem_state) option" where
  "permit_forget n s = permit_drop 0 s"

section \<open>A semaphore in use\<close>

text \<open>
  The semaphore together with everything that refers to it: the unfinished acquire futures and
  the \<open>SemaphorePermit\<close> guards, each with its number of permits. \<open>total\<close> counts the
  permits that have been put into the semaphore and not forgotten.
\<close>

record 'w sem_sys =
  sem :: "'w sem_state"
  futs :: "acquire multiset"
  guards :: "nat multiset"
  total :: nat

definition sys_new :: "nat \<Rightarrow> 'w sem_sys" where
  "sys_new n = \<lparr>sem = sem_new n, futs = {#}, guards = {#}, total = n\<rparr>"

inductive sem_step :: "'w sem_sys \<Rightarrow> 'w sem_sys \<Rightarrow> bool" where
  new_acquire: "0 < n \<Longrightarrow> sem_step s (s\<lparr>futs := add_mset (acquire_new n) (futs s)\<rparr>)"
| poll_pending: "futs s = add_mset a F \<Longrightarrow> acquire_poll wk a (sem s) = (Pending, a', m) \<Longrightarrow>
     sem_step s (s\<lparr>sem := m, futs := add_mset a' F\<rparr>)"
| poll_ok: "futs s = add_mset a F \<Longrightarrow> acquire_poll wk a (sem s) = (ReadyOk, a', m) \<Longrightarrow>
     acquire_drop a' m = Some (ws, m') \<Longrightarrow>
     sem_step s (s\<lparr>sem := m', futs := F, guards := add_mset (acq_permits a) (guards s)\<rparr>)"
| poll_err: "futs s = add_mset a F \<Longrightarrow> acquire_poll wk a (sem s) = (ReadyErr, a', m) \<Longrightarrow>
     acquire_drop a' m = Some (ws, m') \<Longrightarrow> sem_step s (s\<lparr>sem := m', futs := F\<rparr>)"
| drop_future: "futs s = add_mset a F \<Longrightarrow> acquire_drop a (sem s) = Some (ws, m) \<Longrightarrow>
     sem_step s (s\<lparr>sem := m, futs := F\<rparr>)"
| try_acquire_ok: "0 < n \<Longrightarrow> try_acquire_many n (sem s) = (Inr g, m) \<Longrightarrow>
     sem_step s (s\<lparr>sem := m, guards := add_mset g (guards s)\<rparr>)"
| drop_guard: "guards s = add_mset n G \<Longrightarrow> permit_drop n (sem s) = Some (ws, m) \<Longrightarrow>
     sem_step s (s\<lparr>sem := m, guards := G\<rparr>)"
| forget_guard: "guards s = add_mset n G \<Longrightarrow> permit_forget n (sem s) = Some (ws, m) \<Longrightarrow>
     sem_step s (s\<lparr>sem := m, guards := G, total := total s - n\<rparr>)"
| more_permits: "add_permits n (sem s) = Some (ws, m) \<Longrightarrow>
     sem_step s (s\<lparr>sem := m, total := total s + n\<rparr>)"
| close_sem: "close (sem s) = (ws, m) \<Longrightarrow> sem_step s (s\<lparr>sem := m\<rparr>)"

section \<open>Handing out permits\<close>

abbreviation keys :: "'w waiter list \<Rightarrow> nat list" where
  "keys q \<equiv> map waiter_key q"

text \<open>The permits already given to waiters that are still queued.\<close>

definition partial :: "'w waiter list \<Rightarrow> nat" where
  "partial q = (\<Sum>w\<leftarrow>q. required w - remaining w)"

text \<open>Only the head of the queue may have been given permits, and no waiter is complete.\<close>

definition queue_shape :: "'w waiter list \<Rightarrow> bool" where
  "queue_shape q \<longleftrightarrow>
     (\<forall>w\<in>set q. 0 < remaining w \<and> remaining w \<le> required w) \<and>
     (\<forall>w\<in>set (tl q). remaining w = required w)"

lemma partial_simps [simp]:
  "partial [] = 0"
  "partial (w # q) = required w - remaining w + partial q"
  "partial (q @ q') = partial q + partial q'"
  by (simp_all add: partial_def)

lemma partial_full: "\<forall>w\<in>set q. remaining w = required w \<Longrightarrow> partial q = 0"
  by (induction q) auto

lemma queue_shape_Cons [simp]:
  "queue_shape (w # q) \<longleftrightarrow> 0 < remaining w \<and> remaining w \<le> required w \<and>
     (\<forall>v\<in>set q. 0 < remaining v \<and> remaining v = required v)"
  by (auto simp: queue_shape_def)

lemma queue_shape_Nil [simp]: "queue_shape []"
  by (simp add: queue_shape_def)

lemma queue_shape_full: "\<forall>v\<in>set q. 0 < remaining v \<and> remaining v = required v \<Longrightarrow> queue_shape q"
  by (cases q) auto

text \<open>
  The loop satisfies a prefix \<open>A\<close> of the queue completely and in order, gives what is left
  over to the next waiter, and keeps permits only when the queue is empty. No permit is lost.
\<close>

lemma assign_permits_effect:
  assumes "queue_shape q" "assign_permits n q r ws = (p, q', r', ws')"
  shows "\<exists>A B. q = A @ B \<and> r' = r \<union> set (keys A) \<and> ws' = ws @ map waker A \<and> queue_shape q' \<and>
    keys q' = keys B \<and> map required q' = map required B \<and> tl q' = tl B \<and> (q' \<noteq> [] \<longrightarrow> p = 0) \<and>
    p + partial q' + (\<Sum>w\<leftarrow>A. required w) = n + partial q"
  using assms
proof (induction q arbitrary: n r ws)
  case Nil
  then show ?case by auto
next
  case (Cons w q)
  let ?give = "min n (remaining w)"
  have w: "0 < remaining w" "remaining w \<le> required w"
    and full: "\<forall>v\<in>set q. 0 < remaining v \<and> remaining v = required v"
    using Cons.prems(1) by auto
  show ?case
  proof (cases "remaining w \<le> n")
    case True
    with w have "assign_permits (n - remaining w) q (insert (waiter_key w) r) (ws @ [waker w]) = (p, q', r', ws')"
      using Cons.prems(2) by (simp add: Let_def min_def split: if_splits)
    from Cons.IH [OF queue_shape_full [OF full] this] obtain A B where
      AB: "q = A @ B" "r' = insert (waiter_key w) r \<union> set (keys A)" "ws' = (ws @ [waker w]) @ map waker A"
      "queue_shape q'" "keys q' = keys B" "map required q' = map required B" "tl q' = tl B"
      "q' \<noteq> [] \<longrightarrow> p = 0" "p + partial q' + (\<Sum>w\<leftarrow>A. required w) = n - remaining w + partial q"
      by blast
    show ?thesis
      by (rule exI [of _ "w # A"], rule exI [of _ B]) (use AB True w in auto)
  next
    case False
    then have "p = 0 \<and> r' = r \<and> ws' = ws \<and> q' = w\<lparr>remaining := remaining w - n\<rparr> # q"
      using Cons.prems(2) by (cases "n = 0") (auto simp: Let_def min_def split: if_splits)
    with False w full show ?thesis
      by (intro exI [of _ "[]"] exI [of _ "w # q"]) auto
  qed
qed

section \<open>Futures, waiters and permits\<close>

definition wait_ids :: "acquire multiset \<Rightarrow> nat multiset" where
  "wait_ids F = image_mset (the \<circ> waiter_id) (filter_mset (\<lambda>a. waiter_id a \<noteq> None) F)"

text \<open>The permits the future with the given waiter id asks for.\<close>

definition perm_of :: "acquire multiset \<Rightarrow> nat \<Rightarrow> nat" where
  "perm_of F i = (\<Sum>a\<in>#filter_mset (\<lambda>a. waiter_id a = Some i) F. acq_permits a)"

lemma wait_ids_simps [simp]:
  "wait_ids {#} = {#}"
  "waiter_id a = None \<Longrightarrow> wait_ids (add_mset a F) = wait_ids F"
  "waiter_id a = Some i \<Longrightarrow> wait_ids (add_mset a F) = add_mset i (wait_ids F)"
  by (simp_all add: wait_ids_def)

lemma perm_of_simps [simp]:
  "perm_of {#} i = 0"
  "perm_of (add_mset a F) i = (if waiter_id a = Some i then acq_permits a else 0) + perm_of F i"
  by (simp_all add: perm_of_def)

lemma perm_of_absent: "i \<notin># wait_ids F \<Longrightarrow> perm_of F i = 0"
proof (induction F)
  case (add a F)
  then show ?case by (cases "waiter_id a") auto
qed simp

lemma subseteq_add_mset_notin: "A \<subseteq># add_mset i B \<Longrightarrow> i \<notin># A \<Longrightarrow> A \<subseteq># B"
  unfolding subseteq_mset_def by (metis count_add_mset le0 not_in_iff)

text \<open>How the state and the unfinished futures fit together.\<close>

definition linked :: "'w sem_state \<Rightarrow> acquire multiset \<Rightarrow> bool" where
  "linked m F \<longleftrightarrow>
     finite (ready m) \<and> (\<forall>i. count (wait_ids F) i \<le> 1) \<and> (\<forall>i\<in>#wait_ids F. i < next_waiter_id m) \<and>
     mset (keys (queue m)) + mset_set (ready m) \<subseteq># wait_ids F \<and>
     (\<not> closed m \<longrightarrow> wait_ids F = mset (keys (queue m)) + mset_set (ready m)) \<and>
     (closed m \<longrightarrow> queue m = []) \<and>
     (\<forall>w\<in>set (queue m). perm_of F (waiter_key w) = required w) \<and>
     (\<forall>a\<in>#F. 0 < acq_permits a \<and> \<not> completed a)"

definition queue_ok :: "'w sem_state \<Rightarrow> bool" where
  "queue_ok m \<longleftrightarrow> queue_shape (queue m) \<and> (queue m \<noteq> [] \<longrightarrow> permits m = 0)"

text \<open>The permits the semaphore accounts for, apart from those in guards.\<close>

definition accounted :: "'w sem_state \<Rightarrow> acquire multiset \<Rightarrow> nat" where
  "accounted m F = permits m + partial (queue m) + (\<Sum>i\<in>ready m. perm_of F i)"

lemma linked_distinct:
  assumes "linked m F"
  shows "distinct (keys (queue m))" "set (keys (queue m)) \<inter> ready m = {}"
proof -
  have le: "count (mset (keys (queue m))) i + count (mset_set (ready m)) i \<le> 1" for i
    using assms mset_subset_eq_count [of "mset (keys (queue m)) + mset_set (ready m)" "wait_ids F" i]
    unfolding linked_def by (metis count_union le_trans)
  have "count (mset (keys (queue m))) i \<le> 1" for i
    using le [of i] by linarith
  then show "distinct (keys (queue m))"
    by (metis (no_types, opaque_lifting) One_nat_def count_eq_zero_iff distinct_count_atmost_1 le_SucE
        le_zero_eq set_mset_mset)
  show "set (keys (queue m)) \<inter> ready m = {}"
  proof (rule ccontr)
    assume "set (keys (queue m)) \<inter> ready m \<noteq> {}"
    then obtain i where "i \<in># mset (keys (queue m))" "i \<in> ready m" by auto
    then have "1 \<le> count (mset (keys (queue m))) i" "count (mset_set (ready m)) i = 1"
      using assms by (auto simp: linked_def Suc_le_eq)
    with le [of i] show False by simp
  qed
qed

lemma add_permits_locked_ok:
  assumes l: "linked m F" and q: "queue_shape (queue m)"
    and ap: "add_permits_locked n m = Some (ws, m')"
  shows "linked m' F \<and> queue_ok m' \<and> accounted m' F = accounted m F + n"
proof -
  obtain p q' r' where asg: "assign_permits (permits m + n) (queue m) (ready m) [] = (p, q', r', ws)"
    and m': "m' = m\<lparr>permits := p, queue := q', ready := r'\<rparr>"
    using ap by (auto simp: add_permits_locked_def split: if_splits prod.splits)
  from assign_permits_effect [OF q asg] obtain A B where
    AB: "queue m = A @ B" "r' = ready m \<union> set (keys A)" "queue_shape q'" "keys q' = keys B"
    "map required q' = map required B" "q' \<noteq> [] \<longrightarrow> p = 0"
    and cons: "p + partial q' + (\<Sum>w\<leftarrow>A. required w) = permits m + n + partial (queue m)"
    by blast
  note d = linked_distinct [OF l]
  have fin: "finite (ready m)" using l by (simp add: linked_def)
  have dA: "distinct (keys A)" and disj: "ready m \<inter> set (keys A) = {}"
    using d AB(1) by auto
  have ms: "mset (keys q') + mset_set r' = mset (keys (queue m)) + mset_set (ready m)"
    using fin disj AB mset_set_set [OF dA] by (simp add: mset_set_Union)
  have req: "perm_of F (waiter_key w) = required w" if "w \<in> set (queue m)" for w
    using l that by (simp add: linked_def)
  have q'_req: "perm_of F (waiter_key w) = required w" if "w \<in> set q'" for w
  proof -
    from that obtain j where j: "j < length q'" "w = q' ! j" by (auto simp: in_set_conv_nth)
    have len: "length q' = length B" using AB(4) by (metis length_map)
    then have "waiter_key w = waiter_key (B ! j)" "required w = required (B ! j)"
      using j AB(4,5) by (metis nth_map)+
    moreover have "B ! j \<in> set (queue m)" using j len AB(1) by simp
    ultimately show ?thesis using req by simp
  qed
  have "(\<Sum>i\<in>r'. perm_of F i) = (\<Sum>i\<in>ready m. perm_of F i) + (\<Sum>i\<in>set (keys A). perm_of F i)"
    using fin disj by (simp add: AB(2) sum.union_disjoint)
  also have "(\<Sum>i\<in>set (keys A). perm_of F i) = (\<Sum>w\<leftarrow>A. perm_of F (waiter_key w))"
    using dA by (simp add: sum_list_distinct_conv_sum_set [symmetric] comp_def flip: set_map)
  also have "\<dots> = (\<Sum>w\<leftarrow>A. required w)"
    using req AB(1) by (intro arg_cong [of _ _ sum_list] map_cong) auto
  finally have sum: "(\<Sum>i\<in>r'. perm_of F i) = (\<Sum>i\<in>ready m. perm_of F i) + (\<Sum>w\<leftarrow>A. required w)" .
  have "finite r'" using fin by (simp add: AB(2))
  moreover have "closed m \<longrightarrow> q' = []"
    using l AB(1,4) by (auto simp: linked_def)
  ultimately have "linked m' F"
    using l ms q'_req by (simp add: linked_def m')
  moreover have "queue_ok m'"
    using AB(3,6) by (simp add: queue_ok_def m')
  moreover have "accounted m' F = accounted m F + n"
    using cons sum by (simp add: accounted_def m')
  ultimately show ?thesis by blast
qed


lemma linked_new: "linked m F \<Longrightarrow> 0 < n \<Longrightarrow> linked m (add_mset (acquire_new n) F)"
  by (simp add: linked_def acquire_new_def)

lemma accounted_new: "accounted m (add_mset (acquire_new n) F) = accounted m F"
  by (simp add: accounted_def acquire_new_def)

text \<open>Removing a future that has no waiter id, or whose permits have been handed over.\<close>

lemma linked_remove_None: "linked m (add_mset a F) \<Longrightarrow> waiter_id a = None \<Longrightarrow> linked m F \<and> accounted m (add_mset a F) = accounted m F"
  by (simp add: linked_def accounted_def)

lemma linked_unique:
  assumes "linked m (add_mset a F)" "waiter_id a = Some i"
  shows "i \<notin># wait_ids F" "perm_of F i = 0"
proof -
  have "count (wait_ids (add_mset a F)) i \<le> 1"
    using assms(1) by (simp add: linked_def)
  then show "i \<notin># wait_ids F"
    using assms(2) by (simp add: not_in_iff)
  then show "perm_of F i = 0" by (rule perm_of_absent)
qed

lemma linked_remove_ready:
  assumes l: "linked m (add_mset a F)" and a: "waiter_id a = Some i" and i: "i \<in> ready m"
  shows "linked (m\<lparr>ready := ready m - {i}\<rparr>) F"
    "accounted (m\<lparr>ready := ready m - {i}\<rparr>) F + acq_permits a = accounted m (add_mset a F)"
proof -
  note u = linked_unique [OF l a]
  have fin: "finite (ready m)" using l by (simp add: linked_def)
  have ms: "mset_set (ready m) = add_mset i (mset_set (ready m - {i}))"
    using fin i by (rule mset_set.remove)
  have nk: "i \<notin> set (keys (queue m))"
    using linked_distinct(2) [OF l] i by auto
  have req: "perm_of F (waiter_key w) = required w" if "w \<in> set (queue m)" for w
  proof -
    have "waiter_key w \<noteq> i" using that nk by auto
    with l a that show ?thesis by (auto simp: linked_def)
  qed
  have cnt: "count (wait_ids F) j \<le> 1" for j
  proof -
    have "count (wait_ids (add_mset a F)) j \<le> 1" using l by (simp add: linked_def)
    then show ?thesis using a by (simp split: if_splits)
  qed
  show "linked (m\<lparr>ready := ready m - {i}\<rparr>) F"
    using l a ms req cnt fin by (auto simp: linked_def)
  have "(\<Sum>j\<in>ready m. perm_of (add_mset a F) j) = (acq_permits a + perm_of F i) + (\<Sum>j\<in>ready m - {i}. perm_of (add_mset a F) j)"
    using fin i a by (simp add: sum.remove)
  also have "(\<Sum>j\<in>ready m - {i}. perm_of (add_mset a F) j) = (\<Sum>j\<in>ready m - {i}. perm_of F j)"
    using a by (intro sum.cong) auto
  finally show "accounted (m\<lparr>ready := ready m - {i}\<rparr>) F + acq_permits a = accounted m (add_mset a F)"
    using u by (simp add: accounted_def)
qed

lemma perm_of_other: "waiter_id a \<noteq> Some i \<Longrightarrow> perm_of (add_mset a F) i = perm_of F i"
  by simp

lemma linked_remove_queued:
  assumes l: "linked m (add_mset a F)" and q: "queue_ok m" and a: "waiter_id a = Some i"
    and nr: "i \<notin> ready m" and rm: "remove_waiter_locked i m = (r, m')"
  shows "case r of
      None \<Rightarrow> m' = m \<and> linked m F \<and> accounted m F = accounted m (add_mset a F) \<and> closed m
    | Some w \<Rightarrow> linked m' F \<and> queue_shape (queue m') \<and> (queue m' \<noteq> [] \<longrightarrow> permits m' = 0) \<and>
        accounted m' F + (required w - remaining w) = accounted m (add_mset a F)"
proof -
  note u = linked_unique [OF l a]
  note d = linked_distinct [OF l]
  have fin: "finite (ready m)" using l by (simp add: linked_def)
  have cnt: "count (wait_ids F) j \<le> 1" for j
  proof -
    have "count (wait_ids (add_mset a F)) j \<le> 1" using l by (simp add: linked_def)
    then show ?thesis using a by (simp split: if_splits)
  qed
  have sum: "(\<Sum>j\<in>ready m. perm_of (add_mset a F) j) = (\<Sum>j\<in>ready m. perm_of F j)"
    using a nr by (intro sum.cong) auto
  show ?thesis
  proof (cases "i \<in> set (keys (queue m))")
    case False
    then have r: "r = None" "m' = m"
      using rm by (auto simp: remove_waiter_locked_def filter_empty_conv split: list.splits)
        (metis (mono_tags, lifting) filter_eq_Cons_iff imageI in_set_conv_decomp)+
    have cl: "closed m"
    proof (rule ccontr)
      assume "\<not> closed m"
      with l have "wait_ids (add_mset a F) = mset (keys (queue m)) + mset_set (ready m)"
        by (simp add: linked_def)
      moreover have "i \<in># wait_ids (add_mset a F)" using a by simp
      ultimately show False using False nr fin by auto
    qed
    then have q0: "queue m = []" using l by (simp add: linked_def)
    have "i \<notin># mset_set (ready m)" using nr fin by simp
    then have "mset_set (ready m) \<subseteq># wait_ids F"
    proof (rule subseteq_add_mset_notin [rotated])
      show "mset_set (ready m) \<subseteq># add_mset i (wait_ids F)"
        using l a q0 by (simp add: linked_def)
    qed
    then have "linked m F"
      using l a cl q0 cnt by (auto simp: linked_def)
    then show ?thesis
      using r cl sum by (simp add: accounted_def)
  next
    case True
    then obtain w where w: "w \<in> set (queue m)" "waiter_key w = i" by auto
    from split_list [OF w(1)] obtain A B where AB: "queue m = A @ w # B" by blast
    have nA: "\<forall>v\<in>set A \<union> set B. waiter_key v \<noteq> i"
      using d(1) w(2) by (simp add: AB) (metis UnE imageI)
    then have "filter (\<lambda>v. waiter_key v = i) (queue m) = [w]"
      using w(2) by (simp add: AB filter_empty_conv)
    moreover have "remove1 w (queue m) = A @ B"
      using nA w(2) by (auto simp: AB remove1_append)
    ultimately have r: "r = Some w" "m' = m\<lparr>queue := A @ B\<rparr>"
      using rm by (auto simp: remove_waiter_locked_def)
    have req: "perm_of F (waiter_key v) = required v" if "v \<in> set A \<union> set B" for v
    proof -
      have "perm_of (add_mset a F) (waiter_key v) = required v"
        using l that by (auto simp: linked_def AB simp del: perm_of_simps)
      moreover have "i \<noteq> waiter_key v" using that nA by auto
      ultimately show ?thesis using a by simp
    qed
    have "linked m' F"
      using l a w(2) req cnt fin by (auto simp: linked_def r AB)
    moreover have "queue_shape (A @ B)"
      using q by (cases A) (auto simp: queue_ok_def AB intro: queue_shape_full, (metis UnCI)+)
    moreover have "permits m = 0"
      using q by (simp add: queue_ok_def AB)
    ultimately show ?thesis
      using sum by (simp add: r accounted_def AB)
  qed
qed

section \<open>The invariant\<close>

definition sem_inv :: "'w sem_sys \<Rightarrow> bool" where
  "sem_inv s \<longleftrightarrow>
     linked (sem s) (futs s) \<and> queue_ok (sem s) \<and>
     accounted (sem s) (futs s) + \<Sum>\<^sub># (guards s) \<le> total s \<and>
     (\<not> closed (sem s) \<longrightarrow> accounted (sem s) (futs s) + \<Sum>\<^sub># (guards s) = total s)"

text \<open>Dropping an unfinished future gives back what it had been given.\<close>

lemma acquire_drop_ok:
  assumes l: "linked m (add_mset a F)" and q: "queue_ok m" and dr: "acquire_drop a m = Some (ws, m')"
  shows "linked m' F \<and> queue_ok m' \<and> accounted m' F = accounted m (add_mset a F) \<and> closed m' = closed m"
proof -
  have nc: "\<not> completed a" using l by (simp add: linked_def)
  have cl: "closed m2 = closed m1" if "add_permits_locked n m1 = Some (ws, m2)" for n m1 m2
    using that by (auto simp: add_permits_locked_def split: if_splits prod.splits)
  show ?thesis
  proof (cases "waiter_id a")
    case None
    with dr nc l q show ?thesis
      using linked_remove_None [OF l None] by (simp add: acquire_drop_def cancel_locked_def)
  next
    case (Some i)
    show ?thesis
    proof (cases "i \<in> ready m")
      case True
      have ap: "add_permits_locked (acq_permits a) (m\<lparr>ready := ready m - {i}\<rparr>) = Some (ws, m')"
        using dr nc Some True by (simp add: acquire_drop_def cancel_locked_def)
      from add_permits_locked_ok [OF linked_remove_ready(1) [OF l Some True] _ ap] q
        linked_remove_ready(2) [OF l Some True] cl [OF ap]
      show ?thesis by (simp add: queue_ok_def)
    next
      case False
      obtain r m1 where rm: "remove_waiter_locked i m = (r, m1)" by fastforce
      have c1: "closed m1 = closed m"
        using rm by (auto simp: remove_waiter_locked_def split: list.splits)
      note lr = linked_remove_queued [OF l q Some False rm]
      show ?thesis
      proof (cases r)
        case None
        with dr nc Some False rm lr q show ?thesis
          by (auto simp: acquire_drop_def cancel_locked_def)
      next
        case (Some w)
        show ?thesis
        proof (cases "required w - remaining w = 0")
          case True
          with dr nc \<open>waiter_id a = Some i\<close> False rm Some lr c1 show ?thesis
            by (auto simp: acquire_drop_def cancel_locked_def queue_ok_def)
        next
          case nz: False
          have ap: "add_permits_locked (required w - remaining w) m1 = Some (ws, m')"
            using dr nc \<open>waiter_id a = Some i\<close> False rm Some nz
            by (auto simp: acquire_drop_def cancel_locked_def Let_def split: if_splits)
          from lr Some have l1: "linked m1 F" "queue_shape (queue m1)"
            "accounted m1 F + (required w - remaining w) = accounted m (add_mset a F)" by auto
          from add_permits_locked_ok [OF l1(1,2) ap] l1(3) cl [OF ap] c1 show ?thesis by simp
        qed
      qed
    qed
  qed
qed

section \<open>Every operation keeps the invariant\<close>

lemma sys_new_inv: "sem_inv (sys_new n)"
  by (simp add: sem_inv_def sys_new_def sem_new_def linked_def queue_ok_def accounted_def)

lemma refresh_waker_map:
  "keys (refresh_waker i wk q) = keys q" "map required (refresh_waker i wk q) = map required q"
  "map remaining (refresh_waker i wk q) = map remaining q"
  by (induction q) auto

lemma refresh_waker_set:
  assumes "w \<in> set (refresh_waker i wk q)"
  obtains v where "v \<in> set q" "waiter_key v = waiter_key w" "required v = required w" "remaining v = remaining w"
proof -
  from assms have "\<exists>v\<in>set q. waiter_key v = waiter_key w \<and> required v = required w \<and> remaining v = remaining w"
    by (induction q) (auto split: if_splits)
  then show thesis using that by blast
qed

lemma refresh_waker_ok:
  assumes "linked m F" "queue_ok m"
  shows "linked (m\<lparr>queue := refresh_waker i wk (queue m)\<rparr>) F"
    "queue_ok (m\<lparr>queue := refresh_waker i wk (queue m)\<rparr>)"
    "accounted (m\<lparr>queue := refresh_waker i wk (queue m)\<rparr>) F = accounted m F"
proof -
  have p: "partial (refresh_waker i wk q) = partial q" for q
    by (induction q) auto
  have e: "refresh_waker i wk q = [] \<longleftrightarrow> q = []" for q :: "'a waiter list"
    by (cases q) auto
  have sh: "queue_shape (refresh_waker i wk q)" if "queue_shape q" for q
    using that by (cases q) (auto elim!: refresh_waker_set)
  show "linked (m\<lparr>queue := refresh_waker i wk (queue m)\<rparr>) F"
    using assms(1) by (auto simp: linked_def refresh_waker_map e elim!: refresh_waker_set)
  show "queue_ok (m\<lparr>queue := refresh_waker i wk (queue m)\<rparr>)"
    using assms(2) sh by (simp add: queue_ok_def e)
  show "accounted (m\<lparr>queue := refresh_waker i wk (queue m)\<rparr>) F = accounted m F"
    by (simp add: accounted_def p)
qed

lemma enqueue_ok:
  assumes l: "linked m (add_mset a F)" and a: "waiter_id a = None" and nc: "\<not> closed m"
    and rem: "0 < rem" "rem \<le> acq_permits a"
    and sh: "queue_shape (queue m)" "permits m = 0" "queue m \<noteq> [] \<longrightarrow> rem = acq_permits a"
    and en: "enqueue wk rem a m = (a', m')"
  shows "linked m' (add_mset a' F) \<and> queue_ok m' \<and> closed m' = closed m \<and>
    accounted m' (add_mset a' F) = accounted m (add_mset a F) + (acq_permits a - rem)"
proof -
  let ?i = "next_waiter_id m"
  have a': "a' = a\<lparr>waiter_id := Some ?i\<rparr>" and m': "m' = m\<lparr>next_waiter_id := ?i + 1,
      queue := queue m @ [\<lparr>waiter_key = ?i, required = acq_permits a, remaining = rem, waker = wk\<rparr>]\<rparr>"
    using en by (auto simp: enqueue_def Let_def)
  have W: "wait_ids F = mset (keys (queue m)) + mset_set (ready m)"
    using l a nc by (simp add: linked_def)
  have lt: "\<forall>j\<in>#wait_ids F. j < ?i"
    using l a by (simp add: linked_def)
  then have ni: "?i \<notin># wait_ids F" by auto
  have fin: "finite (ready m)" using l by (simp add: linked_def)
  have nr: "?i \<notin> ready m" and nk: "?i \<notin> set (keys (queue m))"
    using ni fin by (auto simp: W)
  have "linked m' (add_mset a' F)"
    using l a nc W lt ni nk fin perm_of_absent [OF ni]
    by (auto simp: linked_def a' m' not_in_iff less_Suc_eq)
  moreover have "queue_ok m'"
    using sh rem by (cases "queue m") (auto simp: queue_ok_def m')
  moreover have "(\<Sum>j\<in>ready m. perm_of (add_mset a' F) j) = (\<Sum>j\<in>ready m. perm_of (add_mset a F) j)"
    using nr a by (intro sum.cong) (auto simp: a')
  ultimately show ?thesis
    by (simp add: accounted_def m')
qed

lemma acquire_poll_ok:
  assumes l: "linked m (add_mset a F)" and q: "queue_ok m" and po: "acquire_poll wk a m = (r, a', m')"
  shows "acq_permits a' = acq_permits a \<and> closed m' = closed m \<and>
    (case r of
       Pending \<Rightarrow> linked m' (add_mset a' F) \<and> queue_ok m' \<and>
         accounted m' (add_mset a' F) = accounted m (add_mset a F)
     | ReadyOk \<Rightarrow> completed a' \<and> linked m' F \<and> queue_ok m' \<and> \<not> closed m \<and>
         accounted m' F + acq_permits a = accounted m (add_mset a F)
     | ReadyErr \<Rightarrow> a' = a \<and> m' = m \<and> closed m)"
proof -
  have nc: "\<not> completed a" "0 < acq_permits a" using l by (simp_all add: linked_def)
  show ?thesis
  proof (cases "closed m")
    case True
    with po nc show ?thesis by (auto simp: acquire_poll_def)
  next
    case open_: False
    show ?thesis
    proof (cases "waiter_id a")
      case None
      note rm = linked_remove_None [OF l None]
      show ?thesis
      proof (cases "queue m = [] \<and> acq_permits a \<le> permits m")
        case True
        then have "r = ReadyOk" "a' = a\<lparr>completed := True\<rparr>" "m' = m\<lparr>permits := permits m - acq_permits a\<rparr>"
          using po nc open_ None by (auto simp: acquire_poll_def)
        moreover have "linked (m\<lparr>permits := permits m - acq_permits a\<rparr>) F"
          using rm by (simp add: linked_def)
        ultimately show ?thesis
          using True rm open_ by (simp add: queue_ok_def accounted_def)
      next
        case False
        define rem where "rem = (if queue m = [] then acq_permits a - permits m else acq_permits a)"
        define m0 where "m0 = (if queue m = [] then m\<lparr>permits := 0\<rparr> else m)"
        have r: "r = Pending" "enqueue wk rem a m0 = (a', m')"
          using po nc open_ None False
          by (auto simp: acquire_poll_def Let_def rem_def m0_def split: prod.splits if_splits)
        have l0: "linked m0 (add_mset a F)" "\<not> closed m0" "closed m0 = closed m"
          using l open_ by (auto simp: m0_def linked_def)
        have e: "linked m' (add_mset a' F) \<and> queue_ok m' \<and> closed m' = closed m0 \<and>
            accounted m' (add_mset a' F) = accounted m0 (add_mset a F) + (acq_permits a - rem)"
          by (rule enqueue_ok [OF l0(1) None l0(2) _ _ _ _ _ r(2)])
            (use q nc False in \<open>auto simp: rem_def m0_def queue_ok_def\<close>)
        have "acq_permits a' = acq_permits a"
          using r(2) by (auto simp: enqueue_def Let_def)
        moreover have "accounted m0 (add_mset a F) + (acq_permits a - rem) = accounted m (add_mset a F)"
          using False by (auto simp: m0_def rem_def accounted_def)
        ultimately show ?thesis using e r l0 by simp
      qed
    next
      case (Some i)
      show ?thesis
      proof (cases "i \<in> ready m")
        case True
        then have "r = ReadyOk" "a' = a\<lparr>waiter_id := None, completed := True\<rparr>" "m' = m\<lparr>ready := ready m - {i}\<rparr>"
          using po nc open_ Some by (auto simp: acquire_poll_def)
        with linked_remove_ready [OF l Some True] q open_ show ?thesis
          by (simp add: queue_ok_def)
      next
        case False
        have "i \<in># wait_ids (add_mset a F)" using Some by simp
        then have "i \<in> set (keys (queue m))"
          using l open_ False by (auto simp: linked_def)
        then have "r = Pending" "a' = a" "m' = m\<lparr>queue := refresh_waker i wk (queue m)\<rparr>"
          using po nc open_ Some False by (auto simp: acquire_poll_def)
        with refresh_waker_ok [OF l q] show ?thesis by simp
      qed
    qed
  qed
qed


lemma add_permits_ok:
  assumes "linked m F" "queue_ok m" "add_permits n m = Some (ws, m')"
  shows "linked m' F \<and> queue_ok m' \<and> accounted m' F = accounted m F + n \<and> closed m' = closed m"
proof (cases "n = 0")
  case False
  then have ap: "add_permits_locked n m = Some (ws, m')"
    using assms(3) by (simp add: add_permits_def)
  moreover have "closed m' = closed m"
    using ap by (auto simp: add_permits_locked_def split: if_splits prod.splits)
  ultimately show ?thesis
    using add_permits_locked_ok [OF assms(1) _ ap] assms(2) by (simp add: queue_ok_def)
qed (use assms in \<open>simp add: add_permits_def\<close>)

lemma sem_step_inv:
  assumes "sem_step s s'" "sem_inv s"
  shows "sem_inv s'"
  using assms
proof (induction rule: sem_step.induct)
  case (new_acquire n s)
  then show ?case by (simp add: sem_inv_def linked_new accounted_new)
next
  case (poll_pending s a F wk a' m)
  then have "linked (sem s) (add_mset a F)" "queue_ok (sem s)" by (simp_all add: sem_inv_def)
  from acquire_poll_ok [OF this poll_pending(2)] poll_pending show ?case by (simp add: sem_inv_def)
next
  case (poll_ok s a F wk a' m ws m')
  then have "linked (sem s) (add_mset a F)" "queue_ok (sem s)" by (simp_all add: sem_inv_def)
  from acquire_poll_ok [OF this poll_ok(2)] poll_ok show ?case
    by (auto simp: sem_inv_def acquire_drop_def)
next
  case (poll_err s a F wk a' m ws m')
  then have l: "linked (sem s) (add_mset a F)" "queue_ok (sem s)" by (simp_all add: sem_inv_def)
  from acquire_poll_ok [OF l poll_err(2)] have "a' = a" "m = sem s" by auto
  with acquire_drop_ok [OF l] poll_err show ?case by (auto simp: sem_inv_def)
next
  case (drop_future s a F ws m)
  then have l: "linked (sem s) (add_mset a F)" "queue_ok (sem s)" by (simp_all add: sem_inv_def)
  from acquire_drop_ok [OF l] drop_future show ?case by (auto simp: sem_inv_def)
next
  case (try_acquire_ok n s g m)
  then have "g = n" "m = sem s\<lparr>permits := permits (sem s) - n\<rparr>" "n \<le> permits (sem s)" "queue (sem s) = []"
    by (auto simp: try_acquire_many_def try_acquire_def split: if_splits)
  with try_acquire_ok show ?case
    by (auto simp: sem_inv_def linked_def queue_ok_def accounted_def)
next
  case (drop_guard s n G ws m)
  then have "add_permits n (sem s) = Some (ws, m)"
    by (auto simp: permit_drop_def add_permits_def split: if_splits)
  with drop_guard show ?case
    using add_permits_ok [of "sem s" "futs s" n ws m] by (auto simp: sem_inv_def)
next
  case (forget_guard s n G ws m)
  then have "m = sem s" by (simp add: permit_forget_def permit_drop_def)
  with forget_guard show ?case by (auto simp: sem_inv_def)
next
  case (more_permits n s ws m)
  then show ?case
    using add_permits_ok [of "sem s" "futs s" n ws m] by (auto simp: sem_inv_def)
next
  case (close_sem s ws m)
  then have l: "linked (sem s) (futs s)" by (simp add: sem_inv_def)
  show ?case
  proof (cases "closed (sem s)")
    case False
    with close_sem have m: "m = sem s\<lparr>closed := True, queue := []\<rparr>"
      by (auto simp: close_def)
    have "mset_set (ready (sem s)) \<subseteq># wait_ids (futs s)"
      using l False by (simp add: linked_def)
    then have "linked m (futs s)"
      using l by (auto simp: linked_def m)
    moreover have "accounted m (futs s) \<le> accounted (sem s) (futs s)"
      by (simp add: accounted_def m)
    ultimately show ?thesis
      using close_sem by (auto simp: sem_inv_def m queue_ok_def)
  qed (use close_sem in \<open>auto simp: close_def\<close>)
qed

abbreviation sem_reach :: "nat \<Rightarrow> 'w sem_sys \<Rightarrow> bool" where
  "sem_reach n \<equiv> sem_step\<^sup>*\<^sup>* (sys_new n)"

lemma sem_reach_inv: "sem_reach n s \<Longrightarrow> sem_inv s"
  by (induction rule: rtranclp_induct) (auto intro: sem_step_inv sys_new_inv)


lemma sem_inv_guards: "sem_inv s \<Longrightarrow> \<Sum>\<^sub># (guards s) \<le> total s"
  by (simp add: sem_inv_def)

text \<open>
  What users of a pool of permits rely on: the guards that are held never exceed its size.
\<close>

locale permit_pool =
  fixes reach :: "'s \<Rightarrow> bool" and held :: "'s \<Rightarrow> nat multiset" and pool_size :: nat
  assumes held_bounded: "reach s \<Longrightarrow> \<Sum>\<^sub># (held s) \<le> pool_size"
begin

lemma exclusive:
  assumes "reach s" "pool_size \<in># held s" "0 \<notin># held s"
  shows "held s = {#pool_size#}"
proof -
  from assms(2) obtain G where G: "held s = add_mset pool_size G"
    by (metis insert_DiffM)
  with held_bounded [OF assms(1)] have "\<Sum>\<^sub># G = 0" by simp
  then have "\<forall>g\<in>#G. g = 0" by simp
  with assms(3) G have "G = {#}" by (metis insert_noteq_member multiset_nonemptyE union_iff add_mset_add_single)
  with G show ?thesis by simp
qed

lemma unit_guards:
  assumes "reach s" "\<forall>g\<in>#held s. g = 1"
  shows "size (held s) \<le> pool_size"
proof -
  have "\<forall>g\<in>#M. g = 1 \<Longrightarrow> \<Sum>\<^sub># M = size M" for M :: "nat multiset"
    by (induction M) auto
  with assms held_bounded [of s] show ?thesis by metis
qed

end

interpretation sem_pool: permit_pool "\<lambda>s. sem_inv s \<and> total s = n" guards n for n
  by unfold_locales (auto dest: sem_inv_guards)

section \<open>Properties of the semaphore\<close>

text \<open>
  C4. Permits are conserved: in every state a semaphore can reach, the permits that are
  available, reserved for the waiter at the head, granted to futures that have not been
  polled since, and held by guards add up to all permits, as long as the semaphore has not
  been closed. Guards never hold more than that, closed or not.
\<close>

theorem semaphore_conservation:
  assumes "sem_reach n s"
  shows "\<Sum>\<^sub># (guards s) \<le> total s \<and>
    (\<not> closed (sem s) \<longrightarrow>
      permits (sem s) + (\<Sum>w\<leftarrow>queue (sem s). required w - remaining w) +
      (\<Sum>i\<in>ready (sem s). perm_of (futs s) i) + \<Sum>\<^sub># (guards s) = total s)"
  using sem_reach_inv [OF assms] by (auto simp: sem_inv_def accounted_def partial_def)

text \<open>
  Fairness: in every reachable state, permits are available only when nobody waits, only
  the head of the queue has been given permits, and adding permits satisfies a prefix of the
  queue, in arrival order, waking exactly those waiters in that order.
\<close>

theorem semaphore_fifo:
  assumes "sem_reach n s" and "add_permits k (sem s) = Some (ws, m)" and "0 < k"
  shows "(queue (sem s) \<noteq> [] \<longrightarrow> permits (sem s) = 0) \<and>
    (\<forall>w\<in>set (tl (queue (sem s))). remaining w = required w) \<and>
    (\<exists>A B. queue (sem s) = A @ B \<and> ws = map waker A \<and>
       ready m = ready (sem s) \<union> set (map waiter_key A) \<and>
       map waiter_key (queue m) = map waiter_key B \<and> (queue m \<noteq> [] \<longrightarrow> permits m = 0))"
proof -
  have q: "queue_ok (sem s)" using sem_reach_inv [OF assms(1)] by (simp add: sem_inv_def)
  obtain p q' r' where asg: "assign_permits (permits (sem s) + k) (queue (sem s)) (ready (sem s)) [] = (p, q', r', ws)"
    and m: "m = sem s\<lparr>permits := p, queue := q', ready := r'\<rparr>"
    using assms(2,3) by (auto simp: add_permits_def add_permits_locked_def split: if_splits prod.splits)
  have "queue_shape (queue (sem s))" using q by (simp add: queue_ok_def)
  from assign_permits_effect [OF this asg] q show ?thesis
    by (auto simp: m queue_ok_def queue_shape_def)
qed

text \<open>
  The fallback of \<open>Acquire::poll\<close> that treats a lost waiter as satisfied is dead code:
  a waiting future of an open semaphore is always queued or marked ready, never both, and
  polling it therefore succeeds exactly when it is marked ready.
\<close>

theorem semaphore_no_lost_waiter:
  assumes "sem_reach n s" and "a \<in># futs s" and "waiter_id a = Some i" and "\<not> closed (sem s)"
  shows "(i \<in> ready (sem s) \<longleftrightarrow> i \<notin> set (map waiter_key (queue (sem s)))) \<and>
    (fst (acquire_poll wk a (sem s)) = (if i \<in> ready (sem s) then ReadyOk else Pending))"
proof -
  have l: "linked (sem s) (futs s)" using sem_reach_inv [OF assms(1)] by (simp add: sem_inv_def)
  obtain F where F: "futs s = add_mset a F" using assms(2) by (metis insert_DiffM)
  have "i \<in># wait_ids (futs s)" using F assms(3) by simp
  then have "i \<in> set (keys (queue (sem s))) \<union> ready (sem s)"
    using l assms(4) by (auto simp: linked_def)
  with linked_distinct(2) [OF l] have "i \<in> ready (sem s) \<longleftrightarrow> i \<notin> set (keys (queue (sem s)))" by auto
  moreover have "\<not> completed a" using l F by (simp add: linked_def)
  ultimately show ?thesis using assms(3,4) by (auto simp: acquire_poll_def)
qed

section \<open>Instances\<close>

text \<open>
  Two permits; a future that asks for three is polled with waker 7 and waits at the head of
  the queue, holding both permits and missing one.
\<close>

definition demo_sem :: "nat sem_sys" where
  "demo_sem =
     \<lparr>sem = \<lparr>permits = 0, closed = False, next_waiter_id = 1,
             queue = [\<lparr>waiter_key = 0, required = 3, remaining = 1, waker = 7\<rparr>], ready = {}\<rparr>,
      futs = {#\<lparr>acq_permits = 3, waiter_id = Some 0, completed = False\<rparr>#}, guards = {#}, total = 2\<rparr>"

lemma demo_sem_reach: "sem_reach 2 demo_sem"
proof -
  let ?s1 = "(sys_new 2 :: nat sem_sys)\<lparr>futs := add_mset (acquire_new 3) (futs (sys_new 2 :: nat sem_sys))\<rparr>"
  have "sem_step (sys_new 2) ?s1"
    by (rule new_acquire) simp
  moreover have "sem_step ?s1 (?s1\<lparr>sem := sem demo_sem, futs := add_mset
      \<lparr>acq_permits = 3, waiter_id = Some 0, completed = False\<rparr> {#}\<rparr>)"
    by (rule poll_pending [of _ "acquire_new 3" _ 7])
      (simp_all add: sys_new_def sem_new_def acquire_poll_def acquire_new_def enqueue_def demo_sem_def)
  moreover have "?s1\<lparr>sem := sem demo_sem, futs := add_mset
      \<lparr>acq_permits = 3, waiter_id = Some 0, completed = False\<rparr> {#}\<rparr> = demo_sem"
    by (simp add: sys_new_def demo_sem_def)
  ultimately show ?thesis
    by (metis rtranclp.rtrancl_into_rtrancl rtranclp.rtrancl_refl)
qed

theorem semaphore_conservation_witness:
  "permits (sem demo_sem) + (\<Sum>w\<leftarrow>queue (sem demo_sem). required w - remaining w) = 2"
  using semaphore_conservation [OF demo_sem_reach] by (simp add: demo_sem_def)

theorem semaphore_fifo_witness:
  "\<exists>ws m A B. add_permits 5 (sem demo_sem) = Some (ws, m) \<and> queue (sem demo_sem) = A @ B \<and> ws = map waker A"
proof -
  obtain ws m where ap: "add_permits 5 (sem demo_sem) = Some (ws, m)"
    by (simp add: add_permits_def add_permits_locked_def demo_sem_def)
  from semaphore_fifo [OF demo_sem_reach ap] ap show ?thesis by auto
qed

theorem semaphore_no_lost_waiter_witness:
  "fst (acquire_poll 8 \<lparr>acq_permits = 3, waiter_id = Some 0, completed = False\<rparr> (sem demo_sem)) = Pending"
  using semaphore_no_lost_waiter [OF demo_sem_reach,
      of "\<lparr>acq_permits = 3, waiter_id = Some 0, completed = False\<rparr>" 0 8]
  by (simp add: demo_sem_def)

end
