(* ===== verification/Rw_Lock.thy ===== *)
theory Rw_Lock
  imports Batch_Semaphore
begin

text \<open>
  \<open>des-tokio/src/sync/rwlock.rs\<close>: a reader-writer lock on top of the semaphore. A reader
  takes one permit, a writer all \<open>MAX_READS\<close> of them. The state of a lock holds its private
  semaphore, the futures of \<open>read\<close> and \<open>write\<close> that are under way and the guards that exist,
  each with the access it stands for. The guarded value plays no role in the locking protocol
  and is left out.
\<close>

definition MAX_READS :: nat where
  "MAX_READS = unat (drop_bit 3 (- 1 :: u32))"

text \<open>What a future is going to return and a guard gives: a read guard or a write guard.\<close>

datatype access = Shared | Exclusive

record 'w rwlock =
  rw_sem :: "'w sem_state"
  rw_futs :: "(access \<times> acquire) multiset"
  rw_guards :: "(access \<times> nat) multiset"

definition rwlock_new :: "'w rwlock" where
  "rwlock_new = \<lparr>rw_sem = sem_new MAX_READS, rw_futs = {#}, rw_guards = {#}\<rparr>"

definition read_lock :: "access \<times> acquire" where
  "read_lock = (Shared, acquire_new 1)"

definition write_lock :: "access \<times> acquire" where
  "write_lock = (Exclusive, acquire_new MAX_READS)"

definition try_read :: "'w sem_state \<Rightarrow> (access \<times> nat) option \<times> 'w sem_state" where
  "try_read s =
     (case try_acquire_many 1 s of (Inr g, s') \<Rightarrow> (Some (Shared, g), s') | (Inl _, s') \<Rightarrow> (None, s'))"

definition try_write :: "'w sem_state \<Rightarrow> (access \<times> nat) option \<times> 'w sem_state" where
  "try_write s =
     (case try_acquire_many MAX_READS s of
        (Inr g, s') \<Rightarrow> (Some (Exclusive, g), s')
      | (Inl _, s') \<Rightarrow> (None, s'))"

text \<open>
  The uses of a lock: calls of \<open>read\<close> and \<open>write\<close>, polls and drops of their futures, the
  two \<open>try_\<close> operations, and drops of guards. There is no rule for a poll that returns an
  error: \<open>read\<close> and \<open>write\<close> would panic.
\<close>

inductive rw_step :: "'w rwlock \<Rightarrow> 'w rwlock \<Rightarrow> bool" where
  rw_read: "rw_step s (s\<lparr>rw_futs := add_mset read_lock (rw_futs s)\<rparr>)"
| rw_write: "rw_step s (s\<lparr>rw_futs := add_mset write_lock (rw_futs s)\<rparr>)"
| rw_pending: "rw_futs s = add_mset (x, a) F \<Longrightarrow> acquire_poll wk a (rw_sem s) = (Pending, a', m) \<Longrightarrow>
     rw_step s (s\<lparr>rw_sem := m, rw_futs := add_mset (x, a') F\<rparr>)"
| rw_ready: "rw_futs s = add_mset (x, a) F \<Longrightarrow> acquire_poll wk a (rw_sem s) = (ReadyOk, a', m) \<Longrightarrow>
     acquire_drop a' m = Some (ws, m') \<Longrightarrow>
     rw_step s (s\<lparr>rw_sem := m', rw_futs := F, rw_guards := add_mset (x, acq_permits a) (rw_guards s)\<rparr>)"
| rw_drop_future: "rw_futs s = add_mset (x, a) F \<Longrightarrow> acquire_drop a (rw_sem s) = Some (ws, m) \<Longrightarrow>
     rw_step s (s\<lparr>rw_sem := m, rw_futs := F\<rparr>)"
| rw_try_read: "try_read (rw_sem s) = (Some g, m) \<Longrightarrow>
     rw_step s (s\<lparr>rw_sem := m, rw_guards := add_mset g (rw_guards s)\<rparr>)"
| rw_try_write: "try_write (rw_sem s) = (Some g, m) \<Longrightarrow>
     rw_step s (s\<lparr>rw_sem := m, rw_guards := add_mset g (rw_guards s)\<rparr>)"
| rw_drop_guard: "rw_guards s = add_mset (x, n) G \<Longrightarrow> permit_drop n (rw_sem s) = Some (ws, m) \<Longrightarrow>
     rw_step s (s\<lparr>rw_sem := m, rw_guards := G\<rparr>)"

section \<open>The lock uses its semaphore\<close>

text \<open>The lock as a user of the semaphore: the roles are forgotten.\<close>

definition sem_view :: "'w rwlock \<Rightarrow> 'w sem_sys" where
  "sem_view s = \<lparr>sem = rw_sem s, futs = image_mset snd (rw_futs s),
     guards = image_mset snd (rw_guards s), total = MAX_READS\<rparr>"

lemma MAX_READS_eq: "MAX_READS = 536870911"
  by (simp add: MAX_READS_def unat_drop_bit_eq drop_bit_eq_div unsigned_minus_1_eq_mask mask_eq_exp_minus_1)

lemma try_rw_ok:
  "try_read m = (Some g, m') \<Longrightarrow> g = (Shared, 1) \<and> try_acquire_many 1 m = (Inr 1, m')"
  "try_write m = (Some g, m') \<Longrightarrow> g = (Exclusive, MAX_READS) \<and> try_acquire_many MAX_READS m = (Inr MAX_READS, m')"
  by (auto simp: try_read_def try_write_def try_acquire_many_def try_acquire_def MAX_READS_eq
      split: if_splits prod.splits sum.splits)

lemma rw_step_sem: "rw_step s s' \<Longrightarrow> sem_step (sem_view s) (sem_view s')"
proof (induction rule: rw_step.induct)
  case (rw_read s)
  then show ?case
    using new_acquire [of 1 "sem_view s"] by (simp add: sem_view_def read_lock_def)
next
  case (rw_write s)
  then show ?case
    using new_acquire [of MAX_READS "sem_view s"] by (simp add: sem_view_def write_lock_def MAX_READS_eq)
next
  case (rw_pending s x a F wk a' m)
  then show ?case
    using poll_pending [of "sem_view s" a "image_mset snd F" wk a' m] by (simp add: sem_view_def)
next
  case (rw_ready s x a F wk a' m ws m')
  then show ?case
    using poll_ok [of "sem_view s" a "image_mset snd F" wk a' m ws m'] by (simp add: sem_view_def)
next
  case (rw_drop_future s x a F ws m)
  then show ?case
    using drop_future [of "sem_view s" a "image_mset snd F" ws m] by (simp add: sem_view_def)
next
  case (rw_try_read s g m)
  then show ?case
    using try_acquire_ok [of 1 "sem_view s" 1 m] try_rw_ok(1) [OF rw_try_read] by (auto simp: sem_view_def)
next
  case (rw_try_write s g m)
  then show ?case
    using try_acquire_ok [of MAX_READS "sem_view s" MAX_READS m] try_rw_ok(2) [OF rw_try_write]
    by (auto simp: sem_view_def MAX_READS_eq)
next
  case (rw_drop_guard s x n G ws m)
  then show ?case
    using drop_guard [of "sem_view s" n "image_mset snd G" ws m] by (simp add: sem_view_def)
qed

text \<open>The permits that an access stands for; the lock's semaphore is never closed.\<close>

fun access_permits :: "access \<Rightarrow> nat" where
  "access_permits Shared = 1"
| "access_permits Exclusive = MAX_READS"

definition rw_inv :: "'w rwlock \<Rightarrow> bool" where
  "rw_inv s \<longleftrightarrow> sem_inv (sem_view s) \<and> \<not> closed (rw_sem s) \<and>
     (\<forall>(x, a)\<in>#rw_futs s. acq_permits a = access_permits x) \<and>
     (\<forall>(x, g)\<in>#rw_guards s. g = access_permits x)"

lemma acquire_poll_closed: "closed (snd (snd (acquire_poll wk a m))) = closed m"
  "acq_permits (fst (snd (acquire_poll wk a m))) = acq_permits a"
  by (auto simp: acquire_poll_def enqueue_def Let_def split: option.splits)

lemma add_permits_locked_closed: "add_permits_locked n m = Some (ws, m') \<Longrightarrow> closed m' = closed m"
  by (auto simp: add_permits_locked_def split: if_splits prod.splits)

lemma acquire_drop_closed: "acquire_drop a m = Some (ws, m') \<Longrightarrow> closed m' = closed m"
  by (auto simp: acquire_drop_def cancel_locked_def remove_waiter_locked_def Let_def
      split: if_splits option.splits list.splits dest!: add_permits_locked_closed)

lemma permit_drop_closed: "permit_drop n m = Some (ws, m') \<Longrightarrow> closed m' = closed m"
  by (auto simp: permit_drop_def add_permits_def split: if_splits dest!: add_permits_locked_closed)

lemma rw_step_inv:
  assumes "rw_step s s'" "rw_inv s"
  shows "rw_inv s'"
proof -
  have "sem_inv (sem_view s')"
    using sem_step_inv [OF rw_step_sem [OF assms(1)]] assms(2) by (simp add: rw_inv_def)
  moreover from assms have "\<not> closed (rw_sem s') \<and>
      (\<forall>(x, a)\<in>#rw_futs s'. acq_permits a = access_permits x) \<and>
      (\<forall>(x, g)\<in>#rw_guards s'. g = access_permits x)"
  proof (induction rule: rw_step.induct)
    case (rw_pending s x a F wk a' m)
    then show ?case
      using acquire_poll_closed [of wk a "rw_sem s"] by (auto simp: rw_inv_def)
  next
    case (rw_ready s x a F wk a' m ws m')
    then show ?case
      using acquire_poll_closed [of wk a "rw_sem s"] acquire_drop_closed [of a' m ws m']
      by (auto simp: rw_inv_def)
  next
    case (rw_try_read s g m)
    then show ?case
      using try_rw_ok(1) [OF rw_try_read(1)]
      by (auto simp: rw_inv_def try_acquire_many_def try_acquire_def split: if_splits)
  next
    case (rw_try_write s g m)
    then show ?case
      using try_rw_ok(2) [OF rw_try_write(1)]
      by (auto simp: rw_inv_def try_acquire_many_def try_acquire_def split: if_splits)
  qed (auto simp: rw_inv_def read_lock_def write_lock_def acquire_new_def dest: acquire_drop_closed permit_drop_closed)
  ultimately show ?thesis by (simp add: rw_inv_def)
qed

abbreviation rw_reach :: "'w rwlock \<Rightarrow> bool" where
  "rw_reach \<equiv> rw_step\<^sup>*\<^sup>* rwlock_new"

lemma rwlock_new_inv: "rw_inv rwlock_new"
  using sys_new_inv [of MAX_READS]
  by (simp add: rw_inv_def rwlock_new_def sem_view_def sys_new_def) (simp add: sem_new_def)

lemma rw_reach_inv: "rw_reach s \<Longrightarrow> rw_inv s"
  by (induction rule: rtranclp_induct) (auto intro: rw_step_inv rwlock_new_inv)

text \<open>
  C5. Mutual exclusion: while a write guard exists there is no other guard, and at most
  \<open>MAX_READS\<close> guards exist at any time. Awaiting \<open>read\<close> or \<open>write\<close> never hits the panic for
  a closed semaphore.
\<close>

theorem rwlock_exclusion:
  assumes "rw_reach s"
  shows "((Exclusive, g) \<in># rw_guards s \<longrightarrow> rw_guards s = {#(Exclusive, g)#}) \<and>
    size (rw_guards s) \<le> MAX_READS \<and>
    (\<forall>(x, a)\<in>#rw_futs s. fst (acquire_poll wk a (rw_sem s)) \<noteq> ReadyErr)"
proof -
  have inv: "rw_inv s" by (rule rw_reach_inv [OF assms])
  then have pool: "sem_inv (sem_view s) \<and> total (sem_view s) = MAX_READS"
    by (simp add: rw_inv_def sem_view_def)
  have p: "n = 1 \<or> n = MAX_READS" if "n \<in># guards (sem_view s)" for n
  proof -
    from that obtain y where "(y, n) \<in># rw_guards s" by (auto simp: sem_view_def)
    with inv have "n = access_permits y" by (auto simp: rw_inv_def)
    then show ?thesis by (cases y) auto
  qed
  have excl: "guards (sem_view s) = {#MAX_READS#}" if "MAX_READS \<in># guards (sem_view s)"
    by (rule sem_pool.exclusive [OF pool that]) (use p in \<open>force simp: MAX_READS_eq\<close>)
  have "rw_guards s = {#(Exclusive, g)#}" if g: "(Exclusive, g) \<in># rw_guards s"
  proof -
    from g inv have "g = MAX_READS" by (auto simp: rw_inv_def)
    with g have "MAX_READS \<in># guards (sem_view s)" by (force simp: sem_view_def)
    from excl [OF this] have "size (rw_guards s) = 1"
      by (metis sem_view_def sem_sys.select_convs(3) size_image_mset size_single)
    with g show ?thesis by (metis size_1_singleton_mset set_mset_single singletonD)
  qed
  moreover have "size (rw_guards s) \<le> MAX_READS"
  proof (cases "MAX_READS \<in># guards (sem_view s)")
    case True
    from excl [OF this] have "size (guards (sem_view s)) = 1" by simp
    then show ?thesis by (simp add: sem_view_def MAX_READS_eq)
  next
    case False
    have "size (guards (sem_view s)) \<le> MAX_READS"
      by (rule sem_pool.unit_guards [OF pool]) (use p False in auto)
    then show ?thesis by (simp add: sem_view_def)
  qed
  moreover have "fst (acquire_poll wk a (rw_sem s)) \<noteq> ReadyErr" for a
    using inv by (auto simp: rw_inv_def acquire_poll_def enqueue_def Let_def split: option.splits)
  ultimately show ?thesis by auto
qed

text \<open>A lock with one writer.\<close>

definition written_lock :: "unit rwlock" where
  "written_lock = rwlock_new\<lparr>rw_sem := (sem_new MAX_READS)\<lparr>permits := 0\<rparr>,
     rw_guards := {#(Exclusive, MAX_READS)#}\<rparr>"

theorem rwlock_exclusion_witness:
  "rw_reach written_lock \<and> (Exclusive, MAX_READS) \<in># rw_guards written_lock \<and>
     fst (try_read (rw_sem written_lock)) = None \<and> rw_guards written_lock = {#(Exclusive, MAX_READS)#}"
proof -
  have "rw_step rwlock_new written_lock"
    using rw_try_write [of "rwlock_new :: unit rwlock" "(Exclusive, MAX_READS)" "(sem_new MAX_READS)\<lparr>permits := 0\<rparr>"]
    by (simp add: try_write_def try_acquire_many_def try_acquire_def rwlock_new_def
        sem_new_def MAX_READS_eq written_lock_def)
  then have r: "rw_reach written_lock" by (rule r_into_rtranclp)
  have "(Exclusive, MAX_READS) \<in># rw_guards written_lock"
    by (simp add: written_lock_def)
  moreover have "fst (try_read (rw_sem written_lock)) = None"
    by (simp add: written_lock_def try_read_def try_acquire_many_def try_acquire_def sem_new_def)
  ultimately show ?thesis using rwlock_exclusion [OF r, of MAX_READS] r by blast
qed

end
