(* ===== verification/Mpsc.thy ===== *)
theory Mpsc
  imports Wakers
begin

text \<open>
  \<open>des-tokio/src/sync/mpsc.rs\<close>: a bounded channel with many senders and one receiver.
  Wakers are values of a type \<open>'w\<close>; operations return the wakers they call, in order.
  Futures run on one thread, so a poll is one transition, also where it releases and takes
  the lock again. Waiter identifiers are natural numbers.
\<close>

section \<open>State\<close>

datatype try_send_error = SendFull | SendClosed

datatype try_recv_error = RecvEmpty | RecvClosed

record ('a, 'w) mpsc_state =
  mp_capacity :: nat
  mp_queue :: "'a list"
  receiver_alive :: bool
  sender_count :: nat
  receiver_waker :: "'w option"
  next_waiter :: nat
  send_wait_order :: "nat list"
  send_waiters :: "nat \<rightharpoonup> 'w"

definition mpsc_new :: "nat \<Rightarrow> ('a, 'w) mpsc_state" where
  "mpsc_new capacity =
     \<lparr>mp_capacity = capacity, mp_queue = [], receiver_alive = True, sender_count = 1,
      receiver_waker = None, next_waiter = 0, send_wait_order = [], send_waiters = Map.empty\<rparr>"

text \<open>\<open>channel\<close> asserts a positive capacity.\<close>

definition channel :: "nat \<Rightarrow> ('a, 'w) mpsc_state option" where
  "channel capacity = (if 0 < capacity then Some (mpsc_new capacity) else None)"

definition wake_receiver :: "('a, 'w) mpsc_state \<Rightarrow> 'w list \<times> ('a, 'w) mpsc_state" where
  "wake_receiver s =
     (case receiver_waker s of
        Some w \<Rightarrow> ([w], s\<lparr>receiver_waker := None\<rparr>)
      | None \<Rightarrow> ([], s))"

text \<open>The loop of \<open>wake_one_sender\<close> over the wait order.\<close>

fun pop_waiter :: "nat list \<Rightarrow> (nat \<rightharpoonup> 'w) \<Rightarrow> 'w list \<times> nat list \<times> (nat \<rightharpoonup> 'w)" where
  "pop_waiter [] ws = ([], [], ws)"
| "pop_waiter (i # order) ws =
     (case ws i of
        Some w \<Rightarrow> ([w], order, ws(i := None))
      | None \<Rightarrow> pop_waiter order ws)"

definition wake_one_sender :: "('a, 'w) mpsc_state \<Rightarrow> 'w list \<times> ('a, 'w) mpsc_state" where
  "wake_one_sender s =
     (let (woken, order, ws) = pop_waiter (send_wait_order s) (send_waiters s)
      in (woken, s\<lparr>send_wait_order := order, send_waiters := ws\<rparr>))"

fun wake_ids :: "nat list \<Rightarrow> (nat \<rightharpoonup> 'w) \<Rightarrow> 'w list \<times> (nat \<rightharpoonup> 'w)" where
  "wake_ids [] ws = ([], ws)"
| "wake_ids (i # is) ws =
     (case ws i of
        Some w \<Rightarrow> (let (woken, ws) = wake_ids is (ws(i := None)) in (w # woken, ws))
      | None \<Rightarrow> wake_ids is ws)"

text \<open>
  Waiters that are left after the ordered ones are drained in the order of the hash map;
  \<open>rest_order\<close> lists the remaining wakers in some order.
\<close>

definition wake_all_senders ::
  "((nat \<rightharpoonup> 'w) \<Rightarrow> 'w list) \<Rightarrow> ('a, 'w) mpsc_state \<Rightarrow> 'w list \<times> ('a, 'w) mpsc_state"
where
  "wake_all_senders rest_order s =
     (let (woken, ws) = wake_ids (send_wait_order s) (send_waiters s)
      in (woken @ rest_order ws, s\<lparr>send_wait_order := [], send_waiters := Map.empty\<rparr>))"

section \<open>Senders\<close>

definition try_send :: "'a \<Rightarrow> ('a, 'w) mpsc_state \<Rightarrow> (try_send_error + unit) \<times> 'w list \<times> ('a, 'w) mpsc_state" where
  "try_send v s =
     (if \<not> receiver_alive s then (Inl SendClosed, [], s)
      else if mp_capacity s \<le> length (mp_queue s) then (Inl SendFull, [], s)
      else (let s = s\<lparr>mp_queue := mp_queue s @ [v]\<rparr>;
                (woken, s) = wake_receiver s
            in (Inr (), woken, s)))"

definition sender_clone :: "('a, 'w) mpsc_state \<Rightarrow> ('a, 'w) mpsc_state" where
  "sender_clone s = s\<lparr>sender_count := sender_count s + 1\<rparr>"

definition sender_drop :: "('a, 'w) mpsc_state \<Rightarrow> 'w list \<times> ('a, 'w) mpsc_state" where
  "sender_drop s =
     (let s = s\<lparr>sender_count := sender_count s - 1\<rparr>
      in if sender_count s = 0 then wake_receiver s else ([], s))"

definition num_waiting_senders :: "('a, 'w) mpsc_state \<Rightarrow> nat" where
  "num_waiting_senders s = card (dom (send_waiters s))"

text \<open>The future of \<open>send\<close>; \<open>None\<close> as a value is a completed future.\<close>

record 'a send_future =
  sf_value :: "'a option"
  sf_waiter_id :: "nat option"

definition send_future_new :: "'a \<Rightarrow> 'a send_future" where
  "send_future_new v = \<lparr>sf_value = Some v, sf_waiter_id = None\<rparr>"

text \<open>
  Registering as a waiter, for the first time or again after a wake-up; the value is
  handed back when the receiver is gone.
\<close>

definition register_waiter ::
  "'w \<Rightarrow> 'a send_future \<Rightarrow> ('a, 'w) mpsc_state
    \<Rightarrow> (('a + unit) poll \<times> 'w list \<times> 'a send_future \<times> ('a, 'w) mpsc_state) option"
where
  "register_waiter w f s =
     (let (i, s) = (case sf_waiter_id f of
                      None \<Rightarrow> (next_waiter s,
                        s\<lparr>next_waiter := next_waiter s + 1, send_wait_order := send_wait_order s @ [next_waiter s]\<rparr>)
                    | Some i \<Rightarrow> (i, s\<lparr>send_wait_order := send_wait_order s @ [i]\<rparr>));
          f = f\<lparr>sf_waiter_id := Some i\<rparr>
      in if \<not> receiver_alive s
         then (case sf_value f of
                 None \<Rightarrow> None
               | Some v \<Rightarrow> Some (Ready (Inl v), [], f\<lparr>sf_value := None\<rparr>, s))
         else Some (Pending, [], f, s\<lparr>send_waiters := (send_waiters s)(i \<mapsto> w)\<rparr>))"

text \<open>\<open>SendFuture::poll\<close>; the outer \<open>None\<close> is the panic "polled after completion".\<close>

definition send_poll ::
  "'w \<Rightarrow> 'a send_future \<Rightarrow> ('a, 'w) mpsc_state
    \<Rightarrow> (('a + unit) poll \<times> 'w list \<times> 'a send_future \<times> ('a, 'w) mpsc_state) option"
where
  "send_poll w f s =
     (if \<not> receiver_alive s
      then (case sf_value f of
              None \<Rightarrow> None
            | Some v \<Rightarrow> Some (Ready (Inl v), [], f\<lparr>sf_value := None\<rparr>, s))
      else if mp_capacity s \<le> length (mp_queue s) then register_waiter w f s
      else case sf_value f of
             None \<Rightarrow> None
           | Some v \<Rightarrow>
               (let current_waiter_id = sf_waiter_id f;
                    f = f\<lparr>sf_value := None\<rparr>
                in if \<not> receiver_alive s then Some (Ready (Inl v), [], f, s)
                   else if mp_capacity s \<le> length (mp_queue s)
                   then register_waiter w (f\<lparr>sf_value := Some v\<rparr>) s
                   else
                     (let s = s\<lparr>mp_queue := mp_queue s @ [v]\<rparr>;
                          (woken, s) = wake_receiver s;
                          s = (case current_waiter_id of
                                 Some i \<Rightarrow> s\<lparr>send_waiters := (send_waiters s)(i := None)\<rparr>
                               | None \<Rightarrow> s)
                      in Some (Ready (Inr ()), woken, f\<lparr>sf_waiter_id := None\<rparr>, s))))"

definition send_future_drop :: "'a send_future \<Rightarrow> ('a, 'w) mpsc_state \<Rightarrow> ('a, 'w) mpsc_state" where
  "send_future_drop f s =
     (case sf_waiter_id f of
        Some i \<Rightarrow> s\<lparr>send_waiters := (send_waiters s)(i := None)\<rparr>
      | None \<Rightarrow> s)"

section \<open>The receiver\<close>

definition try_recv :: "('a, 'w) mpsc_state \<Rightarrow> (try_recv_error + 'a) \<times> 'w list \<times> ('a, 'w) mpsc_state" where
  "try_recv s =
     (case mp_queue s of
        v # rest \<Rightarrow>
          (let (woken, s) = wake_one_sender (s\<lparr>mp_queue := rest\<rparr>) in (Inr v, woken, s))
      | [] \<Rightarrow> if sender_count s = 0 then (Inl RecvClosed, [], s) else (Inl RecvEmpty, [], s))"

text \<open>\<open>RecvFuture::poll\<close> and \<open>Stream::poll_next\<close>.\<close>

definition recv_poll :: "'w \<Rightarrow> ('a, 'w) mpsc_state \<Rightarrow> 'a option poll \<times> 'w list \<times> ('a, 'w) mpsc_state" where
  "recv_poll w s =
     (case mp_queue s of
        v # rest \<Rightarrow>
          (let (woken, s) = wake_one_sender (s\<lparr>mp_queue := rest\<rparr>) in (Ready (Some v), woken, s))
      | [] \<Rightarrow>
          if sender_count s = 0 then (Ready None, [], s)
          else (Pending, [], s\<lparr>receiver_waker := Some w\<rparr>))"

definition receiver_drop ::
  "((nat \<rightharpoonup> 'w) \<Rightarrow> 'w list) \<Rightarrow> ('a, 'w) mpsc_state \<Rightarrow> 'w list \<times> ('a, 'w) mpsc_state"
where
  "receiver_drop rest_order s =
     wake_all_senders rest_order (s\<lparr>receiver_alive := False, receiver_waker := None\<rparr>)"

section \<open>Runs of a channel\<close>

text \<open>
  A run, with the values accepted from senders and the values handed to the receiver. Send
  futures are not tracked: a step may poll or drop a future in any state.
\<close>

inductive mpsc_run :: "nat \<Rightarrow> ('a, 'w) mpsc_state \<Rightarrow> 'a list \<Rightarrow> 'a list \<Rightarrow> bool" for capacity where
  run_new: "channel capacity = Some s \<Longrightarrow> mpsc_run capacity s [] []"
| run_try_send: "mpsc_run capacity s acc rec \<Longrightarrow> try_send v s = (r, ws, s') \<Longrightarrow>
    mpsc_run capacity s' (if r = Inr () then acc @ [v] else acc) rec"
| run_send_poll: "mpsc_run capacity s acc rec \<Longrightarrow> send_poll w f s = Some (p, ws, f', s') \<Longrightarrow>
    mpsc_run capacity s' (if p = Ready (Inr ()) then acc @ [the (sf_value f)] else acc) rec"
| run_send_drop: "mpsc_run capacity s acc rec \<Longrightarrow> mpsc_run capacity (send_future_drop f s) acc rec"
| run_clone: "mpsc_run capacity s acc rec \<Longrightarrow> mpsc_run capacity (sender_clone s) acc rec"
| run_sender_drop: "mpsc_run capacity s acc rec \<Longrightarrow> sender_drop s = (ws, s') \<Longrightarrow> mpsc_run capacity s' acc rec"
| run_try_recv: "mpsc_run capacity s acc rec \<Longrightarrow> try_recv s = (r, ws, s') \<Longrightarrow>
    mpsc_run capacity s' acc (case r of Inr v \<Rightarrow> rec @ [v] | Inl _ \<Rightarrow> rec)"
| run_recv_poll: "mpsc_run capacity s acc rec \<Longrightarrow> recv_poll w s = (r, ws, s') \<Longrightarrow>
    mpsc_run capacity s' acc (case r of Ready (Some v) \<Rightarrow> rec @ [v] | _ \<Rightarrow> rec)"
| run_receiver_drop: "mpsc_run capacity s acc rec \<Longrightarrow> receiver_drop ro s = (ws, s') \<Longrightarrow>
    mpsc_run capacity s' acc rec"

section \<open>Invariant\<close>

text \<open>
  Values come out in the order they went in and none is lost; registered wakers are in the
  wait order; a registered receiver means an empty queue and a live sender.
\<close>

definition covered :: "(nat \<rightharpoonup> 'w) \<Rightarrow> nat list \<Rightarrow> bool" where
  "covered ws order \<longleftrightarrow> dom ws \<subseteq> set order"

lemma covered_simps [simp]:
  "covered Map.empty order"
  "covered ws order \<Longrightarrow> covered (ws(i := None)) order"
  "covered ws order \<Longrightarrow> covered ws (order @ is)"
  "covered ws order \<Longrightarrow> covered (ws(i \<mapsto> w)) (order @ [i])"
  by (auto simp: covered_def)

definition mpsc_inv :: "nat \<Rightarrow> ('a, 'w) mpsc_state \<Rightarrow> 'a list \<Rightarrow> 'a list \<Rightarrow> bool" where
  "mpsc_inv capacity s acc rec \<longleftrightarrow>
     mp_capacity s = capacity \<and> rec @ mp_queue s = acc \<and> length (mp_queue s) \<le> capacity \<and>
     covered (send_waiters s) (send_wait_order s) \<and>
     (receiver_waker s \<noteq> None \<longrightarrow> mp_queue s = [] \<and> 0 < sender_count s)"

lemma covered_Cons:
  "covered ws (i # order) \<Longrightarrow> ws i = None \<Longrightarrow> covered ws order"
  "covered ws (i # order) \<Longrightarrow> covered (ws(i := None)) order"
  by (auto simp: covered_def)

lemma pop_waiter_first:
  assumes "covered ws order" "pop_waiter order ws = (woken, order', ws')"
  shows "covered ws' order' \<and>
   (case find (\<lambda>i. i \<in> dom ws) order of
      None \<Rightarrow> woken = [] \<and> ws' = ws
    | Some i \<Rightarrow> ws i = Some (hd woken) \<and> length woken = 1 \<and> ws' = ws(i := None))"
  using assms
proof (induction order ws rule: pop_waiter.induct)
  case (2 i order ws)
  show ?case
  proof (cases "ws i")
    case None
    with 2 covered_Cons(1) [OF 2(2)] show ?thesis by (simp add: domIff)
  next
    case (Some w)
    with 2 covered_Cons(2) [OF 2(2)] show ?thesis by (auto simp: domI)
  qed
qed simp

lemma wake_one_sender_inv:
  assumes "wake_one_sender s = (woken, s')" "covered (send_waiters s) (send_wait_order s)"
  shows "covered (send_waiters s') (send_wait_order s')"
    "mp_queue s' = mp_queue s" "mp_capacity s' = mp_capacity s" "receiver_waker s' = receiver_waker s"
    "sender_count s' = sender_count s" "receiver_alive s' = receiver_alive s"
proof -
  obtain w order ws where p: "pop_waiter (send_wait_order s) (send_waiters s) = (w, order, ws)"
    using prod_cases3 by blast
  with assms(1) have "s' = s\<lparr>send_wait_order := order, send_waiters := ws\<rparr>"
    by (auto simp: wake_one_sender_def)
  with pop_waiter_first [OF assms(2) p] show "covered (send_waiters s') (send_wait_order s')"
    "mp_queue s' = mp_queue s" "mp_capacity s' = mp_capacity s" "receiver_waker s' = receiver_waker s"
    "sender_count s' = sender_count s" "receiver_alive s' = receiver_alive s"
    by auto
qed

lemma dequeue_inv:
  assumes "mpsc_inv capacity s acc rec" "mp_queue s = v # rest"
    and "wake_one_sender (s\<lparr>mp_queue := rest\<rparr>) = (woken, s')"
  shows "mpsc_inv capacity s' acc (rec @ [v])"
  using assms wake_one_sender_inv [OF assms(3)] by (auto simp: mpsc_inv_def)

lemma enqueue_inv:
  assumes "mpsc_inv capacity s acc rec" "\<not> mp_capacity s \<le> length (mp_queue s)"
    and "wake_receiver (s\<lparr>mp_queue := mp_queue s @ [v]\<rparr>) = (woken, s')"
  shows "mpsc_inv capacity s' (acc @ [v]) rec"
proof -
  have "s' = s\<lparr>mp_queue := mp_queue s @ [v], receiver_waker := None\<rparr>"
    using assms(3) by (cases s) (auto simp: wake_receiver_def split: option.splits)
  then show ?thesis using assms(1,2) by (simp add: mpsc_inv_def)
qed

lemma register_waiter_inv:
  assumes "mpsc_inv capacity s acc rec" "register_waiter w f s = Some (p, ws, f', s')"
  shows "mpsc_inv capacity s' acc rec" "p \<noteq> Ready (Inr ())"
  using assms
  by (auto simp: mpsc_inv_def register_waiter_def Let_def split: option.splits if_splits)

lemma inv_remove_waiter:
  "mpsc_inv capacity s acc rec \<Longrightarrow>
   mpsc_inv capacity (s\<lparr>send_waiters := (send_waiters s)(i := None)\<rparr>) acc rec"
  by (auto simp: mpsc_inv_def)

lemma send_poll_inv:
  assumes "mpsc_inv capacity s acc rec" "send_poll w f s = Some (p, ws, f', s')"
  shows "mpsc_inv capacity s' (if p = Ready (Inr ()) then acc @ [the (sf_value f)] else acc) rec"
proof (cases "receiver_alive s \<and> \<not> mp_capacity s \<le> length (mp_queue s)")
  case True
  obtain woken s1 where w: "wake_receiver (s\<lparr>mp_queue := mp_queue s @ [the (sf_value f)]\<rparr>) = (woken, s1)"
    by fastforce
  with True assms(2) have "p = Ready (Inr ())"
    "s' = (case sf_waiter_id f of Some i \<Rightarrow> s1\<lparr>send_waiters := (send_waiters s1)(i := None)\<rparr> | None \<Rightarrow> s1)"
    by (auto simp: send_poll_def Let_def split: option.splits)
  then show ?thesis
    using enqueue_inv [OF assms(1) _ w] True by (auto intro: inv_remove_waiter split: option.splits)
next
  case False
  then have "register_waiter w f s = Some (p, ws, f', s') \<or> (s' = s \<and> p \<noteq> Ready (Inr ()))"
    using assms(2) by (auto simp: send_poll_def split: option.splits if_splits)
  then show ?thesis
    using register_waiter_inv [OF assms(1), of w f p ws f' s'] assms(1) by auto
qed

lemma mpsc_run_inv: "mpsc_run capacity s acc rec \<Longrightarrow> mpsc_inv capacity s acc rec"
proof (induction rule: mpsc_run.induct)
  case (run_new s)
  then show ?case by (auto simp: channel_def mpsc_new_def mpsc_inv_def split: if_splits)
next
  case (run_try_send s acc rec v r ws s')
  then show ?case
    using enqueue_inv [OF run_try_send.IH, of v]
    by (auto simp: try_send_def Let_def split: if_splits prod.splits)
next
  case (run_send_poll s acc rec w f p ws f' s')
  then show ?case by (intro send_poll_inv)
next
  case (run_send_drop s acc rec f)
  then show ?case by (auto simp: send_future_drop_def intro: inv_remove_waiter split: option.splits)
next
  case (run_sender_drop s acc rec ws s')
  then show ?case
    by (auto simp: sender_drop_def wake_receiver_def mpsc_inv_def Let_def split: if_splits option.splits)
next
  case (run_try_recv s acc rec r ws s')
  then show ?case
    using dequeue_inv [OF run_try_recv.IH]
    by (auto simp: try_recv_def Let_def split: list.splits if_splits prod.splits)
next
  case (run_recv_poll s acc rec w r ws s')
  then show ?case
    using dequeue_inv [OF run_recv_poll.IH]
    by (auto simp: recv_poll_def Let_def mpsc_inv_def split: list.splits if_splits prod.splits)
qed (auto simp: mpsc_inv_def sender_clone_def receiver_drop_def wake_all_senders_def Let_def
      split: prod.splits)

section \<open>Properties\<close>

text \<open>
  C6. The channel is a bounded FIFO queue, whatever the interleaving of senders and receiver:
  the values received so far followed by the queue are exactly the values accepted, in order,
  and the queue never exceeds the capacity. A receiver that waits is not overlooked: while
  its waker is registered the queue is empty and a sender exists.
\<close>

theorem mpsc_fifo:
  assumes "mpsc_run capacity s acc rec"
  shows "rec @ mp_queue s = acc \<and> length (mp_queue s) \<le> capacity
    \<and> (receiver_waker s \<noteq> None \<longrightarrow> mp_queue s = [] \<and> 0 < sender_count s)"
  using mpsc_run_inv [OF assms] by (simp add: mpsc_inv_def)

text \<open>
  Receiving a value wakes exactly one blocked sender if there is one, namely the one that
  has waited longest among those still registered, and unregisters it.
\<close>

theorem mpsc_recv_wakes:
  assumes "mpsc_run capacity s acc rec" and "mp_queue s = v # rest" and "send_waiters s \<noteq> Map.empty"
  shows "\<exists>i x s'. find (\<lambda>i. i \<in> dom (send_waiters s)) (send_wait_order s) = Some i
    \<and> send_waiters s i = Some x \<and> recv_poll w s = (Ready (Some v), [x], s')
    \<and> mp_queue s' = rest \<and> send_waiters s' = (send_waiters s)(i := None)"
proof -
  have d: "covered (send_waiters s) (send_wait_order s)"
    using mpsc_run_inv [OF assms(1)] by (simp add: mpsc_inv_def)
  obtain woken order ws where p: "pop_waiter (send_wait_order s) (send_waiters s) = (woken, order, ws)"
    using prod_cases3 by blast
  obtain j where "j \<in> dom (send_waiters s)" using assms(3) by auto
  with d have "find (\<lambda>i. i \<in> dom (send_waiters s)) (send_wait_order s) \<noteq> None"
    by (auto simp: find_None_iff covered_def)
  then obtain i where i: "find (\<lambda>i. i \<in> dom (send_waiters s)) (send_wait_order s) = Some i" by auto
  with pop_waiter_first [OF d p] have "send_waiters s i = Some (hd woken)" "woken = [hd woken]"
    "ws = (send_waiters s)(i := None)"
    by (auto simp: length_Suc_conv)
  with i p assms(2) show ?thesis
    by (intro exI [of _ i] exI [of _ "hd woken"]
        exI [of _ "s\<lparr>mp_queue := rest, send_wait_order := order, send_waiters := ws\<rparr>"])
      (auto simp: recv_poll_def wake_one_sender_def Let_def)
qed

text \<open>
  The steps of the senders, for a receiver that waits: the waker slot of the receiver keeps
  the contract of \<open>waker_slot\<close>.
\<close>

inductive mpsc_sender_step :: "('a, 'w) mpsc_state \<Rightarrow> 'w list \<Rightarrow> ('a, 'w) mpsc_state \<Rightarrow> bool" where
  "try_send v s = (r, ws, s') \<Longrightarrow> mpsc_sender_step s ws s'"
| "send_poll w f s = Some (p, ws, f', s') \<Longrightarrow> mpsc_sender_step s ws s'"
| "mpsc_sender_step s [] (send_future_drop f s)"
| "mpsc_sender_step s [] (sender_clone s)"
| "sender_drop s = (ws, s') \<Longrightarrow> mpsc_sender_step s ws s'"

definition recv_ready :: "('a, 'w) mpsc_state \<Rightarrow> bool" where
  "recv_ready s \<longleftrightarrow> mp_queue s \<noteq> [] \<or> sender_count s = 0"

lemma recv_poll_ready: "recv_ready s \<longleftrightarrow> fst (recv_poll w s) \<noteq> Pending"
  by (auto simp: recv_ready_def recv_poll_def Let_def split: list.splits if_splits prod.splits)

lemma wake_receiver_slot:
  "wake_receiver s = (ws, s') \<Longrightarrow> receiver_waker s = Some w \<Longrightarrow> w \<in> set ws"
  by (auto simp: wake_receiver_def)

lemma register_waiter_slot:
  assumes "register_waiter x f s = Some (p, ws, f', s')"
  shows "receiver_waker s' = receiver_waker s" "recv_ready s' = recv_ready s"
  using assms by (auto simp: register_waiter_def recv_ready_def Let_def split: option.splits if_splits)

lemma sender_step_slot:
  assumes "mpsc_sender_step s ws s'" "receiver_waker s = Some w"
  shows "w \<in> set ws \<or> receiver_waker s' = Some w \<and> (recv_ready s' \<longrightarrow> recv_ready s)"
  using assms
proof (induction rule: mpsc_sender_step.induct)
  case (1 v s r ws s')
  then show ?case
    by (auto simp: try_send_def Let_def split: if_splits prod.splits dest: wake_receiver_slot)
next
  case (2 x f s p ws f' s')
  then show ?case
    by (auto simp: send_poll_def Let_def register_waiter_slot split: if_splits option.splits prod.splits
        dest: wake_receiver_slot)
next
  case (5 s ws s')
  then show ?case
    by (auto simp: sender_drop_def recv_ready_def Let_def split: if_splits dest: wake_receiver_slot)
qed (auto simp: send_future_drop_def sender_clone_def recv_ready_def split: option.splits)

interpretation mpsc_rx: waker_slot mpsc_sender_step receiver_waker recv_ready
  by unfold_locales (blast dest: sender_step_slot)+

text \<open>
  A receiver that waits is woken: whatever the senders do after its poll returned
  \<open>Pending\<close>, by the time a poll would return something its waker has been called.
\<close>

theorem mpsc_receiver_woken:
  assumes "recv_poll w s = (Pending, ws, s1)" and "trace mpsc_sender_step s1 ws1 s2"
    and "fst (recv_poll w' s2) \<noteq> Pending"
  shows "w \<in> set ws1"
  by (rule mpsc_rx.no_lost_wakeup [OF assms(2)])
    (use assms in \<open>auto simp: recv_poll_def recv_ready_def Let_def split: list.splits if_splits prod.splits\<close>)

section \<open>Instances\<close>

text \<open>A channel of capacity 1 that is full, with two senders waiting.\<close>

definition full_channel :: "(nat, nat) mpsc_state" where
  "full_channel =
     (case channel 1 of Some s \<Rightarrow>
        (case try_send 10 s of (_, _, s) \<Rightarrow>
        (case send_poll 1 (send_future_new 11) s of Some (_, _, _, s) \<Rightarrow>
        (case send_poll 2 (send_future_new 12) s of Some (_, _, _, s) \<Rightarrow> s))))"

lemma full_channel_eq:
  "full_channel = \<lparr>mp_capacity = 1, mp_queue = [10], receiver_alive = True, sender_count = 1,
     receiver_waker = None, next_waiter = 2, send_wait_order = [0, 1],
     send_waiters = [0 \<mapsto> 1, 1 \<mapsto> 2]\<rparr>"
  by (simp add: full_channel_def channel_def mpsc_new_def try_send_def wake_receiver_def send_poll_def
      send_future_new_def register_waiter_def)

lemma full_channel_run: "mpsc_run 1 full_channel [10] []"
proof -
  have "mpsc_run 1 (mpsc_new 1 :: (nat, nat) mpsc_state) [] []"
    by (rule run_new) (simp add: channel_def)
  from run_try_send [OF this, of 10] have
    "mpsc_run 1 ((mpsc_new 1 :: (nat, nat) mpsc_state)\<lparr>mp_queue := [10]\<rparr>) [10] []"
    by (simp add: try_send_def wake_receiver_def mpsc_new_def)
  from run_send_poll [OF this, of 1 "send_future_new 11"] have
    "mpsc_run 1 ((mpsc_new 1 :: (nat, nat) mpsc_state)\<lparr>mp_queue := [10], next_waiter := 1,
       send_wait_order := [0], send_waiters := [0 \<mapsto> 1]\<rparr>) [10] []"
    by (simp add: send_poll_def register_waiter_def send_future_new_def mpsc_new_def)
  from run_send_poll [OF this, of 2 "send_future_new 12"] show ?thesis
    by (simp add: send_poll_def register_waiter_def send_future_new_def mpsc_new_def full_channel_eq
        numeral_2_eq_2)
qed

theorem mpsc_fifo_witness: "[] @ mp_queue full_channel = [10]"
  using mpsc_fifo [OF full_channel_run] by blast

theorem mpsc_recv_wakes_witness:
  "\<exists>s'. recv_poll 7 full_channel = (Ready (Some 10), [1], s') \<and> send_waiters s' = [1 \<mapsto> 2]"
proof -
  have "mp_queue full_channel = 10 # []" "send_waiters full_channel \<noteq> Map.empty"
    by (simp_all add: full_channel_eq)
  from mpsc_recv_wakes [OF full_channel_run this, of 7] show ?thesis
    by (auto simp: full_channel_eq)
qed

theorem mpsc_receiver_woken_witness:
  "\<exists>s1 s2. recv_poll (7 :: nat) (mpsc_new 1 :: (nat, nat) mpsc_state) = (Pending, [], s1)
     \<and> try_send 3 s1 = (Inr (), [7], s2) \<and> (7 :: nat) \<in> set [7]"
proof -
  let ?s1 = "(mpsc_new 1 :: (nat, nat) mpsc_state)\<lparr>receiver_waker := Some 7\<rparr>"
  let ?s2 = "?s1\<lparr>mp_queue := [3], receiver_waker := None\<rparr>"
  have 1: "recv_poll 7 (mpsc_new 1 :: (nat, nat) mpsc_state) = (Pending, [], ?s1)"
    by (simp add: recv_poll_def mpsc_new_def)
  have 2: "try_send 3 ?s1 = (Inr (), [7], ?s2)"
    by (simp add: try_send_def mpsc_new_def wake_receiver_def)
  have "fst (recv_poll 7 ?s2) \<noteq> Pending" by (simp add: recv_poll_def Let_def split: prod.splits)
  from mpsc_receiver_woken [OF 1 trace_one [of mpsc_sender_step, OF mpsc_sender_step.intros(1) [OF 2]] this] 1 2
  show ?thesis by blast
qed

text \<open>
  A wake-up can be lost: when the sender that a receive has woken is dropped before it is
  polled again, no other blocked sender is woken. Here the channel ends up empty while a
  sender still waits, and the receiver that waits for a value wakes nobody either.
\<close>

theorem mpsc_lost_wakeup:
  "\<exists>s1 s2 s3. recv_poll 7 full_channel = (Ready (Some 10), [1], s1)
     \<and> s2 = send_future_drop \<lparr>sf_value = Some 11, sf_waiter_id = Some 0\<rparr> s1
     \<and> mp_queue s2 = [] \<and> mp_capacity s2 = 1 \<and> send_waiters s2 = [1 \<mapsto> 2]
     \<and> recv_poll 7 s2 = (Pending, [], s3) \<and> send_waiters s3 = [1 \<mapsto> 2]"
  by (simp add: full_channel_eq recv_poll_def wake_one_sender_def send_future_drop_def)

end
