(* ===== verification/Oneshot.thy ===== *)
theory Oneshot
  imports Wakers
begin

text \<open>
  \<open>des-tokio/src/sync/oneshot.rs\<close>: a channel for one value. \<open>send\<close> consumes the sender, so
  its model ends with the sender's \<open>drop\<close>, as the Rust method does. Operations return the
  wakers they call.
\<close>

section \<open>State and operations\<close>

datatype recv_error = RecvError

record ('a, 'w) oneshot_state =
  os_value :: "'a option"
  os_waker :: "'w option"
  os_sender_alive :: bool
  os_receiver_alive :: bool

definition oneshot_channel :: "('a, 'w) oneshot_state" where
  "oneshot_channel = \<lparr>os_value = None, os_waker = None, os_sender_alive = True, os_receiver_alive = True\<rparr>"

text \<open>\<open>state.waker.take()\<close> and the wake-up.\<close>

definition take_waker :: "('a, 'w) oneshot_state \<Rightarrow> 'w list \<times> ('a, 'w) oneshot_state" where
  "take_waker s = (case os_waker s of Some w \<Rightarrow> [w] | None \<Rightarrow> [], s\<lparr>os_waker := None\<rparr>)"

definition oneshot_sender_drop :: "('a, 'w) oneshot_state \<Rightarrow> 'w list \<times> ('a, 'w) oneshot_state" where
  "oneshot_sender_drop s = take_waker (s\<lparr>os_sender_alive := False\<rparr>)"

definition oneshot_send :: "'a \<Rightarrow> ('a, 'w) oneshot_state \<Rightarrow> ('a + unit) \<times> 'w list \<times> ('a, 'w) oneshot_state" where
  "oneshot_send v s =
     (if \<not> os_receiver_alive s
      then (let (ws, s) = oneshot_sender_drop s in (Inl v, ws, s))
      else (let (ws, s) = take_waker (s\<lparr>os_value := Some v, os_sender_alive := False\<rparr>);
                (ws', s) = oneshot_sender_drop s
            in (Inr (), ws @ ws', s)))"

definition oneshot_poll ::
  "'w \<Rightarrow> ('a, 'w) oneshot_state \<Rightarrow> (recv_error + 'a) poll \<times> ('a, 'w) oneshot_state"
where
  "oneshot_poll w s =
     (case os_value s of
        Some v \<Rightarrow> (Ready (Inr v), s\<lparr>os_value := None\<rparr>)
      | None \<Rightarrow>
          if \<not> os_sender_alive s then (Ready (Inl RecvError), s)
          else (Pending, s\<lparr>os_waker := Some w\<rparr>))"

definition oneshot_receiver_drop :: "('a, 'w) oneshot_state \<Rightarrow> ('a, 'w) oneshot_state" where
  "oneshot_receiver_drop s = s\<lparr>os_receiver_alive := False, os_waker := None\<rparr>"

section \<open>Runs\<close>

text \<open>
  A run of a channel: whether the sender still exists, the value that was sent successfully,
  and the values the receiver got. Ownership allows one \<open>send\<close> or \<open>drop\<close> of the sender,
  and the receiver is not used after its drop.
\<close>

inductive oneshot_run :: "('a, 'w) oneshot_state \<Rightarrow> bool \<Rightarrow> 'a option \<Rightarrow> 'a list \<Rightarrow> bool" where
  os_new: "oneshot_run oneshot_channel True None []"
| os_send: "oneshot_run s True sent got \<Longrightarrow> oneshot_send v s = (r, ws, s') \<Longrightarrow>
    oneshot_run s' False (if r = Inr () then Some v else sent) got"
| os_sender_drop: "oneshot_run s True sent got \<Longrightarrow> oneshot_sender_drop s = (ws, s') \<Longrightarrow>
    oneshot_run s' False sent got"
| os_poll: "oneshot_run s b sent got \<Longrightarrow> os_receiver_alive s \<Longrightarrow> oneshot_poll w s = (r, s') \<Longrightarrow>
    oneshot_run s' b sent (case r of Ready (Inr v) \<Rightarrow> got @ [v] | _ \<Rightarrow> got)"
| os_receiver_drop: "oneshot_run s b sent got \<Longrightarrow> os_receiver_alive s \<Longrightarrow>
    oneshot_run (oneshot_receiver_drop s) b sent got"

lemmas oneshot_defs = oneshot_channel_def take_waker_def oneshot_sender_drop_def oneshot_send_def
  oneshot_poll_def oneshot_receiver_drop_def

text \<open>The sent value is either still in the channel or was received, once.\<close>

definition oneshot_inv :: "('a, 'w) oneshot_state \<Rightarrow> bool \<Rightarrow> 'a option \<Rightarrow> 'a list \<Rightarrow> bool" where
  "oneshot_inv s b sent got \<longleftrightarrow>
     os_sender_alive s = b \<and> (b \<longrightarrow> sent = None) \<and>
     (case sent of
        None \<Rightarrow> os_value s = None \<and> got = []
      | Some v \<Rightarrow> (os_value s = Some v \<and> got = []) \<or> (os_value s = None \<and> got = [v]))"

lemma oneshot_run_inv: "oneshot_run s b sent got \<Longrightarrow> oneshot_inv s b sent got"
  by (induction rule: oneshot_run.induct)
    (auto simp: oneshot_inv_def oneshot_defs Let_def split: option.splits if_splits)

section \<open>Properties\<close>

text \<open>What the next poll of the receiver returns, from the history alone.\<close>

fun expected_recv :: "bool \<Rightarrow> 'a option \<Rightarrow> 'a list \<Rightarrow> (recv_error + 'a) poll" where
  "expected_recv True sent got = Pending"
| "expected_recv False (Some v) [] = Ready (Inr v)"
| "expected_recv False sent got = Ready (Inl RecvError)"

text \<open>
  The receiver waits exactly while the sender exists; then it gets the value that was
  sent, and exactly once: every later poll, and a poll after the sender was dropped without
  sending, reports the closed channel.
\<close>

theorem oneshot_delivery:
  assumes "oneshot_run s b sent got"
  shows "fst (oneshot_poll w s) = expected_recv b sent got \<and> (got = [] \<or> sent = Some (hd got) \<and> length got = 1)"
  using oneshot_run_inv [OF assms]
  by (cases b; cases sent; cases got) (auto simp: oneshot_inv_def oneshot_poll_def)

lemma sent_run: "oneshot_run \<lparr>os_value = Some 5, os_waker = None, os_sender_alive = False,
  os_receiver_alive = True\<rparr> False (Some (5 :: nat)) []"
  using os_send [OF os_new, of 5 "Inr ()" "[]"] by (simp add: oneshot_defs)

theorem oneshot_delivery_witness:
  "fst (oneshot_poll (0 :: nat) \<lparr>os_value = Some (5 :: nat), os_waker = None, os_sender_alive = False,
     os_receiver_alive = True\<rparr>) = Ready (Inr 5)"
  using oneshot_delivery [OF sent_run, of 0] by simp

text \<open>The steps of the sender, for a receiver that waits.\<close>

inductive oneshot_sender_step :: "('a, 'w) oneshot_state \<Rightarrow> 'w list \<Rightarrow> ('a, 'w) oneshot_state \<Rightarrow> bool" where
  "oneshot_send v s = (r, ws, s') \<Longrightarrow> oneshot_sender_step s ws s'"
| "oneshot_sender_drop s = (ws, s') \<Longrightarrow> oneshot_sender_step s ws s'"

interpretation oneshot_rx: waker_slot oneshot_sender_step os_waker
  "\<lambda>s. os_value s \<noteq> None \<or> \<not> os_sender_alive s"
  by unfold_locales
    (auto elim!: oneshot_sender_step.cases simp: oneshot_defs Let_def split: if_splits)

lemma oneshot_receiver_woken:
  assumes "os_receiver_alive s" "oneshot_poll w s = (Pending, s1)"
    and "trace oneshot_sender_step s1 ws s2" and "fst (oneshot_poll w' s2) \<noteq> Pending"
  shows "w \<in> set ws"
  by (rule oneshot_rx.no_lost_wakeup [OF assms(3)])
    (use assms(2,4) in \<open>auto simp: oneshot_poll_def split: option.splits if_splits\<close>)

end
