(* ===== verification/Notify.thy ===== *)
theory Notify
  imports Wakers
begin

text \<open>
  \<open>des-tokio/src/sync/notify.rs\<close>: notifications are permits, waiting futures are wakers in
  a FIFO queue. A future that is dropped stays in the queue; the last section shows what
  follows from that.
\<close>

section \<open>State and operations\<close>

record 'w notify_state =
  nt_permits :: u64
  nt_waiters :: "'w list"

definition notify_new :: "'w notify_state" where
  "notify_new = \<lparr>nt_permits = 0, nt_waiters = []\<rparr>"

definition notify_one :: "'w notify_state \<Rightarrow> 'w list \<times> 'w notify_state" where
  "notify_one s =
     (let s = s\<lparr>nt_permits := saturating_add (nt_permits s) 1\<rparr>
      in case nt_waiters s of
           [] \<Rightarrow> ([], s)
         | w # rest \<Rightarrow> ([w], s\<lparr>nt_waiters := rest\<rparr>))"

definition notify_waiters :: "'w notify_state \<Rightarrow> 'w list \<times> 'w notify_state" where
  "notify_waiters s =
     (let wakers = nt_waiters s;
          n = (case try_from_nat (length wakers) of Some n \<Rightarrow> n | None \<Rightarrow> u64_max)
      in (wakers, \<lparr>nt_permits = saturating_add (nt_permits s) n, nt_waiters = []\<rparr>))"

definition notified_poll :: "'w \<Rightarrow> 'w notify_state \<Rightarrow> unit poll \<times> 'w notify_state" where
  "notified_poll w s =
     (if 0 < nt_permits s then (Ready (), s\<lparr>nt_permits := nt_permits s - 1\<rparr>)
      else (Pending, s\<lparr>nt_waiters := nt_waiters s @ [w]\<rparr>))"

section \<open>Runs without cancellation\<close>

text \<open>
  Runs in which no waiting future is dropped. The multiset holds the wakers that were called
  and whose futures have not been polled since; one waker stands for one waiting future.
\<close>

inductive notify_run :: "'w notify_state \<Rightarrow> 'w multiset \<Rightarrow> bool" where
  nr_new: "notify_run notify_new {#}"
| nr_one: "notify_run s W \<Longrightarrow> notify_one s = (ws, s') \<Longrightarrow> notify_run s' (W + mset ws)"
| nr_all: "notify_run s W \<Longrightarrow> notify_waiters s = (ws, s') \<Longrightarrow> notify_run s' (W + mset ws)"
| nr_poll: "notify_run s W \<Longrightarrow> notified_poll w s = (r, s') \<Longrightarrow> notify_run s' (W - {#w#})"

lemma size_diff_le: "size W \<le> size (W - {#w#}) + 1"
  by (auto simp: size_Diff_singleton_if)

lemma notify_run_inv: "notify_run s W \<Longrightarrow> nt_waiters s \<noteq> [] \<Longrightarrow> unat (nt_permits s) \<le> size W"
proof (induction rule: notify_run.induct)
  case (nr_one s W ws s')
  then show ?case
    by (auto simp: notify_one_def Let_def sat_simps split: list.splits)
next
  case (nr_poll s W w r s')
  show ?case
  proof (cases "0 < nt_permits s")
    case True
    with nr_poll.hyps nr_poll.prems
    have "unat (nt_permits s') = unat (nt_permits s) - 1" "nt_waiters s \<noteq> []"
      by (auto simp: notified_poll_def unat_minus_one)
    with nr_poll.IH show ?thesis using size_diff_le [of W w] by linarith
  next
    case False
    with nr_poll.hyps show ?thesis by (auto simp: notified_poll_def word_gt_0)
  qed
qed (auto simp: notify_new_def notify_waiters_def Let_def)

text \<open>
  As long as no waiting future is dropped no notification is stuck: while a future waits
  and permits are left, there are at least as many woken futures about to be polled as there
  are permits.
\<close>

theorem notify_progress:
  assumes "notify_run s W" and "nt_waiters s \<noteq> []"
  shows "unat (nt_permits s) \<le> size W"
  by (rule notify_run_inv [OF assms])

theorem notify_progress_witness:
  "notify_run \<lparr>nt_permits = 1, nt_waiters = [2 :: nat]\<rparr> {#5#} \<and>
   unat (nt_permits \<lparr>nt_permits = 1, nt_waiters = [2 :: nat]\<rparr>) \<le> size {#5 :: nat#}"
proof -
  have "notify_run (\<lparr>nt_permits = 0, nt_waiters = [5]\<rparr> :: nat notify_state) {#}"
    using nr_poll [OF nr_new, of 5] by (simp add: notified_poll_def notify_new_def)
  from nr_poll [OF this, of 2] have "notify_run (\<lparr>nt_permits = 0, nt_waiters = [5, 2]\<rparr> :: nat notify_state) {#}"
    by (simp add: notified_poll_def)
  from nr_one [OF this] have "notify_run \<lparr>nt_permits = 1, nt_waiters = [2 :: nat]\<rparr> {#5#}"
    by (simp add: notify_one_def)
  with notify_progress [OF this] show ?thesis by simp
qed

section \<open>Cancellation\<close>

text \<open>
  A dropped future swallows a notification: future 1 waits and is dropped, future 2 waits,
  and \<open>notify_one\<close> calls the stale waker of 1. The permit is there and a future waits for it,
  but nobody that will poll was woken.
\<close>

theorem notify_stale_waiter:
  "\<exists>s1 s2 s3. notified_poll 1 notify_new = (Pending, s1) \<and> notified_poll (2 :: nat) s1 = (Pending, s2)
     \<and> notify_one s2 = ([1], s3) \<and> nt_permits s3 = 1 \<and> nt_waiters s3 = [2]"
  by (simp add: notified_poll_def notify_new_def notify_one_def)

end
