(* ===== verification/Concurrency.thy ===== *)
theory Concurrency
  imports Sim_Time
begin

text \<open>
  The events that concurrency primitives record for the exploration tools
  (\<open>des-tokio/src/concurrency.rs\<close>) and the recording atomic integer
  (\<open>des-tokio/src/sync/atomic.rs\<close>). The recorder is the log of the events; memory orderings
  are only recorded, since all tasks run on one thread.
\<close>

section \<open>Events\<close>

datatype ordering = Relaxed | Release | Acquire | AcqRel | SeqCst

datatype concurrency_event =
  MutexContended (ev_mutex_id: u64) (ev_task_id: u64) (ev_time: "u64 option") (ev_waiter_count: usize)
| MutexAcquire (ev_mutex_id: u64) (ev_task_id: u64) (ev_time: "u64 option")
| MutexRelease (ev_mutex_id: u64) (ev_task_id: u64) (ev_time: "u64 option")
| AtomicLoad (ev_site_id: u64) (ev_task_id: u64) (ev_time: "u64 option") (ev_ordering: ordering) (ev_value: u64)
| AtomicStore (ev_site_id: u64) (ev_task_id: u64) (ev_time: "u64 option") (ev_ordering: ordering) (ev_value: u64)
| AtomicFetchAdd (ev_site_id: u64) (ev_task_id: u64) (ev_time: "u64 option") (ev_ordering: ordering)
    (ev_prev: u64) (ev_next: u64) (ev_delta: u64)
| AtomicCompareExchange (ev_site_id: u64) (ev_task_id: u64) (ev_time: "u64 option")
    (ev_success_order: ordering) (ev_failure_order: ordering)
    (ev_current: u64) (ev_expected: u64) (ev_new: u64) (ev_succeeded: bool)

text \<open>
  What the runtime knows about the caller: the task that is being polled, if any, and the
  simulation time.
\<close>

record poll_env =
  env_task :: "u64 option"
  env_time :: "simtime option"

definition current_time_nanos :: "poll_env \<Rightarrow> u64 option" where
  "current_time_nanos e =
     (case env_time e of
        None \<Rightarrow> None
      | Some t \<Rightarrow> Some (case try_from_nat (as_duration t) of Some n \<Rightarrow> n | None \<Rightarrow> u64_max))"

section \<open>Atomic integer\<close>

record atomic_u64 =
  at_site_id :: u64
  at_inner :: u64

definition atomic_new :: "u64 \<Rightarrow> u64 \<Rightarrow> atomic_u64" where
  "atomic_new site_id value = \<lparr>at_site_id = site_id, at_inner = value\<rparr>"

text \<open>
  Every operation returns its result, the recorded event and the new state; it panics
  (\<open>None\<close>) outside of a task.
\<close>

definition atomic_load ::
  "poll_env \<Rightarrow> ordering \<Rightarrow> atomic_u64 \<Rightarrow> (u64 \<times> concurrency_event \<times> atomic_u64) option"
where
  "atomic_load e ord a =
     map_option (\<lambda>task.
       (at_inner a, AtomicLoad (at_site_id a) task (current_time_nanos e) ord (at_inner a), a))
     (env_task e)"

definition atomic_store ::
  "poll_env \<Rightarrow> u64 \<Rightarrow> ordering \<Rightarrow> atomic_u64 \<Rightarrow> (unit \<times> concurrency_event \<times> atomic_u64) option"
where
  "atomic_store e v ord a =
     map_option (\<lambda>task.
       ((), AtomicStore (at_site_id a) task (current_time_nanos e) ord v, a\<lparr>at_inner := v\<rparr>))
     (env_task e)"

definition atomic_fetch_add ::
  "poll_env \<Rightarrow> u64 \<Rightarrow> ordering \<Rightarrow> atomic_u64 \<Rightarrow> (u64 \<times> concurrency_event \<times> atomic_u64) option"
where
  "atomic_fetch_add e delta ord a =
     (let prev = at_inner a; a = a\<lparr>at_inner := prev + delta\<rparr>; n = prev + delta
      in map_option (\<lambda>task.
           (prev, AtomicFetchAdd (at_site_id a) task (current_time_nanos e) ord prev n delta, a))
         (env_task e))"

definition atomic_compare_exchange ::
  "poll_env \<Rightarrow> u64 \<Rightarrow> u64 \<Rightarrow> ordering \<Rightarrow> ordering \<Rightarrow> atomic_u64
    \<Rightarrow> ((u64 + u64) \<times> concurrency_event \<times> atomic_u64) option"
where
  "atomic_compare_exchange e expected new success failure a =
     (let (res, a) = (if at_inner a = expected then (Inr (at_inner a), a\<lparr>at_inner := new\<rparr>)
                      else (Inl (at_inner a), a));
          current = (case res of Inr v \<Rightarrow> v | Inl v \<Rightarrow> v)
      in map_option (\<lambda>task.
           (res, AtomicCompareExchange (at_site_id a) task (current_time_nanos e) success failure
                   current expected new (\<not> isl res), a))
         (env_task e))"

section \<open>The recorded events determine the values\<close>

text \<open>Replaying an event: the value after it, if what it recorded fits the value before it.\<close>

fun replay_event :: "concurrency_event \<Rightarrow> u64 \<Rightarrow> u64 option" where
  "replay_event (AtomicLoad _ _ _ _ v) x = (if v = x then Some x else None)"
| "replay_event (AtomicStore _ _ _ _ v) x = Some v"
| "replay_event (AtomicFetchAdd _ _ _ _ prev n delta) x =
     (if prev = x \<and> n = x + delta then Some n else None)"
| "replay_event (AtomicCompareExchange _ _ _ _ _ current expected new succeeded) x =
     (if current = x \<and> succeeded = (x = expected) then Some (if succeeded then new else x) else None)"
| "replay_event _ x = None"

fun replay_events :: "concurrency_event list \<Rightarrow> u64 \<Rightarrow> u64 option" where
  "replay_events [] x = Some x"
| "replay_events (ev # evs) x = Option.bind (replay_event ev x) (replay_events evs)"

lemma replay_events_append:
  "replay_events (evs @ evs') x = Option.bind (replay_events evs x) (replay_events evs')"
  by (induction evs arbitrary: x) (auto simp: bind_eq_Some_conv split: bind_splits)

inductive atomic_run :: "atomic_u64 \<Rightarrow> concurrency_event list \<Rightarrow> atomic_u64 \<Rightarrow> bool" for init where
  ar_new: "atomic_run init [] init"
| ar_load: "atomic_run init evs a \<Longrightarrow> atomic_load e ord a = Some (v, ev, a') \<Longrightarrow> atomic_run init (evs @ [ev]) a'"
| ar_store: "atomic_run init evs a \<Longrightarrow> atomic_store e v ord a = Some (u, ev, a') \<Longrightarrow> atomic_run init (evs @ [ev]) a'"
| ar_fetch_add: "atomic_run init evs a \<Longrightarrow> atomic_fetch_add e d ord a = Some (v, ev, a') \<Longrightarrow> atomic_run init (evs @ [ev]) a'"
| ar_cas: "atomic_run init evs a \<Longrightarrow> atomic_compare_exchange e x y ord ord' a = Some (r, ev, a') \<Longrightarrow>
    atomic_run init (evs @ [ev]) a'"

text \<open>
  The log of an atomic integer is complete and consistent: replaying it from the initial
  value succeeds, that is every recorded read fits the writes before it, and ends in the
  present value; all events carry the identifier of the integer.
\<close>

theorem atomic_log_replays:
  assumes "atomic_run init evs a"
  shows "replay_events evs (at_inner init) = Some (at_inner a) \<and> ev_site_id ` set evs \<subseteq> {at_site_id init}"
proof -
  from assms have "replay_events evs (at_inner init) = Some (at_inner a) \<and>
      ev_site_id ` set evs \<subseteq> {at_site_id init} \<and> at_site_id a = at_site_id init"
    by (induction rule: atomic_run.induct)
      (auto simp: atomic_load_def atomic_store_def atomic_fetch_add_def atomic_compare_exchange_def
        replay_events_append Let_def split: if_splits)
  then show ?thesis by blast
qed

theorem atomic_log_replays_witness:
  "\<exists>ev a. atomic_fetch_add \<lparr>env_task = Some 1, env_time = None\<rparr> 2 SeqCst (atomic_new 9 u64_max) = Some (u64_max, ev, a)
     \<and> replay_events [ev] u64_max = Some 1 \<and> at_inner a = 1"
proof -
  let ?e = "\<lparr>env_task = Some 1, env_time = None\<rparr>"
  let ?ev = "AtomicFetchAdd 9 1 None SeqCst u64_max 1 2"
  have 1: "atomic_fetch_add ?e 2 SeqCst (atomic_new 9 u64_max) = Some (u64_max, ?ev, atomic_new 9 1)"
    by (simp add: atomic_fetch_add_def atomic_new_def current_time_nanos_def Let_def)
  from atomic_log_replays [OF ar_fetch_add [OF ar_new 1]] have "replay_events [?ev] u64_max = Some 1"
    by (simp add: atomic_new_def)
  with 1 show ?thesis by (auto simp: atomic_new_def)
qed

end
