(* ===== verification/Async_Mutex.thy ===== *)
theory Async_Mutex
  imports Wakers Concurrency
begin

text \<open>
  \<open>des-tokio/src/sync/mutex.rs\<close>: the asynchronous mutex, with its queue of waiting tasks, the
  policy that picks the waiter to wake, and the events it records. The guarded value is left
  out; waiter identifiers are natural numbers. A lock future has no \<open>Drop\<close>, so a cancelled
  one stays in the queue; the last section shows the consequence.
\<close>

section \<open>State\<close>

record waiter_info =
  wi_waiter_id :: nat
  wi_task_id :: u64

record 'w mutex_waiter =
  mw_waiter_id :: nat
  mw_task_id :: u64
  mw_waker :: 'w

record 'w mutex_state =
  mutex_id :: u64
  locked :: bool
  owner_task_id :: "u64 option"
  next_waiter_id :: nat
  mx_waiters :: "'w mutex_waiter list"

definition mutex_new_with_id :: "u64 \<Rightarrow> 'w mutex_state" where
  "mutex_new_with_id mid =
     \<lparr>mutex_id = mid, locked = False, owner_task_id = None, next_waiter_id = 0, mx_waiters = []\<rparr>"

text \<open>
  A waiter policy returns an index and its next state. \<open>gen_range\<close> of the random policy is a
  parameter: a draw below a positive bound.
\<close>

type_synonym 'p waiter_policy = "'p \<Rightarrow> simtime \<Rightarrow> waiter_info list \<Rightarrow> usize \<times> 'p"

definition fifo_waiter_choose :: "'p waiter_policy" where
  "fifo_waiter_choose p time ws = (0, p)"

definition random_waiter_choose :: "('rng \<Rightarrow> usize \<Rightarrow> usize \<times> 'rng) \<Rightarrow> 'rng waiter_policy" where
  "random_waiter_choose gen_range rng time ws = (if ws = [] then (0, rng) else gen_range rng (length ws))"

section \<open>Operations\<close>

text \<open>\<open>None\<close> is the panic outside of a task. \<open>try_lock\<close> returns whether a guard was given.\<close>

definition try_lock ::
  "poll_env \<Rightarrow> 'w mutex_state \<Rightarrow> (bool \<times> concurrency_event \<times> 'w mutex_state) option"
where
  "try_lock e s =
     map_option (\<lambda>task.
       if locked s
       then (False, MutexContended (mutex_id s) task (current_time_nanos e) (length (mx_waiters s)), s)
       else (True, MutexAcquire (mutex_id s) task (current_time_nanos e),
             s\<lparr>locked := True, owner_task_id := Some task\<rparr>))
     (env_task e)"

text \<open>\<open>iter_mut().find(..)\<close>: the waker of the first waiter of the task is replaced.\<close>

fun replace_waker :: "u64 \<Rightarrow> 'w \<Rightarrow> 'w mutex_waiter list \<Rightarrow> 'w mutex_waiter list option" where
  "replace_waker task w [] = None"
| "replace_waker task w (x # xs) =
     (if mw_task_id x = task then Some (x\<lparr>mw_waker := w\<rparr> # xs)
      else map_option ((#) x) (replace_waker task w xs))"

definition lock_poll ::
  "poll_env \<Rightarrow> 'w \<Rightarrow> 'w mutex_state \<Rightarrow> (unit poll \<times> concurrency_event \<times> 'w mutex_state) option"
where
  "lock_poll e w s =
     map_option (\<lambda>task.
       if \<not> locked s
       then (Ready (), MutexAcquire (mutex_id s) task (current_time_nanos e),
             s\<lparr>locked := True, owner_task_id := Some task\<rparr>)
       else
         (let ev = MutexContended (mutex_id s) task (current_time_nanos e) (length (mx_waiters s));
              waiter_id = next_waiter_id s;
              s = s\<lparr>next_waiter_id := next_waiter_id s + 1\<rparr>
          in case replace_waker task w (mx_waiters s) of
               Some ws \<Rightarrow> (Pending, ev, s\<lparr>mx_waiters := ws\<rparr>)
             | None \<Rightarrow> (Pending, ev, s\<lparr>mx_waiters := mx_waiters s @
                 [\<lparr>mw_waiter_id = waiter_id, mw_task_id = task, mw_waker = w\<rparr>]\<rparr>)))
     (env_task e)"

definition waiter_info_of :: "'w mutex_waiter \<Rightarrow> waiter_info" where
  "waiter_info_of x = \<lparr>wi_waiter_id = mw_waiter_id x, wi_task_id = mw_task_id x\<rparr>"

definition guard_drop ::
  "'p waiter_policy \<Rightarrow> 'p \<Rightarrow> poll_env \<Rightarrow> 'w mutex_state
    \<Rightarrow> ('w list \<times> concurrency_event \<times> 'p \<times> 'w mutex_state) option"
where
  "guard_drop pick p e s =
     map_option (\<lambda>task.
       (let ev = MutexRelease (mutex_id s) task (current_time_nanos e);
            s = s\<lparr>locked := False, owner_task_id := None\<rparr>
        in if mx_waiters s = [] then ([], ev, p, s)
           else
             (let now = (case env_time e of Some t \<Rightarrow> t | None \<Rightarrow> zero);
                  (chosen, p) = pick p now (map waiter_info_of (mx_waiters s));
                  chosen = min chosen (length (mx_waiters s) - 1);
                  waiter = mx_waiters s ! chosen
              in ([mw_waker waiter], ev, p,
                  s\<lparr>mx_waiters := take chosen (mx_waiters s) @ drop (Suc chosen) (mx_waiters s)\<rparr>))))
     (env_task e)"

section \<open>Runs\<close>

text \<open>
  A run of one mutex: its state, that of the policy, the number of guards, the wakers that
  were called and whose tasks have not polled since, and the recorded events. Lock futures
  are not dropped while they wait; one waker stands for one waiting future.
\<close>

inductive mutex_run ::
  "'p waiter_policy \<Rightarrow> u64 \<Rightarrow> 'w mutex_state \<Rightarrow> 'p \<Rightarrow> nat \<Rightarrow> 'w multiset \<Rightarrow> concurrency_event list \<Rightarrow> bool"
  for pick mid
where
  mr_new: "mutex_run pick mid (mutex_new_with_id mid) p 0 {#} []"
| mr_try_lock: "mutex_run pick mid s p g W evs \<Longrightarrow> try_lock e s = Some (b, ev, s') \<Longrightarrow>
    mutex_run pick mid s' p (if b then g + 1 else g) W (evs @ [ev])"
| mr_poll: "mutex_run pick mid s p g W evs \<Longrightarrow> lock_poll e w s = Some (r, ev, s') \<Longrightarrow>
    mutex_run pick mid s' p (if r = Pending then g else g + 1) (W - {#w#}) (evs @ [ev])"
| mr_drop: "mutex_run pick mid s p (Suc g) W evs \<Longrightarrow> guard_drop pick p e s = Some (ws, ev, p', s') \<Longrightarrow>
    mutex_run pick mid s' p' g (W + mset ws) (evs @ [ev])"

text \<open>Acquire and release events alternate; the state is whether the mutex is held.\<close>

fun well_bracketed :: "u64 \<Rightarrow> bool \<Rightarrow> concurrency_event list \<Rightarrow> bool option" where
  "well_bracketed mid held [] = Some held"
| "well_bracketed mid held (ev # evs) =
     (if ev_mutex_id ev \<noteq> mid then None
      else case ev of
        MutexContended _ _ _ _ \<Rightarrow> if held then well_bracketed mid held evs else None
      | MutexAcquire _ _ _ \<Rightarrow> if held then None else well_bracketed mid True evs
      | MutexRelease _ _ _ \<Rightarrow> if held then well_bracketed mid False evs else None
      | _ \<Rightarrow> None)"

lemma well_bracketed_snoc:
  "well_bracketed mid h evs = Some h' \<Longrightarrow>
   well_bracketed mid h (evs @ [ev]) = well_bracketed mid h' [ev]"
  by (induction evs arbitrary: h) (auto split: if_splits concurrency_event.splits)

lemma replace_waker_tasks:
  "replace_waker task w xs = Some ys \<Longrightarrow> map mw_task_id ys = map mw_task_id xs"
  "replace_waker task w xs = None \<longleftrightarrow> task \<notin> mw_task_id ` set xs"
  by (induction xs arbitrary: ys) (auto split: if_splits)

lemma distinct_take_drop_Suc: "distinct xs \<Longrightarrow> distinct (take n xs @ drop (Suc n) xs)"
  using set_take_disj_set_drop_if_distinct [of xs n "Suc n"] by simp

lemma distinct_map_remove:
  "distinct (map f xs) \<Longrightarrow> distinct (map f (take n xs @ drop (Suc n) xs))"
  using distinct_take_drop_Suc [of "map f xs" n] by (simp add: take_map drop_map)

definition mutex_inv :: "u64 \<Rightarrow> 'w mutex_state \<Rightarrow> nat \<Rightarrow> 'w multiset \<Rightarrow> concurrency_event list \<Rightarrow> bool" where
  "mutex_inv mid s g W evs \<longleftrightarrow>
     mutex_id s = mid \<and> g = (if locked s then 1 else 0) \<and> (owner_task_id s \<noteq> None \<longleftrightarrow> locked s) \<and>
     well_bracketed mid False evs = Some (locked s) \<and> distinct (map mw_task_id (mx_waiters s)) \<and>
     (mx_waiters s \<noteq> [] \<longrightarrow> locked s \<or> W \<noteq> {#})"

lemma mutex_run_inv: "mutex_run pick mid s p g W evs \<Longrightarrow> mutex_inv mid s g W evs"
proof (induction rule: mutex_run.induct)
  case (mr_try_lock s p g W evs e b ev s')
  then show ?case
    by (auto simp: mutex_inv_def try_lock_def well_bracketed_snoc split: if_splits)
next
  case (mr_poll s p g W evs e w r ev s')
  then show ?case
    by (auto simp: mutex_inv_def lock_poll_def well_bracketed_snoc Let_def replace_waker_tasks
        split: if_splits option.splits)
next
  case (mr_drop s p g W evs e ws ev p' s')
  then show ?case
    using distinct_map_remove [of mw_task_id "mx_waiters s"]
    by (auto simp: mutex_inv_def guard_drop_def well_bracketed_snoc Let_def
        split: if_splits prod.splits)
qed (simp add: mutex_inv_def mutex_new_with_id_def)

section \<open>Properties\<close>

text \<open>
  C7. Mutual exclusion and progress, for every waiter policy: at most one guard exists, exactly
  while the mutex is locked; the recorded events are a proper alternation of acquisitions
  and releases; and while lock futures are not dropped, tasks in the queue wait for a guard
  or for a woken task that has yet to poll, never for nobody.
\<close>

theorem mutex_exclusion:
  assumes "mutex_run pick mid s p g W evs"
  shows "g \<le> 1 \<and> (locked s \<longleftrightarrow> g = 1) \<and> well_bracketed mid False evs = Some (locked s)
    \<and> (mx_waiters s \<noteq> [] \<longrightarrow> g = 1 \<or> W \<noteq> {#})"
  using mutex_run_inv [OF assms] by (auto simp: mutex_inv_def)

text \<open>
  Releasing the mutex wakes exactly one waiter, at the index the policy chose, clamped to
  the queue; the others keep their order. With the FIFO policy it is the head.
\<close>

lemma guard_drop_wakes_one:
  assumes "mx_waiters s \<noteq> []" "env_task e = Some task"
  shows "\<exists>i ev p'. i < length (mx_waiters s) \<and> guard_drop pick p e s =
    Some ([mw_waker (mx_waiters s ! i)], ev, p',
      s\<lparr>locked := False, owner_task_id := None,
         mx_waiters := take i (mx_waiters s) @ drop (Suc i) (mx_waiters s)\<rparr>)"
proof -
  obtain k p' where k: "pick p (case env_time e of Some t \<Rightarrow> t | None \<Rightarrow> zero)
      (map waiter_info_of (mx_waiters s)) = (k, p')"
    by fastforce
  let ?i = "min k (length (mx_waiters s) - 1)"
  from assms have "?i < length (mx_waiters s)" by (cases "mx_waiters s") auto
  with k assms show ?thesis
    by (intro exI [of _ ?i] exI [of _ "MutexRelease (mutex_id s) task (current_time_nanos e)"] exI [of _ p'])
      (simp add: guard_drop_def Let_def)
qed

lemma guard_drop_fifo:
  assumes "mx_waiters s = x # xs" "env_task e = Some task"
  shows "\<exists>ev. guard_drop fifo_waiter_choose p e s =
    Some ([mw_waker x], ev, p, s\<lparr>locked := False, owner_task_id := None, mx_waiters := xs\<rparr>)"
  using assms by (simp add: guard_drop_def fifo_waiter_choose_def)

abbreviation task_env :: "u64 \<Rightarrow> poll_env" where
  "task_env t \<equiv> \<lparr>env_task = Some t, env_time = None\<rparr>"

text \<open>Task 1 holds the mutex, task 2 waits, then 1 releases it.\<close>

lemma released_run:
  "mutex_run fifo_waiter_choose 4
     ((mutex_new_with_id 4 :: nat mutex_state)\<lparr>next_waiter_id := 1\<rparr>) () 0 {#7#}
     [MutexAcquire 4 1 None, MutexContended 4 2 None 0, MutexRelease 4 1 None]"
proof -
  let ?s = "(mutex_new_with_id 4 :: nat mutex_state)\<lparr>locked := True, owner_task_id := Some 1\<rparr>"
  let ?t = "?s\<lparr>next_waiter_id := 1, mx_waiters := [\<lparr>mw_waiter_id = 0, mw_task_id = 2, mw_waker = 7\<rparr>]\<rparr>"
  have "mutex_run fifo_waiter_choose 4 ?s () 1 {#} [MutexAcquire 4 1 None]"
    using mr_try_lock [OF mr_new [of fifo_waiter_choose 4 "()"], of "task_env 1" True]
    by (simp add: try_lock_def mutex_new_with_id_def current_time_nanos_def)
  from mr_poll [OF this, of "task_env 2" 7]
  have "mutex_run fifo_waiter_choose 4 ?t () 1 {#} [MutexAcquire 4 1 None, MutexContended 4 2 None 0]"
    by (simp add: lock_poll_def mutex_new_with_id_def current_time_nanos_def)
  from mr_drop [OF this [unfolded One_nat_def], of "task_env 1"] show ?thesis
    by (simp add: guard_drop_def fifo_waiter_choose_def mutex_new_with_id_def current_time_nanos_def)
qed

theorem mutex_exclusion_witness:
  "well_bracketed 4 False [MutexAcquire 4 1 None, MutexContended 4 2 None 0, MutexRelease 4 1 None]
     = Some (locked ((mutex_new_with_id 4 :: nat mutex_state)\<lparr>next_waiter_id := 1\<rparr>))"
  using mutex_exclusion [OF released_run] by blast

section \<open>Cancellation\<close>

text \<open>
  A cancelled lock future swallows the wake-up: tasks 2 and 3 wait while 1 holds the mutex,
  the future of 2 is dropped (which leaves its entry in the queue) and 1 releases the mutex.
  Only the waker of 2 is called; the mutex is free, and 3 stays in the queue unwoken.
\<close>

theorem mutex_cancelled_waiter:
  "\<exists>s1 s2 s3 s4 e1 e2 e3 e4. lock_poll (task_env 1) 10 (mutex_new_with_id 4) = Some (Ready (), e1, s1)
     \<and> lock_poll (task_env 2) 20 s1 = Some (Pending, e2, s2)
     \<and> lock_poll (task_env 3) (30 :: nat) s2 = Some (Pending, e3, s3)
     \<and> guard_drop fifo_waiter_choose () (task_env 1) s3 = Some ([20], e4, (), s4)
     \<and> \<not> locked s4 \<and> map mw_task_id (mx_waiters s4) = [3]"
  by (simp add: lock_poll_def guard_drop_def fifo_waiter_choose_def mutex_new_with_id_def Let_def)

end
