(* ===== verification/Barrier.thy ===== *)
theory Barrier
  imports Wakers
begin

text \<open>
  \<open>des-tokio/src/sync/barrier.rs\<close>: tasks wait until a given number of them has arrived. The
  generation counter wraps around, so the properties are stated for fewer than \<open>2 ^ 64\<close>
  releases.
\<close>

section \<open>State and operations\<close>

record 'w barrier_waiter =
  bw_task_id :: u64
  bw_waker :: 'w

record 'w barrier_state =
  parties :: usize
  arrived :: usize
  generation :: u64
  bs_waiters :: "'w barrier_waiter list"

text \<open>\<open>Barrier::new\<close> asserts a positive number of parties.\<close>

definition barrier_new :: "usize \<Rightarrow> 'w barrier_state option" where
  "barrier_new n =
     (if 0 < n then Some \<lparr>parties = n, arrived = 0, generation = 0, bs_waiters = []\<rparr> else None)"

record wait_future =
  wf_generation :: u64
  wf_task_id :: "u64 option"
  wf_registered :: bool

definition barrier_wait :: "'w barrier_state \<Rightarrow> wait_future" where
  "barrier_wait s = \<lparr>wf_generation = generation s, wf_task_id = None, wf_registered = False\<rparr>"

text \<open>The waker of the first waiter with the task's identifier is replaced.\<close>

fun update_waker :: "u64 \<Rightarrow> 'w \<Rightarrow> 'w barrier_waiter list \<Rightarrow> 'w barrier_waiter list" where
  "update_waker task w [] = []"
| "update_waker task w (x # xs) =
     (if bw_task_id x = task then x\<lparr>bw_waker := w\<rparr> # xs else x # update_waker task w xs)"

text \<open>
  \<open>Wait::poll\<close> by the task \<open>cur\<close>, which is read on the first poll only; outside of a task
  the first poll panics. \<open>Ready True\<close> is the result of the leader.
\<close>

definition wait_poll ::
  "u64 option \<Rightarrow> 'w \<Rightarrow> wait_future \<Rightarrow> 'w barrier_state
    \<Rightarrow> (bool poll \<times> 'w list \<times> wait_future \<times> 'w barrier_state) option"
where
  "wait_poll cur w f s =
     (case (case wf_task_id f of Some t \<Rightarrow> Some t | None \<Rightarrow> cur) of
        None \<Rightarrow> None
      | Some task \<Rightarrow>
          (let f = f\<lparr>wf_task_id := Some task\<rparr>
           in if generation s \<noteq> wf_generation f then Some (Ready False, [], f, s)
              else if wf_registered f
              then Some (Pending, [], f, s\<lparr>bs_waiters := update_waker task w (bs_waiters s)\<rparr>)
              else if arrived s + 1 = parties s
              then Some (Ready True, map bw_waker (bs_waiters s), f,
                     s\<lparr>generation := generation s + 1, arrived := 0, bs_waiters := []\<rparr>)
              else Some (Pending, [], f\<lparr>wf_registered := True\<rparr>,
                     s\<lparr>arrived := arrived s + 1,
                       bs_waiters := bs_waiters s @ [\<lparr>bw_task_id = task, bw_waker = w\<rparr>]\<rparr>)))"

definition wait_drop :: "wait_future \<Rightarrow> 'w barrier_state \<Rightarrow> 'w barrier_state" where
  "wait_drop f s =
     (if \<not> wf_registered f then s
      else case wf_task_id f of
        None \<Rightarrow> s
      | Some task \<Rightarrow>
          if generation s \<noteq> wf_generation f then s
          else if task \<in> bw_task_id ` set (bs_waiters s)
          then s\<lparr>bs_waiters := remove1 (the (find (\<lambda>x. bw_task_id x = task) (bs_waiters s))) (bs_waiters s),
                 arrived := arrived s - 1\<rparr>
          else s)"

text \<open>\<open>find\<close> and \<open>remove1\<close> name the same entry: the first one of the task.\<close>

section \<open>Runs\<close>

text \<open>
  A run of a barrier: its state, the wait futures that exist and the number of releases. A
  future that completed is dropped.
\<close>

inductive barrier_run :: "usize \<Rightarrow> 'w barrier_state \<Rightarrow> wait_future multiset \<Rightarrow> nat \<Rightarrow> bool" for n where
  br_new: "barrier_new n = Some s \<Longrightarrow> barrier_run n s {#} 0"
| br_wait: "barrier_run n s F k \<Longrightarrow> barrier_run n s (add_mset (barrier_wait s) F) k"
| br_pending: "barrier_run n s (add_mset f F) k \<Longrightarrow> wait_poll cur w f s = Some (Pending, ws, f', s') \<Longrightarrow>
    barrier_run n s' (add_mset f' F) k"
| br_ready: "barrier_run n s (add_mset f F) k \<Longrightarrow> wait_poll cur w f s = Some (Ready leader, ws, f', s') \<Longrightarrow>
    barrier_run n (wait_drop f' s') F (if leader then k + 1 else k)"
| br_drop: "barrier_run n s (add_mset f F) k \<Longrightarrow> barrier_run n (wait_drop f s) F k"

section \<open>Invariant\<close>

text \<open>
  The futures that have arrived in the present generation, by task; they correspond to the
  queue.
\<close>

definition arrivals :: "'w barrier_state \<Rightarrow> wait_future multiset \<Rightarrow> u64 option multiset" where
  "arrivals s F = image_mset wf_task_id
     (filter_mset (\<lambda>f. wf_registered f \<and> wf_generation f = generation s) F)"

definition barrier_inv :: "usize \<Rightarrow> 'w barrier_state \<Rightarrow> wait_future multiset \<Rightarrow> nat \<Rightarrow> bool" where
  "barrier_inv n s F k \<longleftrightarrow>
     parties s = n \<and> arrived s = length (bs_waiters s) \<and> length (bs_waiters s) < n \<and>
     unat (generation s) = k \<and> (\<forall>f\<in>#F. wf_generation f \<le> generation s) \<and>
     (\<forall>f\<in>#F. wf_registered f \<longrightarrow> wf_task_id f \<noteq> None) \<and>
     mset (map (\<lambda>x. Some (bw_task_id x)) (bs_waiters s)) = arrivals s F"

lemma update_waker_tasks [simp]: "map bw_task_id (update_waker task w xs) = map bw_task_id xs"
  by (induction xs) auto

lemma update_waker_length [simp]: "length (update_waker task w xs) = length xs"
  by (induction xs) auto

lemma map_some_tasks: "map (\<lambda>x. Some (bw_task_id x)) xs = map Some (map bw_task_id xs)"
  by simp

lemma wait_drop_inv:
  assumes "barrier_inv n s (add_mset f F) k"
  shows "barrier_inv n (wait_drop f s) F k"
proof (cases "wf_registered f \<and> wf_generation f = generation s")
  case True
  then obtain t where t: "wf_task_id f = Some t" using assms by (auto simp: barrier_inv_def)
  with True assms have m: "mset (map (\<lambda>x. Some (bw_task_id x)) (bs_waiters s)) = add_mset (Some t) (arrivals s F)"
    by (simp add: barrier_inv_def arrivals_def)
  then have "Some t \<in># mset (map (\<lambda>x. Some (bw_task_id x)) (bs_waiters s))" by simp
  then have "t \<in> bw_task_id ` set (bs_waiters s)" by auto
  then obtain x where x: "find (\<lambda>x. bw_task_id x = t) (bs_waiters s) = Some x"
    by (cases "find (\<lambda>x. bw_task_id x = t) (bs_waiters s)") (auto simp: find_None_iff)
  then have xin: "x \<in> set (bs_waiters s)" "bw_task_id x = t" by (auto simp: find_Some_iff)
  let ?s = "s\<lparr>bs_waiters := remove1 x (bs_waiters s), arrived := arrived s - 1\<rparr>"
  have d: "wait_drop f s = ?s" using True t x xin by (auto simp: wait_drop_def)
  from xin have "mset (bs_waiters s) = add_mset x (mset (remove1 x (bs_waiters s)))" by simp
  then have "image_mset (\<lambda>x. Some (bw_task_id x)) (mset (bs_waiters s)) =
      add_mset (Some t) (image_mset (\<lambda>x. Some (bw_task_id x)) (mset (remove1 x (bs_waiters s))))"
    using xin(2) by (metis image_mset_add_mset)
  with m have "mset (map (\<lambda>x. Some (bw_task_id x)) (remove1 x (bs_waiters s))) = arrivals s F" by simp
  moreover have "arrivals ?s F = arrivals s F" by (simp add: arrivals_def)
  ultimately show ?thesis
    using assms xin(1) unfolding d
    by (auto simp: barrier_inv_def length_remove1)
next
  case False
  then have "wait_drop f s = s" by (auto simp: wait_drop_def split: option.splits)
  with False assms show ?thesis by (auto simp: barrier_inv_def arrivals_def)
qed

lemma wait_poll_cases:
  assumes "wait_poll cur w f s = Some (p, ws, f', s')"
  obtains (released) "generation s \<noteq> wf_generation f" "p = Ready False" "ws = []" "s' = s"
      "wf_generation f' = wf_generation f" "wf_registered f' = wf_registered f" "wf_task_id f' \<noteq> None"
      "wf_task_id f \<noteq> None \<Longrightarrow> f' = f"
  | (again) t where "generation s = wf_generation f" "wf_registered f" "p = Pending" "ws = []"
      "s' = s\<lparr>bs_waiters := update_waker t w (bs_waiters s)\<rparr>" "wf_task_id f \<noteq> None \<Longrightarrow> f' = f"
  | (leader) "generation s = wf_generation f" "\<not> wf_registered f" "arrived s + 1 = parties s" "p = Ready True"
      "ws = map bw_waker (bs_waiters s)" "\<not> wf_registered f'"
      "s' = s\<lparr>generation := generation s + 1, arrived := 0, bs_waiters := []\<rparr>"
  | (arrive) t where "generation s = wf_generation f" "\<not> wf_registered f" "arrived s + 1 \<noteq> parties s" "p = Pending"
      "ws = []" "f' = f\<lparr>wf_task_id := Some t, wf_registered := True\<rparr>"
      "s' = s\<lparr>arrived := arrived s + 1, bs_waiters := bs_waiters s @ [\<lparr>bw_task_id = t, bw_waker = w\<rparr>]\<rparr>"
  using assms by (cases f; cases s) (auto simp: wait_poll_def Let_def split: option.splits if_splits)

lemma arrivals_waiters [simp]:
  "arrivals (s\<lparr>bs_waiters := ws\<rparr>) F = arrivals s F" "arrivals (s\<lparr>arrived := m, bs_waiters := ws\<rparr>) F = arrivals s F"
  by (simp_all add: arrivals_def)

lemma wait_pending_inv:
  assumes "barrier_inv n s (add_mset f F) k" "wait_poll cur w f s = Some (Pending, ws, f', s')"
  shows "barrier_inv n s' (add_mset f' F) k"
  using assms(2)
proof (cases rule: wait_poll_cases)
  case (again t)
  moreover have "mset (map (\<lambda>x. Some (bw_task_id x)) (update_waker t w (bs_waiters s)))
      = mset (map (\<lambda>x. Some (bw_task_id x)) (bs_waiters s))"
    by (simp only: map_some_tasks update_waker_tasks)
  ultimately show ?thesis using assms(1) by (simp add: barrier_inv_def)
next
  case (arrive t)
  then show ?thesis using assms(1) by (auto simp: barrier_inv_def arrivals_def)
qed simp_all

lemma release_inv:
  assumes "barrier_inv n s (add_mset f F) k" "Suc k < 2 ^ 64"
  shows "barrier_inv n (s\<lparr>generation := generation s + 1, arrived := 0, bs_waiters := []\<rparr>) F (Suc k)"
proof -
  have "generation s \<noteq> - 1" using assms by (auto simp: barrier_inv_def sat_simps)
  then have g: "unat (generation s + 1) = Suc (unat (generation s))" by (rule unat_Suc_word)
  then have lt: "h < generation s + 1" if "h \<le> generation s" for h
    using that by (simp add: word_le_nat_alt word_less_nat_alt)
  have "filter_mset (\<lambda>f. wf_registered f \<and> wf_generation f = generation s + 1) F = {#}"
    using assms(1) lt by (fastforce simp: barrier_inv_def filter_mset_eq_conv)
  then show ?thesis using assms(1) g lt by (auto simp: barrier_inv_def arrivals_def dest: order_less_imp_le)
qed

lemma wait_ready_inv:
  assumes inv: "barrier_inv n s (add_mset f F) k"
    and p: "wait_poll cur w f s = Some (Ready leader, ws, f', s')"
    and k: "(if leader then k + 1 else k) < 2 ^ 64"
  shows "barrier_inv n (wait_drop f' s') F (if leader then k + 1 else k)"
  using p
proof (cases rule: wait_poll_cases)
  case released
  then have "wait_drop f' s' = s" by (auto simp: wait_drop_def split: option.splits)
  then show ?thesis using inv released by (auto simp: barrier_inv_def arrivals_def)
next
  case leader
  then have "wait_drop f' s' = s'" by (simp add: wait_drop_def)
  with leader show ?thesis using release_inv [OF inv] k by simp
qed simp_all

lemma barrier_run_inv: "barrier_run n s F k \<Longrightarrow> k < 2 ^ 64 \<Longrightarrow> barrier_inv n s F k"
proof (induction rule: barrier_run.induct)
  case (br_new s)
  then show ?case by (auto simp: barrier_new_def barrier_inv_def arrivals_def split: if_splits)
next
  case (br_wait s F k)
  then show ?case by (auto simp: barrier_inv_def barrier_wait_def arrivals_def)
next
  case (br_pending s f F k cur w ws f' s')
  then show ?case by (auto intro: wait_pending_inv)
next
  case (br_ready s f F k cur w leader ws f' s')
  then show ?case by (intro wait_ready_inv) (auto split: if_splits)
next
  case (br_drop s f F k)
  then show ?case by (auto intro: wait_drop_inv)
qed

section \<open>Properties\<close>

text \<open>
  The barrier opens for the last party and only then: a future that arrives completes at
  once, as the leader, exactly when all other parties have arrived in its generation and not
  been dropped; it then wakes them in the order of their arrival and each of them completes
  as a follower. Otherwise it is queued and waits. This holds for fewer than \<open>2 ^ 64\<close>
  releases.
\<close>

theorem barrier_rendezvous:
  assumes "barrier_run n s (add_mset f F) k" and "Suc k < 2 ^ 64"
    and "wf_generation f = generation s" and "\<not> wf_registered f"
    and "wait_poll (Some t) w f s = Some (p, ws, f', s')"
  shows "p = (if size (arrivals s F) + 1 = n then Ready True else Pending) \<and>
    (p = Ready True \<longrightarrow> ws = map bw_waker (bs_waiters s) \<and> length ws + 1 = n \<and>
       (\<forall>f\<^sub>0 \<in># F. wf_registered f\<^sub>0 \<and> wf_generation f\<^sub>0 = generation s \<longrightarrow>
          (\<exists>f\<^sub>1. wait_poll cur w' f\<^sub>0 s' = Some (Ready False, [], f\<^sub>1, s'))))"
proof -
  have inv: "barrier_inv n s (add_mset f F) k" using assms by (intro barrier_run_inv) auto
  have "size (mset (map (\<lambda>x. Some (bw_task_id x)) (bs_waiters s))) = size (arrivals s F)"
    using inv assms(4) by (simp add: barrier_inv_def arrivals_def)
  then have len: "length (bs_waiters s) = size (arrivals s F)" by simp
  have f: "\<exists>f\<^sub>1. wait_poll cur w' f\<^sub>0 (s\<lparr>generation := generation s + 1, arrived := 0, bs_waiters := []\<rparr>)
      = Some (Ready False, [], f\<^sub>1, s\<lparr>generation := generation s + 1, arrived := 0, bs_waiters := []\<rparr>)"
    if "f\<^sub>0 \<in># F" "wf_registered f\<^sub>0" "wf_generation f\<^sub>0 = generation s" for f\<^sub>0
  proof -
    from that inv obtain u where "wf_task_id f\<^sub>0 = Some u" by (auto simp: barrier_inv_def)
    with that show ?thesis by (simp add: wait_poll_def Let_def)
  qed
  show ?thesis
    using assms(5)
  proof (cases rule: wait_poll_cases)
    case leader
    then show ?thesis using inv f len by (auto simp: barrier_inv_def)
  next
    case (arrive u)
    then show ?thesis using inv len by (auto simp: barrier_inv_def)
  qed (use assms in simp_all)
qed

text \<open>A barrier for two parties with one task waiting, and the future of a second one.\<close>

definition half_full :: "nat barrier_state" where
  "half_full = \<lparr>parties = 2, arrived = 1, generation = 0, bs_waiters = [\<lparr>bw_task_id = 1, bw_waker = 10\<rparr>]\<rparr>"

definition first_arrival :: wait_future where
  "first_arrival = \<lparr>wf_generation = 0, wf_task_id = Some 1, wf_registered = True\<rparr>"

lemma half_full_run: "barrier_run 2 half_full {#barrier_wait half_full, first_arrival#} 0"
proof -
  let ?s = "\<lparr>parties = 2, arrived = 0, generation = 0, bs_waiters = []\<rparr> :: nat barrier_state"
  have "barrier_run 2 ?s {#} 0" by (rule br_new) (simp add: barrier_new_def)
  from br_wait [OF this] have "barrier_run 2 ?s {#barrier_wait ?s#} 0" .
  from br_pending [OF this, of "Some 1" 10] have "barrier_run 2 half_full {#first_arrival#} 0"
    by (simp add: wait_poll_def barrier_wait_def half_full_def first_arrival_def)
  from br_wait [OF this] show ?thesis .
qed

theorem barrier_rendezvous_witness:
  "\<exists>f s ws. wait_poll (Some 2) 20 (barrier_wait half_full) half_full = Some (Ready True, ws, f, s) \<and> length ws + 1 = 2
     \<and> (\<exists>f'. wait_poll None 30 first_arrival s = Some (Ready False, [], f', s))"
proof -
  have g: "wf_generation (barrier_wait half_full) = generation half_full" "\<not> wf_registered (barrier_wait half_full)"
    by (simp_all add: barrier_wait_def)
  obtain f s where p: "wait_poll (Some 2) 20 (barrier_wait half_full) half_full = Some (Ready True, [10], f, s)"
    by (simp add: wait_poll_def barrier_wait_def half_full_def)
  have "first_arrival \<in># {#first_arrival#}" "wf_registered first_arrival" "wf_generation first_arrival = generation half_full"
    by (simp_all add: first_arrival_def half_full_def)
  with barrier_rendezvous [OF half_full_run _ g p, of None 30] p show ?thesis by auto
qed

text \<open>
  The generation is read when the future is created, not when the task arrives: a future that
  is first polled after a release completes without having been counted.
\<close>

lemma late_future_passes:
  "generation s \<noteq> wf_generation f \<Longrightarrow> wait_poll (Some t) w f s =
     Some (Ready False, [], f\<lparr>wf_task_id := Some (case wf_task_id f of Some u \<Rightarrow> u | None \<Rightarrow> t)\<rparr>, s)"
  by (auto simp: wait_poll_def split: option.splits)

end
