(* ===== verification/Watch.thy ===== *)
theory Watch
  imports Wakers
begin

text \<open>
  \<open>des-tokio/src/sync/watch.rs\<close>: a channel that keeps the last value. Receivers compare the
  version they have seen with the version of the channel; wakers are kept per receiver and
  called in the order in which the receivers were created. Receiver identifiers are natural
  numbers.
\<close>

section \<open>State\<close>

datatype changed_error = ChangedError

record ('a, 'w) watch_state =
  wt_sender_alive :: bool
  version :: u64
  wt_value :: 'a
  next_receiver_id :: nat
  wt_receiver_alive :: "nat \<rightharpoonup> bool"
  receiver_wakers :: "nat \<rightharpoonup> 'w"
  receiver_order :: "nat list"

record watch_receiver =
  rx_id :: nat
  seen_version :: u64

fun wake_receivers ::
  "nat list \<Rightarrow> (nat \<rightharpoonup> bool) \<Rightarrow> (nat \<rightharpoonup> 'w) \<Rightarrow> 'w list \<times> (nat \<rightharpoonup> 'w)"
where
  "wake_receivers [] alive wakers = ([], wakers)"
| "wake_receivers (i # is) alive wakers =
     (if alive i \<noteq> Some True then wake_receivers is alive wakers
      else case wakers i of
        None \<Rightarrow> wake_receivers is alive wakers
      | Some w \<Rightarrow> (let (ws, wakers) = wake_receivers is alive (wakers(i := None)) in (w # ws, wakers)))"

definition wake_all :: "('a, 'w) watch_state \<Rightarrow> 'w list \<times> ('a, 'w) watch_state" where
  "wake_all s =
     (let (ws, wakers) = wake_receivers (receiver_order s) (wt_receiver_alive s) (receiver_wakers s)
      in (ws, s\<lparr>receiver_wakers := wakers\<rparr>))"

text \<open>The first occurrence of the identifier leaves the order.\<close>

definition remove_receiver :: "nat \<Rightarrow> ('a, 'w) watch_state \<Rightarrow> ('a, 'w) watch_state" where
  "remove_receiver i s =
     s\<lparr>wt_receiver_alive := (wt_receiver_alive s)(i := None), receiver_wakers := (receiver_wakers s)(i := None),
       receiver_order := remove1 i (receiver_order s)\<rparr>"

definition add_receiver :: "('a, 'w) watch_state \<Rightarrow> nat \<times> ('a, 'w) watch_state" where
  "add_receiver s =
     (let i = next_receiver_id s
      in (i, s\<lparr>next_receiver_id := next_receiver_id s + 1, wt_receiver_alive := (wt_receiver_alive s)(i \<mapsto> True),
               receiver_order := receiver_order s @ [i]\<rparr>))"

definition watch_channel :: "'a \<Rightarrow> watch_receiver \<times> ('a, 'w) watch_state" where
  "watch_channel v =
     (let s = \<lparr>wt_sender_alive = True, version = 0, wt_value = v, next_receiver_id = 0,
               wt_receiver_alive = Map.empty, receiver_wakers = Map.empty, receiver_order = []\<rparr>;
          (i, s) = add_receiver s
      in (\<lparr>rx_id = i, seen_version = 0\<rparr>, s))"

section \<open>Senders\<close>

text \<open>The three sending operations store a value, advance the version and wake everybody.\<close>

definition watch_send :: "'a \<Rightarrow> ('a, 'w) watch_state \<Rightarrow> ('a + unit) \<times> 'w list \<times> ('a, 'w) watch_state" where
  "watch_send v s =
     (if \<not> wt_sender_alive s then (Inl v, [], s)
      else (let (ws, s) = wake_all (s\<lparr>wt_value := v, version := saturating_add (version s) 1\<rparr>)
            in (Inr (), ws, s)))"

definition send_replace :: "'a \<Rightarrow> ('a, 'w) watch_state \<Rightarrow> 'a \<times> 'w list \<times> ('a, 'w) watch_state" where
  "send_replace v s =
     (let old = wt_value s;
          (ws, s) = wake_all (s\<lparr>wt_value := v, version := saturating_add (version s) 1\<rparr>)
      in (old, ws, s))"

definition send_if_modified ::
  "('a \<Rightarrow> bool \<times> 'a) \<Rightarrow> ('a, 'w) watch_state \<Rightarrow> bool \<times> 'w list \<times> ('a, 'w) watch_state"
where
  "send_if_modified modify s =
     (let (modified, v) = modify (wt_value s)
      in if modified
         then (let (ws, s) = wake_all (s\<lparr>wt_value := v, version := saturating_add (version s) 1\<rparr>)
               in (True, ws, s))
         else (False, [], s))"

definition subscribe :: "('a, 'w) watch_state \<Rightarrow> watch_receiver \<times> ('a, 'w) watch_state" where
  "subscribe s = (let (i, s) = add_receiver s in (\<lparr>rx_id = i, seen_version = version s\<rparr>, s))"

definition watch_sender_drop :: "('a, 'w) watch_state \<Rightarrow> 'w list \<times> ('a, 'w) watch_state" where
  "watch_sender_drop s =
     (if \<not> wt_sender_alive s then ([], s) else wake_all (s\<lparr>wt_sender_alive := False\<rparr>))"

section \<open>Receivers\<close>

definition receiver_clone :: "watch_receiver \<Rightarrow> ('a, 'w) watch_state \<Rightarrow> watch_receiver \<times> ('a, 'w) watch_state" where
  "receiver_clone rx s = (let (i, s) = add_receiver s in (\<lparr>rx_id = i, seen_version = version s\<rparr>, s))"

definition borrow_and_update :: "watch_receiver \<Rightarrow> ('a, 'w) watch_state \<Rightarrow> 'a \<times> watch_receiver" where
  "borrow_and_update rx s = (wt_value s, rx\<lparr>seen_version := version s\<rparr>)"

definition has_changed :: "watch_receiver \<Rightarrow> ('a, 'w) watch_state \<Rightarrow> changed_error + bool" where
  "has_changed rx s =
     (if version s \<noteq> seen_version rx then Inr True
      else if \<not> wt_sender_alive s then Inl ChangedError
      else Inr False)"

definition poll_changed ::
  "'w \<Rightarrow> watch_receiver \<Rightarrow> ('a, 'w) watch_state
    \<Rightarrow> (changed_error + unit) poll \<times> watch_receiver \<times> ('a, 'w) watch_state"
where
  "poll_changed w rx s =
     (if version s \<noteq> seen_version rx then (Ready (Inr ()), rx\<lparr>seen_version := version s\<rparr>, s)
      else if \<not> wt_sender_alive s then (Ready (Inl ChangedError), rx, s)
      else (Pending, rx, s\<lparr>receiver_wakers := (receiver_wakers s)(rx_id rx \<mapsto> w)\<rparr>))"

text \<open>
  The loop of \<open>wait_for\<close> within one poll, for a condition without side effects. It goes round
  only when \<open>changed\<close> is ready with a new version, which the update just before excludes.
\<close>

function wait_for_loop ::
  "('a \<Rightarrow> bool) \<Rightarrow> 'w \<Rightarrow> watch_receiver \<Rightarrow> ('a, 'w) watch_state
    \<Rightarrow> (changed_error + 'a) poll \<times> watch_receiver \<times> ('a, 'w) watch_state"
where
  "wait_for_loop cond w rx s =
     (let (v, rx) = borrow_and_update rx s
      in if cond v then (Ready (Inr v), rx, s)
         else case poll_changed w rx s of
                (Ready (Inr _), rx, s) \<Rightarrow> wait_for_loop cond w rx s
              | (Ready (Inl e), rx, s) \<Rightarrow> (Ready (Inl e), rx, s)
              | (Pending, rx, s) \<Rightarrow> (Pending, rx, s))"
  by pat_completeness auto
termination
  by (relation "{}") (auto simp: borrow_and_update_def poll_changed_def split: if_splits)

text \<open>A later poll resumes at \<open>changed().await\<close>.\<close>

definition wait_for_resume ::
  "('a \<Rightarrow> bool) \<Rightarrow> 'w \<Rightarrow> watch_receiver \<Rightarrow> ('a, 'w) watch_state
    \<Rightarrow> (changed_error + 'a) poll \<times> watch_receiver \<times> ('a, 'w) watch_state"
where
  "wait_for_resume cond w rx s =
     (case poll_changed w rx s of
        (Ready (Inr _), rx, s) \<Rightarrow> wait_for_loop cond w rx s
      | (Ready (Inl e), rx, s) \<Rightarrow> (Ready (Inl e), rx, s)
      | (Pending, rx, s) \<Rightarrow> (Pending, rx, s))"

definition watch_receiver_drop :: "watch_receiver \<Rightarrow> ('a, 'w) watch_state \<Rightarrow> ('a, 'w) watch_state" where
  "watch_receiver_drop rx s = remove_receiver (rx_id rx) s"

section \<open>Runs\<close>

text \<open>
  The steps of a channel, labelled with the receiver that acts, if any, and the wakers
  called. A receiver acts only while it exists.
\<close>

inductive watch_step ::
  "nat option \<Rightarrow> ('a, 'w) watch_state \<Rightarrow> 'w list \<Rightarrow> ('a, 'w) watch_state \<Rightarrow> bool"
where
  ws_send: "watch_send v s = (r, ws, s') \<Longrightarrow> watch_step None s ws s'"
| ws_replace: "send_replace v s = (old, ws, s') \<Longrightarrow> watch_step None s ws s'"
| ws_modify: "send_if_modified m s = (b, ws, s') \<Longrightarrow> watch_step None s ws s'"
| ws_subscribe: "subscribe s = (rx, s') \<Longrightarrow> watch_step None s [] s'"
| ws_clone: "receiver_clone rx0 s = (rx, s') \<Longrightarrow> watch_step None s [] s'"
| ws_sender_drop: "watch_sender_drop s = (ws, s') \<Longrightarrow> watch_step None s ws s'"
| ws_poll: "rx_id rx \<in> set (receiver_order s) \<Longrightarrow> poll_changed w rx s = (r, rx', s') \<Longrightarrow>
    watch_step (Some (rx_id rx)) s [] s'"
| ws_receiver_drop: "rx_id rx \<in> set (receiver_order s) \<Longrightarrow>
    watch_step (Some (rx_id rx)) s [] (watch_receiver_drop rx s)"

text \<open>
  The existing receivers are listed in the order of their creation, and only they have
  wakers.
\<close>

definition watch_ok :: "('a, 'w) watch_state \<Rightarrow> bool" where
  "watch_ok s \<longleftrightarrow>
     sorted_wrt (<) (receiver_order s) \<and> (\<forall>i\<in>set (receiver_order s). i < next_receiver_id s) \<and>
     wt_receiver_alive s = (\<lambda>i. if i \<in> set (receiver_order s) then Some True else None) \<and>
     (\<forall>i. receiver_wakers s i \<noteq> None \<longrightarrow> i \<in> set (receiver_order s))"

definition waiting :: "nat list \<Rightarrow> (nat \<rightharpoonup> 'w) \<Rightarrow> 'w list" where
  "waiting order wakers = List.map_filter wakers order"

lemma waiting_simps [simp]:
  "waiting [] wakers = []"
  "waiting (i # is) wakers = (case wakers i of None \<Rightarrow> waiting is wakers | Some w \<Rightarrow> w # waiting is wakers)"
  by (simp_all add: waiting_def List.map_filter_simps split: option.splits)

lemma waiting_cong: "i \<notin> set is \<Longrightarrow> waiting is (wakers(i := x)) = waiting is wakers"
  by (induction "is") (auto split: option.splits)

lemma wake_receivers_eq:
  assumes "distinct is" "\<forall>i\<in>set is. alive i = Some True"
  shows "wake_receivers is alive wakers = (waiting is wakers, \<lambda>i. if i \<in> set is then None else wakers i)"
  using assms
proof (induction "is" arbitrary: wakers)
  case (Cons i "is")
  then show ?case
    by (cases "wakers i") (auto simp: waiting_cong fun_eq_iff)
qed simp

lemma sorted_wrt_less_distinct: "sorted_wrt (<) (xs :: nat list) \<Longrightarrow> distinct xs"
  by (simp add: strict_sorted_iff)

lemma wake_all_eq:
  assumes "watch_ok s"
  shows "wake_all s = (waiting (receiver_order s) (receiver_wakers s), s\<lparr>receiver_wakers := Map.empty\<rparr>)"
proof -
  have "distinct (receiver_order s)" using assms by (simp add: watch_ok_def sorted_wrt_less_distinct)
  moreover have "\<forall>i\<in>set (receiver_order s). wt_receiver_alive s i = Some True"
    using assms by (simp add: watch_ok_def)
  moreover have "(\<lambda>i. if i \<in> set (receiver_order s) then None else receiver_wakers s i) = Map.empty"
    using assms by (auto simp: watch_ok_def fun_eq_iff)
  ultimately show ?thesis by (simp add: wake_all_def wake_receivers_eq)
qed

lemma watch_ok_fields:
  "watch_ok (s\<lparr>wt_value := v, version := n\<rparr>) = watch_ok s" "watch_ok (s\<lparr>wt_sender_alive := b\<rparr>) = watch_ok s"
  "watch_ok s \<Longrightarrow> watch_ok (s\<lparr>receiver_wakers := Map.empty\<rparr>)"
  by (auto simp: watch_ok_def)

lemma add_receiver_ok: "watch_ok s \<Longrightarrow> watch_ok (snd (add_receiver s))"
  by (auto simp: add_receiver_def watch_ok_def sorted_wrt_append fun_eq_iff Let_def intro: less_SucI)

lemma sorted_wrt_remove1: "sorted_wrt P xs \<Longrightarrow> sorted_wrt P (remove1 x xs)"
  using set_remove1_subset [of x] by (induction xs) (auto dest: subsetD)

lemma remove_receiver_ok: "watch_ok s \<Longrightarrow> watch_ok (remove_receiver i s)"
  using sorted_wrt_less_distinct [of "receiver_order s"]
  by (auto simp: remove_receiver_def watch_ok_def sorted_wrt_remove1 fun_eq_iff)

lemma poll_changed_ok:
  "watch_ok s \<Longrightarrow> rx_id rx \<in> set (receiver_order s) \<Longrightarrow> watch_ok (snd (snd (poll_changed w rx s)))"
  by (auto simp: poll_changed_def watch_ok_def)

lemma watch_step_ok: "watch_step who s ws s' \<Longrightarrow> watch_ok s \<Longrightarrow> watch_ok s'"
proof (induction rule: watch_step.induct)
  case (ws_subscribe s rx s')
  then show ?case using add_receiver_ok [of s] by (auto simp: subscribe_def Let_def split: prod.splits)
next
  case (ws_clone rx0 s rx s')
  then show ?case using add_receiver_ok [of s] by (auto simp: receiver_clone_def Let_def split: prod.splits)
next
  case (ws_poll rx s w r rx' s')
  then show ?case using poll_changed_ok [of s rx w] by simp
qed (auto simp: watch_send_def send_replace_def send_if_modified_def watch_sender_drop_def wake_all_eq
      watch_ok_fields watch_receiver_drop_def remove_receiver_ok Let_def split: if_splits prod.splits)

lemma watch_channel_ok: "watch_ok (snd (watch_channel v))"
  by (simp add: watch_channel_def add_receiver_def watch_ok_def fun_eq_iff Let_def)

abbreviation watch_any_step :: "('a, 'w) watch_state \<Rightarrow> 'w list \<Rightarrow> ('a, 'w) watch_state \<Rightarrow> bool" where
  "watch_any_step s ws s' \<equiv> \<exists>who. watch_step who s ws s'"

abbreviation watch_run :: "'a \<Rightarrow> ('a, 'w) watch_state \<Rightarrow> bool" where
  "watch_run v s \<equiv> \<exists>ws. trace watch_any_step (snd (watch_channel v)) ws s"

lemma watch_run_ok: "watch_run v s \<Longrightarrow> watch_ok s"
proof -
  assume "watch_run v s"
  then obtain ws where "trace watch_any_step (snd (watch_channel v)) ws s" by blast
  from trace_invariant [OF this, of watch_ok] show "watch_ok s"
    by (blast intro: watch_step_ok watch_channel_ok)
qed

section \<open>Properties\<close>

text \<open>
  Sending reaches every receiver: while the sender is alive and the version counter is not
  exhausted, \<open>send\<close> succeeds, calls the wakers of all waiting receivers in the order in which
  the receivers were created, and leaves none registered; every receiver whose seen version
  is not in the future then finds the change, and reads the new value.
\<close>

theorem watch_send_notifies:
  assumes "watch_run v0 s" and "wt_sender_alive s" and "version s \<noteq> u64_max"
  shows "\<exists>s'. watch_send v s = (Inr (), waiting (receiver_order s) (receiver_wakers s), s') \<and>
    sorted_wrt (<) (receiver_order s) \<and> receiver_wakers s' = Map.empty \<and>
    (seen_version rx \<le> version s \<longrightarrow>
       has_changed rx s' = Inr True \<and> fst (poll_changed w rx s') = Ready (Inr ()) \<and>
       borrow_and_update rx s' = (v, rx\<lparr>seen_version := version s'\<rparr>))"
proof -
  have ok: "watch_ok s" by (rule watch_run_ok [OF assms(1)])
  let ?n = "saturating_add (version s) 1"
  let ?s = "s\<lparr>wt_value := v, version := ?n, receiver_wakers := Map.empty\<rparr>"
  have "version s < ?n"
    using assms(3) saturating_add_strict [of "version s" 1] by (simp add: order.not_eq_order_implies_strict)
  then have "?n \<noteq> seen_version rx" if "seen_version rx \<le> version s" using that by auto
  moreover have "watch_send v s = (Inr (), waiting (receiver_order s) (receiver_wakers s), ?s)"
    using ok assms(2) by (simp add: watch_send_def wake_all_eq watch_ok_fields)
  moreover have "sorted_wrt (<) (receiver_order s)" using ok by (simp add: watch_ok_def)
  ultimately show ?thesis
    by (auto simp: has_changed_def poll_changed_def borrow_and_update_def)
qed

text \<open>
  The steps of everybody but receiver \<open>i\<close>; its waker slot keeps the contract of
  \<open>waker_slot\<close>, where ready means that the version differs from \<open>n\<close> or the sender is gone.
\<close>

definition watch_other_step :: "nat \<Rightarrow> ('a, 'w) watch_state \<Rightarrow> 'w list \<Rightarrow> ('a, 'w) watch_state \<Rightarrow> bool" where
  "watch_other_step i s ws s' \<longleftrightarrow> (\<exists>who. who \<noteq> Some i \<and> watch_step who s ws s')"

definition changed_ready :: "u64 \<Rightarrow> ('a, 'w) watch_state \<Rightarrow> bool" where
  "changed_ready n s \<longleftrightarrow> version s \<noteq> n \<or> \<not> wt_sender_alive s"

lemma waiting_set: "i \<in> set is \<Longrightarrow> wakers i = Some w \<Longrightarrow> w \<in> set (waiting is wakers)"
  by (induction "is") (auto split: option.splits)

lemma woken_slot:
  "watch_ok s \<Longrightarrow> receiver_wakers s i = Some w \<Longrightarrow> w \<in> set (waiting (receiver_order s) (receiver_wakers s))"
  by (auto simp: watch_ok_def intro: waiting_set)

lemma watch_step_slot:
  assumes "watch_step who s ws s'" "who \<noteq> Some i" "watch_ok s" "receiver_wakers s i = Some w"
  shows "w \<in> set ws \<or> receiver_wakers s' i = Some w \<and> version s' = version s \<and> wt_sender_alive s' = wt_sender_alive s"
  using assms woken_slot [OF assms(3,4)]
  by (induction rule: watch_step.induct)
    (auto simp: watch_send_def send_replace_def send_if_modified_def watch_sender_drop_def wake_all_eq
      watch_ok_fields subscribe_def receiver_clone_def add_receiver_def poll_changed_def
      watch_receiver_drop_def remove_receiver_def Let_def split: if_splits prod.splits)

interpretation watch_rx: waker_slot "\<lambda>s ws s'. watch_ok s \<and> watch_other_step i s ws s'"
  "\<lambda>s. receiver_wakers s i" "changed_ready n" for i n
  by unfold_locales (unfold watch_other_step_def changed_ready_def, (blast dest: watch_step_slot)+)

text \<open>
  C33. No update is missed: once \<open>changed\<close> of a receiver has returned \<open>Pending\<close>, then whatever
  the senders and the other receivers do, by the time its poll would be ready its waker has
  been called.
\<close>

theorem watch_receiver_woken:
  assumes "watch_run v0 s" and "rx_id rx \<in> set (receiver_order s)" and "poll_changed w rx s = (Pending, rx', s1)"
    and "trace (watch_other_step (rx_id rx)) s1 ws s2" and "fst (poll_changed w' rx' s2) \<noteq> Pending"
  shows "w \<in> set ws"
proof -
  have ok: "watch_ok s1" using poll_changed_ok [OF watch_run_ok [OF assms(1)] assms(2), of w] assms(3) by simp
  have "trace (\<lambda>s ws s'. watch_ok s \<and> watch_other_step (rx_id rx) s ws s') s1 ws s2"
    using trace_invariant [OF assms(4), of watch_ok] ok watch_step_ok
    unfolding watch_other_step_def by blast
  from watch_rx.no_lost_wakeup [OF this, of w "seen_version rx"] show ?thesis
    using assms(3,5) by (auto simp: poll_changed_def changed_ready_def split: if_splits)
qed

text \<open>A channel with two receivers, the second of which waits.\<close>

abbreviation second_rx :: watch_receiver where
  "second_rx \<equiv> \<lparr>rx_id = 1, seen_version = 0\<rparr>"

definition two_receivers :: "(nat, nat) watch_state" where
  "two_receivers = snd (subscribe (snd (watch_channel 5)))"

definition one_waiting :: "(nat, nat) watch_state" where
  "one_waiting = snd (snd (poll_changed 9 second_rx two_receivers))"

lemmas two_receivers_eqs = two_receivers_def one_waiting_def subscribe_def watch_channel_def
  add_receiver_def poll_changed_def Let_def

lemma two_receivers_run: "watch_run 5 two_receivers"
proof -
  have "watch_step None (snd (watch_channel 5)) [] two_receivers"
    by (rule ws_subscribe, unfold two_receivers_def) (rule surjective_pairing)
  then show ?thesis using trace_one [of watch_any_step] by blast
qed

lemma one_waiting_poll: "poll_changed 9 second_rx two_receivers = (Pending, second_rx, one_waiting)"
  by (simp add: two_receivers_eqs)

lemma second_alive: "rx_id second_rx \<in> set (receiver_order two_receivers)"
  by (simp add: two_receivers_eqs)

lemma one_waiting_run: "watch_run 5 one_waiting"
proof -
  obtain ws where "trace watch_any_step (snd (watch_channel 5)) ws two_receivers"
    using two_receivers_run by blast
  moreover have "watch_any_step two_receivers [] one_waiting"
    using ws_poll [OF second_alive one_waiting_poll] by blast
  ultimately show ?thesis using trace_trans [OF _ trace_one [of watch_any_step]] by blast
qed

theorem watch_send_notifies_witness:
  "\<exists>s'. watch_send 6 one_waiting = (Inr (), [9], s') \<and> has_changed second_rx s' = Inr True"
proof -
  have "wt_sender_alive one_waiting" "version one_waiting \<noteq> u64_max"
    "waiting (receiver_order one_waiting) (receiver_wakers one_waiting) = [9]"
    "seen_version second_rx \<le> version one_waiting"
    by (simp_all add: two_receivers_eqs)
  with watch_send_notifies [OF one_waiting_run, of 6 second_rx] show ?thesis by auto
qed

theorem watch_receiver_woken_witness:
  "\<exists>s2 ws. watch_send 6 one_waiting = (Inr (), ws, s2) \<and> fst (poll_changed 9 second_rx s2) \<noteq> Pending \<and> 9 \<in> set ws"
proof -
  obtain r ws s2 where s: "watch_send 6 one_waiting = (r, ws, s2)" using prod_cases3 by blast
  then have t: "trace (watch_other_step (rx_id second_rx)) one_waiting ws s2"
    by (intro trace_one) (auto simp: watch_other_step_def intro: ws_send)
  from s have "r = Inr ()" "fst (poll_changed 9 second_rx s2) \<noteq> Pending"
    by (auto simp: watch_send_def wake_all_def two_receivers_eqs saturating_add_def split: if_splits)
  with s watch_receiver_woken [OF two_receivers_run second_alive one_waiting_poll t, of 9] show ?thesis
    by blast
qed

text \<open>
  \<open>wait_for\<close> returns a value that satisfies the condition and was current when it was read.
\<close>

lemma wait_for_loop_result:
  "fst (wait_for_loop cond w rx s) =
     (if cond (wt_value s) then Ready (Inr (wt_value s))
      else if wt_sender_alive s then Pending else Ready (Inl ChangedError))"
  by (subst wait_for_loop.simps) (simp add: borrow_and_update_def poll_changed_def Let_def)

text \<open>
  Senders can be cloned, but there is no count of them: after any one of them is dropped the
  others can no longer send.
\<close>

lemma dropped_clone_closes: "fst (watch_send v (snd (watch_sender_drop s))) = Inl v"
  by (simp add: watch_send_def watch_sender_drop_def wake_all_def split: prod.splits)

end
