(* ===== verification/Request.thy ===== *)
theory Request
  imports Sim_Time Ids
begin

text \<open>
  \<open>des-core/src/request.rs\<close>: requests, attempts and responses. Identifiers are 64-bit
  words, payloads lists of bytes. \<open>Display\<close> and serialisation are left out.
\<close>

type_synonym request_id = u64
type_synonym attempt_id = u64

datatype request_status = ReqPending | ReqSuccess | ReqFailed string | Exhausted

datatype attempt_status = AttPending | AttSuccess | AttTimeout | AttServerError | AttRejected

datatype response_status = RespOk | RespError u32 string

record request =
  rq_id :: request_id
  rq_created_at :: simtime
  rq_payload :: "byte list"
  rq_attempts :: "attempt_id list"
  rq_completed_at :: "simtime option"
  rq_status :: request_status

definition request_new :: "request_id \<Rightarrow> simtime \<Rightarrow> byte list \<Rightarrow> request" where
  "request_new i t p =
     \<lparr>rq_id = i, rq_created_at = t, rq_payload = p, rq_attempts = [], rq_completed_at = None,
      rq_status = ReqPending\<rparr>"

definition request_latency :: "request \<Rightarrow> duration option" where
  "request_latency r = map_option (\<lambda>c. duration_since c (rq_created_at r)) (rq_completed_at r)"

definition request_attempt_count :: "request \<Rightarrow> nat" where
  "request_attempt_count r = length (rq_attempts r)"

definition request_is_completed :: "request \<Rightarrow> bool" where
  "request_is_completed r = (rq_completed_at r \<noteq> None)"

definition request_is_successful :: "request \<Rightarrow> bool" where
  "request_is_successful r = (rq_status r = ReqSuccess)"

definition request_add_attempt :: "attempt_id \<Rightarrow> request \<Rightarrow> request" where
  "request_add_attempt a r = r\<lparr>rq_attempts := rq_attempts r @ [a]\<rparr>"

definition request_complete :: "simtime \<Rightarrow> request_status \<Rightarrow> request \<Rightarrow> request" where
  "request_complete t st r = r\<lparr>rq_completed_at := Some t, rq_status := st\<rparr>"

record request_attempt =
  at_id :: attempt_id
  at_request_id :: request_id
  at_number :: nat
  at_started_at :: simtime
  at_completed_at :: "simtime option"
  at_status :: attempt_status
  at_payload :: "byte list"

definition request_attempt_new ::
  "attempt_id \<Rightarrow> request_id \<Rightarrow> nat \<Rightarrow> simtime \<Rightarrow> byte list \<Rightarrow> request_attempt"
where
  "request_attempt_new i r n t p =
     \<lparr>at_id = i, at_request_id = r, at_number = n, at_started_at = t, at_completed_at = None,
      at_status = AttPending, at_payload = p\<rparr>"

definition attempt_duration :: "request_attempt \<Rightarrow> duration option" where
  "attempt_duration a = map_option (\<lambda>c. duration_since c (at_started_at a)) (at_completed_at a)"

definition attempt_is_completed :: "request_attempt \<Rightarrow> bool" where
  "attempt_is_completed a = (at_completed_at a \<noteq> None)"

definition attempt_is_successful :: "request_attempt \<Rightarrow> bool" where
  "attempt_is_successful a = (at_status a = AttSuccess)"

definition attempt_complete :: "simtime \<Rightarrow> attempt_status \<Rightarrow> request_attempt \<Rightarrow> request_attempt" where
  "attempt_complete t st a = a\<lparr>at_completed_at := Some t, at_status := st\<rparr>"

record response =
  rs_attempt_id :: attempt_id
  rs_request_id :: request_id
  rs_completed_at :: simtime
  rs_payload :: "byte list"
  rs_status :: response_status

definition response_success :: "attempt_id \<Rightarrow> request_id \<Rightarrow> simtime \<Rightarrow> byte list \<Rightarrow> response" where
  "response_success a r t p =
     \<lparr>rs_attempt_id = a, rs_request_id = r, rs_completed_at = t, rs_payload = p, rs_status = RespOk\<rparr>"

definition response_error :: "attempt_id \<Rightarrow> request_id \<Rightarrow> simtime \<Rightarrow> u32 \<Rightarrow> string \<Rightarrow> response" where
  "response_error a r t c m =
     \<lparr>rs_attempt_id = a, rs_request_id = r, rs_completed_at = t, rs_payload = [],
      rs_status = RespError c m\<rparr>"

definition response_is_success :: "response \<Rightarrow> bool" where
  "response_is_success r = (rs_status r = RespOk)"

definition response_is_error :: "response \<Rightarrow> bool" where
  "response_is_error r = (case rs_status r of RespError _ _ \<Rightarrow> True | _ \<Rightarrow> False)"

lemma response_success_or_error: "response_is_error r \<longleftrightarrow> \<not> response_is_success r"
  by (simp add: response_is_error_def response_is_success_def split: response_status.splits)

end
