(* ===== verification/Queue_Component.thy ===== *)
theory Queue_Component
  imports Request Binary_Heap
begin

text \<open>
  \<open>des-components/src/queue.rs\<close>: bounded FIFO and priority queues. The trait \<open>Queue\<close> is
  the locale \<open>bounded_queue\<close>; both implementations and the boxed queue that servers hold
  are interpretations. Sequence numbers are natural numbers, the statistics are 64-bit words.
\<close>

record queue_item =
  qi_attempt :: request_attempt
  enqueued_at :: simtime
  priority :: u32
  client_id :: "uuid option"

definition queue_item_new :: "request_attempt \<Rightarrow> simtime \<Rightarrow> queue_item" where
  "queue_item_new a t = \<lparr>qi_attempt = a, enqueued_at = t, priority = 0, client_id = None\<rparr>"

definition with_priority :: "request_attempt \<Rightarrow> simtime \<Rightarrow> u32 \<Rightarrow> queue_item" where
  "with_priority a t p = \<lparr>qi_attempt = a, enqueued_at = t, priority = p, client_id = None\<rparr>"

definition with_client_id :: "request_attempt \<Rightarrow> simtime \<Rightarrow> uuid \<Rightarrow> queue_item" where
  "with_client_id a t c = \<lparr>qi_attempt = a, enqueued_at = t, priority = 0, client_id = Some c\<rparr>"

definition with_priority_and_client_id ::
  "request_attempt \<Rightarrow> simtime \<Rightarrow> u32 \<Rightarrow> uuid \<Rightarrow> queue_item"
where
  "with_priority_and_client_id a t p c =
     \<lparr>qi_attempt = a, enqueued_at = t, priority = p, client_id = Some c\<rparr>"

definition queue_time :: "queue_item \<Rightarrow> simtime \<Rightarrow> duration" where
  "queue_time i t = duration_since t (enqueued_at i)"

datatype queue_error = Full nat | Empty | InvalidOperation string

text \<open>The default methods \<open>is_empty\<close> and \<open>is_full\<close> of the trait.\<close>

definition len_is_empty :: "nat \<Rightarrow> bool" where
  "len_is_empty len = (len = 0)"

definition len_is_full :: "nat option \<Rightarrow> nat \<Rightarrow> bool" where
  "len_is_full cap len = (case cap of Some c \<Rightarrow> c \<le> len | None \<Rightarrow> False)"

section \<open>FIFO queue\<close>

record fifo_queue =
  fifo_items :: "queue_item list"
  fifo_capacity :: "nat option"
  fifo_total_enqueued :: u64
  fifo_total_dequeued :: u64

definition fifo_new :: "nat option \<Rightarrow> fifo_queue" where
  "fifo_new cap =
     \<lparr>fifo_items = [], fifo_capacity = cap, fifo_total_enqueued = 0, fifo_total_dequeued = 0\<rparr>"

definition fifo_len :: "fifo_queue \<Rightarrow> nat" where
  "fifo_len q = length (fifo_items q)"

definition fifo_enqueue :: "queue_item \<Rightarrow> fifo_queue \<Rightarrow> (queue_error + unit) \<times> fifo_queue" where
  "fifo_enqueue item q =
     (if len_is_full (fifo_capacity q) (fifo_len q)
      then (Inl (Full (the (fifo_capacity q))), q)
      else (Inr (), q\<lparr>fifo_items := fifo_items q @ [item],
                      fifo_total_enqueued := fifo_total_enqueued q + 1\<rparr>))"

definition fifo_dequeue :: "fifo_queue \<Rightarrow> queue_item option \<times> fifo_queue" where
  "fifo_dequeue q =
     (case fifo_items q of
        [] \<Rightarrow> (None, q)
      | item # rest \<Rightarrow>
          (Some item, q\<lparr>fifo_items := rest, fifo_total_dequeued := fifo_total_dequeued q + 1\<rparr>))"

definition fifo_peek :: "fifo_queue \<Rightarrow> queue_item option" where
  "fifo_peek q = (case fifo_items q of [] \<Rightarrow> None | item # _ \<Rightarrow> Some item)"

section \<open>Priority queue\<close>

record prioritized_item =
  pi_item :: queue_item
  pi_sequence :: nat

definition prioritized_item_cmp :: "prioritized_item \<Rightarrow> prioritized_item \<Rightarrow> ordering" where
  "prioritized_item_cmp self other =
     then_with (cmp (priority (pi_item other)) (priority (pi_item self)))
               (cmp (pi_sequence other) (pi_sequence self))"

definition prio_key :: "prioritized_item \<Rightarrow> u32 \<times> nat" where
  "prio_key p = (priority (pi_item p), pi_sequence p)"

record priority_queue =
  prio_items :: "prioritized_item heap"
  prio_capacity :: "nat option"
  next_sequence :: nat
  prio_total_enqueued :: u64
  prio_total_dequeued :: u64

definition prio_new :: "nat option \<Rightarrow> priority_queue" where
  "prio_new cap =
     \<lparr>prio_items = [], prio_capacity = cap, next_sequence = 0, prio_total_enqueued = 0,
      prio_total_dequeued = 0\<rparr>"

definition prio_len :: "priority_queue \<Rightarrow> nat" where
  "prio_len q = length (prio_items q)"

definition prio_enqueue ::
  "queue_item \<Rightarrow> priority_queue \<Rightarrow> (queue_error + unit) \<times> priority_queue"
where
  "prio_enqueue item q =
     (if len_is_full (prio_capacity q) (prio_len q)
      then (Inl (Full (the (prio_capacity q))), q)
      else (let prioritized = \<lparr>pi_item = item, pi_sequence = next_sequence q\<rparr>
            in (Inr (), q\<lparr>next_sequence := next_sequence q + 1,
                         prio_items := heap_push prio_key prioritized (prio_items q),
                         prio_total_enqueued := prio_total_enqueued q + 1\<rparr>)))"

definition prio_dequeue :: "priority_queue \<Rightarrow> queue_item option \<times> priority_queue" where
  "prio_dequeue q =
     (case heap_pop (prio_items q) of
        None \<Rightarrow> (None, q)
      | Some (p, rest) \<Rightarrow>
          (Some (pi_item p), q\<lparr>prio_items := rest, prio_total_dequeued := prio_total_dequeued q + 1\<rparr>))"

definition prio_peek :: "priority_queue \<Rightarrow> queue_item option" where
  "prio_peek q = map_option pi_item (heap_peek (prio_items q))"

section \<open>Boxed queues\<close>

datatype queue_box = FifoBox fifo_queue | PrioBox priority_queue

fun box_enqueue :: "queue_item \<Rightarrow> queue_box \<Rightarrow> (queue_error + unit) \<times> queue_box" where
  "box_enqueue item (FifoBox q) = map_prod id FifoBox (fifo_enqueue item q)"
| "box_enqueue item (PrioBox q) = map_prod id PrioBox (prio_enqueue item q)"

fun box_dequeue :: "queue_box \<Rightarrow> queue_item option \<times> queue_box" where
  "box_dequeue (FifoBox q) = map_prod id FifoBox (fifo_dequeue q)"
| "box_dequeue (PrioBox q) = map_prod id PrioBox (prio_dequeue q)"

fun box_len :: "queue_box \<Rightarrow> nat" where
  "box_len (FifoBox q) = fifo_len q"
| "box_len (PrioBox q) = prio_len q"

fun box_capacity :: "queue_box \<Rightarrow> nat option" where
  "box_capacity (FifoBox q) = fifo_capacity q"
| "box_capacity (PrioBox q) = prio_capacity q"

fun box_peek :: "queue_box \<Rightarrow> queue_item option" where
  "box_peek (FifoBox q) = fifo_peek q"
| "box_peek (PrioBox q) = prio_peek q"

section \<open>The contract of the trait\<close>

text \<open>
  \<open>contents\<close> lists the items in the order \<open>dequeue\<close> returns them. Enqueueing puts the new
  item somewhere in that order, or fails with \<open>Full\<close> exactly at capacity and changes
  nothing.
\<close>

locale bounded_queue =
  fixes enq :: "queue_item \<Rightarrow> 'q \<Rightarrow> (queue_error + unit) \<times> 'q"
    and deq :: "'q \<Rightarrow> queue_item option \<times> 'q"
    and len :: "'q \<Rightarrow> nat"
    and cap :: "'q \<Rightarrow> nat option"
    and front :: "'q \<Rightarrow> queue_item option"
    and contents :: "'q \<Rightarrow> queue_item list"
    and invar :: "'q \<Rightarrow> bool"
  assumes len_contents: "len q = length (contents q)"
    and front_contents: "front q = (case contents q of [] \<Rightarrow> None | x # _ \<Rightarrow> Some x)"
    and enq_full: "len_is_full (cap q) (len q) \<Longrightarrow> enq x q = (Inl (Full (the (cap q))), q)"
    and enq_ok: "invar q \<Longrightarrow> \<not> len_is_full (cap q) (len q) \<Longrightarrow> enq x q = (r, q') \<Longrightarrow>
      r = Inr () \<and> invar q' \<and> cap q' = cap q \<and>
      (\<exists>ys zs. contents q = ys @ zs \<and> contents q' = ys @ x # zs)"
    and deq_ok: "invar q \<Longrightarrow> deq q = (d, q') \<Longrightarrow>
      invar q' \<and> cap q' = cap q \<and>
      (case d of None \<Rightarrow> contents q = [] \<and> q' = q | Some x \<Rightarrow> contents q = x # contents q')"
begin

text \<open>The queue holds no more than its capacity.\<close>

definition within :: "'q \<Rightarrow> bool" where
  "within q \<longleftrightarrow> invar q \<and> (case cap q of None \<Rightarrow> True | Some c \<Rightarrow> len q \<le> c)"

lemma enq_within: "within q \<Longrightarrow> within (snd (enq x q))"
proof -
  assume w: "within q"
  obtain r q' where e: "enq x q = (r, q')" by fastforce
  show ?thesis
  proof (cases "len_is_full (cap q) (len q)")
    case True
    with w show ?thesis by (simp add: enq_full)
  next
    case False
    from enq_ok [OF _ False e] w have "invar q'" "cap q' = cap q" "length (contents q') = Suc (length (contents q))"
      by (auto simp: within_def)
    with False e show ?thesis
      by (auto simp: within_def len_is_full_def len_contents split: option.splits)
  qed
qed

lemma deq_within: "within q \<Longrightarrow> within (snd (deq q))"
  using deq_ok [of q "fst (deq q)" "snd (deq q)"]
  by (auto simp: within_def len_contents split: option.splits)

lemma enq_deq_empty:
  assumes "invar q" "contents q = []" "enq x q = (Inr (), q')"
  shows "fst (deq q') = Some x"
proof -
  have "\<not> len_is_full (cap q) (len q)"
    using assms(3) enq_full by fastforce
  from enq_ok [OF assms(1) this assms(3)] assms(2) have "invar q'" "contents q' = [x]" by auto
  with deq_ok [of q' "fst (deq q')" "snd (deq q')"] show ?thesis
    by (auto split: option.splits)
qed

lemma deq_None_iff: "invar q \<Longrightarrow> fst (deq q) = None \<longleftrightarrow> len q = 0"
  using deq_ok [of q "fst (deq q)" "snd (deq q)"]
  by (auto simp: len_contents split: option.splits)

lemma enq_mset:
  "invar q \<Longrightarrow> enq x q = (Inr (), q') \<Longrightarrow> mset (contents q') = add_mset x (mset (contents q))"
  using enq_ok [of q x "Inr ()" q'] enq_full [of q x] by (cases "len_is_full (cap q) (len q)") auto

end

section \<open>The implementations meet the contract\<close>

interpretation fifo: bounded_queue fifo_enqueue fifo_dequeue fifo_len fifo_capacity fifo_peek fifo_items "\<lambda>_. True"
proof (unfold_locales, goal_cases)
  case (4 q x r q')
  then show ?case
    by (auto simp: fifo_enqueue_def) (metis append_Nil2)
qed (auto simp: fifo_len_def fifo_peek_def fifo_enqueue_def fifo_dequeue_def split: list.splits)

text \<open>
  Invariant of the priority queue: the heap is ordered, and the sequence numbers are distinct
  and below the next one.
\<close>

definition prio_ok :: "priority_queue \<Rightarrow> bool" where
  "prio_ok q \<longleftrightarrow> heap_ok prio_key (prio_items q) \<and> distinct (map pi_sequence (prio_items q)) \<and>
     (\<forall>p\<in>set (prio_items q). pi_sequence p < next_sequence q)"

definition prio_contents :: "priority_queue \<Rightarrow> queue_item list" where
  "prio_contents q = map pi_item (prio_items q)"

lemma prioritized_item_cmp_key: "prioritized_item_cmp a b = cmp (prio_key b) (prio_key a)"
  by (simp add: prioritized_item_cmp_def prio_key_def then_with_cmp_pair)

lemma insort_key_split: "\<exists>ys zs. xs = ys @ zs \<and> insort_key f x xs = ys @ x # zs"
proof (induction xs)
  case (Cons a xs)
  then obtain ys zs where "xs = ys @ zs" "insort_key f x xs = ys @ x # zs" by blast
  then show ?case
    by (cases "f x \<le> f a")
      (auto intro: exI [of _ "[]"] exI [of _ "a # ys"] exI [of _ zs])
qed simp

lemma prio_ok_new: "prio_ok (prio_new cap)"
  by (simp add: prio_ok_def prio_new_def)

lemma prio_ok_enqueue: "prio_ok q \<Longrightarrow> prio_ok (snd (prio_enqueue x q))"
proof -
  assume ok: "prio_ok q"
  let ?p = "\<lparr>pi_item = x, pi_sequence = next_sequence q\<rparr>"
  have "mset (map pi_sequence (heap_push prio_key ?p (prio_items q))) =
      mset (next_sequence q # map pi_sequence (prio_items q))" by simp
  from mset_eq_imp_distinct_iff [OF this] ok show ?thesis
    by (auto simp: prio_enqueue_def prio_ok_def Let_def intro: heap_ok_push)
qed

interpretation prio: bounded_queue prio_enqueue prio_dequeue prio_len prio_capacity prio_peek prio_contents prio_ok
proof (unfold_locales, goal_cases)
  case (2 q)
  then show ?case by (cases "prio_items q") (auto simp: prio_peek_def prio_contents_def)
next
  case (4 q x r q')
  let ?p = "\<lparr>pi_item = x, pi_sequence = next_sequence q\<rparr>"
  obtain ys zs where "prio_items q = ys @ zs" "insort_key prio_key ?p (prio_items q) = ys @ ?p # zs"
    using insort_key_split [of "prio_items q" prio_key ?p] by blast
  then have c: "prio_contents q = map pi_item ys @ map pi_item zs"
    "map pi_item (insort_key prio_key ?p (prio_items q)) = map pi_item ys @ x # map pi_item zs"
    by (simp_all add: prio_contents_def)
  have q': "r = Inr ()" "q' = q\<lparr>next_sequence := next_sequence q + 1,
      prio_items := insort_key prio_key ?p (prio_items q),
      prio_total_enqueued := prio_total_enqueued q + 1\<rparr>"
    using 4(2,3) by (auto simp: prio_enqueue_def heap_push_def)
  have "prio_contents q' = map pi_item ys @ x # map pi_item zs" "prio_capacity q' = prio_capacity q"
    using c(2) by (simp_all add: q' prio_contents_def)
  with c(1) q'(1) prio_ok_enqueue [OF 4(1), of x] 4(3) show ?case by auto
next
  case (5 q d q')
  then show ?case
    by (cases "prio_items q") (auto simp: prio_dequeue_def prio_contents_def prio_ok_def)
qed (auto simp: prio_len_def prio_contents_def prio_enqueue_def)

fun box_contents :: "queue_box \<Rightarrow> queue_item list" where
  "box_contents (FifoBox q) = fifo_items q"
| "box_contents (PrioBox q) = prio_contents q"

fun box_ok :: "queue_box \<Rightarrow> bool" where
  "box_ok (FifoBox q) = True"
| "box_ok (PrioBox q) = prio_ok q"

interpretation box: bounded_queue box_enqueue box_dequeue box_len box_capacity box_peek box_contents box_ok
proof (unfold_locales, goal_cases)
  case (1 q)
  then show ?case by (cases q) (simp_all add: fifo.len_contents prio.len_contents)
next
  case (2 q)
  then show ?case by (cases q) (simp_all add: fifo.front_contents prio.front_contents)
next
  case (3 q x)
  then show ?case by (cases q) (simp_all add: fifo.enq_full prio.enq_full)
next
  case (4 q x r q')
  show ?case
  proof (cases q)
    case (FifoBox f)
    then obtain f' where "q' = FifoBox f'" "fifo_enqueue x f = (r, f')"
      using 4(3) by (cases "fifo_enqueue x f") auto
    with 4 FifoBox fifo.enq_ok [of f x r f'] show ?thesis by simp
  next
    case (PrioBox f)
    then obtain f' where "q' = PrioBox f'" "prio_enqueue x f = (r, f')"
      using 4(3) by (cases "prio_enqueue x f") auto
    with 4 PrioBox prio.enq_ok [of f x r f'] show ?thesis by simp
  qed
next
  case (5 q d q')
  show ?case
  proof (cases q)
    case (FifoBox f)
    with 5 fifo.deq_ok [of f] show ?thesis by (cases "fifo_dequeue f") (auto split: option.splits)
  next
    case (PrioBox f)
    with 5 prio.deq_ok [of f] show ?thesis by (cases "prio_dequeue f") (auto split: option.splits)
  qed
qed

section \<open>Sequences of operations\<close>

datatype queue_op = Enq queue_item | Deq

text \<open>Accepted items, returned items and the final queue of a sequence of operations.\<close>

fun run_ops ::
  "(queue_item \<Rightarrow> 'q \<Rightarrow> (queue_error + unit) \<times> 'q) \<Rightarrow> ('q \<Rightarrow> queue_item option \<times> 'q) \<Rightarrow> queue_op list \<Rightarrow> 'q
    \<Rightarrow> queue_item list \<times> queue_item list \<times> 'q"
where
  "run_ops enq deq [] q = ([], [], q)"
| "run_ops enq deq (Enq x # ops) q =
     (case enq x q of
        (Inr _, q') \<Rightarrow> (let (acc, out, q'') = run_ops enq deq ops q' in (x # acc, out, q''))
      | (Inl _, q') \<Rightarrow> run_ops enq deq ops q')"
| "run_ops enq deq (Deq # ops) q =
     (case deq q of
        (Some x, q') \<Rightarrow> (let (acc, out, q'') = run_ops enq deq ops q' in (acc, x # out, q''))
      | (None, q') \<Rightarrow> run_ops enq deq ops q')"

context bounded_queue
begin

lemma run_ops_ok:
  assumes "within q" "run_ops enq deq ops q = (acc, out, q')"
  shows "within q' \<and> cap q' = cap q \<and> mset (contents q) + mset acc = mset out + mset (contents q')"
  using assms
proof (induction ops arbitrary: q acc out q')
  case (Cons op ops)
  show ?case
  proof (cases op)
    case (Enq x)
    obtain r q1 where e: "enq x q = (r, q1)" by fastforce
    have w1: "within q1" using enq_within [OF Cons.prems(1), of x] e by simp
    show ?thesis
    proof (cases "len_is_full (cap q) (len q)")
      case True
      with enq_full [OF True, of x] e have "r = Inl (Full (the (cap q)))" "q1 = q" by auto
      with Cons.IH [OF Cons.prems(1)] Cons.prems(2) Enq e show ?thesis by auto
    next
      case False
      from enq_ok [OF _ False e] Cons.prems(1) have r: "r = Inr ()" "cap q1 = cap q"
        "mset (contents q1) = add_mset x (mset (contents q))"
        by (auto simp: within_def)
      obtain acc1 out1 q2 where "run_ops enq deq ops q1 = (acc1, out1, q2)" by (metis prod_cases3)
      with Cons.IH [OF w1 this] Cons.prems(2) Enq e r show ?thesis by auto
    qed
  next
    case Deq
    obtain d q1 where e: "deq q = (d, q1)" by fastforce
    have w1: "within q1" using deq_within [OF Cons.prems(1)] e by simp
    from deq_ok [OF _ e] Cons.prems(1) have r: "cap q1 = cap q"
      "case d of None \<Rightarrow> q1 = q | Some x \<Rightarrow> contents q = x # contents q1"
      by (auto simp: within_def split: option.splits)
    obtain acc1 out1 q2 where ro: "run_ops enq deq ops q1 = (acc1, out1, q2)" by (metis prod_cases3)
    from Cons.IH [OF w1 ro] Cons.prems(2) Deq e r ro show ?thesis
      by (auto split: option.splits)
  qed
qed simp

end

text \<open>
  First in, first out: for any sequence of operations on a new FIFO queue, the items
  returned followed by the items left are exactly the accepted items in the order they were
  enqueued, and the queue never holds more than its capacity.
\<close>

theorem fifo_queue_order:
  assumes "run_ops fifo_enqueue fifo_dequeue ops (fifo_new cap) = (acc, out, q)"
  shows "acc = out @ fifo_items q \<and> (case cap of None \<Rightarrow> True | Some c \<Rightarrow> fifo_len q \<le> c)"
proof -
  have "fifo_items q0 @ acc = out @ fifo_items q"
    if "run_ops fifo_enqueue fifo_dequeue ops q0 = (acc, out, q)" for q0
    using that
  proof (induction ops arbitrary: q0 acc out)
    case (Cons op ops)
    then show ?case
      by (cases op) (auto simp: fifo_enqueue_def fifo_dequeue_def split: if_splits list.splits prod.splits,
          (fastforce)+)
  qed simp
  from this [OF assms] have "acc = out @ fifo_items q" by (simp add: fifo_new_def)
  moreover have "fifo.within q \<and> fifo_capacity q = cap"
    using fifo.run_ops_ok [OF _ assms]
    by (cases cap) (auto simp: fifo.within_def fifo_new_def fifo_len_def)
  ultimately show ?thesis by (auto simp: fifo.within_def split: option.splits)
qed

section \<open>The priority queue refines a stable priority list\<close>

text \<open>
  The specification: a list in which a new item goes behind every item of the same or a more
  urgent (lower) priority, served from the front.
\<close>

definition stable_insert :: "queue_item \<Rightarrow> queue_item list \<Rightarrow> queue_item list" where
  "stable_insert x xs =
     takeWhile (\<lambda>y. priority y \<le> priority x) xs @ x # dropWhile (\<lambda>y. priority y \<le> priority x) xs"

definition spec_enqueue ::
  "nat option \<Rightarrow> queue_item \<Rightarrow> queue_item list \<Rightarrow> (queue_error + unit) \<times> queue_item list"
where
  "spec_enqueue cap x xs =
     (if len_is_full cap (length xs) then (Inl (Full (the cap)), xs) else (Inr (), stable_insert x xs))"

fun spec_dequeue :: "queue_item list \<Rightarrow> queue_item option \<times> queue_item list" where
  "spec_dequeue [] = (None, [])"
| "spec_dequeue (x # xs) = (Some x, xs)"

lemma insort_stable:
  assumes "\<forall>p\<in>set ps. pi_sequence p < n"
  shows "map pi_item (insort_key prio_key \<lparr>pi_item = x, pi_sequence = n\<rparr> ps) =
    stable_insert x (map pi_item ps)"
  using assms
proof (induction ps)
  case (Cons p ps)
  have le: "prio_key \<lparr>pi_item = x, pi_sequence = n\<rparr> \<le> prio_key p \<longleftrightarrow> \<not> priority (pi_item p) \<le> priority x"
    using Cons.prems by (auto simp: prio_key_def less_eq_prod_def)
  with Cons show ?case
    by (simp add: stable_insert_def)
qed (simp add: stable_insert_def)

lemma prio_enqueue_refines:
  assumes "prio_ok q" "prio_enqueue x q = (r, q')"
  shows "spec_enqueue (prio_capacity q) x (prio_contents q) = (r, prio_contents q')"
proof -
  have "\<forall>p\<in>set (prio_items q). pi_sequence p < next_sequence q"
    using assms(1) by (simp add: prio_ok_def)
  from insort_stable [OF this, of x] assms(2) show ?thesis
    by (auto simp: prio_enqueue_def spec_enqueue_def prio_contents_def prio_len_def heap_push_def
        split: if_splits)
qed

lemma prio_dequeue_refines:
  "prio_dequeue q = (r, q') \<Longrightarrow> spec_dequeue (prio_contents q) = (r, prio_contents q')"
  by (cases "prio_items q") (auto simp: prio_dequeue_def prio_contents_def)

text \<open>
  C23. The priority queue refines the stable priority list: on every sequence of operations
  both accept the same items, return the same items in the same order and hold the same
  contents. So items leave by priority, and first in, first out among equal priorities.
\<close>

theorem priority_queue_refines:
  assumes "run_ops prio_enqueue prio_dequeue ops (prio_new cap) = (acc, out, q)"
  shows "run_ops (spec_enqueue cap) spec_dequeue ops [] = (acc, out, prio_contents q)"
proof -
  have "run_ops (spec_enqueue (prio_capacity q0)) spec_dequeue ops (prio_contents q0) =
      (acc, out, prio_contents q)"
    if "prio_ok q0" "run_ops prio_enqueue prio_dequeue ops q0 = (acc, out, q)" for q0
    using that
  proof (induction ops arbitrary: q0 acc out)
    case (Cons op ops)
    show ?case
    proof (cases op)
      case (Enq x)
      obtain r q1 where e: "prio_enqueue x q0 = (r, q1)" by fastforce
      have q1: "prio_ok q1" "prio_capacity q1 = prio_capacity q0"
        using prio_ok_enqueue [OF Cons.prems(1), of x] e
        by (auto simp: prio_enqueue_def split: if_splits)
      obtain acc1 out1 q2 where ro: "run_ops prio_enqueue prio_dequeue ops q1 = (acc1, out1, q2)"
        by (metis prod_cases3)
      with Cons.IH [OF q1(1)] q1(2) Cons.prems(2) Enq e prio_enqueue_refines [OF Cons.prems(1) e]
      show ?thesis by (cases r) auto
    next
      case Deq
      obtain r q1 where e: "prio_dequeue q0 = (r, q1)" by fastforce
      have q1: "prio_ok q1" "prio_capacity q1 = prio_capacity q0"
        using prio.deq_ok [OF Cons.prems(1) e] by auto
      obtain acc1 out1 q2 where ro: "run_ops prio_enqueue prio_dequeue ops q1 = (acc1, out1, q2)"
        by (metis prod_cases3)
      with Cons.IH [OF q1(1)] q1(2) Cons.prems(2) Deq e prio_dequeue_refines [OF e]
      show ?thesis by (cases r) auto
    qed
  qed simp
  from this [OF prio_ok_new assms] show ?thesis
    by (simp add: prio_new_def prio_contents_def)
qed

section \<open>Instances\<close>

definition demo_item :: "u32 \<Rightarrow> u64 \<Rightarrow> queue_item" where
  "demo_item p i = with_priority (request_attempt_new i 1 1 zero []) zero p"

theorem fifo_queue_order_witness:
  "\<exists>q. run_ops fifo_enqueue fifo_dequeue [Enq (demo_item 5 1), Enq (demo_item 1 2), Enq (demo_item 1 3), Deq]
      (fifo_new (Some 2)) = ([demo_item 5 1, demo_item 1 2], [demo_item 5 1], q)
    \<and> [demo_item 5 1, demo_item 1 2] = [demo_item 5 1] @ fifo_items q"
proof -
  obtain q where r: "run_ops fifo_enqueue fifo_dequeue [Enq (demo_item 5 1), Enq (demo_item 1 2),
      Enq (demo_item 1 3), Deq] (fifo_new (Some 2)) = ([demo_item 5 1, demo_item 1 2], [demo_item 5 1], q)"
    by (simp add: fifo_enqueue_def fifo_dequeue_def fifo_new_def len_is_full_def fifo_len_def)
  from fifo_queue_order [OF r] r show ?thesis by blast
qed

theorem priority_queue_refines_witness:
  "\<exists>q. run_ops prio_enqueue prio_dequeue [Enq (demo_item 5 1), Enq (demo_item 1 2), Deq] (prio_new None) =
      ([demo_item 5 1, demo_item 1 2], [demo_item 1 2], q)
    \<and> run_ops (spec_enqueue None) spec_dequeue [Enq (demo_item 5 1), Enq (demo_item 1 2), Deq] [] =
      ([demo_item 5 1, demo_item 1 2], [demo_item 1 2], prio_contents q)"
proof -
  obtain q where r: "run_ops prio_enqueue prio_dequeue [Enq (demo_item 5 1), Enq (demo_item 1 2), Deq]
      (prio_new None) = ([demo_item 5 1, demo_item 1 2], [demo_item 1 2], q)"
    by (simp add: prio_enqueue_def prio_dequeue_def prio_new_def len_is_full_def prio_len_def
        heap_push_def prio_key_def demo_item_def with_priority_def)
  from priority_queue_refines [OF r] r show ?thesis by blast
qed

end
