(* ===== verification/Utf8.thy ===== *)
theory Utf8
  imports Des_Prelude
begin

text \<open>
  Rust strings. A \<open>String\<close> is represented by its UTF-8 bytes; \<open>utf8_valid\<close> is the check
  of \<open>std::str::from_utf8\<close>, which every \<open>String\<close> satisfies, and \<open>from_utf8_lossy\<close>
  replaces each maximal invalid prefix by U+FFFD, as the standard library does. The split
  and trim functions of \<open>str\<close> that the sources use are here too, with the lemmas about
  joining and splitting at a separator.
\<close>

type_synonym str = "byte list"

section \<open>Validity\<close>

definition is_cont :: "byte \<Rightarrow> bool" where
  "is_cont b \<longleftrightarrow> 0x80 \<le> b \<and> b \<le> 0xBF"

text \<open>The second bytes allowed after a first byte (Table 3-7 of the Unicode standard).\<close>

definition second_ok :: "byte \<Rightarrow> byte \<Rightarrow> bool" where
  "second_ok a b \<longleftrightarrow>
     (if a = 0xE0 then 0xA0 \<le> b \<and> b \<le> 0xBF
      else if a = 0xED then 0x80 \<le> b \<and> b \<le> 0x9F
      else if a = 0xF0 then 0x90 \<le> b \<and> b \<le> 0xBF
      else if a = 0xF4 then 0x80 \<le> b \<and> b \<le> 0x8F
      else is_cont b)"

text \<open>The number of bytes of a character, by its first byte; 0 for a byte that starts none.\<close>

definition utf8_width :: "byte \<Rightarrow> nat" where
  "utf8_width a =
     (if a < 0x80 then 1 else if a < 0xC2 then 0 else if a < 0xE0 then 2
      else if a < 0xF0 then 3 else if a < 0xF5 then 4 else 0)"

text \<open>How many of the bytes that follow the first one continue the character.\<close>

definition conts :: "byte \<Rightarrow> str \<Rightarrow> nat" where
  "conts a bs =
     (case bs of
        [] \<Rightarrow> 0
      | b # rest \<Rightarrow>
          if second_ok a b then Suc (length (takeWhile is_cont (take (utf8_width a - 2) rest)))
          else 0)"

text \<open>
  The first character of a non-empty text: whether it is valid, and how many bytes it, or
  the invalid sequence that stands there, has.
\<close>

definition utf8_first :: "byte \<Rightarrow> str \<Rightarrow> bool \<times> nat" where
  "utf8_first a bs =
     (let w = utf8_width a
      in if w = 0 then (False, 1)
         else if w = 1 then (True, 1)
         else (let n = Suc (conts a bs) in (n = w, n)))"

lemma utf8_first_pos: "utf8_first a bs = (v, n) \<Longrightarrow> 0 < n"
  by (auto simp: utf8_first_def Let_def split: if_splits)

function utf8_valid :: "str \<Rightarrow> bool" where
  "utf8_valid [] = True"
| "utf8_valid (a # bs) =
     (let (v, n) = utf8_first a bs in v \<and> utf8_valid (drop n (a # bs)))"
  by pat_completeness auto
termination
  by (relation "measure length") (auto dest: utf8_first_pos [OF sym])

function from_utf8_lossy :: "str \<Rightarrow> str" where
  "from_utf8_lossy [] = []"
| "from_utf8_lossy (a # bs) =
     (let (v, n) = utf8_first a bs
      in (if v then take n (a # bs) else [0xEF, 0xBF, 0xBD]) @ from_utf8_lossy (drop n (a # bs)))"
  by pat_completeness auto
termination
  by (relation "measure length") (auto dest: utf8_first_pos [OF sym])

text \<open>The characters of a valid text, each as its bytes.\<close>

function chars :: "str \<Rightarrow> str list" where
  "chars [] = []"
| "chars (a # bs) =
     (let (v, n) = utf8_first a bs in take n (a # bs) # chars (drop n (a # bs)))"
  by pat_completeness auto
termination
  by (relation "measure length") (auto dest: utf8_first_pos [OF sym])

declare utf8_valid.simps(2) [simp del] from_utf8_lossy.simps(2) [simp del] chars.simps(2) [simp del]

lemma from_utf8_lossy_valid: "utf8_valid s \<Longrightarrow> from_utf8_lossy s = s"
proof (induction s rule: utf8_valid.induct)
  case (2 a bs)
  obtain v n where f: "utf8_first a bs = (v, n)" by fastforce
  with 2 show ?case
    by (simp add: utf8_valid.simps from_utf8_lossy.simps)
qed simp

lemma concat_chars: "concat (chars s) = s"
proof (induction s rule: chars.induct)
  case (2 a bs)
  obtain v n where f: "utf8_first a bs = (v, n)" by fastforce
  with 2 show ?case by (simp add: chars.simps)
qed simp

text \<open>ASCII texts, where every byte is a character.\<close>

definition ascii :: "str \<Rightarrow> bool" where
  "ascii s \<longleftrightarrow> (\<forall>b\<in>set s. b < 0x80)"

lemma ascii_simps [simp]:
  "ascii []" "ascii (b # s) \<longleftrightarrow> b < 0x80 \<and> ascii s" "ascii (s @ t) \<longleftrightarrow> ascii s \<and> ascii t"
  by (auto simp: ascii_def)

lemma utf8_first_ascii: "a < 0x80 \<Longrightarrow> utf8_first a bs = (True, 1)"
  by (simp add: utf8_first_def utf8_width_def)

lemma utf8_valid_ascii_append: "ascii s \<Longrightarrow> utf8_valid (s @ t) = utf8_valid t"
  by (induction s) (simp_all add: utf8_valid.simps utf8_first_ascii)

lemma utf8_valid_ascii: "ascii s \<Longrightarrow> utf8_valid s"
  using utf8_valid_ascii_append [of s "[]"] by simp

lemma chars_ascii: "ascii s \<Longrightarrow> chars s = map (\<lambda>b. [b]) s"
  by (induction s) (simp_all add: chars.simps utf8_first_ascii)

text \<open>An ASCII literal.\<close>

definition lit :: "string \<Rightarrow> str" where
  "lit cs = map (\<lambda>c. word_of_nat (of_char c)) cs"

section \<open>Decimal numbers\<close>

text \<open>Decimal digits, as \<open>format!\<close> prints an unsigned integer.\<close>

fun decimal :: "nat \<Rightarrow> str" where
  "decimal n = (if n < 10 then [word_of_nat (48 + n)] else decimal (n div 10) @ [word_of_nat (48 + n mod 10)])"

declare decimal.simps [simp del]

definition undecimal :: "str \<Rightarrow> nat" where
  "undecimal s = fold (\<lambda>b n. 10 * n + (unat b - 48)) s 0"

lemma undecimal_decimal: "undecimal (decimal n) = n"
proof (induction n rule: decimal.induct)
  case (1 n)
  have "unat (word_of_nat (48 + m) :: byte) = 48 + m" if "m < 10" for m
    using that by (subst unat_of_nat) (simp add: mod_less)
  with 1 show ?case by (subst decimal.simps) (auto simp: undecimal_def)
qed

lemma decimal_inject [simp]: "decimal m = decimal n \<longleftrightarrow> m = n"
  by (metis undecimal_decimal)

end
