(* ===== verification/Service_Time.thy ===== *)
theory Service_Time
  imports Sim_Time Utf8 "HOL-Library.AList"
begin

text \<open>
  \<open>des-core/src/dists.rs\<close>: service time distributions. The request-dependent ones (by size,
  by endpoint, by rules over predicates) and the constant one are modelled; the distributions
  that draw floating-point numbers from a generator are leaves \<open>Sampled\<close>, whose sampling
  function is a parameter. \<open>None\<close> stands for the panic of \<open>Duration\<close> arithmetic on
  overflow.
\<close>

section \<open>Request contexts and predicates\<close>

record client_info =
  ci_client_id :: str
  ci_priority :: byte
  region :: str

record request_context =
  rc_method :: str
  uri :: str
  headers :: "str \<rightharpoonup> str"
  body_size :: nat
  rc_payload :: "byte list"
  rc_client_info :: "client_info option"

text \<open>\<open>#[derive(Default)]\<close>.\<close>

definition request_context_default :: request_context where
  "request_context_default =
     \<lparr>rc_method = [], uri = [], headers = Map.empty, body_size = 0, rc_payload = [],
      rc_client_info = None\<rparr>"

datatype request_predicate =
    MethodPredicate str
  | UriPrefixPredicate str
  | UriExactPredicate str
  | BodySizePredicate nat nat
  | HeaderPredicate str str
  | AndPredicate "request_predicate list"
  | OrPredicate "request_predicate list"

fun matches :: "request_predicate \<Rightarrow> request_context \<Rightarrow> bool" where
  "matches (MethodPredicate m) req = (rc_method req = m)"
| "matches (UriPrefixPredicate p) req = (take (length p) (uri req) = p)"
| "matches (UriExactPredicate u) req = (uri req = u)"
| "matches (BodySizePredicate lo hi) req = (lo \<le> body_size req \<and> body_size req < hi)"
| "matches (HeaderPredicate name v) req =
     (case headers req name of Some value \<Rightarrow> value = v | None \<Rightarrow> False)"
| "matches (AndPredicate ps) req = list_all (\<lambda>p. matches p req) ps"
| "matches (OrPredicate ps) req = list_ex (\<lambda>p. matches p req) ps"

section \<open>Distributions\<close>

text \<open>\<open>impl Mul<u32> for Duration\<close> and \<open>impl Add for Duration\<close> panic on overflow.\<close>

definition duration_mul :: "duration \<Rightarrow> u32 \<Rightarrow> duration option" where
  "duration_mul d n = (if d * unat n \<le> duration_max then Some (d * unat n) else None)"

definition duration_add :: "duration \<Rightarrow> duration \<Rightarrow> duration option" where
  "duration_add d e = (if d + e \<le> duration_max then Some (d + e) else None)"

record size_based =
  base_time :: duration
  time_per_byte :: duration
  max_time :: duration

datatype 'd distribution =
    Constant duration
  | SizeBased size_based
  | EndpointBased "(str \<times> 'd distribution) list" "'d distribution"
  | Composite "(request_predicate \<times> 'd distribution) list" "'d distribution"
  | Sampled 'd

definition endpoint_based_new :: "'d distribution \<Rightarrow> 'd distribution" where
  "endpoint_based_new dflt = EndpointBased [] dflt"

fun add_endpoint :: "str \<Rightarrow> 'd distribution \<Rightarrow> 'd distribution \<Rightarrow> 'd distribution" where
  "add_endpoint endpoint d (EndpointBased es dflt) = EndpointBased (AList.update endpoint d es) dflt"
| "add_endpoint endpoint d other = other"

definition composite_new :: "'d distribution \<Rightarrow> 'd distribution" where
  "composite_new dflt = Composite [] dflt"

fun add_rule :: "request_predicate \<Rightarrow> 'd distribution \<Rightarrow> 'd distribution \<Rightarrow> 'd distribution" where
  "add_rule c d (Composite rules dflt) = Composite (rules @ [(c, d)]) dflt"
| "add_rule c d other = other"

text \<open>\<open>body_size as u32\<close> keeps the low 32 bits.\<close>

definition size_based_time :: "size_based \<Rightarrow> request_context \<Rightarrow> duration option" where
  "size_based_time self req =
     (case duration_mul (time_per_byte self) (word_of_nat (body_size req)) of
        None \<Rightarrow> None
      | Some size_time \<Rightarrow>
          map_option (\<lambda>total_time. min total_time (max_time self))
            (duration_add (base_time self) size_time))"

text \<open>The index of the first rule whose condition matches.\<close>

fun first_match :: "(request_predicate \<times> 'd) list \<Rightarrow> request_context \<Rightarrow> nat option" where
  "first_match [] req = None"
| "first_match ((c, _) # rules) req =
     (if matches c req then Some 0 else map_option Suc (first_match rules req))"

lemma all_less_Suc_split: "(\<forall>j<Suc n. P j) \<longleftrightarrow> P 0 \<and> (\<forall>j<n. P (Suc j))"
  using less_Suc_eq_0_disj by auto

lemma first_match_Some:
  "first_match rules req = Some i \<longleftrightarrow>
     i < length rules \<and> matches (fst (rules ! i)) req \<and> (\<forall>j<i. \<not> matches (fst (rules ! j)) req)"
proof (induction rules arbitrary: i)
  case (Cons r rules)
  then show ?case
    by (cases r; cases i) (auto simp: all_less_Suc_split)
qed simp

lemma first_match_None: "first_match rules req = None \<longleftrightarrow> (\<forall>(c, _)\<in>set rules. \<not> matches c req)"
  by (induction rules) (auto split: if_splits)

lemma size_list_snd: "x \<in> set xs \<Longrightarrow> size (snd x) < Suc (size_list (size_prod f size) xs + n)"
  by (induction xs) auto

lemma size_map_of:
  "map_of xs k = Some d \<Longrightarrow> size d < Suc (size_list (size_prod f size) xs + n)"
  using size_list_snd [of "(k, d)" xs f n] by (simp add: map_of_SomeD)

function sample_service_time ::
  "('d \<Rightarrow> duration \<times> 'd) \<Rightarrow> 'd distribution \<Rightarrow> request_context \<Rightarrow> (duration \<times> 'd distribution) option"
where
  "sample_service_time smp (Constant d) req = Some (d, Constant d)"
| "sample_service_time smp (SizeBased sb) req =
     map_option (\<lambda>t. (t, SizeBased sb)) (size_based_time sb req)"
| "sample_service_time smp (EndpointBased es dflt) req =
     (case map_of es (uri req) of
        Some d \<Rightarrow>
          map_option (\<lambda>(t, d). (t, EndpointBased (AList.update (uri req) d es) dflt))
            (sample_service_time smp d req)
      | None \<Rightarrow>
          map_option (\<lambda>(t, d). (t, EndpointBased es d)) (sample_service_time smp dflt req))"
| "sample_service_time smp (Composite rules dflt) req =
     (case first_match rules req of
        Some i \<Rightarrow>
          map_option (\<lambda>(t, d). (t, Composite (rules[i := (fst (rules ! i), d)]) dflt))
            (sample_service_time smp (snd (rules ! i)) req)
      | None \<Rightarrow>
          map_option (\<lambda>(t, d). (t, Composite rules d)) (sample_service_time smp dflt req))"
| "sample_service_time smp (Sampled s) req = (let (t, s) = smp s in Some (t, Sampled s))"
  by pat_completeness auto
termination
  by (relation "measure (\<lambda>(smp, d, req). size d)")
    (auto simp: first_match_Some size_list_snd size_map_of)

function expected_service_time ::
  "('d \<Rightarrow> duration) \<Rightarrow> 'd distribution \<Rightarrow> request_context \<Rightarrow> duration option"
where
  "expected_service_time mean (Constant d) req = Some d"
| "expected_service_time mean (SizeBased sb) req = size_based_time sb req"
| "expected_service_time mean (EndpointBased es dflt) req =
     (case map_of es (uri req) of
        Some d \<Rightarrow> expected_service_time mean d req
      | None \<Rightarrow> expected_service_time mean dflt req)"
| "expected_service_time mean (Composite rules dflt) req =
     (case first_match rules req of
        Some i \<Rightarrow> expected_service_time mean (snd (rules ! i)) req
      | None \<Rightarrow> expected_service_time mean dflt req)"
| "expected_service_time mean (Sampled s) req = Some (mean s)"
  by pat_completeness auto
termination
  by (relation "measure (\<lambda>(mean, d, req). size d)")
    (auto simp: first_match_Some size_list_snd size_map_of)

text \<open>The default method \<open>sample\<close> of the trait.\<close>

definition sample ::
  "('d \<Rightarrow> duration \<times> 'd) \<Rightarrow> 'd distribution \<Rightarrow> (duration \<times> 'd distribution) option"
where
  "sample smp d = sample_service_time smp d request_context_default"

section \<open>Properties\<close>

lemma update_same: "map_of es k = Some v \<Longrightarrow> AList.update k v es = es"
  by (induction es) auto

text \<open>
  Sampling refines the expectation: when every generator-based leaf returns its mean and
  keeps its state, sampling returns the expected service time, panics exactly when the
  expectation does, and leaves the distribution as it was. In particular this holds for all
  distributions built from constants, sizes, endpoints and rules only.
\<close>

theorem sample_is_expected:
  assumes "\<forall>s\<in>set_distribution d. smp s = (mean s, s)"
  shows "sample_service_time smp d req =
    map_option (\<lambda>t. (t, d)) (expected_service_time mean d req)"
  using assms
proof (induction smp d req rule: sample_service_time.induct)
  case (3 smp es dflt req)
  show ?case
  proof (cases "map_of es (uri req)")
    case (Some d)
    then have "\<forall>s\<in>set_distribution d. smp s = (mean s, s)"
      using 3(3) bspec [OF _ map_of_SomeD [OF Some]] by (fastforce dest: map_of_SomeD)
    with 3(2) [OF Some] Some show ?thesis
      by (simp add: option.map_comp o_def update_same)
  qed (use 3 in \<open>simp add: option.map_comp o_def\<close>)
next
  case (4 smp rules dflt req)
  show ?case
  proof (cases "first_match rules req")
    case (Some i)
    then have i: "i < length rules" by (simp add: first_match_Some)
    then have "\<forall>s\<in>set_distribution (snd (rules ! i)). smp s = (mean s, s)"
      using 4(3) nth_mem [OF i] by (cases "rules ! i") force
    with 4(2) [OF Some] Some i show ?thesis
      by (simp add: option.map_comp o_def)
  qed (use 4 in \<open>simp add: option.map_comp o_def\<close>)
qed (auto simp: option.map_comp o_def)

text \<open>
  Rules are tried in the order they were added: with \<open>add_rule\<close> the new rule decides
  exactly the requests it matches and no earlier rule matches; all others are served as before.
\<close>

theorem add_rule_last:
  "expected_service_time mean (add_rule c d (Composite rules dflt)) req =
     (if list_all (\<lambda>(c', _). \<not> matches c' req) rules \<and> matches c req
      then expected_service_time mean d req
      else expected_service_time mean (Composite rules dflt) req)"
proof (cases "first_match rules req")
  case None
  moreover from None have "first_match (rules @ [(c, d)]) req =
      (if matches c req then Some (length rules) else None)"
    by (induction rules) (auto split: if_splits)
  moreover have "list_all (\<lambda>(c', _). \<not> matches c' req) rules"
    using None by (simp add: first_match_None list_all_iff)
  ultimately show ?thesis by simp
next
  case (Some i)
  then have "first_match (rules @ [(c, d)]) req = Some i" "i < length rules"
    by (auto simp: first_match_Some nth_append)
  moreover have "\<not> list_all (\<lambda>(c', _). \<not> matches c' req) rules"
    using Some first_match_None [of rules req] by (simp add: list_all_iff)
  ultimately show ?thesis using Some by (simp only: add_rule.simps) (simp add: nth_append if_not_P)
qed

text \<open>
  The size-based time is at most \<open>max_time\<close>, and the documented formula as long as the
  size is below $2^{32}$; a body of $2^{32}$ bytes is charged as an empty one.
\<close>

lemma size_based_time_bound: "size_based_time sb req = Some t \<Longrightarrow> t \<le> max_time sb"
  by (auto simp: size_based_time_def split: option.splits)

lemma size_based_time_formula:
  assumes "body_size req < 2 ^ 32" "base_time sb + time_per_byte sb * body_size req \<le> duration_max"
  shows "size_based_time sb req = Some (min (base_time sb + time_per_byte sb * body_size req) (max_time sb))"
  using assms by (simp add: size_based_time_def duration_mul_def duration_add_def unsigned_of_nat
      take_bit_nat_eq_self)

lemma size_based_truncates:
  assumes "base_time sb \<le> duration_max"
  shows "size_based_time sb (req\<lparr>body_size := 2 ^ 32\<rparr>) = Some (min (base_time sb) (max_time sb))"
  using assms by (simp add: size_based_time_def duration_mul_def duration_add_def unsigned_of_nat)

section \<open>Instances\<close>

text \<open>A server with a slow endpoint, a rule on the size and a default.\<close>

definition api_times :: "unit distribution" where
  "api_times = add_rule (AndPredicate [MethodPredicate (lit ''POST''), BodySizePredicate 10 20])
     (SizeBased \<lparr>base_time = 5, time_per_byte = 2, max_time = 40\<rparr>)
     (composite_new (add_endpoint (lit ''/slow'') (Constant 100) (endpoint_based_new (Constant 10))))"

theorem sample_is_expected_witness:
  "sample_service_time (\<lambda>s. (0, s)) api_times
     (request_context_default\<lparr>rc_method := lit ''POST'', body_size := 12\<rparr>) = Some (29, api_times)"
proof -
  have "\<forall>s\<in>set_distribution api_times. (\<lambda>s. (0, s)) s = ((\<lambda>_. 0) s, s)" by simp
  note sample_is_expected [OF this, of "request_context_default\<lparr>rc_method := lit ''POST'', body_size := 12\<rparr>"]
  then show ?thesis
    by (simp add: api_times_def composite_new_def endpoint_based_new_def size_based_time_def
        duration_mul_def duration_add_def duration_max_def)
qed

end
