(* ===== verification/Http_Text.thy ===== *)
theory Http_Text
  imports Service_Time
begin

text \<open>
  The textual form of HTTP requests: \<open>serialize_http_request\<close>
  (\<open>des-tower/src/tower/mod.rs\<close>) writes it, \<open>Server::parse_request_payload\<close>
  (\<open>des-components/src/server.rs\<close>) reads it back to pick a service time. A request of the
  crate \<open>http\<close> is represented by what its accessors return. The \<open>str\<close> functions the parser
  calls are defined here on UTF-8 bytes.
\<close>

section \<open>Functions of str\<close>

text \<open>The characters with the Unicode property White\_Space, in UTF-8.\<close>

definition is_whitespace :: "str \<Rightarrow> bool" where
  "is_whitespace c \<longleftrightarrow>
     (case c of
        [a] \<Rightarrow> (9 \<le> a \<and> a \<le> 13) \<or> a = 32
      | [a, b] \<Rightarrow> a = 0xC2 \<and> (b = 0x85 \<or> b = 0xA0)
      | [a, b, d] \<Rightarrow>
          (a = 0xE1 \<and> b = 0x9A \<and> d = 0x80) \<or>
          (a = 0xE2 \<and> b = 0x80 \<and> ((0x80 \<le> d \<and> d \<le> 0x8A) \<or> d = 0xA8 \<or> d = 0xA9 \<or> d = 0xAF)) \<or>
          (a = 0xE2 \<and> b = 0x81 \<and> d = 0x9F) \<or>
          (a = 0xE3 \<and> b = 0x80 \<and> d = 0x80)
      | _ \<Rightarrow> False)"

definition trim :: "str \<Rightarrow> str" where
  "trim s = concat (rev (dropWhile is_whitespace (rev (dropWhile is_whitespace (chars s)))))"

text \<open>Words of a list of characters; \<open>w\<close> is the word read so far.\<close>

fun words_from :: "str \<Rightarrow> str list \<Rightarrow> str list" where
  "words_from w [] = (if w = [] then [] else [w])"
| "words_from w (c # cs) =
     (if is_whitespace c then (if w = [] then words_from [] cs else w # words_from [] cs)
      else words_from (w @ c) cs)"

definition split_whitespace :: "str \<Rightarrow> str list" where
  "split_whitespace s = words_from [] (chars s)"

definition crlf :: str where
  "crlf = [13, 10]"

text \<open>\<open>s.split("\r\n")\<close>.\<close>

fun split_crlf :: "str \<Rightarrow> str list" where
  "split_crlf [] = [[]]"
| "split_crlf [b] = [[b]]"
| "split_crlf (a # b # rest) =
     (if a = 13 \<and> b = 10 then [] # split_crlf rest
      else (case split_crlf (b # rest) of [] \<Rightarrow> [[a]] | l # ls \<Rightarrow> (a # l) # ls))"

text \<open>\<open>xs.join(sep)\<close>.\<close>

fun join :: "str \<Rightarrow> str list \<Rightarrow> str" where
  "join sep [] = []"
| "join sep [x] = x"
| "join sep (x # y # xs) = x @ sep @ join sep (y # xs)"

section \<open>Writing\<close>

record http_request =
  hr_method :: str
  hr_uri :: str
  hr_headers :: "(str \<times> str option) list"
  hr_body :: "byte list"

text \<open>A header value is \<open>None\<close> when it is not visible ASCII and \<open>to_str\<close> fails.\<close>

definition header_line :: "str \<times> str option \<Rightarrow> str" where
  "header_line = (\<lambda>(k, v). k @ [58, 32] @ (case v of Some s \<Rightarrow> s | None \<Rightarrow> []))"

definition serialize_http_request :: "http_request \<Rightarrow> byte list" where
  "serialize_http_request req =
     (let hs = join crlf (map header_line (hr_headers req));
          result = hr_method req @ [32] @ hr_uri req @ [32] @ lit ''HTTP/1.1'' @ crlf
                     @ hs @ crlf @ crlf
      in result @ hr_body req)"

section \<open>Reading\<close>

text \<open>
  The loop over the header lines: the headers inserted so far and the lines after the first
  empty one.
\<close>

fun parse_headers :: "str list \<Rightarrow> (str \<rightharpoonup> str) \<Rightarrow> (str \<rightharpoonup> str) \<times> str list" where
  "parse_headers [] hs = (hs, [])"
| "parse_headers (line # rest) hs =
     (if line = [] then (hs, rest)
      else if 58 \<in> set line
      then (let key = trim (takeWhile (\<lambda>b. b \<noteq> 58) line);
                value = trim (tl (dropWhile (\<lambda>b. b \<noteq> 58) line))
            in parse_headers rest (hs(key \<mapsto> value)))
      else parse_headers rest hs)"

definition parse_request_payload :: "byte list \<Rightarrow> request_context" where
  "parse_request_payload payload =
     (let lines = split_crlf (from_utf8_lossy payload)
      in case lines of
           [] \<Rightarrow> request_context_default
         | first # rest \<Rightarrow>
             (let parts = split_whitespace first;
                  method = (case parts of m # _ \<Rightarrow> m | [] \<Rightarrow> lit ''GET'');
                  uri = (case parts of _ # u # _ \<Rightarrow> u | _ \<Rightarrow> [47]);
                  (hs, body_lines) = parse_headers rest Map.empty;
                  body = join crlf body_lines
              in \<lparr>rc_method = method, uri = uri, headers = hs, body_size = length body,
                  rc_payload = body, rc_client_info = None\<rparr>))"

section \<open>Splitting and joining\<close>

lemma split_crlf_nonempty [simp]: "split_crlf s \<noteq> []"
  by (induction s rule: split_crlf.induct) (auto split: list.splits)

lemma join_Cons: "xs \<noteq> [] \<Longrightarrow> join sep (x # xs) = x @ sep @ join sep xs"
  by (cases xs) auto

lemma join_split_crlf: "join crlf (split_crlf s) = s"
proof (induction s rule: split_crlf.induct)
  case (3 a b rest)
  show ?case
  proof (cases "a = 13 \<and> b = 10")
    case True
    with 3(1) show ?thesis by (simp add: join_Cons crlf_def)
  next
    case False
    obtain l ls where "split_crlf (b # rest) = l # ls"
      using split_crlf_nonempty by (cases "split_crlf (b # rest)") auto
    with 3(2) False show ?thesis by (cases ls) auto
  qed
qed auto

lemma split_crlf_line: "13 \<notin> set l \<Longrightarrow> split_crlf (l @ crlf @ rest) = l # split_crlf rest"
proof (induction l)
  case (Cons a l)
  then obtain b rest' where "l @ crlf @ rest = b # rest'"
    by (cases l) (auto simp: crlf_def)
  with Cons show ?case by auto
qed (simp add: crlf_def)

lemma split_crlf_lines:
  assumes "ls \<noteq> []" "\<forall>l\<in>set ls. 13 \<notin> set l"
  shows "split_crlf (join crlf ls @ crlf @ rest) = ls @ split_crlf rest"
  using assms
proof (induction ls)
  case (Cons l ls)
  then show ?case
    by (cases "ls = []") (simp_all add: split_crlf_line join_Cons)
qed simp

section \<open>Words and trimmed texts\<close>

text \<open>A non-empty ASCII text without blanks: a method, a path, a header name.\<close>

definition token_ok :: "str \<Rightarrow> bool" where
  "token_ok s \<longleftrightarrow> s \<noteq> [] \<and> ascii s \<and> (\<forall>b\<in>set s. \<not> is_whitespace [b])"

text \<open>A header value: ASCII without line breaks, and without blanks at its ends.\<close>

definition value_ok :: "str \<Rightarrow> bool" where
  "value_ok s \<longleftrightarrow> ascii s \<and> 13 \<notin> set s \<and>
     (s \<noteq> [] \<longrightarrow> \<not> is_whitespace [hd s] \<and> \<not> is_whitespace [last s])"

lemma words_from_token:
  "(\<forall>b\<in>set s. \<not> is_whitespace [b]) \<Longrightarrow>
   words_from w (map (\<lambda>b. [b]) s @ cs) = words_from (w @ s) cs"
  by (induction s arbitrary: w) auto

lemma split_whitespace_request_line:
  assumes "token_ok m" "token_ok u" "token_ok v"
  shows "split_whitespace (m @ [32] @ u @ [32] @ v) = [m, u, v]"
proof -
  have "is_whitespace [32]" by (simp add: is_whitespace_def)
  then show ?thesis
    using assms words_from_token [of v _ "[]"]
    by (simp add: split_whitespace_def chars_ascii token_ok_def words_from_token)
qed

lemma concat_singletons: "concat (map (\<lambda>b. [b]) s) = s"
  by (induction s) auto

lemma trim_value:
  assumes "value_ok s"
  shows "trim s = s" "trim (32 # s) = s"
proof -
  let ?c = "map (\<lambda>b. [b]) s"
  have blank: "is_whitespace [32]" by (simp add: is_whitespace_def)
  have 1: "dropWhile is_whitespace ?c = ?c"
    using assms by (cases s) (auto simp: value_ok_def)
  have 2: "dropWhile is_whitespace (rev ?c) = rev ?c"
    using assms by (cases s rule: rev_cases) (auto simp: value_ok_def)
  show "trim s = s" "trim (32 # s) = s"
    using assms 1 2 blank by (simp_all add: trim_def value_ok_def chars_ascii concat_singletons)
qed

lemma value_ok_token: "token_ok s \<Longrightarrow> value_ok s"
  by (auto simp: token_ok_def value_ok_def is_whitespace_def hd_in_set last_in_set)

lemma span_at:
  "x \<notin> set k \<Longrightarrow> takeWhile (\<lambda>b. b \<noteq> x) (k @ x # r) = k"
  "x \<notin> set k \<Longrightarrow> dropWhile (\<lambda>b. b \<noteq> x) (k @ x # r) = x # r"
  by (induction k) auto

section \<open>Round trip\<close>

text \<open>Requests whose text form is unambiguous.\<close>

definition header_ok :: "str \<times> str option \<Rightarrow> bool" where
  "header_ok = (\<lambda>(k, v). token_ok k \<and> 58 \<notin> set k \<and> pred_option value_ok v)"

definition http_ok :: "http_request \<Rightarrow> bool" where
  "http_ok r \<longleftrightarrow> token_ok (hr_method r) \<and> token_ok (hr_uri r) \<and> (\<forall>h\<in>set (hr_headers r). header_ok h)
     \<and> utf8_valid (hr_body r)"

definition header_value :: "str option \<Rightarrow> str" where
  "header_value v = (case v of Some s \<Rightarrow> s | None \<Rightarrow> [])"

lemma parse_header_lines:
  "\<forall>h\<in>set hs. header_ok h \<Longrightarrow>
   parse_headers (map header_line hs @ [] # rest) m =
     (fold (\<lambda>(k, v) m. m(k \<mapsto> header_value v)) hs m, rest)"
proof (induction hs arbitrary: m)
  case (Cons h hs)
  obtain k v where h: "h = (k, v)" by fastforce
  have k: "58 \<notin> set k" "token_ok k" "value_ok (header_value v)"
    using Cons.prems h by (auto simp: header_ok_def header_value_def value_ok_def split: option.splits)
  have "takeWhile (\<lambda>b. b \<noteq> 58) (header_line h) = k"
    "dropWhile (\<lambda>b. b \<noteq> 58) (header_line h) = 58 # 32 # header_value v"
    using k by (auto simp: h header_line_def header_value_def span_at split: option.splits)
  moreover have "58 \<in> set (header_line h)"
    by (simp add: h header_line_def)
  ultimately show ?case
    using Cons k by (auto simp: h trim_value trim_value(1) [OF value_ok_token] simp del: fun_upd_apply)
qed simp

lemma header_line_ok: "header_ok h \<Longrightarrow> ascii (header_line h) \<and> 13 \<notin> set (header_line h)"
  by (auto simp: header_ok_def header_line_def token_ok_def value_ok_def is_whitespace_def
      split: option.splits)

lemma join_ascii: "\<forall>l\<in>set ls. ascii l \<Longrightarrow> ascii (join crlf ls)"
proof (induction ls)
  case (Cons l ls)
  then show ?case by (cases "ls = []") (auto simp: join_Cons crlf_def)
qed simp

lemma serialize_valid: "http_ok r \<Longrightarrow> utf8_valid (serialize_http_request r)"
proof -
  assume r: "http_ok r"
  define pre where "pre = hr_method r @ [32] @ hr_uri r @ [32] @ lit ''HTTP/1.1'' @ crlf
    @ join crlf (map header_line (hr_headers r)) @ crlf @ crlf"
  have "ascii pre"
    using r header_line_ok unfolding pre_def
    by (auto simp: http_ok_def token_ok_def crlf_def [symmetric] lit_def intro!: join_ascii)
      (auto simp: crlf_def)
  then have "utf8_valid (pre @ hr_body r)"
    using r by (simp add: utf8_valid_ascii_append http_ok_def)
  then show ?thesis
    by (simp add: serialize_http_request_def pre_def Let_def)
qed

lemma serialize_lines:
  assumes "http_ok r"
  shows "split_crlf (serialize_http_request r) =
    (hr_method r @ [32] @ hr_uri r @ [32] @ lit ''HTTP/1.1'')
      # (if hr_headers r = [] then [[]] else map header_line (hr_headers r)) @ [] # split_crlf (hr_body r)"
proof -
  have "13 \<notin> set (hr_method r @ [32] @ hr_uri r @ [32] @ lit ''HTTP/1.1'')"
    using assms by (auto simp: http_ok_def token_ok_def is_whitespace_def lit_def)
  moreover have "split_crlf (crlf @ x) = [] # split_crlf x" for x
    using split_crlf_line [of "[]" x] by simp
  moreover have "\<forall>l\<in>set (map header_line (hr_headers r)). 13 \<notin> set l"
    using assms header_line_ok by (auto simp: http_ok_def)
  ultimately show ?thesis
    using split_crlf_line [of "hr_method r @ [32] @ hr_uri r @ [32] @ lit ''HTTP/1.1''"]
      split_crlf_lines [of "map header_line (hr_headers r)" "crlf @ hr_body r"]
    by (simp add: serialize_http_request_def Let_def)
qed

text \<open>
  The text form of a request with at least one header is parsed back: method, URI,
  headers (a later header of the same name wins), body and its size. A request without
  headers is parsed with two additional bytes, a line break, in front of its body.
\<close>

theorem http_request_round_trip:
  assumes "http_ok r"
  shows "parse_request_payload (serialize_http_request r) =
    (let body = (if hr_headers r = [] then crlf else []) @ hr_body r
     in \<lparr>rc_method = hr_method r, uri = hr_uri r,
         headers = fold (\<lambda>(k, v) m. m(k \<mapsto> header_value v)) (hr_headers r) Map.empty,
         body_size = length body, rc_payload = body, rc_client_info = None\<rparr>)"
proof -
  have line: "split_whitespace (hr_method r @ [32] @ hr_uri r @ [32] @ lit ''HTTP/1.1'')
      = [hr_method r, hr_uri r, lit ''HTTP/1.1'']"
    using assms by (intro split_whitespace_request_line)
      (auto simp: http_ok_def token_ok_def is_whitespace_def lit_def)
  have hs: "\<forall>h\<in>set (hr_headers r). header_ok h"
    using assms by (simp add: http_ok_def)
  show ?thesis
    using line parse_header_lines [OF hs, of "split_crlf (hr_body r)" Map.empty]
    by (simp add: parse_request_payload_def from_utf8_lossy_valid [OF serialize_valid [OF assms]]
        serialize_lines [OF assms] Let_def join_split_crlf join_Cons)
qed

section \<open>Instances\<close>

definition get_hello :: http_request where
  "get_hello = \<lparr>hr_method = lit ''GET'', hr_uri = lit ''/hello'',
     hr_headers = [(lit ''x-a'', Some (lit ''1 2''))], hr_body = lit ''hi''\<rparr>"

lemma get_hello_ok: "http_ok get_hello" "http_ok (get_hello\<lparr>hr_headers := []\<rparr>)"
  by (simp_all add: get_hello_def http_ok_def token_ok_def header_ok_def value_ok_def lit_def
      is_whitespace_def utf8_valid_ascii)

theorem http_request_round_trip_witness:
  "rc_payload (parse_request_payload (serialize_http_request get_hello)) = lit ''hi''
   \<and> headers (parse_request_payload (serialize_http_request get_hello)) (lit ''x-a'') = Some (lit ''1 2'')
   \<and> body_size (parse_request_payload (serialize_http_request (get_hello\<lparr>hr_headers := []\<rparr>))) = 4"
  unfolding http_request_round_trip [OF get_hello_ok(1)] http_request_round_trip [OF get_hello_ok(2)]
  by (simp add: get_hello_def header_value_def lit_def crlf_def Let_def)

end
