(* ===== verification/Server.thy ===== *)
theory Server
  imports Pending_Events Queue_Component Http_Text
begin

text \<open>
  \<open>des-components/src/server.rs\<close>: a server with a bounded number of simulated threads, a
  service time distribution and an optional queue. Every operation takes the server and the
  scheduler and returns both; \<open>None\<close> is a panic of the duration arithmetic in the
  distribution. Logging and the metrics collector are left out. Clients and servers exchange
  the events of \<open>service_event\<close>: the event of a \<open>Key<ServerEvent>\<close> or a \<open>Key<ClientEvent>\<close>.
\<close>

section \<open>Events and state\<close>

datatype client_event =
    SendRequest
  | ResponseReceived response
  | RequestTimeout request_id attempt_id
  | RetryRequest request_id

datatype server_event =
    ProcessRequest request_attempt uuid
  | RequestCompleted attempt_id request_id uuid "byte list"
  | ProcessQueuedRequests

datatype service_event = ServerEvent server_event | ClientEvent client_event

record 'd server =
  sv_name :: str
  thread_capacity :: nat
  active_threads :: nat
  service_time_distribution :: "'d distribution"
  queue :: "queue_box option"
  requests_processed :: u64
  requests_rejected :: u64
  requests_queued :: u64

definition server_new :: "str \<Rightarrow> nat \<Rightarrow> 'd distribution \<Rightarrow> 'd server" where
  "server_new name capacity d =
     \<lparr>sv_name = name, thread_capacity = capacity, active_threads = 0,
      service_time_distribution = d, queue = None, requests_processed = 0,
      requests_rejected = 0, requests_queued = 0\<rparr>"

definition with_constant_service_time :: "str \<Rightarrow> nat \<Rightarrow> duration \<Rightarrow> 'd server" where
  "with_constant_service_time name capacity t = server_new name capacity (Constant t)"

definition with_queue :: "queue_box \<Rightarrow> 'd server \<Rightarrow> 'd server" where
  "with_queue q self = self\<lparr>queue := Some q\<rparr>"

definition has_capacity :: "'d server \<Rightarrow> bool" where
  "has_capacity self = (active_threads self < thread_capacity self)"

definition can_accept_request :: "'d server \<Rightarrow> bool" where
  "can_accept_request self =
     (has_capacity self \<or>
      (case queue self of Some q \<Rightarrow> \<not> len_is_full (box_capacity q) (box_len q) | None \<Rightarrow> False))"

definition queue_depth :: "'d server \<Rightarrow> nat" where
  "queue_depth self = (case queue self of Some q \<Rightarrow> box_len q | None \<Rightarrow> 0)"

section \<open>Operations\<close>

type_synonym ('t, 'v, 'z) service_sched = "(service_event, 't, 'v, 'z) scheduler_scheme"

definition build_request_context :: "request_attempt \<Rightarrow> request_context" where
  "build_request_context request = parse_request_payload (at_payload request)"

definition start_processing_request ::
  "('d \<Rightarrow> duration \<times> 'd) \<Rightarrow> request_attempt \<Rightarrow> uuid \<Rightarrow> uuid \<Rightarrow> 'd server
    \<Rightarrow> ('t, 'v, 'z) service_sched \<Rightarrow> ('d server \<times> ('t, 'v, 'z) service_sched) option"
where
  "start_processing_request smp attempt client self_id self s =
     (let self = self\<lparr>active_threads := active_threads self + 1\<rparr>;
          request_context = build_request_context attempt
      in case sample_service_time smp (service_time_distribution self) request_context of
           None \<Rightarrow> None
         | Some (service_time, d) \<Rightarrow>
             Some (self\<lparr>service_time_distribution := d\<rparr>,
               schedule (from_duration service_time) self_id
                 (ServerEvent (RequestCompleted (at_id attempt) (at_request_id attempt) client
                    (at_payload attempt))) s))"

definition reject_request ::
  "request_attempt \<Rightarrow> uuid \<Rightarrow> 'd server \<Rightarrow> ('t, 'v, 'z) service_sched
    \<Rightarrow> 'd server \<times> ('t, 'v, 'z) service_sched"
where
  "reject_request attempt client self s =
     (let self = self\<lparr>requests_rejected := requests_rejected self + 1\<rparr>;
          response = response_error (at_id attempt) (at_request_id attempt) (time s) 503
                       ''Server overloaded''
      in (self, schedule (from_duration (duration_from_millis 1)) client
                  (ClientEvent (ResponseReceived response)) s))"

definition handle_request ::
  "('d \<Rightarrow> duration \<times> 'd) \<Rightarrow> request_attempt \<Rightarrow> uuid \<Rightarrow> uuid \<Rightarrow> 'd server
    \<Rightarrow> ('t, 'v, 'z) service_sched \<Rightarrow> ('d server \<times> ('t, 'v, 'z) service_sched) option"
where
  "handle_request smp attempt client self_id self s =
     (if has_capacity self then start_processing_request smp attempt client self_id self s
      else case queue self of
             Some q \<Rightarrow>
               (let queue_item = with_client_id attempt (time s) client
                in case box_enqueue queue_item q of
                     (Inr _, q) \<Rightarrow>
                       Some (self\<lparr>queue := Some q, requests_queued := requests_queued self + 1\<rparr>, s)
                   | (Inl _, q) \<Rightarrow> Some (reject_request attempt client (self\<lparr>queue := Some q\<rparr>) s))
           | None \<Rightarrow> Some (reject_request attempt client self s))"

definition complete_request ::
  "attempt_id \<Rightarrow> request_id \<Rightarrow> uuid \<Rightarrow> byte list \<Rightarrow> uuid \<Rightarrow> 'd server
    \<Rightarrow> ('t, 'v, 'z) service_sched \<Rightarrow> 'd server \<times> ('t, 'v, 'z) service_sched"
where
  "complete_request a_id r_id client payload self_id self s =
     (let self = self\<lparr>active_threads := active_threads self - 1,
                      requests_processed := requests_processed self + 1\<rparr>;
          response = response_success a_id r_id (time s) payload;
          s = schedule (from_duration (duration_from_millis 1)) client
                (ClientEvent (ResponseReceived response)) s
      in if has_capacity self \<and> 0 < queue_depth self
         then (self, schedule (from_duration (duration_from_millis 0)) self_id
                       (ServerEvent ProcessQueuedRequests) s)
         else (self, s))"

text \<open>\<open>Uuid::nil()\<close>.\<close>

definition nil_uuid :: uuid where
  "nil_uuid = 0"

lemma start_processing_threads:
  "start_processing_request smp a c k self s = Some (self', s') \<Longrightarrow>
     active_threads self' = Suc (active_threads self) \<and> thread_capacity self' = thread_capacity self
     \<and> queue self' = queue self"
  by (auto simp: start_processing_request_def Let_def split: option.splits)

text \<open>
  The loop. An item without a client is processed too; its response goes to the nil key,
  where no component is. Both branches of the source start one thread and schedule the
  completion; they differ in the client key only.
\<close>

function process_queued_requests ::
  "('d \<Rightarrow> duration \<times> 'd) \<Rightarrow> uuid \<Rightarrow> 'd server \<Rightarrow> ('t, 'v, 'z) service_sched
    \<Rightarrow> ('d server \<times> ('t, 'v, 'z) service_sched) option"
where
  "process_queued_requests smp self_id self s =
     (if \<not> has_capacity self then Some (self, s)
      else
        (let (queued_item, self) =
               (case queue self of
                  Some q \<Rightarrow> (let (i, q) = box_dequeue q in (i, self\<lparr>queue := Some q\<rparr>))
                | None \<Rightarrow> (None, self))
         in case queued_item of
              None \<Rightarrow> Some (self, s)
            | Some item \<Rightarrow>
                (let client = (case client_id item of Some c \<Rightarrow> c | None \<Rightarrow> nil_uuid)
                 in case start_processing_request smp (qi_attempt item) client self_id self s of
                      None \<Rightarrow> None
                    | Some (self, s) \<Rightarrow> process_queued_requests smp self_id self s)))"
  by pat_completeness auto
termination
  by (relation "measure (\<lambda>(smp, k, self, s). thread_capacity self - active_threads self)")
    (auto simp: has_capacity_def split: option.splits prod.splits dest!: start_processing_threads)

declare process_queued_requests.simps [simp del]

fun server_process_event ::
  "('d \<Rightarrow> duration \<times> 'd) \<Rightarrow> uuid \<Rightarrow> server_event \<Rightarrow> 'd server \<Rightarrow> ('t, 'v, 'z) service_sched
    \<Rightarrow> ('d server \<times> ('t, 'v, 'z) service_sched) option"
where
  "server_process_event smp self_id (ProcessRequest attempt client) self s =
     handle_request smp attempt client self_id self s"
| "server_process_event smp self_id (RequestCompleted a_id r_id client payload) self s =
     Some (complete_request a_id r_id client payload self_id self s)"
| "server_process_event smp self_id ProcessQueuedRequests self s =
     process_queued_requests smp self_id self s"

section \<open>What a server sends\<close>

text \<open>The pending events that matter to the server with key \<open>k\<close>.\<close>

definition completion :: "uuid \<Rightarrow> uuid \<Rightarrow> service_event \<Rightarrow> bool" where
  "completion k = (\<lambda>k' ev. k' = k \<and> (case ev of ServerEvent (RequestCompleted _ _ _ _) \<Rightarrow> True | _ \<Rightarrow> False))"

definition wakeup :: "uuid \<Rightarrow> uuid \<Rightarrow> service_event \<Rightarrow> bool" where
  "wakeup k = (\<lambda>k' ev. k' = k \<and> ev = ServerEvent ProcessQueuedRequests)"

lemma service_event_kinds [simp]:
  "completion k k' (ServerEvent (RequestCompleted a r c p)) \<longleftrightarrow> k' = k"
  "\<not> completion k k' (ServerEvent (ProcessRequest at c))"
  "\<not> completion k k' (ServerEvent ProcessQueuedRequests)"
  "\<not> completion k k' (ClientEvent ev)"
  "wakeup k k' (ServerEvent ProcessQueuedRequests) \<longleftrightarrow> k' = k"
  "\<not> wakeup k k' (ServerEvent (RequestCompleted a r c p))"
  "\<not> wakeup k k' (ServerEvent (ProcessRequest at c))"
  "\<not> wakeup k k' (ClientEvent ev)"
  by (simp_all add: completion_def wakeup_def)

text \<open>
  The messages of a server: completions and wake-ups to itself, responses to the clients
  \<open>C\<close> it knows of.
\<close>

fun server_msg :: "uuid \<Rightarrow> uuid set \<Rightarrow> service_event message \<Rightarrow> bool" where
  "server_msg k C (d, k', ServerEvent (RequestCompleted _ _ c _)) = (k' = k \<and> c \<in> C)"
| "server_msg k C (d, k', ServerEvent ProcessQueuedRequests) = (k' = k)"
| "server_msg k C (d, k', ClientEvent (ResponseReceived _)) = (k' \<in> C)"
| "server_msg k C _ = False"

definition queue_clients :: "'d server \<Rightarrow> uuid set" where
  "queue_clients sv =
     (case queue sv of None \<Rightarrow> {} | Some q \<Rightarrow> {c. \<exists>i\<in>set (box_contents q). client_id i = Some c})"

fun event_clients :: "server_event \<Rightarrow> uuid set" where
  "event_clients (ProcessRequest _ c) = {c}"
| "event_clients (RequestCompleted _ _ c _) = {c}"
| "event_clients ProcessQueuedRequests = {}"

definition queue_ok :: "'d server \<Rightarrow> bool" where
  "queue_ok sv = (case queue sv of None \<Rightarrow> True | Some q \<Rightarrow> box.within q)"

text \<open>
  The invariant, for \<open>c\<close> pending completions and \<open>w\<close> pending wake-ups: one thread is in use
  per pending completion, never more than the capacity, and requests wait only while all
  threads are in use or a wake-up is on its way.
\<close>

definition server_ok :: "nat \<Rightarrow> nat \<Rightarrow> 'd server \<Rightarrow> bool" where
  "server_ok c w sv \<longleftrightarrow>
     active_threads sv = c \<and> active_threads sv \<le> thread_capacity sv \<and> queue_ok sv \<and>
     (0 < queue_depth sv \<longrightarrow> active_threads sv = thread_capacity sv \<or> 0 < w)"

lemma server_msg_mono: "server_msg k C m \<Longrightarrow> C \<subseteq> C' \<Longrightarrow> server_msg k C' m"
  by (induction k C m rule: server_msg.induct) auto

lemma start_processing_sends:
  assumes "start_processing_request smp a c k sv s = Some (sv', s')"
  obtains d where "s' = send [(d, k, ServerEvent (RequestCompleted (at_id a) (at_request_id a) c (at_payload a)))] s"
    "active_threads sv' = Suc (active_threads sv)" "thread_capacity sv' = thread_capacity sv"
    "queue sv' = queue sv"
  using assms by (auto simp: start_processing_request_def Let_def split: option.splits)

lemma dequeue_box:
  assumes "box.within q" "box_dequeue q = (Some i, q')"
  shows "box.within q' \<and> box_contents q = i # box_contents q'"
proof -
  have "box_ok q" using assms(1) by (simp add: box.within_def)
  from box.deq_ok [OF this assms(2)] box.deq_within [OF assms(1)] assms(2) show ?thesis by simp
qed

lemma dequeue_box_None:
  assumes "box.within q" "box_dequeue q = (None, q')"
  shows "q' = q \<and> box_len q = 0"
proof -
  have "box_ok q" using assms(1) by (simp add: box.within_def)
  from box.deq_ok [OF this assms(2)] box.len_contents [of q] show ?thesis by simp
qed

lemma enqueue_box:
  assumes "box.within q" "box_enqueue i q = (r, q')"
  shows "box.within q'" "case r of Inr _ \<Rightarrow> set (box_contents q') = insert i (set (box_contents q)) | Inl _ \<Rightarrow> q' = q"
proof -
  have ok: "box_ok q" using assms(1) by (simp add: box.within_def)
  show "box.within q'" using box.enq_within [OF assms(1), of i] assms(2) by simp
  show "case r of Inr _ \<Rightarrow> set (box_contents q') = insert i (set (box_contents q)) | Inl _ \<Rightarrow> q' = q"
    using box.enq_full [of q i] box.enq_ok [OF ok _ assms(2)] assms(2)
    by (cases "len_is_full (box_capacity q) (box_len q)") auto
qed

lemma process_queued_sends:
  assumes "process_queued_requests smp k sv s = Some (sv', s')" "queue_ok sv"
    and "active_threads sv \<le> thread_capacity sv"
  shows "\<exists>ms. s' = send ms s \<and> (\<forall>m\<in>set ms. server_msg k (insert nil_uuid (queue_clients sv)) m) \<and>
    msg_count (completion k) ms = active_threads sv' - active_threads sv \<and>
    active_threads sv \<le> active_threads sv' \<and> active_threads sv' \<le> thread_capacity sv' \<and>
    queue_clients sv' \<subseteq> queue_clients sv \<and> queue_ok sv' \<and>
    (0 < queue_depth sv' \<longrightarrow> active_threads sv' = thread_capacity sv')"
  using assms
proof (induction smp k sv s rule: process_queued_requests.induct)
  case (1 smp k sv s)
  show ?case
  proof (cases "has_capacity sv \<and> queue sv \<noteq> None \<and> fst (box_dequeue (the (queue sv))) \<noteq> None")
    case False
    then have "sv' = sv \<and> s' = s" "has_capacity sv \<longrightarrow> queue_depth sv = 0"
      using "1.prems"(1,2) dequeue_box_None
      by (auto simp: process_queued_requests.simps [of smp k sv] Let_def queue_ok_def queue_depth_def
          split: if_splits option.splits prod.splits)
    with 1 show ?thesis
      by (intro exI [of _ "[]"]) (auto simp: has_capacity_def)
  next
    case True
    then obtain q i q' where q: "queue sv = Some q" "box_dequeue q = (Some i, q')" and cap: "has_capacity sv"
      by (metis fst_conv not_None_eq option.sel surj_pair)
    let ?c = "case client_id i of Some c \<Rightarrow> c | None \<Rightarrow> nil_uuid"
    let ?sv = "sv\<lparr>queue := Some q'\<rparr>"
    from "1.prems"(1) cap q obtain sv1 s1 where
      st: "start_processing_request smp (qi_attempt i) ?c k ?sv s = Some (sv1, s1)"
      and rest: "process_queued_requests smp k sv1 s1 = Some (sv', s')"
      by (auto simp: process_queued_requests.simps [of smp k sv] Let_def split: option.splits)
    have b: "box.within q'" "box_contents q = i # box_contents q'"
      using dequeue_box [OF _ q(2)] "1.prems"(2) q(1) by (simp_all add: queue_ok_def)
    from start_processing_sends [OF st] obtain d where s1: "s1 = send [(d, k, ServerEvent (RequestCompleted
        (at_id (qi_attempt i)) (at_request_id (qi_attempt i)) ?c (at_payload (qi_attempt i))))] s"
      and sv1: "active_threads sv1 = Suc (active_threads sv)" "thread_capacity sv1 = thread_capacity sv"
        "queue sv1 = Some q'" by auto
    have qc: "queue_clients sv1 \<subseteq> queue_clients sv" "?c \<in> insert nil_uuid (queue_clients sv)"
      using b q sv1 by (auto simp: queue_clients_def split: option.splits)
    have "queue_ok sv1" "active_threads sv1 \<le> thread_capacity sv1"
      using b sv1 cap by (simp_all add: queue_ok_def has_capacity_def)
    with "1.IH" [of "(Some i, ?sv)" "Some i" ?sv i ?c "(sv1, s1)" sv1 s1] cap q st rest
    obtain ms where ms: "s' = send ms s1" "\<forall>m\<in>set ms. server_msg k (insert nil_uuid (queue_clients sv1)) m"
      "msg_count (completion k) ms = active_threads sv' - active_threads sv1"
      "active_threads sv1 \<le> active_threads sv'" "active_threads sv' \<le> thread_capacity sv'"
      "queue_clients sv' \<subseteq> queue_clients sv1" "queue_ok sv'"
      "0 < queue_depth sv' \<longrightarrow> active_threads sv' = thread_capacity sv'"
      by auto
    let ?m = "(d, k, ServerEvent (RequestCompleted (at_id (qi_attempt i)) (at_request_id (qi_attempt i)) ?c
       (at_payload (qi_attempt i))))"
    have "s' = send (?m # ms) s" using ms(1) s1 by simp
    moreover have "\<forall>m\<in>set (?m # ms). server_msg k (insert nil_uuid (queue_clients sv)) m"
      using ms(2) qc(2) server_msg_mono [OF _ insert_mono [OF qc(1)]]
      unfolding list.set ball_simps server_msg.simps by blast
    moreover have "msg_count (completion k) (?m # ms) = active_threads sv' - active_threads sv"
      using ms(3,4) sv1 by simp
    ultimately show ?thesis
      using ms sv1 qc by (intro exI [of _ "?m # ms"]) auto
  qed
qed

lemma process_queued_ok:
  assumes "process_queued_requests smp k sv s = Some (sv', s')"
    and "server_ok (pending (completion k) s) w sv"
  shows "\<exists>ms. s' = send ms s \<and> (\<forall>m\<in>set ms. server_msg k (insert nil_uuid (queue_clients sv)) m) \<and>
    queue_clients sv' \<subseteq> queue_clients sv \<and>
    server_ok (pending (completion k) s') (pending (wakeup k) s') sv'"
  using process_queued_sends [OF assms(1)] assms(2)
  by (auto simp: server_ok_def pending_send)

lemma reject_request_ok:
  assumes "reject_request a c sv s = (sv', s')" "server_ok (pending (completion k) s) (pending (wakeup k) s) sv"
  shows "\<exists>ms. s' = send ms s \<and> (\<forall>m\<in>set ms. server_msg k {c} m) \<and> queue sv' = queue sv \<and>
    server_ok (pending (completion k) s') (pending (wakeup k) s') sv'"
  using assms
  by (intro exI [of _ "[(from_duration (duration_from_millis 1), c, ClientEvent (ResponseReceived
        (response_error (at_id a) (at_request_id a) (time s) 503 ''Server overloaded'')))]"])
    (auto simp: reject_request_def Let_def server_ok_def queue_ok_def queue_depth_def)

lemma handle_request_ok:
  assumes "handle_request smp a c k sv s = Some (sv', s')"
    and "server_ok (pending (completion k) s) (pending (wakeup k) s) sv"
  shows "\<exists>ms. s' = send ms s \<and> (\<forall>m\<in>set ms. server_msg k {c} m) \<and>
    queue_clients sv' \<subseteq> insert c (queue_clients sv) \<and>
    server_ok (pending (completion k) s') (pending (wakeup k) s') sv'"
proof (cases "has_capacity sv")
  case True
  with assms(1) have st: "start_processing_request smp a c k sv s = Some (sv', s')"
    by (simp add: handle_request_def)
  from start_processing_sends [OF st] obtain d where
    s': "s' = send [(d, k, ServerEvent (RequestCompleted (at_id a) (at_request_id a) c (at_payload a)))] s"
    and sv': "active_threads sv' = Suc (active_threads sv)" "thread_capacity sv' = thread_capacity sv"
      "queue sv' = queue sv" by auto
  then show ?thesis
    using assms(2) True
    by (intro exI [of _ "[(d, k, ServerEvent (RequestCompleted (at_id a) (at_request_id a) c (at_payload a)))]"])
      (auto simp: server_ok_def queue_ok_def queue_depth_def has_capacity_def queue_clients_def)
next
  case False
  show ?thesis
  proof (cases "queue sv")
    case None
    with False assms(1) have "reject_request a c sv s = (sv', s')"
      by (simp add: handle_request_def)
    from reject_request_ok [OF this assms(2)] show ?thesis
      by (auto simp: queue_clients_def)
  next
    case (Some q)
    obtain r q' where e: "box_enqueue (with_client_id a (time s) c) q = (r, q')" by fastforce
    have w: "box.within q" using assms(2) Some by (simp add: server_ok_def queue_ok_def)
    note q' = enqueue_box [OF w e]
    show ?thesis
    proof (cases r)
      case (Inl err)
      then have q: "q' = q" using q'(2) by simp
      have "reject_request a c (sv\<lparr>queue := Some q'\<rparr>) s = (sv', s')"
        using assms(1) False Some e Inl by (simp add: handle_request_def)
      moreover have "sv\<lparr>queue := Some q'\<rparr> = sv" using Some q by simp
      ultimately show ?thesis
        using reject_request_ok [of a c sv s sv' s' k] assms(2) by (auto simp: queue_clients_def)
    next
      case (Inr u)
      then have sv': "s' = s" "sv' = sv\<lparr>queue := Some q', requests_queued := requests_queued sv + 1\<rparr>"
        using assms(1) False Some e by (simp_all add: handle_request_def)
      have "queue_clients sv' \<subseteq> insert c (queue_clients sv)"
        using q'(2) Inr Some by (auto simp: sv' queue_clients_def with_client_id_def)
      then show ?thesis
        using assms(2) q'(1) False
        by (intro exI [of _ "[]"]) (auto simp: sv' server_ok_def queue_ok_def has_capacity_def)
    qed
  qed
qed

lemma complete_request_ok:
  assumes "complete_request ai ri c p k sv s = (sv', s')"
    and "server_ok (Suc (pending (completion k) s)) (pending (wakeup k) s) sv"
  shows "\<exists>ms. s' = send ms s \<and> (\<forall>m\<in>set ms. server_msg k {c} m) \<and> queue sv' = queue sv \<and>
    server_ok (pending (completion k) s') (pending (wakeup k) s') sv'"
proof -
  let ?sv = "sv\<lparr>active_threads := active_threads sv - 1, requests_processed := requests_processed sv + 1\<rparr>"
  let ?r = "(from_duration (duration_from_millis 1), c,
    ClientEvent (ResponseReceived (response_success ai ri (time s) p)))"
  let ?ms = "if has_capacity ?sv \<and> 0 < queue_depth ?sv
    then [?r, (from_duration (duration_from_millis 0), k, ServerEvent ProcessQueuedRequests)] else [?r]"
  have "sv' = ?sv \<and> s' = send ?ms s"
    using assms(1) by (auto simp: complete_request_def Let_def)
  then show ?thesis
    using assms(2) by (intro exI [of _ ?ms])
      (auto simp: server_ok_def queue_ok_def queue_depth_def has_capacity_def)
qed

definition is_completed :: "server_event \<Rightarrow> nat" where
  "is_completed ev = (case ev of RequestCompleted _ _ _ _ \<Rightarrow> 1 | _ \<Rightarrow> 0)"

definition is_wakeup :: "server_event \<Rightarrow> nat" where
  "is_wakeup ev = (case ev of ProcessQueuedRequests \<Rightarrow> 1 | _ \<Rightarrow> 0)"

lemma server_step_ok:
  assumes "server_process_event smp k ev sv s = Some (sv', s')"
    and "server_ok (pending (completion k) s + is_completed ev) (pending (wakeup k) s + is_wakeup ev) sv"
  shows "\<exists>ms. s' = send ms s \<and>
    (\<forall>m\<in>set ms. server_msg k (insert nil_uuid (event_clients ev \<union> queue_clients sv)) m) \<and>
    queue_clients sv' \<subseteq> event_clients ev \<union> queue_clients sv \<and>
    server_ok (pending (completion k) s') (pending (wakeup k) s') sv'"
proof (cases ev)
  case (ProcessRequest a c)
  with assms handle_request_ok [of smp a c k sv s sv' s'] show ?thesis
    by (fastforce simp: is_completed_def is_wakeup_def intro: server_msg_mono)
next
  case (RequestCompleted ai ri c p)
  with assms complete_request_ok [of ai ri c p k sv s sv' s'] show ?thesis
    by (fastforce simp: is_completed_def is_wakeup_def queue_clients_def intro: server_msg_mono)
next
  case ProcessQueuedRequests
  with assms process_queued_ok [of smp k sv s sv' s'] show ?thesis
    by (fastforce simp: is_completed_def is_wakeup_def intro: server_msg_mono)
qed

end
