(* ===== verification/Retry_Policy.thy ===== *)
theory Retry_Policy
  imports Request
begin

unbundle bit_operations_syntax

text \<open>
  \<open>des-components/src/retry_policy.rs\<close>: the retry policies of clients. The trait is the
  locale \<open>retry_policy\<close>, with the five policies as interpretations. Floating-point
  arithmetic (\<open>f64\<close>) is a type \<open>'f\<close> with its operations in the record \<open>f64\<close>, and the
  random generator of the crate \<open>rand\<close> a type \<open>'r\<close>: no theorem depends on how they
  compute. Attempt counters are natural numbers; token counts are 32-bit words.
\<close>

section \<open>Floating-point operations\<close>

record 'f f64 =
  f_of_nat :: "nat \<Rightarrow> 'f"
  f_mul :: "'f \<Rightarrow> 'f \<Rightarrow> 'f"
  f_div :: "'f \<Rightarrow> 'f \<Rightarrow> 'f"
  f_powi :: "'f \<Rightarrow> 32 word \<Rightarrow> 'f"
  f_less :: "'f \<Rightarrow> 'f \<Rightarrow> bool"
  f_clamp :: "'f \<Rightarrow> 'f \<Rightarrow> 'f \<Rightarrow> 'f"
  f_secs :: "duration \<Rightarrow> 'f"
  f_to_u64 :: "'f \<Rightarrow> u64"
  f_to_u32 :: "'f \<Rightarrow> u32"

text \<open>\<open>Duration::from_millis((d.as_millis() as f64 * x) as u64)\<close>.\<close>

definition scale_millis :: "'f f64 \<Rightarrow> duration \<Rightarrow> 'f \<Rightarrow> duration" where
  "scale_millis F d x =
     duration_from_millis (unat (f_to_u64 F (f_mul F (f_of_nat F (duration_as_millis d)) x)))"

text \<open>A response that does not rule out a retry: an error, or none at all (a timeout).\<close>

definition is_retryable :: "response option \<Rightarrow> bool" where
  "is_retryable r = (case r of Some resp \<Rightarrow> \<not> response_is_success resp | None \<Rightarrow> True)"

section \<open>Exponential backoff\<close>

record ('f, 'r) exponential_backoff =
  eb_max_attempts :: nat
  eb_current_attempt :: nat
  eb_base_delay :: duration
  multiplier :: 'f
  max_delay :: duration
  jitter :: bool
  rng :: 'r

definition exponential_backoff_new ::
  "'f f64 \<Rightarrow> nat \<Rightarrow> duration \<Rightarrow> 'r \<Rightarrow> ('f, 'r) exponential_backoff"
where
  "exponential_backoff_new F attempts base r =
     \<lparr>eb_max_attempts = attempts, eb_current_attempt = 0, eb_base_delay = base,
      multiplier = f_of_nat F 2, max_delay = duration_from_millis 60000, jitter = False, rng = r\<rparr>"

definition eb_with_seed ::
  "'f f64 \<Rightarrow> (u64 \<Rightarrow> 'r) \<Rightarrow> nat \<Rightarrow> duration \<Rightarrow> u64 \<Rightarrow> ('f, 'r) exponential_backoff"
where
  "eb_with_seed F seed_from_u64 attempts base seed =
     \<lparr>eb_max_attempts = attempts, eb_current_attempt = 0, eb_base_delay = base,
      multiplier = f_of_nat F 2, max_delay = duration_from_millis 60000, jitter = False,
      rng = seed_from_u64 seed\<rparr>"

definition from_config ::
  "'f f64 \<Rightarrow> (u64 \<Rightarrow> 'r) \<Rightarrow> u64 \<Rightarrow> nat \<Rightarrow> duration \<Rightarrow> ('f, 'r) exponential_backoff"
where
  "from_config F seed_from_u64 config_seed attempts base =
     (let seed = config_seed XOR 0xE4E44E4E0606070B;
          seed = seed XOR word_of_nat (duration_as_millis base)
      in eb_with_seed F seed_from_u64 attempts base seed)"

definition with_multiplier ::
  "'f \<Rightarrow> ('f, 'r) exponential_backoff \<Rightarrow> ('f, 'r) exponential_backoff"
where
  "with_multiplier m self = self\<lparr>multiplier := m\<rparr>"

definition with_max_delay ::
  "duration \<Rightarrow> ('f, 'r) exponential_backoff \<Rightarrow> ('f, 'r) exponential_backoff"
where
  "with_max_delay d self = self\<lparr>max_delay := d\<rparr>"

definition with_jitter :: "bool \<Rightarrow> ('f, 'r) exponential_backoff \<Rightarrow> ('f, 'r) exponential_backoff" where
  "with_jitter j self = self\<lparr>jitter := j\<rparr>"

text \<open>\<open>draw\<close> is \<open>rng.gen_range(0.75..=1.25)\<close>.\<close>

definition eb_calculate_delay ::
  "'f f64 \<Rightarrow> ('r \<Rightarrow> 'f \<times> 'r) \<Rightarrow> ('f, 'r) exponential_backoff
    \<Rightarrow> duration \<times> ('f, 'r) exponential_backoff"
where
  "eb_calculate_delay F draw self =
     (let delay = min (scale_millis F (eb_base_delay self)
                         (f_powi F (multiplier self) (word_of_nat (eb_current_attempt self - 1))))
                    (max_delay self)
      in if jitter self
         then (let (jitter_factor, r) = draw (rng self)
               in (scale_millis F delay jitter_factor, self\<lparr>rng := r\<rparr>))
         else (delay, self))"

definition eb_should_retry ::
  "'f f64 \<Rightarrow> ('r \<Rightarrow> 'f \<times> 'r) \<Rightarrow> ('f, 'r) exponential_backoff \<Rightarrow> request_attempt
    \<Rightarrow> response option \<Rightarrow> duration option \<times> ('f, 'r) exponential_backoff"
where
  "eb_should_retry F draw self attempt response =
     (let self = self\<lparr>eb_current_attempt := eb_current_attempt self + 1\<rparr>
      in if eb_max_attempts self < eb_current_attempt self \<or> \<not> is_retryable response
         then (None, self)
         else (let (delay, self) = eb_calculate_delay F draw self in (Some delay, self)))"

definition eb_reset :: "('f, 'r) exponential_backoff \<Rightarrow> ('f, 'r) exponential_backoff" where
  "eb_reset self = self\<lparr>eb_current_attempt := 0\<rparr>"

section \<open>Token bucket\<close>

record 'f token_bucket =
  tb_max_attempts :: nat
  tb_current_attempt :: nat
  max_tokens :: u32
  current_tokens :: u32
  refill_rate :: 'f
  last_refill :: "simtime option"
  tb_base_delay :: duration

definition token_bucket_new :: "nat \<Rightarrow> u32 \<Rightarrow> 'f \<Rightarrow> 'f token_bucket" where
  "token_bucket_new attempts tokens rate =
     \<lparr>tb_max_attempts = attempts, tb_current_attempt = 0, max_tokens = tokens,
      current_tokens = tokens, refill_rate = rate, last_refill = None,
      tb_base_delay = duration_from_millis 100\<rparr>"

definition with_base_delay :: "duration \<Rightarrow> 'f token_bucket \<Rightarrow> 'f token_bucket" where
  "with_base_delay d self = self\<lparr>tb_base_delay := d\<rparr>"

text \<open>The sum of tokens wraps when overflow checks are off.\<close>

definition refill_tokens :: "'f f64 \<Rightarrow> simtime \<Rightarrow> 'f token_bucket \<Rightarrow> 'f token_bucket" where
  "refill_tokens F current_time self =
     (case last_refill self of
        Some since \<Rightarrow>
          (let elapsed = duration_since current_time since;
               tokens_to_add = f_to_u32 F (f_mul F (f_secs F elapsed) (refill_rate self))
           in if 0 < tokens_to_add
              then self\<lparr>current_tokens := min (current_tokens self + tokens_to_add) (max_tokens self),
                        last_refill := Some current_time\<rparr>
              else self)
      | None \<Rightarrow> self\<lparr>last_refill := Some current_time\<rparr>)"

definition try_consume_token :: "'f f64 \<Rightarrow> simtime \<Rightarrow> 'f token_bucket \<Rightarrow> bool \<times> 'f token_bucket" where
  "try_consume_token F current_time self =
     (let self = refill_tokens F current_time self
      in if 0 < current_tokens self
         then (True, self\<lparr>current_tokens := current_tokens self - 1\<rparr>)
         else (False, self))"

definition tb_should_retry ::
  "'f f64 \<Rightarrow> 'f token_bucket \<Rightarrow> request_attempt \<Rightarrow> response option \<Rightarrow> duration option \<times> 'f token_bucket"
where
  "tb_should_retry F self attempt response =
     (let self = self\<lparr>tb_current_attempt := tb_current_attempt self + 1\<rparr>
      in if tb_max_attempts self < tb_current_attempt self then (None, self)
         else if (case response of Some resp \<Rightarrow> response_is_success resp | None \<Rightarrow> False)
         then (None, self)
         else (case try_consume_token F (at_started_at attempt) self of
                 (True, self) \<Rightarrow> (Some 0, self)
               | (False, self) \<Rightarrow> (Some (tb_base_delay self), self)))"

definition tb_reset :: "'f token_bucket \<Rightarrow> 'f token_bucket" where
  "tb_reset self = self\<lparr>tb_current_attempt := 0\<rparr>"

section \<open>Success-based retries\<close>

record 'f success_based =
  sb_max_attempts :: nat
  sb_current_attempt :: nat
  sb_base_delay :: duration
  window_size :: nat
  recent_outcomes :: "bool list"
  min_success_rate :: 'f
  failure_multiplier :: 'f

text \<open>\<open>half\<close> and \<open>three\<close> are the constants 0.5 and 3.0.\<close>

definition success_based_new :: "'f \<Rightarrow> 'f \<Rightarrow> nat \<Rightarrow> duration \<Rightarrow> nat \<Rightarrow> 'f success_based" where
  "success_based_new half three attempts base window =
     \<lparr>sb_max_attempts = attempts, sb_current_attempt = 0, sb_base_delay = base,
      window_size = window, recent_outcomes = [], min_success_rate = half,
      failure_multiplier = three\<rparr>"

definition with_min_success_rate :: "'f f64 \<Rightarrow> 'f \<Rightarrow> 'f success_based \<Rightarrow> 'f success_based" where
  "with_min_success_rate F x self = self\<lparr>min_success_rate := f_clamp F x (f_of_nat F 0) (f_of_nat F 1)\<rparr>"

definition with_failure_multiplier :: "'f \<Rightarrow> 'f success_based \<Rightarrow> 'f success_based" where
  "with_failure_multiplier x self = self\<lparr>failure_multiplier := x\<rparr>"

definition record_outcome :: "bool \<Rightarrow> 'f success_based \<Rightarrow> 'f success_based" where
  "record_outcome success self =
     (let outcomes = recent_outcomes self @ [success]
      in self\<lparr>recent_outcomes :=
                 (if window_size self < length outcomes then tl outcomes else outcomes)\<rparr>)"

definition success_rate :: "'f f64 \<Rightarrow> 'f success_based \<Rightarrow> 'f" where
  "success_rate F self =
     (if recent_outcomes self = [] then f_of_nat F 1
      else f_div F (f_of_nat F (length (filter (\<lambda>x. x) (recent_outcomes self))))
                   (f_of_nat F (length (recent_outcomes self))))"

definition sb_calculate_delay :: "'f f64 \<Rightarrow> 'f success_based \<Rightarrow> duration" where
  "sb_calculate_delay F self =
     (if f_less F (success_rate F self) (min_success_rate self)
      then scale_millis F (sb_base_delay self) (failure_multiplier self)
      else sb_base_delay self)"

definition sb_should_retry ::
  "'f f64 \<Rightarrow> 'f success_based \<Rightarrow> request_attempt \<Rightarrow> response option \<Rightarrow> duration option \<times> 'f success_based"
where
  "sb_should_retry F self attempt response =
     (let self = self\<lparr>sb_current_attempt := sb_current_attempt self + 1\<rparr>
      in if sb_max_attempts self < sb_current_attempt self then (None, self)
         else if (case response of Some resp \<Rightarrow> response_is_success resp | None \<Rightarrow> False)
         then (None, self)
         else (Some (sb_calculate_delay F self), self))"

definition sb_reset :: "'f success_based \<Rightarrow> 'f success_based" where
  "sb_reset self = self\<lparr>sb_current_attempt := 0\<rparr>"

section \<open>No retries and fixed retries\<close>

datatype no_retry = NoRetryPolicy

definition nr_should_retry ::
  "no_retry \<Rightarrow> request_attempt \<Rightarrow> response option \<Rightarrow> duration option \<times> no_retry"
where
  "nr_should_retry self attempt response = (None, self)"

definition nr_max_attempts :: "no_retry \<Rightarrow> nat" where
  "nr_max_attempts self = 1"

record fixed_retry =
  fr_max_attempts :: nat
  fr_current_attempt :: nat
  retry_delay :: duration

definition fixed_retry_new :: "nat \<Rightarrow> duration \<Rightarrow> fixed_retry" where
  "fixed_retry_new attempts delay =
     \<lparr>fr_max_attempts = attempts, fr_current_attempt = 0, retry_delay = delay\<rparr>"

definition fr_should_retry ::
  "fixed_retry \<Rightarrow> request_attempt \<Rightarrow> response option \<Rightarrow> duration option \<times> fixed_retry"
where
  "fr_should_retry self attempt response =
     (let self = self\<lparr>fr_current_attempt := fr_current_attempt self + 1\<rparr>
      in if fr_max_attempts self < fr_current_attempt self \<or> \<not> is_retryable response
         then (None, self)
         else (Some (retry_delay self), self))"

definition fr_reset :: "fixed_retry \<Rightarrow> fixed_retry" where
  "fr_reset self = self\<lparr>fr_current_attempt := 0\<rparr>"

section \<open>The contract of a retry policy\<close>

text \<open>What a policy answers on a sequence of failures, and how often it grants a retry.\<close>

fun answers ::
  "('p \<Rightarrow> request_attempt \<Rightarrow> response option \<Rightarrow> duration option \<times> 'p) \<Rightarrow> 'p
    \<Rightarrow> (request_attempt \<times> response option) list \<Rightarrow> duration option list"
where
  "answers sr p [] = []"
| "answers sr p ((a, r) # xs) = (let (d, p) = sr p a r in d # answers sr p xs)"

definition granted :: "duration option list \<Rightarrow> nat" where
  "granted ds = length (filter (\<lambda>d. d \<noteq> None) ds)"

lemma granted_simps [simp]:
  "granted [] = 0" "granted (None # ds) = granted ds" "granted (Some d # ds) = Suc (granted ds)"
  by (simp_all add: granted_def)

text \<open>
  Every policy has a budget: \<open>used\<close> counts the retries granted since the last reset, at most
  \<open>max_attempts\<close> of them, and a successful response is never retried.
\<close>

locale retry_policy =
  fixes should_retry :: "'p \<Rightarrow> request_attempt \<Rightarrow> response option \<Rightarrow> duration option \<times> 'p"
    and reset :: "'p \<Rightarrow> 'p"
    and max_attempts :: "'p \<Rightarrow> nat"
    and used :: "'p \<Rightarrow> nat"
  assumes grant: "should_retry p a r = (Some d, p') \<Longrightarrow> used p < used p' \<and> used p' \<le> max_attempts p"
    and deny: "should_retry p a r = (None, p') \<Longrightarrow> used p \<le> used p'"
    and same_max: "should_retry p a r = (x, p') \<Longrightarrow> max_attempts p' = max_attempts p"
    and reset: "used (reset p) = 0" "max_attempts (reset p) = max_attempts p"
    and success: "response_is_success resp \<Longrightarrow> fst (should_retry p a (Some resp)) = None"
begin

lemma granted_le: "granted (answers should_retry p xs) + used p \<le> max (used p) (max_attempts p)"
proof (induction xs arbitrary: p)
  case (Cons x xs)
  obtain a r where x: "x = (a, r)" by fastforce
  obtain d p' where s: "should_retry p a r = (d, p')" by fastforce
  have "granted (answers should_retry p' xs) + used p' \<le> max (used p') (max_attempts p)"
    using Cons.IH [of p'] same_max [OF s] by simp
  with s x grant [of p a r _ p'] deny [of p a r p'] show ?case
    by (cases d) fastforce+
qed simp

lemma budget: "granted (answers should_retry (reset p) xs) \<le> max_attempts p"
  using granted_le [of "reset p" xs] reset [of p] by simp

end

interpretation exponential: retry_policy "eb_should_retry F draw" eb_reset eb_max_attempts
  "\<lambda>p. min (eb_current_attempt p) (eb_max_attempts p)"
  by unfold_locales
    (auto simp: eb_should_retry_def eb_calculate_delay_def eb_reset_def is_retryable_def Let_def
      split: if_splits prod.splits option.splits)

interpretation token: retry_policy "tb_should_retry F" tb_reset tb_max_attempts
  "\<lambda>p. min (tb_current_attempt p) (tb_max_attempts p)"
  by unfold_locales
    (auto simp: tb_should_retry_def try_consume_token_def refill_tokens_def tb_reset_def Let_def
      split: if_splits prod.splits option.splits)

interpretation success: retry_policy "sb_should_retry F" sb_reset sb_max_attempts
  "\<lambda>p. min (sb_current_attempt p) (sb_max_attempts p)"
  by unfold_locales
    (auto simp: sb_should_retry_def sb_reset_def Let_def split: if_splits prod.splits option.splits)

interpretation no_retry: retry_policy nr_should_retry "\<lambda>p. p" nr_max_attempts "\<lambda>p. 0"
  by unfold_locales (simp_all add: nr_should_retry_def)

interpretation fixed: retry_policy fr_should_retry fr_reset fr_max_attempts
  "\<lambda>p. min (fr_current_attempt p) (fr_max_attempts p)"
  by unfold_locales
    (auto simp: fr_should_retry_def fr_reset_def is_retryable_def Let_def
      split: if_splits prod.splits option.splits)

section \<open>Properties\<close>

text \<open>
  Whatever the responses and the arithmetic, each policy grants at most \<open>max_attempts\<close>
  retries between two resets.
\<close>

theorem retry_budget:
  "granted (answers (eb_should_retry F draw) (eb_reset eb) xs) \<le> eb_max_attempts eb
   \<and> granted (answers (tb_should_retry F) (tb_reset tb) xs) \<le> tb_max_attempts tb
   \<and> granted (answers (sb_should_retry F) (sb_reset sb) xs) \<le> sb_max_attempts sb
   \<and> granted (answers fr_should_retry (fr_reset fr) xs) \<le> fr_max_attempts fr
   \<and> granted (answers nr_should_retry nr xs) = 0"
proof -
  have "granted (answers nr_should_retry nr xs) = 0"
    by (induction xs) (auto simp: nr_should_retry_def)
  then show ?thesis
    by (simp add: exponential.budget token.budget success.budget fixed.budget)
qed

text \<open>
  Without jitter a delay never exceeds the cap; the bucket never overflows; the window never
  exceeds its size.
\<close>

lemma eb_delay_cap:
  "\<not> jitter eb \<Longrightarrow> eb_should_retry F draw eb a r = (Some d, eb') \<Longrightarrow> d \<le> max_delay eb"
  by (auto simp: eb_should_retry_def eb_calculate_delay_def Let_def split: if_splits)

lemma try_consume_token_max:
  assumes "current_tokens tb \<le> max_tokens tb"
  shows "current_tokens (snd (try_consume_token F t tb)) \<le> max_tokens tb"
proof -
  have "current_tokens (refill_tokens F t tb) \<le> max_tokens tb"
    using assms by (auto simp: refill_tokens_def Let_def split: option.splits)
  moreover have "x - 1 \<le> x" if "0 < x" for x :: u32
    using that by (simp add: word_le_nat_alt unat_minus_one)
  ultimately show ?thesis
    by (auto simp: try_consume_token_def Let_def intro: order_trans)
qed

lemma record_outcome_window:
  "length (recent_outcomes sb) \<le> window_size sb \<Longrightarrow>
   length (recent_outcomes (record_outcome b sb)) \<le> window_size (record_outcome b sb)"
  by (auto simp: record_outcome_def Let_def)

end
