(* ===== verification/Simple_Client.thy ===== *)
theory Simple_Client
  imports Server Retry_Policy
begin

text \<open>
  \<open>des-components/src/simple_client.rs\<close>: a client that sends requests to a server, with a
  timeout per attempt and a retry policy. The policy is a parameter: \<open>should_retry\<close> and
  \<open>reset\<close> of any implementation of the trait. The operations take the client and the
  scheduler and return both. Logging and metrics are left out.
\<close>

section \<open>State\<close>

record 'p client =
  cl_name :: str
  server_key :: uuid
  request_interval :: duration
  requests_sent :: u64
  max_requests :: "u64 option"
  next_request_id :: u64
  next_attempt_id :: u64
  cl_retry_policy :: 'p
  request_timeout :: duration
  active_requests :: "request_id \<rightharpoonup> request_attempt \<times> 'p"

definition client_new :: "str \<Rightarrow> uuid \<Rightarrow> duration \<Rightarrow> 'p \<Rightarrow> 'p client" where
  "client_new name server iv pol =
     \<lparr>cl_name = name, server_key = server, request_interval = iv, requests_sent = 0,
      max_requests = None, next_request_id = 1, next_attempt_id = 1, cl_retry_policy = pol,
      request_timeout = duration_from_millis 5000, active_requests = Map.empty\<rparr>"

definition with_max_requests :: "u64 \<Rightarrow> 'p client \<Rightarrow> 'p client" where
  "with_max_requests n self = self\<lparr>max_requests := Some n\<rparr>"

definition with_timeout :: "duration \<Rightarrow> 'p client \<Rightarrow> 'p client" where
  "with_timeout d self = self\<lparr>request_timeout := d\<rparr>"

definition request_text :: "request_id \<Rightarrow> str \<Rightarrow> str" where
  "request_text rid name = lit ''Request '' @ decimal (unat rid) @ lit '' from '' @ name"

section \<open>Operations\<close>

definition send_attempt ::
  "request_id \<Rightarrow> nat \<Rightarrow> uuid \<Rightarrow> 'p client \<Rightarrow> ('t, 'v, 'z) service_sched
    \<Rightarrow> request_attempt \<times> 'p client \<times> ('t, 'v, 'z) service_sched"
where
  "send_attempt rid attempt_number self_id self s =
     (let a_id = next_attempt_id self;
          self = self\<lparr>next_attempt_id := next_attempt_id self + 1\<rparr>;
          attempt = request_attempt_new a_id rid attempt_number (time s)
                      (request_text rid (cl_name self));
          s = schedule (from_duration (request_timeout self)) self_id
                (ClientEvent (RequestTimeout rid a_id)) s;
          s = schedule_now (server_key self) (ServerEvent (ProcessRequest attempt self_id)) s
      in (attempt, self, s))"

definition handle_response ::
  "('p \<Rightarrow> request_attempt \<Rightarrow> response option \<Rightarrow> duration option \<times> 'p) \<Rightarrow> response \<Rightarrow> uuid
    \<Rightarrow> 'p client \<Rightarrow> ('t, 'v, 'z) service_sched \<Rightarrow> 'p client \<times> ('t, 'v, 'z) service_sched"
where
  "handle_response should_retry response self_id self s =
     (let rid = rs_request_id response
      in case active_requests self rid of
           None \<Rightarrow> (self, s)
         | Some (attempt, pol) \<Rightarrow>
             (let self = self\<lparr>active_requests := (active_requests self)(rid := None)\<rparr>
              in if response_is_success response then (self, s)
                 else case should_retry pol attempt (Some response) of
                        (Some delay, pol) \<Rightarrow>
                          (self\<lparr>active_requests := (active_requests self)(rid \<mapsto> (attempt, pol))\<rparr>,
                           schedule (from_duration delay) self_id (ClientEvent (RetryRequest rid)) s)
                      | (None, _) \<Rightarrow> (self, s)))"

definition handle_timeout ::
  "('p \<Rightarrow> request_attempt \<Rightarrow> response option \<Rightarrow> duration option \<times> 'p) \<Rightarrow> request_id \<Rightarrow> attempt_id
    \<Rightarrow> uuid \<Rightarrow> 'p client \<Rightarrow> ('t, 'v, 'z) service_sched \<Rightarrow> 'p client \<times> ('t, 'v, 'z) service_sched"
where
  "handle_timeout should_retry rid a_id self_id self s =
     (case active_requests self rid of
        None \<Rightarrow> (self, s)
      | Some (attempt, pol) \<Rightarrow>
          if at_id attempt = a_id
          then (case should_retry pol attempt None of
                  (Some delay, pol) \<Rightarrow>
                    (self\<lparr>active_requests := (active_requests self)(rid \<mapsto> (attempt, pol))\<rparr>,
                     schedule (from_duration delay) self_id (ClientEvent (RetryRequest rid)) s)
                | (None, _) \<Rightarrow>
                    (self\<lparr>active_requests := (active_requests self)(rid := None)\<rparr>, s))
          else (self, s))"

definition handle_retry ::
  "request_id \<Rightarrow> uuid \<Rightarrow> 'p client \<Rightarrow> ('t, 'v, 'z) service_sched \<Rightarrow> 'p client \<times> ('t, 'v, 'z) service_sched"
where
  "handle_retry rid self_id self s =
     (case active_requests self rid of
        None \<Rightarrow> (self, s)
      | Some (attempt, pol) \<Rightarrow>
          (let self = self\<lparr>active_requests := (active_requests self)(rid := None)\<rparr>;
               (new_attempt, self, s) = send_attempt rid (at_number attempt + 1) self_id self s
           in (self\<lparr>active_requests := (active_requests self)(rid \<mapsto> (new_attempt, pol))\<rparr>, s)))"

definition send_request ::
  "('p \<Rightarrow> 'p) \<Rightarrow> uuid \<Rightarrow> 'p client \<Rightarrow> ('t, 'v, 'z) service_sched \<Rightarrow> 'p client \<times> ('t, 'v, 'z) service_sched"
where
  "send_request reset self_id self s =
     (let rid = next_request_id self;
          self = self\<lparr>next_request_id := next_request_id self + 1\<rparr>;
          pol = reset (cl_retry_policy self);
          (attempt, self, s) = send_attempt rid 1 self_id self s
      in (self\<lparr>active_requests := (active_requests self)(rid \<mapsto> (attempt, pol)),
               requests_sent := requests_sent self + 1\<rparr>, s))"

fun client_process_event ::
  "('p \<Rightarrow> request_attempt \<Rightarrow> response option \<Rightarrow> duration option \<times> 'p) \<Rightarrow> ('p \<Rightarrow> 'p) \<Rightarrow> uuid
    \<Rightarrow> client_event \<Rightarrow> 'p client \<Rightarrow> ('t, 'v, 'z) service_sched \<Rightarrow> 'p client \<times> ('t, 'v, 'z) service_sched"
where
  "client_process_event should_retry reset self_id SendRequest self s = send_request reset self_id self s"
| "client_process_event should_retry reset self_id (ResponseReceived response) self s =
     handle_response should_retry response self_id self s"
| "client_process_event should_retry reset self_id (RequestTimeout rid a_id) self s =
     handle_timeout should_retry rid a_id self_id self s"
| "client_process_event should_retry reset self_id (RetryRequest rid) self s =
     handle_retry rid self_id self s"

section \<open>Attempts stay within the budget of the policy\<close>

definition retry_event :: "uuid \<Rightarrow> request_id \<Rightarrow> uuid \<Rightarrow> service_event \<Rightarrow> bool" where
  "retry_event k rid = (\<lambda>k' ev. k' = k \<and> ev = ClientEvent (RetryRequest rid))"

lemma retry_event_simps [simp]:
  "retry_event k rid k' (ClientEvent (RetryRequest r)) \<longleftrightarrow> k' = k \<and> r = rid"
  "\<not> retry_event k rid k' (ClientEvent SendRequest)"
  "\<not> retry_event k rid k' (ClientEvent (ResponseReceived resp))"
  "\<not> retry_event k rid k' (ClientEvent (RequestTimeout r a))"
  "\<not> retry_event k rid k' (ServerEvent ev)"
  by (auto simp: retry_event_def)

text \<open>
  The messages of the client \<open>k\<close> of the server \<open>sk\<close>: timeouts and retries to itself,
  attempts with a number of at most \<open>b + 1\<close> to its server.
\<close>

fun client_msg :: "uuid \<Rightarrow> uuid \<Rightarrow> nat \<Rightarrow> service_event message \<Rightarrow> bool" where
  "client_msg k sk b (d, k', ServerEvent (ProcessRequest a c)) = (k' = sk \<and> c = k \<and> at_number a \<le> Suc b)"
| "client_msg k sk b (d, k', ClientEvent (RequestTimeout _ _)) = (k' = k)"
| "client_msg k sk b (d, k', ClientEvent (RetryRequest _)) = (k' = k)"
| "client_msg k sk b _ = False"

text \<open>
  The invariant after at most \<open>n\<close> requests, with \<open>retries rid\<close> pending retries of request
  \<open>rid\<close>: the attempts made and the retries under way are covered by what the policy of the
  request has granted.
\<close>

definition client_ok ::
  "('p \<Rightarrow> nat) \<Rightarrow> ('p \<Rightarrow> nat) \<Rightarrow> nat \<Rightarrow> (request_id \<Rightarrow> nat) \<Rightarrow> 'p client \<Rightarrow> bool"
where
  "client_ok maxa used n retries c \<longleftrightarrow>
     unat (next_request_id c) \<le> Suc n \<and>
     (\<forall>rid. 0 < retries rid \<longrightarrow> rid < next_request_id c) \<and>
     (\<forall>rid a p. active_requests c rid = Some (a, p) \<longrightarrow>
        rid < next_request_id c \<and> maxa p = maxa (cl_retry_policy c) \<and>
        at_number a + retries rid \<le> Suc (used p) \<and> used p \<le> maxa (cl_retry_policy c))"

lemma client_okD:
  assumes "client_ok maxa used n retries c" "active_requests c rid = Some (a, p)"
  shows "rid < next_request_id c" "maxa p = maxa (cl_retry_policy c)"
    "at_number a + retries rid \<le> Suc (used p)" "used p \<le> maxa (cl_retry_policy c)"
  using assms by (auto simp: client_ok_def)

lemma client_ok_Suc: "client_ok maxa used n retries c \<Longrightarrow> client_ok maxa used (Suc n) retries c"
  by (auto simp: client_ok_def)

lemma client_ok_remove:
  assumes "client_ok maxa used n retries c" "\<And>x. retries' x \<le> retries x"
  shows "client_ok maxa used n retries' (c\<lparr>active_requests := (active_requests c)(rid := None)\<rparr>)"
    "client_ok maxa used n retries' c"
proof -
  have "0 < retries x" if "0 < retries' x" for x
    using assms(2) [of x] that by linarith
  moreover have "m + retries' x \<le> Suc u" if "m + retries x \<le> Suc u" for m x u
    using assms(2) [of x] that by linarith
  ultimately show "client_ok maxa used n retries' (c\<lparr>active_requests := (active_requests c)(rid := None)\<rparr>)"
    "client_ok maxa used n retries' c"
    using assms(1) by (auto simp: client_ok_def)
qed

text \<open>An entry replaced, or added for an identifier below the next one.\<close>

lemma client_ok_update:
  assumes "client_ok maxa used n retries c" "rid < next_request_id c"
    and "\<And>x. x \<noteq> rid \<Longrightarrow> retries' x \<le> retries x"
    and "maxa p = maxa (cl_retry_policy c)" "at_number a + retries' rid \<le> Suc (used p)" "used p \<le> maxa (cl_retry_policy c)"
  shows "client_ok maxa used n retries' (c\<lparr>active_requests := (active_requests c)(rid \<mapsto> (a, p))\<rparr>)"
  unfolding client_ok_def
proof (intro conjI allI impI)
  fix x assume "0 < retries' x"
  then have "x = rid \<or> 0 < retries x"
    using assms(3) [of x] by fastforce
  then show "x < next_request_id (c\<lparr>active_requests := (active_requests c)(rid \<mapsto> (a, p))\<rparr>)"
    using assms(1,2) by (auto simp: client_ok_def)
next
  fix x b q
  assume x: "active_requests (c\<lparr>active_requests := (active_requests c)(rid \<mapsto> (a, p))\<rparr>) x = Some (b, q)"
  then show "at_number b + retries' x \<le> Suc (used q)"
    using assms(1,3,5) client_okD(3) [OF assms(1), of x b q]
    by (cases "x = rid") (auto intro: order_trans [OF add_left_mono])
qed (use assms(1,2,4,6) in \<open>auto simp: client_ok_def split: if_splits\<close>)

lemma send_attempt_sends:
  assumes "send_attempt rid n k c s = (a, c', s')"
  shows "at_number a = n" "c' = c\<lparr>next_attempt_id := next_attempt_id c + 1\<rparr>"
    "s' = send [(from_duration (request_timeout c), k, ClientEvent (RequestTimeout rid (next_attempt_id c))),
                (zero, server_key c, ServerEvent (ProcessRequest a k))] s"
  using assms by (auto simp: send_attempt_def Let_def request_attempt_new_def schedule_now_def)

definition retries_at :: "uuid \<Rightarrow> ('t, 'v, 'z) service_sched \<Rightarrow> request_id \<Rightarrow> nat" where
  "retries_at k s rid = pending (retry_event k rid) s"

text \<open>What every step of a client keeps and sends.\<close>

definition client_step ::
  "('p \<Rightarrow> nat) \<Rightarrow> ('p \<Rightarrow> nat) \<Rightarrow> nat \<Rightarrow> uuid \<Rightarrow> 'p client \<Rightarrow> ('t, 'v, 'z) service_sched
    \<Rightarrow> 'p client \<times> ('t, 'v, 'z) service_sched \<Rightarrow> bool"
where
  "client_step maxa used n k c s = (\<lambda>(c', s').
     (\<exists>ms. s' = send ms s \<and> (\<forall>m\<in>set ms. client_msg k (server_key c) (maxa (cl_retry_policy c)) m)) \<and>
     server_key c' = server_key c \<and> cl_retry_policy c' = cl_retry_policy c \<and>
     client_ok maxa used n (retries_at k s') c')"

lemma client_step_nothing:
  "client_ok maxa used n retries c \<Longrightarrow> (\<And>x. retries_at k s x \<le> retries x) \<Longrightarrow>
   client_step maxa used n k c s (c, s)"
  unfolding client_step_def by (auto intro: exI [of _ "[]"] client_ok_remove(2))

lemma client_step_same:
  "client_ok maxa used n (retries_at k s) c \<Longrightarrow> client_step maxa used n k c s (c, s)"
  by (rule client_step_nothing) auto

context retry_policy
begin

lemma grant_retry:
  assumes ok: "client_ok max_attempts used n (retries_at k s) c" "active_requests c rid = Some (a, p)"
    and g: "should_retry p a r = (Some d, p')"
  shows "client_step max_attempts used n k c s
    (c\<lparr>active_requests := (active_requests c)(rid \<mapsto> (a, p'))\<rparr>,
     schedule t k (ClientEvent (RetryRequest rid)) s)"
proof -
  note D = client_okD [OF ok]
  have "client_ok max_attempts used n (retries_at k (schedule t k (ClientEvent (RetryRequest rid)) s))
      (c\<lparr>active_requests := (active_requests c)(rid \<mapsto> (a, p'))\<rparr>)"
    by (rule client_ok_update [OF ok(1) D(1)])
      (use D(2,3) grant [OF g] same_max [OF g] in \<open>auto simp: retries_at_def\<close>)
  then show ?thesis
    unfolding client_step_def
    by (auto intro!: exI [of _ "[(t, k, ClientEvent (RetryRequest rid))]"])
qed

lemma handle_response_step:
  assumes "client_ok max_attempts used n (retries_at k s) c"
  shows "client_step max_attempts used n k c s (handle_response should_retry resp k c s)"
proof (cases "active_requests c (rs_request_id resp)")
  case None
  then show ?thesis
    using client_step_same [OF assms] by (simp add: handle_response_def)
next
  case (Some ap)
  obtain a p where ap: "ap = (a, p)" by fastforce
  obtain d p' where r: "should_retry p a (Some resp) = (d, p')" by fastforce
  have drop: "client_step max_attempts used n k c s
      (c\<lparr>active_requests := (active_requests c)(rs_request_id resp := None)\<rparr>, s)"
    unfolding client_step_def using client_ok_remove(1) [OF assms] by (auto intro: exI [of _ "[]"])
  show ?thesis
  proof (cases "response_is_success resp \<or> d = None")
    case True
    with drop Some ap r show ?thesis by (auto simp: handle_response_def Let_def)
  next
    case False
    then obtain t where "d = Some t" by auto
    with False grant_retry [OF assms, of "rs_request_id resp" a p "Some resp" t p'] Some ap r
    show ?thesis by (simp add: handle_response_def Let_def)
  qed
qed

lemma handle_timeout_step:
  assumes "client_ok max_attempts used n (retries_at k s) c"
  shows "client_step max_attempts used n k c s (handle_timeout should_retry rid ai k c s)"
proof (cases "active_requests c rid")
  case None
  then show ?thesis
    using client_step_same [OF assms] by (simp add: handle_timeout_def)
next
  case (Some ap)
  obtain a p where ap: "ap = (a, p)" by fastforce
  obtain d p' where r: "should_retry p a None = (d, p')" by fastforce
  have drop: "client_step max_attempts used n k c s
      (c\<lparr>active_requests := (active_requests c)(rid := None)\<rparr>, s)"
    unfolding client_step_def using client_ok_remove(1) [OF assms] by (auto intro: exI [of _ "[]"])
  show ?thesis
  proof (cases d)
    case None
    with drop Some ap r client_step_same [OF assms] show ?thesis
      by (simp add: handle_timeout_def)
  next
    case (Some t)
    with grant_retry [OF assms, of rid a p None t p'] \<open>active_requests c rid = Some ap\<close> ap r
      client_step_same [OF assms]
    show ?thesis by (simp add: handle_timeout_def)
  qed
qed

lemma handle_retry_step:
  assumes "client_ok max_attempts used n (\<lambda>x. retries_at k s x + (if x = rid then 1 else 0)) c"
  shows "client_step max_attempts used n k c s (handle_retry rid k c s)"
proof (cases "active_requests c rid")
  case None
  then show ?thesis
    using client_step_nothing [OF assms, of k s] by (simp add: handle_retry_def)
next
  case (Some ap)
  obtain a p where ap: "active_requests c rid = Some (a, p)" using Some by (cases ap) auto
  note D = client_okD [OF assms ap]
  let ?c = "c\<lparr>active_requests := (active_requests c)(rid := None)\<rparr>"
  obtain b c1 s1 where sa: "send_attempt rid (at_number a + 1) k ?c s = (b, c1, s1)"
    using prod_cases3 by blast
  note S = send_attempt_sends [OF sa]
  let ?ms = "[(from_duration (request_timeout c), k, ClientEvent (RequestTimeout rid (next_attempt_id c))),
     (zero, server_key c, ServerEvent (ProcessRequest b k))]"
  have s1: "s1 = send ?ms s" and r1: "retries_at k s1 = retries_at k s"
    using S(3) by (auto simp: retries_at_def)
  have "client_ok max_attempts used n (retries_at k s1)
      (c\<lparr>active_requests := (active_requests c)(rid \<mapsto> (b, p))\<rparr>)"
    by (rule client_ok_update [OF assms D(1)]) (use D(2,3,4) S(1) r1 in auto)
  then have ok: "client_ok max_attempts used n (retries_at k s1)
      (c1\<lparr>active_requests := (active_requests c1)(rid \<mapsto> (b, p))\<rparr>)"
    by (simp add: S(2) client_ok_def)
  have "\<forall>m\<in>set ?ms. client_msg k (server_key c) (max_attempts (cl_retry_policy c)) m"
    using D S(1) by simp
  then have "client_step max_attempts used n k c s
      (c1\<lparr>active_requests := (active_requests c1)(rid \<mapsto> (b, p))\<rparr>, s1)"
    unfolding client_step_def using ok s1 S(2) by (auto intro!: exI [of _ ?ms])
  then show ?thesis using sa ap by (simp add: handle_retry_def Let_def)
qed

lemma send_request_step:
  assumes "client_ok max_attempts used n (retries_at k s) c" "Suc (Suc n) < 2 ^ 64"
  shows "client_step max_attempts used (Suc n) k c s (send_request reset k c s)"
proof -
  let ?rid = "next_request_id c"
  let ?c = "c\<lparr>next_request_id := next_request_id c + 1\<rparr>"
  obtain b c1 s1 where sa: "send_attempt ?rid 1 k ?c s = (b, c1, s1)"
    using prod_cases3 by blast
  note S = send_attempt_sends [OF sa]
  let ?ms = "[(from_duration (request_timeout c), k, ClientEvent (RequestTimeout ?rid (next_attempt_id c))),
     (zero, server_key c, ServerEvent (ProcessRequest b k))]"
  have s1: "s1 = send ?ms s" and r1: "retries_at k s1 = retries_at k s"
    using S(3) by (auto simp: retries_at_def)
  have nid: "unat (next_request_id c + 1) = Suc (unat (next_request_id c))"
    using assms by (intro unat_Suc_word) (auto simp: client_ok_def unat_max)
  then have lt: "?rid < next_request_id c + 1" "x < ?rid \<Longrightarrow> x < next_request_id c + 1" for x
    by (simp_all add: word_less_nat_alt)
  have fresh: "retries_at k s ?rid = 0"
    using assms(1) by (auto simp: client_ok_def)
  have "client_ok max_attempts used (Suc n) (retries_at k s) ?c"
    using assms(1) lt nid by (auto simp: client_ok_def)
  then have "client_ok max_attempts used (Suc n) (retries_at k s1)
      (?c\<lparr>active_requests := (active_requests ?c)(?rid \<mapsto> (b, reset (cl_retry_policy c)))\<rparr>)"
    by (rule client_ok_update) (use lt fresh S(1) r1 reset [of "cl_retry_policy c"] in auto)
  then have ok: "client_ok max_attempts used (Suc n) (retries_at k s1)
      (c1\<lparr>active_requests := (active_requests c1)(?rid \<mapsto> (b, reset (cl_retry_policy c))),
          requests_sent := requests_sent c1 + 1\<rparr>)"
    by (simp add: S(2) client_ok_def)
  have "client_step max_attempts used (Suc n) k c s
      (c1\<lparr>active_requests := (active_requests c1)(?rid \<mapsto> (b, reset (cl_retry_policy c))),
          requests_sent := requests_sent c1 + 1\<rparr>, s1)"
    unfolding client_step_def using ok s1 S by (auto intro!: exI [of _ ?ms])
  then show ?thesis using sa by (simp add: send_request_def Let_def)
qed

lemma client_event_step:
  assumes "client_ok max_attempts used n
      (\<lambda>x. retries_at k s x + (if ev = RetryRequest x then 1 else 0)) c" "Suc (Suc n) < 2 ^ 64"
  shows "client_step max_attempts used (Suc n) k c s (client_process_event should_retry reset k ev c s)"
proof -
  have mono: "client_step max_attempts used (Suc n) k c s x" if "client_step max_attempts used n k c s x" for x
    using that by (auto simp: client_step_def intro: client_ok_Suc)
  show ?thesis
  proof (cases ev)
    case SendRequest
    with assms show ?thesis using send_request_step [of n k s c] by simp
  next
    case (ResponseReceived resp)
    with assms show ?thesis by (simp add: mono handle_response_step)
  next
    case (RequestTimeout rid ai)
    with assms show ?thesis by (simp add: mono handle_timeout_step)
  next
    case (RetryRequest rid)
    with assms show ?thesis by (simp add: mono handle_retry_step eq_commute)
  qed
qed

end

section \<open>No request is forgotten\<close>

definition timeout_event :: "uuid \<Rightarrow> request_id \<Rightarrow> attempt_id \<Rightarrow> uuid \<Rightarrow> service_event \<Rightarrow> bool" where
  "timeout_event k rid ai = (\<lambda>k' ev. k' = k \<and> ev = ClientEvent (RequestTimeout rid ai))"

definition timeouts_at :: "uuid \<Rightarrow> ('t, 'v, 'z) service_sched \<Rightarrow> request_id \<Rightarrow> attempt_id \<Rightarrow> nat" where
  "timeouts_at k s rid ai = pending (timeout_event k rid ai) s"

text \<open>Each active request has its timeout or a retry under way.\<close>

definition client_live ::
  "(request_id \<Rightarrow> nat) \<Rightarrow> (request_id \<Rightarrow> attempt_id \<Rightarrow> nat) \<Rightarrow> 'p client \<Rightarrow> bool"
where
  "client_live retries timeouts c \<longleftrightarrow>
     (\<forall>rid a p. active_requests c rid = Some (a, p) \<longrightarrow> 0 < retries rid + timeouts rid (at_id a))"

lemma at_schedule [simp]:
  "retries_at k (schedule d k' ev s) rid = retries_at k s rid + (if retry_event k rid k' ev then 1 else 0)"
  "timeouts_at k (schedule d k' ev s) rid ai =
     timeouts_at k s rid ai + (if timeout_event k rid ai k' ev then 1 else 0)"
  by (simp_all add: retries_at_def timeouts_at_def)

lemma send_attempt_live:
  "send_attempt rid n k c s = (a, c', s') \<Longrightarrow>
   0 < timeouts_at k s' rid (at_id a) \<and> active_requests c' = active_requests c \<and>
   (\<forall>x. retries_at k s x \<le> retries_at k s' x) \<and> (\<forall>x y. timeouts_at k s x y \<le> timeouts_at k s' x y)"
  by (auto simp: send_attempt_def Let_def request_attempt_new_def schedule_now_def timeout_event_def)

lemma client_live_upd:
  assumes "client_live r t c" "active_requests c' = (active_requests c)(rid := e)"
    and "\<And>x. x \<noteq> rid \<Longrightarrow> r x \<le> r' x" "\<And>x y. x \<noteq> rid \<Longrightarrow> t x y \<le> t' x y"
    and "\<And>a p. e = Some (a, p) \<Longrightarrow> 0 < r' rid + t' rid (at_id a)"
  shows "client_live r' t' c'"
  unfolding client_live_def
proof (intro allI impI)
  fix x a p assume x: "active_requests c' x = Some (a, p)"
  show "0 < r' x + t' x (at_id a)"
  proof (cases "x = rid")
    case False
    then have "0 < r x + t x (at_id a)"
      using x assms(1,2) by (simp add: client_live_def)
    also have "\<dots> \<le> r' x + t' x (at_id a)"
      using assms(3,4) [OF False] by (rule add_mono)
    finally show ?thesis .
  qed (use x assms(2,5) in simp)
qed

lemma client_live_same: "client_live r t c \<Longrightarrow> active_requests c' = active_requests c \<Longrightarrow> client_live r t c'"
  by (simp add: client_live_def)

lemma client_event_live:
  assumes live: "client_live (\<lambda>x. retries_at k s x + (if ev = RetryRequest x then 1 else 0))
      (\<lambda>x y. timeouts_at k s x y + (if ev = RequestTimeout x y then 1 else 0)) c"
    and step: "client_process_event should_retry reset k ev c s = (c', s')"
  shows "client_live (retries_at k s') (timeouts_at k s') c'"
proof (cases ev)
  case SendRequest
  let ?c = "c\<lparr>next_request_id := next_request_id c + 1\<rparr>"
  obtain a c1 s1 where sa: "send_attempt (next_request_id c) 1 k ?c s = (a, c1, s1)"
    using prod_cases3 by blast
  note S = send_attempt_live [OF sa]
  have "s' = s1" "active_requests c' = (active_requests c)(next_request_id c \<mapsto> (a, reset (cl_retry_policy c)))"
    using S step SendRequest sa by (auto simp: send_request_def Let_def)
  then show ?thesis
    by (intro client_live_upd [OF live]) (use S SendRequest in auto)
next
  case (ResponseReceived resp)
  let ?rid = "rs_request_id resp"
  have live': "client_live (retries_at k s) (timeouts_at k s) c"
    using live ResponseReceived by simp
  show ?thesis
  proof (cases "active_requests c ?rid")
    case None
    with step live' ResponseReceived show ?thesis by (simp add: handle_response_def)
  next
    case (Some ap)
    obtain a p where ap: "ap = (a, p)" by fastforce
    obtain d p' where r: "should_retry p a (Some resp) = (d, p')" by fastforce
    show ?thesis
    proof (cases "response_is_success resp \<or> d = None")
      case True
      then have "s' = s" "active_requests c' = (active_requests c)(?rid := None)"
        using step ResponseReceived Some ap r by (auto simp: handle_response_def Let_def split: if_splits)
      then show ?thesis by (intro client_live_upd [OF live']) auto
    next
      case False
      then obtain t where "s' = schedule t k (ClientEvent (RetryRequest ?rid)) s"
          "active_requests c' = (active_requests c)(?rid := Some (a, p'))"
        using step ResponseReceived Some ap r by (auto simp: handle_response_def Let_def)
      then show ?thesis by (intro client_live_upd [OF live']) auto
    qed
  qed
next
  case (RequestTimeout rid ai)
  show ?thesis
  proof (cases "\<exists>a p. active_requests c rid = Some (a, p) \<and> at_id a = ai")
    case True
    then obtain a p where ap: "active_requests c rid = Some (a, p)" "at_id a = ai" by blast
    obtain d p' where r: "should_retry p a None = (d, p')" by fastforce
    show ?thesis
    proof (cases d)
      case None
      then have "s' = s" "active_requests c' = (active_requests c)(rid := None)"
        using step RequestTimeout ap r by (auto simp: handle_timeout_def)
      then show ?thesis by (intro client_live_upd [OF live]) (auto simp: RequestTimeout)
    next
      case (Some t)
      then have "s' = schedule (from_duration t) k (ClientEvent (RetryRequest rid)) s"
          "active_requests c' = (active_requests c)(rid := Some (a, p'))"
        using step RequestTimeout ap r by (auto simp: handle_timeout_def)
      then show ?thesis by (intro client_live_upd [OF live]) (auto simp: RequestTimeout)
    qed
  next
    case False
    then have "s' = s" "c' = c"
      using step RequestTimeout by (auto simp: handle_timeout_def split: option.splits prod.splits if_splits)
    have "0 < retries_at k s x + timeouts_at k s x (at_id a)" if "active_requests c x = Some (a, p)" for x a p
    proof -
      have "\<not> (x = rid \<and> at_id a = ai)" using False that by blast
      moreover have "0 < retries_at k s x + (timeouts_at k s x (at_id a) + (if rid = x \<and> ai = at_id a then 1 else 0))"
        using live that RequestTimeout by (simp add: client_live_def)
      ultimately show ?thesis by (simp split: if_splits)
    qed
    with \<open>s' = s\<close> \<open>c' = c\<close> show ?thesis by (simp add: client_live_def)
  qed
next
  case (RetryRequest rid)
  show ?thesis
  proof (cases "active_requests c rid")
    case None
    then have "s' = s" "active_requests c' = (active_requests c)(rid := None)"
      using step RetryRequest by (auto simp: handle_retry_def)
    then show ?thesis
      by (intro client_live_upd [OF live]) (auto simp: RetryRequest)
  next
    case (Some ap)
    let ?c = "c\<lparr>active_requests := (active_requests c)(rid := None)\<rparr>"
    obtain a c1 s1 where sa: "send_attempt rid (at_number (fst ap) + 1) k ?c s = (a, c1, s1)"
      using prod_cases3 by blast
    note S = send_attempt_live [OF sa]
    have "s' = s1" "active_requests c' = (active_requests c)(rid \<mapsto> (a, snd ap))"
      using S step RetryRequest sa Some by (auto simp: handle_retry_def Let_def split_beta)
    then show ?thesis
      by (intro client_live_upd [OF live]) (use S RetryRequest in auto)
  qed
qed

end
