(* ===== verification/Service_System.thy ===== *)
theory Service_System
  imports Simple_Client
begin

text \<open>
  Servers and clients in one simulation. The components of \<open>des-components/src/server.rs\<close>
  and \<open>simple_client.rs\<close> exchange events through the scheduler of \<open>des-core\<close>; tasks
  generate the load, as the tests and examples do with a \<open>PeriodicTask\<close> that sends
  \<open>SendRequest\<close> to a client. The invariants of the components are lifted to the steps and
  runs of the simulation.
\<close>

section \<open>Composition\<close>

datatype ('d, 'p) service_component = ServerC "'d server" | ClientC "'p client"

text \<open>
  \<open>ProcessEventEntry::process_event_entry\<close> downcasts the event to the type of the component;
  a mismatch panics (\<open>None\<close>).
\<close>

fun service_handle ::
  "('d \<Rightarrow> duration \<times> 'd) \<Rightarrow> ('p \<Rightarrow> request_attempt \<Rightarrow> response option \<Rightarrow> duration option \<times> 'p)
    \<Rightarrow> ('p \<Rightarrow> 'p) \<Rightarrow> (('d, 'p) service_component, service_event, 't, 'v, 'z) handler"
where
  "service_handle smp should_retry reset (ServerC sv) k (ServerEvent ev) w =
     map_option (\<lambda>(sv, w). (ServerC sv, w)) (server_process_event smp k ev sv w)"
| "service_handle smp should_retry reset (ClientC c) k (ClientEvent ev) w =
     (let (c, w) = client_process_event should_retry reset k ev c w in Some (ClientC c, w))"
| "service_handle smp should_retry reset _ k _ w = None"

text \<open>The load: a task holds the key of a client and sends it \<open>SendRequest\<close> when it runs.\<close>

definition send_code :: "(service_event, uuid, unit, unit, 'z) user_code" where
  "send_code =
     \<lparr>run_closure = (\<lambda>c s. (AnyUnit, schedule_now c (ClientEvent SendRequest) s)),
      run_callback = (\<lambda>c s. schedule_now c (ClientEvent SendRequest) s),
      run_operation = (\<lambda>c s. (Inr (), schedule_now c (ClientEvent SendRequest) s)),
      default_task_id = 0\<rparr>"

lemma send_code_ok: "code_ok send_code"
  by (auto simp: code_ok_def send_code_def schedule_now_def intro: api_run_schedule)

lemma start_processing_api:
  "start_processing_request smp a c k sv s = Some (sv', s') \<Longrightarrow> api_run s s'"
  by (elim start_processing_sends) (simp only: api_run_send)

lemma process_queued_api: "process_queued_requests smp k sv s = Some (sv', s') \<Longrightarrow> api_run s s'"
proof (induction smp k sv s rule: process_queued_requests.induct)
  case (1 smp k sv s)
  show ?case
  proof (cases "has_capacity sv \<and> queue sv \<noteq> None \<and> fst (box_dequeue (the (queue sv))) \<noteq> None")
    case False
    with "1.prems" have "s' = s"
      by (auto simp: process_queued_requests.simps [of smp k sv] Let_def
          split: if_splits option.splits prod.splits)
    then show ?thesis by simp
  next
    case True
    then obtain q i q' where q: "queue sv = Some q" "box_dequeue q = (Some i, q')" and cap: "has_capacity sv"
      by (metis fst_conv not_None_eq option.sel surj_pair)
    let ?c = "case client_id i of Some c \<Rightarrow> c | None \<Rightarrow> nil_uuid"
    let ?sv = "sv\<lparr>queue := Some q'\<rparr>"
    from "1.prems" cap q obtain sv1 s1 where
      st: "start_processing_request smp (qi_attempt i) ?c k ?sv s = Some (sv1, s1)"
      and rest: "process_queued_requests smp k sv1 s1 = Some (sv', s')"
      by (auto simp: process_queued_requests.simps [of smp k sv] Let_def split: option.splits)
    have "api_run s1 s'"
      using "1.IH" [of "(Some i, ?sv)" "Some i" ?sv i ?c "(sv1, s1)" sv1 s1] cap q st rest by auto
    with start_processing_api [OF st] show ?thesis by simp
  qed
qed

lemma server_event_api:
  assumes "server_process_event smp k ev sv s = Some (sv', s')"
  shows "api_run s s'"
proof (cases ev)
  case (ProcessRequest a c)
  with assms show ?thesis
    by (auto simp: handle_request_def reject_request_def Let_def start_processing_api
        split: if_splits option.splits prod.splits sum.splits intro: api_run_schedule)
next
  case (RequestCompleted ai ri c p)
  with assms show ?thesis
    by (auto simp: complete_request_def Let_def intro!: api_run_schedule split: if_splits)
next
  case ProcessQueuedRequests
  with assms show ?thesis by (auto intro: process_queued_api)
qed

lemma client_event_api: "client_process_event should_retry reset k ev c s = (c', s') \<Longrightarrow> api_run s s'"
  by (cases ev)
    (auto simp: send_request_def handle_response_def handle_timeout_def handle_retry_def send_attempt_def
      schedule_now_def Let_def split: if_splits option.splits prod.splits intro!: api_run_schedule)

interpretation service: simulation_code "exec_task send_code" "service_handle smp should_retry reset"
proof (unfold_locales, goal_cases)
  case (1 w t)
  then show ?case using exec_task_run [OF send_code_ok, of w _ t] by auto
next
  case (2 c k ev w c' w')
  then show ?case
    by (cases "(smp, should_retry, reset, c, k, ev, w)" rule: service_handle.cases)
      (auto simp: server_event_api split: prod.splits dest: client_event_api)
qed

section \<open>Kinds of keys\<close>

text \<open>
  What is registered under a key. Events and stored keys are well typed when a server event
  never goes to a client and a client event never to a server; \<open>Key<T>\<close> gives this in the
  source.
\<close>

datatype kind = IsServer | IsClient nat

definition kind_of :: "('p \<Rightarrow> nat) \<Rightarrow> ('d, 'p) service_component \<Rightarrow> kind" where
  "kind_of maxa c = (case c of ServerC _ \<Rightarrow> IsServer | ClientC cl \<Rightarrow> IsClient (maxa (cl_retry_policy cl)))"

definition kinds :: "('p \<Rightarrow> nat) \<Rightarrow> (uuid \<rightharpoonup> ('d, 'p) service_component) \<Rightarrow> uuid \<rightharpoonup> kind" where
  "kinds maxa T k = map_option (kind_of maxa) (T k)"

definition client_key :: "(uuid \<rightharpoonup> kind) \<Rightarrow> uuid \<Rightarrow> bool" where
  "client_key K k \<longleftrightarrow> K k \<noteq> Some IsServer"

definition is_server_key :: "(uuid \<rightharpoonup> kind) \<Rightarrow> uuid \<Rightarrow> bool" where
  "is_server_key K k \<longleftrightarrow> (\<forall>b. K k \<noteq> Some (IsClient b))"

fun event_ok :: "(uuid \<rightharpoonup> kind) \<Rightarrow> uuid \<Rightarrow> service_event \<Rightarrow> bool" where
  "event_ok K k (ServerEvent (ProcessRequest a c)) =
     (is_server_key K k \<and> client_key K c \<and> (\<forall>b. K c = Some (IsClient b) \<longrightarrow> at_number a \<le> Suc b))"
| "event_ok K k (ServerEvent (RequestCompleted _ _ c _)) = (is_server_key K k \<and> client_key K c)"
| "event_ok K k (ServerEvent ProcessQueuedRequests) = is_server_key K k"
| "event_ok K k (ClientEvent _) = client_key K k"

text \<open>The key a task sends to.\<close>

fun task_key :: "uuid task \<Rightarrow> uuid" where
  "task_key (ClosureTask c) = c"
| "task_key (TimeoutTask c) = c"
| "task_key (RetryTask r) = operation r"
| "task_key (PeriodicTask p) = callback p"

section \<open>The invariant of the system\<close>

type_synonym ('z, 'p, 'd, 'r) service_sim =
  "(service_event, uuid task, (unit, unit) task_value, 'z, 'r, ('d, 'p) service_component) simulation"

type_synonym 'z service_world = "(service_event, uuid task, (unit, unit) task_value, 'z) world_scheme"

definition component_ok ::
  "('p \<Rightarrow> nat) \<Rightarrow> ('p \<Rightarrow> nat) \<Rightarrow> nat \<Rightarrow> (uuid \<rightharpoonup> kind) \<Rightarrow> uuid \<Rightarrow> ('d, 'p) service_component
    \<Rightarrow> 'z service_world \<Rightarrow> bool"
where
  "component_ok maxa used n K k c w =
     (case c of
        ServerC sv \<Rightarrow>
          server_ok (pending (completion k) w) (pending (wakeup k) w) sv \<and>
          (\<forall>cl\<in>queue_clients sv. client_key K cl)
      | ClientC cl \<Rightarrow>
          client_ok maxa used n (retries_at k w) cl \<and>
          client_live (retries_at k w) (timeouts_at k w) cl \<and> is_server_key K (server_key cl))"

definition world_ok :: "(uuid \<rightharpoonup> kind) \<Rightarrow> 'z service_world \<Rightarrow> bool" where
  "world_ok K w \<longleftrightarrow>
     pending (\<lambda>k ev. \<not> event_ok K k ev) w = 0 \<and>
     (\<forall>t\<in>ran (pending_tasks w). client_key K (task_key t)) \<and> deferred_wakes w = []"

definition system_ok ::
  "('p \<Rightarrow> nat) \<Rightarrow> ('p \<Rightarrow> nat) \<Rightarrow> nat \<Rightarrow> ('z, 'p, 'd, 'r) service_sim \<Rightarrow> bool"
where
  "system_ok maxa used n sim \<longleftrightarrow>
     (let T = component_table (sim_components sim); K = kinds maxa T
      in client_key K nil_uuid \<and> world_ok K (sched sim) \<and>
         (\<forall>k c. T k = Some c \<longrightarrow> component_ok maxa used n K k c (sched sim)))"

section \<open>Steps keep the invariant\<close>

text \<open>Two schedulers with the same pending events for the component \<open>k\<close>.\<close>

definition same_counts :: "uuid \<Rightarrow> 'z service_world \<Rightarrow> 'z service_world \<Rightarrow> bool" where
  "same_counts k w w' \<longleftrightarrow>
     pending (completion k) w' = pending (completion k) w \<and> pending (wakeup k) w' = pending (wakeup k) w \<and>
     retries_at k w' = retries_at k w \<and> timeouts_at k w' = timeouts_at k w"

lemma same_counts_ok:
  "component_ok maxa used n K k c w \<Longrightarrow> same_counts k w w' \<Longrightarrow> component_ok maxa used (Suc n) K k c w'"
  by (auto simp: component_ok_def same_counts_def split: service_component.splits intro: client_ok_Suc)

lemma same_counts_pending: "(\<And>P. pending P w' = pending P w) \<Longrightarrow> same_counts k w w'"
  by (simp add: same_counts_def retries_at_def timeouts_at_def fun_eq_iff)

lemma same_counts_trans: "same_counts k w w1 \<Longrightarrow> same_counts k w1 w2 \<Longrightarrow> same_counts k w w2"
  by (simp add: same_counts_def)

text \<open>Events that are not counted.\<close>

fun uncounted :: "service_event \<Rightarrow> bool" where
  "uncounted (ClientEvent SendRequest) = True"
| "uncounted (ClientEvent (ResponseReceived r)) = True"
| "uncounted (ServerEvent (ProcessRequest a c)) = True"
| "uncounted _ = False"

lemma same_counts_send:
  "\<forall>(d, k', ev)\<in>set ms. k' \<noteq> k \<or> uncounted ev \<Longrightarrow> same_counts k w (send ms w)"
proof (induction ms arbitrary: w)
  case (Cons m ms)
  obtain d k' ev where m: "m = (d, k', ev)" using prod_cases3 by blast
  have "k' \<noteq> k \<or> uncounted ev" using Cons.prems m by simp
  then have "same_counts k w (schedule d k' ev w)"
    by (cases ev rule: uncounted.cases)
      (auto simp: same_counts_def fun_eq_iff completion_def wakeup_def retry_event_def timeout_event_def)
  with Cons.IH [of "schedule d k' ev w"] Cons.prems m show ?case
    by (auto simp: same_counts_def)
qed (simp add: same_counts_def)

text \<open>What a component does in one step, seen from outside.\<close>

definition good_messages :: "(uuid \<rightharpoonup> kind) \<Rightarrow> uuid \<Rightarrow> service_event message list \<Rightarrow> bool" where
  "good_messages K k ms \<longleftrightarrow> (\<forall>(d, k', ev)\<in>set ms. event_ok K k' ev \<and> (k' = k \<or> uncounted ev))"

lemma good_messages_ok: "good_messages K k ms \<Longrightarrow> msg_count (\<lambda>k ev. \<not> event_ok K k ev) ms = 0"
  by (fastforce simp: good_messages_def msg_count_def filter_empty_conv)

lemma good_messages_other: "good_messages K k ms \<Longrightarrow> k' \<noteq> k \<Longrightarrow> same_counts k' w (send ms w)"
  by (rule same_counts_send) (auto simp: good_messages_def)

lemma server_msg_good:
  assumes "server_msg k C (d, k', ev)" "is_server_key K k" "\<forall>c\<in>C. client_key K c"
  shows "event_ok K k' ev \<and> (k' = k \<or> uncounted ev)"
  using assms by (cases ev; cases "(k, C, (d, k', ev))" rule: server_msg.cases) auto

lemma client_msg_good:
  assumes "client_msg k sk b (d, k', ev)" "client_key K k" "K k = Some (IsClient b)" "is_server_key K sk"
  shows "event_ok K k' ev \<and> (k' = k \<or> uncounted ev)"
  using assms by (cases "(k, sk, b, (d, k', ev))" rule: client_msg.cases) auto

lemma server_component_step:
  assumes "server_process_event smp k ev sv w = Some (sv', w')"
    and "server_ok (pending (completion k) w + is_completed ev) (pending (wakeup k) w + is_wakeup ev) sv"
    and "\<forall>c\<in>queue_clients sv. client_key K c" "client_key K nil_uuid" "event_ok K k (ServerEvent ev)"
  shows "\<exists>ms. w' = send ms w \<and> good_messages K k ms \<and> component_ok maxa used n K k (ServerC sv') w'"
proof -
  obtain ms where ms: "w' = send ms w"
    "\<forall>m\<in>set ms. server_msg k (insert nil_uuid (event_clients ev \<union> queue_clients sv)) m"
    "queue_clients sv' \<subseteq> event_clients ev \<union> queue_clients sv"
    "server_ok (pending (completion k) w') (pending (wakeup k) w') sv'"
    using server_step_ok [OF assms(1,2)] by blast
  have "is_server_key K k" "\<forall>c\<in>insert nil_uuid (event_clients ev \<union> queue_clients sv). client_key K c"
    using assms(3-5) by (cases ev; auto)+
  then have "good_messages K k ms"
    using ms(2) server_msg_good by (fastforce simp: good_messages_def)
  with ms \<open>\<forall>c\<in>insert nil_uuid _. _\<close> show ?thesis
    by (auto simp: component_ok_def)
qed

lemma client_component_step:
  assumes "retry_policy should_retry reset maxa used"
    and "client_process_event should_retry reset k ev c w = (c', w')" "Suc (Suc n) < 2 ^ 64"
    and "client_ok maxa used n (\<lambda>x. retries_at k w x + (if ev = RetryRequest x then 1 else 0)) c"
    and "client_live (\<lambda>x. retries_at k w x + (if ev = RetryRequest x then 1 else 0))
      (\<lambda>x y. timeouts_at k w x y + (if ev = RequestTimeout x y then 1 else 0)) c"
    and "is_server_key K (server_key c)" "K k = Some (IsClient (maxa (cl_retry_policy c)))"
  shows "\<exists>ms. w' = send ms w \<and> good_messages K k ms \<and> component_ok maxa used (Suc n) K k (ClientC c') w'
    \<and> cl_retry_policy c' = cl_retry_policy c"
proof -
  have "client_step maxa used (Suc n) k c w (c', w')"
    using retry_policy.client_event_step [OF assms(1,4,3)] assms(2) by simp
  then obtain ms where ms: "w' = send ms w"
    "\<forall>m\<in>set ms. client_msg k (server_key c) (maxa (cl_retry_policy c)) m"
    "server_key c' = server_key c" "cl_retry_policy c' = cl_retry_policy c"
    "client_ok maxa used (Suc n) (retries_at k w') c'"
    by (auto simp: client_step_def)
  have "client_key K k" using assms(7) by (simp add: client_key_def)
  then have "good_messages K k ms"
    using ms(2) client_msg_good [OF _ _ assms(7,6)] by (fastforce simp: good_messages_def)
  with ms client_event_live [OF assms(5,2)] assms(6) show ?thesis
    by (auto simp: component_ok_def)
qed

subsection \<open>Tasks\<close>

lemma schedule_task_at_world [simp]:
  "deferred_wakes (schedule_task_at t i task w) = deferred_wakes w"
  by (simp add: schedule_task_at_def Let_def)

text \<open>A task sends its message and may reschedule a task with the same key.\<close>

definition send_then_task ::
  "uuid task \<Rightarrow> 'z service_world \<Rightarrow> 'z service_world \<Rightarrow> (simtime \<times> uuid \<times> uuid task) option \<Rightarrow> bool"
where
  "send_then_task t w w' r \<longleftrightarrow>
     (let w1 = schedule zero (task_key t) (ClientEvent SendRequest) w
      in case r of
           None \<Rightarrow> w' = w1
         | Some (at, i, task) \<Rightarrow> task_key task = task_key t \<and> w' = schedule_task_at at i task w1)"

lemma exec_send_task_cases:
  assumes "exec_task send_code t w = (r, w')"
  shows "\<exists>x. send_then_task t w w' x"
proof (cases t)
  case (PeriodicTask p)
  let ?w = "schedule zero (callback p) (ClientEvent SendRequest) w"
  let ?at = "add_simtime (time ?w) (interval p)" and ?i = "own_task_id 0 ?w"
  show ?thesis
  proof (cases "remaining_executions p")
    case None
    then have "send_then_task t w w' (Some (?at, ?i, PeriodicTask p))"
      using assms PeriodicTask
      by (auto simp: send_then_task_def send_code_def schedule_now_def execute_periodic_def Let_def)
    then show ?thesis by blast
  next
    case (Some n)
    then have "send_then_task t w w' (if n - 1 = 0 then None
        else Some (?at, ?i, PeriodicTask (p\<lparr>remaining_executions := Some (n - 1)\<rparr>)))"
      using assms PeriodicTask
      by (auto simp: send_then_task_def send_code_def schedule_now_def execute_periodic_def Let_def)
    then show ?thesis by blast
  qed
qed (use assms in \<open>auto simp: send_then_task_def send_code_def schedule_now_def execute_retry_def Let_def
       intro!: exI [of _ None]\<close>)

lemma ran_upd_image: "f ` ran (m(i \<mapsto> x)) \<subseteq> insert (f x) (f ` ran m)"
  by (auto simp: ran_def split: if_splits)

lemma exec_send_task:
  assumes "exec_task send_code t w = (r, w')"
  shows "pending P w' = pending P w + (if P (task_key t) (ClientEvent SendRequest) then 1 else 0)"
    and "task_key ` ran (pending_tasks w') \<subseteq> insert (task_key t) (task_key ` ran (pending_tasks w))"
    and "deferred_wakes w' = deferred_wakes w"
proof -
  obtain x where x: "send_then_task t w w' x" using exec_send_task_cases [OF assms] by blast
  show "pending P w' = pending P w + (if P (task_key t) (ClientEvent SendRequest) then 1 else 0)"
    "deferred_wakes w' = deferred_wakes w"
    using x by (auto simp: send_then_task_def Let_def split: option.splits)
  show "task_key ` ran (pending_tasks w') \<subseteq> insert (task_key t) (task_key ` ran (pending_tasks w))"
    using x ran_upd_image [of task_key "pending_tasks w"]
    by (cases x) (force simp: send_then_task_def Let_def sched_simps)+
qed

lemma execute_send_task:
  assumes "snd (execute_task (exec_task send_code) i w) = w'"
  shows "\<exists>ms. (\<forall>P. pending P w' = pending P (send ms w)) \<and>
      (ms = [] \<or> (\<exists>t\<in>ran (pending_tasks w). ms = [(zero, task_key t, ClientEvent SendRequest)]))
    \<and> task_key ` ran (pending_tasks w') \<subseteq> task_key ` ran (pending_tasks w)
    \<and> deferred_wakes w' = deferred_wakes w"
proof (cases "i \<in> cancelled_tasks w \<or> pending_tasks w i = None")
  case True
  with assms have "w' = (if i \<in> cancelled_tasks w then w\<lparr>cancelled_tasks := cancelled_tasks w - {i}\<rparr> else w)"
    by (auto simp: execute_task_def)
  then have "events w' = events w" "pending_tasks w' = pending_tasks w" "deferred_wakes w' = deferred_wakes w"
    by simp_all
  with pending_events [of w' w] show ?thesis by (intro exI [of _ "[]"]) simp
next
  case False
  then obtain t where pend: "pending_tasks w i = Some t" and nc: "i \<notin> cancelled_tasks w" by auto
  define w1 where "w1 = w\<lparr>pending_tasks := (pending_tasks w)(i := None), executing_task_id := Some i\<rparr>"
  obtain r w2 where ex: "exec_task send_code t w1 = (r, w2)" by fastforce
  have w': "events w' = events w2" "pending_tasks w' = pending_tasks w2" "deferred_wakes w' = deferred_wakes w2"
    using execute_task_eq [of i w t "exec_task send_code", folded w1_def, OF nc pend ex] assms by auto
  have t: "t \<in> ran (pending_tasks w)" using pend by (auto simp: ran_def)
  have "ran (pending_tasks w1) \<subseteq> ran (pending_tasks w)"
    by (auto simp: w1_def ran_def split: if_splits)
  then have "task_key ` ran (pending_tasks w') \<subseteq> task_key ` ran (pending_tasks w)"
    using exec_send_task(2) [OF ex] t unfolding w' by blast
  moreover have "pending P w' = pending P (send [(zero, task_key t, ClientEvent SendRequest)] w)" for P
    using exec_send_task(1) [OF ex, of P] pending_events [OF w'(1), of P] pending_events [of w1 w P]
    by (simp add: w1_def)
  moreover have "deferred_wakes w' = deferred_wakes w"
    using exec_send_task(3) [OF ex] by (simp add: w' w1_def)
  ultimately show ?thesis using t by (intro exI [of _ "[(zero, task_key t, ClientEvent SendRequest)]"]) auto
qed

subsection \<open>One step\<close>

lemma kinds_update:
  "T k = Some c \<Longrightarrow> kind_of maxa c' = kind_of maxa c \<Longrightarrow> kinds maxa (T(k \<mapsto> c')) = kinds maxa T"
  by (auto simp: kinds_def fun_eq_iff)

lemma world_ok_send:
  assumes "world_ok K w" "good_messages K k ms" "pending_tasks w' = pending_tasks w"
    "deferred_wakes w' = deferred_wakes w" "\<And>P. pending P w' = pending P (send ms w)"
  shows "world_ok K w'"
  using assms good_messages_ok [OF assms(2)] by (simp add: world_ok_def pending_send)

lemma send_tasks [simp]: "pending_tasks (send ms w) = pending_tasks w"
  by (induction ms arbitrary: w) (auto simp: sched_simps)

lemma popped_counts:
  assumes "pop_effect s (Component e) w" "k = component e" "inner e = ev"
  shows "pending P s = pending P w + (if P k ev then 1 else 0)"
  using pending_pop [OF assms(1), of P] assms(2,3) by simp

lemma popped_server_ok:
  assumes "pop_effect s (Component e) w" "inner e = ServerEvent ev"
    "server_ok (pending (completion (component e)) s) (pending (wakeup (component e)) s) sv"
  shows "server_ok (pending (completion (component e)) w + is_completed ev)
    (pending (wakeup (component e)) w + is_wakeup ev) sv"
  using popped_counts [OF assms(1) refl assms(2), of "completion (component e)"]
    popped_counts [OF assms(1) refl assms(2), of "wakeup (component e)"] assms(3)
  by (cases ev) (auto simp: is_completed_def is_wakeup_def)

lemma popped_client:
  assumes "pop_effect s (Component e) w" "inner e = ClientEvent ev"
  shows "retries_at (component e) s = (\<lambda>x. retries_at (component e) w x + (if ev = RetryRequest x then 1 else 0))"
    "timeouts_at (component e) s =
      (\<lambda>x y. timeouts_at (component e) w x y + (if ev = RequestTimeout x y then 1 else 0))"
  using popped_counts [OF assms(1) refl assms(2)]
  by (auto simp: retries_at_def timeouts_at_def retry_event_def timeout_event_def fun_eq_iff)

lemma popped_other:
  assumes "pop_effect s e w" "case e of Component ce \<Rightarrow> k \<noteq> component ce | Task _ \<Rightarrow> True"
  shows "same_counts k s w"
  using pending_pop [OF assms(1)] assms(2)
  by (auto simp: same_counts_def retries_at_def timeouts_at_def retry_event_def timeout_event_def
      completion_def wakeup_def fun_eq_iff split: event_entry.splits)

lemma popped_world:
  assumes "pop_effect s e w" "world_ok K s"
  shows "world_ok K w" "entry_sat (\<lambda>k ev. \<not> event_ok K k ev) e = False"
proof -
  have "pending (\<lambda>k ev. \<not> event_ok K k ev) s = 0" using assms(2) by (simp add: world_ok_def)
  with pending_pop [OF assms(1), of "\<lambda>k ev. \<not> event_ok K k ev"]
  show "entry_sat (\<lambda>k ev. \<not> event_ok K k ev) e = False" by (auto split: if_splits)
  obtain D :: "service_event event_entry list" and h where "w = s\<lparr>events := h, cancelled_tasks := cancelled_tasks s - set (task_ids D),
            clock := as_nanos (entry_time e)\<rparr>"
    using assms(1) by (elim pop_effectE) blast
  then show "world_ok K w"
    using assms(2) pending_pop [OF assms(1), of "\<lambda>k ev. \<not> event_ok K k ev"]
    by (simp add: world_ok_def)
qed

lemma world_ok_context [simp]:
  "world_ok K (set_scheduler_context w) = world_ok K w"
  "world_ok K (clear_scheduler_context w) = world_ok K w"
  by (simp_all add: world_ok_def)
    (simp_all add: set_scheduler_context_def clear_scheduler_context_def)

lemma at_context [simp]:
  "retries_at k (clear_scheduler_context w) = retries_at k w"
  "timeouts_at k (clear_scheduler_context w) = timeouts_at k w"
  by (simp_all add: retries_at_def timeouts_at_def fun_eq_iff)

lemma component_ok_context [simp]:
  "component_ok maxa used n K k c (clear_scheduler_context w) = component_ok maxa used n K k c w"
  by (simp add: component_ok_def cong: service_component.case_cong)

text \<open>The effect of processing one entry on a well-formed system.\<close>

lemma process_component_ok:
  fixes s w0 w w' :: "'z service_world"
  assumes pol: "retry_policy should_retry reset maxa used" and fit: "Suc (Suc n) < 2 ^ 64"
    and T: "T = component_table cs" "K = kinds maxa T" and nil: "client_key K nil_uuid"
    and pop: "pop_effect s (Component e) w0" and w: "\<And>P. pending P w = pending P w0"
      "pending_tasks w = pending_tasks w0" "deferred_wakes w = deferred_wakes w0"
    and ok: "world_ok K s" "\<And>k c. T k = Some c \<Longrightarrow> component_ok maxa used n K k c s"
    and proc: "process_event_entry exec (service_handle smp should_retry reset) (Component e) cs w = Some (cs', w')"
  shows "kinds maxa (component_table cs') = K \<and> world_ok K w' \<and>
    (\<forall>k c. component_table cs' k = Some c \<longrightarrow> component_ok maxa used (Suc n) K k c w')"
proof -
  let ?k = "component e"
  have wok: "world_ok K w"
    using popped_world(1) [OF pop ok(1)] w by (simp add: world_ok_def)
  have ev: "event_ok K ?k (inner e)"
    using popped_world(2) [OF pop ok(1)] by simp
  have other: "component_ok maxa used (Suc n) K k c w" if "T k = Some c" "k \<noteq> ?k" for k c
  proof -
    have "same_counts k s w0" by (rule popped_other [OF pop]) (use that in simp)
    then have "same_counts k s w" by (rule same_counts_trans) (rule same_counts_pending [OF w(1)])
    with ok(2) [OF that(1)] show ?thesis by (rule same_counts_ok)
  qed
  show ?thesis
  proof (cases "T ?k")
    case None
    then have "cs' = cs" "w' = w" using proc T by auto
    moreover have "component_ok maxa used (Suc n) K k c w" if "T k = Some c" for k c
      using other [OF that] that None by fastforce
    ultimately show ?thesis using T wok by auto
  next
    case (Some c)
    then obtain c' where h: "service_handle smp should_retry reset c ?k (inner e) w = Some (c', w')"
      and cs': "component_table cs' = T(?k \<mapsto> c')"
      using proc T by (auto split: option.splits prod.splits)
    have cok: "component_ok maxa used n K ?k c s" by (rule ok(2)) fact
    have Kk: "K ?k = Some (kind_of maxa c)" using T Some by (simp add: kinds_def)
    have "\<exists>ms. w' = send ms w \<and> good_messages K ?k ms \<and> component_ok maxa used (Suc n) K ?k c' w'
        \<and> kind_of maxa c' = kind_of maxa c"
    proof (cases c)
      case (ServerC sv)
      with h obtain sev sv' where sev: "inner e = ServerEvent sev" "c' = ServerC sv'"
        and step: "server_process_event smp ?k sev sv w = Some (sv', w')"
        by (cases "inner e") auto
      have "server_ok (pending (completion ?k) w + is_completed sev) (pending (wakeup ?k) w + is_wakeup sev) sv"
        using popped_server_ok [OF pop sev(1), of sv] cok ServerC w(1) by (simp add: component_ok_def)
      from server_component_step [OF step this, of K maxa used "Suc n"] cok ServerC nil ev sev show ?thesis
        by (auto simp: component_ok_def kind_of_def)
    next
      case (ClientC cl)
      with h obtain cev cl' where cev: "inner e = ClientEvent cev" "c' = ClientC cl'"
        and step: "client_process_event should_retry reset ?k cev cl w = (cl', w')"
        by (cases "inner e") (auto split: prod.splits)
      have r: "retries_at ?k w = retries_at ?k w0" "timeouts_at ?k w = timeouts_at ?k w0"
        using w(1) by (simp_all add: retries_at_def timeouts_at_def fun_eq_iff)
      note pc = popped_client [OF pop cev(1), folded r]
      from client_component_step [OF pol step fit, of K] cok ClientC Kk cev show ?thesis
        by (auto simp: component_ok_def kind_of_def pc)
    qed
    then obtain ms where ms: "w' = send ms w" "good_messages K ?k ms"
      "component_ok maxa used (Suc n) K ?k c' w'" "kind_of maxa c' = kind_of maxa c" by blast
    have "component_ok maxa used (Suc n) K k d w'" if "T k = Some d" "k \<noteq> ?k" for k d
    proof -
      have "same_counts k s w0" by (rule popped_other [OF pop]) (use that in simp)
      then have "same_counts k s w" by (rule same_counts_trans) (rule same_counts_pending [OF w(1)])
      then have "same_counts k s w'"
        using good_messages_other [OF ms(2) that(2), of w] ms(1) by (auto intro: same_counts_trans)
      with ok(2) [OF that(1)] show ?thesis by (rule same_counts_ok)
    qed
    moreover have "world_ok K w'"
      by (rule world_ok_send [OF wok ms(2)]) (use ms(1) in simp_all)
    moreover have "kinds maxa (component_table cs') = K"
      using kinds_update [of T ?k c maxa c'] Some ms(4) by (simp add: cs' T(2))
    ultimately show ?thesis using ms(3) cs' by auto
  qed
qed

lemma process_task_ok:
  fixes s w0 w :: "'z service_world"
  assumes pop: "pop_effect s (Task te) w0" and w: "\<And>P. pending P w = pending P w0"
      "pending_tasks w = pending_tasks w0" "deferred_wakes w = deferred_wakes w0"
    and ok: "world_ok K s" "\<And>k c. T k = Some c \<Longrightarrow> component_ok maxa used n K k c s"
    and ex: "snd (execute_task (exec_task send_code) i w) = w'"
  shows "world_ok K w' \<and> (\<forall>k c. T k = Some c \<longrightarrow> component_ok maxa used (Suc n) K k c w')"
proof -
  obtain ms where ms: "\<And>P. pending P w' = pending P (send ms w)"
    "ms = [] \<or> (\<exists>t\<in>ran (pending_tasks w). ms = [(zero, task_key t, ClientEvent SendRequest)])"
    "task_key ` ran (pending_tasks w') \<subseteq> task_key ` ran (pending_tasks w)" "deferred_wakes w' = deferred_wakes w"
    using execute_send_task [OF ex] by blast
  have wok: "world_ok K w"
    using popped_world(1) [OF pop ok(1)] w by (simp add: world_ok_def)
  have "good_messages K nil_uuid ms"
    using ms(2) wok by (auto simp: good_messages_def world_ok_def)
  then have "pending (\<lambda>k ev. \<not> event_ok K k ev) w' = 0"
    using wok good_messages_ok ms(1) by (auto simp: world_ok_def pending_send)
  moreover have "\<forall>t\<in>ran (pending_tasks w'). client_key K (task_key t)"
    using ms(3) wok by (fastforce simp: world_ok_def)
  ultimately have "world_ok K w'"
    using wok ms(4) by (simp add: world_ok_def)
  moreover have "component_ok maxa used (Suc n) K k c w'" if "T k = Some c" for k c
  proof -
    have "same_counts k s w0" by (rule popped_other [OF pop]) simp
    then have "same_counts k s w" by (rule same_counts_trans) (rule same_counts_pending [OF w(1)])
    moreover have "same_counts k w (send ms w)"
      by (rule same_counts_send) (use ms(2) in auto)
    ultimately have "same_counts k s w'"
      using same_counts_pending [of w' "send ms w" k] ms(1) by (blast intro: same_counts_trans)
    with ok(2) [OF that] show ?thesis by (rule same_counts_ok)
  qed
  ultimately show ?thesis by blast
qed

lemma component_ok_pending:
  assumes "\<And>P. pending P w' = pending P w"
  shows "component_ok maxa used n K k c w' = component_ok maxa used n K k c w"
proof -
  have "retries_at k w' = retries_at k w" "timeouts_at k w' = timeouts_at k w"
    using assms by (simp_all add: retries_at_def timeouts_at_def fun_eq_iff)
  with assms show ?thesis by (simp add: component_ok_def cong: service_component.case_cong)
qed

lemma idle_pending:
  assumes "sim_ok sim" "pop_with_policy (policy sim) (policy_state sim) (sched sim) = (None, p, w)"
  shows "pending P w = pending P (sched sim)"
proof -
  have d: "distinct (task_ids (events (sched sim)))"
    using assms(1) by (auto simp: sim_ok_def tasks_inv_def)
  note w = pop_None [OF assms(2) d]
  have "\<not> entry_sat P e" if "e \<in> set (events (sched sim))" for e
    using w(1) that by (cases e) (force simp: live_def filter_empty_conv)+
  then have "pending P (sched sim) = 0" by (simp add: pending_none)
  moreover have "pending P w = 0" by (simp add: w(2) pending_def)
  ultimately show ?thesis by simp
qed

lemma system_idle:
  assumes "sim_ok sim" "pop_with_policy (policy sim) (policy_state sim) (sched sim) = (None, p, w)"
    and "system_ok maxa used n sim"
  shows "system_ok maxa used n (sim\<lparr>policy_state := p, sched := w\<rparr>)"
proof -
  have d: "distinct (task_ids (events (sched sim)))"
    using assms(1) by (auto simp: sim_ok_def tasks_inv_def)
  have cnt: "pending P w = pending P (sched sim)" for P by (rule idle_pending [OF assms(1,2)])
  have "world_ok K w = world_ok K (sched sim)" for K
    by (simp add: world_ok_def cnt) (simp add: pop_None(2) [OF assms(2) d])
  moreover have "component_ok maxa used n (kinds maxa (component_table (sim_components sim))) k c w"
    if "component_table (sim_components sim) k = Some c" for k c
    using assms(3) that
    by (simp add: component_ok_pending [of w "sched sim", OF cnt] system_ok_def Let_def)
  ultimately show ?thesis
    using assms(3) by (simp add: system_ok_def Let_def)
qed

abbreviation sim_kinds :: "('p \<Rightarrow> nat) \<Rightarrow> ('z, 'p, 'd, 'r) service_sim \<Rightarrow> uuid \<rightharpoonup> kind" where
  "sim_kinds maxa sim \<equiv> kinds maxa (component_table (sim_components sim))"

lemma entry_invariant_ok:
  assumes pol: "retry_policy should_retry reset maxa used" and fit: "Suc (Suc n) < 2 ^ 64"
    and ok: "sim_ok sim" "system_ok maxa used n sim"
    and pop: "pop_with_policy (policy sim) (policy_state sim) (sched sim) = (Some e, p, w0)"
    and proc: "process_event_entry (exec_task send_code) (service_handle smp should_retry reset) e (sim_components sim)
      (set_scheduler_context w0) = Some (cs, w')"
  shows "pop_effect (sched sim) e w0"
    and "kinds maxa (component_table cs) = sim_kinds maxa sim \<and> world_ok (sim_kinds maxa sim) w' \<and>
      (\<forall>k c. component_table cs k = Some c \<longrightarrow> component_ok maxa used (Suc n) (sim_kinds maxa sim) k c w')"
proof -
  have so: "sched_ok (sched sim)" and d: "distinct (task_ids (events (sched sim)))"
    using ok(1) by (auto simp: sim_ok_def tasks_inv_def)
  show pop': "pop_effect (sched sim) e w0"
    by (rule pop_effect_with_policy [OF so d pop])
  let ?T = "component_table (sim_components sim)" and ?K = "sim_kinds maxa sim" and ?w = "set_scheduler_context w0"
  have sys: "client_key ?K nil_uuid" "world_ok ?K (sched sim)"
    "\<And>k c. ?T k = Some c \<Longrightarrow> component_ok maxa used n ?K k c (sched sim)"
    using ok(2) by (auto simp: system_ok_def Let_def)
  have w: "\<And>P. pending P ?w = pending P w0" "pending_tasks ?w = pending_tasks w0"
    "deferred_wakes ?w = deferred_wakes w0" by simp_all
  show "kinds maxa (component_table cs) = ?K \<and> world_ok ?K w' \<and>
    (\<forall>k c. component_table cs k = Some c \<longrightarrow> component_ok maxa used (Suc n) ?K k c w')"
  proof (cases e)
    case (Component ce)
    show ?thesis
      by (rule process_component_ok [OF pol fit refl refl sys(1) pop' [unfolded Component] w sys(2,3)
            proc [unfolded Component]])
  next
    case (Task te)
    have cs: "cs = sim_components sim" "snd (execute_task (exec_task send_code) (te_task_id te) ?w) = w'"
      using proc Task by auto
    show ?thesis
      using process_task_ok [OF pop' [unfolded Task] w sys(2,3) cs(2)] by (simp add: cs(1))
  qed
qed

lemma drain_world_ok: "world_ok K w \<Longrightarrow> drain_deferred_wakes (clear_scheduler_context w) = clear_scheduler_context w"
  by (intro drain_nothing) (simp add: world_ok_def clear_scheduler_context_def)

lemma system_step:
  assumes pol: "retry_policy should_retry reset maxa used" and fit: "Suc (Suc n) < 2 ^ 64"
    and ok: "sim_ok sim" "system_ok maxa used n sim"
    and st: "step (exec_task send_code) (service_handle smp should_retry reset) sim = Some (True, sim')"
    and ne: "next_entry sim = Some e"
  shows "system_ok maxa used (Suc n) sim' \<and> sim_kinds maxa sim' = sim_kinds maxa sim
    \<and> \<not> entry_sat (\<lambda>k ev. \<not> event_ok (sim_kinds maxa sim) k ev) e"
  using st
proof (cases rule: stepE)
  case (idle p w)
  then show ?thesis by simp
next
  case (event e' p w0 cs w')
  then have e': "e' = e" using ne by (simp add: next_entry_def)
  note res = entry_invariant_ok [OF pol fit ok event(1,2) [unfolded e']]
  have "client_key (sim_kinds maxa sim) nil_uuid" "world_ok (sim_kinds maxa sim) (sched sim)"
    using ok(2) by (auto simp: system_ok_def Let_def)
  moreover have "drain_deferred_wakes (clear_scheduler_context w') = clear_scheduler_context w'"
    using res(2) by (blast intro: drain_world_ok)
  ultimately show ?thesis
    using event(4) res(2) popped_world(2) [OF res(1)] by (simp add: system_ok_def Let_def)
qed

lemma system_run:
  assumes pol: "retry_policy should_retry reset maxa used"
    and run: "sim_run (exec_task send_code) (service_handle smp should_retry reset) sim es sim'"
    and "sim_ok sim" "system_ok maxa used n sim" "Suc (n + length es) < 2 ^ 64" "ids_fit (sched sim')"
  shows "\<exists>m. system_ok maxa used m sim' \<and> sim_ok sim' \<and> sim_kinds maxa sim' = sim_kinds maxa sim
    \<and> (\<forall>e\<in>set es. \<not> entry_sat (\<lambda>k ev. \<not> event_ok (sim_kinds maxa sim) k ev) e)"
  using run assms(3-)
proof (induction arbitrary: n rule: sim_run.induct)
  case (run_nil sim)
  then show ?case by auto
next
  case (run_step sim e sim1 es sim2)
  have "ids_fit (sched sim1)"
    by (rule service.run_ids_fit) fact+
  then have "sim_ok sim1"
    using service.step_sound [OF run_step.prems(1) run_step.hyps(2)] by blast
  moreover have s1: "system_ok maxa used (Suc n) sim1 \<and> sim_kinds maxa sim1 = sim_kinds maxa sim
      \<and> \<not> entry_sat (\<lambda>k ev. \<not> event_ok (sim_kinds maxa sim) k ev) e"
    by (rule system_step [OF pol _ run_step.prems(1,2) run_step.hyps(2,1)]) (use run_step.prems(3) in simp)
  ultimately show ?case
    using run_step.IH [of "Suc n"] run_step.prems by auto
next
  case (run_idle sim sim1 es sim2)
  have "ids_fit (sched sim1)"
    by (rule service.run_ids_fit) fact+
  then have "sim_ok sim1"
    using service.step_sound [OF run_idle.prems(1) run_idle.hyps(2)] by blast
  moreover from run_idle.hyps(2) obtain p w where
    "pop_with_policy (policy sim) (policy_state sim) (sched sim) = (None, p, w)"
    "sim1 = sim\<lparr>policy_state := p, sched := w\<rparr>"
    by (cases rule: stepE) auto
  then have "system_ok maxa used n sim1" "sim_kinds maxa sim1 = sim_kinds maxa sim"
    using system_idle run_idle.prems(1,2) by auto
  ultimately show ?case
    using run_idle.IH [of n] run_idle.prems by auto
qed

section \<open>Initial systems\<close>

text \<open>
  A simulation before it runs: idle servers with empty queues, clients without requests, and
  a load of \<open>SendRequest\<close> events and tasks that send them.
\<close>

definition system_init :: "('p \<Rightarrow> nat) \<Rightarrow> ('z, 'p, 'd, 'r) service_sim \<Rightarrow> bool" where
  "system_init maxa sim \<longleftrightarrow>
     sim_ok sim \<and> component_table (sim_components sim) nil_uuid = None \<and>
     (\<forall>k sv. component_table (sim_components sim) k = Some (ServerC sv) \<longrightarrow>
        active_threads sv = 0 \<and> queue_depth sv = 0 \<and> queue_ok sv) \<and>
     (\<forall>k cl. component_table (sim_components sim) k = Some (ClientC cl) \<longrightarrow>
        next_request_id cl = 1 \<and> active_requests cl = Map.empty \<and>
        is_server_key (sim_kinds maxa sim) (server_key cl)) \<and>
     (\<forall>e\<in>set (events (sched sim)). case e of
        Component ce \<Rightarrow> inner ce = ClientEvent SendRequest \<and> client_key (sim_kinds maxa sim) (component ce)
      | Task _ \<Rightarrow> True) \<and>
     (\<forall>t\<in>ran (pending_tasks (sched sim)). client_key (sim_kinds maxa sim) (task_key t))"

lemma empty_queue_clients: "queue_depth sv = 0 \<Longrightarrow> queue_clients sv = {}"
  by (auto simp: queue_depth_def queue_clients_def box.len_contents split: option.splits)

lemma system_init_ok:
  assumes "system_init maxa sim"
  shows "system_ok maxa used 0 sim"
proof -
  have none: "pending P (sched sim) = 0" if "\<And>k. \<not> P k (ClientEvent SendRequest)" for P
    unfolding pending_none
  proof
    fix e assume "e \<in> set (events (sched sim))"
    with assms that show "\<not> entry_sat P e" by (cases e) (auto simp: system_init_def)
  qed
  have cnt: "pending (completion k) (sched sim) = 0" "pending (wakeup k) (sched sim) = 0"
    "retries_at k (sched sim) = (\<lambda>_. 0)" "timeouts_at k (sched sim) = (\<lambda>_ _. 0)" for k
    by (auto simp: retries_at_def timeouts_at_def timeout_event_def fun_eq_iff intro!: none)
  have "pending (\<lambda>k ev. \<not> event_ok (sim_kinds maxa sim) k ev) (sched sim) = 0"
    unfolding pending_none
  proof
    fix e assume "e \<in> set (events (sched sim))"
    with assms show "\<not> entry_sat (\<lambda>k ev. \<not> event_ok (sim_kinds maxa sim) k ev) e"
      by (cases e) (auto simp: system_init_def)
  qed
  then show ?thesis
    using assms
    by (auto simp: system_ok_def system_init_def world_ok_def component_ok_def Let_def server_ok_def cnt
        client_ok_def client_live_def client_key_def kinds_def sim_ok_def empty_queue_clients
        split: service_component.splits)
qed

lemma system_ok_component:
  "system_ok maxa used n sim \<Longrightarrow> component_table (sim_components sim) k = Some c \<Longrightarrow>
   component_ok maxa used n (sim_kinds maxa sim) k c (sched sim)"
  by (simp add: system_ok_def Let_def)

lemma system_run_init:
  assumes "retry_policy should_retry reset maxa used" "system_init maxa sim"
    and "sim_run (exec_task send_code) (service_handle smp should_retry reset) sim es sim'"
    and "Suc (length es) < 2 ^ 64" "ids_fit (sched sim')"
  shows "\<exists>m. system_ok maxa used m sim' \<and> sim_ok sim' \<and> sim_kinds maxa sim' = sim_kinds maxa sim
    \<and> (\<forall>e\<in>set es. \<not> entry_sat (\<lambda>k ev. \<not> event_ok (sim_kinds maxa sim) k ev) e)"
  by (rule system_run [OF assms(1,3) _ system_init_ok [OF assms(2)]])
    (use assms in \<open>auto simp: system_init_def\<close>)

section \<open>Properties\<close>

text \<open>
  C1. Threads and queues of servers, in every state a system of servers and clients reaches:
  a server uses exactly one thread per pending completion and never more than its capacity,
  its queue is within its bound, and a request waits only while all threads are in use or a
  wake-up of the queue is pending.
\<close>

theorem server_threads:
  assumes "retry_policy should_retry reset maxa used" and "system_init maxa sim"
    and "sim_run (exec_task send_code) (service_handle smp should_retry reset) sim es sim'"
    and "Suc (length es) < 2 ^ 64" and "ids_fit (sched sim')"
    and "component_table (sim_components sim') k = Some (ServerC sv)"
  shows "active_threads sv = pending (completion k) (sched sim') \<and> active_threads sv \<le> thread_capacity sv
    \<and> (case queue sv of Some q \<Rightarrow> (case box_capacity q of Some n \<Rightarrow> box_len q \<le> n | None \<Rightarrow> True) | None \<Rightarrow> True)
    \<and> (0 < queue_depth sv \<longrightarrow> active_threads sv = thread_capacity sv \<or> 0 < pending (wakeup k) (sched sim'))"
proof -
  obtain m where "system_ok maxa used m sim'" using system_run_init [OF assms(1-5)] by blast
  then have "server_ok (pending (completion k) (sched sim')) (pending (wakeup k) (sched sim')) sv"
    using system_ok_component [OF _ assms(6)] by (fastforce simp: component_ok_def)
  then show ?thesis
    by (auto simp: server_ok_def queue_ok_def box.within_def split: option.splits)
qed

text \<open>
  C30. Events reach components of their type: in every state a system reaches, a pending event
  whose target is registered has the event type of that component, so the downcast of
  \<open>process_event_entry\<close> does not panic.
\<close>

theorem service_type_safety:
  assumes "retry_policy should_retry reset maxa used" and "system_init maxa sim"
    and "sim_run (exec_task send_code) (service_handle smp should_retry reset) sim es sim'"
    and "Suc (length es) < 2 ^ 64" and "ids_fit (sched sim')"
    and "Component e \<in> set (events (sched sim'))"
    and "component_table (sim_components sim') (component e) = Some c"
  shows "case c of ServerC _ \<Rightarrow> (\<exists>ev. inner e = ServerEvent ev) | ClientC _ \<Rightarrow> (\<exists>ev. inner e = ClientEvent ev)"
proof -
  obtain m where "system_ok maxa used m sim'" using system_run_init [OF assms(1-5)] by blast
  then have "\<forall>x\<in>set (events (sched sim')). \<not> entry_sat (\<lambda>k ev. \<not> event_ok (sim_kinds maxa sim') k ev) x"
    by (simp add: system_ok_def world_ok_def Let_def pending_none)
  with assms(6) have "event_ok (sim_kinds maxa sim') (component e) (inner e)" by fastforce
  with assms(7) show ?thesis
    by (cases "(sim_kinds maxa sim', component e, inner e)" rule: event_ok.cases)
      (auto simp: kinds_def kind_of_def client_key_def is_server_key_def split: service_component.splits)
qed

text \<open>
  C2. Nothing is left behind: when a run has processed all its events, every client has
  forgotten all its requests (each was answered or given up), no server thread is in use, and
  the queue of every server with at least one thread is empty.
\<close>

theorem service_quiescence:
  assumes "retry_policy should_retry reset maxa used" and "system_init maxa sim"
    and "sim_run (exec_task send_code) (service_handle smp should_retry reset) sim es sim'"
    and "Suc (length es) < 2 ^ 64" and "ids_fit (sched sim')" and "live (sched sim') = []"
    and "component_table (sim_components sim') k = Some c"
  shows "case c of
      ServerC sv \<Rightarrow> active_threads sv = 0 \<and> (0 < thread_capacity sv \<longrightarrow> queue_depth sv = 0)
    | ClientC cl \<Rightarrow> active_requests cl = Map.empty"
proof -
  obtain m where "system_ok maxa used m sim'" using system_run_init [OF assms(1-5)] by blast
  then have ok: "component_ok maxa used m (sim_kinds maxa sim') k c (sched sim')"
    using system_ok_component [OF _ assms(7)] by blast
  have "\<not> entry_sat P x" if "x \<in> set (events (sched sim'))" for P x
    using assms(6) that by (cases x) (force simp: live_def filter_empty_conv)+
  then have none: "pending P (sched sim') = 0" for P by (simp add: pending_none)
  show ?thesis
  proof (cases c)
    case (ServerC sv)
    with ok none show ?thesis by (auto simp: component_ok_def server_ok_def)
  next
    case (ClientC cl)
    with ok none have "active_requests cl x = None" for x
      by (cases "active_requests cl x")
        (auto simp: component_ok_def client_live_def retries_at_def timeouts_at_def)
    with ClientC show ?thesis by auto
  qed
qed

section \<open>Instances\<close>

text \<open>One server with one thread and one client that is about to send a request.\<close>

definition demo_sim :: "(unit, fixed_retry, unit, unit) service_sim" where
  "demo_sim =
     (let sim = simulation_new 42 ();
          cs = \<lparr>component_table = [1 \<mapsto> ServerC (with_constant_service_time [] 1 (duration_from_millis 10)),
                  2 \<mapsto> ClientC (client_new [] 1 0 (fixed_retry_new 2 0))],
                components_next_id = 0, components_id_seed = 0\<rparr>
      in sim\<lparr>sim_components := cs, sched := schedule zero 2 (ClientEvent SendRequest) (sched sim)\<rparr>)"

definition demo_run where
  "demo_run n = run_n (exec_task send_code) (service_handle (\<lambda>d. (0, d)) fr_should_retry fr_reset) n demo_sim"

lemmas demo_eval = demo_run_def demo_sim_def sim_new_eval sched_eval step_eval ids_fit_def
  with_constant_service_time_def server_new_def client_new_def fixed_retry_new_def
  duration_from_millis_def zero_def send_request_def send_attempt_def schedule_now_def
  request_attempt_new_def handle_request_def has_capacity_def start_processing_request_def
  complete_request_def queue_depth_def handle_response_def response_is_success_def
  response_success_def handle_timeout_def from_duration_def try_from_nat_def fr_reset_def

lemma demo_init: "system_init fr_max_attempts demo_sim"
  by (simp add: system_init_def demo_eval sim_ok_def sched_ok_def tasks_inv_def in_scheduler_context_def
      nil_uuid_def queue_ok_def kinds_def kind_of_def is_server_key_def client_key_def)

lemma demo_run_two:
  "\<exists>e1 e2 a sv sim'. demo_run (Suc (Suc 0)) = Some ([e1, Component e2], sim') \<and> ids_fit (sched sim') \<and>
     inner e2 = ServerEvent (ProcessRequest a 2) \<and>
     component_table (sim_components sim') 1 = Some (ServerC sv) \<and> thread_capacity sv = 1"
  by (simp add: demo_eval)

lemma demo_run_one:
  "\<exists>es e rest sim'. demo_run (Suc 0) = Some (es, sim') \<and> length es = 1 \<and> ids_fit (sched sim') \<and>
     events (sched sim') = Component e # rest \<and> component e = 1 \<and>
     (\<exists>c. component_table (sim_components sim') 1 = Some (ServerC c))"
  by (simp add: demo_eval)

lemma demo_run_five:
  "\<exists>es sim'. demo_run (Suc (Suc (Suc (Suc (Suc 0))))) = Some (es, sim') \<and> live (sched sim') = [] \<and>
     length es = 5 \<and> ids_fit (sched sim') \<and>
     (\<exists>cl. component_table (sim_components sim') 2 = Some (ClientC cl))"
  by (simp add: demo_eval live_def)

theorem server_threads_witness:
  "\<exists>es sim' sv. demo_run (Suc (Suc 0)) = Some (es, sim') \<and> component_table (sim_components sim') 1 = Some (ServerC sv)
     \<and> active_threads sv = pending (completion 1) (sched sim') \<and> active_threads sv \<le> 1"
proof -
  obtain e1 e2 a sv sim' where d: "demo_run (Suc (Suc 0)) = Some ([e1, Component e2], sim')"
    "ids_fit (sched sim')" "component_table (sim_components sim') 1 = Some (ServerC sv)" "thread_capacity sv = 1"
    using demo_run_two by blast
  from d(1) have "sim_run (exec_task send_code) (service_handle (\<lambda>d. (0, d)) fr_should_retry fr_reset)
      demo_sim [e1, Component e2] sim'"
    unfolding demo_run_def by (blast dest: run_n_run)
  from server_threads [OF fixed.retry_policy_axioms demo_init this _ d(2,3)] d show ?thesis
    by simp
qed

theorem service_type_safety_witness:
  "\<exists>es sim' e. demo_run (Suc 0) = Some (es, sim') \<and> Component e \<in> set (events (sched sim')) \<and>
     component e = 1 \<and> (\<exists>ev. inner e = ServerEvent ev)"
proof -
  obtain es e rest c sim' where d: "demo_run (Suc 0) = Some (es, sim')" "length es = 1"
    "ids_fit (sched sim')" "events (sched sim') = Component e # rest" "component e = 1"
    "component_table (sim_components sim') 1 = Some (ServerC c)"
    using demo_run_one by blast
  from d(1) have run: "sim_run (exec_task send_code) (service_handle (\<lambda>d. (0, d)) fr_should_retry fr_reset)
      demo_sim es sim'"
    unfolding demo_run_def by (blast dest: run_n_run)
  have "Component e \<in> set (events (sched sim'))" using d(4) by simp
  from service_type_safety [OF fixed.retry_policy_axioms demo_init run _ d(3) this, of "ServerC c"] d this
  show ?thesis by auto
qed

theorem service_quiescence_witness:
  "\<exists>es sim' cl. demo_run (Suc (Suc (Suc (Suc (Suc 0))))) = Some (es, sim') \<and> component_table (sim_components sim') 2 = Some (ClientC cl)
     \<and> active_requests cl = Map.empty"
proof -
  obtain es sim' cl where d: "demo_run (Suc (Suc (Suc (Suc (Suc 0))))) = Some (es, sim')"
    "live (sched sim') = []" "length es = 5" "ids_fit (sched sim')"
    "component_table (sim_components sim') 2 = Some (ClientC cl)"
    using demo_run_five by blast
  from d(1) have run: "sim_run (exec_task send_code) (service_handle (\<lambda>d. (0, d)) fr_should_retry fr_reset)
      demo_sim es sim'"
    unfolding demo_run_def by (blast dest: run_n_run)
  from service_quiescence [OF fixed.retry_policy_axioms demo_init run _ d(4,2,5)] d show ?thesis
    by simp
qed

end
