(* ===== verification/Attempt_Numbers.thy ===== *)
theory Attempt_Numbers
  imports Service_System
begin

text \<open>
  How often clients retry: the attempts of a request that its client has sent, whether they
  were processed or still wait in the event queue, are numbered from one on without gap or
  repetition, up to at most the number of retries the policy allows, plus one.
\<close>

section \<open>Attempts that were sent\<close>

text \<open>The \<open>n\<close>-th attempt of the request \<open>rid\<close> of client \<open>k\<close>.\<close>

definition attempt_event :: "uuid \<Rightarrow> request_id \<Rightarrow> nat \<Rightarrow> uuid \<Rightarrow> service_event \<Rightarrow> bool" where
  "attempt_event k rid n = (\<lambda>k' ev.
     \<exists>a. ev = ServerEvent (ProcessRequest a k) \<and> at_request_id a = rid \<and> at_number a = n)"

lemma attempt_event_simps [simp]:
  "attempt_event k rid n k' (ServerEvent (ProcessRequest a c)) \<longleftrightarrow> c = k \<and> at_request_id a = rid \<and> at_number a = n"
  "\<not> attempt_event k rid n k' (ServerEvent (RequestCompleted ai ri c p))"
  "\<not> attempt_event k rid n k' (ServerEvent ProcessQueuedRequests)"
  "\<not> attempt_event k rid n k' (ClientEvent ev)"
  by (auto simp: attempt_event_def)

fun attempt_number :: "uuid \<Rightarrow> request_id \<Rightarrow> service_event event_entry \<Rightarrow> nat option" where
  "attempt_number k rid (Component ce) =
     (case inner ce of
        ServerEvent (ProcessRequest a c) \<Rightarrow> if c = k \<and> at_request_id a = rid then Some (at_number a) else None
      | _ \<Rightarrow> None)"
| "attempt_number k rid (Task te) = None"

definition attempt_numbers :: "uuid \<Rightarrow> request_id \<Rightarrow> service_event event_entry list \<Rightarrow> nat list" where
  "attempt_numbers k rid es = List.map_filter (attempt_number k rid) es"

lemma attempt_number_event: "entry_sat (attempt_event k rid n) e \<longleftrightarrow> attempt_number k rid e = Some n"
  by (cases e) (auto split: service_event.splits server_event.splits)

lemma attempt_numbers_append [simp]:
  "attempt_numbers k rid (es @ es') = attempt_numbers k rid es @ attempt_numbers k rid es'"
  by (simp add: attempt_numbers_def map_filter_def)

lemma count_attempt_numbers:
  "count (mset (attempt_numbers k rid es)) n = length (filter (entry_sat (attempt_event k rid n)) es)"
  by (induction es) (auto simp: attempt_numbers_def map_filter_simps attempt_number_event split: option.splits)

text \<open>Processed or pending.\<close>

definition attempts_sent ::
  "uuid \<Rightarrow> service_event event_entry list \<Rightarrow> ('t, 'v, 'z) service_sched \<Rightarrow> request_id \<Rightarrow> nat \<Rightarrow> nat"
where
  "attempts_sent k es s rid n =
     length (filter (entry_sat (attempt_event k rid n)) es) + pending (attempt_event k rid n) s"

lemma attempts_sent_numbers:
  "attempts_sent k es s rid n = count (mset (attempt_numbers k rid (es @ events s))) n"
  by (simp add: attempts_sent_def count_attempt_numbers pending_def size_mset flip: mset_filter)

section \<open>One client\<close>

text \<open>
  Of each request the attempts up to a number within the budget have been sent once: none of a
  request that has not been made, and of an active one those up to the current attempt.
\<close>

definition client_numbered ::
  "('p \<Rightarrow> nat) \<Rightarrow> (request_id \<Rightarrow> nat \<Rightarrow> nat) \<Rightarrow> 'p client \<Rightarrow> bool"
where
  "client_numbered maxa sent c \<longleftrightarrow>
     (\<forall>rid. \<exists>N\<le>Suc (maxa (cl_retry_policy c)).
        (\<forall>n. sent rid n = (if 1 \<le> n \<and> n \<le> N then 1 else 0)) \<and> (next_request_id c \<le> rid \<longrightarrow> N = 0) \<and>
        (\<forall>a p. active_requests c rid = Some (a, p) \<longrightarrow> at_number a = N))"

lemma client_numbered_same:
  assumes "client_numbered maxa sent c" "\<And>rid n. sent' rid n = sent rid n"
    and "next_request_id c' = next_request_id c" "maxa (cl_retry_policy c') = maxa (cl_retry_policy c)"
    and "\<And>rid a p. active_requests c' rid = Some (a, p) \<Longrightarrow> \<exists>p'. active_requests c rid = Some (a, p')"
  shows "client_numbered maxa sent' c'"
  unfolding client_numbered_def
proof
  fix rid
  from assms(1) obtain N where "N \<le> Suc (maxa (cl_retry_policy c))" "\<forall>n. sent rid n = (if 1 \<le> n \<and> n \<le> N then 1 else 0)"
    "next_request_id c \<le> rid \<longrightarrow> N = 0" "\<forall>a p. active_requests c rid = Some (a, p) \<longrightarrow> at_number a = N"
    unfolding client_numbered_def by blast
  with assms(2-5) show "\<exists>N\<le>Suc (maxa (cl_retry_policy c')).
        (\<forall>n. sent' rid n = (if 1 \<le> n \<and> n \<le> N then 1 else 0)) \<and> (next_request_id c' \<le> rid \<longrightarrow> N = 0) \<and>
        (\<forall>a p. active_requests c' rid = Some (a, p) \<longrightarrow> at_number a = N)"
    by (intro exI [of _ N]) fastforce
qed

text \<open>One more attempt of a request.\<close>

lemma client_numbered_attempt:
  assumes num: "client_numbered maxa sent c" and sent: "\<And>x n. sent' x n = sent x n + (if x = rid \<and> n = N then 1 else 0)"
    and c': "maxa (cl_retry_policy c') = maxa (cl_retry_policy c)" "active_requests c' = (active_requests c)(rid \<mapsto> (a, p))"
    and nxt: "\<And>x. x \<noteq> rid \<Longrightarrow> next_request_id c' \<le> x \<Longrightarrow> next_request_id c \<le> x" "rid < next_request_id c'"
    and N: "at_number a = N" "N \<le> Suc (maxa (cl_retry_policy c))"
    and old: "N = 1 \<and> next_request_id c \<le> rid \<or> (\<exists>b q. active_requests c rid = Some (b, q) \<and> N = Suc (at_number b))"
  shows "client_numbered maxa sent' c'"
  unfolding client_numbered_def
proof
  fix x
  from num obtain M where M: "M \<le> Suc (maxa (cl_retry_policy c))" "\<forall>n. sent x n = (if 1 \<le> n \<and> n \<le> M then 1 else 0)"
    "next_request_id c \<le> x \<longrightarrow> M = 0" "\<forall>a p. active_requests c x = Some (a, p) \<longrightarrow> at_number a = M"
    unfolding client_numbered_def by blast
  show "\<exists>N\<le>Suc (maxa (cl_retry_policy c')).
        (\<forall>n. sent' x n = (if 1 \<le> n \<and> n \<le> N then 1 else 0)) \<and> (next_request_id c' \<le> x \<longrightarrow> N = 0) \<and>
        (\<forall>a p. active_requests c' x = Some (a, p) \<longrightarrow> at_number a = N)"
  proof (cases "x = rid")
    case True
    with old M(3,4) have "N = Suc M" by auto
    with True M(2) have "\<forall>n. sent' x n = (if 1 \<le> n \<and> n \<le> N then 1 else 0)"
      by (auto simp: sent)
    with True N nxt(2) c' show ?thesis by (intro exI [of _ N]) auto
  next
    case False
    with M nxt(1) [OF False] c' sent show ?thesis by (intro exI [of _ M]) auto
  qed
qed

lemma send_attempt_attempt:
  assumes "send_attempt rid N k c s = (a, c', s')"
  shows "pending (attempt_event k x n) s' = pending (attempt_event k x n) s + (if x = rid \<and> n = N then 1 else 0)"
    "at_number a = N" "c' = c\<lparr>next_attempt_id := next_attempt_id c + 1\<rparr>"
  using assms by (auto simp: send_attempt_def Let_def request_attempt_new_def schedule_now_def)

context retry_policy
begin

lemma handle_response_numbered:
  assumes "client_numbered max_attempts (\<lambda>x n. H x n + pending (attempt_event k x n) s) c"
    and "handle_response should_retry resp k c s = (c', s')"
  shows "client_numbered max_attempts (\<lambda>x n. H x n + pending (attempt_event k x n) s') c'"
  by (rule client_numbered_same [OF assms(1)])
    (use assms(2) in \<open>auto simp: handle_response_def Let_def split: option.splits prod.splits if_splits\<close>)

lemma handle_timeout_numbered:
  assumes "client_numbered max_attempts (\<lambda>x n. H x n + pending (attempt_event k x n) s) c"
    and "handle_timeout should_retry rid ai k c s = (c', s')"
  shows "client_numbered max_attempts (\<lambda>x n. H x n + pending (attempt_event k x n) s') c'"
  by (rule client_numbered_same [OF assms(1)])
    (use assms(2) in \<open>auto simp: handle_timeout_def Let_def split: option.splits prod.splits if_splits\<close>)

lemma handle_retry_numbered:
  assumes num: "client_numbered max_attempts (\<lambda>x n. H x n + pending (attempt_event k x n) s) c"
    and ok: "client_ok max_attempts used n (\<lambda>x. retries_at k s x + (if x = rid then 1 else 0)) c"
    and step: "handle_retry rid k c s = (c', s')"
  shows "client_numbered max_attempts (\<lambda>x n. H x n + pending (attempt_event k x n) s') c'"
proof (cases "active_requests c rid")
  case None
  with num step show ?thesis by (simp add: handle_retry_def)
next
  case (Some ap)
  then obtain a p where ap: "active_requests c rid = Some (a, p)" by (cases ap) auto
  obtain b c1 where sa: "send_attempt rid (at_number a + 1) k (c\<lparr>active_requests := (active_requests c)(rid := None)\<rparr>) s = (b, c1, s')"
    and c': "c' = c1\<lparr>active_requests := (active_requests c1)(rid \<mapsto> (b, p))\<rparr>"
    using step ap by (auto simp: handle_retry_def Let_def split: prod.splits)
  note S = send_attempt_attempt [OF sa]
  note D = client_okD [OF ok ap]
  show ?thesis
    by (rule client_numbered_attempt [OF num, of _ rid "at_number a + 1" _ b p])
      (use D S ap in \<open>auto simp: c'\<close>)
qed

lemma send_request_numbered:
  assumes num: "client_numbered max_attempts (\<lambda>x n. H x n + pending (attempt_event k x n) s) c"
    and ok: "client_ok max_attempts used n (retries_at k s) c" "Suc (Suc n) < 2 ^ 64"
    and step: "send_request reset k c s = (c', s')"
  shows "client_numbered max_attempts (\<lambda>x n. H x n + pending (attempt_event k x n) s') c'"
proof -
  let ?rid = "next_request_id c" and ?c = "c\<lparr>next_request_id := next_request_id c + 1\<rparr>"
  obtain b c1 where sa: "send_attempt ?rid 1 k ?c s = (b, c1, s')"
    and c': "c' = c1\<lparr>active_requests := (active_requests c1)(?rid \<mapsto> (b, reset (cl_retry_policy c))),
      requests_sent := requests_sent c1 + 1\<rparr>"
    using step by (auto simp: send_request_def Let_def split: prod.splits)
  note S = send_attempt_attempt [OF sa]
  have "unat (?rid + 1) = Suc (unat ?rid)"
    using ok by (intro unat_Suc_word) (auto simp: client_ok_def unat_max)
  then have lt: "?rid < ?rid + 1" "x \<noteq> ?rid \<Longrightarrow> ?rid + 1 \<le> x \<Longrightarrow> ?rid \<le> x" for x
    by (simp_all add: word_less_nat_alt word_le_nat_alt)
  show ?thesis
    by (rule client_numbered_attempt [OF num, of _ ?rid 1 _ b "reset (cl_retry_policy c)"])
      (use S lt in \<open>auto simp: c'\<close>)
qed

lemma client_event_numbered:
  assumes "client_numbered max_attempts (\<lambda>x n. H x n + pending (attempt_event k x n) s) c"
    and "client_ok max_attempts used n (\<lambda>x. retries_at k s x + (if ev = RetryRequest x then 1 else 0)) c"
    and "Suc (Suc n) < 2 ^ 64" "client_process_event should_retry reset k ev c s = (c', s')"
  shows "client_numbered max_attempts (\<lambda>x n. H x n + pending (attempt_event k x n) s') c'"
proof (cases ev)
  case SendRequest
  with assms send_request_numbered [OF assms(1) _ assms(3)] show ?thesis by simp
next
  case (ResponseReceived resp)
  with assms handle_response_numbered show ?thesis by simp
next
  case (RequestTimeout rid ai)
  with assms handle_timeout_numbered show ?thesis by simp
next
  case (RetryRequest rid)
  with assms handle_retry_numbered [OF assms(1), of n rid] show ?thesis by (simp add: eq_commute)
qed

end

section \<open>The system\<close>

text \<open>No other component sends attempts of the client.\<close>

lemma server_msg_no_attempt: "\<forall>m\<in>set ms. server_msg k0 K m \<Longrightarrow> msg_count (attempt_event k rid n) ms = 0"
proof (induction ms)
  case (Cons m ms)
  obtain d k' ev where m: "m = (d, k', ev)" using prod_cases3 by blast
  with Cons show ?case
    by (cases "(k0, K, m)" rule: server_msg.cases) auto
qed simp

lemma client_msg_no_attempt:
  "\<forall>m\<in>set ms. client_msg k0 sk b m \<Longrightarrow> k0 \<noteq> k \<Longrightarrow> msg_count (attempt_event k rid n) ms = 0"
proof (induction ms)
  case (Cons m ms)
  obtain d k' ev where m: "m = (d, k', ev)" using prod_cases3 by blast
  with Cons show ?case
    by (cases "(k0, sk, b, m)" rule: client_msg.cases) auto
qed simp

definition numbered_ok ::
  "('p \<Rightarrow> nat) \<Rightarrow> service_event event_entry list \<Rightarrow> (uuid \<rightharpoonup> ('d, 'p) service_component) \<Rightarrow> 'z service_world \<Rightarrow> bool"
where
  "numbered_ok maxa es T w \<longleftrightarrow>
     (\<forall>k cl. T k = Some (ClientC cl) \<longrightarrow> client_numbered maxa (attempts_sent k es w) cl)"

lemma numbered_ok_pending:
  "numbered_ok maxa es T w \<Longrightarrow> (\<And>k rid n. pending (attempt_event k rid n) w' = pending (attempt_event k rid n) w) \<Longrightarrow>
   numbered_ok maxa es T w'"
  by (simp add: numbered_ok_def attempts_sent_def [abs_def])

lemma numbered_ok_pop:
  assumes "numbered_ok maxa es T s" "pop_effect s e w"
  shows "numbered_ok maxa (es @ [e]) T w"
proof -
  have "attempts_sent k (es @ [e]) w = attempts_sent k es s" for k
    using pending_pop [OF assms(2)] by (auto simp: attempts_sent_def fun_eq_iff)
  with assms(1) show ?thesis by (simp add: numbered_ok_def)
qed

lemma process_component_numbered:
  fixes s w0 w w' :: "'z service_world"
  assumes pol: "retry_policy should_retry reset maxa used" and fit: "Suc (Suc n) < 2 ^ 64"
    and T: "T = component_table cs" "K = kinds maxa T"
    and pop: "pop_effect s (Component e) w0" and w: "\<And>P. pending P w = pending P w0"
    and ok: "\<And>k c. T k = Some c \<Longrightarrow> component_ok maxa used n K k c s" and num: "numbered_ok maxa es T w"
    and proc: "process_event_entry exec (service_handle smp should_retry reset) (Component e) cs w = Some (cs', w')"
  shows "numbered_ok maxa es (component_table cs') w'"
proof (cases "T (component e)")
  case None
  then have "cs' = cs" "w' = w" using proc T by auto
  with num T show ?thesis by simp
next
  case (Some c)
  let ?k = "component e"
  obtain c' where h: "service_handle smp should_retry reset c ?k (inner e) w = Some (c', w')"
    and cs': "component_table cs' = T(?k \<mapsto> c')"
    using proc T Some by (auto split: option.splits prod.splits)
  have cok: "component_ok maxa used n K ?k c s" by (rule ok) fact
  have others: "client_numbered maxa (attempts_sent k es w') cl"
    if "T k = Some (ClientC cl)" "\<And>rid m. pending (attempt_event k rid m) w' = pending (attempt_event k rid m) w" for k cl
    using num that by (simp add: numbered_ok_def attempts_sent_def [abs_def])
  show ?thesis
  proof (cases c)
    case (ServerC sv)
    with h obtain sev sv' where sev: "inner e = ServerEvent sev" "c' = ServerC sv'"
      and step: "server_process_event smp ?k sev sv w = Some (sv', w')"
      by (cases "inner e") auto
    have "server_ok (pending (completion ?k) w + is_completed sev) (pending (wakeup ?k) w + is_wakeup sev) sv"
      using popped_server_ok [OF pop sev(1), of sv] cok ServerC w by (simp add: component_ok_def)
    from server_step_ok [OF step this] obtain ms where "w' = send ms w"
      "\<forall>m\<in>set ms. server_msg ?k (insert nil_uuid (event_clients sev \<union> queue_clients sv)) m" by blast
    then have "pending (attempt_event k rid m) w' = pending (attempt_event k rid m) w" for k rid m
      using server_msg_no_attempt by (simp add: pending_send)
    with others sev(2) show ?thesis by (auto simp: numbered_ok_def cs')
  next
    case (ClientC cl)
    with h obtain cev cl' where cev: "inner e = ClientEvent cev" "c' = ClientC cl'"
      and step: "client_process_event should_retry reset ?k cev cl w = (cl', w')"
      by (cases "inner e") (auto split: prod.splits)
    have "retries_at ?k w = retries_at ?k w0" using w by (simp add: retries_at_def fun_eq_iff)
    note pc = popped_client(1) [OF pop cev(1), folded this]
    have cl: "client_ok maxa used n (\<lambda>x. retries_at ?k w x + (if cev = RetryRequest x then 1 else 0)) cl"
      using cok ClientC by (simp add: component_ok_def pc)
    have "client_step maxa used (Suc n) ?k cl w (cl', w')"
      using retry_policy.client_event_step [OF pol cl fit] step by simp
    then obtain ms where ms: "w' = send ms w" "\<forall>m\<in>set ms. client_msg ?k (server_key cl) (maxa (cl_retry_policy cl)) m"
      by (auto simp: client_step_def)
    have "pending (attempt_event k rid m) w' = pending (attempt_event k rid m) w" if "k \<noteq> ?k" for k rid m
      using client_msg_no_attempt [OF ms(2)] that by (simp add: ms(1) pending_send)
    moreover have "client_numbered maxa (attempts_sent ?k es w') cl'"
      using retry_policy.client_event_numbered [OF pol _ cl fit step] num Some ClientC
      by (simp add: numbered_ok_def attempts_sent_def [abs_def])
    ultimately show ?thesis using others cev(2) by (auto simp: numbered_ok_def cs')
  qed
qed

lemma process_task_numbered:
  assumes "numbered_ok maxa es T w" "snd (execute_task (exec_task send_code) i w) = w'"
  shows "numbered_ok maxa es T w'"
proof -
  obtain ms where ms: "\<And>P. pending P w' = pending P (send ms w)"
    "ms = [] \<or> (\<exists>t\<in>ran (pending_tasks w). ms = [(zero, task_key t, ClientEvent SendRequest)])"
    using execute_send_task [OF assms(2)] by blast
  then show ?thesis by (intro numbered_ok_pending [OF assms(1)]) (auto simp: pending_send)
qed

abbreviation sim_numbered ::
  "('p \<Rightarrow> nat) \<Rightarrow> service_event event_entry list \<Rightarrow> ('z, 'p, 'd, 'r) service_sim \<Rightarrow> bool"
where
  "sim_numbered maxa es sim \<equiv> numbered_ok maxa es (component_table (sim_components sim)) (sched sim)"

lemma step_numbered:
  assumes pol: "retry_policy should_retry reset maxa used" and fit: "Suc (Suc n) < 2 ^ 64"
    and ok: "sim_ok sim" "system_ok maxa used n sim" "sim_numbered maxa es sim"
    and st: "step (exec_task send_code) (service_handle smp should_retry reset) sim = Some (True, sim')"
    and ne: "next_entry sim = Some e"
  shows "sim_numbered maxa (es @ [e]) sim'"
  using st
proof (cases rule: stepE)
  case (idle p w)
  then show ?thesis by simp
next
  case (event e' p w0 cs w')
  then have e': "e' = e" using ne by (simp add: next_entry_def)
  note res = entry_invariant_ok [OF pol fit ok(1,2) event(1,2) [unfolded e']]
  let ?T = "component_table (sim_components sim)" and ?w = "set_scheduler_context w0"
  have sys: "\<And>k c. ?T k = Some c \<Longrightarrow> component_ok maxa used n (kinds maxa ?T) k c (sched sim)"
    using ok(2) by (auto simp: system_ok_def Let_def)
  have num: "numbered_ok maxa (es @ [e]) ?T ?w"
    by (rule numbered_ok_pending [OF numbered_ok_pop [OF ok(3) res(1)]]) simp
  have "numbered_ok maxa (es @ [e]) (component_table cs) w'"
  proof (cases e)
    case (Component ce)
    have w: "pending P ?w = pending P w0" for P by simp
    show ?thesis
      by (rule process_component_numbered [OF pol fit refl refl res(1) [unfolded Component] w sys num
            event(2) [unfolded e' Component]])
  next
    case (Task te)
    have "cs = sim_components sim" "snd (execute_task (exec_task send_code) (te_task_id te) ?w) = w'"
      using event(2) e' Task by auto
    with process_task_numbered [OF num, of "te_task_id te" w'] show ?thesis by simp
  qed
  moreover have "drain_deferred_wakes (clear_scheduler_context w') = clear_scheduler_context w'"
    using res(2) by (blast intro: drain_world_ok)
  ultimately show ?thesis
    using event(4) numbered_ok_pending [of maxa "es @ [e]" "component_table cs" w' "clear_scheduler_context w'"] by simp
qed

lemma run_numbered:
  assumes pol: "retry_policy should_retry reset maxa used"
    and run: "sim_run (exec_task send_code) (service_handle smp should_retry reset) sim es sim'"
    and "sim_ok sim" "system_ok maxa used n sim" "sim_numbered maxa es0 sim"
    and "Suc (n + length es) < 2 ^ 64" "ids_fit (sched sim')"
  shows "sim_numbered maxa (es0 @ es) sim'"
  using run assms(3-)
proof (induction arbitrary: n es0 rule: sim_run.induct)
  case (run_nil sim)
  then show ?case by simp
next
  case (run_step sim e sim1 es sim2)
  have "ids_fit (sched sim1)"
    by (rule service.run_ids_fit) fact+
  then have "sim_ok sim1"
    using service.step_sound [OF run_step.prems(1) run_step.hyps(2)] by blast
  moreover have fit: "Suc (Suc n) < 2 ^ 64" using run_step.prems(4) by simp
  have "system_ok maxa used (Suc n) sim1"
    using system_step [OF pol fit run_step.prems(1,2) run_step.hyps(2,1)] by blast
  moreover have "sim_numbered maxa (es0 @ [e]) sim1"
    by (rule step_numbered [OF pol fit run_step.prems(1-3) run_step.hyps(2,1)])
  ultimately show ?case
    using run_step.IH [of "Suc n" "es0 @ [e]"] run_step.prems(4,5) by simp
next
  case (run_idle sim sim1 es sim2)
  have "ids_fit (sched sim1)"
    by (rule service.run_ids_fit) fact+
  then have "sim_ok sim1"
    using service.step_sound [OF run_idle.prems(1) run_idle.hyps(2)] by blast
  moreover from run_idle.hyps(2) obtain p w where
    pop: "pop_with_policy (policy sim) (policy_state sim) (sched sim) = (None, p, w)"
    and sim1: "sim1 = sim\<lparr>policy_state := p, sched := w\<rparr>"
    by (cases rule: stepE) auto
  have "system_ok maxa used n sim1"
    using system_idle [OF run_idle.prems(1) pop run_idle.prems(2)] sim1 by simp
  moreover have "sim_numbered maxa es0 sim1"
    using numbered_ok_pending [OF run_idle.prems(3) idle_pending [OF run_idle.prems(1) pop]] by (simp add: sim1)
  ultimately show ?case
    using run_idle.IH [of n es0] run_idle.prems(4,5) by simp
qed

lemma init_numbered:
  assumes "system_init maxa sim"
  shows "sim_numbered maxa [] sim"
proof -
  have "pending (attempt_event k rid n) (sched sim) = 0" for k rid n
    unfolding pending_none
  proof
    fix e assume "e \<in> set (events (sched sim))"
    with assms show "\<not> entry_sat (attempt_event k rid n) e" by (cases e) (auto simp: system_init_def)
  qed
  then have "attempts_sent k [] (sched sim) rid n = 0" for k rid n by (simp add: attempts_sent_def)
  with assms show ?thesis
    unfolding numbered_ok_def client_numbered_def by (auto simp: system_init_def intro!: exI [of _ 0])
qed

section \<open>Property\<close>

text \<open>
  C29. Retries are bounded: whatever the timing of responses, timeouts and retries, also when an
  answer comes after the timeout of its attempt, the attempts of a request that its client has sent
  to the server, processed or still in the event queue, have the numbers from one up to some
  number, each of them once; so none is sent twice, and there are no more of them than the
  policy allows retries, plus one.
\<close>

theorem attempts_bounded:
  assumes "retry_policy should_retry reset maxa used" and "system_init maxa sim"
    and "sim_run (exec_task send_code) (service_handle smp should_retry reset) sim es sim'"
    and "Suc (length es) < 2 ^ 64" and "ids_fit (sched sim')"
    and "component_table (sim_components sim) k = Some (ClientC cl)"
  shows "\<exists>N\<le>Suc (maxa (cl_retry_policy cl)).
    mset (attempt_numbers k rid (es @ events (sched sim'))) = mset [1..<Suc N]"
proof -
  have num: "sim_numbered maxa es sim'"
    using run_numbered [OF assms(1,3) _ system_init_ok [OF assms(2)] init_numbered [OF assms(2)]] assms(2,4,5)
    by (simp add: system_init_def)
  have "sim_kinds maxa sim' = sim_kinds maxa sim" using system_run_init [OF assms(1-5)] by blast
  then obtain c where c: "component_table (sim_components sim') k = Some c"
    "kind_of maxa c = IsClient (maxa (cl_retry_policy cl))"
    using assms(6) by (auto simp: kinds_def kind_of_def dest!: fun_cong [where x = k])
  then obtain cl' where cl': "component_table (sim_components sim') k = Some (ClientC cl')"
    "maxa (cl_retry_policy cl') = maxa (cl_retry_policy cl)"
    by (cases c) (auto simp: kind_of_def)
  with num obtain N where N: "N \<le> Suc (maxa (cl_retry_policy cl))"
    "\<And>n. attempts_sent k es (sched sim') rid n = (if 1 \<le> n \<and> n \<le> N then 1 else 0)"
    unfolding numbered_ok_def client_numbered_def by metis
  have "count (mset (attempt_numbers k rid (es @ events (sched sim')))) n = count (mset [1..<Suc N]) n" for n
    using N(2) [of n] by (auto simp: attempts_sent_numbers count_list_0_iff distinct_count_atmost_1 simp del: upt_Suc attempt_numbers_append)
  then show ?thesis using N(1) by (intro exI [of _ N]) (simp only: multiset_eq_iff, simp)
qed

section \<open>Instance\<close>

text \<open>
  A client whose timeout of one millisecond passes before the server answers: after four events
  the first attempt has been processed and the second one is in the queue.
\<close>

definition retry_sim :: "(unit, fixed_retry, unit, unit) service_sim" where
  "retry_sim =
     (let sim = simulation_new 42 ();
          cs = \<lparr>component_table = [1 \<mapsto> ServerC (with_constant_service_time [] 1 (duration_from_millis 10)),
                  2 \<mapsto> ClientC (with_timeout (duration_from_millis 1) (client_new [] 1 0 (fixed_retry_new 2 0)))],
                components_next_id = 0, components_id_seed = 0\<rparr>
      in sim\<lparr>sim_components := cs, sched := schedule zero 2 (ClientEvent SendRequest) (sched sim)\<rparr>)"

definition retry_run where
  "retry_run n = run_n (exec_task send_code) (service_handle (\<lambda>d. (0, d)) fr_should_retry fr_reset) n retry_sim"

lemmas retry_eval = retry_run_def retry_sim_def demo_eval with_timeout_def handle_retry_def fr_should_retry_def is_retryable_def

lemma retry_init: "system_init fr_max_attempts retry_sim"
  by (simp add: system_init_def retry_eval sim_ok_def sched_ok_def tasks_inv_def in_scheduler_context_def
      nil_uuid_def queue_ok_def kinds_def kind_of_def is_server_key_def client_key_def)

lemma retry_run_four:
  "\<exists>es sim'. retry_run (Suc (Suc (Suc (Suc 0)))) = Some (es, sim') \<and> length es = 4 \<and> ids_fit (sched sim') \<and>
     attempt_numbers 2 1 es = [1] \<and> attempt_numbers 2 1 (events (sched sim')) = [2]"
  by (simp add: retry_eval attempt_numbers_def map_filter_simps)

theorem attempts_bounded_witness:
  "\<exists>es sim' N. retry_run (Suc (Suc (Suc (Suc 0)))) = Some (es, sim') \<and> attempt_numbers 2 1 es = [1] \<and>
     N \<le> 3 \<and> mset (attempt_numbers 2 1 (es @ events (sched sim'))) = mset [1..<Suc N]"
proof -
  obtain es sim' where d: "retry_run (Suc (Suc (Suc (Suc 0)))) = Some (es, sim')" "length es = 4"
    "ids_fit (sched sim')" "attempt_numbers 2 1 es = [1]"
    using retry_run_four by blast
  from d(1) have run: "sim_run (exec_task send_code) (service_handle (\<lambda>d. (0, d)) fr_should_retry fr_reset)
      retry_sim es sim'"
    unfolding retry_run_def by (blast dest: run_n_run)
  have "component_table (sim_components retry_sim) 2 =
      Some (ClientC (with_timeout (duration_from_millis 1) (client_new [] 1 0 (fixed_retry_new 2 0))))"
    by (simp add: retry_sim_def Let_def)
  from attempts_bounded [OF fixed.retry_policy_axioms retry_init run _ d(3) this, of 1] d show ?thesis
    by (auto simp: client_new_def with_timeout_def fixed_retry_new_def)
qed

end
