(* ===== verification/Tonic_Wire.thy ===== *)
theory Tonic_Wire
  imports Utf8
begin

text \<open>
  \<open>des-tonic/src/wire.rs\<close>: the binary encoding of unary requests, responses and stream
  frames. A buffer is a list of bytes; writing appends, reading returns the value and what is
  left, or the error text. \<open>String\<close>s are their UTF-8 bytes. The status codes and their
  numbers belong to the crate \<open>tonic\<close>: the type \<open>'c\<close> and the functions \<open>to_u32\<close> and
  \<open>from_i32\<close> are parameters.
\<close>

section \<open>Little-endian integers and length-prefixed values\<close>

type_synonym 'a reader = "byte list \<Rightarrow> string + ('a \<times> byte list)"

text \<open>\<open>?\<close> on a reader: go on with the value and the rest of the buffer, or fail.\<close>

definition bind :: "'a reader \<Rightarrow> ('a \<Rightarrow> 'b reader) \<Rightarrow> 'b reader" where
  "bind r f buf = (case r buf of Inl e \<Rightarrow> Inl e | Inr (x, rest) \<Rightarrow> f x rest)"

definition ok :: "'a \<Rightarrow> 'a reader" where
  "ok x buf = Inr (x, buf)"

definition fail :: "string \<Rightarrow> 'a reader" where
  "fail e buf = Inl e"

definition le_bytes :: "nat \<Rightarrow> 'a::len word \<Rightarrow> byte list" where
  "le_bytes n w = map (\<lambda>i. ucast (drop_bit (8 * i) w)) [0..<n]"

fun le_word :: "byte list \<Rightarrow> 'a::len word" where
  "le_word [] = 0"
| "le_word (b # bs) = or (ucast b) (push_bit 8 (le_word bs))"

definition put_u32 :: "byte list \<Rightarrow> u32 \<Rightarrow> byte list" where
  "put_u32 buf v = buf @ le_bytes 4 v"

definition get_u32 :: "u32 reader" where
  "get_u32 buf = (if length buf < 4 then Inl ''truncated'' else Inr (le_word (take 4 buf), drop 4 buf))"

definition put_u64 :: "byte list \<Rightarrow> u64 \<Rightarrow> byte list" where
  "put_u64 buf v = buf @ le_bytes 8 v"

definition get_u64 :: "u64 reader" where
  "get_u64 buf = (if length buf < 8 then Inl ''truncated'' else Inr (le_word (take 8 buf), drop 8 buf))"

definition put_u8 :: "byte list \<Rightarrow> byte \<Rightarrow> byte list" where
  "put_u8 buf v = buf @ [v]"

definition get_u8 :: "byte reader" where
  "get_u8 buf = (case buf of [] \<Rightarrow> Inl ''truncated'' | b # rest \<Rightarrow> Inr (b, rest))"

text \<open>\<open>bytes.len() as u32\<close> truncates.\<close>

definition put_bytes :: "byte list \<Rightarrow> byte list \<Rightarrow> byte list" where
  "put_bytes buf bytes = put_u32 buf (word_of_nat (length bytes)) @ bytes"

definition get_bytes :: "byte list reader" where
  "get_bytes = bind get_u32 (\<lambda>len buf.
     if length buf < unat len then Inl ''truncated'' else Inr (take (unat len) buf, drop (unat len) buf))"

definition put_string :: "byte list \<Rightarrow> str \<Rightarrow> byte list" where
  "put_string buf s = put_bytes buf s"

definition get_string :: "str reader" where
  "get_string = bind get_bytes (\<lambda>b. if utf8_valid b then ok b else fail ''invalid utf-8'')"

definition put_kv :: "byte list \<Rightarrow> (str \<times> str) list \<Rightarrow> byte list" where
  "put_kv buf entries =
     fold (\<lambda>(k, v) buf. put_string (put_string buf k) v) entries
       (put_u32 buf (word_of_nat (length entries)))"

fun get_entries :: "nat \<Rightarrow> (str \<times> str) list \<Rightarrow> (str \<times> str) list reader" where
  "get_entries 0 out = ok out"
| "get_entries (Suc n) out =
     bind get_string (\<lambda>k. bind get_string (\<lambda>v. get_entries n (out @ [(k, v)])))"

definition get_kv :: "(str \<times> str) list reader" where
  "get_kv = bind get_u32 (\<lambda>n. get_entries (unat n) [])"

section \<open>Messages\<close>

record unary_request_wire =
  uq_method :: str
  uq_metadata :: "(str \<times> str) list"
  uq_payload :: "byte list"

record 'c unary_response_wire =
  up_ok :: bool
  up_code :: 'c
  up_message :: str
  up_metadata :: "(str \<times> str) list"
  up_payload :: "byte list"

datatype stream_frame_kind = Open | Data | Close | Cancel

fun kind_to_u8 :: "stream_frame_kind \<Rightarrow> byte" where
  "kind_to_u8 Open = 0"
| "kind_to_u8 Data = 1"
| "kind_to_u8 Close = 2"
| "kind_to_u8 Cancel = 3"

definition kind_from_u8 :: "byte \<Rightarrow> string + stream_frame_kind" where
  "kind_from_u8 v =
     (if v = 0 then Inr Open else if v = 1 then Inr Data else if v = 2 then Inr Close
      else if v = 3 then Inr Cancel else Inl ''invalid StreamFrameKind'')"

datatype stream_direction = ClientToServer | ServerToClient

fun direction_to_u8 :: "stream_direction \<Rightarrow> byte" where
  "direction_to_u8 ClientToServer = 0"
| "direction_to_u8 ServerToClient = 1"

definition direction_from_u8 :: "byte \<Rightarrow> string + stream_direction" where
  "direction_from_u8 v =
     (if v = 0 then Inr ClientToServer else if v = 1 then Inr ServerToClient
      else Inl ''invalid StreamDirection'')"

record 'c stream_frame_wire =
  stream_id :: str
  direction :: stream_direction
  sf_seq :: u64
  kind :: stream_frame_kind
  sf_method :: "str option"
  sf_metadata :: "(str \<times> str) list"
  sf_payload :: "byte list"
  status_ok :: bool
  status_code :: 'c
  status_message :: str

section \<open>Encoding and decoding\<close>

definition encode_unary_request :: "unary_request_wire \<Rightarrow> byte list" where
  "encode_unary_request msg =
     (let buf = [];
          buf = put_string buf (uq_method msg);
          buf = put_kv buf (uq_metadata msg)
      in put_bytes buf (uq_payload msg))"

definition decode_unary_request :: "unary_request_wire reader" where
  "decode_unary_request =
     bind get_string (\<lambda>method.
     bind get_kv (\<lambda>metadata.
     bind get_bytes (\<lambda>payload.
     ok \<lparr>uq_method = method, uq_metadata = metadata, uq_payload = payload\<rparr>)))"

definition encode_unary_response :: "('c \<Rightarrow> u32) \<Rightarrow> 'c unary_response_wire \<Rightarrow> byte list" where
  "encode_unary_response to_u32 msg =
     (let buf = [];
          buf = put_u8 buf (if up_ok msg then 1 else 0);
          buf = put_u32 buf (to_u32 (up_code msg));
          buf = put_string buf (up_message msg);
          buf = put_kv buf (up_metadata msg)
      in put_bytes buf (up_payload msg))"

text \<open>\<open>code_u32 as i32\<close> keeps the bits.\<close>

definition decode_unary_response :: "(32 word \<Rightarrow> 'c) \<Rightarrow> 'c unary_response_wire reader" where
  "decode_unary_response from_i32 =
     bind get_u8 (\<lambda>ok_u8.
     bind get_u32 (\<lambda>code_u32.
     bind get_string (\<lambda>message.
     bind get_kv (\<lambda>metadata.
     bind get_bytes (\<lambda>payload.
     ok \<lparr>up_ok = (ok_u8 \<noteq> 0), up_code = from_i32 code_u32, up_message = message,
         up_metadata = metadata, up_payload = payload\<rparr>)))))"

definition encode_stream_frame :: "('c \<Rightarrow> u32) \<Rightarrow> 'c stream_frame_wire \<Rightarrow> byte list" where
  "encode_stream_frame to_u32 frame =
     (let buf = [];
          buf = put_string buf (stream_id frame);
          buf = put_u8 buf (direction_to_u8 (direction frame));
          buf = put_u64 buf (sf_seq frame);
          buf = put_u8 buf (kind_to_u8 (kind frame));
          buf = (case kind frame of
                   Open \<Rightarrow>
                     (case sf_method frame of
                        Some method \<Rightarrow> put_string (put_u8 buf 1) method
                      | None \<Rightarrow> put_u8 buf 0)
                 | _ \<Rightarrow> put_u8 buf 0);
          buf = put_kv buf (sf_metadata frame);
          buf = put_bytes buf (sf_payload frame)
      in if kind frame = Close \<or> kind frame = Cancel
         then put_string (put_u32 (put_u8 buf (if status_ok frame then 1 else 0))
                (to_u32 (status_code frame))) (status_message frame)
         else buf)"

text \<open>\<open>from_u8(..).map_err(..)?\<close> inside a decoder.\<close>

definition lift_result :: "string + 'a \<Rightarrow> 'a reader" where
  "lift_result r buf = (case r of Inl e \<Rightarrow> Inl e | Inr x \<Rightarrow> Inr (x, buf))"

definition get_method :: "byte \<Rightarrow> str option reader" where
  "get_method present =
     (if present = 0 then ok None
      else if present = 1 then bind get_string (\<lambda>m. ok (Some m))
      else fail ''invalid method flag'')"

definition check_method :: "stream_frame_kind \<Rightarrow> str option \<Rightarrow> unit reader" where
  "check_method k method =
     (if k = Open
      then (if method = None then fail ''Open frame missing method'' else ok ())
      else (if method \<noteq> None then fail ''method only allowed for Open'' else ok ()))"

definition get_status ::
  "'c \<Rightarrow> (32 word \<Rightarrow> 'c) \<Rightarrow> stream_frame_kind \<Rightarrow> (bool \<times> 'c \<times> str) reader"
where
  "get_status code_ok from_i32 k =
     (if k = Close \<or> k = Cancel
      then bind get_u8 (\<lambda>ok_u8.
           bind get_u32 (\<lambda>code_u32.
           bind get_string (\<lambda>message.
           ok (ok_u8 \<noteq> 0, from_i32 code_u32, message))))
      else ok (True, code_ok, []))"

definition decode_stream_frame :: "'c \<Rightarrow> (32 word \<Rightarrow> 'c) \<Rightarrow> 'c stream_frame_wire reader" where
  "decode_stream_frame code_ok from_i32 =
     bind get_string (\<lambda>stream_id.
     bind get_u8 (\<lambda>direction_u8.
     bind (lift_result (direction_from_u8 direction_u8)) (\<lambda>direction.
     bind get_u64 (\<lambda>seq.
     bind get_u8 (\<lambda>kind_u8.
     bind (lift_result (kind_from_u8 kind_u8)) (\<lambda>kind.
     bind get_u8 (\<lambda>method_present.
     bind (get_method method_present) (\<lambda>method.
     bind (check_method kind method) (\<lambda>_.
     bind get_kv (\<lambda>metadata.
     bind get_bytes (\<lambda>payload.
     bind (get_status code_ok from_i32 kind) (\<lambda>(status_ok, status_code, status_message).
     ok \<lparr>stream_id = stream_id, direction = direction, sf_seq = seq, kind = kind,
         sf_method = method, sf_metadata = metadata, sf_payload = payload,
         status_ok = status_ok, status_code = status_code,
         status_message = status_message\<rparr>))))))))))))"

text \<open>What the public decoders return: the value without the rest of the buffer.\<close>

definition decoded :: "'a reader \<Rightarrow> byte list \<Rightarrow> string + 'a" where
  "decoded r bytes = (case r bytes of Inl e \<Rightarrow> Inl e | Inr (x, _) \<Rightarrow> Inr x)"

section \<open>Readers and what they read\<close>

text \<open>
  \<open>codes r bs x\<close>: the bytes \<open>bs\<close> are what the reader \<open>r\<close> takes for \<open>x\<close>, whatever
  follows them, and no proper prefix of them is enough.
\<close>

definition codes :: "'a reader \<Rightarrow> byte list \<Rightarrow> 'a \<Rightarrow> bool" where
  "codes r bs x \<longleftrightarrow>
     (\<forall>rest. r (bs @ rest) = Inr (x, rest)) \<and> (\<forall>n<length bs. r (take n bs) = Inl ''truncated'')"

named_theorems codes_intros \<open>what the readers of the wire format take\<close>

lemma codes_ok [codes_intros]: "x = y \<Longrightarrow> codes (ok x) [] y"
  by (simp add: codes_def ok_def)

lemma codes_bind:
  assumes "codes r bs x" "codes (f x) cs y"
  shows "codes (bind r f) (bs @ cs) y"
proof -
  have "bind r f (take n (bs @ cs)) = Inl ''truncated''" if "n < length (bs @ cs)" for n
    using assms that by (cases "n < length bs") (auto simp: codes_def bind_def)
  then show ?thesis using assms by (simp add: codes_def bind_def)
qed

lemma bind_reads:
  "codes r bs x \<Longrightarrow> bind r f (bs @ rest) = f x rest"
  "codes r [] x \<Longrightarrow> bind r f rest = f x rest"
  by (simp_all add: codes_def bind_def)

lemma codes_bind_end: "codes r bs x \<Longrightarrow> f x = ok y \<Longrightarrow> codes (bind r f) bs y"
  using codes_bind [of r bs x f "[]" y] by (simp add: codes_ok)

lemma codes_bind_ok [codes_intros]: "codes r bs x \<Longrightarrow> y = f x \<Longrightarrow> codes (bind r (\<lambda>x. ok (f x))) bs y"
  by (rule codes_bind_end) simp_all

lemma codes_u8: "codes get_u8 [b] b"
  by (simp add: codes_def get_u8_def)

lemma codes_bind_u8: "codes (f b) cs y \<Longrightarrow> codes (bind get_u8 f) (b # cs) y"
  using codes_bind [OF codes_u8, of f b cs y] by simp

lemma bind_u8: "bind get_u8 f (b # rest) = f b rest"
  by (simp add: bind_def get_u8_def)

text \<open>Steps that read nothing.\<close>

lemma codes_bind_nil:
  "codes r [] x \<Longrightarrow> codes (f x) cs y \<Longrightarrow> codes (bind r f) cs y"
  using codes_bind [of r "[]" x f cs y] by simp

lemma codes_direction: "codes (lift_result (direction_from_u8 (direction_to_u8 d))) [] d"
  by (cases d) (simp_all add: codes_def lift_result_def direction_from_u8_def)

lemma codes_kind: "codes (lift_result (kind_from_u8 (kind_to_u8 k))) [] k"
  by (cases k) (simp_all add: codes_def lift_result_def kind_from_u8_def)

lemma codes_check: "(k = Open \<longleftrightarrow> m \<noteq> None) \<Longrightarrow> codes (check_method k m) [] ()"
  by (simp add: check_method_def codes_ok)

lemma le_bytes_length [simp]: "length (le_bytes n w) = n"
  by (simp add: le_bytes_def)

lemma le_bytes_Suc: "le_bytes (Suc n) w = ucast w # le_bytes n (drop_bit 8 w)"
  by (simp add: le_bytes_def map_upt_Suc add.commute del: upt_Suc)

lemma le_word_bytes: "le_word (le_bytes n w) = take_bit (8 * n) w"
proof (induction n arbitrary: w)
  case (Suc n)
  show ?case
    by (rule bit_eqI) (auto simp: le_bytes_Suc Suc bit_simps)
qed (simp add: le_bytes_def)

lemma codes_u32 [codes_intros]: "codes get_u32 (le_bytes 4 v) v"
  using le_word_bytes [of 4 v] by (simp add: codes_def get_u32_def take_bit_word_eq_self)

lemma codes_u64 [codes_intros]: "codes get_u64 (le_bytes 8 v) v"
  using le_word_bytes [of 8 v] by (simp add: codes_def get_u64_def take_bit_word_eq_self)

text \<open>A length that fits its 32-bit prefix.\<close>

definition len_ok :: "'a list \<Rightarrow> bool" where
  "len_ok xs \<longleftrightarrow> length xs < 2 ^ 32"

lemma len_ok_unat: "len_ok xs \<Longrightarrow> unat (word_of_nat (length xs) :: u32) = length xs"
  by (simp add: len_ok_def unsigned_of_nat take_bit_nat_eq_self)

definition prefixed :: "byte list \<Rightarrow> byte list" where
  "prefixed bs = le_bytes 4 (word_of_nat (length bs) :: u32) @ bs"

definition string_ok :: "str \<Rightarrow> bool" where
  "string_ok s \<longleftrightarrow> len_ok s \<and> utf8_valid s"

definition kv_ok :: "(str \<times> str) list \<Rightarrow> bool" where
  "kv_ok es \<longleftrightarrow> len_ok es \<and> (\<forall>(k, v)\<in>set es. string_ok k \<and> string_ok v)"

definition entry_bytes :: "str \<times> str \<Rightarrow> byte list" where
  "entry_bytes = (\<lambda>(k, v). prefixed k @ prefixed v)"

definition kv_bytes :: "(str \<times> str) list \<Rightarrow> byte list" where
  "kv_bytes es = le_bytes 4 (word_of_nat (length es) :: u32) @ concat (map entry_bytes es)"

lemma codes_bytes [codes_intros]: "len_ok bs \<Longrightarrow> codes get_bytes (prefixed bs) bs"
  unfolding get_bytes_def prefixed_def
  by (rule codes_bind [OF codes_u32]) (auto simp: codes_def len_ok_unat)

lemma codes_string [codes_intros]: "string_ok s \<Longrightarrow> codes get_string (prefixed s) s"
  unfolding get_string_def string_ok_def
  using codes_bind [OF codes_bytes, of s _ "[]" s] by (simp add: codes_ok)

lemma codes_entries:
  "\<forall>(k, v)\<in>set es. string_ok k \<and> string_ok v \<Longrightarrow>
   codes (get_entries (length es) out) (concat (map entry_bytes es)) (out @ es)"
proof (induction es arbitrary: out)
  case (Cons e es)
  obtain k v where e: "e = (k, v)" by fastforce
  have "codes (get_entries (length es) (out @ [(k, v)])) (concat (map entry_bytes es)) (out @ e # es)"
    using Cons.IH [of "out @ [(k, v)]"] Cons.prems e by simp
  then have "codes (bind get_string (\<lambda>k. bind get_string (\<lambda>v. get_entries (length es) (out @ [(k, v)]))))
      (prefixed k @ prefixed v @ concat (map entry_bytes es)) (out @ e # es)"
    using Cons.prems e by (intro codes_bind) (auto intro: codes_string)
  then show ?case by (simp add: e entry_bytes_def)
qed (simp add: codes_ok)

lemma codes_kv [codes_intros]: "kv_ok es \<Longrightarrow> codes get_kv (kv_bytes es) es"
  unfolding get_kv_def kv_bytes_def
  by (rule codes_bind [OF codes_u32])
    (use codes_entries [of es "[]"] in \<open>auto simp: kv_ok_def len_ok_unat\<close>)

text \<open>What the writers append.\<close>

named_theorems put_simps \<open>the bytes the writers append\<close>

lemma put_bytes_eq [put_simps]:
  "put_u8 buf b = buf @ [b]" "put_u32 buf w = buf @ le_bytes 4 w" "put_u64 buf q = buf @ le_bytes 8 q"
  "put_bytes buf bs = buf @ prefixed bs" "put_string buf bs = buf @ prefixed bs"
  by (simp_all add: put_u8_def put_u32_def put_u64_def put_bytes_def put_string_def prefixed_def)

lemma put_kv_eq [put_simps]: "put_kv buf es = buf @ kv_bytes es"
proof -
  have "fold (\<lambda>(k, v) buf. put_string (put_string buf k) v) es b = b @ concat (map entry_bytes es)" for b
    by (induction es arbitrary: b) (auto simp: entry_bytes_def put_bytes_eq)
  then show ?thesis by (simp add: put_kv_def kv_bytes_def put_bytes_eq)
qed

section \<open>The contract of an encoding\<close>

text \<open>
  \<open>wf\<close> says which values fit the format. From the single law that the decoder takes exactly
  the bytes of the encoder follow the round trip, the rejection of every truncated message,
  and that different values have different encodings, none a prefix of another.
\<close>

locale wire_codec =
  fixes enc :: "'a \<Rightarrow> byte list"
    and dec :: "'a reader"
    and wf :: "'a \<Rightarrow> bool"
  assumes codes: "wf x \<Longrightarrow> codes dec (enc x) x"
begin

lemma round_trip: "wf x \<Longrightarrow> decoded dec (enc x @ rest) = Inr x"
  using codes [of x] by (simp add: codes_def decoded_def)

lemma truncated: "wf x \<Longrightarrow> n < length (enc x) \<Longrightarrow> decoded dec (take n (enc x)) = Inl ''truncated''"
  using codes [of x] by (simp add: codes_def decoded_def)

lemma prefix_free: "wf x \<Longrightarrow> wf y \<Longrightarrow> enc y = enc x @ zs \<Longrightarrow> x = y"
  using round_trip [of x zs] round_trip [of y "[]"] by simp

end

definition request_ok :: "unary_request_wire \<Rightarrow> bool" where
  "request_ok m \<longleftrightarrow> string_ok (uq_method m) \<and> kv_ok (uq_metadata m) \<and> len_ok (uq_payload m)"

definition response_ok :: "'c unary_response_wire \<Rightarrow> bool" where
  "response_ok m \<longleftrightarrow> string_ok (up_message m) \<and> kv_ok (up_metadata m) \<and> len_ok (up_payload m)"

text \<open>
  A frame the format can carry: exactly \<open>Open\<close> frames have a method, and only \<open>Close\<close>
  and \<open>Cancel\<close> frames carry a status.
\<close>

definition frame_ok :: "'c \<Rightarrow> 'c stream_frame_wire \<Rightarrow> bool" where
  "frame_ok code_ok f \<longleftrightarrow>
     string_ok (stream_id f) \<and> kv_ok (sf_metadata f) \<and> len_ok (sf_payload f) \<and>
     (kind f = Open \<longleftrightarrow> sf_method f \<noteq> None) \<and> pred_option string_ok (sf_method f) \<and>
     (if kind f = Close \<or> kind f = Cancel then string_ok (status_message f)
      else status_ok f \<and> status_code f = code_ok \<and> status_message f = [])"

interpretation request_codec: wire_codec encode_unary_request decode_unary_request request_ok
  by unfold_locales
    (auto simp: encode_unary_request_def decode_unary_request_def request_ok_def Let_def put_simps
      intro!: codes_bind codes_intros)

text \<open>The numbering of the status codes, and the encodings that rest on it.\<close>

locale status_codes =
  fixes to_u32 :: "'c \<Rightarrow> u32"
    and from_i32 :: "32 word \<Rightarrow> 'c"
  assumes from_to: "from_i32 (to_u32 c) = c"
begin

lemma response_codes:
  "response_ok m \<Longrightarrow> codes (decode_unary_response from_i32) (encode_unary_response to_u32 m) m"
  by (auto simp: encode_unary_response_def decode_unary_response_def response_ok_def Let_def put_simps
      from_to intro!: codes_bind_u8 codes_bind codes_intros)

lemma status_codes_end:
  "string_ok s \<Longrightarrow> codes
     (bind get_u8 (\<lambda>ok_u8. bind get_u32 (\<lambda>c. bind get_string (\<lambda>m. ok (ok_u8 \<noteq> 0, from_i32 c, m)))))
     ((if b then 1 else 0) # le_bytes 4 (to_u32 c) @ prefixed s) (b, c, s)"
  by (auto intro!: codes_bind_u8 codes_bind codes_intros simp: from_to)

lemma frame_codes:
  assumes "frame_ok code_ok f"
  shows "codes (decode_stream_frame code_ok from_i32) (encode_stream_frame to_u32 f) f"
proof -
  let ?trailer = "if kind f = Close \<or> kind f = Cancel
    then (if status_ok f then 1 else 0) # le_bytes 4 (to_u32 (status_code f)) @ prefixed (status_message f)
    else []"
  let ?meth = "case sf_method f of None \<Rightarrow> [0] | Some m \<Rightarrow> 1 # prefixed m"
  have enc: "encode_stream_frame to_u32 f =
      prefixed (stream_id f) @ direction_to_u8 (direction f) # le_bytes 8 (sf_seq f) @
      kind_to_u8 (kind f) # ?meth @ kv_bytes (sf_metadata f) @ prefixed (sf_payload f) @ ?trailer"
    using assms
    by (cases "kind f") (auto simp: encode_stream_frame_def frame_ok_def Let_def put_simps
        split: option.splits)
  have st: "codes (get_status code_ok from_i32 (kind f)) ?trailer (status_ok f, status_code f, status_message f)"
    using assms status_codes_end
    by (auto simp: get_status_def frame_ok_def codes_ok split: if_splits)
  define tail where "tail = (\<lambda>m.
     bind (check_method (kind f) m) (\<lambda>_. bind get_kv (\<lambda>metadata. bind get_bytes (\<lambda>payload.
     bind (get_status code_ok from_i32 (kind f)) (\<lambda>(so, sc, sm).
     ok \<lparr>stream_id = stream_id f, direction = direction f, sf_seq = sf_seq f, kind = kind f,
         sf_method = m, sf_metadata = metadata, sf_payload = payload, status_ok = so,
         status_code = sc, status_message = sm\<rparr>)))))"
  have "codes (tail (sf_method f)) (kv_bytes (sf_metadata f) @ prefixed (sf_payload f) @ ?trailer) f"
    unfolding tail_def
  proof (intro codes_bind_nil [OF codes_check] codes_bind [OF codes_kv] codes_bind [OF codes_bytes])
    show "codes (bind (get_status code_ok from_i32 (kind f)) (\<lambda>(so, sc, sm).
        ok \<lparr>stream_id = stream_id f, direction = direction f, sf_seq = sf_seq f, kind = kind f,
           sf_method = sf_method f, sf_metadata = sf_metadata f, sf_payload = sf_payload f,
           status_ok = so, status_code = sc, status_message = sm\<rparr>)) ?trailer f"
      by (rule codes_bind_end [OF st]) (cases f, simp)
  qed (use assms in \<open>auto simp: frame_ok_def\<close>)
  then have body: "codes (bind get_u8 (\<lambda>p. bind (get_method p) tail))
      (?meth @ kv_bytes (sf_metadata f) @ prefixed (sf_payload f) @ ?trailer) f"
    using assms
    by (auto simp: get_method_def frame_ok_def split: option.splits
        intro!: codes_bind_u8 codes_bind_nil [OF codes_ok [OF refl]]
          codes_bind [OF codes_bind_ok [OF codes_string refl]])
  show ?thesis
    unfolding enc decode_stream_frame_def
    by (intro codes_bind [OF codes_string] codes_bind_u8 codes_bind_nil [OF codes_direction]
        codes_bind [OF codes_u64] codes_bind_nil [OF codes_kind])
      (use assms body in \<open>auto simp: frame_ok_def tail_def\<close>)
qed

end

section \<open>Properties\<close>

text \<open>
  Unary requests: what \<open>encode_unary_request\<close> writes is read back unchanged by
  \<open>decode_unary_request\<close>, whatever follows it, and every proper prefix of it is rejected as
  truncated.
\<close>

theorem unary_request_round_trip:
  assumes "request_ok m"
  shows "decoded decode_unary_request (encode_unary_request m @ rest) = Inr m
    \<and> (\<forall>n<length (encode_unary_request m).
         decoded decode_unary_request (take n (encode_unary_request m)) = Inl ''truncated'')"
  using request_codec.round_trip [OF assms] request_codec.truncated [OF assms] by blast

text \<open>
  C36. Stream frames, for any numbering of the status codes that \<open>from_i32\<close> inverts: a
  frame is read back unchanged, every proper prefix of its encoding is rejected as truncated,
  and unary responses are read back as well.
\<close>

theorem stream_frame_round_trip:
  assumes "status_codes to_u32 from_i32" and "frame_ok code_ok f" and "response_ok m"
  shows "decoded (decode_stream_frame code_ok from_i32) (encode_stream_frame to_u32 f @ rest) = Inr f
    \<and> (\<forall>n<length (encode_stream_frame to_u32 f).
         decoded (decode_stream_frame code_ok from_i32) (take n (encode_stream_frame to_u32 f))
           = Inl ''truncated'')
    \<and> decoded (decode_unary_response from_i32) (encode_unary_response to_u32 m @ rest) = Inr m"
  using status_codes.frame_codes [OF assms(1,2)] status_codes.response_codes [OF assms(1,3)]
  by (simp add: codes_def decoded_def)

text \<open>
  Ill-formed frames: an \<open>Open\<close> frame without a method is encoded, and rejected by the
  decoder with that message; a method on any other frame is not transmitted, so the frame
  comes back without it.
\<close>

theorem stream_frame_ill_formed:
  assumes "status_codes to_u32 from_i32" and "string_ok (stream_id f)"
  shows "(kind f = Open \<and> sf_method f = None \<longrightarrow>
      decoded (decode_stream_frame code_ok from_i32) (encode_stream_frame to_u32 f)
        = Inl ''Open frame missing method'')
    \<and> (kind f \<noteq> Open \<and> frame_ok code_ok (f\<lparr>sf_method := None\<rparr>) \<longrightarrow>
      decoded (decode_stream_frame code_ok from_i32) (encode_stream_frame to_u32 f)
        = Inr (f\<lparr>sf_method := None\<rparr>))"
proof (intro conjI impI; elim conjE)
  assume "kind f = Open" "sf_method f = None"
  then show "decoded (decode_stream_frame code_ok from_i32) (encode_stream_frame to_u32 f)
      = Inl ''Open frame missing method''"
    using codes_kind [of Open]
    by (simp add: decoded_def encode_stream_frame_def decode_stream_frame_def put_simps
        bind_reads(1) [OF codes_string [OF assms(2)]] bind_reads(2) [OF codes_direction] bind_u8
        bind_reads(1) [OF codes_u64] bind_reads(2) get_method_def check_method_def)
      (simp add: bind_def ok_def fail_def)
next
  assume k: "kind f \<noteq> Open" and f: "frame_ok code_ok (f\<lparr>sf_method := None\<rparr>)"
  have e: "encode_stream_frame to_u32 f = encode_stream_frame to_u32 (f\<lparr>sf_method := None\<rparr>)"
    using k by (cases "kind f") (simp_all add: encode_stream_frame_def)
  have "decode_stream_frame code_ok from_i32 (encode_stream_frame to_u32 f @ [])
      = Inr (f\<lparr>sf_method := None\<rparr>, [])"
    using status_codes.frame_codes [OF assms(1) f] unfolding codes_def e by blast
  then show "decoded (decode_stream_frame code_ok from_i32) (encode_stream_frame to_u32 f)
      = Inr (f\<lparr>sf_method := None\<rparr>)"
    by (simp add: decoded_def)
qed

section \<open>Instances\<close>

text \<open>The gRPC status codes, numbered from 0 to 16; other numbers are \<open>Unknown\<close>.\<close>

datatype code = Ok | Cancelled | Unknown | InvalidArgument | DeadlineExceeded | NotFound
  | AlreadyExists | PermissionDenied | ResourceExhausted | FailedPrecondition | Aborted
  | OutOfRange | Unimplemented | Internal | Unavailable | DataLoss | Unauthenticated

definition all_codes :: "code list" where
  "all_codes = [Ok, Cancelled, Unknown, InvalidArgument, DeadlineExceeded, NotFound, AlreadyExists,
     PermissionDenied, ResourceExhausted, FailedPrecondition, Aborted, OutOfRange, Unimplemented,
     Internal, Unavailable, DataLoss, Unauthenticated]"

definition grpc_to_u32 :: "code \<Rightarrow> u32" where
  "grpc_to_u32 c = word_of_nat (length (takeWhile (\<lambda>x. x \<noteq> c) all_codes))"

definition grpc_from_i32 :: "32 word \<Rightarrow> code" where
  "grpc_from_i32 n = (if unat n < 17 then all_codes ! unat n else Unknown)"

interpretation grpc: status_codes grpc_to_u32 grpc_from_i32
proof
  show "grpc_from_i32 (grpc_to_u32 c) = c" for c
    by (cases c) (simp_all add: grpc_from_i32_def grpc_to_u32_def all_codes_def)
qed

interpretation grpc_response: wire_codec
  "encode_unary_response grpc_to_u32" "decode_unary_response grpc_from_i32" response_ok
  by unfold_locales (rule grpc.response_codes)

interpretation grpc_frame: wire_codec
  "encode_stream_frame grpc_to_u32" "decode_stream_frame Ok grpc_from_i32" "frame_ok Ok"
  by unfold_locales (rule grpc.frame_codes)

definition close_frame :: "code stream_frame_wire" where
  "close_frame = \<lparr>stream_id = lit ''s1'', direction = ServerToClient, sf_seq = 2, kind = Close,
     sf_method = None, sf_metadata = [(lit ''k'', lit ''v'')], sf_payload = [1, 2],
     status_ok = False, status_code = NotFound, status_message = lit ''nope''\<rparr>"

definition hello_request :: unary_request_wire where
  "hello_request = \<lparr>uq_method = lit ''/svc/Method'', uq_metadata = [(lit ''k'', lit ''v'')],
     uq_payload = [1, 2]\<rparr>"

lemmas wire_ok_eval = string_ok_def len_ok_def kv_ok_def lit_def utf8_valid_ascii

lemma close_frame_ok: "frame_ok Ok close_frame"
  by (simp add: close_frame_def frame_ok_def wire_ok_eval)

theorem unary_request_round_trip_witness:
  "decoded decode_unary_request (encode_unary_request hello_request @ [7]) = Inr hello_request"
  by (rule unary_request_round_trip [THEN conjunct1])
    (simp add: hello_request_def request_ok_def wire_ok_eval)

definition not_found_response :: "code unary_response_wire" where
  "not_found_response = \<lparr>up_ok = False, up_code = NotFound, up_message = lit ''nope'',
     up_metadata = [], up_payload = []\<rparr>"

theorem stream_frame_round_trip_witness:
  "decoded (decode_stream_frame Ok grpc_from_i32) (encode_stream_frame grpc_to_u32 close_frame @ [])
     = Inr close_frame"
  by (rule stream_frame_round_trip [OF grpc.status_codes_axioms close_frame_ok, THEN conjunct1,
        of not_found_response])
    (simp add: not_found_response_def response_ok_def wire_ok_eval)

theorem stream_frame_ill_formed_witness:
  "decoded (decode_stream_frame Ok grpc_from_i32)
     (encode_stream_frame grpc_to_u32 (close_frame\<lparr>kind := Open\<rparr>)) = Inl ''Open frame missing method''"
proof -
  have "string_ok (stream_id (close_frame\<lparr>kind := Open\<rparr>))"
    by (simp add: close_frame_def wire_ok_eval)
  from stream_frame_ill_formed [OF grpc.status_codes_axioms this, of Ok] show ?thesis
    by (simp add: close_frame_def)
qed

end
