(* ===== verification/Reorder_Buffer.thy ===== *)
theory Reorder_Buffer
  imports Des_Prelude "HOL-Library.AList"
begin

text \<open>
  The reorder buffers of \<open>des-tonic\<close> (\<open>channel.rs\<close>, \<open>server.rs\<close>): frames arrive in any
  order and are handled in the order of their sequence numbers. The client and the three kinds of
  streams at a server have this loop in common; \<open>step\<close> is what they do with a frame, on a
  state \<open>'s\<close>, and it also says whether to go on. A \<open>BTreeMap\<close> is an association list with
  distinct keys. The main lemma says that the state after any arrival order is that after handling
  the frames in sequence.
\<close>

section \<open>The loop\<close>

type_synonym 'f reorder = "(u64 \<times> 'f) list"

text \<open>\<open>while let Some(next) = reorder.remove(&next_expected) { next_expected += 1; ... }\<close>\<close>

lemma delete_shorter: "map_of buf n = Some f \<Longrightarrow> length (AList.delete n buf) < length buf"
proof (induction buf)
  case (Cons p buf)
  then show ?case using AList.length_delete_le [of n buf] by (cases p) (auto simp: le_imp_less_Suc)
qed simp

function drain ::
  "('f \<Rightarrow> 's \<Rightarrow> 's \<times> bool) \<Rightarrow> u64 \<Rightarrow> 'f reorder \<Rightarrow> 's \<Rightarrow> u64 \<times> 'f reorder \<times> 's \<times> bool"
where
  "drain step n buf s =
     (case map_of buf n of
        None \<Rightarrow> (n, buf, s, True)
      | Some f \<Rightarrow>
          (let (s, go) = step f s
           in if go then drain step (n + 1) (AList.delete n buf) s else (n + 1, AList.delete n buf, s, False)))"
  by pat_completeness auto
termination
  by (relation "measure (\<lambda>(step, n, buf, s). length buf)") (auto intro: delete_shorter)

declare drain.simps [simp del]

text \<open>Handling a list of frames, until one of them stops the loop.\<close>

fun handle_frames :: "('f \<Rightarrow> 's \<Rightarrow> 's \<times> bool) \<Rightarrow> 'f list \<Rightarrow> 's \<Rightarrow> 's \<times> bool" where
  "handle_frames step [] s = (s, True)"
| "handle_frames step (f # fs) s = (let (s, go) = step f s in if go then handle_frames step fs s else (s, False))"

lemma handle_frames_append:
  "handle_frames step (fs @ gs) s =
     (let (s, go) = handle_frames step fs s in if go then handle_frames step gs s else (s, False))"
  by (induction fs arbitrary: s) (auto split: prod.splits)

section \<open>Arrivals in any order\<close>

text \<open>
  What is known of a buffer when the frames with numbers in \<open>A\<close> have arrived and the next one is
  \<open>k\<close>: it holds those that were not handled, and nothing else but perhaps a frame with number zero
  that came too late.
\<close>

definition buffered :: "(nat \<Rightarrow> 'f) \<Rightarrow> nat set \<Rightarrow> nat \<Rightarrow> 'f reorder \<Rightarrow> bool" where
  "buffered g A k buf \<longleftrightarrow>
     distinct (map fst buf) \<and>
     (\<forall>i. k \<le> i \<longrightarrow> i < 2 ^ 64 \<longrightarrow> map_of buf (word_of_nat i) = (if i \<in> A then Some (g i) else None)) \<and>
     (\<forall>n\<in>set (map fst buf). \<exists>i\<in>A. (k \<le> i \<or> i = 0) \<and> n = word_of_nat i)"

lemma buffered_at:
  "buffered g A k buf \<Longrightarrow> k \<le> i \<Longrightarrow> i < 2 ^ 64 \<Longrightarrow> map_of buf (word_of_nat i) = (if i \<in> A then Some (g i) else None)"
  by (simp add: buffered_def)

lemma seq_eq_iff: "i < 2 ^ 64 \<Longrightarrow> j < 2 ^ 64 \<Longrightarrow> (word_of_nat i :: u64) = word_of_nat j \<longleftrightarrow> i = j"
  by (auto simp: unat_of_nat dest!: arg_cong [where f = unat])

lemma seq_Suc: "(word_of_nat i :: u64) + 1 = word_of_nat (Suc i)"
  by simp

lemma buffered_insert:
  assumes "buffered g A k buf" "i < 2 ^ 64" "k \<le> i \<or> i = 0"
  shows "buffered g (insert i A) k (AList.update (word_of_nat i) (g i) buf)"
  unfolding buffered_def
proof (intro conjI allI impI ballI)
  show "distinct (map fst (AList.update (word_of_nat i) (g i) buf))"
    using assms(1) by (simp add: buffered_def AList.distinct_update)
  fix j :: nat
  assume "k \<le> j" "j < 2 ^ 64"
  with assms(1) have "map_of buf (word_of_nat j) = (if j \<in> A then Some (g j) else None)" by (simp add: buffered_def)
  with seq_eq_iff [OF assms(2) \<open>j < 2 ^ 64\<close>]
  show "map_of (AList.update (word_of_nat i) (g i) buf) (word_of_nat j) = (if j \<in> insert i A then Some (g j) else None)"
    by (auto simp: AList.update_conv')
next
  fix n
  assume "n \<in> set (map fst (AList.update (word_of_nat i) (g i) buf))"
  then have "n = word_of_nat i \<or> n \<in> set (map fst buf)" by (auto simp: AList.update_keys split: if_splits)
  then show "\<exists>j\<in>insert i A. (k \<le> j \<or> j = 0) \<and> n = word_of_nat j"
  proof
    assume "n = word_of_nat i"
    with assms(3) show ?thesis by auto
  next
    assume "n \<in> set (map fst buf)"
    with assms(1) have "\<exists>j\<in>A. (k \<le> j \<or> j = 0) \<and> n = word_of_nat j" unfolding buffered_def by blast
    then show ?thesis by blast
  qed
qed

lemma buffered_delete:
  assumes "buffered g A k buf"
  shows "buffered g A (Suc k) (AList.delete (word_of_nat k) buf)"
  unfolding buffered_def
proof (intro conjI allI impI ballI)
  show "distinct (map fst (AList.delete (word_of_nat k) buf))"
    using assms by (simp add: buffered_def AList.distinct_delete)
  fix j :: nat
  assume j: "Suc k \<le> j" "j < 2 ^ 64"
  with assms have "map_of buf (word_of_nat j) = (if j \<in> A then Some (g j) else None)" by (simp add: buffered_def)
  moreover have "(word_of_nat j :: u64) \<noteq> word_of_nat k" using j seq_eq_iff [of j k] by simp
  ultimately show "map_of (AList.delete (word_of_nat k) buf) (word_of_nat j) = (if j \<in> A then Some (g j) else None)"
    by (simp add: AList.delete_conv')
next
  fix n
  assume "n \<in> set (map fst (AList.delete (word_of_nat k) buf))"
  then have n: "n \<in> set (map fst buf)" "n \<noteq> word_of_nat k" by (simp_all add: AList.delete_keys)
  from n(1) assms have "\<exists>i\<in>A. (k \<le> i \<or> i = 0) \<and> n = word_of_nat i" unfolding buffered_def by blast
  with n(2) show "\<exists>i\<in>A. (Suc k \<le> i \<or> i = 0) \<and> n = word_of_nat i" by (metis le_antisym not_less_eq_eq)
qed

text \<open>The numbers that can be handled from \<open>k\<close> on.\<close>

definition next_missing :: "nat set \<Rightarrow> nat \<Rightarrow> nat" where
  "next_missing A k = (LEAST i. k \<le> i \<and> i \<notin> A)"

lemma next_missing_props:
  assumes "finite A"
  shows "k \<le> next_missing A k" "next_missing A k \<notin> A" "k \<le> i \<Longrightarrow> i < next_missing A k \<Longrightarrow> i \<in> A"
proof -
  have "\<not> {k..} \<subseteq> A" using assms finite_subset infinite_Ici by blast
  then obtain j where "j \<notin> A" "k \<le> j" by auto
  then have "k \<le> next_missing A k \<and> next_missing A k \<notin> A"
    unfolding next_missing_def by (intro LeastI [where P = "\<lambda>i. k \<le> i \<and> i \<notin> A"]) simp
  then show "k \<le> next_missing A k" "next_missing A k \<notin> A" by simp_all
  show "i \<in> A" if "k \<le> i" "i < next_missing A k"
    using that not_less_Least [of i "\<lambda>i. k \<le> i \<and> i \<notin> A"] unfolding next_missing_def by blast
qed

lemma next_missing_here: "k \<notin> A \<Longrightarrow> next_missing A k = k"
  unfolding next_missing_def by (rule Least_equality) auto

lemma next_missing_Suc: "k \<in> A \<Longrightarrow> next_missing A (Suc k) = next_missing A k"
proof -
  assume "k \<in> A"
  then have "(Suc k \<le> i \<and> i \<notin> A) = (k \<le> i \<and> i \<notin> A)" for i by (metis Suc_leD Suc_leI le_neq_implies_less)
  then show ?thesis by (simp add: next_missing_def)
qed

lemma next_missing_skip:
  assumes "finite A" "k \<le> n" "\<And>j. k \<le> j \<Longrightarrow> j < n \<Longrightarrow> j \<in> A"
  shows "next_missing A n = next_missing A k"
proof -
  have "(n \<le> i \<and> i \<notin> A) = (k \<le> i \<and> i \<notin> A)" for i
    using assms(2,3) by (meson le_trans not_le)
  then show ?thesis by (simp add: next_missing_def)
qed

lemma next_missing_gap: "k \<le> j \<Longrightarrow> j < b \<Longrightarrow> next_missing ({k..<b} - {j}) k = j"
  unfolding next_missing_def by (intro Least_equality) (auto simp: not_less)

lemma drain_buffered:
  assumes "buffered g A k buf" "finite A" "A \<subseteq> {..<b}" "b < 2 ^ 64" "k \<le> b"
  shows "case drain step (word_of_nat k) buf s of (n, buf', r) \<Rightarrow>
    handle_frames step (map g [k..<next_missing A k]) s = r \<and>
    (snd r \<longrightarrow> n = word_of_nat (next_missing A k) \<and> buffered g A (next_missing A k) buf')"
  using assms
proof (induction "next_missing A k - k" arbitrary: k buf s)
  case 0
  then have "k \<notin> A" using next_missing_props(1,2) [of A k] by (metis diff_is_0_eq le_antisym)
  with 0 have "map_of buf (word_of_nat k) = None" by (simp add: buffered_def)
  with 0 \<open>k \<notin> A\<close> show ?case by (simp add: drain.simps [of step _ buf] next_missing_here)
next
  case (Suc d)
  from Suc.hyps(2) have k: "k \<in> A" using next_missing_here [of k A] by (metis diff_self_eq_0 nat.distinct(1))
  with Suc.prems have "k < b" by auto
  with k Suc.prems have f: "map_of buf (word_of_nat k) = Some (g k)" by (simp add: buffered_def)
  have n: "next_missing A (Suc k) = next_missing A k" "k < next_missing A k"
    using next_missing_Suc [OF k] Suc.hyps(2) by simp_all
  obtain s' go where st: "step (g k) s = (s', go)" by fastforce
  have IH: "case drain step (word_of_nat (Suc k)) (AList.delete (word_of_nat k) buf) s' of (n', buf', r) \<Rightarrow>
    handle_frames step (map g [Suc k..<next_missing A (Suc k)]) s' = r \<and>
    (snd r \<longrightarrow> n' = word_of_nat (next_missing A (Suc k)) \<and> buffered g A (next_missing A (Suc k)) buf')"
  proof (rule Suc.hyps(1))
    show "d = next_missing A (Suc k) - Suc k" using Suc.hyps(2) n by simp
    show "buffered g A (Suc k) (AList.delete (word_of_nat k) buf)" by (rule buffered_delete [OF Suc.prems(1)])
  qed (use Suc.prems \<open>k < b\<close> in auto)
  have "[k..<next_missing A k] = k # [Suc k..<next_missing A k]" using n(2) by (rule upt_conv_Cons)
  with IH n st show ?case
    by (cases go) (simp_all add: drain.simps [of step "word_of_nat k"] f seq_Suc split: prod.splits)
qed

text \<open>One more frame arrives, at a buffer from which everything possible has been handled.\<close>

lemma arrive_in_order:
  assumes "buffered g A (next_missing A k) buf" "finite A" "insert i A \<subseteq> {..<b}" "b < 2 ^ 64" "k \<le> b" "i \<notin> A"
    and "k \<le> i \<or> i = 0" and "handle_frames step (map g [k..<next_missing A k]) s0 = (s, True)"
  shows "case drain step (word_of_nat (next_missing A k)) (AList.update (word_of_nat i) (g i) buf) s of (n, buf', r) \<Rightarrow>
    handle_frames step (map g [k..<next_missing (insert i A) k]) s0 = r \<and>
    (snd r \<longrightarrow> n = word_of_nat (next_missing (insert i A) k) \<and> buffered g (insert i A) (next_missing (insert i A) k) buf')"
proof -
  let ?n = "next_missing A k" and ?A = "insert i A"
  have all: "j \<in> ?A" if "k \<le> j" "j < ?n" for j using next_missing_props(3) [OF assms(2) that] by simp
  have "k \<le> ?n" by (rule next_missing_props(1) [OF assms(2)])
  with all have skip: "next_missing ?A ?n = next_missing ?A k" by (intro next_missing_skip) (use assms(2) in auto)
  have "?n \<le> i \<or> i = 0" using assms(6,7) next_missing_props(3) [OF assms(2), of k i] by force
  moreover have "i < 2 ^ 64" using assms(3,4) by auto
  ultimately have "buffered g ?A ?n (AList.update (word_of_nat i) (g i) buf)" using buffered_insert [OF assms(1)] by blast
  moreover have "?n \<le> b"
  proof (rule ccontr)
    assume "\<not> ?n \<le> b"
    then have "b \<in> A" using next_missing_props(3) [OF assms(2,5)] by simp
    with assms(3) show False by auto
  qed
  ultimately have "case drain step (word_of_nat ?n) (AList.update (word_of_nat i) (g i) buf) s of (n, buf', r) \<Rightarrow>
    handle_frames step (map g [?n..<next_missing ?A ?n]) s = r \<and>
    (snd r \<longrightarrow> n = word_of_nat (next_missing ?A ?n) \<and> buffered g ?A (next_missing ?A ?n) buf')"
    by (intro drain_buffered) (use assms(2-4) in auto)
  moreover have "[k..<next_missing ?A k] = [k..<?n] @ [?n..<next_missing ?A k]"
  proof -
    have "?n \<le> next_missing ?A k" using next_missing_props(1) [of ?A ?n] assms(2) by (simp add: skip)
    with \<open>k \<le> ?n\<close> show ?thesis using upt_add_eq_append [of k ?n "next_missing ?A k - ?n"] by simp
  qed
  ultimately show ?thesis using assms(8) by (simp add: skip handle_frames_append split: prod.splits)
qed

lemma buffered_length:
  assumes "buffered g A k buf" "finite A"
  shows "length buf \<le> card {i\<in>A. k \<le> i} + 1"
proof -
  have "set (map fst buf) \<subseteq> insert 0 (word_of_nat ` {i\<in>A. k \<le> i})"
  proof
    fix n
    assume "n \<in> set (map fst buf)"
    then obtain i where "i \<in> A" "k \<le> i \<or> i = 0" "n = word_of_nat i" using assms(1) unfolding buffered_def by blast
    then show "n \<in> insert 0 (word_of_nat ` {i\<in>A. k \<le> i})" by auto
  qed
  then have "card (set (map fst buf)) \<le> card (insert 0 (word_of_nat ` {i\<in>A. k \<le> i}) :: u64 set)"
    by (rule card_mono [rotated]) (simp add: assms(2))
  also have "\<dots> \<le> Suc (card (word_of_nat ` {i\<in>A. k \<le> i} :: u64 set))" by (rule card_insert_le_m1) simp_all
  also have "\<dots> \<le> Suc (card {i\<in>A. k \<le> i})" using card_image_le [of "{i\<in>A. k \<le> i}"] assms(2) by simp
  also have "card (set (map fst buf)) = length buf"
    using assms(1) distinct_card [of "map fst buf"] by (simp add: buffered_def)
  finally show ?thesis by simp
qed

lemma buffered_empty: "buffered g {} k []"
  by (simp add: buffered_def)

lemma buffered_from_one:
  assumes "buffered g A 0 buf" "0 \<notin> A"
  shows "buffered g A 1 buf"
  unfolding buffered_def
proof (intro conjI allI impI ballI)
  show "distinct (map fst buf)" using assms(1) by (simp add: buffered_def)
  show "map_of buf (word_of_nat i) = (if i \<in> A then Some (g i) else None)" if "i < 2 ^ 64" for i
    using assms(1) that by (simp add: buffered_def)
  fix n
  assume "n \<in> set (map fst buf)"
  with assms(1) have "\<exists>i\<in>A. n = word_of_nat i" unfolding buffered_def by blast
  with assms(2) show "\<exists>i\<in>A. (1 \<le> i \<or> i = 0) \<and> n = word_of_nat i" by (metis less_one not_le)
qed

section \<open>Handled in order\<close>

text \<open>
  The state of a loop whose frames with numbers in \<open>A\<close> have arrived, when \<open>k\<close> is the first number it
  handles: it is the state after the frames from \<open>k\<close> up to the first that is missing, in sequence.
\<close>

definition in_order ::
  "('f \<Rightarrow> 's \<Rightarrow> 's \<times> bool) \<Rightarrow> (nat \<Rightarrow> 'f) \<Rightarrow> nat \<Rightarrow> 's \<Rightarrow> nat set \<Rightarrow> u64 \<Rightarrow> 'f reorder \<Rightarrow> 's \<Rightarrow> bool"
where
  "in_order step g k s0 A n buf s \<longleftrightarrow>
     n = word_of_nat (next_missing A k) \<and> buffered g A (next_missing A k) buf \<and>
     handle_frames step (map g [k..<next_missing A k]) s0 = (s, True)"

lemma in_order_start: "in_order step g k s {} (word_of_nat k) [] s"
  by (simp add: in_order_def next_missing_here buffered_empty)

text \<open>The frames that wait for one with a smaller number, of those that are numbered from \<open>k\<close> on.\<close>

definition waiting_frames :: "nat \<Rightarrow> nat set \<Rightarrow> nat set" where
  "waiting_frames k A = {i\<in>A. \<exists>j. k \<le> j \<and> j < i \<and> j \<notin> A}"

lemma waiting_frames_eq:
  assumes "finite A"
  shows "waiting_frames k A = {i\<in>A. next_missing A k \<le> i}"
proof (rule set_eqI)
  fix i
  have "(\<exists>j. k \<le> j \<and> j < i \<and> j \<notin> A) \<longleftrightarrow> next_missing A k \<le> i" if "i \<in> A"
  proof
    show "next_missing A k \<le> i" if "\<exists>j. k \<le> j \<and> j < i \<and> j \<notin> A"
      using that next_missing_props(3) [OF assms, of k] by (meson le_trans less_imp_le not_le)
    assume "next_missing A k \<le> i"
    moreover have "next_missing A k \<noteq> i" using next_missing_props(2) [OF assms] \<open>i \<in> A\<close> by metis
    ultimately show "\<exists>j. k \<le> j \<and> j < i \<and> j \<notin> A"
      using next_missing_props(1,2) [OF assms, of k] by (intro exI [of _ "next_missing A k"]) simp
  qed
  then show "i \<in> waiting_frames k A \<longleftrightarrow> i \<in> {i\<in>A. next_missing A k \<le> i}" by (auto simp: waiting_frames_def)
qed

lemma in_order_length:
  assumes "in_order step g k s0 A n buf s" "finite A"
  shows "length buf \<le> card (waiting_frames k A) + 1"
  using buffered_length [of g A "next_missing A k" buf] assms by (simp add: in_order_def waiting_frames_eq)

text \<open>
  After one more arrival the loop is again in order, or it stopped in the state in which the frames
  in sequence stop.
\<close>

lemma in_order_step:
  assumes "in_order step g k s0 A n buf s" "finite A" "insert i A \<subseteq> {..<b}" "b < 2 ^ 64" "k \<le> b" "i \<notin> A" "k \<le> i \<or> i = 0"
    and "drain step n (AList.update (word_of_nat i) (g i) buf) s = (n', buf', s', go)"
  shows "if go then in_order step g k s0 (insert i A) n' buf' s'
    else \<exists>m. {k..<m} \<subseteq> insert i A \<and> handle_frames step (map g [k..<m]) s0 = (s', False)"
proof -
  let ?m = "next_missing (insert i A) k"
  have "n = word_of_nat (next_missing A k)" "buffered g A (next_missing A k) buf"
    "handle_frames step (map g [k..<next_missing A k]) s0 = (s, True)"
    using assms(1) by (simp_all add: in_order_def)
  with arrive_in_order [OF this(2) assms(2-7), of step s0 s] assms(8)
  have r: "handle_frames step (map g [k..<?m]) s0 = (s', go)"
    "go \<Longrightarrow> n' = word_of_nat ?m \<and> buffered g (insert i A) ?m buf'"
    by simp_all
  moreover have "{k..<?m} \<subseteq> insert i A" 
    using next_missing_props(3) [of "insert i A" k] assms(2) by (intro subsetI) (metis atLeastLessThan_iff finite_insert)
  ultimately show ?thesis by (cases go) (auto simp: in_order_def)
qed

lemma handle_frames_prefix:
  assumes "{k..<m} \<subseteq> {..<b}" "k \<le> b" "handle_frames step (map g [k..<m]) s0 = (s, go)"
  shows "handle_frames step (map g [k..<b]) s0 = (if go then handle_frames step (map g [max k m..<b]) s else (s, False))"
proof -
  have "m \<le> b \<or> m \<le> k" using assms(1,2) by (metis atLeastLessThan_iff lessThan_iff less_irrefl linorder_not_less subsetD)
  then have "[k..<b] = [k..<m] @ [max k m..<b]"
    using upt_add_eq_append [of k m "b - m"] assms(2) by (auto simp: max_def)
  with assms(3) show ?thesis by (simp add: handle_frames_append)
qed

lemma in_order_arrive:
  assumes "in_order step g k s0 A n buf s" "finite A" "insert i A \<subseteq> {..<b}" "b < 2 ^ 64" "k \<le> b" "i \<notin> A" "k \<le> i \<or> i = 0"
    and "drain step n (AList.update (word_of_nat i) (g i) buf) s = (n', buf', s', go)"
  shows "if go then in_order step g k s0 (insert i A) n' buf' s'
    else handle_frames step (map g [k..<b]) s0 = (s', False)"
proof (cases go)
  case False
  then obtain m where m: "{k..<m} \<subseteq> insert i A" "handle_frames step (map g [k..<m]) s0 = (s', False)"
    using in_order_step [OF assms] by auto
  with handle_frames_prefix [OF _ assms(5) m(2)] assms(3) False show ?thesis by (simp add: subset_trans)
qed (use in_order_step [OF assms] in simp)

lemma in_order_all:
  "in_order step g k s0 A n buf s \<Longrightarrow> {k..<b} \<subseteq> A \<Longrightarrow> A \<subseteq> {..<b} \<Longrightarrow> k \<le> b \<Longrightarrow>
    handle_frames step (map g [k..<b]) s0 = (s, True)"
proof -
  assume *: "in_order step g k s0 A n buf s" "{k..<b} \<subseteq> A" "A \<subseteq> {..<b}" "k \<le> b"
  then have "next_missing A k = b" unfolding next_missing_def by (intro Least_equality) (auto simp: subset_iff not_le)
  with *(1) show ?thesis by (simp add: in_order_def)
qed

lemma in_order_emptied:
  assumes "in_order step g k s0 A n buf s" "{k..<b} \<subseteq> A" "A \<subseteq> {..<b}" "k \<le> b" "0 \<notin> A"
  shows "buf = []"
proof (rule ccontr)
  assume "buf \<noteq> []"
  then obtain p where "p \<in> set buf" by (cases buf) auto
  moreover have "next_missing A k = b"
    unfolding next_missing_def by (intro Least_equality) (use assms(2-4) in \<open>auto simp: subset_iff not_le\<close>)
  ultimately obtain i where "i \<in> A" "b \<le> i \<or> i = 0" using assms(1) unfolding in_order_def buffered_def by fastforce
  with assms(3,5) show False by auto
qed

text \<open>A loop whose steps do not depend on a part of the state leaves that part alone.\<close>

lemma drain_commute:
  assumes "\<And>f s. step f (h s) = apfst h (step f s)"
  shows "drain step n buf (h s) = (case drain step n buf s of (n', buf', s', go) \<Rightarrow> (n', buf', h s', go))"
proof (induction "length buf" arbitrary: n buf s rule: less_induct)
  case less
  show ?case
  proof (cases "map_of buf n")
    case None
    then show ?thesis by (simp add: drain.simps [of step n buf])
  next
    case (Some f)
    obtain s' go where "step f s = (s', go)" by fastforce
    with assms [of f s] Some less [OF delete_shorter [OF Some], of "n + 1" s'] show ?thesis
      by (simp add: drain.simps [of step n buf])
  qed
qed

end
