(* ===== verification/Tonic_Stream.thy ===== *)
theory Tonic_Stream
  imports Tonic_Wire Mpsc Oneshot Reorder_Buffer
begin

text \<open>
  Streams of \<open>des-tonic\<close>: what the client endpoint (\<open>channel.rs\<close>) and the server endpoint
  (\<open>server.rs\<close>) do with stream frames, and the frames that clients and servers send. Frames
  carry sequence numbers and go through a reorder buffer. The channels to the tasks that read a
  stream or wait for a response are those of \<open>des-tokio\<close>, at addresses. The codes of statuses
  belong to the crate \<open>tonic\<close>: the record \<open>grpc_codes\<close>.
\<close>

section \<open>Statuses and channels\<close>

record 'c grpc_codes =
  gc_ok :: 'c
  gc_internal :: 'c
  gc_resource_exhausted :: 'c
  gc_cancelled :: 'c
  gc_deadline_exceeded :: 'c
  gc_unavailable :: 'c
  gc_unimplemented :: 'c
  gc_invalid_argument :: 'c

record 'c grpc_status =
  gs_code :: 'c
  gs_message :: str

definition status_new :: "'c \<Rightarrow> str \<Rightarrow> 'c grpc_status" where
  "status_new c msg = \<lparr>gs_code = c, gs_message = msg\<rparr>"

type_synonym 'c item = "'c grpc_status + byte list"

record ('c, 'w) rpc_channels =
  ch_oneshots :: "nat \<Rightarrow> ('c item, 'w) oneshot_state"
  ch_mpscs :: "nat \<Rightarrow> ('c item, 'w) mpsc_state"
  ch_woken :: "'w list"
  ch_next :: nat

text \<open>\<open>mpsc::channel(16)\<close> and \<open>oneshot::channel()\<close>.\<close>

definition new_mpsc :: "('c, 'w) rpc_channels \<Rightarrow> nat \<times> ('c, 'w) rpc_channels" where
  "new_mpsc W = (ch_next W, W\<lparr>ch_next := ch_next W + 1, ch_mpscs := (ch_mpscs W)(ch_next W := mpsc_new 16)\<rparr>)"

definition new_oneshot :: "('c, 'w) rpc_channels \<Rightarrow> nat \<times> ('c, 'w) rpc_channels" where
  "new_oneshot W = (ch_next W, W\<lparr>ch_next := ch_next W + 1, ch_oneshots := (ch_oneshots W)(ch_next W := oneshot_channel)\<rparr>)"

definition respond :: "nat \<Rightarrow> 'c item \<Rightarrow> ('c, 'w) rpc_channels \<Rightarrow> ('c, 'w) rpc_channels" where
  "respond tx r W =
     (let (_, ks, c) = oneshot_send r (ch_oneshots W tx)
      in W\<lparr>ch_oneshots := (ch_oneshots W)(tx := c), ch_woken := ch_woken W @ ks\<rparr>)"

definition drop_response_tx :: "nat \<Rightarrow> ('c, 'w) rpc_channels \<Rightarrow> ('c, 'w) rpc_channels" where
  "drop_response_tx tx W =
     (let (ks, c) = oneshot_sender_drop (ch_oneshots W tx)
      in W\<lparr>ch_oneshots := (ch_oneshots W)(tx := c), ch_woken := ch_woken W @ ks\<rparr>)"

text \<open>\<open>try_send\<close>; the result tells whether it succeeded.\<close>

definition try_item :: "nat \<Rightarrow> 'c item \<Rightarrow> ('c, 'w) rpc_channels \<Rightarrow> bool \<times> ('c, 'w) rpc_channels" where
  "try_item tx v W =
     (let (r, ks, c) = try_send v (ch_mpscs W tx)
      in (r = Inr (), W\<lparr>ch_mpscs := (ch_mpscs W)(tx := c), ch_woken := ch_woken W @ ks\<rparr>))"

definition drop_item_tx :: "nat \<Rightarrow> ('c, 'w) rpc_channels \<Rightarrow> ('c, 'w) rpc_channels" where
  "drop_item_tx tx W =
     (let (ks, c) = sender_drop (ch_mpscs W tx)
      in W\<lparr>ch_mpscs := (ch_mpscs W)(tx := c), ch_woken := ch_woken W @ ks\<rparr>)"

definition MAX_REORDER_FRAMES :: nat where
  "MAX_REORDER_FRAMES = 64"

section \<open>Streams at the client\<close>

datatype client_stream_mode = ClientMode | ServerMode | BidiMode

record 'c client_stream =
  cs_mode :: client_stream_mode
  cs_next_expected :: u64
  cs_saw_open :: bool
  cs_reorder :: "'c stream_frame_wire reorder"
  cs_response_tx :: "nat option"
  cs_response_payload :: "byte list option"
  cs_stream_tx :: "nat option"

definition client_stream_new :: "client_stream_mode \<Rightarrow> nat option \<Rightarrow> nat option \<Rightarrow> 'c client_stream" where
  "client_stream_new mode response_tx stream_tx =
     \<lparr>cs_mode = mode, cs_next_expected = 0, cs_saw_open = False, cs_reorder = [], cs_response_tx = response_tx,
      cs_response_payload = None, cs_stream_tx = stream_tx\<rparr>"

text \<open>A status for whoever waits; the sender that is used is taken out of the state and dropped.\<close>

definition fail_client_stream ::
  "'c grpc_status \<Rightarrow> 'c client_stream \<times> ('c, 'w) rpc_channels \<Rightarrow> 'c client_stream \<times> ('c, 'w) rpc_channels"
where
  "fail_client_stream status = (\<lambda>(st, W).
     case cs_mode st of
       ClientMode \<Rightarrow>
         (case cs_response_tx st of
            Some tx \<Rightarrow> (st\<lparr>cs_response_tx := None\<rparr>, respond tx (Inl status) W)
          | None \<Rightarrow> (st, W))
     | _ \<Rightarrow>
         (case cs_stream_tx st of
            Some tx \<Rightarrow> (st\<lparr>cs_stream_tx := None\<rparr>, drop_item_tx tx (snd (try_item tx (Inl status) W)))
          | None \<Rightarrow> (st, W)))"

text \<open>\<open>pending.remove\<close>: the senders that are left are dropped.\<close>

definition drop_client_stream :: "'c client_stream \<times> ('c, 'w) rpc_channels \<Rightarrow> ('c, 'w) rpc_channels" where
  "drop_client_stream = (\<lambda>(st, W).
     let W = (case cs_response_tx st of Some tx \<Rightarrow> drop_response_tx tx W | None \<Rightarrow> W)
     in case cs_stream_tx st of Some tx \<Rightarrow> drop_item_tx tx W | None \<Rightarrow> W)"

text \<open>The body of the loop for one frame, and whether the stream goes on; if not, it is removed.\<close>

definition client_frame ::
  "'c grpc_codes \<Rightarrow> 'c stream_frame_wire \<Rightarrow> 'c client_stream \<times> ('c, 'w) rpc_channels
    \<Rightarrow> ('c client_stream \<times> ('c, 'w) rpc_channels) \<times> bool"
where
  "client_frame K f = (\<lambda>(st, W).
     case kind f of
       Open \<Rightarrow> ((st\<lparr>cs_saw_open := True\<rparr>, W), True)
     | Data \<Rightarrow>
         if \<not> cs_saw_open st
         then (fail_client_stream (status_new (gc_internal K) (lit ''stream protocol violation: data before open'')) (st, W), False)
         else
           (case cs_mode st of
              ClientMode \<Rightarrow>
                if cs_response_payload st \<noteq> None
                then (fail_client_stream
                        (status_new (gc_internal K) (lit ''stream protocol violation: multiple response data frames'')) (st, W), False)
                else ((st\<lparr>cs_response_payload := Some (sf_payload f)\<rparr>, W), True)
            | _ \<Rightarrow>
                (case cs_stream_tx st of
                   Some tx \<Rightarrow> (let (sent, W) = try_item tx (Inr (sf_payload f)) W in ((st, W), sent))
                 | None \<Rightarrow> ((st, W), True)))
     | Close \<Rightarrow>
         (case cs_mode st of
            ClientMode \<Rightarrow>
              (case cs_response_tx st of
                 Some tx \<Rightarrow>
                   if status_ok f
                   then (st\<lparr>cs_response_tx := None, cs_response_payload := None\<rparr>,
                         respond tx (Inr (case cs_response_payload st of Some p \<Rightarrow> p | None \<Rightarrow> [])) W)
                   else (st\<lparr>cs_response_tx := None\<rparr>, respond tx (Inl (status_new (status_code f) (status_message f))) W)
               | None \<Rightarrow> (st, W))
          | _ \<Rightarrow>
              (case cs_stream_tx st of
                 Some tx \<Rightarrow>
                   (st\<lparr>cs_stream_tx := None\<rparr>,
                    if status_ok f then drop_item_tx tx W
                    else drop_item_tx tx (snd (try_item tx (Inl (status_new (status_code f) (status_message f))) W)))
               | None \<Rightarrow> (st, W)), False)
     | Cancel \<Rightarrow> (fail_client_stream (status_new (gc_cancelled K) (lit ''stream cancelled'')) (st, W), False))"

text \<open>
  A server that sends no opening frame starts at number one.
\<close>

definition implicit_open :: "'c client_stream \<Rightarrow> 'c client_stream" where
  "implicit_open st =
     (if \<not> cs_saw_open st \<and> cs_next_expected st = 0 \<and> map_of (cs_reorder st) 0 = None \<and> map_of (cs_reorder st) 1 \<noteq> None
      then st\<lparr>cs_saw_open := True, cs_next_expected := 1\<rparr> else st)"

text \<open>The frame of a known stream; \<open>None\<close> is a stream that was removed.\<close>

definition client_stream_arrival ::
  "'c grpc_codes \<Rightarrow> 'c stream_frame_wire \<Rightarrow> 'c client_stream \<times> ('c, 'w) rpc_channels
    \<Rightarrow> 'c client_stream option \<times> ('c, 'w) rpc_channels"
where
  "client_stream_arrival K f = (\<lambda>(st, W).
     if MAX_REORDER_FRAMES \<le> length (cs_reorder st)
     then (None, drop_client_stream
             (fail_client_stream (status_new (gc_resource_exhausted K) (lit ''stream reorder buffer exceeded'')) (st, W)))
     else
       (let st = implicit_open (st\<lparr>cs_reorder := AList.update (sf_seq f) f (cs_reorder st)\<rparr>);
            (n, buf, (st, W), go) = drain (client_frame K) (cs_next_expected st) (cs_reorder st) (st, W)
        in if go then (Some (st\<lparr>cs_next_expected := n, cs_reorder := buf\<rparr>), W)
           else (None, drop_client_stream (st, W))))"

text \<open>
  The branch of \<open>process_event\<close> for stream frames: \<open>frame\<close> is the decoded payload of a
  message with correlation identifier \<open>sid\<close>, which overrides the one in the frame.
\<close>

definition client_stream_frame ::
  "'c grpc_codes \<Rightarrow> str \<Rightarrow> 'c grpc_status + 'c stream_frame_wire \<Rightarrow> (str \<rightharpoonup> 'c client_stream) \<times> ('c, 'w) rpc_channels
    \<Rightarrow> (str \<rightharpoonup> 'c client_stream) \<times> ('c, 'w) rpc_channels"
where
  "client_stream_frame K sid frame = (\<lambda>(pending, W).
     case frame of
       Inl status \<Rightarrow>
         (case pending sid of
            Some st \<Rightarrow> (pending(sid := None), drop_client_stream (fail_client_stream status (st, W)))
          | None \<Rightarrow> (pending, W))
     | Inr f \<Rightarrow>
         (let f = f\<lparr>stream_id := sid\<rparr>
          in if direction f \<noteq> ServerToClient then (pending, W)
             else
               (case pending sid of
                  None \<Rightarrow> (pending, W)
                | Some st \<Rightarrow> (let (st', W) = client_stream_arrival K f (st, W) in (pending(sid := st'), W)))))"

section \<open>Frames\<close>

definition rpc_frame ::
  "str \<Rightarrow> stream_direction \<Rightarrow> u64 \<Rightarrow> stream_frame_kind \<Rightarrow> str option \<Rightarrow> byte list \<Rightarrow> bool \<Rightarrow> 'c \<Rightarrow> str
    \<Rightarrow> 'c stream_frame_wire"
where
  "rpc_frame sid dir n k method payload good code message =
     \<lparr>stream_id = sid, direction = dir, sf_seq = n, kind = k, sf_method = method, sf_metadata = [], sf_payload = payload,
      status_ok = good, status_code = code, status_message = message\<rparr>"

definition open_rpc_frame :: "'c grpc_codes \<Rightarrow> str \<Rightarrow> stream_direction \<Rightarrow> str \<Rightarrow> 'c stream_frame_wire" where
  "open_rpc_frame K sid dir method = rpc_frame sid dir 0 Open (Some method) [] True (gc_ok K) []"

definition data_rpc_frame :: "'c grpc_codes \<Rightarrow> str \<Rightarrow> stream_direction \<Rightarrow> u64 \<Rightarrow> byte list \<Rightarrow> 'c stream_frame_wire" where
  "data_rpc_frame K sid dir n payload = rpc_frame sid dir n Data None payload True (gc_ok K) []"

definition close_rpc_frame :: "'c grpc_codes \<Rightarrow> str \<Rightarrow> stream_direction \<Rightarrow> u64 \<Rightarrow> 'c stream_frame_wire" where
  "close_rpc_frame K sid dir n = rpc_frame sid dir n Close None [] True (gc_ok K) []"

definition error_rpc_frame :: "str \<Rightarrow> u64 \<Rightarrow> 'c grpc_status \<Rightarrow> 'c stream_frame_wire" where
  "error_rpc_frame sid n status =
     rpc_frame sid ServerToClient n Close None [] False (gs_code status) (gs_message status)"

definition cancel_rpc_frame :: "'c grpc_codes \<Rightarrow> str \<Rightarrow> 'c stream_frame_wire" where
  "cancel_rpc_frame K sid =
     rpc_frame sid ClientToServer 0 Cancel None [] False (gc_cancelled K) (lit ''deadline exceeded'')"

subsection \<open>Sent by a server\<close>

text \<open>The loop that sends what a handler's stream yields, from number \<open>n\<close> on.\<close>

fun item_frames :: "'c grpc_codes \<Rightarrow> str \<Rightarrow> u64 \<Rightarrow> 'c item list \<Rightarrow> 'c stream_frame_wire list" where
  "item_frames K sid n [] = [close_rpc_frame K sid ServerToClient n]"
| "item_frames K sid n (Inr payload # items) =
     data_rpc_frame K sid ServerToClient n payload # item_frames K sid (n + 1) items"
| "item_frames K sid n (Inl status # items) = [error_rpc_frame sid n status]"

text \<open>Server and bidirectional streaming: the result of the handler is a stream of items or a status.\<close>

definition streaming_response_frames ::
  "'c grpc_codes \<Rightarrow> str \<Rightarrow> str \<Rightarrow> 'c grpc_status + 'c item list \<Rightarrow> 'c stream_frame_wire list"
where
  "streaming_response_frames K sid method result =
     open_rpc_frame K sid ServerToClient method #
     (case result of Inr items \<Rightarrow> item_frames K sid 1 items | Inl status \<Rightarrow> [error_rpc_frame sid 1 status])"

text \<open>Client streaming: the handler's result is one payload or a status.\<close>

definition single_response_frames ::
  "'c grpc_codes \<Rightarrow> str \<Rightarrow> str \<Rightarrow> 'c item \<Rightarrow> 'c stream_frame_wire list"
where
  "single_response_frames K sid method result =
     (case result of
        Inr payload \<Rightarrow>
          [open_rpc_frame K sid ServerToClient method, data_rpc_frame K sid ServerToClient 1 payload,
           close_rpc_frame K sid ServerToClient 2]
      | Inl status \<Rightarrow> [open_rpc_frame K sid ServerToClient method, error_rpc_frame sid 1 status])"

subsection \<open>Sent by a client\<close>

text \<open>The task that forwards the requests of a stream: what it sends for the payloads it receives, and at the end.\<close>

fun request_frames :: "'c grpc_codes \<Rightarrow> str \<Rightarrow> u64 \<Rightarrow> byte list list \<Rightarrow> 'c stream_frame_wire list" where
  "request_frames K sid n [] = [close_rpc_frame K sid ClientToServer n]"
| "request_frames K sid n (payload # rest) =
     data_rpc_frame K sid ClientToServer n payload # request_frames K sid (n + 1) rest"

definition server_streaming_request_frames :: "'c grpc_codes \<Rightarrow> str \<Rightarrow> str \<Rightarrow> byte list \<Rightarrow> 'c stream_frame_wire list" where
  "server_streaming_request_frames K sid path payload =
     [open_rpc_frame K sid ClientToServer path, data_rpc_frame K sid ClientToServer 1 payload,
      close_rpc_frame K sid ClientToServer 2]"

section \<open>Streams at the server\<close>

record 'c inbound_stream =
  ib_next_expected :: u64
  ib_reorder :: "'c stream_frame_wire reorder"
  ib_tx :: "nat option"

record ('c, 'h) single_request_stream =
  sr_handler :: 'h
  sr_next_expected :: u64
  sr_reorder :: "'c stream_frame_wire reorder"
  sr_request_payload :: "byte list option"
  sr_inbound_closed :: bool
  sr_open_metadata :: "(str \<times> str) list"
  sr_method :: str

datatype ('c, 'h) server_stream =
    ServerClient "'c inbound_stream"
  | ServerServer "('c, 'h) single_request_stream"
  | ServerBidi "'c inbound_stream"

record 'h grpc_router =
  gr_unary :: "str \<rightharpoonup> 'h"
  gr_server_streaming :: "str \<rightharpoonup> 'h"
  gr_client_streaming :: "str \<rightharpoonup> 'h"
  gr_bidi_streaming :: "str \<rightharpoonup> 'h"

text \<open>What the endpoint does besides: refusing a stream, and starting the task of a handler.\<close>

datatype ('c, 'h) server_action =
    SendClose "'c grpc_status"
  | SpawnBidi 'h nat "(str \<times> str) list" str
  | SpawnClient 'h nat "(str \<times> str) list" str
  | SpawnServer 'h "byte list" "(str \<times> str) list" str

text \<open>
  The loop body for streams with a channel to the handler, on its sender, and whether the loop
  goes on; if not, the stream is removed.
\<close>

definition take_tx :: "nat option \<times> ('c, 'w) rpc_channels \<Rightarrow> nat option \<times> ('c, 'w) rpc_channels" where
  "take_tx = (\<lambda>(tx, W). (None, case tx of Some t \<Rightarrow> drop_item_tx t W | None \<Rightarrow> W))"

definition inbound_frame ::
  "'c stream_frame_wire \<Rightarrow> nat option \<times> ('c, 'w) rpc_channels \<Rightarrow> (nat option \<times> ('c, 'w) rpc_channels) \<times> bool"
where
  "inbound_frame f = (\<lambda>(tx, W).
     case kind f of
       Open \<Rightarrow> ((tx, W), True)
     | Data \<Rightarrow>
         (case tx of
            Some t \<Rightarrow>
              (let (sent, W) = try_item t (Inr (sf_payload f)) W
               in if sent then ((tx, W), True) else (take_tx (tx, W), False))
          | None \<Rightarrow> ((tx, W), True))
     | Close \<Rightarrow> (take_tx (tx, W), True)
     | Cancel \<Rightarrow> (take_tx (tx, W), False))"

definition inbound_arrival ::
  "'c stream_frame_wire \<Rightarrow> 'c inbound_stream \<times> ('c, 'w) rpc_channels
    \<Rightarrow> 'c inbound_stream option \<times> ('c, 'w) rpc_channels"
where
  "inbound_arrival f = (\<lambda>(st, W).
     if MAX_REORDER_FRAMES \<le> length (ib_reorder st) then (None, snd (take_tx (ib_tx st, W)))
     else
       (let (n, buf, (tx, W), go) =
              drain inbound_frame (ib_next_expected st) (AList.update (sf_seq f) f (ib_reorder st)) (ib_tx st, W)
        in if \<not> go \<or> tx = None \<and> buf = [] then (None, W)
           else (Some \<lparr>ib_next_expected = n, ib_reorder = buf, ib_tx = tx\<rparr>, W)))"

text \<open>The loop body for streams with a single request.\<close>

datatype single_stop = GoOn | TooMany | WasCancelled

definition single_frame ::
  "'c stream_frame_wire \<Rightarrow> byte list option \<times> bool \<times> single_stop \<Rightarrow> (byte list option \<times> bool \<times> single_stop) \<times> bool"
where
  "single_frame f = (\<lambda>(req, closed, stop).
     case kind f of
       Open \<Rightarrow> ((req, closed, stop), True)
     | Data \<Rightarrow> if req \<noteq> None then ((req, closed, TooMany), False) else ((Some (sf_payload f), closed, stop), True)
     | Close \<Rightarrow> ((req, True, stop), True)
     | Cancel \<Rightarrow> ((req, closed, WasCancelled), False))"

definition single_arrival ::
  "'c grpc_codes \<Rightarrow> 'c stream_frame_wire \<Rightarrow> ('c, 'h) single_request_stream
    \<Rightarrow> ('c, 'h) single_request_stream option \<times> ('c, 'h) server_action list"
where
  "single_arrival K f st =
     (if MAX_REORDER_FRAMES \<le> length (sr_reorder st) then (None, [])
      else
        (let (n, buf, (req, closed, stop), go) =
               drain single_frame (sr_next_expected st) (AList.update (sf_seq f) f (sr_reorder st))
                 (sr_request_payload st, sr_inbound_closed st, GoOn)
         in case stop of
              TooMany \<Rightarrow> (None, [SendClose (status_new (gc_internal K) (lit ''multiple request data frames''))])
            | WasCancelled \<Rightarrow> (None, [])
            | GoOn \<Rightarrow>
                if closed
                then
                  (case req of
                     None \<Rightarrow> (None, [SendClose (status_new (gc_internal K) (lit ''missing request payload''))])
                   | Some payload \<Rightarrow> (None, [SpawnServer (sr_handler st) payload (sr_open_metadata st) (sr_method st)]))
                else (Some (st\<lparr>sr_next_expected := n, sr_reorder := buf, sr_request_payload := req,
                                sr_inbound_closed := closed\<rparr>), [])))"

text \<open>An opening frame: the handler decides the kind of stream, and the opening takes number zero.\<close>

definition server_open ::
  "'c grpc_codes \<Rightarrow> 'h grpc_router \<Rightarrow> str \<Rightarrow> 'c stream_frame_wire \<Rightarrow> (str \<rightharpoonup> ('c, 'h) server_stream) \<times> ('c, 'w) rpc_channels
    \<Rightarrow> (str \<rightharpoonup> ('c, 'h) server_stream) \<times> ('c, 'w) rpc_channels \<times> ('c, 'h) server_action list"
where
  "server_open K R sid f = (\<lambda>(streams, W).
     case sf_method f of
       None \<Rightarrow> (streams, W, [SendClose (status_new (gc_invalid_argument K) (lit ''missing method''))])
     | Some method \<Rightarrow>
         if streams sid \<noteq> None then (streams, W, [])
         else
           (case gr_bidi_streaming R method of
              Some h \<Rightarrow>
                (let (ch, W) = new_mpsc W
                 in (streams(sid \<mapsto> ServerBidi \<lparr>ib_next_expected = 1, ib_reorder = [], ib_tx = Some ch\<rparr>), W,
                     [SpawnBidi h ch (sf_metadata f) method]))
            | None \<Rightarrow>
                (case gr_server_streaming R method of
                   Some h \<Rightarrow>
                     (streams(sid \<mapsto> ServerServer \<lparr>sr_handler = h, sr_next_expected = 1, sr_reorder = [],
                        sr_request_payload = None, sr_inbound_closed = False, sr_open_metadata = sf_metadata f,
                        sr_method = method\<rparr>), W, [])
                 | None \<Rightarrow>
                     (case gr_client_streaming R method of
                        Some h \<Rightarrow>
                          (let (ch, W) = new_mpsc W
                           in (streams(sid \<mapsto> ServerClient \<lparr>ib_next_expected = 1, ib_reorder = [], ib_tx = Some ch\<rparr>), W,
                               [SpawnClient h ch (sf_metadata f) method]))
                      | None \<Rightarrow>
                          (streams, W,
                           [SendClose (status_new (gc_unimplemented K) (lit ''method not found: '' @ method))])))))"

definition server_stream_frame ::
  "'c grpc_codes \<Rightarrow> 'h grpc_router \<Rightarrow> str \<Rightarrow> 'e + 'c stream_frame_wire
    \<Rightarrow> (str \<rightharpoonup> ('c, 'h) server_stream) \<times> ('c, 'w) rpc_channels
    \<Rightarrow> (str \<rightharpoonup> ('c, 'h) server_stream) \<times> ('c, 'w) rpc_channels \<times> ('c, 'h) server_action list"
where
  "server_stream_frame K R sid frame = (\<lambda>(streams, W).
     case frame of
       Inl _ \<Rightarrow> (streams, W, [])
     | Inr f \<Rightarrow>
         (let f = f\<lparr>stream_id := sid\<rparr>
          in if direction f \<noteq> ClientToServer then (streams, W, [])
             else if kind f = Open then server_open K R sid f (streams, W)
             else
               (case streams sid of
                  None \<Rightarrow> (streams, W, [])
                | Some (ServerClient st) \<Rightarrow>
                    (let (st', W) = inbound_arrival f (st, W) in (streams(sid := map_option ServerClient st'), W, []))
                | Some (ServerBidi st) \<Rightarrow>
                    (let (st', W) = inbound_arrival f (st, W) in (streams(sid := map_option ServerBidi st'), W, []))
                | Some (ServerServer st) \<Rightarrow>
                    (let (st', acts) = single_arrival K f st in (streams(sid := map_option ServerServer st'), W, acts)))))"

end
