(* ===== verification/Tonic_Delivery.thy ===== *)
theory Tonic_Delivery
  imports Tonic_Stream
begin

text \<open>
  What the streams of \<open>des-tonic\<close> deliver: the frames of a stream reach an endpoint in any
  order, since the transport draws a latency for each message, and the reader gets what it would
  get if they arrived in sequence.
\<close>

section \<open>Responses at the client\<close>

text \<open>The bookkeeping of the reorder buffer does not influence what a frame does.\<close>

definition with_buffer :: "u64 \<Rightarrow> 'c stream_frame_wire reorder \<Rightarrow> 'c client_stream \<times> 'x \<Rightarrow> 'c client_stream \<times> 'x" where
  "with_buffer n buf = apfst (\<lambda>st. st\<lparr>cs_next_expected := n, cs_reorder := buf\<rparr>)"

lemma with_buffer_simps [simp]:
  "with_buffer n buf (st, W) = (st\<lparr>cs_next_expected := n, cs_reorder := buf\<rparr>, W)"
  "with_buffer n buf (with_buffer m buf' s) = with_buffer n buf s"
  "drop_client_stream (with_buffer n buf s) = drop_client_stream s"
  by (cases s; simp add: with_buffer_def drop_client_stream_def)+

lemma fail_client_stream_buffer:
  "fail_client_stream status (with_buffer n buf s) = with_buffer n buf (fail_client_stream status s)"
  by (cases s) (simp add: with_buffer_def fail_client_stream_def split: client_stream_mode.split option.split)

lemma client_frame_buffer: "client_frame K f (with_buffer n buf s) = apfst (with_buffer n buf) (client_frame K f s)"
proof (cases s)
  case (Pair st W)
  then show ?thesis
    using fail_client_stream_buffer [of _ n buf "(st, W)"]
    by (auto simp: client_frame_def Let_def split: stream_frame_kind.split client_stream_mode.split option.split prod.split)
qed

lemma client_frame_saw_open: "cs_saw_open st \<Longrightarrow> cs_saw_open (fst (fst (client_frame K f (st, W))))"
  by (simp add: client_frame_def fail_client_stream_def
      split: stream_frame_kind.split client_stream_mode.split option.split prod.split)

lemma handle_frames_saw_open:
  "cs_saw_open (fst s) \<Longrightarrow> handle_frames (client_frame K) fs s = (s', go) \<Longrightarrow> cs_saw_open (fst s')"
proof (induction fs arbitrary: s)
  case (Cons f fs)
  obtain s1 go1 where s1: "client_frame K f s = (s1, go1)" by fastforce
  then have "cs_saw_open (fst s1)" using client_frame_saw_open [of "fst s" K f "snd s"] Cons.prems(1) by simp
  with s1 Cons show ?case by (auto split: if_splits)
qed simp

text \<open>One frame of a stream that may be gone already, and the frames of one stream at the endpoint.\<close>

definition client_arrival ::
  "'c grpc_codes \<Rightarrow> 'c stream_frame_wire \<Rightarrow> 'c client_stream option \<times> ('c, 'w) rpc_channels
    \<Rightarrow> 'c client_stream option \<times> ('c, 'w) rpc_channels"
where
  "client_arrival K f = (\<lambda>(st, W). case st of Some st \<Rightarrow> client_stream_arrival K f (st, W) | None \<Rightarrow> (None, W))"

lemma client_stream_frame_arrival:
  "direction f = ServerToClient \<Longrightarrow> stream_id f = sid \<Longrightarrow>
    client_stream_frame K sid (Inr f) (pending, W) =
      (let (st, W) = client_arrival K f (pending sid, W) in (pending(sid := st), W))"
  by (auto simp: client_stream_frame_def client_arrival_def Let_def fun_upd_idem split: option.split)

lemma client_stream_frames_arrivals:
  "\<forall>i\<in>set xs. direction (g i) = ServerToClient \<and> stream_id (g i) = sid \<Longrightarrow>
    fold (\<lambda>i. client_stream_frame K sid (Inr (g i))) xs (pending, W) =
      (let (st, W) = fold (\<lambda>i. client_arrival K (g i)) xs (pending sid, W) in (pending(sid := st), W))"
proof (induction xs arbitrary: pending W)
  case (Cons i xs)
  obtain st W' where st: "client_arrival K (g i) (pending sid, W) = (st, W')" by fastforce
  with Cons.prems have "client_stream_frame K sid (Inr (g i)) (pending, W) = (pending(sid := st), W')"
    by (simp add: client_stream_frame_arrival)
  with st Cons show ?case by (auto simp: Let_def fun_eq_iff split: prod.split)
qed simp

text \<open>
  The states of a stream while the frames with numbers in \<open>A\<close> have arrived: it waits for the first frame;
  or it handles frames in order; or it has ended.
\<close>

definition client_progress ::
  "'c grpc_codes \<Rightarrow> (nat \<Rightarrow> 'c stream_frame_wire) \<Rightarrow> nat \<Rightarrow> 'c client_stream \<Rightarrow> ('c, 'w) rpc_channels \<Rightarrow> nat set
    \<Rightarrow> 'c client_stream option \<times> ('c, 'w) rpc_channels \<Rightarrow> bool"
where
  "client_progress K g b st0 W0 A r \<longleftrightarrow>
     (\<exists>buf. r = (Some (st0\<lparr>cs_reorder := buf\<rparr>), W0) \<and> 0 \<notin> A \<and> 1 \<notin> A \<and> buffered g A 0 buf) \<or>
     (\<exists>s n buf. r = apfst Some (with_buffer n buf s) \<and>
        in_order (client_frame K) g 1 (st0\<lparr>cs_saw_open := True\<rparr>, W0) A n buf s) \<or>
     (\<exists>s. r = (None, drop_client_stream s) \<and>
        handle_frames (client_frame K) (map g [1..<b]) (st0\<lparr>cs_saw_open := True\<rparr>, W0) = (s, False))"

lemma client_progress_started:
  "in_order (client_frame K) g 1 (st0\<lparr>cs_saw_open := True\<rparr>, W0) A n buf s \<Longrightarrow>
    client_progress K g b st0 W0 A (apfst Some (with_buffer n buf s))"
  unfolding client_progress_def by blast

lemma client_progress_ended:
  "handle_frames (client_frame K) (map g [1..<b]) (st0\<lparr>cs_saw_open := True\<rparr>, W0) = (s, False) \<Longrightarrow>
    client_progress K g b st0 W0 A (None, drop_client_stream s)"
  unfolding client_progress_def by blast

lemma drain_with_buffer:
  assumes "drain (client_frame K) n buf s = (n', buf', s', go)"
  shows "drain (client_frame K) n buf (with_buffer m c s) = (n', buf', with_buffer m c s', go)"
  using drain_commute [of "client_frame K" "with_buffer m c" n buf s, OF client_frame_buffer] assms by simp

text \<open>An arrival at a stream that has started.\<close>

lemma client_arrival_started:
  assumes "in_order (client_frame K) g 1 (st0\<lparr>cs_saw_open := True\<rparr>, W0) A n buf s"
    and "finite A" "insert i A \<subseteq> {..<b}" "b < 2 ^ 64" "1 \<le> b" "i \<notin> A" "sf_seq (g i) = word_of_nat i" "length buf < 64"
  shows "client_progress K g b st0 W0 (insert i A) (client_arrival K (g i) (apfst Some (with_buffer n buf s)))"
proof -
  let ?buf = "AList.update (word_of_nat i) (g i) buf"
  obtain n' buf' s' go where d: "drain (client_frame K) n ?buf s = (n', buf', s', go)" by (metis prod_cases4)
  have "1 \<le> i \<or> i = 0" by auto
  from in_order_arrive [OF assms(1-6) this d]
  have after: "if go then in_order (client_frame K) g 1 (st0\<lparr>cs_saw_open := True\<rparr>, W0) (insert i A) n' buf' s'
    else handle_frames (client_frame K) (map g [1..<b]) (st0\<lparr>cs_saw_open := True\<rparr>, W0) = (s', False)" .
  have "cs_saw_open (fst s)"
    by (rule handle_frames_saw_open [of "(st0\<lparr>cs_saw_open := True\<rparr>, W0)"])
      (use assms(1) in \<open>auto simp: in_order_def\<close>)
  with assms(7,8) have "client_arrival K (g i) (apfst Some (with_buffer n buf s)) =
    (let (n', buf', s', go) = drain (client_frame K) n ?buf (with_buffer n ?buf s)
     in if go then apfst Some (with_buffer n' buf' s') else (None, drop_client_stream s'))"
    by (cases s) (simp add: client_arrival_def client_stream_arrival_def implicit_open_def MAX_REORDER_FRAMES_def
        Let_def split: prod.split)
  also have "\<dots> = (if go then apfst Some (with_buffer n' buf' s') else (None, drop_client_stream s'))"
    using drain_with_buffer [OF d] by simp
  finally show ?thesis using after
    by (cases go) (simp_all only: if_True if_False client_progress_started client_progress_ended)
qed

lemma in_order_not_started: "0 \<notin> A \<Longrightarrow> 1 \<notin> A \<Longrightarrow> buffered g A 0 buf \<Longrightarrow> in_order step g 1 s A 1 buf s"
  by (simp add: in_order_def next_missing_here buffered_from_one [unfolded One_nat_def])

text \<open>An arrival at a stream that waits for its first frame.\<close>

lemma client_arrival_waiting:
  assumes A: "0 \<notin> A" "1 \<notin> A" "buffered g A 0 buf"
    and "finite A" "insert i A \<subseteq> {..<b}" "b < 2 ^ 64" "1 \<le> b" "i \<notin> A" "sf_seq (g i) = word_of_nat i" "length buf < 64"
    and st0: "cs_next_expected st0 = 0" "\<not> cs_saw_open st0" and "kind (g 0) = Open"
  shows "client_progress K g b st0 W0 (insert i A) (client_arrival K (g i) (Some (st0\<lparr>cs_reorder := buf\<rparr>), W0))"
proof -
  let ?buf = "AList.update (word_of_nat i) (g i) buf"
  let ?A = "insert i A"
  have "i < 2 ^ 64" using assms(5,6) by auto
  then have B: "buffered g ?A 0 ?buf" using buffered_insert [OF A(3)] by simp
  from buffered_at [OF this, of 0] buffered_at [OF this, of 1]
  have at: "map_of ?buf 0 = (if 0 \<in> ?A then Some (g 0) else None)"
    "map_of ?buf 1 = (if 1 \<in> ?A then Some (g 1) else None)"
    by simp_all
  consider "i = 0" | "i = 1" | "i \<noteq> 0" "i \<noteq> 1" by blast
  then show ?thesis
  proof cases
    assume i: "i = 0"
    let ?buf0 = "AList.delete 0 ?buf"
    have D: "buffered g ?A 1 ?buf0" using buffered_delete [OF B] by simp
    have "map_of ?buf0 1 = None" using at(2) A(2) i by (simp add: AList.delete_conv')
    with i at assms(9,10,13) st0 A(1) have "client_arrival K (g i) (Some (st0\<lparr>cs_reorder := buf\<rparr>), W0) =
      apfst Some (with_buffer 1 ?buf0 (st0\<lparr>cs_saw_open := True\<rparr>, W0))"
      by (simp add: client_arrival_def client_stream_arrival_def implicit_open_def MAX_REORDER_FRAMES_def
          drain.simps [of _ 0] drain.simps [of _ 1] client_frame_def)
    moreover have "in_order (client_frame K) g 1 (st0\<lparr>cs_saw_open := True\<rparr>, W0) ?A 1 ?buf0 (st0\<lparr>cs_saw_open := True\<rparr>, W0)"
      using D A(2) i by (simp add: in_order_def next_missing_here)
    ultimately show ?thesis by (simp only: client_progress_started)
  next
    assume i: "i = 1"
    have eq: "st0\<lparr>cs_reorder := buf', cs_saw_open := True, cs_next_expected := 1\<rparr> =
      st0\<lparr>cs_saw_open := True, cs_next_expected := 1, cs_reorder := buf'\<rparr>" for buf' by simp
    have "client_arrival K (g i) (Some (st0\<lparr>cs_reorder := buf\<rparr>), W0) =
      client_arrival K (g i) (apfst Some (with_buffer 1 buf (st0\<lparr>cs_saw_open := True\<rparr>, W0)))"
      using i at assms(9,10) st0 A(1)
      by (simp add: client_arrival_def client_stream_arrival_def implicit_open_def MAX_REORDER_FRAMES_def eq)
    with client_arrival_started [OF in_order_not_started [OF A] assms(4-10)] show ?thesis by simp
  next
    assume i: "i \<noteq> 0" "i \<noteq> 1"
    with at A assms(9,10) st0 have "client_arrival K (g i) (Some (st0\<lparr>cs_reorder := buf\<rparr>), W0) =
      (Some (st0\<lparr>cs_reorder := ?buf\<rparr>), W0)"
      by (simp add: client_arrival_def client_stream_arrival_def implicit_open_def MAX_REORDER_FRAMES_def drain.simps [of _ 0])
    with i A B show ?thesis unfolding client_progress_def by auto
  qed
qed

lemma client_arrival_progress:
  assumes "client_progress K g b st0 W0 A r" "finite A" "insert i A \<subseteq> {..<b}" "b < 2 ^ 64" "i \<notin> A"
    and "sf_seq (g i) = word_of_nat i" "card (waiting_frames 1 A) < 63"
    and "cs_next_expected st0 = 0" "\<not> cs_saw_open st0" "kind (g 0) = Open"
  shows "client_progress K g b st0 W0 (insert i A) (client_arrival K (g i) r)"
proof -
  have b: "1 \<le> b" using assms(3) by auto
  from assms(1) consider buf where "r = (Some (st0\<lparr>cs_reorder := buf\<rparr>), W0)" "0 \<notin> A" "1 \<notin> A" "buffered g A 0 buf"
    | s n buf where "r = apfst Some (with_buffer n buf s)"
        "in_order (client_frame K) g 1 (st0\<lparr>cs_saw_open := True\<rparr>, W0) A n buf s"
    | s where "r = (None, drop_client_stream s)"
        "handle_frames (client_frame K) (map g [1..<b]) (st0\<lparr>cs_saw_open := True\<rparr>, W0) = (s, False)"
    unfolding client_progress_def by blast
  then show ?thesis
  proof cases
    case 1
    have "length buf < 64"
      using in_order_length [OF in_order_not_started [OF 1(2-4)] assms(2)] assms(7) by simp
    with 1 assms b show ?thesis by (simp add: client_arrival_waiting)
  next
    case 2
    have "length buf < 64" using in_order_length [OF 2(2) assms(2)] assms(7) by simp
    with client_arrival_started [OF 2(2) assms(2-4) b assms(5,6)] 2(1) show ?thesis by simp
  next
    case 3
    then show ?thesis using client_progress_ended [OF 3(2)] by (simp add: client_arrival_def)
  qed
qed

lemma client_arrivals_progress:
  assumes "client_progress K g b st0 W0 A r" "finite A" "A \<union> set xs \<subseteq> {..<b}" "b < 2 ^ 64" "distinct xs" "A \<inter> set xs = {}"
    and "\<And>i. i < b \<Longrightarrow> sf_seq (g i) = word_of_nat i"
    and "\<And>us vs. xs = us @ vs \<Longrightarrow> card (waiting_frames 1 (A \<union> set us)) < 63"
    and "cs_next_expected st0 = 0" "\<not> cs_saw_open st0" "kind (g 0) = Open"
  shows "client_progress K g b st0 W0 (A \<union> set xs) (fold (\<lambda>i. client_arrival K (g i)) xs r)"
  using assms(1-6,8)
proof (induction xs arbitrary: A r)
  case (Cons i xs)
  have "client_progress K g b st0 W0 (insert i A) (client_arrival K (g i) r)"
  proof (rule client_arrival_progress)
    show "card (waiting_frames 1 A) < 63" using Cons.prems(7) [of "[]" "i # xs"] by simp
    show "sf_seq (g i) = word_of_nat i" using Cons.prems(3) assms(7) by auto
  qed (use Cons.prems assms(9-) in auto)
  then have "client_progress K g b st0 W0 (insert i A \<union> set xs) (fold (\<lambda>i. client_arrival K (g i)) xs (client_arrival K (g i) r))"
  proof (rule Cons.IH)
    fix us vs
    assume "xs = us @ vs"
    then show "card (waiting_frames 1 (insert i A \<union> set us)) < 63" using Cons.prems(7) [of "i # us" vs] by simp
  qed (use Cons.prems in auto)
  then show ?case by simp
qed simp

lemma client_frame_ends: "kind f \<in> {Close, Cancel} \<Longrightarrow> \<not> snd (client_frame K f s)"
  by (cases s) (auto simp: client_frame_def)

lemma handle_frames_ends:
  assumes "\<And>s. \<not> snd (step (last fs) s)" "fs \<noteq> []"
  shows "\<not> snd (handle_frames step fs s)"
proof -
  have "fs = butlast fs @ [last fs]" using assms(2) by simp
  then have "handle_frames step fs s = handle_frames step (butlast fs @ [last fs]) s" by simp
  then show ?thesis using assms(1) by (auto simp: handle_frames_append split: prod.split) (metis snd_conv)
qed

text \<open>The frames of a response, opened by the first and ended by the last one, at a stream just opened.\<close>

lemma client_stream_any_order:
  assumes "b < 2 ^ 64" "distinct xs" "set xs = {..<b}" "2 \<le> b"
    and "\<And>us vs. xs = us @ vs \<Longrightarrow> card (waiting_frames 1 (set us)) < 63"
    and "\<And>i. i < b \<Longrightarrow> sf_seq (g i) = word_of_nat i"
    and "kind (g 0) = Open" "kind (g (b - 1)) \<in> {Close, Cancel}"
  shows "fold (\<lambda>i. client_arrival K (g i)) xs (Some (client_stream_new mode rtx stx), W) =
    (None, drop_client_stream (fst (handle_frames (client_frame K) (map g [0..<b]) (client_stream_new mode rtx stx, W))))"
proof -
  let ?st = "client_stream_new mode rtx stx"
  let ?st1 = "?st\<lparr>cs_saw_open := True\<rparr>"
  have st: "cs_next_expected ?st = 0" "\<not> cs_saw_open ?st" "?st\<lparr>cs_reorder := []\<rparr> = ?st"
    by (simp_all add: client_stream_new_def)
  have "client_progress K g b ?st W {} (Some ?st, W)"
    unfolding client_progress_def using buffered_empty [of g 0] st(3) by (metis empty_iff)
  from client_arrivals_progress [OF this, of xs] assms st
  have p: "client_progress K g b ?st W {..<b} (fold (\<lambda>i. client_arrival K (g i)) xs (Some ?st, W))" by simp
  have "last (map g [1..<b]) = g (b - 1)" using assms(4) by (simp add: last_map)
  then have ends: "\<not> snd (handle_frames (client_frame K) (map g [1..<b]) (?st1, W))"
    using client_frame_ends [OF assms(8)] assms(4) by (intro handle_frames_ends) simp_all
  have "{1..<b} \<subseteq> {..<b}" by auto
  then have "\<not> in_order (client_frame K) g 1 (?st1, W) {..<b} n buf s" for n buf s
    using in_order_all [of "client_frame K" g 1 "(?st1, W)" "{..<b}" n buf s b] ends assms(4) by auto
  with p obtain s where s: "fold (\<lambda>i. client_arrival K (g i)) xs (Some ?st, W) = (None, drop_client_stream s)"
    "handle_frames (client_frame K) (map g [1..<b]) (?st1, W) = (s, False)"
    using assms(4) unfolding client_progress_def by auto
  have "[0..<b] = 0 # [1..<b]" using assms(4) by (simp add: upt_conv_Cons)
  then have "handle_frames (client_frame K) (map g [0..<b]) (?st, W) = handle_frames (client_frame K) (map g [1..<b]) (?st1, W)"
    using assms(7) by (simp add: client_frame_def)
  with s show ?thesis by simp
qed

section \<open>What a reader gets\<close>

text \<open>A channel with its one sender and what is in it, and one whose sender is gone.\<close>

definition open_channel :: "'a list \<Rightarrow> ('a, 'w) mpsc_state \<Rightarrow> bool" where
  "open_channel q c \<longleftrightarrow> receiver_alive c \<and> mp_capacity c = 16 \<and> sender_count c = 1 \<and> mp_queue c = q"

definition ended_channel :: "'a list \<Rightarrow> ('a, 'w) mpsc_state \<Rightarrow> bool" where
  "ended_channel q c \<longleftrightarrow> receiver_alive c \<and> sender_count c = 0 \<and> mp_queue c = q"

lemma try_item_open:
  "open_channel q (ch_mpscs W tx) \<Longrightarrow> length q < 16 \<Longrightarrow>
    \<exists>W'. try_item tx v W = (True, W') \<and> open_channel (q @ [v]) (ch_mpscs W' tx)"
  by (cases "receiver_waker (ch_mpscs W tx)") (auto simp: open_channel_def try_item_def try_send_def wake_receiver_def Let_def)

lemma try_item_full:
  "open_channel q (ch_mpscs W tx) \<Longrightarrow> 16 \<le> length q \<Longrightarrow> try_item tx v W = (False, W)"
  by (simp add: open_channel_def try_item_def try_send_def)

lemma drop_item_open: "open_channel q (ch_mpscs W tx) \<Longrightarrow> ended_channel q (ch_mpscs (drop_item_tx tx W) tx)"
  by (cases "receiver_waker (ch_mpscs W tx)")
    (auto simp: open_channel_def ended_channel_def drop_item_tx_def sender_drop_def wake_receiver_def Let_def)

text \<open>What a stream of items gives its reader: everything up to the first status.\<close>

fun stream_items :: "'c item list \<Rightarrow> 'c item list" where
  "stream_items [] = []"
| "stream_items (Inr payload # items) = Inr payload # stream_items items"
| "stream_items (Inl status # items) = [Inl status]"

definition response_items :: "'c grpc_status + 'c item list \<Rightarrow> 'c item list" where
  "response_items result = (case result of Inr items \<Rightarrow> stream_items items | Inl status \<Rightarrow> [Inl status])"

lemma item_frames_nth:
  "i < length (item_frames K sid n items) \<Longrightarrow>
    sf_seq (item_frames K sid n items ! i) = n + word_of_nat i \<and>
    direction (item_frames K sid n items ! i) = ServerToClient \<and> stream_id (item_frames K sid n items ! i) = sid"
  by (induction K sid n items arbitrary: i rule: item_frames.induct)
    (auto simp: nth_Cons close_rpc_frame_def data_rpc_frame_def error_rpc_frame_def rpc_frame_def split: nat.split)

lemma item_frames_last: "item_frames K sid n items \<noteq> [] \<and> kind (last (item_frames K sid n items)) = Close"
  by (induction K sid n items rule: item_frames.induct)
    (auto simp: close_rpc_frame_def error_rpc_frame_def rpc_frame_def)

lemma item_frames_length: "length (item_frames K sid n items) \<le> length (stream_items items) + 1"
  by (induction K sid n items rule: item_frames.induct) auto

lemma status_new_same [simp]: "status_new (gs_code status) (gs_message status) = status"
  by (simp add: status_new_def)

lemma error_frame_handled:
  assumes "cs_mode st \<noteq> ClientMode" "cs_stream_tx st = Some tx" "cs_response_tx st = None"
    and "open_channel q (ch_mpscs W tx)" "length q < 16"
  shows "\<exists>s. client_frame K (error_rpc_frame sid n status) (st, W) = (s, False) \<and>
    ended_channel (q @ [Inl status]) (ch_mpscs (drop_client_stream s) tx)"
proof -
  obtain W' where "try_item tx (Inl status) W = (True, W')" "open_channel (q @ [Inl status]) (ch_mpscs W' tx)"
    using try_item_open [OF assms(4,5)] by blast
  with assms(1-3) drop_item_open show ?thesis
    by (cases "cs_mode st") (auto simp: client_frame_def error_rpc_frame_def rpc_frame_def drop_client_stream_def)
qed

lemma item_frames_handled:
  assumes "cs_mode st \<noteq> ClientMode" "cs_saw_open st" "cs_stream_tx st = Some tx" "cs_response_tx st = None"
    and "open_channel q (ch_mpscs W tx)" "length q + length (stream_items items) \<le> 16"
  shows "\<exists>s. handle_frames (client_frame K) (item_frames K sid n items) (st, W) = (s, False) \<and>
    ended_channel (q @ stream_items items) (ch_mpscs (drop_client_stream s) tx)"
  using assms(5,6)
proof (induction K sid n items arbitrary: q W rule: item_frames.induct)
  case (1 K sid n)
  with assms(1-4) drop_item_open [of q W tx] show ?case
    by (cases "cs_mode st") (auto simp: client_frame_def close_rpc_frame_def rpc_frame_def drop_client_stream_def)
next
  case (2 K sid n payload items)
  then obtain W' where W': "try_item tx (Inr payload) W = (True, W')" "open_channel (q @ [Inr payload]) (ch_mpscs W' tx)"
    using try_item_open [of q W tx "Inr payload"] by auto
  with assms(1-4) have "client_frame K (data_rpc_frame K sid ServerToClient n payload) (st, W) = ((st, W'), True)"
    by (cases "cs_mode st") (auto simp: client_frame_def data_rpc_frame_def rpc_frame_def)
  with 2 W' show ?case by fastforce
next
  case (3 K sid n status items)
  with error_frame_handled [OF assms(1,3,4), of q W K sid n status] show ?case by auto
qed

section \<open>Deliveries\<close>

text \<open>
  The order in which the frames with numbers \<open>a\<close> to \<open>b - 1\<close> arrive: any order in which
  fewer than 63 frames wait for an earlier one at a time. Frames that the transport drops do not arrive.
\<close>

definition reordered :: "nat \<Rightarrow> nat \<Rightarrow> nat list \<Rightarrow> bool" where
  "reordered a b xs \<longleftrightarrow>
     distinct xs \<and> set xs = {a..<b} \<and> (\<forall>us vs. xs = us @ vs \<longrightarrow> card (waiting_frames 1 (set us)) < 63)"

lemma reordered_small:
  assumes "distinct xs" "set xs = {a..<b}" "b < 63"
  shows "reordered a b xs"
  unfolding reordered_def
proof (intro conjI allI impI assms(1,2))
  fix us vs
  assume "xs = us @ vs"
  then have "waiting_frames 1 (set us) \<subseteq> {..<b}" using assms(2) by (auto simp: waiting_frames_def)
  then have "card (waiting_frames 1 (set us)) \<le> b" using card_mono [of "{..<b}"] by simp
  with assms(3) show "card (waiting_frames 1 (set us)) < 63" by simp
qed

definition response_numbered :: "str \<Rightarrow> 'c stream_frame_wire list \<Rightarrow> bool" where
  "response_numbered sid fs \<longleftrightarrow>
     (\<forall>i<length fs. sf_seq (fs ! i) = word_of_nat i \<and> direction (fs ! i) = ServerToClient \<and> stream_id (fs ! i) = sid)"

lemma response_any_order:
  assumes "pending sid = Some (client_stream_new mode rtx stx)" "reordered 0 (length fs) xs" "response_numbered sid fs"
    and "2 \<le> length fs" "length fs < 2 ^ 64" "kind (fs ! 0) = Open" "kind (last fs) = Close"
  shows "fold (\<lambda>i. client_stream_frame K sid (Inr (fs ! i))) xs (pending, W) =
    (pending(sid := None), drop_client_stream (fst (handle_frames (client_frame K) fs (client_stream_new mode rtx stx, W))))"
proof -
  have xs: "distinct xs" "set xs = {..<length fs}" using assms(2) by (auto simp: reordered_def)
  have "fs ! (length fs - 1) = last fs" using assms(4) last_conv_nth [of fs] by force
  with assms(5) have "fold (\<lambda>i. client_arrival K (fs ! i)) xs (pending sid, W) =
    (None, drop_client_stream (fst (handle_frames (client_frame K) (map ((!) fs) [0..<length fs])
      (client_stream_new mode rtx stx, W))))"
    unfolding assms(1)
    by (intro client_stream_any_order)
      (use xs assms in \<open>auto simp: reordered_def response_numbered_def\<close>)
  moreover have "fold (\<lambda>i. client_stream_frame K sid (Inr (fs ! i))) xs (pending, W) =
    (let (st, W) = fold (\<lambda>i. client_arrival K (fs ! i)) xs (pending sid, W) in (pending(sid := st), W))"
    by (rule client_stream_frames_arrivals) (use xs assms(3) in \<open>auto simp: response_numbered_def\<close>)
  ultimately show ?thesis by (simp add: map_nth)
qed

lemma streaming_response_numbered: "response_numbered sid (streaming_response_frames K sid path result)"
  unfolding response_numbered_def
proof (intro allI impI)
  fix i
  assume "i < length (streaming_response_frames K sid path result)"
  then show "sf_seq (streaming_response_frames K sid path result ! i) = word_of_nat i \<and>
    direction (streaming_response_frames K sid path result ! i) = ServerToClient \<and>
    stream_id (streaming_response_frames K sid path result ! i) = sid"
    using item_frames_nth [of "i - 1" K sid 1]
    by (cases i) (auto simp: streaming_response_frames_def open_rpc_frame_def error_rpc_frame_def rpc_frame_def split: sum.splits)
qed

lemma streaming_response_frames_ends:
  "kind (streaming_response_frames K sid path result ! 0) = Open"
  "kind (last (streaming_response_frames K sid path result)) = Close"
  "2 \<le> length (streaming_response_frames K sid path result)"
  "length (streaming_response_frames K sid path result) \<le> length (response_items result) + 2"
proof -
  note defs = streaming_response_frames_def response_items_def open_rpc_frame_def error_rpc_frame_def rpc_frame_def
  show "kind (streaming_response_frames K sid path result ! 0) = Open" by (simp add: defs)
  show "kind (last (streaming_response_frames K sid path result)) = Close"
    using item_frames_last [of K sid 1] by (simp add: defs split: sum.split)
  show "2 \<le> length (streaming_response_frames K sid path result)"
    using item_frames_last [of K sid 1] by (simp add: defs Suc_le_eq split: sum.split)
  show "length (streaming_response_frames K sid path result) \<le> length (response_items result) + 2"
    using item_frames_length [of K sid 1] by (cases result) (simp_all add: defs)
qed

lemma streaming_response_handled:
  assumes "mode \<noteq> ClientMode" "open_channel [] (ch_mpscs W tx)" "length (response_items result) \<le> 16"
  shows "ended_channel (response_items result) (ch_mpscs (drop_client_stream (fst (handle_frames (client_frame K)
    (streaming_response_frames K sid path result) (client_stream_new mode None (Some tx), W)))) tx)"
proof -
  let ?st = "(client_stream_new mode None (Some tx) :: 'a client_stream)\<lparr>cs_saw_open := True\<rparr>"
  have st: "cs_mode ?st \<noteq> ClientMode" "cs_saw_open ?st" "cs_stream_tx ?st = Some tx" "cs_response_tx ?st = None"
    using assms(1) by (simp_all add: client_stream_new_def)
  have "client_frame K (open_rpc_frame K sid ServerToClient path) (client_stream_new mode None (Some tx), W) = ((?st, W), True)"
    by (simp add: client_frame_def open_rpc_frame_def rpc_frame_def)
  note opened = this
  show ?thesis
  proof (cases result)
    case (Inl status)
    obtain s where "client_frame K (error_rpc_frame sid 1 status) (?st, W) = (s, False)"
      "ended_channel [Inl status] (ch_mpscs (drop_client_stream s) tx)"
      using error_frame_handled [OF st(1,3,4) assms(2), of K sid 1 status] by auto
    with Inl opened show ?thesis by (simp add: streaming_response_frames_def response_items_def)
  next
    case (Inr items)
    obtain s where "handle_frames (client_frame K) (item_frames K sid 1 items) (?st, W) = (s, False)"
      "ended_channel (stream_items items) (ch_mpscs (drop_client_stream s) tx)"
      using item_frames_handled [OF st assms(2), of items K sid 1] assms(3) Inr by (auto simp: response_items_def)
    with Inr opened show ?thesis by (simp add: streaming_response_frames_def response_items_def)
  qed
qed

text \<open>
  The response of a server-streaming or bidirectional call reaches its reader: however the
  frames that the server sends are reordered on their way, the reader's channel holds the items of the
  handler's stream in order, up to the first status, its sender is gone, and the client forgets the
  stream. The channel has room for 16 items that were not read.
\<close>

lemma response_stream_delivered:
  assumes "mode \<noteq> ClientMode" "pending sid = Some (client_stream_new mode None (Some tx))"
    and "open_channel [] (ch_mpscs W tx)" "length (response_items result) \<le> 16"
    and "reordered 0 (length (streaming_response_frames K sid path result)) xs"
    and "fold (\<lambda>i. client_stream_frame K sid (Inr (streaming_response_frames K sid path result ! i))) xs (pending, W) =
      (pending', W')"
  shows "pending' = pending(sid := None) \<and> ended_channel (response_items result) (ch_mpscs W' tx)"
proof -
  note ends = streaming_response_frames_ends [of K sid path result]
  have "length (streaming_response_frames K sid path result) < 2 ^ 64" using ends(4) assms(4) by simp
  from response_any_order [where pending = pending and sid = sid and K = K and W = W, OF assms(2,5) streaming_response_numbered ends(3) this ends(1,2)]
  show ?thesis using assms(6) streaming_response_handled [OF assms(1,3,4), of K sid path] by simp
qed

text \<open>The response of a client-streaming call: one payload or a status, for the caller that waits.\<close>

lemma single_response_numbered: "response_numbered sid (single_response_frames K sid path result)"
  by (auto simp: response_numbered_def single_response_frames_def open_rpc_frame_def data_rpc_frame_def close_rpc_frame_def
      error_rpc_frame_def rpc_frame_def less_Suc_eq nth_Cons split: sum.splits nat.splits)

lemma single_response_handled:
  "drop_client_stream (fst (handle_frames (client_frame K) (single_response_frames K sid path result)
    (client_stream_new ClientMode (Some tx) None, W))) = respond tx result W"
  by (cases result)
    (simp_all add: single_response_frames_def open_rpc_frame_def data_rpc_frame_def close_rpc_frame_def error_rpc_frame_def
      rpc_frame_def client_frame_def client_stream_new_def drop_client_stream_def)

text \<open>
  The caller of a client-streaming call gets the handler's result, payload or status, in
  whichever order the frames of the response arrive, and the client forgets the stream.
\<close>

theorem single_response_delivered:
  assumes "pending sid = Some (client_stream_new ClientMode (Some tx) None)"
    and "reordered 0 (length (single_response_frames K sid path result)) xs"
  shows "fold (\<lambda>i. client_stream_frame K sid (Inr (single_response_frames K sid path result ! i))) xs (pending, W) =
    (pending(sid := None), respond tx result W)"
proof -
  let ?fs = "single_response_frames K sid path result"
  have "2 \<le> length ?fs \<and> length ?fs \<le> 3 \<and> kind (?fs ! 0) = Open \<and> kind (last ?fs) = Close"
    by (auto simp: single_response_frames_def open_rpc_frame_def close_rpc_frame_def error_rpc_frame_def rpc_frame_def
        split: sum.split)
  then show ?thesis
    using response_any_order [where pending = pending and sid = sid and K = K and W = W, OF assms single_response_numbered] by (simp add: single_response_handled)
qed

section \<open>Requests at the server\<close>

lemma inbound_frame_none: "inbound_frame f (None, W) = ((None, W), kind f \<noteq> Cancel)"
  by (simp add: inbound_frame_def take_tx_def split: stream_frame_kind.split)

lemma handle_frames_none: "fst (handle_frames inbound_frame fs (None, W)) = (None, W)"
  by (induction fs) (auto simp: inbound_frame_none)

lemma inbound_frame_stops: "inbound_frame f s = ((tx, W), False) \<Longrightarrow> tx = None"
  by (cases s)
    (auto simp: inbound_frame_def take_tx_def split: stream_frame_kind.splits option.splits prod.splits if_splits)

lemma handle_frames_stops: "handle_frames inbound_frame fs s = ((tx, W), False) \<Longrightarrow> tx = None"
  by (induction fs arbitrary: s) (auto split: prod.splits if_splits dest: inbound_frame_stops)

definition inbound_step ::
  "'c stream_frame_wire \<Rightarrow> 'c inbound_stream option \<times> ('c, 'w) rpc_channels \<Rightarrow> 'c inbound_stream option \<times> ('c, 'w) rpc_channels"
where
  "inbound_step f = (\<lambda>(st, W). case st of Some st \<Rightarrow> inbound_arrival f (st, W) | None \<Rightarrow> (None, W))"

text \<open>
  The states of a stream while the frames with numbers in \<open>A\<close> have arrived: it handles frames in order, or
  it was removed, with its sender dropped, after some of them.
\<close>

definition inbound_progress ::
  "(nat \<Rightarrow> 'c stream_frame_wire) \<Rightarrow> nat option \<times> ('c, 'w) rpc_channels \<Rightarrow> nat set
    \<Rightarrow> 'c inbound_stream option \<times> ('c, 'w) rpc_channels \<Rightarrow> bool"
where
  "inbound_progress g s0 A r \<longleftrightarrow>
     (\<exists>n buf tx W. r = (Some \<lparr>ib_next_expected = n, ib_reorder = buf, ib_tx = tx\<rparr>, W) \<and>
        in_order inbound_frame g 1 s0 A n buf (tx, W) \<and> (tx = None \<longrightarrow> buf \<noteq> [])) \<or>
     (\<exists>m W. r = (None, W) \<and> {1..<m} \<subseteq> A \<and> fst (handle_frames inbound_frame (map g [1..<m]) s0) = (None, W))"

lemma inbound_step_progress:
  assumes "inbound_progress g s0 A r" "finite A" "insert i A \<subseteq> {1..<b}" "b < 2 ^ 64" "i \<notin> A"
    and "sf_seq (g i) = word_of_nat i" "card (waiting_frames 1 A) < 63"
  shows "inbound_progress g s0 (insert i A) (inbound_step (g i) r)"
proof -
  from assms(1) consider n buf tx W where "r = (Some \<lparr>ib_next_expected = n, ib_reorder = buf, ib_tx = tx\<rparr>, W)"
      "in_order inbound_frame g 1 s0 A n buf (tx, W)"
    | m W where "r = (None, W)" "{1..<m} \<subseteq> A" "fst (handle_frames inbound_frame (map g [1..<m]) s0) = (None, W)"
    unfolding inbound_progress_def by blast
  then show ?thesis
  proof cases
    case 1
    obtain n' buf' tx' W' go
      where d: "drain inbound_frame n (AList.update (word_of_nat i) (g i) buf) (tx, W) = (n', buf', (tx', W'), go)"
      by (metis prod.exhaust)
    have "length buf < 64" using in_order_length [OF 1(2) assms(2)] assms(7) by simp
    with 1(1) d assms(6) have r: "inbound_step (g i) r =
      (if \<not> go \<or> tx' = None \<and> buf' = [] then (None, W') else (Some \<lparr>ib_next_expected = n', ib_reorder = buf', ib_tx = tx'\<rparr>, W'))"
      by (simp add: inbound_step_def inbound_arrival_def MAX_REORDER_FRAMES_def)
    have "insert i A \<subseteq> {..<b}" "1 \<le> b" "1 \<le> i \<or> i = 0" using assms(3) by auto
    then have after: "if go then in_order inbound_frame g 1 s0 (insert i A) n' buf' (tx', W')
      else \<exists>m. {1..<m} \<subseteq> insert i A \<and> handle_frames inbound_frame (map g [1..<m]) s0 = ((tx', W'), False)"
      using in_order_step [OF 1(2) assms(2) _ assms(4) _ assms(5) _ d] by simp
    consider "go" "tx' = None \<longrightarrow> buf' \<noteq> []" | "go" "tx' = None" "buf' = []" | "\<not> go" by blast
    then show ?thesis
    proof cases
      assume "go" "tx' = None \<longrightarrow> buf' \<noteq> []"
      with r after show ?thesis unfolding inbound_progress_def by auto
    next
      assume *: "go" "tx' = None" "buf' = []"
      then have "handle_frames inbound_frame (map g [1..<next_missing (insert i A) 1]) s0 = ((None, W'), True)"
        using after by (simp add: in_order_def)
      moreover have "{1..<next_missing (insert i A) 1} \<subseteq> insert i A"
        using next_missing_props(3) [of "insert i A" 1] assms(2) by (intro subsetI) (metis atLeastLessThan_iff finite_insert)
      ultimately show ?thesis using r * unfolding inbound_progress_def by (metis fst_conv)
    next
      assume "\<not> go"
      then obtain m where "{1..<m} \<subseteq> insert i A" "handle_frames inbound_frame (map g [1..<m]) s0 = ((tx', W'), False)"
        using after by auto
      with handle_frames_stops r \<open>\<not> go\<close> show ?thesis unfolding inbound_progress_def by (metis fst_conv)
    qed
  next
    case 2
    then have "{1..<m} \<subseteq> insert i A" by auto
    with 2 show ?thesis unfolding inbound_progress_def inbound_step_def by auto
  qed
qed

lemma inbound_steps_progress:
  assumes "inbound_progress g s0 A r" "finite A" "A \<union> set xs \<subseteq> {1..<b}" "b < 2 ^ 64" "distinct xs" "A \<inter> set xs = {}"
    and "\<And>i. 1 \<le> i \<Longrightarrow> i < b \<Longrightarrow> sf_seq (g i) = word_of_nat i"
    and "\<And>us vs. xs = us @ vs \<Longrightarrow> card (waiting_frames 1 (A \<union> set us)) < 63"
  shows "inbound_progress g s0 (A \<union> set xs) (fold (\<lambda>i. inbound_step (g i)) xs r)"
  using assms(1-6,8)
proof (induction xs arbitrary: A r)
  case (Cons i xs)
  have "inbound_progress g s0 (insert i A) (inbound_step (g i) r)"
  proof (rule inbound_step_progress)
    show "card (waiting_frames 1 A) < 63" using Cons.prems(7) [of "[]" "i # xs"] by simp
    show "sf_seq (g i) = word_of_nat i" using Cons.prems(3) assms(7) by auto
  qed (use Cons.prems in auto)
  then have "inbound_progress g s0 (insert i A \<union> set xs) (fold (\<lambda>i. inbound_step (g i)) xs (inbound_step (g i) r))"
  proof (rule Cons.IH)
    fix us vs
    assume "xs = us @ vs"
    then show "card (waiting_frames 1 (insert i A \<union> set us)) < 63" using Cons.prems(7) [of "i # us" vs] by simp
  qed (use Cons.prems in auto)
  then show ?case by simp
qed simp

lemma inbound_progress_start:
  "inbound_progress g (Some ch, W) {} (Some \<lparr>ib_next_expected = 1, ib_reorder = [], ib_tx = Some ch\<rparr>, W)"
  using in_order_start [of inbound_frame g 1 "(Some ch, W)"] unfolding inbound_progress_def by auto

text \<open>When all frames have arrived, the stream is removed if its sender is gone, and otherwise waits for more.\<close>

lemma inbound_progress_all:
  assumes "inbound_progress g s0 {1..<b} r" "1 \<le> b" "fst (handle_frames inbound_frame (map g [1..<b]) s0) = (None, W)"
  shows "r = (None, W)"
proof -
  have sub: "{1..<b} \<subseteq> {..<b}" by auto
  from assms(1) consider n buf tx W' where "r = (Some \<lparr>ib_next_expected = n, ib_reorder = buf, ib_tx = tx\<rparr>, W')"
      "in_order inbound_frame g 1 s0 {1..<b} n buf (tx, W')" "tx = None \<longrightarrow> buf \<noteq> []"
    | m W' where "r = (None, W')" "{1..<m} \<subseteq> {1..<b}" "fst (handle_frames inbound_frame (map g [1..<m]) s0) = (None, W')"
    unfolding inbound_progress_def by blast
  then show ?thesis
  proof cases
    case 1
    have "buf = []" by (rule in_order_emptied [OF 1(2) order_refl sub assms(2)]) simp
    with 1(3) in_order_all [OF 1(2) order_refl sub assms(2)] assms(3) show ?thesis by simp
  next
    case 2
    then obtain go where "handle_frames inbound_frame (map g [1..<m]) s0 = ((None, W'), go)" by (metis prod.collapse)
    from handle_frames_prefix [OF subset_trans [OF 2(2) sub] assms(2) this] assms(3)
    have "W' = W" using handle_frames_none [of "map g [max 1 m..<b]" W'] by (cases go) simp_all
    with 2(1) show ?thesis by simp
  qed
qed

text \<open>Frames of one stream at the server, one after the other, and all it does.\<close>

fun server_stream_frames ::
  "'c grpc_codes \<Rightarrow> 'h grpc_router \<Rightarrow> str \<Rightarrow> 'c stream_frame_wire list
    \<Rightarrow> (str \<rightharpoonup> ('c, 'h) server_stream) \<times> ('c, 'w) rpc_channels
    \<Rightarrow> (str \<rightharpoonup> ('c, 'h) server_stream) \<times> ('c, 'w) rpc_channels \<times> ('c, 'h) server_action list"
where
  "server_stream_frames K R sid [] (streams, W) = (streams, W, [])"
| "server_stream_frames K R sid (f # fs) (streams, W) =
     (let (streams, W, acts) = server_stream_frame K R sid (Inr f :: unit + _) (streams, W);
          (streams, W, acts') = server_stream_frames K R sid fs (streams, W)
      in (streams, W, acts @ acts'))"

text \<open>Frames of a call whose requests are a stream.\<close>

definition streaming_request_frames :: "'c grpc_codes \<Rightarrow> str \<Rightarrow> str \<Rightarrow> byte list list \<Rightarrow> 'c stream_frame_wire list" where
  "streaming_request_frames K sid path payloads = open_rpc_frame K sid ClientToServer path # request_frames K sid 1 payloads"

lemma server_inbound_frames:
  assumes "mk = ServerClient \<or> mk = ServerBidi" "streams sid = map_option mk st"
    and "\<forall>i\<in>set xs. direction (g i) = ClientToServer \<and> stream_id (g i) = sid \<and> kind (g i) \<noteq> Open"
  shows "server_stream_frames K R sid (map g xs) (streams, W) =
    (let (st, W) = fold (\<lambda>i. inbound_step (g i)) xs (st, W) in (streams(sid := map_option mk st), W, []))"
  using assms(2,3)
proof (induction xs arbitrary: streams st W)
  case Nil
  then show ?case by auto
next
  case (Cons i xs)
  obtain st' W' where st': "inbound_step (g i) (st, W) = (st', W')" by fastforce
  have "server_stream_frame K R sid (Inr (g i) :: unit + _) (streams, W) = (streams(sid := map_option mk st'), W', [])"
    using assms(1) Cons.prems st'
    by (cases st) (auto simp: server_stream_frame_def inbound_step_def Let_def fun_upd_idem)
  moreover obtain st2 W2 where "fold (\<lambda>i. inbound_step (g i)) xs (st', W') = (st2, W2)" by fastforce
  moreover have "server_stream_frames K R sid (map g xs) (streams(sid := map_option mk st'), W') =
    (let (st, W) = fold (\<lambda>i. inbound_step (g i)) xs (st', W') in ((streams(sid := map_option mk st'))(sid := map_option mk st), W, []))"
    by (rule Cons.IH) (use Cons.prems(2) in auto)
  ultimately show ?case using st' by (simp add: fun_eq_iff)
qed

lemma request_frames_length: "length (request_frames K sid n payloads) = length payloads + 1"
  by (induction K sid n payloads rule: request_frames.induct) simp_all

lemma request_frames_nth:
  "i < length (request_frames K sid n payloads) \<Longrightarrow>
    sf_seq (request_frames K sid n payloads ! i) = n + word_of_nat i \<and>
    direction (request_frames K sid n payloads ! i) = ClientToServer \<and>
    stream_id (request_frames K sid n payloads ! i) = sid \<and> kind (request_frames K sid n payloads ! i) \<noteq> Open"
  by (induction K sid n payloads arbitrary: i rule: request_frames.induct)
    (auto simp: nth_Cons close_rpc_frame_def data_rpc_frame_def rpc_frame_def split: nat.split)

lemma streaming_request_frames_nth:
  "1 \<le> i \<Longrightarrow> i < length (streaming_request_frames K sid path payloads) \<Longrightarrow>
    sf_seq (streaming_request_frames K sid path payloads ! i) = word_of_nat i \<and>
    direction (streaming_request_frames K sid path payloads ! i) = ClientToServer \<and>
    stream_id (streaming_request_frames K sid path payloads ! i) = sid \<and>
    kind (streaming_request_frames K sid path payloads ! i) \<noteq> Open"
  using request_frames_nth [of "i - 1" K sid 1 payloads] by (cases i) (simp_all add: streaming_request_frames_def)

lemma streaming_request_frames_length: "length (streaming_request_frames K sid path payloads) = length payloads + 2"
  by (simp add: streaming_request_frames_def request_frames_length)

lemma streaming_request_frames_prefix:
  assumes "m \<le> length (streaming_request_frames K sid path payloads)"
  shows "map ((!) (streaming_request_frames K sid path payloads)) [1..<m] = take (m - 1) (request_frames K sid 1 payloads)"
proof (rule nth_equalityI)
  show "length (map ((!) (streaming_request_frames K sid path payloads)) [1..<m]) = length (take (m - 1) (request_frames K sid 1 payloads))"
    using assms by (simp add: streaming_request_frames_def)
qed (simp add: streaming_request_frames_def)

lemma data_frame_handled:
  assumes "open_channel q (ch_mpscs W ch)" "length q < 16"
  shows "\<exists>W'. inbound_frame (data_rpc_frame K sid ClientToServer n payload) (Some ch, W) = ((Some ch, W'), True) \<and>
    open_channel (q @ [Inr payload]) (ch_mpscs W' ch)"
  using try_item_open [OF assms, of "Inr payload"]
  by (auto simp: inbound_frame_def data_rpc_frame_def rpc_frame_def)

lemma request_prefix_handled:
  assumes "open_channel q (ch_mpscs W ch)" "length q + length payloads \<le> 16" "k \<le> length payloads"
  shows "\<exists>W'. handle_frames inbound_frame (take k (request_frames K sid n payloads)) (Some ch, W) = ((Some ch, W'), True) \<and>
    open_channel (q @ map Inr (take k payloads)) (ch_mpscs W' ch)"
  using assms
proof (induction K sid n payloads arbitrary: q W k rule: request_frames.induct)
  case (2 K sid n payload rest)
  show ?case
  proof (cases k)
    case (Suc k')
    obtain W' where "inbound_frame (data_rpc_frame K sid ClientToServer n payload) (Some ch, W) = ((Some ch, W'), True)"
      "open_channel (q @ [Inr payload]) (ch_mpscs W' ch)"
      using data_frame_handled [OF 2(2), of K sid n payload] 2(3) by auto
    with 2(1) [of "q @ [Inr payload]" W' k'] 2(3,4) Suc show ?thesis by auto
  qed (use 2 in simp)
qed simp

lemma request_frames_handled:
  assumes "open_channel q (ch_mpscs W ch)" "length q + length payloads \<le> 16"
  shows "\<exists>W'. handle_frames inbound_frame (request_frames K sid n payloads) (Some ch, W) = ((None, W'), True) \<and>
    ended_channel (q @ map Inr payloads) (ch_mpscs W' ch)"
  using assms
proof (induction K sid n payloads arbitrary: q W rule: request_frames.induct)
  case (1 K sid n)
  with drop_item_open [of q W ch] show ?case by (simp add: inbound_frame_def close_rpc_frame_def rpc_frame_def take_tx_def)
next
  case (2 K sid n payload rest)
  obtain W' where "inbound_frame (data_rpc_frame K sid ClientToServer n payload) (Some ch, W) = ((Some ch, W'), True)"
    "open_channel (q @ [Inr payload]) (ch_mpscs W' ch)"
    using data_frame_handled [OF 2(2), of K sid n payload] 2(3) by auto
  with 2(1) [of "q @ [Inr payload]" W'] 2(3) show ?case by auto
qed

text \<open>The opening of a stream of requests, for a bidirectional or a client-streaming method.\<close>

definition inbound_kind :: "bool \<Rightarrow> 'c inbound_stream \<Rightarrow> ('c, 'h) server_stream" where
  "inbound_kind bidi = (if bidi then ServerBidi else ServerClient)"

definition inbound_handler :: "'h grpc_router \<Rightarrow> bool \<Rightarrow> str \<Rightarrow> 'h \<Rightarrow> bool" where
  "inbound_handler R bidi path h \<longleftrightarrow>
     (if bidi then gr_bidi_streaming R path = Some h
      else gr_bidi_streaming R path = None \<and> gr_server_streaming R path = None \<and> gr_client_streaming R path = Some h)"

definition spawn_inbound :: "bool \<Rightarrow> 'h \<Rightarrow> nat \<Rightarrow> str \<Rightarrow> ('c, 'h) server_action" where
  "spawn_inbound bidi h ch path = (if bidi then SpawnBidi h ch [] path else SpawnClient h ch [] path)"

lemma server_opens_inbound:
  assumes "streams sid = None" "inbound_handler R bidi path h"
  shows "server_stream_frame K R sid (Inr (open_rpc_frame K sid ClientToServer path) :: unit + _) (streams, W) =
    (streams(sid \<mapsto> inbound_kind bidi \<lparr>ib_next_expected = 1, ib_reorder = [], ib_tx = Some (ch_next W)\<rparr>), snd (new_mpsc W),
     [spawn_inbound bidi h (ch_next W) path])"
  using assms
  by (auto simp: server_stream_frame_def server_open_def open_rpc_frame_def rpc_frame_def inbound_handler_def inbound_kind_def
      spawn_inbound_def new_mpsc_def split: if_splits)

lemma new_mpsc_open: "open_channel [] (ch_mpscs (snd (new_mpsc W)) (ch_next W))"
  by (simp add: new_mpsc_def open_channel_def mpsc_new_def)

text \<open>An opened stream whose frames with numbers in \<open>set xs\<close> arrive.\<close>

lemma opened_inbound:
  fixes W :: "('c, 'w) rpc_channels"
  assumes "streams sid = None" "inbound_handler R bidi path h"
    and "distinct xs" "set xs \<subseteq> {1..<length (streaming_request_frames K sid path payloads)}" "length payloads \<le> 16"
    and "\<forall>us vs. xs = us @ vs \<longrightarrow> card (waiting_frames 1 (set us)) < 63"
  shows "\<exists>st W'. server_stream_frames K R sid (map ((!) (streaming_request_frames K sid path payloads)) (0 # xs)) (streams, W) =
      (streams(sid := map_option (inbound_kind bidi) st), W', [spawn_inbound bidi h (ch_next W) path]) \<and>
    inbound_progress ((!) (streaming_request_frames K sid path payloads)) (Some (ch_next W), snd (new_mpsc W)) (set xs) (st, W')"
proof -
  let ?fs = "streaming_request_frames K sid path payloads"
  let ?st = "\<lparr>ib_next_expected = 1, ib_reorder = [], ib_tx = Some (ch_next W)\<rparr> :: 'c inbound_stream"
  obtain st W' where st: "fold (\<lambda>i. inbound_step (?fs ! i)) xs (Some ?st, snd (new_mpsc W)) = (st, W')" by fastforce
  have "length ?fs < 2 ^ 64" using assms(5) by (simp add: streaming_request_frames_def request_frames_length)
  from inbound_steps_progress [OF inbound_progress_start _ _ this assms(3), of "(!) ?fs" "ch_next W" "snd (new_mpsc W)"]
  have "inbound_progress ((!) ?fs) (Some (ch_next W), snd (new_mpsc W)) (set xs) (st, W')"
    using assms(4,6) streaming_request_frames_nth [of _ K sid path payloads] st by simp
  moreover have "server_stream_frames K R sid (map ((!) ?fs) xs) (streams(sid \<mapsto> inbound_kind bidi ?st), snd (new_mpsc W)) =
    (let (st, W) = fold (\<lambda>i. inbound_step (?fs ! i)) xs (Some ?st, snd (new_mpsc W))
     in ((streams(sid \<mapsto> inbound_kind bidi ?st))(sid := map_option (inbound_kind bidi) st), W, []))"
    by (rule server_inbound_frames)
      (use assms(4) streaming_request_frames_nth [of _ K sid path payloads] in \<open>auto simp: inbound_kind_def\<close>)
  then have "server_stream_frames K R sid (map ((!) ?fs) (0 # xs)) (streams, W) =
      (streams(sid := map_option (inbound_kind bidi) st), W', [spawn_inbound bidi h (ch_next W) path])"
    using server_opens_inbound [of streams sid R bidi path h K W, OF assms(1,2)] st
    by (simp add: streaming_request_frames_def)
  ultimately show ?thesis by blast
qed

text \<open>
  The requests of a client-streaming or bidirectional call reach the handler: once the
  opening frame has arrived, and however the others are reordered, the handler's task is started once
  with the channel of the stream, the channel holds the payloads in the order in which they were sent,
  its sender is gone, and the server forgets the stream.
\<close>

lemma request_stream_delivered:
  assumes "streams sid = None" "inbound_handler R bidi path h" "length payloads \<le> 16"
    and "reordered 1 (length (streaming_request_frames K sid path payloads)) xs"
    and "server_stream_frames K R sid (map ((!) (streaming_request_frames K sid path payloads)) (0 # xs)) (streams, W) =
      (streams', W', acts)"
  shows "streams' = streams(sid := None) \<and> acts = [spawn_inbound bidi h (ch_next W) path] \<and>
    ended_channel (map Inr payloads) (ch_mpscs W' (ch_next W))"
proof -
  let ?fs = "streaming_request_frames K sid path payloads"
  have xs: "distinct xs" "set xs = {1..<length ?fs}"
    "\<forall>us vs. xs = us @ vs \<longrightarrow> card (waiting_frames 1 (set us)) < 63"
    using assms(4) by (auto simp: reordered_def)
  have b: "1 \<le> length ?fs" by (simp add: streaming_request_frames_def)
  obtain st W1 where st: "server_stream_frames K R sid (map ((!) ?fs) (0 # xs)) (streams, W) =
      (streams(sid := map_option (inbound_kind bidi) st), W1, [spawn_inbound bidi h (ch_next W) path])"
    "inbound_progress ((!) ?fs) (Some (ch_next W), snd (new_mpsc W)) (set xs) (st, W1)"
    using opened_inbound [where streams = streams and sid = sid and W = W, OF assms(1,2) xs(1) eq_refl [OF xs(2)] assms(3) xs(3)]
    by blast
  obtain W2 where W2: "handle_frames inbound_frame (request_frames K sid 1 payloads) (Some (ch_next W), snd (new_mpsc W)) = ((None, W2), True)"
    "ended_channel (map Inr payloads) (ch_mpscs W2 (ch_next W))"
    using request_frames_handled [of "[]" "snd (new_mpsc W)" "ch_next W" payloads K sid 1, OF new_mpsc_open] assms(3) by auto
  have "map ((!) ?fs) [1..<length ?fs] = request_frames K sid 1 payloads"
    using streaming_request_frames_prefix [OF order_refl, of K sid path payloads]
    by (simp add: streaming_request_frames_length request_frames_length)
  with inbound_progress_all [OF st(2) [unfolded xs(2)] b] W2 have "(st, W1) = (None, W2)" by simp
  with st(1) assms(5) W2(2) show ?thesis by simp
qed

text \<open>
  C35. A frame that overtakes the opening frame of its stream is lost, for the server drops
  frames of streams it does not know. When all other frames have arrived, in any order, the handler
  has the payloads before the lost one and keeps waiting: the sender of its channel is never dropped.
\<close>

theorem frame_before_open_lost:
  assumes "streams sid = None" "inbound_handler R bidi path h" "length payloads \<le> 16"
    and "1 \<le> j" "j < length (streaming_request_frames K sid path payloads)"
    and "distinct xs" "set xs = {1..<length (streaming_request_frames K sid path payloads)} - {j}"
    and "server_stream_frames K R sid (map ((!) (streaming_request_frames K sid path payloads)) (j # 0 # xs)) (streams, W) =
      (streams', W', acts)"
  shows "streams' sid \<noteq> None \<and> open_channel (map Inr (take (j - 1) payloads)) (ch_mpscs W' (ch_next W))"
proof -
  let ?fs = "streaming_request_frames K sid path payloads"
  let ?s0 = "(Some (ch_next W), snd (new_mpsc W))"
  have b: "length ?fs \<le> 18" using assms(3) by (simp add: streaming_request_frames_def request_frames_length)
  have lost: "server_stream_frame K R sid (Inr (?fs ! j) :: unit + _) (streams, W) = (streams, W, [])"
    using streaming_request_frames_nth [OF assms(4,5)] assms(1) by (simp add: server_stream_frame_def)
  have below: "{1..<n} - {j} \<subseteq> {..<n}" for n :: nat by auto
  have few: "\<forall>us vs. xs = us @ vs \<longrightarrow> card (waiting_frames 1 (set us)) < 63"
  proof (intro allI impI)
    fix us vs
    assume "xs = us @ vs"
    then have "set us \<subseteq> set xs" by simp
    also have "\<dots> \<subseteq> {..<length ?fs}" unfolding assms(7) by (rule below)
    also have "\<dots> \<subseteq> {..<18}" using b by (rule lessThan_subset_iff [THEN iffD2])
    finally have "waiting_frames 1 (set us) \<subseteq> {..<18}" unfolding waiting_frames_def by blast
    from card_mono [OF finite_lessThan this] show "card (waiting_frames 1 (set us)) < 63" by simp
  qed
  have sub: "set xs \<subseteq> {1..<length ?fs}" unfolding assms(7) by (rule Diff_subset)
  obtain st W1 where st: "server_stream_frames K R sid (map ((!) ?fs) (0 # xs)) (streams, W) =
      (streams(sid := map_option (inbound_kind bidi) st), W1, [spawn_inbound bidi h (ch_next W) path])"
    "inbound_progress ((!) ?fs) ?s0 (set xs) (st, W1)"
    using opened_inbound [where streams = streams and sid = sid and W = W, OF assms(1,2,6) sub assms(3) few] by blast
  have handled: "\<exists>W2. handle_frames inbound_frame (map ((!) ?fs) [1..<m]) ?s0 = ((Some (ch_next W), W2), True) \<and>
    open_channel (map Inr (take (m - 1) payloads)) (ch_mpscs W2 (ch_next W))" if "m \<le> j" for m
  proof -
    have "m \<le> length ?fs" "m - 1 \<le> length payloads"
      using that assms(5) by (simp_all add: streaming_request_frames_def request_frames_length)
    with request_prefix_handled [of "[]" "snd (new_mpsc W)" "ch_next W" payloads "m - 1" K sid 1, OF new_mpsc_open] assms(3) show ?thesis
      using streaming_request_frames_prefix [of m K sid path payloads] by simp
  qed
  have "next_missing (set xs) 1 = j" unfolding assms(7) by (rule next_missing_gap [OF assms(4,5)])
  moreover have "m \<le> j" if "{1..<m} \<subseteq> set xs" for m
    using that assms(4,7) by (metis DiffD2 atLeastLessThan_iff insertI1 linorder_not_less subsetD)
  ultimately obtain s where "st = Some s" "open_channel (map Inr (take (j - 1) payloads)) (ch_mpscs W1 (ch_next W))"
    using st(2) handled unfolding inbound_progress_def in_order_def by fastforce
  with st(1) lost assms(8) show ?thesis by auto
qed

text \<open>
  A server-streaming call: in whichever order the request and the end of the requests
  arrive after the opening frame, the handler's task is started exactly once, with the request.
\<close>

theorem server_streaming_request:
  assumes "streams sid = None" "gr_bidi_streaming R path = None" "gr_server_streaming R path = Some h"
    and "xs = [1, 2] \<or> xs = [2, 1]"
  shows "server_stream_frames K R sid (map ((!) (server_streaming_request_frames K sid path payload)) (0 # xs)) (streams, W) =
    (streams(sid := None), W, [SpawnServer h payload [] path])"
  using assms
  by (auto simp: server_streaming_request_frames_def server_stream_frame_def server_open_def open_rpc_frame_def
      data_rpc_frame_def close_rpc_frame_def rpc_frame_def single_arrival_def single_frame_def MAX_REORDER_FRAMES_def
      drain.simps fun_eq_iff)

text \<open>
  The frame that a client sends to cancel a call has number zero, as the opening frame, and
  no stream at the server waits for number zero: the frame changes nothing but the buffer of the stream,
  in which it stays. The handler is not told.
\<close>

theorem cancel_ignored:
  assumes "streams sid = Some (inbound_kind bidi st)" "ib_next_expected st \<noteq> 0" "length (ib_reorder st) < 64"
    and "map_of (ib_reorder st) (ib_next_expected st) = None" "ib_tx st = Some ch"
  shows "server_stream_frames K R sid [cancel_rpc_frame K sid] (streams, W) =
    (streams(sid \<mapsto> inbound_kind bidi (st\<lparr>ib_reorder := AList.update 0 (cancel_rpc_frame K sid) (ib_reorder st)\<rparr>)), W, [])"
  using assms
  by (cases bidi) (auto simp: server_stream_frame_def inbound_kind_def inbound_arrival_def MAX_REORDER_FRAMES_def
      cancel_rpc_frame_def rpc_frame_def drain.simps AList.update_conv')

text \<open>
  A reader that is sixteen items behind loses its stream without being told: the next item
  that arrives in sequence is not delivered, the stream is forgotten, and what the reader sees is the
  sixteen items and the end of the stream, as if the server had closed it.
\<close>

theorem slow_reader_truncated:
  assumes "pending sid = Some st" "cs_mode st \<noteq> ClientMode" "cs_saw_open st" "cs_stream_tx st = Some tx" "cs_response_tx st = None"
    and "open_channel q (ch_mpscs W tx)" "length q = 16" "length (cs_reorder st) < 64"
    and "client_stream_frame K sid (Inr (data_rpc_frame K sid ServerToClient (cs_next_expected st) payload)) (pending, W) =
      (pending', W')"
  shows "pending' = pending(sid := None) \<and> ended_channel q (ch_mpscs W' tx)"
proof -
  let ?f = "data_rpc_frame K sid ServerToClient (cs_next_expected st) payload"
  let ?st = "st\<lparr>cs_reorder := AList.update (cs_next_expected st) ?f (cs_reorder st)\<rparr>"
  have f: "direction ?f = ServerToClient" "stream_id ?f = sid" "sf_seq ?f = cs_next_expected st" "kind ?f = Data"
    by (simp_all add: data_rpc_frame_def rpc_frame_def)
  have "client_frame K ?f (?st, W) = ((?st, W), False)"
    using assms(2-4) try_item_full [OF assms(6)] assms(7) f(4) by (cases "cs_mode st") (simp_all add: client_frame_def)
  then have "client_arrival K ?f (pending sid, W) = (None, drop_item_tx tx W)"
    using assms(1,3,4,5,8) f(3)
    by (simp add: client_arrival_def client_stream_arrival_def implicit_open_def MAX_REORDER_FRAMES_def
        drain.simps [of _ "cs_next_expected st"] AList.update_conv' drop_client_stream_def)
  with client_stream_frame_arrival [OF f(1,2), of K pending W] assms(9) drop_item_open [OF assms(6)]
  show ?thesis by (auto simp: fun_eq_iff)
qed

section \<open>Examples\<close>

definition example_codes :: "nat grpc_codes" where
  "example_codes = \<lparr>gc_ok = 0, gc_internal = 13, gc_resource_exhausted = 8, gc_cancelled = 1, gc_deadline_exceeded = 4,
     gc_unavailable = 14, gc_unimplemented = 12, gc_invalid_argument = 3\<rparr>"

definition example_channels :: "(nat, nat) rpc_channels" where
  "example_channels = \<lparr>ch_oneshots = (\<lambda>_. oneshot_channel), ch_mpscs = (\<lambda>_. mpsc_new 16), ch_woken = [], ch_next = 0\<rparr>"

definition example_router :: "nat grpc_router" where
  "example_router = \<lparr>gr_unary = Map.empty, gr_server_streaming = [lit ''/list'' \<mapsto> 1], gr_client_streaming = [lit ''/sum'' \<mapsto> 2],
     gr_bidi_streaming = [lit ''/echo'' \<mapsto> 3]\<rparr>"

lemma example_channel_open: "open_channel [] (ch_mpscs example_channels tx)"
  by (simp add: example_channels_def open_channel_def mpsc_new_def)

theorem single_response_delivered_witness:
  "fold (\<lambda>i. client_stream_frame example_codes (lit ''s'') (Inr (single_response_frames example_codes (lit ''s'')
      (lit ''/sum'') (Inr [7]) ! i))) [2, 1, 0]
      ([lit ''s'' \<mapsto> client_stream_new ClientMode (Some 5) None], example_channels) = (Map.empty, respond 5 (Inr [7]) example_channels)"
proof -
  have "length (single_response_frames example_codes (lit ''s'') (lit ''/sum'') (Inr [7])) = 3"
    by (simp add: single_response_frames_def)
  then have "reordered 0 (length (single_response_frames example_codes (lit ''s'') (lit ''/sum'') (Inr [7]))) [2, 1, 0]"
    by (intro reordered_small) auto
  from single_response_delivered [OF _ this, of "[lit ''s'' \<mapsto> client_stream_new ClientMode (Some 5) None]" 5 example_channels]
  show ?thesis by simp
qed

theorem frame_before_open_lost_witness:
  "\<exists>streams' W' acts. server_stream_frames example_codes example_router (lit ''s'')
      (map ((!) (streaming_request_frames example_codes (lit ''s'') (lit ''/sum'') [[1], [2]])) [2, 0, 1, 3])
      (Map.empty, example_channels) = (streams', W', acts) \<and>
    streams' (lit ''s'') \<noteq> None \<and> open_channel [Inr [1]] (ch_mpscs W' 0)"
proof -
  have h: "inbound_handler example_router False (lit ''/sum'') 2" by (simp add: inbound_handler_def example_router_def lit_def)
  have set: "set [1, 3] = {1..<length (streaming_request_frames example_codes (lit ''s'') (lit ''/sum'') [[1], [2]])} - {2}"
    unfolding streaming_request_frames_length by auto
  obtain streams' W' acts where r: "server_stream_frames example_codes example_router (lit ''s'')
      (map ((!) (streaming_request_frames example_codes (lit ''s'') (lit ''/sum'') [[1], [2]])) [2, 0, 1, 3])
      (Map.empty, example_channels) = (streams', W', acts)" by (metis prod.exhaust)
  from frame_before_open_lost [OF _ h _ _ _ _ set r] r show ?thesis
    by (simp add: streaming_request_frames_length example_channels_def)
qed

theorem server_streaming_request_witness:
  "server_stream_frames example_codes example_router (lit ''s'')
      (map ((!) (server_streaming_request_frames example_codes (lit ''s'') (lit ''/list'') [9])) [0, 2, 1])
      (Map.empty, example_channels) = (Map.empty, example_channels, [SpawnServer 1 [9] [] (lit ''/list'')])"
  using server_streaming_request [of Map.empty "lit ''s''" example_router "lit ''/list''" 1 "[2, 1]" example_codes "[9]" example_channels]
  by (simp add: example_router_def lit_def)

theorem cancel_ignored_witness:
  "server_stream_frames example_codes example_router (lit ''s'') [cancel_rpc_frame example_codes (lit ''s'')]
      ([lit ''s'' \<mapsto> inbound_kind True \<lparr>ib_next_expected = 1, ib_reorder = [], ib_tx = Some 0\<rparr>], example_channels) =
    ([lit ''s'' \<mapsto> inbound_kind True \<lparr>ib_next_expected = 1, ib_reorder = [(0, cancel_rpc_frame example_codes (lit ''s''))],
       ib_tx = Some 0\<rparr>], example_channels, [])"
  using cancel_ignored [of "[lit ''s'' \<mapsto> inbound_kind True \<lparr>ib_next_expected = 1, ib_reorder = [], ib_tx = Some 0\<rparr>]" "lit ''s''"
      True "\<lparr>ib_next_expected = 1, ib_reorder = [], ib_tx = Some 0\<rparr>" 0 example_codes example_router example_channels]
  by simp

definition full_channels :: "(nat, nat) rpc_channels" where
  "full_channels = example_channels\<lparr>ch_mpscs := (\<lambda>_. (mpsc_new 16)\<lparr>mp_queue := replicate 16 (Inr [0])\<rparr>)\<rparr>"

theorem slow_reader_truncated_witness:
  "\<exists>pending' W'. client_stream_frame example_codes (lit ''s'') (Inr (data_rpc_frame example_codes (lit ''s'') ServerToClient 17 [1]))
      ([lit ''s'' \<mapsto> (client_stream_new ServerMode None (Some 0))\<lparr>cs_saw_open := True, cs_next_expected := 17\<rparr>], full_channels) =
      (pending', W') \<and> pending' = Map.empty \<and> ended_channel (replicate 16 (Inr [0])) (ch_mpscs W' 0)"
proof -
  let ?st = "(client_stream_new ServerMode None (Some 0) :: nat client_stream)\<lparr>cs_saw_open := True, cs_next_expected := 17\<rparr>"
  have full: "open_channel (replicate 16 (Inr [0])) (ch_mpscs full_channels 0)"
    by (simp add: full_channels_def open_channel_def mpsc_new_def)
  obtain pending' W' where r: "client_stream_frame example_codes (lit ''s'')
      (Inr (data_rpc_frame example_codes (lit ''s'') ServerToClient (cs_next_expected ?st) [1]))
      ([lit ''s'' \<mapsto> ?st], full_channels) = (pending', W')" by (metis prod.exhaust)
  from slow_reader_truncated [OF _ _ _ _ _ full _ _ r] r show ?thesis by (simp add: client_stream_new_def)
qed

end
