(* ===== verification/Endpoint_Registry.thy ===== *)
theory Endpoint_Registry
  imports Notify Utf8
begin

text \<open>
  \<open>des-components/src/transport/endpoint_registry.rs\<close>: service discovery. Endpoints are
  registered under a 64-bit hash of their names; the registry keeps the endpoints of each
  service in registration order and hands them out in turn. The trait \<open>EndpointRegistry\<close> is a
  locale over the list of registered endpoints, which the in-memory registry implements.
\<close>

section \<open>Endpoints\<close>

text \<open>\<open>EndpointId\<close> is a struct with the single field \<open>id: u64\<close>.\<close>

type_synonym endpoint_id = u64

definition djb2_hash :: "byte list \<Rightarrow> u64" where
  "djb2_hash bytes = fold (\<lambda>b hash. hash * 33 + ucast b) bytes 5381"

definition endpoint_id_new :: "str \<Rightarrow> endpoint_id" where
  "endpoint_id_new service_name = djb2_hash service_name"

record endpoint_info =
  ei_id :: endpoint_id
  ei_service_name :: str
  ei_instance_name :: str
  ei_metadata :: "str \<rightharpoonup> str"

definition endpoint_info_new :: "str \<Rightarrow> str \<Rightarrow> endpoint_info" where
  "endpoint_info_new service_name instance_name =
     \<lparr>ei_id = endpoint_id_new (service_name @ lit '':'' @ instance_name),
      ei_service_name = service_name, ei_instance_name = instance_name, ei_metadata = Map.empty\<rparr>"

definition with_metadata :: "str \<Rightarrow> str \<Rightarrow> endpoint_info \<Rightarrow> endpoint_info" where
  "with_metadata key v e = e\<lparr>ei_metadata := (ei_metadata e)(key \<mapsto> v)\<rparr>"

section \<open>The registry\<close>

text \<open>The two texts of \<open>Err\<close>.\<close>

datatype registry_error = AlreadyRegistered endpoint_id | EndpointNotFound endpoint_id

record sim_endpoint_registry =
  endpoints :: "endpoint_id \<rightharpoonup> endpoint_info"
  services :: "str \<rightharpoonup> endpoint_id list"
  round_robin_counters :: "str \<rightharpoonup> usize"

definition registry_new :: sim_endpoint_registry where
  "registry_new = \<lparr>endpoints = Map.empty, services = Map.empty, round_robin_counters = Map.empty\<rparr>"

definition register_endpoint ::
  "endpoint_info \<Rightarrow> sim_endpoint_registry \<Rightarrow> (registry_error + unit) \<times> sim_endpoint_registry"
where
  "register_endpoint e r =
     (let i = ei_id e; s = ei_service_name e
      in if endpoints r i \<noteq> None then (Inl (AlreadyRegistered i), r)
         else
           (Inr (),
            r\<lparr>endpoints := (endpoints r)(i \<mapsto> e),
              services := (services r)(s \<mapsto> (case services r s of None \<Rightarrow> [] | Some l \<Rightarrow> l) @ [i]),
              round_robin_counters :=
                (case round_robin_counters r s of
                   None \<Rightarrow> (round_robin_counters r)(s \<mapsto> 0)
                 | Some _ \<Rightarrow> round_robin_counters r)\<rparr>))"

definition unregister_endpoint ::
  "endpoint_id \<Rightarrow> sim_endpoint_registry \<Rightarrow> (registry_error + unit) \<times> sim_endpoint_registry"
where
  "unregister_endpoint i r =
     (case endpoints r i of
        None \<Rightarrow> (Inl (EndpointNotFound i), r)
      | Some e \<Rightarrow>
          (let r = r\<lparr>endpoints := (endpoints r)(i := None)\<rparr>; s = ei_service_name e
           in case services r s of
                None \<Rightarrow> (Inr (), r)
              | Some l \<Rightarrow>
                  (let l = filter (\<lambda>j. j \<noteq> i) l
                   in if l = [] then
                        (Inr (), r\<lparr>services := (services r)(s := None),
                                   round_robin_counters := (round_robin_counters r)(s := None)\<rparr>)
                      else (Inr (), r\<lparr>services := (services r)(s \<mapsto> l)\<rparr>))))"

definition find_endpoints :: "str \<Rightarrow> sim_endpoint_registry \<Rightarrow> endpoint_info list" where
  "find_endpoints s r =
     (case services r s of None \<Rightarrow> [] | Some l \<Rightarrow> List.map_filter (endpoints r) l)"

definition find_endpoint :: "endpoint_id \<Rightarrow> sim_endpoint_registry \<Rightarrow> endpoint_info option" where
  "find_endpoint i r = endpoints r i"

text \<open>The keys of a \<open>HashMap\<close>, whose order is unspecified.\<close>

definition list_services :: "sim_endpoint_registry \<Rightarrow> str set" where
  "list_services r = dom (services r)"

definition get_endpoint_for_service ::
  "str \<Rightarrow> sim_endpoint_registry \<Rightarrow> endpoint_info option \<times> sim_endpoint_registry"
where
  "get_endpoint_for_service s r =
     (case services r s of
        None \<Rightarrow> (None, r)
      | Some l \<Rightarrow>
          if l = [] then (None, r)
          else
            (case round_robin_counters r s of
               None \<Rightarrow> (None, r)
             | Some c \<Rightarrow>
                 (endpoints r (l ! (c mod length l)),
                  r\<lparr>round_robin_counters := (round_robin_counters r)(s \<mapsto> (c + 1) mod length l)\<rparr>)))"

section \<open>The shared registry\<close>

text \<open>
  \<open>SharedEndpointRegistry\<close>: every successful change calls \<open>notify_waiters\<close>; the operations
  return the wakers that are called.
\<close>

record 'w shared_registry =
  sr_inner :: sim_endpoint_registry
  sr_notify :: "'w notify_state"

definition shared_registry_new :: "'w shared_registry" where
  "shared_registry_new = \<lparr>sr_inner = registry_new, sr_notify = notify_new\<rparr>"

definition notify_if_ok ::
  "('e + unit) \<times> sim_endpoint_registry \<Rightarrow> 'w shared_registry \<Rightarrow> ('e + unit) \<times> 'w list \<times> 'w shared_registry"
where
  "notify_if_ok res sr =
     (let sr = sr\<lparr>sr_inner := snd res\<rparr>
      in case fst res of
           Inl e \<Rightarrow> (Inl e, [], sr)
         | Inr u \<Rightarrow> (let (ws, n) = notify_waiters (sr_notify sr) in (Inr u, ws, sr\<lparr>sr_notify := n\<rparr>)))"

definition shared_register_endpoint ::
  "endpoint_info \<Rightarrow> 'w shared_registry \<Rightarrow> (registry_error + unit) \<times> 'w list \<times> 'w shared_registry"
where
  "shared_register_endpoint e sr = notify_if_ok (register_endpoint e (sr_inner sr)) sr"

definition shared_unregister_endpoint ::
  "endpoint_id \<Rightarrow> 'w shared_registry \<Rightarrow> (registry_error + unit) \<times> 'w list \<times> 'w shared_registry"
where
  "shared_unregister_endpoint i sr = notify_if_ok (unregister_endpoint i (sr_inner sr)) sr"

definition shared_find_endpoints :: "str \<Rightarrow> 'w shared_registry \<Rightarrow> endpoint_info list" where
  "shared_find_endpoints s sr = find_endpoints s (sr_inner sr)"

definition shared_get_endpoint_for_service ::
  "str \<Rightarrow> 'w shared_registry \<Rightarrow> endpoint_info option \<times> 'w shared_registry"
where
  "shared_get_endpoint_for_service s sr =
     (let (e, r) = get_endpoint_for_service s (sr_inner sr) in (e, sr\<lparr>sr_inner := r\<rparr>))"

text \<open>One poll of the future of \<open>changed()\<close>.\<close>

definition registry_changed_poll :: "'w \<Rightarrow> 'w shared_registry \<Rightarrow> unit poll \<times> 'w shared_registry" where
  "registry_changed_poll w sr =
     (let (p, n) = notified_poll w (sr_notify sr) in (p, sr\<lparr>sr_notify := n\<rparr>))"

section \<open>The contract of a registry\<close>

text \<open>
  The specification is the list of the registered endpoints in registration order.
\<close>

definition spec_register ::
  "endpoint_info \<Rightarrow> endpoint_info list \<Rightarrow> (registry_error + unit) \<times> endpoint_info list"
where
  "spec_register e L =
     (if ei_id e \<in> ei_id ` set L then (Inl (AlreadyRegistered (ei_id e)), L) else (Inr (), L @ [e]))"

definition spec_unregister ::
  "endpoint_id \<Rightarrow> endpoint_info list \<Rightarrow> (registry_error + unit) \<times> endpoint_info list"
where
  "spec_unregister i L =
     (if i \<in> ei_id ` set L then (Inr (), filter (\<lambda>e. ei_id e \<noteq> i) L) else (Inl (EndpointNotFound i), L))"

definition of_service :: "str \<Rightarrow> endpoint_info list \<Rightarrow> endpoint_info list" where
  "of_service s L = filter (\<lambda>e. ei_service_name e = s) L"

text \<open>The endpoint with a given identifier.\<close>

definition by_id :: "endpoint_info list \<Rightarrow> endpoint_id \<rightharpoonup> endpoint_info" where
  "by_id L = map_of (map (\<lambda>e. (ei_id e, e)) L)"

lemma by_id_None [simp]: "by_id L i = None \<longleftrightarrow> i \<notin> ei_id ` set L"
  by (force simp: by_id_def map_of_eq_None_iff)

lemma by_id_SomeD: "by_id L i = Some e \<Longrightarrow> e \<in> set L \<and> ei_id e = i"
  by (auto simp: by_id_def dest: map_of_SomeD)

lemma by_id_Some: "distinct (map ei_id L) \<Longrightarrow> by_id L i = Some e \<longleftrightarrow> e \<in> set L \<and> ei_id e = i"
  by (auto simp: by_id_def comp_def)

lemma by_id_Nil [simp]: "by_id [] = Map.empty"
  by (simp add: by_id_def)

lemma by_id_snoc [simp]: "ei_id e \<notin> ei_id ` set L \<Longrightarrow> by_id (L @ [e]) = (by_id L)(ei_id e \<mapsto> e)"
  by (fastforce simp: by_id_def fun_eq_iff map_add_def dest: map_of_SomeD split: option.splits)

lemma by_id_filter:
  "distinct (map ei_id L) \<Longrightarrow> by_id (filter (\<lambda>e. ei_id e \<noteq> i) L) = (by_id L)(i := None)"
  by (induction L) (auto simp: by_id_def fun_eq_iff)

lemma of_service_simps [simp]:
  "of_service s [] = []"
  "of_service s (L @ [e]) = of_service s L @ (if ei_service_name e = s then [e] else [])"
  "of_service s (filter P L) = filter P (of_service s L)"
  "set (of_service s L) = {e \<in> set L. ei_service_name e = s}"
  by (auto simp: of_service_def conj_commute)

locale endpoint_registry =
  fixes represents :: "'r \<Rightarrow> endpoint_info list \<Rightarrow> bool"
    and new :: 'r
    and reg :: "endpoint_info \<Rightarrow> 'r \<Rightarrow> (registry_error + unit) \<times> 'r"
    and unreg :: "endpoint_id \<Rightarrow> 'r \<Rightarrow> (registry_error + unit) \<times> 'r"
    and find_all :: "str \<Rightarrow> 'r \<Rightarrow> endpoint_info list"
    and find_one :: "endpoint_id \<Rightarrow> 'r \<Rightarrow> endpoint_info option"
    and names :: "'r \<Rightarrow> str set"
    and pick :: "str \<Rightarrow> 'r \<Rightarrow> endpoint_info option \<times> 'r"
  assumes represents_new: "represents new []"
    and represents_reg: "represents r L \<Longrightarrow>
      fst (reg e r) = fst (spec_register e L) \<and> represents (snd (reg e r)) (snd (spec_register e L))"
    and represents_unreg: "represents r L \<Longrightarrow>
      fst (unreg i r) = fst (spec_unregister i L) \<and> represents (snd (unreg i r)) (snd (spec_unregister i L))"
    and represents_pick: "represents r L \<Longrightarrow> represents (snd (pick s r)) L"
    and represents_distinct: "represents r L \<Longrightarrow> distinct (map ei_id L)"
    and find_all_eq: "represents r L \<Longrightarrow> find_all s r = of_service s L"
    and find_one_eq: "represents r L \<Longrightarrow> find_one i r = by_id L i"
    and names_eq: "represents r L \<Longrightarrow> names r = ei_service_name ` set L"
    and pick_None: "represents r L \<Longrightarrow> fst (pick s r) = None \<longleftrightarrow> of_service s L = []"
    and pick_Some: "represents r L \<Longrightarrow> fst (pick s r) = Some e \<Longrightarrow> e \<in> set (of_service s L)"
begin

text \<open>What a client sees after an endpoint was registered, until it is unregistered.\<close>

lemma registered_found:
  assumes "represents r L" "reg e r = (Inr (), r')"
  shows "find_one (ei_id e) r' = Some e" "e \<in> set (find_all (ei_service_name e) r')"
    "fst (pick (ei_service_name e) r') \<noteq> None"
proof -
  have L': "represents r' (L @ [e])" "ei_id e \<notin> ei_id ` set L"
    using represents_reg [OF assms(1), of e] assms(2) by (auto simp: spec_register_def split: if_splits)
  then show "find_one (ei_id e) r' = Some e" "e \<in> set (find_all (ei_service_name e) r')"
    by (auto simp: find_one_eq find_all_eq)
  show "fst (pick (ei_service_name e) r') \<noteq> None"
    using L' by (simp add: pick_None)
qed

lemma unregistered_gone:
  assumes "represents r L" "unreg i r = (Inr (), r')"
  shows "find_one i r' = None" "\<forall>e\<in>set (find_all s r'). ei_id e \<noteq> i"
proof -
  have "represents r' (filter (\<lambda>e. ei_id e \<noteq> i) L)"
    using represents_unreg [OF assms(1), of i] assms(2) by (auto simp: spec_unregister_def split: if_splits)
  then show "find_one i r' = None" "\<forall>e\<in>set (find_all s r'). ei_id e \<noteq> i"
    by (auto simp: find_one_eq find_all_eq)
qed

end

section \<open>The in-memory registry implements it\<close>

definition registry_repr :: "sim_endpoint_registry \<Rightarrow> endpoint_info list \<Rightarrow> bool" where
  "registry_repr r L \<longleftrightarrow>
     distinct (map ei_id L) \<and> endpoints r = by_id L \<and>
     services r = (\<lambda>s. if of_service s L = [] then None else Some (map ei_id (of_service s L))) \<and>
     dom (round_robin_counters r) = dom (services r)"

lemma map_filter_by_id:
  "distinct (map ei_id L) \<Longrightarrow> set L' \<subseteq> set L \<Longrightarrow> List.map_filter (by_id L) (map ei_id L') = L'"
proof (induction L')
  case (Cons e L')
  then have "by_id L (ei_id e) = Some e" by (simp add: by_id_Some)
  with Cons show ?case by (simp add: map_filter_simps)
qed (simp add: map_filter_simps)

lemma registry_repr_new: "registry_repr registry_new []"
  by (simp add: registry_repr_def registry_new_def fun_eq_iff)

lemma registry_repr_register:
  assumes "registry_repr r L"
  shows "fst (register_endpoint e r) = fst (spec_register e L)
    \<and> registry_repr (snd (register_endpoint e r)) (snd (spec_register e L))"
proof (cases "ei_id e \<in> ei_id ` set L")
  case True
  with assms have "endpoints r (ei_id e) \<noteq> None" by (simp add: registry_repr_def)
  with True assms show ?thesis
    by (simp add: register_endpoint_def spec_register_def)
next
  case False
  with assms show ?thesis
    by (auto simp: register_endpoint_def spec_register_def Let_def registry_repr_def fun_eq_iff
        split: option.splits)
qed

lemma map_ei_id_filter: "filter (\<lambda>j. j \<noteq> i) (map ei_id L) = map ei_id (filter (\<lambda>e. ei_id e \<noteq> i) L)"
  by (simp add: filter_map comp_def)

lemma registry_repr_unregister:
  assumes "registry_repr r L"
  shows "fst (unregister_endpoint i r) = fst (spec_unregister i L)
    \<and> registry_repr (snd (unregister_endpoint i r)) (snd (spec_unregister i L))"
proof (cases "endpoints r i")
  case None
  with assms have "i \<notin> ei_id ` set L" by (simp add: registry_repr_def)
  with None assms show ?thesis
    by (simp add: unregister_endpoint_def spec_unregister_def)
next
  case (Some e)
  with assms have e: "e \<in> set L" "ei_id e = i" and dist: "distinct (map ei_id L)"
    by (auto simp: registry_repr_def dest: by_id_SomeD)
  define L' where "L' = filter (\<lambda>e. ei_id e \<noteq> i) L"
  have spec: "spec_unregister i L = (Inr (), L')"
    using e by (auto simp: spec_unregister_def L'_def)
  have other: "of_service s L' = of_service s L" if "s \<noteq> ei_service_name e" for s
    using dist e that by (auto simp: L'_def distinct_map inj_on_def filter_id_conv)
  have L': "by_id L' = (endpoints r)(i := None)" "distinct (map ei_id L')"
    using assms dist by (simp_all add: L'_def registry_repr_def by_id_filter distinct_map_filter)
  let ?s = "ei_service_name e"
  have "services r ?s = Some (map ei_id (of_service ?s L))"
    using assms e by (auto simp: registry_repr_def of_service_def filter_empty_conv)
  moreover have "filter (\<lambda>j. j \<noteq> i) (map ei_id (of_service ?s L)) = map ei_id (of_service ?s L')"
    by (simp add: map_ei_id_filter L'_def)
  ultimately show ?thesis
    unfolding spec using Some L' other assms
    by (auto simp: unregister_endpoint_def Let_def registry_repr_def fun_eq_iff)
qed

lemma pick_repr:
  assumes "registry_repr r L" and es: "of_service s L = es" "es \<noteq> []"
  obtains c where "round_robin_counters r s = Some c"
    "get_endpoint_for_service s r =
       (Some (es ! (c mod length es)),
        r\<lparr>round_robin_counters := (round_robin_counters r)(s \<mapsto> (c + 1) mod length es)\<rparr>)"
proof -
  have sv: "services r s = Some (map ei_id es)"
    using assms by (simp add: registry_repr_def)
  then have "s \<in> dom (services r)" by blast
  then obtain c where c: "round_robin_counters r s = Some c"
    using assms(1) unfolding registry_repr_def by blast
  have "set es \<subseteq> set L"
    using es(1) by auto
  then have "es ! (c mod length es) \<in> set L"
    using es(2) nth_mem [of "c mod length es" es] by auto
  then have "endpoints r (ei_id (es ! (c mod length es))) = Some (es ! (c mod length es))"
    using assms(1) by (simp add: registry_repr_def by_id_Some)
  with sv c es(2) that show thesis
    by (auto simp: get_endpoint_for_service_def)
qed

lemma pick_nothing: "registry_repr r L \<Longrightarrow> of_service s L = [] \<Longrightarrow> get_endpoint_for_service s r = (None, r)"
  by (simp add: registry_repr_def get_endpoint_for_service_def)

lemma registry_repr_counters:
  "registry_repr r L \<Longrightarrow> of_service s L \<noteq> [] \<Longrightarrow>
   registry_repr (r\<lparr>round_robin_counters := (round_robin_counters r)(s \<mapsto> c)\<rparr>) L"
  by (auto simp: registry_repr_def)

lemma registry_repr_lookups:
  assumes "registry_repr r L"
  shows "find_endpoints s r = of_service s L" "find_endpoint i r = by_id L i"
    "list_services r = ei_service_name ` set L" "distinct (map ei_id L)"
proof -
  have "List.map_filter (by_id L) (map ei_id (of_service s L)) = of_service s L"
    using assms by (intro map_filter_by_id) (auto simp: registry_repr_def)
  then show "find_endpoints s r = of_service s L"
    using assms by (auto simp: find_endpoints_def registry_repr_def)
  have "dom (services r) = {s. of_service s L \<noteq> []}"
    using assms by (auto simp: registry_repr_def split: if_splits)
  then show "list_services r = ei_service_name ` set L"
    by (auto simp: list_services_def of_service_def filter_empty_conv)
qed (use assms in \<open>simp_all add: find_endpoint_def registry_repr_def\<close>)

interpretation sim_registry: endpoint_registry registry_repr registry_new register_endpoint
  unregister_endpoint find_endpoints find_endpoint list_services get_endpoint_for_service
proof (unfold_locales, goal_cases)
  case (4 r L s)
  show ?case
  proof (cases "of_service s L = []")
    case False
    with 4 pick_repr [OF 4 refl False] registry_repr_counters [OF 4 False] show ?thesis by (metis snd_conv)
  qed (use 4 in \<open>simp add: pick_nothing\<close>)
next
  case (9 r L s)
  show ?case
  proof (cases "of_service s L = []")
    case False
    with pick_repr [OF 9 refl False] show ?thesis by (metis fst_conv option.distinct(1))
  qed (use 9 in \<open>simp add: pick_nothing\<close>)
next
  case (10 r L s e)
  show ?case
  proof (cases "of_service s L = []")
    case False
    with 10(1) obtain c where "fst (get_endpoint_for_service s r) = Some (of_service s L ! (c mod length (of_service s L)))"
      using pick_repr by (metis fst_conv)
    with 10(2) False show ?thesis
      using nth_mem [of "c mod length (of_service s L)" "of_service s L"] by (simp del: of_service_simps)
  qed (use 10 in \<open>simp add: pick_nothing\<close>)
qed (use registry_repr_new registry_repr_register registry_repr_unregister registry_repr_lookups in blast)+

section \<open>Sequences of operations\<close>

datatype registry_op = Register endpoint_info | Unregister endpoint_id | Pick str

datatype registry_result = Done "registry_error + unit" | Picked "endpoint_info option"

fun registry_step :: "registry_op \<Rightarrow> sim_endpoint_registry \<Rightarrow> registry_result \<times> sim_endpoint_registry" where
  "registry_step (Register e) r = (let (x, r) = register_endpoint e r in (Done x, r))"
| "registry_step (Unregister i) r = (let (x, r) = unregister_endpoint i r in (Done x, r))"
| "registry_step (Pick s) r = (let (x, r) = get_endpoint_for_service s r in (Picked x, r))"

fun registry_exec ::
  "registry_op list \<Rightarrow> sim_endpoint_registry \<Rightarrow> registry_result list \<times> sim_endpoint_registry"
where
  "registry_exec [] r = ([], r)"
| "registry_exec (op # ops) r =
     (let (x, r) = registry_step op r; (xs, r) = registry_exec ops r in (x # xs, r))"

text \<open>
  The specification adds to the list of endpoints whose turn it is in each service: a selection
  gives the endpoint of the service at that position, counted round the list, and the turn
  passes to the next one. The first endpoint of a service starts with the first turn; removing an
  endpoint leaves the turn as it is.
\<close>

type_synonym registry_spec = "endpoint_info list \<times> (str \<Rightarrow> nat)"

definition spec_pick :: "str \<Rightarrow> registry_spec \<Rightarrow> endpoint_info option \<times> registry_spec" where
  "spec_pick s = (\<lambda>(L, turn).
     let es = filter (\<lambda>e. ei_service_name e = s) L
     in if es = [] then (None, L, turn)
        else (Some (es ! (turn s mod length es)), L, turn(s := (turn s + 1) mod length es)))"

fun spec_step :: "registry_op \<Rightarrow> registry_spec \<Rightarrow> registry_result \<times> registry_spec" where
  "spec_step (Register e) (L, turn) =
     (let (x, L') = spec_register e L; s = ei_service_name e
      in (Done x, L', if \<forall>d\<in>set L. ei_service_name d \<noteq> s then turn(s := 0) else turn))"
| "spec_step (Unregister i) (L, turn) = (let (x, L) = spec_unregister i L in (Done x, L, turn))"
| "spec_step (Pick s) (L, turn) = (let (x, S) = spec_pick s (L, turn) in (Picked x, S))"

fun spec_exec :: "registry_op list \<Rightarrow> registry_spec \<Rightarrow> registry_result list \<times> registry_spec" where
  "spec_exec [] S = ([], S)"
| "spec_exec (op # ops) S = (let (x, S) = spec_step op S; (xs, S) = spec_exec ops S in (x # xs, S))"

definition turns_ok :: "sim_endpoint_registry \<Rightarrow> registry_spec \<Rightarrow> bool" where
  "turns_ok r = (\<lambda>(L, turn). registry_repr r L \<and>
     (\<forall>s. of_service s L \<noteq> [] \<longrightarrow> round_robin_counters r s = Some (turn s)))"

lemma pick_turn:
  assumes "turns_ok r (L, turn)"
  shows "fst (get_endpoint_for_service s r) = fst (spec_pick s (L, turn)) \<and>
    turns_ok (snd (get_endpoint_for_service s r)) (snd (spec_pick s (L, turn)))"
proof (cases "of_service s L = []")
  case True
  with assms pick_nothing [of r L s] show ?thesis
    by (simp add: turns_ok_def spec_pick_def of_service_def)
next
  case False
  with assms pick_repr [of r L s] have get: "get_endpoint_for_service s r =
      (Some (of_service s L ! (turn s mod length (of_service s L))),
       r\<lparr>round_robin_counters := (round_robin_counters r)(s \<mapsto> (turn s + 1) mod length (of_service s L))\<rparr>)"
    by (fastforce simp: turns_ok_def)
  have "turns_ok (snd (get_endpoint_for_service s r)) (L, turn(s := (turn s + 1) mod length (of_service s L)))"
    using assms registry_repr_counters [OF _ False] by (auto simp: turns_ok_def get)
  then show ?thesis
    using False get by (simp add: spec_pick_def of_service_def Let_def)
qed

lemma registry_repr_None:
  assumes "registry_repr r L"
  shows "round_robin_counters r s = None \<longleftrightarrow> of_service s L = []"
proof -
  have "s \<in> dom (round_robin_counters r) \<longleftrightarrow> s \<in> dom (services r)"
    using assms by (simp only: registry_repr_def)
  moreover have "services r s = None \<longleftrightarrow> of_service s L = []"
    using assms by (simp add: registry_repr_def)
  ultimately show ?thesis by (cases "round_robin_counters r s") (simp_all add: domIff)
qed

lemma registry_counters:
  "round_robin_counters (snd (register_endpoint e r)) =
     (if endpoints r (ei_id e) = None \<and> round_robin_counters r (ei_service_name e) = None
      then (round_robin_counters r)(ei_service_name e \<mapsto> 0) else round_robin_counters r)"
  "round_robin_counters (snd (unregister_endpoint i r)) s \<in> {None, round_robin_counters r s}"
  by (auto simp: register_endpoint_def unregister_endpoint_def Let_def split: option.splits)

lemma register_turn:
  assumes "turns_ok r (L, turn)"
  shows "fst (registry_step (Register e) r) = fst (spec_step (Register e) (L, turn)) \<and>
    turns_ok (snd (registry_step (Register e) r)) (snd (spec_step (Register e) (L, turn)))"
proof -
  let ?s = "ei_service_name e" and ?r = "snd (register_endpoint e r)" and ?L = "snd (spec_register e L)"
  let ?turn = "if \<forall>d\<in>set L. ei_service_name d \<noteq> ?s then turn(?s := 0) else turn"
  from assms have repr: "registry_repr r L" and t: "\<And>s. of_service s L \<noteq> [] \<Longrightarrow> round_robin_counters r s = Some (turn s)"
    by (auto simp: turns_ok_def)
  note reg = registry_repr_register [OF repr, of e]
  note none = registry_repr_None [OF repr]
  have new: "(\<forall>d\<in>set L. ei_service_name d \<noteq> s) \<longleftrightarrow> of_service s L = []" for s
    by (auto simp: of_service_def filter_empty_conv)
  have "round_robin_counters ?r s = Some (?turn s)" if "of_service s ?L \<noteq> []" for s
  proof (cases "ei_id e \<in> ei_id ` set L")
    case True
    then have "endpoints r (ei_id e) \<noteq> None" "?L = L"
      using repr by (auto simp: registry_repr_def spec_register_def)
    with that t [of s] new [of ?s] show ?thesis by (auto simp: registry_counters)
  next
    case False
    then have "endpoints r (ei_id e) = None" "?L = L @ [e]"
      using repr by (auto simp: registry_repr_def spec_register_def)
    with that t [of s] new [of ?s] none [of ?s] show ?thesis
      by (auto simp: registry_counters split: if_splits)
  qed
  with reg have "turns_ok ?r (?L, ?turn)" by (simp add: turns_ok_def)
  with reg show ?thesis by (simp add: case_prod_beta Let_def)
qed

lemma unregister_turn:
  assumes "turns_ok r (L, turn)"
  shows "fst (registry_step (Unregister i) r) = fst (spec_step (Unregister i) (L, turn)) \<and>
    turns_ok (snd (registry_step (Unregister i) r)) (snd (spec_step (Unregister i) (L, turn)))"
proof -
  let ?r = "snd (unregister_endpoint i r)" and ?L = "snd (spec_unregister i L)"
  from assms have repr: "registry_repr r L" and t: "\<And>s. of_service s L \<noteq> [] \<Longrightarrow> round_robin_counters r s = Some (turn s)"
    by (auto simp: turns_ok_def)
  note unreg = registry_repr_unregister [OF repr, of i]
  have "round_robin_counters ?r s = Some (turn s)" if "of_service s ?L \<noteq> []" for s
  proof -
    have "of_service s L \<noteq> []"
      using that by (auto simp: spec_unregister_def of_service_def filter_empty_conv split: if_splits)
    moreover have "round_robin_counters ?r s \<noteq> None"
      using registry_repr_None [OF unreg [THEN conjunct2]] that by blast
    ultimately show ?thesis using t [of s] registry_counters(2) [of i r s] by auto
  qed
  with unreg have "turns_ok ?r (?L, turn)" by (simp add: turns_ok_def)
  with unreg show ?thesis by (simp add: case_prod_beta)
qed

lemma registry_step_turns:
  "turns_ok r S \<Longrightarrow> fst (registry_step op r) = fst (spec_step op S) \<and>
   turns_ok (snd (registry_step op r)) (snd (spec_step op S))"
  by (cases S; cases op) (simp_all only: register_turn unregister_turn, use pick_turn in \<open>auto simp: case_prod_beta\<close>)

lemma registry_exec_turns:
  "turns_ok r S \<Longrightarrow> fst (registry_exec ops r) = fst (spec_exec ops S) \<and>
   turns_ok (snd (registry_exec ops r)) (snd (spec_exec ops S))"
proof (induction ops arbitrary: r S)
  case (Cons op ops)
  note step = registry_step_turns [OF Cons.prems, of op]
  with Cons.IH [OF step [THEN conjunct2]] show ?case by (simp add: case_prod_beta)
qed simp

lemma registry_new_turns: "turns_ok registry_new ([], turn)"
  by (simp add: turns_ok_def registry_repr_new)

lemma registry_exec_repr: "\<exists>L. registry_repr (snd (registry_exec ops registry_new)) L"
  using registry_exec_turns [OF registry_new_turns, of ops]
  by (cases "snd (spec_exec ops ([], \<lambda>_. 0))") (auto simp: turns_ok_def)

text \<open>
  C10. The registry refines the list of the registered endpoints in registration order together with
  the turn of every service. After any sequence of registrations, removals and selections all
  results are those of the specification: calls succeed or fail as they do there, and each
  selection gives the endpoint of the service whose turn it is, or none if the service has no
  endpoint. In the end identifiers are unique, a look-up by service gives the endpoints of the
  service in order, a look-up by identifier the one with that identifier, and the services are
  those of the registered endpoints.
\<close>

theorem registry_refines:
  "let (res, r) = registry_exec ops registry_new; (spec_res, L, turn) = spec_exec ops ([], \<lambda>_. 0)
   in res = spec_res \<and> distinct (map ei_id L)
      \<and> (\<forall>s. find_endpoints s r = filter (\<lambda>e. ei_service_name e = s) L)
      \<and> (\<forall>i. find_endpoint i r = map_of (map (\<lambda>e. (ei_id e, e)) L) i)
      \<and> list_services r = ei_service_name ` set L"
proof -
  obtain res r spec_res L turn where run: "registry_exec ops registry_new = (res, r)"
    "spec_exec ops ([], \<lambda>_. 0) = (spec_res, L, turn)" using prod_cases3 by (metis surj_pair)
  from registry_exec_turns [OF registry_new_turns [of "\<lambda>_. 0"], of ops] run
  have repr: "res = spec_res" "registry_repr r L" by (simp_all add: turns_ok_def)
  then show ?thesis
    using sim_registry.represents_distinct [OF repr(2)] sim_registry.find_all_eq [OF repr(2)]
      sim_registry.find_one_eq [OF repr(2)] sim_registry.names_eq [OF repr(2)]
    by (simp add: run of_service_def by_id_def)
qed

text \<open>The results of \<open>n\<close> successive selections of an endpoint for a service.\<close>

fun picks :: "str \<Rightarrow> nat \<Rightarrow> sim_endpoint_registry \<Rightarrow> endpoint_info option list" where
  "picks s 0 r = []"
| "picks s (Suc n) r = (let (e, r) = get_endpoint_for_service s r in e # picks s n r)"

lemma picks_repr:
  assumes "registry_repr r L" "of_service s L = es" "es \<noteq> []" "round_robin_counters r s = Some c"
  shows "picks s n r = map (\<lambda>j. Some (es ! ((c + j) mod length es))) [0..<n]"
  using assms
proof (induction n arbitrary: r c)
  case (Suc n)
  let ?r = "r\<lparr>round_robin_counters := (round_robin_counters r)(s \<mapsto> (c + 1) mod length es)\<rparr>"
  obtain c' where "round_robin_counters r s = Some c'" "get_endpoint_for_service s r =
    (Some (es ! (c' mod length es)), r\<lparr>round_robin_counters := (round_robin_counters r)(s \<mapsto> (c' + 1) mod length es)\<rparr>)"
    using pick_repr [OF Suc.prems(1-3)] by blast
  with Suc.prems(4) have get: "get_endpoint_for_service s r = (Some (es ! (c mod length es)), ?r)" by simp
  have "picks s n ?r = map (\<lambda>j. Some (es ! (((c + 1) mod length es + j) mod length es))) [0..<n]"
    using Suc.prems by (intro Suc.IH) (auto intro: registry_repr_counters)
  also have "\<dots> = map (\<lambda>j. Some (es ! ((c + j) mod length es))) [Suc 0..<Suc n]"
    by (simp add: mod_add_left_eq comp_def map_Suc_upt [symmetric] del: upt_Suc)
  finally show ?case
    by (simp add: get upt_conv_Cons del: upt_Suc)
qed simp

lemma rotations_mset:
  fixes xs :: "'a list"
  assumes "xs \<noteq> []"
  shows "mset (map (\<lambda>j. xs ! ((c + j) mod length xs)) [0..<length xs]) = mset xs"
proof -
  have "map (\<lambda>j. xs ! ((c + j) mod length xs)) [0..<length xs] = rotate c xs"
    using assms by (intro nth_equalityI) (auto simp: nth_rotate)
  moreover have "mset (rotate1 ys) = mset ys" for ys :: "'a list"
    by (cases ys) auto
  then have "mset (rotate c xs) = mset xs"
    by (induction c) auto
  ultimately show ?thesis by simp
qed

text \<open>
  Round robin, whatever happened before: successive selections for a service go round its
  endpoints in registration order from some starting point, so any \<open>n\<close> successive ones,
  for \<open>n\<close> endpoints, select each of them exactly once; without an endpoint of the
  service there is no selection.
\<close>

theorem round_robin_fair:
  "let r = snd (registry_exec ops registry_new); es = find_endpoints s r
   in if es = [] then fst (get_endpoint_for_service s r) = None
      else (\<exists>c. \<forall>n. picks s n r = map (\<lambda>j. Some (es ! ((c + j) mod length es))) [0..<n])
         \<and> mset (picks s (length es) r) = mset (map Some es)"
proof -
  define r where "r = snd (registry_exec ops registry_new)"
  obtain L where repr: "registry_repr r L"
    using registry_exec_repr r_def by blast
  define es where "es = find_endpoints s r"
  have es: "of_service s L = es"
    by (simp add: es_def sim_registry.find_all_eq [OF repr])
  show ?thesis
  proof (cases "es = []")
    case True
    then show ?thesis
      using sim_registry.pick_None [OF repr, of s] by (simp add: es flip: r_def es_def)
  next
    case False
    then obtain c where c: "round_robin_counters r s = Some c"
      using pick_repr [OF repr es] by blast
    have all: "picks s n r = map (\<lambda>j. Some (es ! ((c + j) mod length es))) [0..<n]" for n
      by (rule picks_repr [OF repr es False c])
    then have "mset (picks s (length es) r) = mset (map Some (map (\<lambda>j. es ! ((c + j) mod length es)) [0..<length es]))"
      by (simp add: comp_def)
    also have "\<dots> = mset (map Some es)"
      using rotations_mset [OF False, of c] by (simp only: mset_map)
    finally show ?thesis
      using False all by (auto simp flip: r_def es_def)
  qed
qed

section \<open>Collisions\<close>

text \<open>
  Identifiers are hashes of the names, and distinct names may collide: the instances
  \<open>Ab\<close> and \<open>BA\<close> of one service have the same identifier, so the second cannot be
  registered; and so have the instance \<open>c\<close> of service \<open>a:b\<close> and the instance \<open>b:c\<close> of
  service \<open>a\<close>.
\<close>

theorem endpoint_collision:
  "fst (registry_exec [Register (endpoint_info_new s (lit ''Ab'')), Register (endpoint_info_new s (lit ''BA''))]
       registry_new) =
     [Done (Inr ()), Done (Inl (AlreadyRegistered (ei_id (endpoint_info_new s (lit ''BA'')))))]
   \<and> ei_id (endpoint_info_new (lit ''a:b'') (lit ''c'')) = ei_id (endpoint_info_new (lit ''a'') (lit ''b:c''))"
proof -
  have "djb2_hash (s @ lit '':'' @ lit ''Ab'') = djb2_hash (s @ lit '':'' @ lit ''BA'')"
  proof -
    have "(h * 33 + 65) * 33 + 98 = (h * 33 + 66) * 33 + (65 :: u64)" for h
      by (simp only: ring_distribs mult.assoc add.assoc) simp
    then show ?thesis by (simp add: djb2_hash_def lit_def)
  qed
  moreover have "lit ''a:b'' @ lit '':'' @ lit ''c'' = lit ''a'' @ lit '':'' @ lit ''b:c''"
    by (simp add: lit_def)
  ultimately show ?thesis
    by (simp add: register_endpoint_def registry_new_def endpoint_info_new_def endpoint_id_new_def
        Let_def)
qed

end
