(* ===== verification/Network_Model.thy ===== *)
theory Network_Model
  imports Endpoint_Registry Retry_Policy Service_Time
begin

text \<open>
  \<open>des-components/src/transport/mod.rs\<close> and \<open>network_model.rs\<close>: the messages of the
  simulated network and the models that decide their latency and loss. The trait
  \<open>NetworkModel\<close> is a record of functions over the state of the model. The generators of
  \<open>rand_chacha\<close> and the normal distribution of \<open>rand_distr\<close> are parameters, floating-point
  operations are those of a record \<open>net_f64\<close>. \<open>None\<close> stands for a panic.
\<close>

section \<open>Messages\<close>

datatype message_type = UnaryRequest | UnaryResponse | RpcStreamFrame | StreamMessage | StreamClose

record transport_message =
  tm_id :: u64
  tm_source :: endpoint_id
  tm_destination :: endpoint_id
  tm_payload :: "byte list"
  sent_at :: simtime
  correlation_id :: "str option"
  tm_type :: message_type

definition transport_message_new ::
  "u64 \<Rightarrow> endpoint_id \<Rightarrow> endpoint_id \<Rightarrow> byte list \<Rightarrow> simtime \<Rightarrow> message_type \<Rightarrow> transport_message"
where
  "transport_message_new i source destination payload at ty =
     \<lparr>tm_id = i, tm_source = source, tm_destination = destination, tm_payload = payload, sent_at = at,
      correlation_id = None, tm_type = ty\<rparr>"

definition with_correlation_id :: "str \<Rightarrow> transport_message \<Rightarrow> transport_message" where
  "with_correlation_id c m = m\<lparr>correlation_id := Some c\<rparr>"

definition message_size :: "transport_message \<Rightarrow> usize" where
  "message_size m = length (tm_payload m)"

definition message_age :: "simtime \<Rightarrow> transport_message \<Rightarrow> duration" where
  "message_age now m = duration_since now (sent_at m)"

datatype transport_event =
    SendMessage transport_message
  | MessageDelivered transport_message
  | MessageDropped transport_message str

section \<open>The trait\<close>

record 'n network_model =
  calculate_latency :: "endpoint_id \<Rightarrow> endpoint_id \<Rightarrow> transport_message \<Rightarrow> 'n \<Rightarrow> (duration \<times> 'n) option"
  should_drop_message :: "endpoint_id \<Rightarrow> endpoint_id \<Rightarrow> transport_message \<Rightarrow> 'n \<Rightarrow> bool \<times> 'n"
  model_reset :: "'n \<Rightarrow> 'n"

record 'f net_f64 = "'f f64" +
  f_le :: "'f \<Rightarrow> 'f \<Rightarrow> bool"
  f_max :: "'f \<Rightarrow> 'f \<Rightarrow> 'f"
  f_from_secs :: "'f \<Rightarrow> duration"

text \<open>\<open>(0.0..=1.0).contains(&x)\<close>.\<close>

definition is_probability :: "('f, 'z) net_f64_scheme \<Rightarrow> 'f \<Rightarrow> bool" where
  "is_probability F x \<longleftrightarrow> f_le F (f_of_nat F 0) x \<and> f_le F x (f_of_nat F 1)"

section \<open>Constant latency\<close>

record ('f, 'g) simple_network =
  sn_base_latency :: duration
  sn_packet_loss_rate :: 'f
  sn_rng :: 'g

text \<open>
  \<open>new\<close> and \<open>with_seed\<close> differ in the generator only, which is the last argument; the
  assertion on the loss rate panics.
\<close>

definition simple_network_new ::
  "('f, 'z) net_f64_scheme \<Rightarrow> duration \<Rightarrow> 'f \<Rightarrow> 'g \<Rightarrow> ('f, 'g) simple_network option"
where
  "simple_network_new F base loss g =
     (if is_probability F loss then
        Some \<lparr>sn_base_latency = base, sn_packet_loss_rate = loss, sn_rng = g\<rparr>
      else None)"

definition simple_network_with_seed ::
  "('f, 'z) net_f64_scheme \<Rightarrow> (u64 \<Rightarrow> 'g) \<Rightarrow> duration \<Rightarrow> 'f \<Rightarrow> u64 \<Rightarrow> ('f, 'g) simple_network option"
where
  "simple_network_with_seed F seed_from_u64 base loss seed =
     (if is_probability F loss then
        Some \<lparr>sn_base_latency = base, sn_packet_loss_rate = loss, sn_rng = seed_from_u64 seed\<rparr>
      else None)"

text \<open>\<open>gen\<close> is \<open>rng.gen::<f64>()\<close> and \<open>entropy\<close> the generator \<open>from_entropy\<close> returns.\<close>

definition simple_network_model ::
  "('f, 'z) net_f64_scheme \<Rightarrow> ('g \<Rightarrow> 'f \<times> 'g) \<Rightarrow> 'g \<Rightarrow> ('f, 'g) simple_network network_model"
where
  "simple_network_model F gen entropy =
     \<lparr>calculate_latency = (\<lambda>_ _ _ n. Some (sn_base_latency n, n)),
      should_drop_message =
        (\<lambda>_ _ _ n. let (x, g) = gen (sn_rng n) in (f_less F x (sn_packet_loss_rate n), n\<lparr>sn_rng := g\<rparr>)),
      model_reset = (\<lambda>n. n\<lparr>sn_rng := entropy\<rparr>)\<rparr>"

section \<open>Latency with jitter and bandwidth\<close>

record 'f latency_config =
  lc_base_latency :: duration
  jitter_factor :: 'f
  lc_packet_loss_rate :: 'f
  bandwidth_bps :: u64

definition latency_config_new :: "('f, 'z) net_f64_scheme \<Rightarrow> duration \<Rightarrow> 'f latency_config" where
  "latency_config_new F base =
     \<lparr>lc_base_latency = base, jitter_factor = f_of_nat F 0, lc_packet_loss_rate = f_of_nat F 0,
      bandwidth_bps = 0\<rparr>"

definition config_with_jitter :: "('f, 'z) net_f64_scheme \<Rightarrow> 'f \<Rightarrow> 'f latency_config \<Rightarrow> 'f latency_config option" where
  "config_with_jitter F x c = (if f_le F (f_of_nat F 0) x then Some (c\<lparr>jitter_factor := x\<rparr>) else None)"

definition with_packet_loss :: "('f, 'z) net_f64_scheme \<Rightarrow> 'f \<Rightarrow> 'f latency_config \<Rightarrow> 'f latency_config option" where
  "with_packet_loss F x c = (if is_probability F x then Some (c\<lparr>lc_packet_loss_rate := x\<rparr>) else None)"

definition with_bandwidth :: "u64 \<Rightarrow> 'f latency_config \<Rightarrow> 'f latency_config" where
  "with_bandwidth bps c = c\<lparr>bandwidth_bps := bps\<rparr>"

record ('f, 'g) latency_jitter =
  queue_times :: "endpoint_id \<times> endpoint_id \<rightharpoonup> duration"
  latency_configs :: "endpoint_id \<times> endpoint_id \<rightharpoonup> 'f latency_config"
  default_config :: "'f latency_config"
  lj_rng :: 'g

definition latency_jitter_new :: "'f latency_config \<Rightarrow> 'g \<Rightarrow> ('f, 'g) latency_jitter" where
  "latency_jitter_new c g =
     \<lparr>queue_times = Map.empty, latency_configs = Map.empty, default_config = c, lj_rng = g\<rparr>"

definition set_latency ::
  "endpoint_id \<Rightarrow> endpoint_id \<Rightarrow> 'f latency_config \<Rightarrow> ('f, 'g) latency_jitter \<Rightarrow> ('f, 'g) latency_jitter"
where
  "set_latency a b c n = n\<lparr>latency_configs := (latency_configs n)((a, b) \<mapsto> c)\<rparr>"

definition get_config :: "endpoint_id \<Rightarrow> endpoint_id \<Rightarrow> ('f, 'g) latency_jitter \<Rightarrow> 'f latency_config" where
  "get_config a b n = (case latency_configs n (a, b) of Some c \<Rightarrow> c | None \<Rightarrow> default_config n)"

text \<open>
  \<open>normal mean std_dev\<close> is \<open>Normal::new\<close>: \<open>None\<close> for the error, else the sampling function.
\<close>

definition jittered_latency ::
  "('f, 'z) net_f64_scheme \<Rightarrow> ('f \<Rightarrow> 'f \<Rightarrow> ('g \<Rightarrow> 'f \<times> 'g) option) \<Rightarrow> 'f latency_config \<Rightarrow> 'g
    \<Rightarrow> (duration \<times> 'g) option"
where
  "jittered_latency F normal c g =
     (let base_ms = f_of_nat F (duration_as_millis (lc_base_latency c))
      in if f_less F (f_of_nat F 0) (jitter_factor c) then
           (let jitter_std = f_mul F base_ms (jitter_factor c);
                dist = (case normal base_ms jitter_std of
                          Some smp \<Rightarrow> Some smp
                        | None \<Rightarrow> normal base_ms (f_of_nat F 1))
            in case dist of
                 None \<Rightarrow> None
               | Some smp \<Rightarrow>
                   (let (x, g) = smp g; latency_ms = f_max F x (f_div F base_ms (f_of_nat F 10))
                    in Some (duration_from_millis (unat (f_to_u64 F latency_ms)), g)))
         else Some (lc_base_latency c, g))"

definition bandwidth_delay :: "('f, 'z) net_f64_scheme \<Rightarrow> 'f latency_config \<Rightarrow> transport_message \<Rightarrow> duration" where
  "bandwidth_delay F c m =
     (if 0 < bandwidth_bps c then
        f_from_secs F (f_div F (f_of_nat F (message_size m)) (f_of_nat F (unat (bandwidth_bps c))))
      else 0)"

definition jitter_calculate_latency ::
  "('f, 'z) net_f64_scheme \<Rightarrow> ('f \<Rightarrow> 'f \<Rightarrow> ('g \<Rightarrow> 'f \<times> 'g) option) \<Rightarrow> endpoint_id \<Rightarrow> endpoint_id
    \<Rightarrow> transport_message \<Rightarrow> ('f, 'g) latency_jitter \<Rightarrow> (duration \<times> ('f, 'g) latency_jitter) option"
where
  "jitter_calculate_latency F normal a b m n =
     (let c = get_config a b n;
          current_time = max (case queue_times n (a, b) of Some d \<Rightarrow> d | None \<Rightarrow> 0) (as_duration (sent_at m))
      in case jittered_latency F normal c (lj_rng n) of
           None \<Rightarrow> None
         | Some (latency, g) \<Rightarrow>
             (case Option.bind (duration_add current_time latency) (\<lambda>t. duration_add t (bandwidth_delay F c m)) of
                None \<Rightarrow> None
              | Some total_time \<Rightarrow>
                  Some (total_time, n\<lparr>lj_rng := g, queue_times := (queue_times n)((a, b) \<mapsto> total_time)\<rparr>)))"

definition latency_jitter_model ::
  "('f, 'z) net_f64_scheme \<Rightarrow> ('g \<Rightarrow> 'f \<times> 'g) \<Rightarrow> ('f \<Rightarrow> 'f \<Rightarrow> ('g \<Rightarrow> 'f \<times> 'g) option) \<Rightarrow> 'g
    \<Rightarrow> ('f, 'g) latency_jitter network_model"
where
  "latency_jitter_model F gen normal entropy =
     \<lparr>calculate_latency = jitter_calculate_latency F normal,
      should_drop_message =
        (\<lambda>a b _ n. let (x, g) = gen (lj_rng n)
          in (f_less F x (lc_packet_loss_rate (get_config a b n)), n\<lparr>lj_rng := g\<rparr>)),
      model_reset = (\<lambda>n. n\<lparr>lj_rng := entropy\<rparr>)\<rparr>"

section \<open>Networks that keep the order of messages\<close>

text \<open>
  What both models promise for each pair of endpoints: the delays they hand out never go
  below a bound that never decreases, so a message sent later arrives no earlier.
\<close>

locale fifo_network =
  fixes NM :: "'n network_model"
    and bound :: "'n \<Rightarrow> endpoint_id \<Rightarrow> endpoint_id \<Rightarrow> duration"
  assumes latency_bound: "calculate_latency NM a b m n = Some (d, n') \<Longrightarrow> bound n a b \<le> d \<and> bound n' a b = d"
    and latency_other: "calculate_latency NM a b m n = Some (d, n') \<Longrightarrow> (a', b') \<noteq> (a, b) \<Longrightarrow>
      bound n' a' b' = bound n a' b'"
    and drop_bound: "should_drop_message NM a b m n = (x, n') \<Longrightarrow> bound n' = bound n"
    and reset_bound: "bound (model_reset NM n) = bound n"

interpretation simple_net: fifo_network "simple_network_model F gen entropy" "\<lambda>n a b. sn_base_latency n"
  by unfold_locales (auto simp: simple_network_model_def split: prod.splits)

definition jitter_bound :: "('f, 'g) latency_jitter \<Rightarrow> endpoint_id \<Rightarrow> endpoint_id \<Rightarrow> duration" where
  "jitter_bound n a b = (case queue_times n (a, b) of Some d \<Rightarrow> d | None \<Rightarrow> 0)"

lemma jitter_latencyE:
  assumes "jitter_calculate_latency F normal a b m n = Some (d, n')"
  obtains l g where "jittered_latency F normal (get_config a b n) (lj_rng n) = Some (l, g)"
    "d = max (jitter_bound n a b) (as_duration (sent_at m)) + l + bandwidth_delay F (get_config a b n) m"
    "n' = n\<lparr>lj_rng := g, queue_times := (queue_times n)((a, b) \<mapsto> d)\<rparr>"
proof -
  from assms obtain l g t where
    l: "jittered_latency F normal (get_config a b n) (lj_rng n) = Some (l, g)"
    and t: "duration_add (max (jitter_bound n a b) (as_duration (sent_at m))) l = Some t"
      "duration_add t (bandwidth_delay F (get_config a b n) m) = Some d"
    and n': "n' = n\<lparr>lj_rng := g, queue_times := (queue_times n)((a, b) \<mapsto> d)\<rparr>"
    unfolding jitter_calculate_latency_def jitter_bound_def [symmetric] Let_def
    by (force split: option.splits simp: bind_eq_Some_conv)
  from t have "d = max (jitter_bound n a b) (as_duration (sent_at m)) + l + bandwidth_delay F (get_config a b n) m"
    by (auto simp: duration_add_def split: if_splits)
  with l n' that show thesis by blast
qed

lemma jitter_bound_upd [simp]:
  "jitter_bound (n\<lparr>lj_rng := g\<rparr>) = jitter_bound n"
  "jitter_bound (n\<lparr>lj_rng := g, queue_times := (queue_times n)((a, b) \<mapsto> d)\<rparr>) =
     (\<lambda>a' b'. if (a', b') = (a, b) then d else jitter_bound n a' b')"
  by (auto simp: jitter_bound_def fun_eq_iff)

lemma jitter_bound_latency:
  assumes "jitter_calculate_latency F normal a b m n = Some (d, n')"
  shows "jitter_bound n a b \<le> d" "jitter_bound n' = (\<lambda>a' b'. if (a', b') = (a, b) then d else jitter_bound n a' b')"
  using assms by (auto elim: jitter_latencyE)

interpretation jitter_net: fifo_network "latency_jitter_model F gen normal entropy" jitter_bound
proof (unfold_locales, goal_cases)
  case (1 a b m n d n')
  then show ?case using jitter_bound_latency [of F normal a b m n d n'] by (simp add: latency_jitter_model_def)
next
  case (2 a b m n d n' a' b')
  then show ?case using jitter_bound_latency(2) [of F normal a b m n d n'] by (auto simp: latency_jitter_model_def)
qed (auto simp: latency_jitter_model_def split: prod.splits)

text \<open>Arithmetic on natural numbers in place of floating point, enough for constant models.\<close>

definition nat_f64 :: "nat net_f64" where
  "nat_f64 = \<lparr>f_of_nat = (\<lambda>n. n), f_mul = (*), f_div = (div), f_powi = (\<lambda>x n. x ^ unat n), f_less = (<),
     f_clamp = (\<lambda>x lo hi. max lo (min x hi)), f_secs = (\<lambda>d. d div 1000000000), f_to_u64 = word_of_nat,
     f_to_u32 = word_of_nat, f_le = (\<le>), f_max = max, f_from_secs = (\<lambda>n. n * 1000000000)\<rparr>"

end
