(* ===== verification/Tokio_Time.thy ===== *)
theory Tokio_Time
  imports Async_Runtime
begin

text \<open>
  \<open>des-tokio/src/time.rs\<close>: instants, timeouts and intervals in simulated time. An
  \<open>Instant\<close> wraps a simulated time and has its saturating arithmetic. \<open>None\<close> stands for a
  panic.
\<close>

section \<open>Instants\<close>

type_synonym instant = simtime

text \<open>\<open>Instant::now\<close> reads the thread-local clock and panics outside a step.\<close>

definition instant_now :: "('ev, 't, 'v, 'z) world_scheme \<Rightarrow> instant option" where
  "instant_now w = current_time w"

definition instant_duration_since :: "instant \<Rightarrow> instant \<Rightarrow> duration option" where
  "instant_duration_since t earlier = checked_duration_since t earlier"

definition saturating_duration_since :: "instant \<Rightarrow> instant \<Rightarrow> duration" where
  "saturating_duration_since t earlier =
     (case checked_duration_since t earlier of Some d \<Rightarrow> d | None \<Rightarrow> 0)"

definition instant_elapsed :: "instant \<Rightarrow> ('ev, 't, 'v, 'z) world_scheme \<Rightarrow> duration option" where
  "instant_elapsed t w = map_option (\<lambda>now. saturating_duration_since now t) (instant_now w)"

section \<open>Timeouts\<close>

datatype elapsed = Elapsed

text \<open>
  \<open>Timeout::poll\<close>, with the poll \<open>pf\<close> of the future inside and the poll of the sleep.
\<close>

definition timeout_poll ::
  "('w \<Rightarrow> 'a poll \<times> 'g \<times> 'w) \<Rightarrow> (sim_sleep \<Rightarrow> 'w \<Rightarrow> unit poll \<times> sim_sleep \<times> 'w) \<Rightarrow> sim_sleep \<Rightarrow> 'w
    \<Rightarrow> (elapsed + 'a) poll \<times> 'g \<times> sim_sleep \<times> 'w"
where
  "timeout_poll pf ps sl w =
     (case pf w of
        (Ready v, f, w) \<Rightarrow> (Ready (Inr v), f, sl, w)
      | (Pending, f, w) \<Rightarrow>
          (case ps sl w of
             (Ready _, sl, w) \<Rightarrow> (Ready (Inl Elapsed), f, sl, w)
           | (Pending, sl, w) \<Rightarrow> (Pending, f, sl, w)))"

text \<open>A result that is there wins against a deadline that has passed.\<close>

definition sleep_deadline :: "instant \<Rightarrow> sim_sleep \<Rightarrow> instant" where
  "sleep_deadline now sl =
     (case target_time sl of Some t \<Rightarrow> t | None \<Rightarrow> add_simtime now (from_duration (sl_duration sl)))"

lemma sleep_poll_deadline:
  assumes "current_time w = Some now"
  shows "fst (sleep_poll sl w) = (if sleep_deadline now sl \<le> now then Ready () else Pending)"
proof (cases "target_time sl")
  case None
  with assms show ?thesis by (simp add: sleep_poll_def sleep_deadline_def Let_def)
next
  case (Some t)
  with assms show ?thesis by (simp add: sleep_poll_def sleep_deadline_def)
qed

lemma timeout_poll_result:
  assumes "pf w = (p, f, w1)" "current_time w1 = Some now"
  shows "fst (timeout_poll pf sleep_poll sl w) =
    (case p of
       Ready v \<Rightarrow> Ready (Inr v)
     | Pending \<Rightarrow> if sleep_deadline now sl \<le> now then Ready (Inl Elapsed) else Pending)"
proof (cases p)
  case (Ready v)
  with assms(1) show ?thesis by (simp add: timeout_poll_def)
next
  case Pending
  obtain q sl' w2 where sp: "sleep_poll sl w1 = (q, sl', w2)" using prod_cases3 by blast
  with sleep_poll_deadline [OF assms(2), of sl]
  have "q = (if sleep_deadline now sl \<le> now then Ready () else Pending)" by simp
  with Pending assms(1) sp show ?thesis by (simp add: timeout_poll_def)
qed

section \<open>Intervals\<close>

datatype missed_tick_behavior = Burst | Delay | Skip

definition next_timeout :: "missed_tick_behavior \<Rightarrow> instant \<Rightarrow> instant \<Rightarrow> duration \<Rightarrow> instant option" where
  "next_timeout b due now period =
     (case b of
        Burst \<Rightarrow> Some (add_duration due period)
      | Delay \<Rightarrow> Some (add_duration now period)
      | Skip \<Rightarrow>
          (case (try_from_nat period :: u64 option) of
             None \<Rightarrow> None
           | Some period_nanos \<Rightarrow>
               (let delta_nanos = duration_since now due; rem = delta_nanos mod unat period_nanos
                in case (try_from_nat rem :: u64 option) of
                     None \<Rightarrow> None
                   | Some rem_u64 \<Rightarrow> Some (sub_duration (add_duration now period) (unat rem_u64)))))"

record tick_interval =
  iv_next :: instant
  iv_period :: duration
  iv_behavior :: missed_tick_behavior

definition interval_at :: "instant \<Rightarrow> duration \<Rightarrow> tick_interval option" where
  "interval_at start period =
     (if period = 0 then None
      else
        (case (try_from_nat period :: u64 option) of
           None \<Rightarrow> None
         | Some _ \<Rightarrow> Some \<lparr>iv_next = start, iv_period = period, iv_behavior = Burst\<rparr>))"

text \<open>
  \<open>tick\<close> waits until the next instant if that lies ahead; \<open>tick_finish\<close> is the part after the
  wait, at time \<open>now\<close>: it returns the instant the tick was due and moves on.
\<close>

definition tick_waits :: "instant \<Rightarrow> tick_interval \<Rightarrow> bool" where
  "tick_waits now iv \<longleftrightarrow> now < iv_next iv"

definition tick_finish :: "instant \<Rightarrow> tick_interval \<Rightarrow> (instant \<times> tick_interval) option" where
  "tick_finish now iv =
     (let due = iv_next iv
      in case (if due < now then next_timeout (iv_behavior iv) due now (iv_period iv)
               else Some (add_duration due (iv_period iv))) of
           None \<Rightarrow> None
         | Some n \<Rightarrow> Some (due, iv\<lparr>iv_next := n\<rparr>))"

definition set_missed_tick_behavior :: "missed_tick_behavior \<Rightarrow> tick_interval \<Rightarrow> tick_interval" where
  "set_missed_tick_behavior b iv = iv\<lparr>iv_behavior := b\<rparr>"

definition interval_reset :: "instant \<Rightarrow> tick_interval \<Rightarrow> tick_interval" where
  "interval_reset now iv = iv\<lparr>iv_next := add_duration now (iv_period iv)\<rparr>"

definition interval_reset_immediately :: "instant \<Rightarrow> tick_interval \<Rightarrow> tick_interval" where
  "interval_reset_immediately now iv = iv\<lparr>iv_next := now\<rparr>"

definition interval_reset_after :: "instant \<Rightarrow> duration \<Rightarrow> tick_interval \<Rightarrow> tick_interval" where
  "interval_reset_after now d iv = iv\<lparr>iv_next := add_duration now d\<rparr>"

definition interval_reset_at :: "instant \<Rightarrow> tick_interval \<Rightarrow> tick_interval" where
  "interval_reset_at deadline iv = iv\<lparr>iv_next := deadline\<rparr>"

text \<open>
  Ticks at the times \<open>nows\<close> at which the waits end: each at or after the instant it waits for.
\<close>

fun ticks :: "instant list \<Rightarrow> tick_interval \<Rightarrow> (instant list \<times> tick_interval) option" where
  "ticks [] iv = Some ([], iv)"
| "ticks (now # nows) iv =
     (if tick_waits now iv then None
      else
        (case tick_finish now iv of
           None \<Rightarrow> None
         | Some (t, iv) \<Rightarrow> map_option (\<lambda>(ts, iv). (t # ts, iv)) (ticks nows iv)))"

section \<open>When intervals tick\<close>

lemma as_duration_add:
  "as_duration t + d < 2 ^ 64 \<Longrightarrow> as_duration (add_duration t d) = as_duration t + d"
  by (simp add: as_duration_def add_duration_def try_from_nat_def sat_simps unat_of_nat)

lemma as_duration_sub: "d < 2 ^ 64 \<Longrightarrow> as_duration (sub_duration t d) = as_duration t - d"
  by (simp add: as_duration_def sub_duration_def try_from_nat_def sat_simps unat_of_nat)

lemma simtime_le_duration: "t \<le> u \<longleftrightarrow> as_duration t \<le> as_duration u"
  "t < u \<longleftrightarrow> as_duration t < as_duration u"
  by (simp_all add: as_duration_def simtime_order word_le_nat_alt word_less_nat_alt)

lemma duration_since_nat: "duration_since t u = as_duration t - as_duration u"
  by (simp add: duration_since_def as_duration_def sat_simps)

lemma next_multiple:
  fixes p t n :: nat
  assumes "0 < p" "t \<le> n"
  shows "n + p - (n - t) mod p = t + ((n - t) div p + 1) * p"
    and "n < t + ((n - t) div p + 1) * p" and "t + ((n - t) div p + 1) * p \<le> n + p"
proof -
  define q r where "q = (n - t) div p * p" and "r = (n - t) mod p"
  have "n - t = q + r" "r < p" using assms(1) by (simp_all add: q_def r_def)
  then have "n + p - r = t + (q + p)" "n < t + (q + p)" "t + (q + p) \<le> n + p" using assms(2) by linarith+
  then show "n + p - (n - t) mod p = t + ((n - t) div p + 1) * p"
    "n < t + ((n - t) div p + 1) * p" "t + ((n - t) div p + 1) * p \<le> n + p"
    by (simp_all add: q_def r_def)
qed

text \<open>The tick after one that was missed, for each behaviour.\<close>

lemma next_timeout_eq:
  assumes "0 < period" "as_duration due \<le> as_duration now" "as_duration now + period < 2 ^ 64"
  shows "\<exists>n. next_timeout b due now period = Some n \<and>
    as_duration n = (case b of
        Burst \<Rightarrow> as_duration due + period
      | Delay \<Rightarrow> as_duration now + period
      | Skip \<Rightarrow> as_duration due + ((as_duration now - as_duration due) div period + 1) * period)"
proof -
  let ?d = "as_duration now - as_duration due"
  have p: "(try_from_nat period :: u64 option) = Some (word_of_nat period)" "unat (word_of_nat period :: u64) = period"
    using assms(3) by (simp_all add: try_from_nat_def unat_of_nat)
  have r: "?d mod period < period" using assms(1) by simp
  then have r64: "?d mod period < 2 ^ 64" using assms(3) by linarith
  have rw: "(try_from_nat (?d mod period) :: u64 option) = Some (word_of_nat (?d mod period))"
    "unat (word_of_nat (?d mod period) :: u64) = ?d mod period"
    using r64 by (simp_all add: try_from_nat_def unat_of_nat)
  have "as_duration (sub_duration (add_duration now period) (?d mod period)) = as_duration now + period - ?d mod period"
    using as_duration_sub [OF r64] as_duration_add [OF assms(3)] by simp
  also have "\<dots> = as_duration due + (?d div period + 1) * period"
    by (rule next_multiple(1) [OF assms(1,2)])
  finally show ?thesis
    using p rw as_duration_add [OF assms(3)] assms as_duration_add [of due period]
    by (cases b) (auto simp: next_timeout_def duration_since_nat Let_def)
qed

lemma tick_finish_schedule:
  assumes "0 < iv_period iv" and "iv_next iv \<le> now" and "as_duration now + iv_period iv < 2 ^ 64"
  shows "\<exists>n. tick_finish now iv = Some (iv_next iv, iv\<lparr>iv_next := n\<rparr>) \<and>
    (case iv_behavior iv of
       Burst \<Rightarrow> as_duration n = as_duration (iv_next iv) + iv_period iv
     | Delay \<Rightarrow> as_duration n = as_duration now + iv_period iv
     | Skip \<Rightarrow> now < n \<and> as_duration n \<le> as_duration now + iv_period iv \<and>
         (\<exists>k>0. as_duration n = as_duration (iv_next iv) + k * iv_period iv))"
proof -
  let ?t = "as_duration (iv_next iv)" and ?p = "iv_period iv" and ?n = "as_duration now"
  have le: "?t \<le> ?n" using assms(2) by (simp add: simtime_le_duration)
  obtain n where n: "next_timeout (iv_behavior iv) (iv_next iv) now ?p = Some n"
    "as_duration n = (case iv_behavior iv of Burst \<Rightarrow> ?t + ?p | Delay \<Rightarrow> ?n + ?p
       | Skip \<Rightarrow> ?t + ((?n - ?t) div ?p + 1) * ?p)"
    using next_timeout_eq [OF assms(1) le assms(3)] by blast
  have skip: "?n < ?t + ((?n - ?t) div ?p + 1) * ?p" "?t + ((?n - ?t) div ?p + 1) * ?p \<le> ?n + ?p"
    by (rule next_multiple(2,3) [OF assms(1) le])+
  show ?thesis
  proof (cases "iv_next iv < now")
    case True
    with n skip show ?thesis
      by (intro exI [of _ n]) (auto simp: tick_finish_def simtime_le_duration split: missed_tick_behavior.splits)
  next
    case False
    with assms(2) have eq: "iv_next iv = now" by simp
    have a: "as_duration (add_duration now ?p) = ?n + ?p" using as_duration_add [OF assms(3)] .
    have "tick_finish now iv = Some (iv_next iv, iv\<lparr>iv_next := add_duration now ?p\<rparr>)"
      by (simp add: tick_finish_def eq)
    moreover have "\<exists>k>0. ?n + ?p = ?n + k * ?p" by (intro exI [of _ 1]) simp
    ultimately show ?thesis
      using assms(1) a eq by (auto simp: simtime_le_duration split: missed_tick_behavior.splits)
  qed
qed

text \<open>
  What each behaviour guarantees for a tick that ends at \<open>now\<close>, as long as the clock does
  not saturate: no panic, the instant returned is the one that was due, and the next one is a
  period later (\<open>Burst\<close>, or nothing missed), a period from now (\<open>Delay\<close>), or the first
  instant after now on the original schedule (\<open>Skip\<close>).
\<close>

theorem interval_tick_schedule:
  assumes "0 < iv_period iv" and "iv_next iv \<le> now" and "as_duration now + iv_period iv < 2 ^ 64"
  shows "\<exists>n. tick_finish now iv = Some (iv_next iv, iv\<lparr>iv_next := n\<rparr>) \<and>
    (case iv_behavior iv of
       Burst \<Rightarrow> as_duration n = as_duration (iv_next iv) + iv_period iv
     | Delay \<Rightarrow> as_duration n = as_duration now + iv_period iv
     | Skip \<Rightarrow> now < n \<and> as_duration n \<le> as_duration now + iv_period iv \<and>
         (\<exists>k>0. as_duration n = as_duration (iv_next iv) + k * iv_period iv))"
  by (rule tick_finish_schedule [OF assms])

text \<open>With the default behaviour ticks stay on the schedule, however late they are served.\<close>

theorem interval_burst_schedule:
  assumes "ticks nows iv = Some (ts, iv')" and "iv_behavior iv = Burst" "0 < iv_period iv"
    and "\<forall>now\<in>set nows. as_duration now + iv_period iv < 2 ^ 64"
  shows "map as_duration ts = map (\<lambda>j. as_duration (iv_next iv) + j * iv_period iv) [0..<length nows]"
  using assms
proof (induction nows arbitrary: iv ts)
  case (Cons now nows)
  have w: "iv_next iv \<le> now" using Cons.prems(1) by (auto simp: tick_waits_def split: if_splits)
  then obtain n where n: "tick_finish now iv = Some (iv_next iv, iv\<lparr>iv_next := n\<rparr>)"
    "as_duration n = as_duration (iv_next iv) + iv_period iv"
    using tick_finish_schedule [OF Cons.prems(3) w] Cons.prems(2,4) by auto
  with Cons.prems(1) obtain ts' where ts': "ts = iv_next iv # ts'" "ticks nows (iv\<lparr>iv_next := n\<rparr>) = Some (ts', iv')"
    by (auto split: if_splits)
  have "map as_duration ts' = map (\<lambda>j. as_duration n + j * iv_period iv) [0..<length nows]"
    using Cons.IH [OF ts'(2)] Cons.prems(2-4) by simp
  also have "\<dots> = map (\<lambda>j. as_duration (iv_next iv) + j * iv_period iv) [Suc 0..<Suc (length nows)]"
    by (simp add: n(2) map_Suc_upt [symmetric] comp_def algebra_simps del: upt_Suc)
  finally show ?case by (simp add: ts'(1) upt_conv_Cons del: upt_Suc)
qed simp

theorem interval_tick_schedule_witness:
  "\<exists>n. tick_finish (SimTime 37) \<lparr>iv_next = SimTime 10, iv_period = 10, iv_behavior = Skip\<rparr> =
     Some (SimTime 10, \<lparr>iv_next = n, iv_period = 10, iv_behavior = Skip\<rparr>) \<and> SimTime 37 < n"
proof -
  let ?iv = "\<lparr>iv_next = SimTime 10, iv_period = 10, iv_behavior = Skip\<rparr>"
  have "0 < iv_period ?iv" "iv_next ?iv \<le> SimTime 37" "as_duration (SimTime 37) + iv_period ?iv < 2 ^ 64"
    by (simp_all add: as_duration_def)
  from interval_tick_schedule [OF this] show ?thesis by auto
qed

end
