(* ===== verification/Tower.thy ===== *)
theory Tower
  imports Tokio_Time Http_Text Request "HOL-Library.Multiset"
begin

text \<open>
  \<open>des-tower\<close>: services and layers. The trait \<open>Service\<close> is a record of functions: a
  handle \<open>'s\<close> is polled for readiness and called, a call returns a future \<open>'f\<close>, futures are
  polled and dropped, handles are cloned. What handles and futures share through \<open>Arc\<close>, with
  the simulation, is a world \<open>'x\<close>; a layer with shared state of its own adds a component to
  it. A layer is then a function from services to services, and layers compose as in the
  program. The locale \<open>service_contract\<close> states what it takes for an invariant over all
  handles, futures and the world to survive every use of a service; the layers pass it on.
  This theory has the errors, the conversion of responses, and the layers for timeouts, hedging
  and rate limits.
\<close>

section \<open>Errors and responses\<close>

datatype service_error =
    NotReady
  | Cancelled
  | Overloaded
  | Timeout duration
  | Internal str
  | Http str
  | CircuitBreakerInvalidState
  | RateLimiterInvalidState
  | HttpResponseBuilder str

record tower_response =
  tr_status :: "16 word"
  tr_body :: "byte list"

text \<open>
  \<open>from_u16\<close> is \<open>StatusCode::from_u16\<close> of the crate \<open>http\<close>. Building a response from a
  valid status and a body does not fail.
\<close>

definition response_to_http :: "(16 word \<Rightarrow> 16 word option) \<Rightarrow> response \<Rightarrow> tower_response" where
  "response_to_http from_u16 r =
     (case rs_status r of
        RespOk \<Rightarrow>
          \<lparr>tr_status = 200, tr_body = (if rs_payload r = [] then lit ''OK'' else rs_payload r)\<rparr>
      | RespError code message \<Rightarrow>
          \<lparr>tr_status = (case from_u16 (ucast code) of Some s \<Rightarrow> s | None \<Rightarrow> 500), tr_body = lit message\<rparr>)"

section \<open>Services\<close>

record ('k, 's, 'x, 'q, 'f, 'r) service_code =
  poll_ready :: "'k \<Rightarrow> 's \<Rightarrow> 'x \<Rightarrow> (service_error + unit) poll \<times> 's \<times> 'x"
  call_service :: "'q \<Rightarrow> 's \<Rightarrow> 'x \<Rightarrow> 'f \<times> 's \<times> 'x"
  poll_future :: "'k \<Rightarrow> 'f \<Rightarrow> 'x \<Rightarrow> (service_error + 'r) poll \<times> 'f \<times> 'x"
  drop_future :: "'f \<Rightarrow> 'x \<Rightarrow> 'x"
  clone_service :: "'s \<Rightarrow> 's"

text \<open>What layers use of the simulation: its clock, wakers, and sleeping.\<close>

record ('k, 'x) sim_env =
  env_time :: "'x \<Rightarrow> simtime option"
  env_wake :: "'k \<Rightarrow> 'x \<Rightarrow> 'x"
  env_sleep :: "sim_sleep \<Rightarrow> 'x \<Rightarrow> unit poll \<times> sim_sleep \<times> 'x"
  env_sleep_drop :: "sim_sleep \<Rightarrow> 'x \<Rightarrow> 'x"

text \<open>The simulation below the state \<open>'m\<close> of a layer.\<close>

definition lift_env :: "('k, 'x) sim_env \<Rightarrow> ('k, 'm \<times> 'x) sim_env" where
  "lift_env E =
     \<lparr>env_time = (\<lambda>(m, x). env_time E x),
      env_wake = (\<lambda>k (m, x). (m, env_wake E k x)),
      env_sleep = (\<lambda>sl (m, x). let (p, sl, x) = env_sleep E sl x in (p, sl, (m, x))),
      env_sleep_drop = (\<lambda>sl (m, x). (m, env_sleep_drop E sl x))\<rparr>"

definition wake_wakers :: "('k, 'x) sim_env \<Rightarrow> 'k list \<Rightarrow> 'x \<Rightarrow> 'x" where
  "wake_wakers E ks x = fold (env_wake E) ks x"

subsection \<open>Invariants of services\<close>

text \<open>
  \<open>I H F x\<close> is an invariant over all live handles \<open>H\<close>, all live futures \<open>F\<close> and the
  world.
\<close>

locale env_contract =
  fixes E :: "('k, 'x) sim_env" and I :: "'s multiset \<Rightarrow> 'f multiset \<Rightarrow> 'x \<Rightarrow> bool"
  assumes wake_inv: "I H F x \<Longrightarrow> I H F (env_wake E k x)"
    and sleep_inv: "I H F x \<Longrightarrow> env_sleep E sl x = (p, sl', x') \<Longrightarrow> I H F x'"
    and sleep_drop_inv: "I H F x \<Longrightarrow> I H F (env_sleep_drop E sl x)"
begin

lemma wake_wakers_inv: "I H F x \<Longrightarrow> I H F (wake_wakers E ks x)"
  unfolding wake_wakers_def by (induction ks arbitrary: x) (auto intro: wake_inv)

end

locale service_contract = env_contract E I
  for E :: "('k, 'x) sim_env" and I :: "'s multiset \<Rightarrow> 'f multiset \<Rightarrow> 'x \<Rightarrow> bool" +
  fixes C :: "('k, 's, 'x, 'q, 'f, 'r) service_code"
  assumes ready_inv: "I (add_mset s H) F x \<Longrightarrow> poll_ready C k s x = (p, s', x') \<Longrightarrow> I (add_mset s' H) F x'"
    and call_inv: "I (add_mset s H) F x \<Longrightarrow> call_service C q s x = (f, s', x') \<Longrightarrow> I (add_mset s' H) (add_mset f F) x'"
    and poll_inv: "I H (add_mset f F) x \<Longrightarrow> poll_future C k f x = (p', f', x') \<Longrightarrow> I H (add_mset f' F) x'"
    and drop_inv: "I H (add_mset f F) x \<Longrightarrow> I H F (drop_future C f x)"
    and clone_inv: "I (add_mset s H) F x \<Longrightarrow> I (add_mset (clone_service C s) (add_mset s H)) F x"
    and drop_handle_inv: "I (add_mset s H) F x \<Longrightarrow> I H F x"

text \<open>
  Everything a program can do with a service: clients hold any number of handles and futures
  and use them in any order, and the simulation goes on meanwhile (the parameter \<open>other\<close>).
\<close>

inductive service_run ::
  "('k, 's, 'x, 'q, 'f, 'r) service_code \<Rightarrow> ('x \<Rightarrow> 'x \<Rightarrow> bool) \<Rightarrow> 's multiset \<times> 'f multiset \<times> 'x
    \<Rightarrow> 's multiset \<times> 'f multiset \<times> 'x \<Rightarrow> bool"
  for C :: "('k, 's, 'x, 'q, 'f, 'r) service_code" and other and start
where
  run_start: "service_run C other start start"
| run_ready: "service_run C other start (add_mset s H, F, x) \<Longrightarrow> poll_ready C k s x = (p, s', x') \<Longrightarrow>
    service_run C other start (add_mset s' H, F, x')"
| run_call: "service_run C other start (add_mset s H, F, x) \<Longrightarrow> call_service C q s x = (f, s', x') \<Longrightarrow>
    service_run C other start (add_mset s' H, add_mset f F, x')"
| run_poll: "service_run C other start (H, add_mset f F, x) \<Longrightarrow> poll_future C k f x = (p', f', x') \<Longrightarrow>
    service_run C other start (H, add_mset f' F, x')"
| run_drop: "service_run C other start (H, add_mset f F, x) \<Longrightarrow>
    service_run C other start (H, F, drop_future C f x)"
| run_clone: "service_run C other start (add_mset s H, F, x) \<Longrightarrow>
    service_run C other start (add_mset (clone_service C s) (add_mset s H), F, x)"
| run_drop_handle: "service_run C other start (add_mset s H, F, x) \<Longrightarrow> service_run C other start (H, F, x)"
| run_other: "service_run C other start (H, F, x) \<Longrightarrow> other x x' \<Longrightarrow> service_run C other start (H, F, x')"

context service_contract
begin

lemma run_inv:
  assumes "service_run C other (H, F, x) (H', F', x')" "I H F x"
    and "\<And>H F x x'. I H F x \<Longrightarrow> other x x' \<Longrightarrow> I H F x'"
  shows "I H' F' x'"
  using assms(1,2)
proof (induction "(H', F', x')" arbitrary: H' F' x' rule: service_run.induct)
  case (run_other H F x x')
  then show ?case using assms(3) by blast
qed (auto intro: ready_inv call_inv poll_inv drop_inv clone_inv drop_handle_inv)

end

text \<open>The futures inside those futures of a layer that have one.\<close>

definition somes :: "'a option multiset \<Rightarrow> 'a multiset" where
  "somes M = image_mset the (filter_mset (\<lambda>z. z \<noteq> None) M)"

lemma somes_simps [simp]:
  "somes {#} = {#}" "somes (add_mset None M) = somes M" "somes (add_mset (Some z) M) = add_mset z (somes M)"
  by (simp_all add: somes_def)

definition drop_inner :: "('k, 's, 'x, 'q, 'f, 'r) service_code \<Rightarrow> 'f option \<Rightarrow> 'x \<Rightarrow> 'x" where
  "drop_inner C i x = (case i of Some f \<Rightarrow> drop_future C f x | None \<Rightarrow> x)"

lemmas lift_env_defs = lift_env_def Let_def

context service_contract
begin

lemmas contract_intros = wake_inv sleep_inv sleep_drop_inv ready_inv call_inv poll_inv drop_inv clone_inv drop_handle_inv

lemma drop_inner_inv: "I H (somes (add_mset i F)) x \<Longrightarrow> I H (somes F) (drop_inner C i x)"
  by (cases i) (auto simp: drop_inner_def intro: drop_inv)

end

text \<open>Without claims about the service inside, every service satisfies the contract.\<close>

lemma any_service: "service_contract E (\<lambda>H F x. True) C"
  by unfold_locales simp_all

text \<open>A service that answers at once, for the examples.\<close>

definition idle_env :: "(nat, unit) sim_env" where
  "idle_env =
     \<lparr>env_time = (\<lambda>x. None), env_wake = (\<lambda>k x. x), env_sleep = (\<lambda>sl x. (Pending, sl, x)), env_sleep_drop = (\<lambda>sl x. x)\<rparr>"

definition idle_service :: "(nat, unit, unit, unit, unit, unit) service_code" where
  "idle_service =
     \<lparr>poll_ready = (\<lambda>k s x. (Ready (Inr ()), s, x)), call_service = (\<lambda>q s x. ((), s, x)),
      poll_future = (\<lambda>k f x. (Ready (Inr ()), f, x)), drop_future = (\<lambda>f x. x), clone_service = id\<rparr>"

lemmas idle_defs = idle_env_def idle_service_def

section \<open>Timeout\<close>

record 's des_timeout =
  to_inner :: 's
  to_timeout :: duration

record 'f timeout_future =
  tf_timeout :: duration
  tf_inner :: 'f
  tf_sleep :: sim_sleep

definition timeout_ready ::
  "('k, 's, 'x, 'q, 'f, 'r) service_code \<Rightarrow> 'k \<Rightarrow> 's des_timeout \<Rightarrow> 'x
    \<Rightarrow> (service_error + unit) poll \<times> 's des_timeout \<times> 'x"
where
  "timeout_ready C k s x = (let (p, i, x) = poll_ready C k (to_inner s) x in (p, s\<lparr>to_inner := i\<rparr>, x))"

definition timeout_call ::
  "('k, 's, 'x, 'q, 'f, 'r) service_code \<Rightarrow> 'q \<Rightarrow> 's des_timeout \<Rightarrow> 'x
    \<Rightarrow> 'f timeout_future \<times> 's des_timeout \<times> 'x"
where
  "timeout_call C q s x =
     (let (f, i, x) = call_service C q (to_inner s) x
      in (\<lparr>tf_timeout = to_timeout s, tf_inner = f, tf_sleep = sim_sleep_new (to_timeout s)\<rparr>, s\<lparr>to_inner := i\<rparr>, x))"

definition timeout_future_poll ::
  "('k, 'x) sim_env \<Rightarrow> ('k, 's, 'x, 'q, 'f, 'r) service_code \<Rightarrow> 'k \<Rightarrow> 'f timeout_future \<Rightarrow> 'x
    \<Rightarrow> (service_error + 'r) poll \<times> 'f timeout_future \<times> 'x"
where
  "timeout_future_poll E C k f x =
     (let (p, i, sl, x) = timeout_poll (poll_future C k (tf_inner f)) (env_sleep E) (tf_sleep f) x;
          f = f\<lparr>tf_inner := i, tf_sleep := sl\<rparr>
      in case p of
           Ready (Inr v) \<Rightarrow> (Ready v, f, x)
         | Ready (Inl _) \<Rightarrow> (Ready (Inl (Timeout (tf_timeout f))), f, x)
         | Pending \<Rightarrow> (Pending, f, x))"

definition timeout_service ::
  "('k, 'x) sim_env \<Rightarrow> ('k, 's, 'x, 'q, 'f, 'r) service_code
    \<Rightarrow> ('k, 's des_timeout, 'x, 'q, 'f timeout_future, 'r) service_code"
where
  "timeout_service E C =
     \<lparr>poll_ready = timeout_ready C, call_service = timeout_call C, poll_future = timeout_future_poll E C,
      drop_future = (\<lambda>f x. env_sleep_drop E (tf_sleep f) (drop_future C (tf_inner f) x)),
      clone_service = (\<lambda>s. s\<lparr>to_inner := clone_service C (to_inner s)\<rparr>)\<rparr>"

lemma timeout_service_simps [simp]:
  "poll_ready (timeout_service E C) = timeout_ready C"
  "call_service (timeout_service E C) = timeout_call C"
  "poll_future (timeout_service E C) = timeout_future_poll E C"
  "drop_future (timeout_service E C) f x = env_sleep_drop E (tf_sleep f) (drop_future C (tf_inner f) x)"
  "clone_service (timeout_service E C) s = s\<lparr>to_inner := clone_service C (to_inner s)\<rparr>"
  by (simp_all add: timeout_service_def)

definition timeout_inv ::
  "('s multiset \<Rightarrow> 'f multiset \<Rightarrow> 'x \<Rightarrow> bool) \<Rightarrow> 's des_timeout multiset \<Rightarrow> 'f timeout_future multiset \<Rightarrow> 'x \<Rightarrow> bool"
where
  "timeout_inv I H F x \<longleftrightarrow> I (image_mset to_inner H) (image_mset tf_inner F) x"

lemma timeout_poll_cases:
  assumes "timeout_poll pf ps sl w = (p, f, sl', w')"
  obtains q w1 where "pf w = (q, f, w1)" "w' = w1 \<or> (\<exists>p'. ps sl w1 = (p', sl', w'))"
  using assms by (auto simp: timeout_poll_def split: prod.splits poll.splits)

context service_contract
begin

lemma timeout_layer: "service_contract E (timeout_inv I) (timeout_service E C)"
proof
  fix H F x k f p' f' x'
  assume I: "timeout_inv I H (add_mset f F) x"
    and "poll_future (timeout_service E C) k f x = (p', f', x')"
  then obtain p i sl where "timeout_poll (poll_future C k (tf_inner f)) (env_sleep E) (tf_sleep f) x = (p, i, sl, x')"
    and f': "tf_inner f' = i"
    by (auto simp: timeout_future_poll_def Let_def split: prod.splits poll.splits sum.splits)
  then obtain q x1 where "poll_future C k (tf_inner f) x = (q, i, x1)"
    and x1: "x' = x1 \<or> (\<exists>p'. env_sleep E (tf_sleep f) x1 = (p', sl, x'))"
    by (elim timeout_poll_cases)
  with I have "I (image_mset to_inner H) (add_mset i (image_mset tf_inner F)) x1"
    by (auto simp: timeout_inv_def intro: poll_inv)
  with x1 show "timeout_inv I H (add_mset f' F) x'"
    by (auto simp: timeout_inv_def f' intro: sleep_inv)
next
  fix s H F x k p s' x'
  assume "timeout_inv I (add_mset s H) F x" "poll_ready (timeout_service E C) k s x = (p, s', x')"
  then show "timeout_inv I (add_mset s' H) F x'"
    by (auto simp: timeout_inv_def timeout_ready_def split: prod.splits intro: ready_inv)
next
  fix s H F x q f s' x'
  assume "timeout_inv I (add_mset s H) F x" "call_service (timeout_service E C) q s x = (f, s', x')"
  then show "timeout_inv I (add_mset s' H) (add_mset f F) x'"
    by (auto simp: timeout_inv_def timeout_call_def split: prod.splits intro: call_inv)
qed (auto simp: timeout_inv_def intro: wake_inv sleep_inv sleep_drop_inv drop_inv clone_inv drop_handle_inv)

end

section \<open>Hedging\<close>

text \<open>The layer keeps its settings and forwards the request.\<close>

record 's des_hedge =
  hd_inner :: 's
  hedge_delay :: duration
  max_hedged_requests :: nat

record 'f hedge_future =
  hf_primary :: 'f
  hf_delay :: duration
  hf_max :: nat

definition hedge_ready ::
  "('k, 's, 'x, 'q, 'f, 'r) service_code \<Rightarrow> 'k \<Rightarrow> 's des_hedge \<Rightarrow> 'x
    \<Rightarrow> (service_error + unit) poll \<times> 's des_hedge \<times> 'x"
where
  "hedge_ready C k s x = (let (p, i, x) = poll_ready C k (hd_inner s) x in (p, s\<lparr>hd_inner := i\<rparr>, x))"

definition hedge_call ::
  "('k, 's, 'x, 'q, 'f, 'r) service_code \<Rightarrow> 'q \<Rightarrow> 's des_hedge \<Rightarrow> 'x \<Rightarrow> 'f hedge_future \<times> 's des_hedge \<times> 'x"
where
  "hedge_call C q s x =
     (let (f, i, x) = call_service C q (hd_inner s) x
      in (\<lparr>hf_primary = f, hf_delay = hedge_delay s, hf_max = max_hedged_requests s\<rparr>, s\<lparr>hd_inner := i\<rparr>, x))"

definition hedge_future_poll ::
  "('k, 's, 'x, 'q, 'f, 'r) service_code \<Rightarrow> 'k \<Rightarrow> 'f hedge_future \<Rightarrow> 'x
    \<Rightarrow> (service_error + 'r) poll \<times> 'f hedge_future \<times> 'x"
where
  "hedge_future_poll C k f x = (let (p, i, x) = poll_future C k (hf_primary f) x in (p, f\<lparr>hf_primary := i\<rparr>, x))"

definition hedge_service ::
  "('k, 's, 'x, 'q, 'f, 'r) service_code \<Rightarrow> ('k, 's des_hedge, 'x, 'q, 'f hedge_future, 'r) service_code"
where
  "hedge_service C =
     \<lparr>poll_ready = hedge_ready C, call_service = hedge_call C, poll_future = hedge_future_poll C,
      drop_future = (\<lambda>f x. drop_future C (hf_primary f) x),
      clone_service = (\<lambda>s. s\<lparr>hd_inner := clone_service C (hd_inner s)\<rparr>)\<rparr>"

text \<open>A hedged service does what the service inside does: no second request is ever sent.\<close>

lemma hedge_transparent:
  "poll_ready (hedge_service C) k s x =
     (case poll_ready C k (hd_inner s) x of (p, i, x) \<Rightarrow> (p, s\<lparr>hd_inner := i\<rparr>, x))"
  "map_prod hf_primary id (call_service (hedge_service C) q s x) =
     (case call_service C q (hd_inner s) x of (f, i, x) \<Rightarrow> (f, s\<lparr>hd_inner := i\<rparr>, x))"
  "map_prod id (map_prod hf_primary id) (poll_future (hedge_service C) k f x) = poll_future C k (hf_primary f) x"
  by (simp_all add: hedge_service_def hedge_ready_def hedge_call_def hedge_future_poll_def split: prod.splits)

context service_contract
begin

lemma hedge_layer:
  "service_contract E (\<lambda>H F. I (image_mset hd_inner H) (image_mset hf_primary F)) (hedge_service C)"
  by unfold_locales
    (auto simp: hedge_service_def hedge_ready_def hedge_call_def hedge_future_poll_def split: prod.splits
      intro: wake_inv sleep_inv sleep_drop_inv ready_inv call_inv poll_inv drop_inv clone_inv drop_handle_inv)

end

end
