(* ===== verification/Circuit_Breaker.thy ===== *)
theory Circuit_Breaker
  imports Tower
begin

text \<open>
  \<open>des-tower/src/tower/circuit_breaker\<close>: a layer that rejects requests after a number of
  consecutive failures. The state is shared by the handles, the futures and the recovery tasks
  they spawn; a recovery task sleeps and then half-opens the breaker if the generation it was
  spawned for is still open.
\<close>

section \<open>State\<close>

datatype circuit_breaker_state = Closed nat | Open u64 | HalfOpen

record 's circuit_breaker =
  cb_inner :: 's
  cb_failure_threshold :: nat
  cb_recovery_timeout :: duration

record 'f circuit_future =
  cf_inner :: "'f option"
  cf_failure_threshold :: nat
  cf_recovery_timeout :: duration
  cf_immediate_error :: "service_error option"

text \<open>A spawned recovery task, before or during its sleep.\<close>

record recovery =
  rc_sleep :: sim_sleep
  rc_generation :: u64

text \<open>What is shared: the state of the breaker, and the recovery tasks on the runtime.\<close>

record circuit =
  cb_state :: circuit_breaker_state
  cb_recoveries :: "recovery list"

definition circuit_breaker_new :: "'s \<Rightarrow> nat \<Rightarrow> duration \<Rightarrow> 's circuit_breaker \<times> circuit" where
  "circuit_breaker_new svc threshold d =
     (\<lparr>cb_inner = svc, cb_failure_threshold = threshold, cb_recovery_timeout = d\<rparr>,
      \<lparr>cb_state = Closed 0, cb_recoveries = []\<rparr>)"

definition should_allow_request :: "circuit \<Rightarrow> bool" where
  "should_allow_request m = (case cb_state m of Closed _ \<Rightarrow> True | HalfOpen \<Rightarrow> True | Open _ \<Rightarrow> False)"

section \<open>Results of requests\<close>

text \<open>
  The new state after a failure, and the generation to schedule a recovery for. The inner match
  on an open state is that of the source.
\<close>

definition record_failure :: "nat \<Rightarrow> circuit_breaker_state \<Rightarrow> circuit_breaker_state \<times> u64 option" where
  "record_failure threshold st =
     (case st of
        Closed failure_count \<Rightarrow>
          (let new_count = failure_count + 1
           in if threshold \<le> new_count
              then (let generation = (case st of Open g \<Rightarrow> g + 1 | _ \<Rightarrow> 1) in (Open generation, Some generation))
              else (Closed new_count, None))
      | HalfOpen \<Rightarrow> (Open 1, Some 1)
      | Open g \<Rightarrow> (Open g, None))"

definition spawn_recovery :: "duration \<Rightarrow> u64 option \<Rightarrow> circuit \<Rightarrow> circuit" where
  "spawn_recovery d to_schedule m =
     (case to_schedule of
        Some g \<Rightarrow> m\<lparr>cb_recoveries := cb_recoveries m @ [\<lparr>rc_sleep = sim_sleep_new d, rc_generation = g\<rparr>]\<rparr>
      | None \<Rightarrow> m)"

definition record_result :: "nat \<Rightarrow> duration \<Rightarrow> bool \<Rightarrow> circuit \<Rightarrow> circuit" where
  "record_result threshold d success m =
     (if success then m\<lparr>cb_state := Closed 0\<rparr>
      else (let (st, to_schedule) = record_failure threshold (cb_state m)
            in spawn_recovery d to_schedule (m\<lparr>cb_state := st\<rparr>)))"

text \<open>One poll of the \<open>i\<close>-th recovery task; when its sleep is over the task ends.\<close>

definition finish_recovery :: "u64 \<Rightarrow> circuit_breaker_state \<Rightarrow> circuit_breaker_state" where
  "finish_recovery generation st = (case st of Open g \<Rightarrow> if g = generation then HalfOpen else st | _ \<Rightarrow> st)"

definition recovery_poll :: "('k, 'x) sim_env \<Rightarrow> nat \<Rightarrow> circuit \<times> 'x \<Rightarrow> circuit \<times> 'x" where
  "recovery_poll E i = (\<lambda>(m, x).
     let r = cb_recoveries m ! i; (p, sl, x) = env_sleep E (rc_sleep r) x
     in case p of
          Ready _ \<Rightarrow>
            (m\<lparr>cb_state := finish_recovery (rc_generation r) (cb_state m),
               cb_recoveries := take i (cb_recoveries m) @ drop (Suc i) (cb_recoveries m)\<rparr>, x)
        | Pending \<Rightarrow> (m\<lparr>cb_recoveries := (cb_recoveries m)[i := r\<lparr>rc_sleep := sl\<rparr>]\<rparr>, x))"

section \<open>The service\<close>

definition circuit_ready ::
  "('k, 's, 'x, 'q, 'f, 'r) service_code \<Rightarrow> 'k \<Rightarrow> 's circuit_breaker \<Rightarrow> circuit \<times> 'x
    \<Rightarrow> (service_error + unit) poll \<times> 's circuit_breaker \<times> circuit \<times> 'x"
where
  "circuit_ready C k s = (\<lambda>(m, x).
     if \<not> should_allow_request m then (Ready (Inl Overloaded), s, m, x)
     else (let (p, i, x) = poll_ready C k (cb_inner s) x in (p, s\<lparr>cb_inner := i\<rparr>, m, x)))"

definition circuit_call ::
  "('k, 's, 'x, 'q, 'f, 'r) service_code \<Rightarrow> 'q \<Rightarrow> 's circuit_breaker \<Rightarrow> circuit \<times> 'x
    \<Rightarrow> 'f circuit_future \<times> 's circuit_breaker \<times> circuit \<times> 'x"
where
  "circuit_call C q s = (\<lambda>(m, x).
     if \<not> should_allow_request m
     then (\<lparr>cf_inner = None, cf_failure_threshold = cb_failure_threshold s,
            cf_recovery_timeout = cb_recovery_timeout s, cf_immediate_error = Some Overloaded\<rparr>, s, m, x)
     else
       (let (f, i, x) = call_service C q (cb_inner s) x
        in (\<lparr>cf_inner = Some f, cf_failure_threshold = cb_failure_threshold s,
             cf_recovery_timeout = cb_recovery_timeout s, cf_immediate_error = None\<rparr>, s\<lparr>cb_inner := i\<rparr>, m, x)))"

definition circuit_future_poll ::
  "('k, 's, 'x, 'q, 'f, 'r) service_code \<Rightarrow> 'k \<Rightarrow> 'f circuit_future \<Rightarrow> circuit \<times> 'x
    \<Rightarrow> (service_error + 'r) poll \<times> 'f circuit_future \<times> circuit \<times> 'x"
where
  "circuit_future_poll C k f = (\<lambda>(m, x).
     case cf_immediate_error f of
       Some e \<Rightarrow> (Ready (Inl e), f\<lparr>cf_immediate_error := None\<rparr>, m, x)
     | None \<Rightarrow>
         (case cf_inner f of
            None \<Rightarrow> (Ready (Inl CircuitBreakerInvalidState), f, m, x)
          | Some i \<Rightarrow>
              (let (p, i, x) = poll_future C k i x; f = f\<lparr>cf_inner := Some i\<rparr>
               in case p of
                    Ready (Inr r) \<Rightarrow>
                      (Ready (Inr r), f, record_result (cf_failure_threshold f) (cf_recovery_timeout f) True m, x)
                  | Ready (Inl e) \<Rightarrow>
                      (Ready (Inl e), f, record_result (cf_failure_threshold f) (cf_recovery_timeout f) False m, x)
                  | Pending \<Rightarrow> (Pending, f, m, x))))"

definition circuit_service ::
  "('k, 's, 'x, 'q, 'f, 'r) service_code
    \<Rightarrow> ('k, 's circuit_breaker, circuit \<times> 'x, 'q, 'f circuit_future, 'r) service_code"
where
  "circuit_service C =
     \<lparr>poll_ready = circuit_ready C, call_service = circuit_call C, poll_future = circuit_future_poll C,
      drop_future = (\<lambda>f (m, x). (m, drop_inner C (cf_inner f) x)),
      clone_service = (\<lambda>s. s\<lparr>cb_inner := clone_service C (cb_inner s)\<rparr>)\<rparr>"

lemma circuit_service_simps [simp]:
  "poll_ready (circuit_service C) = circuit_ready C"
  "call_service (circuit_service C) = circuit_call C"
  "poll_future (circuit_service C) = circuit_future_poll C"
  "drop_future (circuit_service C) f (m, x) = (m, drop_inner C (cf_inner f) x)"
  "clone_service (circuit_service C) s = s\<lparr>cb_inner := clone_service C (cb_inner s)\<rparr>"
  by (simp_all add: circuit_service_def)

section \<open>Invariant\<close>

text \<open>
  An open breaker has generation one, as have all recovery tasks, and there is one of them: the
  breaker does not stay open for want of a task to half-open it.
\<close>

definition circuit_ok :: "circuit \<Rightarrow> bool" where
  "circuit_ok m \<longleftrightarrow>
     (\<forall>r\<in>set (cb_recoveries m). rc_generation r = 1) \<and>
     (\<forall>g. cb_state m = Open g \<longrightarrow> g = 1 \<and> cb_recoveries m \<noteq> [])"

definition circuit_inv ::
  "('s multiset \<Rightarrow> 'f multiset \<Rightarrow> 'x \<Rightarrow> bool) \<Rightarrow> 's circuit_breaker multiset \<Rightarrow> 'f circuit_future multiset
    \<Rightarrow> circuit \<times> 'x \<Rightarrow> bool"
where
  "circuit_inv I H F = (\<lambda>(m, x).
     circuit_ok m \<and> I (image_mset cb_inner H) (somes (image_mset cf_inner F)) x)"

lemma record_result_ok: "circuit_ok m \<Longrightarrow> circuit_ok (record_result threshold d success m)"
  by (auto simp: circuit_ok_def record_result_def record_failure_def spawn_recovery_def Let_def
      split: circuit_breaker_state.splits)

lemma recovery_poll_ok:
  assumes "circuit_ok m" "i < length (cb_recoveries m)" "recovery_poll E i (m, x) = (m', x')"
  shows "circuit_ok m'"
proof -
  obtain p sl x1 where sl: "env_sleep E (rc_sleep (cb_recoveries m ! i)) x = (p, sl, x1)" using prod_cases3 by blast
  from assms(1,2) have g: "rc_generation (cb_recoveries m ! i) = 1" by (simp add: circuit_ok_def)
  show ?thesis
  proof (cases p)
    case Pending
    with assms sl g show ?thesis
      by (auto simp: recovery_poll_def circuit_ok_def dest!: set_update_subset_insert [THEN subsetD])
  next
    case (Ready u)
    with assms sl g show ?thesis
      by (auto simp: recovery_poll_def circuit_ok_def finish_recovery_def
          dest!: in_set_takeD in_set_dropD split: circuit_breaker_state.splits)
  qed
qed

context service_contract
begin

lemma circuit_layer: "service_contract (lift_env E) (circuit_inv I) (circuit_service C)"
  by unfold_locales
    (auto simp: circuit_inv_def circuit_ready_def circuit_call_def circuit_future_poll_def lift_env_defs
      split: prod.splits option.splits poll.splits sum.splits if_splits
      intro: contract_intros drop_inner_inv record_result_ok)

end

section \<open>Properties\<close>

text \<open>
  The events of a history that matter for the state: a future gets the answer of the service inside,
  a success or not, and a recovery task ends.
\<close>

datatype circuit_event = Answered bool | Recovered

definition poll_events :: "'f circuit_future \<Rightarrow> (service_error + 'r) poll \<Rightarrow> circuit_event list" where
  "poll_events f p =
     (if cf_immediate_error f = None \<and> cf_inner f \<noteq> None
      then (case p of Ready (Inr _) \<Rightarrow> [Answered True] | Ready (Inl _) \<Rightarrow> [Answered False] | Pending \<Rightarrow> []) else [])"

definition recovery_events :: "('k, 'x) sim_env \<Rightarrow> nat \<Rightarrow> circuit \<times> 'x \<Rightarrow> circuit_event list" where
  "recovery_events E i = (\<lambda>(m, x).
     if fst (env_sleep E (rc_sleep (cb_recoveries m ! i)) x) = Ready () then [Recovered] else [])"

text \<open>
  The histories of a breaker with a given threshold: handles and futures are used in any order, the
  recovery tasks are polled, and the rest of the world goes on.
\<close>

inductive circuit_history ::
  "('k, 's, 'x, 'q, 'f, 'r) service_code \<Rightarrow> ('k, 'x) sim_env \<Rightarrow> ('x \<Rightarrow> 'x \<Rightarrow> bool) \<Rightarrow> nat
    \<Rightarrow> circuit_event list \<Rightarrow> circuit \<times> 'x \<Rightarrow> bool"
  for C :: "('k, 's, 'x, 'q, 'f, 'r) service_code" and E other threshold
where
  history_start: "circuit_history C E other threshold [] (\<lparr>cb_state = Closed 0, cb_recoveries = []\<rparr>, x)"
| history_ready: "circuit_history C E other threshold es y \<Longrightarrow> circuit_ready C k s y = (p, s', y') \<Longrightarrow>
    circuit_history C E other threshold es y'"
| history_call: "circuit_history C E other threshold es y \<Longrightarrow> circuit_call C q s y = (f, s', y') \<Longrightarrow>
    circuit_history C E other threshold es y'"
| history_poll: "circuit_history C E other threshold es y \<Longrightarrow> cf_failure_threshold f = threshold \<Longrightarrow>
    circuit_future_poll C k f y = (p, f', y') \<Longrightarrow> circuit_history C E other threshold (es @ poll_events f p) y'"
| history_drop: "circuit_history C E other threshold es y \<Longrightarrow>
    circuit_history C E other threshold es (service_code.drop_future (circuit_service C) f y)"
| history_recovery: "circuit_history C E other threshold es y \<Longrightarrow> i < length (cb_recoveries (fst y)) \<Longrightarrow>
    circuit_history C E other threshold (es @ recovery_events E i y) (recovery_poll E i y)"
| history_other: "circuit_history C E other threshold es (m, x) \<Longrightarrow> other x x' \<Longrightarrow>
    circuit_history C E other threshold es (m, x')"

text \<open>What happened since the last success, and how many failures that were.\<close>

definition since_success :: "circuit_event list \<Rightarrow> circuit_event list" where
  "since_success es = rev (takeWhile (\<lambda>e. e \<noteq> Answered True) (rev es))"

definition failures :: "circuit_event list \<Rightarrow> nat" where
  "failures es = count_list (since_success es) (Answered False)"

lemma since_success_simps [simp]:
  "since_success [] = []" "since_success (es @ [e]) = (if e = Answered True then [] else since_success es @ [e])"
  by (simp_all add: since_success_def)

lemma failures_simps [simp]:
  "failures [] = 0"
  "failures (es @ [e]) = (if e = Answered True then 0 else failures es + (if e = Answered False then 1 else 0))"
  by (simp_all add: failures_def)

definition state_after :: "nat \<Rightarrow> circuit_event list \<Rightarrow> circuit_breaker_state" where
  "state_after threshold es =
     (if failures es < max 1 threshold then Closed (failures es)
      else if last (since_success es) = Recovered then HalfOpen else Open 1)"

lemma cb_state_spawn [simp]: "cb_state (spawn_recovery d g m) = cb_state m"
  by (simp add: spawn_recovery_def split: option.splits)

lemma record_result_state:
  assumes "cb_state m = state_after threshold es"
  shows "cb_state (record_result threshold d success m) = state_after threshold (es @ [Answered success])"
proof (cases success)
  case False
  with assms show ?thesis
    by (auto simp: state_after_def record_result_def record_failure_def Let_def split: if_splits)
qed (simp add: record_result_def state_after_def)

lemma finish_recovery_state: "finish_recovery 1 (state_after threshold es) = state_after threshold (es @ [Recovered])"
  by (simp add: state_after_def finish_recovery_def)

lemma recovery_poll_state:
  assumes "circuit_ok m" "i < length (cb_recoveries m)" "cb_state m = state_after threshold es"
  shows "cb_state (fst (recovery_poll E i (m, x))) = state_after threshold (es @ recovery_events E i (m, x))"
proof -
  have "rc_generation (cb_recoveries m ! i) = 1" using assms(1,2) by (simp add: circuit_ok_def)
  moreover obtain p sl x1 where "env_sleep E (rc_sleep (cb_recoveries m ! i)) x = (p, sl, x1)"
    using prod_cases3 by blast
  ultimately show ?thesis
    using assms(3) finish_recovery_state [of threshold es]
    by (cases p) (simp_all add: recovery_poll_def recovery_events_def)
qed

text \<open>A poll of a future records the answer of the service inside, if there is one.\<close>

lemma circuit_poll_cases:
  assumes "circuit_future_poll C k f y = (p, f', y')"
  shows "poll_events f p = [] \<and> fst y' = fst y \<or>
    (\<exists>b. poll_events f p = [Answered b] \<and>
      fst y' = record_result (cf_failure_threshold f) (cf_recovery_timeout f) b (fst y))"
proof (cases "cf_immediate_error f = None \<and> cf_inner f \<noteq> None")
  case True
  then obtain i where i: "cf_immediate_error f = None" "cf_inner f = Some i" by auto
  obtain p1 j x1 where "poll_future C k i (snd y) = (p1, j, x1)" using prod_cases3 by blast
  with assms i show ?thesis
    by (cases y; cases p1) (auto simp: circuit_future_poll_def poll_events_def Let_def split: sum.splits)
next
  case False
  with assms show ?thesis
    by (cases y) (auto simp: circuit_future_poll_def poll_events_def split: option.splits)
qed

lemma circuit_history_state:
  "circuit_history C E other threshold es y \<Longrightarrow> circuit_ok (fst y) \<and> cb_state (fst y) = state_after threshold es"
proof (induction rule: circuit_history.induct)
  case (history_start x)
  then show ?case by (simp add: circuit_ok_def state_after_def)
next
  case (history_ready es y k s p s' y')
  then have "fst y' = fst y" by (auto simp: circuit_ready_def split: prod.splits if_splits)
  with history_ready show ?case by simp
next
  case (history_call es y q s f s' y')
  then have "fst y' = fst y" by (auto simp: circuit_call_def split: prod.splits if_splits)
  with history_call show ?case by simp
next
  case (history_poll es y f k p f' y')
  from circuit_poll_cases [OF history_poll.hyps(3)] history_poll.hyps(2)
  have "poll_events f p = [] \<and> fst y' = fst y \<or>
      (\<exists>b. poll_events f p = [Answered b] \<and> fst y' = record_result threshold (cf_recovery_timeout f) b (fst y))"
    by simp
  with history_poll.IH show ?case by (auto simp: record_result_ok record_result_state)
next
  case (history_drop es y f)
  then show ?case by (cases y) simp
next
  case (history_recovery es y i)
  then show ?case
    using recovery_poll_ok [of "fst y" i E "snd y"] recovery_poll_state [of "fst y" i threshold es E "snd y"]
    by (cases "recovery_poll E i y") simp
qed simp

text \<open>
  C22. The state is a function of the history, whatever is done with the service: it is decided by what
  happened since the last success. With fewer failures than the threshold (at least one) the
  breaker is closed and counts them. From then on it is half open if the last thing that happened
  is the end of a recovery task, and open otherwise: also a single failure of a half-open breaker
  opens it again, and recovery tasks that end while it is closed change nothing. Requests
  are allowed unless it is open.
\<close>

theorem circuit_opens:
  assumes "circuit_history C E other threshold es (m, x)"
  shows "cb_state m =
      (let since = rev (takeWhile (\<lambda>e. e \<noteq> Answered True) (rev es)); n = count_list since (Answered False)
       in if n < max 1 threshold then Closed n else if last since = Recovered then HalfOpen else Open 1) \<and>
    (should_allow_request m \<longleftrightarrow>
      (let since = rev (takeWhile (\<lambda>e. e \<noteq> Answered True) (rev es))
       in count_list since (Answered False) < max 1 threshold \<or> last since = Recovered))"
  using circuit_history_state [OF assms]
  by (auto simp: should_allow_request_def state_after_def failures_def since_success_def Let_def)

text \<open>The recovery tasks are polled, or something happens that does not concern the breaker.\<close>

definition circuit_other :: "('k, 'x) sim_env \<Rightarrow> ('x \<Rightarrow> 'x \<Rightarrow> bool) \<Rightarrow> circuit \<times> 'x \<Rightarrow> circuit \<times> 'x \<Rightarrow> bool" where
  "circuit_other E other y y' \<longleftrightarrow>
     (\<exists>i<length (cb_recoveries (fst y)). y' = recovery_poll E i y) \<or>
     (fst y' = fst y \<and> other (snd y) (snd y'))"

lemma circuit_run_ok:
  assumes "circuit_breaker_new svc threshold d = (s, m0)"
    and "service_run (circuit_service C) (circuit_other E other) ({#s#}, {#}, m0, x0) (H, F, m, x)"
  shows "circuit_ok m"
proof -
  have "circuit_inv (\<lambda>H F x. True) H F (m, x)"
  proof (rule service_contract.run_inv [OF service_contract.circuit_layer [OF any_service] assms(2)])
    show "circuit_inv (\<lambda>H F x. True) {#s#} {#} (m0, x0)"
      using assms(1) by (auto simp: circuit_inv_def circuit_ok_def circuit_breaker_new_def)
    fix H F y y'
    assume "circuit_inv (\<lambda>H F x. True) H F y" "circuit_other E other y y'"
    then show "circuit_inv (\<lambda>H F x. True) H F y'"
      by (cases y; cases y') (auto simp: circuit_inv_def circuit_other_def dest: recovery_poll_ok [OF _ _ sym])
  qed
  then show ?thesis by (simp add: circuit_inv_def)
qed

text \<open>
  C19. A breaker never stays open for want of a recovery: whatever is done with the service, and however
  its recovery tasks are polled, an open breaker rejects requests without reaching the service
  inside, and has a recovery task; whichever of them has its sleep over next half-opens it.
\<close>

theorem circuit_recovers:
  assumes "circuit_breaker_new svc threshold d = (s, m0)"
    and "service_run (circuit_service C) (circuit_other E other) ({#s#}, {#}, m0, x0) (H, F, m, x)"
    and "cb_state m = Open g"
  shows "circuit_ready C k s' (m, x) = (Ready (Inl Overloaded), s', m, x) \<and>
    snd (circuit_call C q s' (m, x)) = (s', m, x) \<and> cb_recoveries m \<noteq> [] \<and>
    (\<forall>i<length (cb_recoveries m). \<forall>sl x'.
       env_sleep E (rc_sleep (cb_recoveries m ! i)) x = (Ready (), sl, x') \<longrightarrow>
       cb_state (fst (recovery_poll E i (m, x))) = HalfOpen)"
proof -
  from circuit_run_ok [OF assms(1,2)] assms(3)
  have "g = 1" "cb_recoveries m \<noteq> []" and "\<And>i. i < length (cb_recoveries m) \<Longrightarrow> rc_generation (cb_recoveries m ! i) = 1"
    by (auto simp: circuit_ok_def)
  with assms(3) show ?thesis
    by (auto simp: circuit_ready_def circuit_call_def should_allow_request_def recovery_poll_def finish_recovery_def)
qed

lemma failing_run:
  "service_run (circuit_service C) (circuit_other E other)
     ({#\<lparr>cb_inner = svc, cb_failure_threshold = 1, cb_recovery_timeout = d\<rparr>#}, {#}, \<lparr>cb_state = Closed 0, cb_recoveries = []\<rparr>, x)
     ({#\<lparr>cb_inner = svc, cb_failure_threshold = 1, cb_recovery_timeout = d\<rparr>#},
      {#\<lparr>cf_inner = Some f, cf_failure_threshold = 1, cf_recovery_timeout = d, cf_immediate_error = None\<rparr>#},
      \<lparr>cb_state = Open 1, cb_recoveries = [\<lparr>rc_sleep = sim_sleep_new d, rc_generation = 1\<rparr>]\<rparr>, x)"
  if "call_service C q svc x = (f, svc, x)" "poll_future C k f x = (Ready (Inl e), f, x)"
proof -
  let ?s = "\<lparr>cb_inner = svc, cb_failure_threshold = 1, cb_recovery_timeout = d\<rparr>"
    and ?f = "\<lparr>cf_inner = Some f, cf_failure_threshold = 1, cf_recovery_timeout = d, cf_immediate_error = None\<rparr>"
    and ?m = "\<lparr>cb_state = Closed 0, cb_recoveries = []\<rparr>"
    and ?m' = "\<lparr>cb_state = Open 1, cb_recoveries = [\<lparr>rc_sleep = sim_sleep_new d, rc_generation = 1\<rparr>]\<rparr>"
  from that(1) have "call_service (circuit_service C) q ?s (?m, x) = (?f, ?s, ?m, x)"
    by (simp add: circuit_call_def should_allow_request_def)
  moreover from that(2) have "poll_future (circuit_service C) k ?f (?m, x) = (Ready (Inl e), ?f, ?m', x)"
    by (simp add: circuit_future_poll_def record_result_def record_failure_def spawn_recovery_def)
  ultimately show ?thesis by (blast intro: run_start run_call run_poll)
qed

text \<open>A service that fails, on a world that is just a clock.\<close>

definition clock_env :: "(nat, simtime) sim_env" where
  "clock_env =
     \<lparr>env_time = Some, env_wake = (\<lambda>k t. t),
      env_sleep = (\<lambda>sl t.
        let target = (case target_time sl of Some u \<Rightarrow> u | None \<Rightarrow> add_simtime t (from_duration (sl_duration sl)))
        in (if target \<le> t then Ready () else Pending, sl\<lparr>target_time := Some target\<rparr>, t)),
      env_sleep_drop = (\<lambda>sl t. t)\<rparr>"

definition failing_service :: "(nat, unit, simtime, unit, unit, unit) service_code" where
  "failing_service =
     \<lparr>poll_ready = (\<lambda>k s x. (Ready (Inr ()), s, x)), call_service = (\<lambda>q s x. ((), s, x)),
      poll_future = (\<lambda>k f x. (Ready (Inl Overloaded), f, x)), drop_future = (\<lambda>f x. x), clone_service = id\<rparr>"

theorem circuit_recovers_witness:
  "circuit_ready failing_service 5 \<lparr>cb_inner = (), cb_failure_threshold = 1, cb_recovery_timeout = 0\<rparr>
     (\<lparr>cb_state = Open 1, cb_recoveries = [\<lparr>rc_sleep = sim_sleep_new 0, rc_generation = 1\<rparr>]\<rparr>, zero) =
     (Ready (Inl Overloaded), \<lparr>cb_inner = (), cb_failure_threshold = 1, cb_recovery_timeout = 0\<rparr>,
      \<lparr>cb_state = Open 1, cb_recoveries = [\<lparr>rc_sleep = sim_sleep_new 0, rc_generation = 1\<rparr>]\<rparr>, zero) \<and>
   cb_state (fst (recovery_poll clock_env 0
     (\<lparr>cb_state = Open 1, cb_recoveries = [\<lparr>rc_sleep = sim_sleep_new 0, rc_generation = 1\<rparr>]\<rparr>, zero))) = HalfOpen"
proof -
  have run: "service_run (circuit_service failing_service) (circuit_other clock_env (\<lambda>_ _. False))
     ({#\<lparr>cb_inner = (), cb_failure_threshold = 1, cb_recovery_timeout = 0\<rparr>#}, {#}, \<lparr>cb_state = Closed 0, cb_recoveries = []\<rparr>, zero)
     ({#\<lparr>cb_inner = (), cb_failure_threshold = 1, cb_recovery_timeout = 0\<rparr>#},
      {#\<lparr>cf_inner = Some (), cf_failure_threshold = 1, cf_recovery_timeout = 0, cf_immediate_error = None\<rparr>#},
      \<lparr>cb_state = Open 1, cb_recoveries = [\<lparr>rc_sleep = sim_sleep_new 0, rc_generation = 1\<rparr>]\<rparr>, zero)"
    by (rule failing_run) (simp_all add: failing_service_def)
  have "fst (env_sleep clock_env (sim_sleep_new 0) zero) = Ready ()"
    by (simp add: clock_env_def sim_sleep_new_def zero_def from_duration_def add_simtime_def try_from_nat_def)
  then obtain sl x' where "env_sleep clock_env (sim_sleep_new 0) zero = (Ready (), sl, x')"
    by (cases "env_sleep clock_env (sim_sleep_new 0) zero") auto
  with circuit_recovers [OF _ run, of "()" 1 0 1 5 "\<lparr>cb_inner = (), cb_failure_threshold = 1, cb_recovery_timeout = 0\<rparr>" "()"]
  show ?thesis by (simp add: circuit_breaker_new_def)
qed

text \<open>The histories are those of the runs of the service.\<close>

lemma circuit_run_history:
  assumes "circuit_breaker_new svc threshold d = (s, m0)"
    and "service_run (circuit_service C) (circuit_other E other) ({#s#}, {#}, m0, x0) (H, F, m, x)"
  shows "\<exists>es. circuit_history C E other threshold es (m, x)"
proof -
  have "(\<forall>s\<in>#H. cb_failure_threshold s = threshold) \<and> (\<forall>f\<in>#F. cf_failure_threshold f = threshold) \<and>
      (\<exists>es. circuit_history C E other threshold es (m, x))"
    using assms(2)
  proof (induction "(H, F, m, x)" arbitrary: H F m x rule: service_run.induct)
    case run_start
    then show ?case using assms(1) by (auto simp: circuit_breaker_new_def intro: history_start)
  next
    case (run_ready s H F y k p s' m x)
    then have "cb_failure_threshold s' = cb_failure_threshold s"
      by (auto simp: circuit_ready_def split: prod.splits if_splits)
    with run_ready show ?case by (cases y) (auto dest: history_ready)
  next
    case (run_call s H F y q f s' m x)
    then have "cb_failure_threshold s' = cb_failure_threshold s" "cf_failure_threshold f = cb_failure_threshold s"
      by (auto simp: circuit_call_def split: prod.splits if_splits)
    with run_call show ?case by (cases y) (auto dest: history_call)
  next
    case (run_poll H f F y k p f' m x)
    then have "cf_failure_threshold f' = cf_failure_threshold f"
      by (auto simp: circuit_future_poll_def Let_def split: prod.splits option.splits poll.splits sum.splits)
    with run_poll show ?case by (cases y) (auto dest: history_poll)
  next
    case (run_drop H f F y)
    then obtain es where "circuit_history C E other threshold es y" by (cases y) auto
    from history_drop [OF this, of f] run_drop show ?case by (cases y) auto
  next
    case (run_clone s H F)
    then show ?case by auto
  next
    case (run_drop_handle s H F)
    then show ?case by auto
  next
    case (run_other H F y)
    then obtain es where es: "circuit_history C E other threshold es y" by (cases y) auto
    from run_other.hyps(3) have "\<exists>es'. circuit_history C E other threshold es' (m, x)"
    proof (cases y)
      case (Pair m0 x0)
      with es run_other.hyps(3) history_recovery [OF es] show ?thesis
        by (fastforce simp: circuit_other_def intro: history_other)
    qed
    with run_other show ?case by (cases y) auto
  qed
  then show ?thesis by blast
qed

text \<open>
  A threshold of two: two failures open the breaker, the recovery task half-opens it, and one failure
  opens it again.
\<close>

definition demo_future :: "unit circuit_future" where
  "demo_future = \<lparr>cf_inner = Some (), cf_failure_threshold = 2, cf_recovery_timeout = 0, cf_immediate_error = None\<rparr>"

theorem circuit_opens_witness:
  "\<exists>m. circuit_history failing_service clock_env (\<lambda>_ _. False) 2
      [Answered False, Answered False, Recovered, Answered False] (m, zero) \<and> cb_state m = Open 1"
proof -
  let ?H = "circuit_history failing_service clock_env (\<lambda>_ _. False) 2"
  have fail: "?H (es @ [Answered False]) (record_result 2 0 False m, zero)" if "?H es (m, zero)" for es m
  proof -
    have "circuit_future_poll failing_service 5 demo_future (m, zero) =
        (Ready (Inl Overloaded), demo_future, record_result 2 0 False m, zero)"
      by (simp add: circuit_future_poll_def demo_future_def failing_service_def)
    from history_poll [OF that _ this] show ?thesis
      by (simp add: demo_future_def poll_events_def)
  qed
  let ?m2 = "\<lparr>cb_state = Open 1, cb_recoveries = [\<lparr>rc_sleep = sim_sleep_new 0, rc_generation = 1\<rparr>]\<rparr>"
  have "?H [Answered False, Answered False] (?m2, zero)"
    using fail [OF fail [OF history_start]] by (simp add: record_result_def record_failure_def spawn_recovery_def)
  moreover have "recovery_poll clock_env 0 (?m2, zero) = (\<lparr>cb_state = HalfOpen, cb_recoveries = []\<rparr>, zero)"
    "recovery_events clock_env 0 (?m2, zero) = [Recovered]"
    by (simp_all add: recovery_poll_def recovery_events_def finish_recovery_def clock_env_def sim_sleep_new_def zero_def
        from_duration_def add_simtime_def try_from_nat_def)
  ultimately have "?H [Answered False, Answered False, Recovered] (\<lparr>cb_state = HalfOpen, cb_recoveries = []\<rparr>, zero)"
    using history_recovery [of failing_service clock_env "\<lambda>_ _. False" 2 "[Answered False, Answered False]" "(?m2, zero)" 0]
    by simp
  from fail [OF this] obtain m where m: "?H [Answered False, Answered False, Recovered, Answered False] (m, zero)"
    by auto
  from circuit_opens [OF this] have "cb_state m = Open 1" by (simp add: Let_def)
  with m show ?thesis by blast
qed

text \<open>
  The generation does not tell openings apart: a recovery task left over from an earlier opening
  half-opens the breaker as soon as its own sleep is over, while the task spawned for the present
  opening has not even started to wait.
\<close>

theorem stale_recovery_half_opens:
  assumes "cb_recoveries m = [a]" "rc_generation a = 1" "cb_state m = Closed n" "threshold \<le> n + 1"
    and "env_sleep E (rc_sleep a) x = (Ready (), sl, x')"
  shows "\<exists>m1 m2. record_result threshold d False m = m1 \<and> cb_state m1 = Open 1 \<and>
    recovery_poll E 0 (m1, x) = (m2, x') \<and> cb_state m2 = HalfOpen \<and>
    cb_recoveries m2 = [\<lparr>rc_sleep = sim_sleep_new d, rc_generation = 1\<rparr>]"
  using assms by (simp add: record_result_def record_failure_def spawn_recovery_def recovery_poll_def finish_recovery_def)

definition after_results :: "nat \<Rightarrow> duration \<Rightarrow> bool list \<Rightarrow> circuit" where
  "after_results threshold d rs =
     fold (record_result threshold d) rs \<lparr>cb_state = Closed 0, cb_recoveries = []\<rparr>"

text \<open>
  With a timeout of a hundred: the breaker opens at time zero, a late success closes it, a failure
  at time ninety opens it again, and at time one hundred it is half open.
\<close>

definition stale_recovery :: recovery where
  "stale_recovery =
     \<lparr>rc_sleep = (sim_sleep_new 100)\<lparr>target_time := Some (from_duration 100)\<rparr>, rc_generation = 1\<rparr>"

definition reopened :: circuit where
  "reopened =
     record_result 1 100 True (fst (recovery_poll clock_env 0 (after_results 1 100 [False], zero)))"

lemma reopened_eq: "reopened = \<lparr>cb_state = Closed 0, cb_recoveries = [stale_recovery]\<rparr>"
  by (simp add: reopened_def after_results_def record_result_def record_failure_def spawn_recovery_def
      recovery_poll_def clock_env_def sim_sleep_new_def zero_def from_duration_def add_simtime_def try_from_nat_def stale_recovery_def)

theorem stale_recovery_half_opens_witness:
  "\<exists>m1 m2. record_result 1 100 False reopened = m1 \<and> cb_state m1 = Open 1 \<and>
    recovery_poll clock_env 0 (m1, from_duration 100) = (m2, from_duration 100) \<and> cb_state m2 = HalfOpen \<and>
    cb_recoveries m2 = [\<lparr>rc_sleep = sim_sleep_new 100, rc_generation = 1\<rparr>]"
  by (rule stale_recovery_half_opens [where a = stale_recovery and n = 0])
    (simp_all add: reopened_eq stale_recovery_def clock_env_def Let_def)

end
