(* ===== verification/Load_Balancer.thy ===== *)
theory Load_Balancer
  imports Circuit_Breaker Endpoint_Registry
begin

text \<open>
  \<open>des-tower/src/tower/load_balancer\<close>: a service that distributes requests over backends.
  \<open>gen_range\<close> of the generator is a parameter. \<open>None\<close> stands for the panic of an index out
  of range, which a call without backends meets.
\<close>

section \<open>Balancer\<close>

datatype load_balance_strategy = RoundRobin | RandomChoice | LeastConnections

record ('s, 'g) load_balancer =
  lb_services :: "'s list"
  lb_strategy :: load_balance_strategy
  lb_current_index :: nat
  lb_rng :: 'g
  lb_ready_index :: "nat option"

text \<open>\<open>seed_from_u64\<close> gives the generator.\<close>

definition balancer_with_seed :: "(u64 \<Rightarrow> 'g) \<Rightarrow> 's list \<Rightarrow> load_balance_strategy \<Rightarrow> u64 \<Rightarrow> ('s, 'g) load_balancer" where
  "balancer_with_seed seed_from svcs strategy seed =
     \<lparr>lb_services = svcs, lb_strategy = strategy, lb_current_index = 0, lb_rng = seed_from seed, lb_ready_index = None\<rparr>"

definition balancer_new :: "(u64 \<Rightarrow> 'g) \<Rightarrow> 's list \<Rightarrow> load_balance_strategy \<Rightarrow> ('s, 'g) load_balancer" where
  "balancer_new seed_from svcs strategy = balancer_with_seed seed_from svcs strategy 42"

definition balancer_clone :: "('k, 's, 'x, 'q, 'f, 'r) service_code \<Rightarrow> ('s, 'g) load_balancer \<Rightarrow> ('s, 'g) load_balancer" where
  "balancer_clone C s = s\<lparr>lb_services := map (clone_service C) (lb_services s), lb_ready_index := None\<rparr>"

definition peek_start_index :: "(nat \<Rightarrow> 'g \<Rightarrow> nat \<times> 'g) \<Rightarrow> ('s, 'g) load_balancer \<Rightarrow> nat" where
  "peek_start_index gen s =
     (if lb_services s = [] then 0
      else
        (case lb_strategy s of
           RandomChoice \<Rightarrow> fst (gen (length (lb_services s)) (lb_rng s))
         | _ \<Rightarrow> lb_current_index s mod length (lb_services s)))"

definition commit_selected_index :: "(nat \<Rightarrow> 'g \<Rightarrow> nat \<times> 'g) \<Rightarrow> nat \<Rightarrow> ('s, 'g) load_balancer \<Rightarrow> ('s, 'g) load_balancer" where
  "commit_selected_index gen idx s =
     (if lb_services s = [] then s
      else
        (case lb_strategy s of
           RandomChoice \<Rightarrow> s\<lparr>lb_rng := snd (gen (length (lb_services s)) (lb_rng s))\<rparr>
         | _ \<Rightarrow> s\<lparr>lb_current_index := (idx + 1) mod length (lb_services s)\<rparr>))"

definition select_service :: "(nat \<Rightarrow> 'g \<Rightarrow> nat \<times> 'g) \<Rightarrow> ('s, 'g) load_balancer \<Rightarrow> nat \<times> ('s, 'g) load_balancer" where
  "select_service gen s =
     (case lb_ready_index s of
        Some idx \<Rightarrow> (idx, commit_selected_index gen idx (s\<lparr>lb_ready_index := None\<rparr>))
      | None \<Rightarrow> (let start = peek_start_index gen s in (start, commit_selected_index gen start s)))"

text \<open>\<open>poll_ready\<close> of one backend in place.\<close>

definition poll_backend ::
  "('k, 's, 'x, 'q, 'f, 'r) service_code \<Rightarrow> 'k \<Rightarrow> nat \<Rightarrow> 's list \<Rightarrow> 'x \<Rightarrow> (service_error + unit) poll \<times> 's list \<times> 'x"
where
  "poll_backend C k idx svcs x =
     (let (p, i, x) = poll_ready C k (svcs ! idx) x in (p, svcs[idx := i], x))"

text \<open>The loop over the backends, in the order \<open>idxs\<close>.\<close>

fun find_ready ::
  "('k, 's, 'x, 'q, 'f, 'r) service_code \<Rightarrow> 'k \<Rightarrow> nat list \<Rightarrow> 's list \<Rightarrow> 'x
    \<Rightarrow> (service_error + nat) poll \<times> 's list \<times> 'x"
where
  "find_ready C k [] svcs x = (Pending, svcs, x)"
| "find_ready C k (idx # idxs) svcs x =
     (let (p, svcs, x) = poll_backend C k idx svcs x
      in case p of
           Ready (Inr _) \<Rightarrow> (Ready (Inr idx), svcs, x)
         | Ready (Inl e) \<Rightarrow> (Ready (Inl e), svcs, x)
         | Pending \<Rightarrow> find_ready C k idxs svcs x)"

definition scan_order :: "nat \<Rightarrow> nat \<Rightarrow> nat list" where
  "scan_order start n = map (\<lambda>offset. (start + offset) mod n) [0..<n]"

definition search_backends ::
  "(nat \<Rightarrow> 'g \<Rightarrow> nat \<times> 'g) \<Rightarrow> ('k, 's, 'x, 'q, 'f, 'r) service_code \<Rightarrow> 'k \<Rightarrow> ('s, 'g) load_balancer \<Rightarrow> 'x
    \<Rightarrow> (service_error + unit) poll \<times> ('s, 'g) load_balancer \<times> 'x"
where
  "search_backends gen C k s x =
     (let (p, svcs, x) = find_ready C k (scan_order (peek_start_index gen s) (length (lb_services s))) (lb_services s) x;
          s = s\<lparr>lb_services := svcs\<rparr>
      in case p of
           Ready (Inr idx) \<Rightarrow> (Ready (Inr ()), s\<lparr>lb_ready_index := Some idx\<rparr>, x)
         | Ready (Inl e) \<Rightarrow> (Ready (Inl e), s, x)
         | Pending \<Rightarrow> (Pending, s, x))"

definition balancer_ready ::
  "(nat \<Rightarrow> 'g \<Rightarrow> nat \<times> 'g) \<Rightarrow> ('k, 's, 'x, 'q, 'f, 'r) service_code \<Rightarrow> 'k \<Rightarrow> ('s, 'g) load_balancer \<Rightarrow> 'x
    \<Rightarrow> (service_error + unit) poll \<times> ('s, 'g) load_balancer \<times> 'x"
where
  "balancer_ready gen C k s x =
     (if lb_services s = [] then (Ready (Inl (Internal (lit ''load balancer has no backends''))), s, x)
      else
        (case lb_ready_index s of
           None \<Rightarrow> search_backends gen C k s x
         | Some idx \<Rightarrow>
             (let (p, svcs, x) = poll_backend C k idx (lb_services s) x; s = s\<lparr>lb_services := svcs\<rparr>
              in case p of
                   Ready r \<Rightarrow> (Ready r, s, x)
                 | Pending \<Rightarrow> search_backends gen C k (s\<lparr>lb_ready_index := None\<rparr>) x)))"

definition balancer_call ::
  "(nat \<Rightarrow> 'g \<Rightarrow> nat \<times> 'g) \<Rightarrow> ('k, 's, 'x, 'q, 'f, 'r) service_code \<Rightarrow> 'q \<Rightarrow> ('s, 'g) load_balancer \<Rightarrow> 'x
    \<Rightarrow> ('f \<times> ('s, 'g) load_balancer \<times> 'x) option"
where
  "balancer_call gen C q s x =
     (let (idx, s) = select_service gen s
      in if idx < length (lb_services s)
         then (let (f, i, x) = call_service C q (lb_services s ! idx) x
               in Some (f, s\<lparr>lb_services := (lb_services s)[idx := i]\<rparr>, x))
         else None)"

section \<open>Waiting for an endpoint\<close>

text \<open>
  One round of the loop in \<open>wait_for_endpoint\<close> (\<open>des-tower/src/tower/discovery\<close>) at time \<open>at\<close>:
  an endpoint, giving up, or waiting for a change of the registry, for the remaining time if there
  is a deadline. When that wait times out the loop gives up.
\<close>

datatype wait_step = Found endpoint_info | GiveUp | AwaitChanged "duration option"

definition wait_for_endpoint :: "instant option \<Rightarrow> instant \<Rightarrow> str \<Rightarrow> 'x shared_registry \<Rightarrow> wait_step \<times> 'x shared_registry" where
  "wait_for_endpoint deadline at name sr =
     (let (x, sr) = shared_get_endpoint_for_service name sr
      in case x of
           Some ep \<Rightarrow> (Found ep, sr)
         | None \<Rightarrow>
             ((case deadline of
                 None \<Rightarrow> AwaitChanged None
               | Some d \<Rightarrow> if d \<le> at then GiveUp else AwaitChanged (Some (saturating_duration_since d at))), sr))"

section \<open>Invariant\<close>

definition balancer_ok :: "('s, 'g) load_balancer \<Rightarrow> bool" where
  "balancer_ok s \<longleftrightarrow> (\<forall>idx. lb_ready_index s = Some idx \<longrightarrow> idx < length (lb_services s))"

lemma poll_backend_length: "poll_backend C k idx svcs x = (p, svcs', x') \<Longrightarrow> length svcs' = length svcs"
  by (auto simp: poll_backend_def split: prod.splits)

lemma find_ready_cases:
  assumes "find_ready C k idxs svcs x = (p, svcs', x')"
  shows "length svcs' = length svcs \<and> (\<forall>idx. p = Ready (Inr idx) \<longrightarrow> idx \<in> set idxs)"
  using assms
proof (induction idxs arbitrary: svcs x)
  case (Cons i js)
  obtain p1 svcs1 x1 where "poll_backend C k i svcs x = (p1, svcs1, x1)" using prod_cases3 by blast
  with Cons poll_backend_length [OF this] show ?case
    by (cases p1) (auto split: sum.splits prod.splits)
qed simp

lemma scan_order_less: "idx \<in> set (scan_order start n) \<Longrightarrow> idx < n"
  by (auto simp: scan_order_def)

lemma search_backends_ok:
  assumes "search_backends gen C k s x = (p, s', x')" "lb_ready_index s = None"
  shows "balancer_ok s' \<and> length (lb_services s') = length (lb_services s) \<and>
    (p = Ready (Inr ()) \<longleftrightarrow> lb_ready_index s' \<noteq> None)"
proof -
  obtain q svcs x1 where f: "find_ready C k (scan_order (peek_start_index gen s) (length (lb_services s)))
      (lb_services s) x = (q, svcs, x1)" using prod_cases3 by blast
  from find_ready_cases [OF f] assms f show ?thesis
    by (cases q) (auto simp: search_backends_def balancer_ok_def scan_order_less Let_def split: sum.splits)
qed

lemma balancer_ready_ok:
  assumes "balancer_ready gen C k s x = (p, s', x')" "balancer_ok s"
  shows "balancer_ok s' \<and> length (lb_services s') = length (lb_services s)
    \<and> (p = Ready (Inr ()) \<longrightarrow> lb_ready_index s' \<noteq> None \<and> lb_services s \<noteq> [])"
proof (cases "lb_services s = []")
  case False
  show ?thesis
  proof (cases "lb_ready_index s")
    case None
    with assms False show ?thesis using search_backends_ok [of gen C k s x p s' x'] by (auto simp: balancer_ready_def)
  next
    case (Some idx)
    obtain q svcs x1 where b: "poll_backend C k idx (lb_services s) x = (q, svcs, x1)" using prod_cases3 by blast
    from poll_backend_length [OF b] have l: "length svcs = length (lb_services s)" .
    show ?thesis
    proof (cases q)
      case (Ready r)
      with assms False Some b l show ?thesis by (auto simp: balancer_ready_def balancer_ok_def)
    next
      case Pending
      with assms False Some b have "search_backends gen C k (s\<lparr>lb_services := svcs, lb_ready_index := None\<rparr>) x1 = (p, s', x')"
        by (simp add: balancer_ready_def)
      from search_backends_ok [OF this] l False show ?thesis by simp
    qed
  qed
qed (use assms in \<open>auto simp: balancer_ready_def\<close>)

section \<open>Properties\<close>

text \<open>
  A balancer that is ready can be called: the request goes to the backend that was found ready,
  and the turn moves on past it.
\<close>

lemma balancer_ready_call:
  assumes "balancer_ready gen C k s x = (Ready (Inr ()), s1, x1)" "balancer_ok s"
  shows "\<exists>idx f i x2 s2. lb_ready_index s1 = Some idx \<and> idx < length (lb_services s) \<and>
    call_service C q (lb_services s1 ! idx) x1 = (f, i, x2) \<and> balancer_call gen C q s1 x1 = Some (f, s2, x2) \<and>
    lb_services s2 = (lb_services s1)[idx := i] \<and> lb_ready_index s2 = None \<and>
    (lb_strategy s1 \<noteq> RandomChoice \<longrightarrow> lb_current_index s2 = (idx + 1) mod length (lb_services s))"
proof -
  from balancer_ready_ok [OF assms] obtain idx where idx: "lb_ready_index s1 = Some idx" "idx < length (lb_services s)"
    and l: "length (lb_services s1) = length (lb_services s)"
    by (auto simp: balancer_ok_def)
  then have "lb_services s1 \<noteq> []" by auto
  obtain f i x2 where "call_service C q (lb_services s1 ! idx) x1 = (f, i, x2)" using prod_cases3 by blast
  with idx l \<open>lb_services s1 \<noteq> []\<close> show ?thesis
    by (auto simp: balancer_call_def select_service_def commit_selected_index_def Let_def
        split: load_balance_strategy.splits)
qed

text \<open>Rounds of waiting until the balancer is ready and calling it, with the backends that were called.\<close>

fun chosen ::
  "(nat \<Rightarrow> 'g \<Rightarrow> nat \<times> 'g) \<Rightarrow> ('k, 's, 'x, 'q, 'f, 'r) service_code \<Rightarrow> 'k \<Rightarrow> 'q \<Rightarrow> nat \<Rightarrow> ('s, 'g) load_balancer \<Rightarrow> 'x
    \<Rightarrow> nat list"
where
  "chosen gen C k q 0 s x = []"
| "chosen gen C k q (Suc n) s x =
     (let (p, s, x) = balancer_ready gen C k s x
      in case balancer_call gen C q s x of
           Some (f, s', x) \<Rightarrow> fst (select_service gen s) # chosen gen C k q n s' x
         | None \<Rightarrow> [])"

lemma ready_round:
  assumes "lb_services s \<noteq> []" "lb_strategy s \<noteq> RandomChoice" "lb_ready_index s = None"
    and ready: "\<And>s x. \<exists>s' x'. poll_ready C k s x = (Ready (Inr ()), s', x')"
  defines "n \<equiv> length (lb_services s)" and "idx \<equiv> lb_current_index s mod length (lb_services s)"
  shows "\<exists>s1 x1 f s2 x2. balancer_ready gen C k s x = (Ready (Inr ()), s1, x1) \<and> fst (select_service gen s1) = idx \<and>
    balancer_call gen C q s1 x1 = Some (f, s2, x2) \<and> length (lb_services s2) = n \<and> lb_strategy s2 = lb_strategy s \<and>
    lb_ready_index s2 = None \<and> lb_current_index s2 = (lb_current_index s + 1) mod n"
proof -
  from assms(1) obtain js where "scan_order idx n = idx # js"
    by (auto simp: scan_order_def idx_def n_def upt_conv_Cons)
  moreover have "peek_start_index gen s = idx"
    using assms(1,2) by (auto simp: peek_start_index_def idx_def split: load_balance_strategy.splits)
  moreover obtain i x1 where "poll_ready C k (lb_services s ! idx) x = (Ready (Inr ()), i, x1)" using ready by blast
  ultimately have 1: "balancer_ready gen C k s x =
      (Ready (Inr ()), s\<lparr>lb_services := (lb_services s)[idx := i], lb_ready_index := Some idx\<rparr>, x1)" (is "_ = (_, ?s1, _)")
    using assms(1,3) by (simp add: balancer_ready_def search_backends_def poll_backend_def n_def)
  have "idx < n" using assms(1) by (simp add: idx_def n_def)
  moreover obtain f j x2 where "call_service C q i x1 = (f, j, x2)" using prod_cases3 by blast
  ultimately have "fst (select_service gen ?s1) = idx \<and> (\<exists>f s2 x2. balancer_call gen C q ?s1 x1 = Some (f, s2, x2) \<and>
      length (lb_services s2) = n \<and> lb_strategy s2 = lb_strategy s \<and> lb_ready_index s2 = None \<and>
      lb_current_index s2 = (idx + 1) mod n)"
    using assms(1,2) by (auto simp: balancer_call_def select_service_def commit_selected_index_def n_def Let_def
        split: load_balance_strategy.splits)
  with 1 show ?thesis by (auto simp: idx_def n_def mod_simps)
qed

lemma chosen_rounds:
  assumes "lb_services s \<noteq> []" "lb_strategy s \<noteq> RandomChoice" "lb_ready_index s = None"
    and ready: "\<And>s x. \<exists>s' x'. poll_ready C k s x = (Ready (Inr ()), s', x')"
  shows "chosen gen C k q r s x =
    map (\<lambda>i. (lb_current_index s + i) mod length (lb_services s)) [0..<r]"
  using assms(1-3)
proof (induction r arbitrary: s x)
  case (Suc r)
  from ready_round [OF Suc.prems ready] obtain s1 x1 f s2 x2
    where rd: "balancer_ready gen C k s x = (Ready (Inr ()), s1, x1)"
      "fst (select_service gen s1) = lb_current_index s mod length (lb_services s)"
      "balancer_call gen C q s1 x1 = Some (f, s2, x2)"
    and s2: "length (lb_services s2) = length (lb_services s)" "lb_strategy s2 = lb_strategy s"
      "lb_ready_index s2 = None" "lb_current_index s2 = (lb_current_index s + 1) mod length (lb_services s)"
    by metis
  have "chosen gen C k q r s2 x2 =
      map (\<lambda>i. (lb_current_index s2 + i) mod length (lb_services s2)) [0..<r]"
    by (rule Suc.IH) (use Suc.prems s2 in auto)
  also have "\<dots> = map (\<lambda>i. (lb_current_index s + i) mod length (lb_services s)) [Suc 0..<Suc r]"
    by (simp add: s2 mod_add_left_eq comp_def map_Suc_upt [symmetric] del: upt_Suc)
  finally show ?case by (simp add: rd upt_conv_Cons del: upt_Suc)
qed simp

text \<open>
  While all backends are ready, requests go to them in turn, and every run of as many requests as
  there are backends gives each backend exactly one.
\<close>

theorem balancer_round_robin:
  assumes "lb_services s \<noteq> []" "lb_strategy s \<noteq> RandomChoice" "lb_ready_index s = None"
    and "\<And>s x. \<exists>s' x'. poll_ready C k s x = (Ready (Inr ()), s', x')"
  shows "chosen gen C k q r s x = map (\<lambda>i. (lb_current_index s + i) mod length (lb_services s)) [0..<r] \<and>
    mset (chosen gen C k q (length (lb_services s)) s x) = mset [0..<length (lb_services s)]"
proof -
  have "mset (map (\<lambda>j. (c + j) mod n) [0..<n]) = mset [0..<n]" if "n \<noteq> 0" for c n :: nat
  proof -
    have "[0..<n] ! ((c + j) mod length [0..<n]) = (c + j) mod n" for j using that by (simp del: upt_rec)
    with rotations_mset [of "[0..<n]" c] that show ?thesis by (simp only: length_upt diff_zero) simp
  qed
  with assms(1) chosen_rounds [OF assms] show ?thesis by simp
qed

theorem balancer_round_robin_witness:
  "chosen (\<lambda>n g. (0, g)) idle_service 5 () 3 (balancer_new (\<lambda>seed. ()) [(), ()] RoundRobin) () = [0, 1, 0]"
  using balancer_round_robin [of "balancer_new (\<lambda>seed. ()) [(), ()] RoundRobin" idle_service 5 "\<lambda>n g. (0, g)" "()" 3 "()"]
  by (simp add: balancer_new_def balancer_with_seed_def idle_service_def eval_nat_numeral)

text \<open>
  The strategy called least connections chooses as round robin does; no count of connections
  exists.
\<close>

theorem least_connections_is_round_robin:
  "balancer_ready gen C k (s\<lparr>lb_strategy := LeastConnections\<rparr>) x =
     map_prod id (map_prod (lb_strategy_update (\<lambda>_. LeastConnections)) id)
       (balancer_ready gen C k (s\<lparr>lb_strategy := RoundRobin\<rparr>) x) \<and>
   balancer_call gen C q (s\<lparr>lb_strategy := LeastConnections\<rparr>) x =
     map_option (map_prod id (map_prod (lb_strategy_update (\<lambda>_. LeastConnections)) id))
       (balancer_call gen C q (s\<lparr>lb_strategy := RoundRobin\<rparr>) x)"
  by (auto simp: balancer_ready_def search_backends_def peek_start_index_def balancer_call_def select_service_def
      commit_selected_index_def Let_def split: prod.splits option.splits poll.splits sum.splits)

text \<open>
  There is no failover: if the backend whose turn it is reports an error, such as an open circuit
  breaker, the balancer reports it without asking any other backend, and the turn stays with that
  backend.
\<close>

theorem balancer_no_failover:
  assumes "lb_services s \<noteq> []" "lb_strategy s \<noteq> RandomChoice" "lb_ready_index s = None"
    and "idx = lb_current_index s mod length (lb_services s)"
    and "poll_ready C k (lb_services s ! idx) x = (Ready (Inl e), i, x')"
  shows "balancer_ready gen C k s x = (Ready (Inl e), s\<lparr>lb_services := (lb_services s)[idx := i]\<rparr>, x')"
proof -
  from assms(1,4) obtain js where "scan_order idx (length (lb_services s)) = idx # js"
    by (auto simp: scan_order_def upt_conv_Cons)
  moreover have "peek_start_index gen s = idx"
    using assms(1,2,4) by (auto simp: peek_start_index_def split: load_balance_strategy.splits)
  ultimately show ?thesis
    using assms by (simp add: balancer_ready_def search_backends_def poll_backend_def)
qed

theorem balancer_no_failover_witness:
  "balancer_ready (\<lambda>n g. (0, g)) (circuit_service idle_service) 5
     (balancer_new (\<lambda>seed. ()) [\<lparr>cb_inner = (), cb_failure_threshold = 1, cb_recovery_timeout = 0\<rparr>] RoundRobin)
     (\<lparr>cb_state = Open 1, cb_recoveries = []\<rparr>, ()) =
   (Ready (Inl Overloaded),
    balancer_new (\<lambda>seed. ()) [\<lparr>cb_inner = (), cb_failure_threshold = 1, cb_recovery_timeout = 0\<rparr>] RoundRobin,
    \<lparr>cb_state = Open 1, cb_recoveries = []\<rparr>, ())"
  using balancer_no_failover [of "balancer_new (\<lambda>seed. ()) [\<lparr>cb_inner = (), cb_failure_threshold = 1, cb_recovery_timeout = 0\<rparr>] RoundRobin"
      0 "circuit_service idle_service" 5 "(\<lparr>cb_state = Open 1, cb_recoveries = []\<rparr>, ())" Overloaded
      "\<lparr>cb_inner = (), cb_failure_threshold = 1, cb_recovery_timeout = 0\<rparr>" "(\<lparr>cb_state = Open 1, cb_recoveries = []\<rparr>, ())"]
  by (simp add: balancer_new_def balancer_with_seed_def circuit_ready_def should_allow_request_def)

end
