(* ===== verification/Tonic_Unary.thy ===== *)
theory Tonic_Unary
  imports Tonic_Stream Network_Model Load_Balancer
begin

text \<open>
  Unary calls of \<open>des-tonic\<close>: the channel of a client (\<open>channel.rs\<close>), its endpoint, and the
  task that a server (\<open>server.rs\<close>) starts for a request. The metadata maps of \<open>tonic\<close> are a
  parameter, the record \<open>metadata_lib\<close>. A handler is known by the result it returns.
\<close>

section \<open>Metadata\<close>

text \<open>An entry of a metadata map; the value of an ASCII entry may not be printable.\<close>

datatype metadata_entry = AsciiEntry str "str option" | BinaryEntry

record ('m, 'k, 'v) metadata_lib =
  md_empty :: 'm
  md_parse_key :: "str \<Rightarrow> 'k option"
  md_parse_value :: "str \<Rightarrow> 'v option"
  md_insert :: "'k \<Rightarrow> 'v \<Rightarrow> 'm \<Rightarrow> 'm"
  md_iter :: "'m \<Rightarrow> metadata_entry list"

definition metadata_to_wire :: "('m, 'k, 'v) metadata_lib \<Rightarrow> 'm \<Rightarrow> (str \<times> str) list" where
  "metadata_to_wire L m =
     List.map_filter (\<lambda>e. case e of AsciiEntry k (Some v) \<Rightarrow> Some (k, v) | _ \<Rightarrow> None) (md_iter L m)"

text \<open>Entries whose key or value does not parse are left out.\<close>

definition metadata_from_wire :: "('m, 'k, 'v) metadata_lib \<Rightarrow> (str \<times> str) list \<Rightarrow> 'm" where
  "metadata_from_wire L entries =
     fold (\<lambda>(k, v) m.
       case (md_parse_key L k, md_parse_value L v) of (Some k, Some v) \<Rightarrow> md_insert L k v m | _ \<Rightarrow> m)
       entries (md_empty L)"

record 'm grpc_message =
  gm_metadata :: 'm
  gm_payload :: "byte list"

type_synonym ('c, 'm) unary_result = "'c grpc_status + 'm grpc_message"

section \<open>The channel of a client\<close>

record grpc_channel =
  gch_service_name :: str
  gch_client_endpoint :: endpoint_id
  gch_next_counter :: u64
  gch_target_endpoint :: "endpoint_id option"

definition grpc_channel_new :: "str \<Rightarrow> endpoint_id \<Rightarrow> grpc_channel" where
  "grpc_channel_new service_name client_endpoint =
     \<lparr>gch_service_name = service_name, gch_client_endpoint = client_endpoint, gch_next_counter = 0,
      gch_target_endpoint = None\<rparr>"

text \<open>Identifiers of calls and streams come from one counter.\<close>

definition grpc_correlation_id :: "grpc_channel \<Rightarrow> str \<times> grpc_channel" where
  "grpc_correlation_id ch =
     (let n = gch_next_counter ch + 1
      in (gch_service_name ch @ lit '':'' @ decimal (unat (gch_client_endpoint ch)) @ lit '':'' @ decimal (unat n),
          ch\<lparr>gch_next_counter := n\<rparr>))"

definition grpc_stream_id :: "grpc_channel \<Rightarrow> str \<times> grpc_channel" where
  "grpc_stream_id ch =
     (let n = gch_next_counter ch + 1
      in (gch_service_name ch @ lit '':'' @ decimal (unat (gch_client_endpoint ch)) @ lit '':stream:'' @ decimal (unat n),
          ch\<lparr>gch_next_counter := n\<rparr>))"

text \<open>
  \<open>select_target\<close>: a channel with a fixed target checks that it is still registered; another
  one waits for an endpoint of its service, here one round of that wait. When the overall timeout
  ends the wait, \<open>timed_out\<close>, the call fails.
\<close>

datatype 'c target_step = Target endpoint_id | TargetError "'c grpc_status" | AwaitEndpoint

definition grpc_select_target ::
  "'c grpc_codes \<Rightarrow> bool \<Rightarrow> grpc_channel \<Rightarrow> instant \<Rightarrow> 'x shared_registry \<Rightarrow> 'c target_step \<times> 'x shared_registry"
where
  "grpc_select_target K timed_out ch at sr =
     (case gch_target_endpoint ch of
        Some target \<Rightarrow>
          (if \<exists>e\<in>set (shared_find_endpoints (gch_service_name ch) sr). ei_id e = target then Target target
           else TargetError (status_new (gc_unavailable K)
                  (lit ''service not found at fixed address: '' @ gch_service_name ch)), sr)
      | None \<Rightarrow>
          (let (r, sr) = wait_for_endpoint None at (gch_service_name ch) sr
           in (case r of
                 Found e \<Rightarrow> Target (ei_id e)
               | GiveUp \<Rightarrow> TargetError (status_new (gc_deadline_exceeded K)
                   (lit ''request timed out while waiting for endpoint''))
               | AwaitChanged _ \<Rightarrow>
                   if timed_out
                   then TargetError (status_new (gc_deadline_exceeded K)
                     (lit ''request timed out while waiting for endpoint''))
                   else AwaitEndpoint, sr)))"

text \<open>The calls that wait for a response; one-shot channels are at addresses.\<close>

record ('c, 'm, 'w) unary_calls =
  uc_pending :: "str \<rightharpoonup> nat"
  uc_oneshots :: "nat \<Rightarrow> (('c, 'm) unary_result, 'w) oneshot_state"
  uc_next :: nat
  uc_woken :: "'w list"

definition unary_request_wire_of :: "('m, 'k, 'v) metadata_lib \<Rightarrow> str \<Rightarrow> 'm grpc_message \<Rightarrow> unary_request_wire" where
  "unary_request_wire_of L path req =
     \<lparr>uq_method = path, uq_metadata = metadata_to_wire L (gm_metadata req), uq_payload = gm_payload req\<rparr>"

text \<open>
  \<open>unary_inner\<close> from the selected target to the wait: the identifier of the call, the address of the
  channel it waits on, and the message handed to the transport.
\<close>

definition unary_send ::
  "('m, 'k, 'v) metadata_lib \<Rightarrow> str \<Rightarrow> 'm grpc_message \<Rightarrow> endpoint_id \<Rightarrow> simtime
    \<Rightarrow> grpc_channel \<times> ('c, 'm, 'w) unary_calls
    \<Rightarrow> str \<times> nat \<times> transport_message \<times> grpc_channel \<times> ('c, 'm, 'w) unary_calls"
where
  "unary_send L path req target at = (\<lambda>(ch, U).
     let (cid, ch) = grpc_correlation_id ch;
         payload = encode_unary_request (unary_request_wire_of L path req);
         tx = uc_next U;
         U = U\<lparr>uc_next := tx + 1, uc_oneshots := (uc_oneshots U)(tx := oneshot_channel),
               uc_pending := (uc_pending U)(cid \<mapsto> tx)\<rparr>
     in (cid, tx,
         with_correlation_id cid (transport_message_new 0 (gch_client_endpoint ch) target payload at UnaryRequest), ch, U))"

text \<open>
  One poll of the wait, in \<open>unary\<close>: when the timeout around the call has passed, the future of
  \<open>unary_inner\<close> is dropped, and its receiver with it.
\<close>

definition unary_poll ::
  "'c grpc_codes \<Rightarrow> 'w \<Rightarrow> bool \<Rightarrow> str \<Rightarrow> nat \<Rightarrow> ('c, 'm, 'w) unary_calls
    \<Rightarrow> ('c, 'm) unary_result poll \<times> ('c, 'm, 'w) unary_calls"
where
  "unary_poll K wk timed_out cid tx U =
     (let (p, c) = oneshot_poll wk (uc_oneshots U tx); U = U\<lparr>uc_oneshots := (uc_oneshots U)(tx := c)\<rparr>
      in case p of
           Ready (Inr r) \<Rightarrow> (Ready r, U)
         | Ready (Inl _) \<Rightarrow>
             (Ready (Inl (status_new (gc_cancelled K) (lit ''request cancelled''))),
              U\<lparr>uc_pending := (uc_pending U)(cid := None)\<rparr>)
         | Pending \<Rightarrow>
             if timed_out
             then (Ready (Inl (status_new (gc_deadline_exceeded K) (lit ''request timed out''))),
                   U\<lparr>uc_oneshots := (uc_oneshots U)(tx := oneshot_receiver_drop c)\<rparr>)
             else (Pending, U))"

section \<open>Responses at the client\<close>

text \<open>Decoding errors are texts of the status \<open>internal\<close>.\<close>

definition unary_result_of_wire ::
  "'c grpc_codes \<Rightarrow> ('m, 'k, 'v) metadata_lib \<Rightarrow> string + 'c unary_response_wire \<Rightarrow> ('c, 'm) unary_result"
where
  "unary_result_of_wire K L decoded_wire =
     (case decoded_wire of
        Inr wire \<Rightarrow>
          if up_ok wire
          then Inr \<lparr>gm_metadata = metadata_from_wire L (up_metadata wire), gm_payload = up_payload wire\<rparr>
          else Inl (status_new (up_code wire) (up_message wire))
      | Inl e \<Rightarrow> Inl (status_new (gc_internal K) (lit e)))"

text \<open>The branch of \<open>process_event\<close> for unary responses.\<close>

definition client_unary_response ::
  "'c grpc_codes \<Rightarrow> ('m, 'k, 'v) metadata_lib \<Rightarrow> (32 word \<Rightarrow> 'c) \<Rightarrow> transport_message
    \<Rightarrow> ('c, 'm, 'w) unary_calls \<Rightarrow> ('c, 'm, 'w) unary_calls"
where
  "client_unary_response K L from_i32 msg U =
     (case correlation_id msg of
        None \<Rightarrow> U
      | Some cid \<Rightarrow>
          (case uc_pending U cid of
             None \<Rightarrow> U
           | Some tx \<Rightarrow>
               (let (_, ws, c) =
                      oneshot_send (unary_result_of_wire K L (decoded (decode_unary_response from_i32) (tm_payload msg)))
                        (uc_oneshots U tx)
                in U\<lparr>uc_pending := (uc_pending U)(cid := None), uc_oneshots := (uc_oneshots U)(tx := c),
                     uc_woken := uc_woken U @ ws\<rparr>)))"

section \<open>Requests at the server\<close>

text \<open>
  The response to a request; \<open>call\<close> is what the handlers return.
\<close>

definition error_response_wire :: "'c grpc_status \<Rightarrow> 'c unary_response_wire" where
  "error_response_wire status =
     \<lparr>up_ok = False, up_code = gs_code status, up_message = gs_message status, up_metadata = [], up_payload = []\<rparr>"

definition unary_response_wire_of ::
  "'c grpc_codes \<Rightarrow> ('m, 'k, 'v) metadata_lib \<Rightarrow> ('c, 'm) unary_result \<Rightarrow> 'c unary_response_wire"
where
  "unary_response_wire_of K L result =
     (case result of
        Inr resp \<Rightarrow>
          \<lparr>up_ok = True, up_code = gc_ok K, up_message = [], up_metadata = metadata_to_wire L (gm_metadata resp),
           up_payload = gm_payload resp\<rparr>
      | Inl status \<Rightarrow> error_response_wire status)"

definition unary_dispatch ::
  "'c grpc_codes \<Rightarrow> ('m, 'k, 'v) metadata_lib \<Rightarrow> ('h \<Rightarrow> 'm grpc_message \<Rightarrow> ('c, 'm) unary_result) \<Rightarrow> 'h grpc_router
    \<Rightarrow> string + unary_request_wire \<Rightarrow> 'c unary_response_wire"
where
  "unary_dispatch K L call R decoded_wire =
     (case decoded_wire of
        Inr wire \<Rightarrow>
          (case gr_unary R (uq_method wire) of
             Some h \<Rightarrow>
               unary_response_wire_of K L
                 (call h \<lparr>gm_metadata = metadata_from_wire L (uq_metadata wire), gm_payload = uq_payload wire\<rparr>)
           | None \<Rightarrow> error_response_wire (status_new (gc_unimplemented K) (lit ''method not found: '' @ uq_method wire)))
      | Inl e \<Rightarrow> error_response_wire (status_new (gc_internal K) (lit e)))"

text \<open>
  The message that the task of a request sends at time \<open>at\<close>, after its delay and when the handler has
  returned; a request without identifier starts no task.
\<close>

definition server_unary_request ::
  "'c grpc_codes \<Rightarrow> ('m, 'k, 'v) metadata_lib \<Rightarrow> ('c \<Rightarrow> u32) \<Rightarrow> ('h \<Rightarrow> 'm grpc_message \<Rightarrow> ('c, 'm) unary_result)
    \<Rightarrow> 'h grpc_router \<Rightarrow> simtime \<Rightarrow> transport_message \<Rightarrow> transport_message option"
where
  "server_unary_request K L to_u32 call R at msg =
     (case correlation_id msg of
        None \<Rightarrow> None
      | Some cid \<Rightarrow>
          Some (with_correlation_id cid
            (transport_message_new 0 (tm_destination msg) (tm_source msg)
              (encode_unary_response to_u32
                (unary_dispatch K L call R (decoded decode_unary_request (tm_payload msg)))) at UnaryResponse)))"

section \<open>Properties\<close>

text \<open>What a call is meant to return: the handler's result, with what the wire carries of the metadata.\<close>

definition unary_outcome ::
  "'c grpc_codes \<Rightarrow> ('m, 'k, 'v) metadata_lib \<Rightarrow> ('h \<Rightarrow> 'm grpc_message \<Rightarrow> ('c, 'm) unary_result) \<Rightarrow> 'h grpc_router
    \<Rightarrow> str \<Rightarrow> 'm grpc_message \<Rightarrow> ('c, 'm) unary_result"
where
  "unary_outcome K L call R path req =
     (let carried = (\<lambda>msg. msg\<lparr>gm_metadata := metadata_from_wire L (metadata_to_wire L (gm_metadata msg))\<rparr>)
      in case gr_unary R path of
           None \<Rightarrow> Inl (status_new (gc_unimplemented K) (lit ''method not found: '' @ path))
         | Some h \<Rightarrow> map_sum id carried (call h (carried req)))"

lemma with_metadata_eq: "msg\<lparr>gm_metadata := m\<rparr> = \<lparr>gm_metadata = m, gm_payload = gm_payload msg\<rparr>"
  for msg :: "'m grpc_message"
  by simp

lemma dispatch_outcome:
  "unary_result_of_wire K L (Inr (unary_dispatch K L call R (Inr (unary_request_wire_of L path req)))) =
    unary_outcome K L call R path req"
  by (auto simp: unary_result_of_wire_def unary_dispatch_def unary_request_wire_of_def unary_outcome_def Let_def
      unary_response_wire_of_def error_response_wire_def status_new_def with_metadata_eq split: option.split sum.split)

text \<open>
  C13. A unary call whose messages arrive is answered with the handler's result, or with the status
  \<open>unimplemented\<close> if the server has no such method, and the call is no longer pending. The request and
  the response have to fit the wire format.
\<close>

theorem unary_call_answered:
  assumes "status_codes to_u32 from_i32"
    and "unary_send L path req target at (ch, U) = (cid, tx, msg, ch', U1)"
    and "request_ok (unary_request_wire_of L path req)"
    and "response_ok (unary_dispatch K L call R (Inr (unary_request_wire_of L path req)))"
    and "server_unary_request K L to_u32 call R at' msg = Some reply"
    and "client_unary_response K L from_i32 reply U1 = U2"
  shows "fst (unary_poll K wk timed_out cid tx U2) = Ready (unary_outcome K L call R path req) \<and> uc_pending U2 cid = None"
proof -
  let ?wire = "unary_request_wire_of L path req"
  let ?resp = "unary_dispatch K L call R (Inr ?wire)"
  have msg: "tm_payload msg = encode_unary_request ?wire" "correlation_id msg = Some cid"
    and U1: "uc_pending U1 cid = Some tx" "uc_oneshots U1 tx = oneshot_channel"
    using assms(2) by (auto simp: unary_send_def Let_def with_correlation_id_def transport_message_new_def split: prod.splits)
  have "decoded decode_unary_request (encode_unary_request ?wire) = Inr ?wire"
    using request_codec.round_trip [OF assms(3), of "[]"] by simp
  with msg assms(5) have reply: "tm_payload reply = encode_unary_response to_u32 ?resp" "correlation_id reply = Some cid"
    by (auto simp: server_unary_request_def with_correlation_id_def transport_message_new_def)
  have "decoded (decode_unary_response from_i32) (encode_unary_response to_u32 ?resp) = Inr ?resp"
    using status_codes.response_codes [OF assms(1,4), unfolded codes_def, THEN conjunct1, THEN spec, of "[]"]
    by (simp add: decoded_def)
  with reply U1 assms(6) have U2: "uc_pending U2 cid = None" "os_value (uc_oneshots U2 tx) = Some (unary_outcome K L call R path req)"
    by (auto simp: client_unary_response_def oneshot_send_def oneshot_channel_def take_waker_def oneshot_sender_drop_def
        dispatch_outcome Let_def)
  then show ?thesis by (simp add: unary_poll_def oneshot_poll_def)
qed

text \<open>
  A call that runs into its timeout stays in the map of pending calls: only a late response removes it,
  so the map keeps every call whose request or response was lost.
\<close>

theorem unary_timeout_keeps_pending:
  assumes "unary_send L path req target at (ch, U) = (cid, tx, msg, ch', U1)"
    and "unary_poll K wk True cid tx U1 = (r, U2)"
  shows "r = Ready (Inl (status_new (gc_deadline_exceeded K) (lit ''request timed out''))) \<and> uc_pending U2 cid = Some tx"
proof -
  have "uc_pending U1 cid = Some tx" "uc_oneshots U1 tx = oneshot_channel"
    using assms(1) by (auto simp: unary_send_def Let_def split: prod.splits)
  with assms(2) show ?thesis by (auto simp: unary_poll_def oneshot_poll_def oneshot_channel_def)
qed

end
