(* ===== verification/Tonic_Rpc.thy ===== *)
theory Tonic_Rpc
  imports Tonic_Delivery Tonic_Unary
begin

text \<open>
  The endpoints of \<open>des-tonic\<close> as components that get messages of the transport:
  \<open>process_event\<close> of the client endpoint (\<open>channel.rs\<close>) and of the server endpoint
  (\<open>server.rs\<close>), and what calls deliver over messages.
\<close>

section \<open>Messages\<close>

text \<open>\<open>send_rpc_stream_frame\<close>, \<open>send_stream_frame\<close>: a frame as a message of the transport.\<close>

definition stream_message ::
  "('c \<Rightarrow> u32) \<Rightarrow> endpoint_id \<Rightarrow> endpoint_id \<Rightarrow> simtime \<Rightarrow> str \<Rightarrow> 'c stream_frame_wire \<Rightarrow> transport_message"
where
  "stream_message to_u32 source destination at sid f =
     with_correlation_id sid
       (transport_message_new 0 source destination (encode_stream_frame to_u32 f) at RpcStreamFrame)"

definition decode_frame :: "'c grpc_codes \<Rightarrow> (32 word \<Rightarrow> 'c) \<Rightarrow> byte list \<Rightarrow> 'c grpc_status + 'c stream_frame_wire" where
  "decode_frame K from_i32 payload =
     (case decoded (decode_stream_frame (gc_ok K) from_i32) payload of
        Inl e \<Rightarrow> Inl (status_new (gc_internal K) (lit e))
      | Inr f \<Rightarrow> Inr f)"

text \<open>\<open>send_close\<close>: how a server refuses a stream.\<close>

definition send_close_frame :: "str \<Rightarrow> 'c grpc_status \<Rightarrow> 'c stream_frame_wire" where
  "send_close_frame sid status = error_rpc_frame sid 1 status"

section \<open>The client endpoint\<close>

record ('c, 'm, 'w) grpc_client =
  gl_calls :: "('c, 'm, 'w) unary_calls"
  gl_pending_streams :: "str \<rightharpoonup> 'c client_stream"
  gl_channels :: "('c, 'w) rpc_channels"

fun grpc_client_event ::
  "'c grpc_codes \<Rightarrow> ('m, 'k, 'v) metadata_lib \<Rightarrow> (32 word \<Rightarrow> 'c) \<Rightarrow> transport_event
    \<Rightarrow> ('c, 'm, 'w) grpc_client \<Rightarrow> ('c, 'm, 'w) grpc_client"
where
  "grpc_client_event K L from_i32 (MessageDelivered msg) C =
     (case tm_type msg of
        UnaryResponse \<Rightarrow> C\<lparr>gl_calls := client_unary_response K L from_i32 msg (gl_calls C)\<rparr>
      | RpcStreamFrame \<Rightarrow>
          (case correlation_id msg of
             None \<Rightarrow> C
           | Some sid \<Rightarrow>
               (let (pending, W) =
                      client_stream_frame K sid (decode_frame K from_i32 (tm_payload msg)) (gl_pending_streams C, gl_channels C)
                in C\<lparr>gl_pending_streams := pending, gl_channels := W\<rparr>))
      | _ \<Rightarrow> C)"
| "grpc_client_event K L from_i32 _ C = C"

section \<open>The server endpoint\<close>

record ('c, 'h, 'w) grpc_server =
  gs_streams :: "str \<rightharpoonup> ('c, 'h) server_stream"
  gs_channels :: "('c, 'w) rpc_channels"

text \<open>What it does besides: the task of a unary request, the tasks of streams, and refusals.\<close>

datatype ('c, 'h) grpc_output = UnaryTask transport_message | StreamAction "('c, 'h) server_action"

fun grpc_server_event ::
  "'c grpc_codes \<Rightarrow> 'h grpc_router \<Rightarrow> (32 word \<Rightarrow> 'c) \<Rightarrow> transport_event \<Rightarrow> ('c, 'h, 'w) grpc_server
    \<Rightarrow> ('c, 'h) grpc_output list \<times> ('c, 'h, 'w) grpc_server"
where
  "grpc_server_event K R from_i32 (MessageDelivered msg) S =
     (case tm_type msg of
        UnaryRequest \<Rightarrow> (if correlation_id msg = None then [] else [UnaryTask msg], S)
      | RpcStreamFrame \<Rightarrow>
          (case correlation_id msg of
             None \<Rightarrow> ([], S)
           | Some sid \<Rightarrow>
               (let (streams, W, acts) =
                      server_stream_frame K R sid (decode_frame K from_i32 (tm_payload msg)) (gs_streams S, gs_channels S)
                in (map StreamAction acts, S\<lparr>gs_streams := streams, gs_channels := W\<rparr>)))
      | _ \<Rightarrow> ([], S))"
| "grpc_server_event K R from_i32 _ S = ([], S)"

fun grpc_server_events ::
  "'c grpc_codes \<Rightarrow> 'h grpc_router \<Rightarrow> (32 word \<Rightarrow> 'c) \<Rightarrow> transport_event list \<Rightarrow> ('c, 'h, 'w) grpc_server
    \<Rightarrow> ('c, 'h) grpc_output list \<times> ('c, 'h, 'w) grpc_server"
where
  "grpc_server_events K R from_i32 [] S = ([], S)"
| "grpc_server_events K R from_i32 (ev # evs) S =
     (let (out, S) = grpc_server_event K R from_i32 ev S; (out', S) = grpc_server_events K R from_i32 evs S
      in (out @ out', S))"

section \<open>Frames over messages\<close>

lemma decode_frame_encoded:
  assumes "status_codes to_u32 from_i32" "frame_ok (gc_ok K) f"
  shows "decode_frame K from_i32 (encode_stream_frame to_u32 f) = Inr f"
  using status_codes.frame_codes [OF assms, unfolded codes_def, THEN conjunct1, THEN spec, of "[]"]
  by (simp add: decode_frame_def decoded_def)

lemma stream_message_simps [simp]:
  "tm_type (stream_message to_u32 source destination at sid f) = RpcStreamFrame"
  "correlation_id (stream_message to_u32 source destination at sid f) = Some sid"
  "tm_payload (stream_message to_u32 source destination at sid f) = encode_stream_frame to_u32 f"
  by (simp_all add: stream_message_def with_correlation_id_def transport_message_new_def)

lemma client_messages_frames:
  assumes "status_codes to_u32 from_i32" "\<forall>i\<in>set xs. frame_ok (gc_ok K) (g i)"
    and "fold (\<lambda>i. client_stream_frame K sid (Inr (g i))) xs (gl_pending_streams C, gl_channels C) = (pending', W')"
  shows "fold (\<lambda>i. grpc_client_event K L from_i32 (MessageDelivered (stream_message to_u32 source destination (at i) sid (g i)))) xs C =
    C\<lparr>gl_pending_streams := pending', gl_channels := W'\<rparr>"
  using assms(2,3)
proof (induction xs arbitrary: C)
  case (Cons i xs)
  obtain pending W where f: "client_stream_frame K sid (Inr (g i)) (gl_pending_streams C, gl_channels C) = (pending, W)"
    by fastforce
  with Cons.prems(1) have "grpc_client_event K L from_i32 (MessageDelivered (stream_message to_u32 source destination (at i) sid (g i))) C =
    C\<lparr>gl_pending_streams := pending, gl_channels := W\<rparr>"
    by (simp add: decode_frame_encoded [OF assms(1)])
  with f Cons.IH [of "C\<lparr>gl_pending_streams := pending, gl_channels := W\<rparr>"] Cons.prems show ?case by simp
qed simp

lemma server_frame_message:
  assumes "status_codes to_u32 from_i32" "frame_ok (gc_ok K) f"
  shows "grpc_server_event K R from_i32 (MessageDelivered (stream_message to_u32 source destination at sid f)) S =
    (let (streams, W, acts) = server_stream_frame K R sid (Inr f :: unit + _) (gs_streams S, gs_channels S)
     in (map StreamAction acts, S\<lparr>gs_streams := streams, gs_channels := W\<rparr>))"
  by (simp add: decode_frame_encoded [OF assms] server_stream_frame_def)

lemma server_messages_frames:
  assumes "status_codes to_u32 from_i32" "\<forall>f\<in>set fs. frame_ok (gc_ok K) f"
    and "server_stream_frames K R sid fs (gs_streams S, gs_channels S) = (streams', W', acts)"
  shows "grpc_server_events K R from_i32 (map (\<lambda>f. MessageDelivered (stream_message to_u32 source destination (at f) sid f)) fs) S =
    (map StreamAction acts, S\<lparr>gs_streams := streams', gs_channels := W'\<rparr>)"
  using assms(2,3)
proof (induction fs arbitrary: S acts)
  case (Cons f fs)
  obtain streams W acts1 where f: "server_stream_frame K R sid (Inr f :: unit + _) (gs_streams S, gs_channels S) = (streams, W, acts1)"
    using prod_cases3 by blast
  let ?S = "S\<lparr>gs_streams := streams, gs_channels := W\<rparr>"
  obtain acts2 where r: "server_stream_frames K R sid fs (gs_streams ?S, gs_channels ?S) = (streams', W', acts2)" "acts = acts1 @ acts2"
    using Cons.prems(2) f by (auto split: prod.splits)
  with f Cons.IH [OF _ r(1)] Cons.prems(1) show ?case by (simp add: server_frame_message [OF assms(1)] del: grpc_server_event.simps)
qed simp

section \<open>Properties\<close>

text \<open>
  C11. The response of a server-streaming or bidirectional call reaches its reader: however the
  messages that carry the server's frames are reordered on their way, the reader's channel holds the
  items of the handler's stream in order, up to the first status, its sender is gone, the client
  forgets the stream, and nothing else of the client changes. The channel has room for 16 items that
  were not read, and the frames fit the wire format.
\<close>

theorem response_messages_delivered:
  assumes "status_codes to_u32 from_i32" "\<forall>f\<in>set (streaming_response_frames K sid path result). frame_ok (gc_ok K) f"
    and "mode \<noteq> ClientMode" "gl_pending_streams C sid = Some (client_stream_new mode None (Some tx))"
    and "open_channel [] (ch_mpscs (gl_channels C) tx)" "length (response_items result) \<le> 16"
    and "reordered 0 (length (streaming_response_frames K sid path result)) xs"
    and "fold (\<lambda>i. grpc_client_event K L from_i32 (MessageDelivered (stream_message to_u32 source destination (at i) sid
      (streaming_response_frames K sid path result ! i)))) xs C = C'"
  shows "gl_pending_streams C' = (gl_pending_streams C)(sid := None) \<and>
    ended_channel (response_items result) (ch_mpscs (gl_channels C') tx) \<and> gl_calls C' = gl_calls C"
proof -
  let ?fs = "streaming_response_frames K sid path result"
  obtain pending' W' where f: "fold (\<lambda>i. client_stream_frame K sid (Inr (?fs ! i))) xs (gl_pending_streams C, gl_channels C) =
    (pending', W')" by fastforce
  have "\<forall>i\<in>set xs. frame_ok (gc_ok K) (?fs ! i)" using assms(2,7) by (auto simp: reordered_def)
  from client_messages_frames [OF assms(1) this f, where at = at and source = source and destination = destination and L = L]
  have "C' = C\<lparr>gl_pending_streams := pending', gl_channels := W'\<rparr>" using assms(8) by simp
  with response_stream_delivered [OF assms(3-7) f] show ?thesis by simp
qed

text \<open>
  C12. The requests of a client-streaming or bidirectional call reach the handler: once the message
  with the opening frame has arrived, and however the others are reordered, the handler's task is
  started once with the channel of the stream, the channel holds the payloads in the order in which
  they were sent, its sender is gone, and the server forgets the stream.
\<close>

theorem request_messages_delivered:
  assumes "status_codes to_u32 from_i32" "\<forall>f\<in>set (streaming_request_frames K sid path payloads). frame_ok (gc_ok K) f"
    and "gs_streams S sid = None" "inbound_handler R bidi path h" "length payloads \<le> 16"
    and "reordered 1 (length (streaming_request_frames K sid path payloads)) xs"
    and "grpc_server_events K R from_i32 (map (\<lambda>f. MessageDelivered (stream_message to_u32 source destination (at f) sid f))
      (map ((!) (streaming_request_frames K sid path payloads)) (0 # xs))) S = (out, S')"
  shows "gs_streams S' = (gs_streams S)(sid := None) \<and>
    out = [StreamAction (spawn_inbound bidi h (ch_next (gs_channels S)) path)] \<and>
    ended_channel (map Inr payloads) (ch_mpscs (gs_channels S') (ch_next (gs_channels S)))"
proof -
  let ?fs = "streaming_request_frames K sid path payloads"
  obtain streams' W' acts where f: "server_stream_frames K R sid (map ((!) ?fs) (0 # xs)) (gs_streams S, gs_channels S) =
    (streams', W', acts)" using prod_cases3 by blast
  have "\<forall>f\<in>set (map ((!) ?fs) (0 # xs)). frame_ok (gc_ok K) f"
    using assms(2,6) by (auto simp: reordered_def streaming_request_frames_length)
  from server_messages_frames [OF assms(1) this f, where at = at and source = source and destination = destination]
  have "out = map StreamAction acts" "S' = S\<lparr>gs_streams := streams', gs_channels := W'\<rparr>" using assms(7) by simp_all
  with request_stream_delivered [where streams = "gs_streams S" and sid = sid, OF assms(3-6) f] show ?thesis by simp
qed

text \<open>
  C34. A call of a streaming method that the server does not have is reported to the caller: the server
  refuses the stream without starting anything, and its single message, though it is numbered one and no
  opening frame comes before it, ends the caller's stream with the status \<open>unimplemented\<close>.
\<close>

theorem unknown_method_reported:
  assumes "status_codes to_u32 from_i32" "string_ok sid" "string_ok path" "string_ok (lit ''method not found: '' @ path)"
    and "gs_streams S sid = None"
    and "gr_bidi_streaming R path = None" "gr_server_streaming R path = None" "gr_client_streaming R path = None"
    and "mode \<noteq> ClientMode" "gl_pending_streams C sid = Some (client_stream_new mode None (Some tx))"
    and "open_channel [] (ch_mpscs (gl_channels C) tx)"
    and "status = status_new (gc_unimplemented K) (lit ''method not found: '' @ path)"
    and "grpc_client_event K L from_i32 (MessageDelivered (stream_message to_u32 source destination at sid (send_close_frame sid status))) C = C'"
  shows "grpc_server_event K R from_i32 (MessageDelivered (stream_message to_u32 destination source at' sid
      (open_rpc_frame K sid ClientToServer path))) S = ([StreamAction (SendClose status)], S) \<and>
    gl_pending_streams C' sid = None \<and> ended_channel [Inl status] (ch_mpscs (gl_channels C') tx)"
proof
  have ok: "frame_ok (gc_ok K) (open_rpc_frame K sid ClientToServer path)" "frame_ok (gc_ok K) (send_close_frame sid status)"
    using assms(2-4,12)
    by (simp_all add: frame_ok_def open_rpc_frame_def send_close_frame_def error_rpc_frame_def rpc_frame_def status_new_def
        kv_ok_def len_ok_def)
  show "grpc_server_event K R from_i32 (MessageDelivered (stream_message to_u32 destination source at' sid
      (open_rpc_frame K sid ClientToServer path))) S = ([StreamAction (SendClose status)], S)"
    unfolding server_frame_message [OF assms(1) ok(1)] using assms(5-8,12)
    by (simp add: server_stream_frame_def server_open_def open_rpc_frame_def rpc_frame_def)
  let ?st = "client_stream_new mode None (Some tx)"
  let ?f = "error_rpc_frame sid 1 status"
  have f: "direction ?f = ServerToClient" "stream_id ?f = sid" "sf_seq ?f = 1" by (simp_all add: error_rpc_frame_def rpc_frame_def)
  let ?st1 = "?st\<lparr>cs_reorder := [(1, ?f)], cs_saw_open := True, cs_next_expected := 1\<rparr>"
  obtain s where s: "client_frame K ?f (?st1, gl_channels C) = (s, False)"
    "ended_channel [Inl status] (ch_mpscs (drop_client_stream s) tx)"
    using error_frame_handled [of ?st1 tx "[]" "gl_channels C" K sid 1 status] assms(9,11) by (auto simp: client_stream_new_def)
  have "client_arrival K ?f (Some ?st, gl_channels C) = (None, drop_client_stream s)"
    using s(1) f(3) by (simp add: client_arrival_def client_stream_arrival_def client_stream_new_def implicit_open_def
        MAX_REORDER_FRAMES_def drain.simps [of _ 1] split: prod.split)
  then have "client_stream_frame K sid (Inr ?f) (gl_pending_streams C, gl_channels C) =
    ((gl_pending_streams C)(sid := None), drop_client_stream s)"
    using client_stream_frame_arrival [OF f(1,2), of K "gl_pending_streams C" "gl_channels C"] assms(10) by (auto simp: fun_eq_iff)
  then show "gl_pending_streams C' sid = None \<and> ended_channel [Inl status] (ch_mpscs (gl_channels C') tx)"
    using assms(13) s(2) decode_frame_encoded [OF assms(1) ok(2)] by (auto simp: send_close_frame_def)
qed

section \<open>Examples\<close>

definition rpc_codes :: "code grpc_codes" where
  "rpc_codes = \<lparr>gc_ok = code.Ok, gc_internal = code.Internal, gc_resource_exhausted = code.ResourceExhausted, gc_cancelled = code.Cancelled,
     gc_deadline_exceeded = code.DeadlineExceeded, gc_unavailable = code.Unavailable, gc_unimplemented = code.Unimplemented,
     gc_invalid_argument = code.InvalidArgument\<rparr>"

text \<open>Metadata maps as lists of entries.\<close>

definition list_metadata :: "((str \<times> str) list, str, str) metadata_lib" where
  "list_metadata = \<lparr>md_empty = [], md_parse_key = Some, md_parse_value = Some, md_insert = (\<lambda>k v m. m @ [(k, v)]),
     md_iter = map (\<lambda>(k, v). AsciiEntry k (Some v))\<rparr>"

definition rpc_channels_new :: "('c, 'w) rpc_channels" where
  "rpc_channels_new = \<lparr>ch_oneshots = (\<lambda>_. oneshot_channel), ch_mpscs = (\<lambda>_. mpsc_new 16), ch_woken = [], ch_next = 0\<rparr>"

definition no_calls :: "(code, (str \<times> str) list, nat) unary_calls" where
  "no_calls = \<lparr>uc_pending = Map.empty, uc_oneshots = (\<lambda>_. oneshot_channel), uc_next = 0, uc_woken = []\<rparr>"

definition echo_client :: "(code, (str \<times> str) list, nat) grpc_client" where
  "echo_client = \<lparr>gl_calls = no_calls, gl_pending_streams = [lit ''s'' \<mapsto> client_stream_new BidiMode None (Some 0)],
     gl_channels = rpc_channels_new\<rparr>"

definition idle_server :: "(code, nat, nat) grpc_server" where
  "idle_server = \<lparr>gs_streams = Map.empty, gs_channels = rpc_channels_new\<rparr>"

lemma rpc_channels_new_open: "open_channel [] (ch_mpscs rpc_channels_new tx)"
  by (simp add: rpc_channels_new_def open_channel_def mpsc_new_def)

text \<open>Two items and a status; the opening frame arrives third.\<close>

definition echo_result :: "code grpc_status + code item list" where
  "echo_result = Inr [Inr [1], Inr [2], Inl (status_new code.NotFound (lit ''x''))]"

lemma echo_frames:
  "length (streaming_response_frames rpc_codes (lit ''s'') (lit ''/echo'') echo_result) = 4"
  "\<forall>f\<in>set (streaming_response_frames rpc_codes (lit ''s'') (lit ''/echo'') echo_result). frame_ok (gc_ok rpc_codes) f"
  by (simp_all add: streaming_response_frames_def echo_result_def open_rpc_frame_def data_rpc_frame_def error_rpc_frame_def
      rpc_frame_def frame_ok_def wire_ok_eval status_new_def rpc_codes_def)

theorem response_messages_delivered_witness:
  "let C' = fold (\<lambda>i. grpc_client_event rpc_codes list_metadata grpc_from_i32 (MessageDelivered
        (stream_message grpc_to_u32 7 8 zero (lit ''s'') (streaming_response_frames rpc_codes (lit ''s'') (lit ''/echo'') echo_result ! i))))
        [2, 1, 0, 3] echo_client
   in gl_pending_streams C' = Map.empty \<and>
      ended_channel [Inr [1], Inr [2], Inl (status_new code.NotFound (lit ''x''))] (ch_mpscs (gl_channels C') 0)"
proof -
  have ord: "reordered 0 (length (streaming_response_frames rpc_codes (lit ''s'') (lit ''/echo'') echo_result)) [2, 1, 0, 3]"
    unfolding echo_frames(1) by (rule reordered_small) auto
  from response_messages_delivered [OF grpc.status_codes_axioms echo_frames(2) _ _ _ _ ord refl,
      of BidiMode echo_client 0 list_metadata 7 8 "\<lambda>_. zero"]
  show ?thesis
    by (simp add: echo_client_def rpc_channels_new_open echo_result_def response_items_def Let_def del: fold_simps)
qed

lemma sum_frames:
  "\<forall>f\<in>set (streaming_request_frames rpc_codes (lit ''s'') (lit ''/sum'') [[1], [2]]). frame_ok (gc_ok rpc_codes) f"
  by (simp add: streaming_request_frames_def open_rpc_frame_def data_rpc_frame_def close_rpc_frame_def rpc_frame_def
      frame_ok_def wire_ok_eval rpc_codes_def)

theorem request_messages_delivered_witness:
  "\<exists>out S'. grpc_server_events rpc_codes example_router grpc_from_i32
      (map (\<lambda>f. MessageDelivered (stream_message grpc_to_u32 7 8 zero (lit ''s'') f))
        (map ((!) (streaming_request_frames rpc_codes (lit ''s'') (lit ''/sum'') [[1], [2]])) [0, 3, 2, 1])) idle_server = (out, S') \<and>
    gs_streams S' = Map.empty \<and> out = [StreamAction (SpawnClient 2 0 [] (lit ''/sum''))] \<and>
    ended_channel [Inr [1], Inr [2]] (ch_mpscs (gs_channels S') 0)"
proof -
  have h: "inbound_handler example_router False (lit ''/sum'') 2" by (simp add: inbound_handler_def example_router_def lit_def)
  have ord: "reordered 1 (length (streaming_request_frames rpc_codes (lit ''s'') (lit ''/sum'') [[1], [2]])) [3, 2, 1]"
    unfolding streaming_request_frames_length by (rule reordered_small) auto
  obtain out S' where r: "grpc_server_events rpc_codes example_router grpc_from_i32
      (map (\<lambda>f. MessageDelivered (stream_message grpc_to_u32 7 8 zero (lit ''s'') f))
        (map ((!) (streaming_request_frames rpc_codes (lit ''s'') (lit ''/sum'') [[1], [2]])) [0, 3, 2, 1])) idle_server = (out, S')"
    by (metis prod.exhaust)
  from request_messages_delivered [OF grpc.status_codes_axioms sum_frames _ h _ ord r] r show ?thesis
    by (simp add: idle_server_def spawn_inbound_def rpc_channels_new_def del: grpc_server_events.simps)
qed

theorem unknown_method_reported_witness:
  "let status = status_new code.Unimplemented (lit ''method not found: '' @ lit ''/none'');
       C' = grpc_client_event rpc_codes list_metadata grpc_from_i32 (MessageDelivered
         (stream_message grpc_to_u32 7 8 zero (lit ''s'') (send_close_frame (lit ''s'') status))) echo_client
   in grpc_server_event rpc_codes example_router grpc_from_i32 (MessageDelivered (stream_message grpc_to_u32 8 7 zero (lit ''s'')
        (open_rpc_frame rpc_codes (lit ''s'') ClientToServer (lit ''/none'')))) idle_server = ([StreamAction (SendClose status)], idle_server) \<and>
      ended_channel [Inl status] (ch_mpscs (gl_channels C') 0)"
proof -
  have ok: "string_ok (lit ''s'')" "string_ok (lit ''/none'')" "string_ok (lit ''method not found: '' @ lit ''/none'')"
    by (simp_all add: wire_ok_eval)
  from unknown_method_reported [OF grpc.status_codes_axioms ok, where S = idle_server and R = example_router and K = rpc_codes
      and mode = BidiMode and C = echo_client and tx = 0 and at = zero and at' = zero and source = 7 and destination = 8
      and L = list_metadata, OF _ _ _ _ _ _ _ refl refl]
  show ?thesis
    by (simp add: idle_server_def example_router_def echo_client_def rpc_channels_new_open lit_def rpc_codes_def Let_def
        del: grpc_server_event.simps grpc_client_event.simps)
qed

text \<open>A unary call of a method that adds an entry to the metadata and reverses the payload.\<close>

definition reverse_router :: "nat grpc_router" where
  "reverse_router = \<lparr>gr_unary = [lit ''/rev'' \<mapsto> 1], gr_server_streaming = Map.empty, gr_client_streaming = Map.empty,
     gr_bidi_streaming = Map.empty\<rparr>"

definition reverse_call :: "nat \<Rightarrow> (str \<times> str) list grpc_message \<Rightarrow> (code, (str \<times> str) list) unary_result" where
  "reverse_call h req = Inr \<lparr>gm_metadata = gm_metadata req @ [(lit ''k'', lit ''v'')], gm_payload = rev (gm_payload req)\<rparr>"

definition reverse_request :: "(str \<times> str) list grpc_message" where
  "reverse_request = \<lparr>gm_metadata = [(lit ''a'', lit ''b'')], gm_payload = [1, 2, 3]\<rparr>"

lemmas reverse_defs = reverse_router_def reverse_call_def reverse_request_def list_metadata_def metadata_to_wire_def
  metadata_from_wire_def unary_request_wire_of_def unary_dispatch_def unary_response_wire_of_def List.map_filter_simps

theorem unary_call_answered_witness:
  "\<exists>cid tx msg ch' U1 reply. unary_send list_metadata (lit ''/rev'') reverse_request 7 zero (grpc_channel_new (lit ''svc'') 8, no_calls) =
      (cid, tx, msg, ch', U1) \<and>
    server_unary_request rpc_codes list_metadata grpc_to_u32 reverse_call reverse_router zero msg = Some reply \<and>
    fst (unary_poll rpc_codes 0 False cid tx (client_unary_response rpc_codes list_metadata grpc_from_i32 reply U1)) =
      Ready (Inr \<lparr>gm_metadata = [(lit ''a'', lit ''b''), (lit ''k'', lit ''v'')], gm_payload = [3, 2, 1]\<rparr>)"
proof -
  obtain cid tx msg ch' U1 where send: "unary_send list_metadata (lit ''/rev'') reverse_request 7 zero
      (grpc_channel_new (lit ''svc'') 8, no_calls) = (cid, tx, msg, ch', U1)" by (metis prod.exhaust)
  then obtain reply where reply: "server_unary_request rpc_codes list_metadata grpc_to_u32 reverse_call reverse_router zero msg = Some reply"
    by (auto simp: unary_send_def Let_def server_unary_request_def with_correlation_id_def split: prod.splits)
  have ok: "request_ok (unary_request_wire_of list_metadata (lit ''/rev'') reverse_request)"
    "response_ok (unary_dispatch rpc_codes list_metadata reverse_call reverse_router
      (Inr (unary_request_wire_of list_metadata (lit ''/rev'') reverse_request)))"
    by (simp_all add: reverse_defs request_ok_def response_ok_def wire_ok_eval)
  have "unary_outcome rpc_codes list_metadata reverse_call reverse_router (lit ''/rev'') reverse_request =
      Inr \<lparr>gm_metadata = [(lit ''a'', lit ''b''), (lit ''k'', lit ''v'')], gm_payload = [3, 2, 1]\<rparr>"
    by (simp add: unary_outcome_def reverse_defs Let_def)
  with unary_call_answered [OF grpc.status_codes_axioms send ok reply refl, of 0 False] send reply show ?thesis by auto
qed

theorem unary_timeout_keeps_pending_witness:
  "\<exists>cid tx msg ch' U1 r U2. unary_send list_metadata (lit ''/rev'') reverse_request 7 zero (grpc_channel_new (lit ''svc'') 8, no_calls) =
      (cid, tx, msg, ch', U1) \<and> unary_poll rpc_codes 0 True cid tx U1 = (r, U2) \<and> uc_pending U2 cid = Some tx"
proof -
  obtain cid tx msg ch' U1 where send: "unary_send list_metadata (lit ''/rev'') reverse_request 7 zero
      (grpc_channel_new (lit ''svc'') 8, no_calls) = (cid, tx, msg, ch', U1)" by (metis prod.exhaust)
  moreover obtain r U2 where poll: "unary_poll rpc_codes 0 True cid tx U1 = (r, U2)" by fastforce
  ultimately show ?thesis using unary_timeout_keeps_pending [OF send poll] by blast
qed

end
