(* ===== verification/Sim_Transport.thy ===== *)
theory Sim_Transport
  imports Network_Model Pending_Events "HOL-Library.Sublist"
begin

text \<open>
  \<open>des-components/src/transport/sim_transport.rs\<close>: the transport component, and the network
  it forms with the components behind it. The last sections show that no message is lost or
  duplicated beyond those the network model drops, and that messages between two endpoints
  arrive in the order they were sent.
\<close>

section \<open>The component\<close>

text \<open>The counters are \<open>u64\<close>; they count events and bytes of a run and are natural numbers here.\<close>

record transport_stats =
  messages_sent :: nat
  messages_delivered :: nat
  messages_dropped :: nat
  bytes_sent :: nat
  bytes_delivered :: nat

definition transport_stats_default :: transport_stats where
  "transport_stats_default =
     \<lparr>messages_sent = 0, messages_delivered = 0, messages_dropped = 0, bytes_sent = 0, bytes_delivered = 0\<rparr>"

record ('n, 'w) sim_transport =
  st_network_model :: 'n
  st_endpoint_registry :: "'w shared_registry"
  next_message_id :: u64
  message_handlers :: "endpoint_id \<rightharpoonup> uuid"
  stats :: transport_stats

definition sim_transport_new :: "'n \<Rightarrow> ('n, 'w) sim_transport" where
  "sim_transport_new n =
     \<lparr>st_network_model = n, st_endpoint_registry = shared_registry_new, next_message_id = 1,
      message_handlers = Map.empty, stats = transport_stats_default\<rparr>"

definition register_handler :: "endpoint_id \<Rightarrow> uuid \<Rightarrow> ('n, 'w) sim_transport \<Rightarrow> ('n, 'w) sim_transport" where
  "register_handler e k t = t\<lparr>message_handlers := (message_handlers t)(e \<mapsto> k)\<rparr>"

definition unregister_handler :: "endpoint_id \<Rightarrow> ('n, 'w) sim_transport \<Rightarrow> ('n, 'w) sim_transport" where
  "unregister_handler e t = t\<lparr>message_handlers := (message_handlers t)(e := None)\<rparr>"

type_synonym ('t, 'v, 'z) net_world = "(transport_event, 't, 'v, 'z) world_scheme"

text \<open>Both send functions always return \<open>Ok\<close> of the identifier; it wraps in release builds.\<close>

definition send_message ::
  "endpoint_id \<Rightarrow> endpoint_id \<Rightarrow> byte list \<Rightarrow> message_type \<Rightarrow> uuid \<Rightarrow> ('n, 'w) sim_transport
    \<Rightarrow> ('t, 'v, 'z) net_world \<Rightarrow> u64 \<times> ('n, 'w) sim_transport \<times> ('t, 'v, 'z) net_world"
where
  "send_message source destination payload ty self_key t w =
     (let i = next_message_id t;
          t = t\<lparr>next_message_id := i + 1\<rparr>;
          m = transport_message_new i source destination payload (time w) ty
      in (i, t, schedule_now self_key (SendMessage m) w))"

definition send_message_with_correlation ::
  "endpoint_id \<Rightarrow> endpoint_id \<Rightarrow> byte list \<Rightarrow> message_type \<Rightarrow> str \<Rightarrow> uuid \<Rightarrow> ('n, 'w) sim_transport
    \<Rightarrow> ('t, 'v, 'z) net_world \<Rightarrow> u64 \<times> ('n, 'w) sim_transport \<times> ('t, 'v, 'z) net_world"
where
  "send_message_with_correlation source destination payload ty c self_key t w =
     (let i = next_message_id t;
          t = t\<lparr>next_message_id := i + 1\<rparr>;
          m = with_correlation_id c (transport_message_new i source destination payload (time w) ty)
      in (i, t, schedule_now self_key (SendMessage m) w))"

text \<open>A message without a handler is lost after it was counted; only a warning is printed.\<close>

definition handle_message_delivered ::
  "transport_message \<Rightarrow> ('n, 'w) sim_transport \<Rightarrow> ('t, 'v, 'z) net_world
    \<Rightarrow> ('n, 'w) sim_transport \<times> ('t, 'v, 'z) net_world"
where
  "handle_message_delivered m t w =
     (let s = stats t;
          t = t\<lparr>stats := s\<lparr>messages_delivered := messages_delivered s + 1,
                           bytes_delivered := bytes_delivered s + message_size m\<rparr>\<rparr>
      in case message_handlers t (tm_destination m) of
           Some k \<Rightarrow> (t, schedule_now k (MessageDelivered m) w)
         | None \<Rightarrow> (t, w))"

text \<open>Only prints.\<close>

definition handle_message_dropped :: "transport_message \<Rightarrow> str \<Rightarrow> ('n, 'w) sim_transport \<Rightarrow> ('n, 'w) sim_transport" where
  "handle_message_dropped m reason t = t"

definition reset_stats :: "('n, 'w) sim_transport \<Rightarrow> ('n, 'w) sim_transport" where
  "reset_stats t = t\<lparr>stats := transport_stats_default\<rparr>"

definition reset_network_model :: "'n network_model \<Rightarrow> ('n, 'w) sim_transport \<Rightarrow> ('n, 'w) sim_transport" where
  "reset_network_model NM t = t\<lparr>st_network_model := model_reset NM (st_network_model t)\<rparr>"

text \<open>The identifier of a message that enters the network, and the next free one.\<close>

definition assign_id ::
  "transport_message \<Rightarrow> ('n, 'w) sim_transport \<Rightarrow> transport_message \<times> ('n, 'w) sim_transport"
where
  "assign_id m t =
     (if tm_id m = 0 then
        (m\<lparr>tm_id := next_message_id t\<rparr>, t\<lparr>next_message_id := next_message_id t + 1\<rparr>)
      else if next_message_id t \<le> tm_id m then (m, t\<lparr>next_message_id := tm_id m + 1\<rparr>)
      else (m, t))"

definition count_sent :: "transport_message \<Rightarrow> ('n, 'w) sim_transport \<Rightarrow> ('n, 'w) sim_transport" where
  "count_sent m t =
     (let s = stats t
      in t\<lparr>stats := s\<lparr>messages_sent := messages_sent s + 1, bytes_sent := bytes_sent s + message_size m\<rparr>\<rparr>)"

definition count_dropped :: "('n, 'w) sim_transport \<Rightarrow> ('n, 'w) sim_transport" where
  "count_dropped t = (let s = stats t in t\<lparr>stats := s\<lparr>messages_dropped := messages_dropped s + 1\<rparr>\<rparr>)"

definition packet_loss :: str where
  "packet_loss = lit ''Network packet loss''"

fun transport_process_event ::
  "'n network_model \<Rightarrow> uuid \<Rightarrow> transport_event \<Rightarrow> ('n, 'w) sim_transport \<Rightarrow> ('t, 'v, 'z) net_world
    \<Rightarrow> (('n, 'w) sim_transport \<times> ('t, 'v, 'z) net_world) option"
where
  "transport_process_event NM self_id (SendMessage message) t w =
     (let (m, t) = assign_id message t;
          m = m\<lparr>sent_at := time w\<rparr>;
          t = count_sent m t;
          (drop, n) = should_drop_message NM (tm_source m) (tm_destination m) m (st_network_model t);
          t = t\<lparr>st_network_model := n\<rparr>
      in if drop then Some (count_dropped t, schedule_now self_id (MessageDropped m packet_loss) w)
         else
           (case calculate_latency NM (tm_source m) (tm_destination m) m (st_network_model t) of
              None \<Rightarrow> None
            | Some (latency, n) \<Rightarrow>
                Some (t\<lparr>st_network_model := n\<rparr>,
                      schedule (from_duration latency) self_id (MessageDelivered m) w)))"
| "transport_process_event NM self_id (MessageDelivered m) t w = Some (handle_message_delivered m t w)"
| "transport_process_event NM self_id (MessageDropped m reason) t w = Some (handle_message_dropped m reason t, w)"

text \<open>\<open>SimTransportBuilder::build\<close>, with the error text of a missing model.\<close>

definition transport_build :: "'n option \<Rightarrow> str + ('n, 'w) sim_transport" where
  "transport_build n =
     (case n of None \<Rightarrow> Inl (lit ''Network model is required'') | Some n \<Rightarrow> Inr (sim_transport_new n))"

section \<open>The network\<close>

text \<open>
  The transport and the components its messages are for, whose code \<open>hp\<close> is a parameter.
\<close>

datatype ('n, 'w, 'h) network_component = TransportC "('n, 'w) sim_transport" | EndpointC 'h

fun network_handle ::
  "'n network_model \<Rightarrow> ('h, transport_event, 't, 'v, 'z) handler
    \<Rightarrow> (('n, 'w, 'h) network_component, transport_event, 't, 'v, 'z) handler"
where
  "network_handle NM hp (TransportC t) k ev w =
     map_option (\<lambda>(t, w). (TransportC t, w)) (transport_process_event NM k ev t w)"
| "network_handle NM hp (EndpointC h) k ev w = map_option (\<lambda>(h, w). (EndpointC h, w)) (hp h k ev w)"

text \<open>A message in flight: a delivery that is scheduled for the transport \<open>tk\<close>.\<close>

fun in_flight :: "uuid \<Rightarrow> transport_event event_entry \<Rightarrow> bool" where
  "in_flight tk (Component e) =
     (component e = tk \<and> (case inner e of MessageDelivered _ \<Rightarrow> True | _ \<Rightarrow> False))"
| "in_flight tk (Task e) = False"

definition flight :: "uuid \<Rightarrow> ('t, 'v, 'z) net_world \<Rightarrow> transport_event event_entry multiset" where
  "flight tk w = filter_mset (in_flight tk) (mset (events w))"

text \<open>The entry that delivers a message, scheduled with a given delay.\<close>

definition delivery :: "uuid \<Rightarrow> duration \<Rightarrow> transport_message \<Rightarrow> ('t, 'v, 'z) net_world \<Rightarrow> transport_event event_entry" where
  "delivery tk d m w =
     Component \<lparr>ce_event_id = next_event_id w + 1, ce_time = add_simtime (time w) (from_duration d),
                component = tk, inner = MessageDelivered m\<rparr>"

text \<open>Code that leaves the messages in flight to the transport.\<close>

definition keeps_flight :: "uuid \<Rightarrow> ('t, 'v, 'z) net_world \<Rightarrow> ('t, 'v, 'z) net_world \<Rightarrow> bool" where
  "keeps_flight tk w w' \<longleftrightarrow>
     flight tk w' = flight tk w \<and>
     (deferred_wakes w = [] \<longrightarrow> (\<forall>(d, k, ev)\<in>set (deferred_wakes w'). k = tk \<longrightarrow> (\<forall>m. ev \<noteq> MessageDelivered m)))"

lemma keeps_flight_events: "events w' = events w \<Longrightarrow> deferred_wakes w' = deferred_wakes w \<Longrightarrow> keeps_flight tk w w'"
  by (simp add: keeps_flight_def flight_def)

lemma flight_schedule:
  "flight tk (schedule d k ev w) =
     flight tk w + (if k = tk \<and> (\<exists>m. ev = MessageDelivered m)
       then {#Component \<lparr>ce_event_id = next_event_id w + 1, ce_time = add_simtime (time w) d,
                         component = k, inner = ev\<rparr>#} else {#})"
  by (cases ev) (auto simp: flight_def sched_simps)

lemma flight_fold_schedule:
  "\<forall>(d, k, ev)\<in>set ws. k = tk \<longrightarrow> (\<forall>m. ev \<noteq> MessageDelivered m) \<Longrightarrow>
   flight tk (fold (\<lambda>(d, k, ev). schedule d k ev) ws w) = flight tk w"
  by (induction ws arbitrary: w) (auto simp: flight_schedule)

lemma flight_drain:
  assumes "\<forall>(d, k, ev)\<in>set (deferred_wakes w). k = tk \<longrightarrow> (\<forall>m. ev \<noteq> MessageDelivered m)"
  shows "flight tk (drain_deferred_wakes w) = flight tk w"
proof -
  have "flight tk (w\<lparr>deferred_wakes := []\<rparr>) = flight tk w" by (simp add: flight_def)
  then show ?thesis
    unfolding drain_deferred_wakes_def
    using flight_fold_schedule [OF assms, of "w\<lparr>deferred_wakes := []\<rparr>"] by simp
qed

lemma flight_pop:
  assumes "pop_effect s e s'"
  shows "flight tk s = flight tk s' + (if in_flight tk e then {#e#} else {#})"
proof -
  from assms obtain D where ms: "mset (events s) = add_mset e (mset (events s') + mset D)"
    and D: "\<forall>d\<in>set D. is_canc (cancelled_tasks s) d"
    unfolding pop_effect_def by blast
  have "\<not> in_flight tk d" if "d \<in> set D" for d
    using D that by (cases d) (auto simp: is_canc_def)
  then have "filter_mset (in_flight tk) (mset D) = {#}"
    by (auto simp: filter_empty_conv simp flip: mset_filter)
  then show ?thesis by (simp add: flight_def ms)
qed

lemma context_flight [simp]:
  "flight tk (set_scheduler_context w) = flight tk w"
  "flight tk (clear_scheduler_context w) = flight tk w"
  by (simp_all add: flight_def set_scheduler_context_def clear_scheduler_context_def)

lemma api_run_next_event_id: "api_run w w' \<Longrightarrow> next_event_id w \<le> next_event_id w'"
proof (induction rule: rtranclp_induct)
  case (step y z)
  from step.hyps(2) have "next_event_id y \<le> next_event_id z"
    by cases (auto simp: sched_simps schedule_task_eq Let_def get_task_result_def)
  with step.IH show ?case by simp
qed simp

lemma task_run_next_event_id: "task_run w w' \<Longrightarrow> next_event_id w \<le> next_event_id w'"
  by (induction rule: task_run.induct) (auto dest!: api_run_next_event_id simp: sched_simps)

section \<open>What one event does to the network\<close>

fun at_transport :: "uuid \<Rightarrow> transport_event event_entry \<Rightarrow> transport_event option" where
  "at_transport tk (Component e) = (if component e = tk then Some (inner e) else None)"
| "at_transport tk (Task e) = None"

text \<open>
  The effect of an entry on the transport and the messages in flight, from the state after
  the entry was removed to the end of the step.
\<close>

definition net_effect ::
  "'n network_model \<Rightarrow> uuid \<Rightarrow> transport_event event_entry \<Rightarrow> ('n, 'w) sim_transport \<Rightarrow> ('t, 'v, 'z) net_world
    \<Rightarrow> ('n, 'w) sim_transport \<Rightarrow> ('t, 'v, 'z) net_world \<Rightarrow> bool"
where
  "net_effect NM tk e t w t' w' \<longleftrightarrow>
     message_handlers t' = message_handlers t \<and>
     (case at_transport tk e of
        None \<Rightarrow> t' = t \<and> flight tk w' = flight tk w
      | Some (SendMessage m) \<Rightarrow>
          (let m = (fst (assign_id m t))\<lparr>sent_at := time w\<rparr>; a = tm_source m; b = tm_destination m;
               s = stats (count_sent m t); (drop, n) = should_drop_message NM a b m (st_network_model t)
           in if drop then st_network_model t' = n \<and> flight tk w' = flight tk w \<and>
                stats t' = s\<lparr>messages_dropped := messages_dropped s + 1\<rparr>
              else stats t' = s \<and> (\<exists>d. calculate_latency NM a b m n = Some (d, st_network_model t') \<and>
                flight tk w' = add_mset (delivery tk d m w) (flight tk w) \<and>
                next_event_id w < next_event_id w'))
      | Some (MessageDelivered m) \<Rightarrow>
          st_network_model t' = st_network_model t \<and> flight tk w' = flight tk w \<and>
          (let s = stats t
           in stats t' = s\<lparr>messages_delivered := messages_delivered s + 1,
                           bytes_delivered := bytes_delivered s + message_size m\<rparr>)
      | Some (MessageDropped m r) \<Rightarrow> t' = t \<and> flight tk w' = flight tk w)"

lemma assign_id_simps:
  "assign_id m t = (m', t') \<Longrightarrow>
     tm_source m' = tm_source m \<and> tm_destination m' = tm_destination m \<and> tm_payload m' = tm_payload m \<and>
     stats t' = stats t \<and> st_network_model t' = st_network_model t \<and> message_handlers t' = message_handlers t"
  by (auto simp: assign_id_def split: if_splits)

lemma count_simps [simp]:
  "st_network_model (count_sent m t) = st_network_model t" "message_handlers (count_sent m t) = message_handlers t"
  "st_network_model (count_dropped t) = st_network_model t" "message_handlers (count_dropped t) = message_handlers t"
  "stats (count_dropped t) = (stats t)\<lparr>messages_dropped := messages_dropped (stats t) + 1\<rparr>"
  by (simp_all add: count_sent_def count_dropped_def Let_def)

lemma transport_process_api:
  "transport_process_event NM k ev t w = Some (t', w') \<Longrightarrow> api_run w w'"
  by (cases ev)
    (auto simp: Let_def schedule_now_def handle_message_delivered_def split: prod.splits if_splits option.splits
      intro: api_run_schedule)

lemma transport_effect:
  assumes "transport_process_event NM tk ev t w = Some (t', w')" "tk \<notin> ran (message_handlers t)"
    and "component ce = tk" "inner ce = ev"
  shows "net_effect NM tk (Component ce) t w t' w' \<and> deferred_wakes w' = deferred_wakes w"
proof (cases ev)
  case (SendMessage m)
  obtain m1 t1 where a: "assign_id m t = (m1, t1)" by fastforce
  let ?m = "m1\<lparr>sent_at := time w\<rparr>"
  obtain x n where d: "should_drop_message NM (tm_source ?m) (tm_destination ?m) ?m (st_network_model t) = (x, n)"
    by fastforce
  have s: "stats (count_sent ?m t1) = stats (count_sent ?m t)"
    using assign_id_simps [OF a] by (simp add: count_sent_def Let_def)
  show ?thesis
  proof (cases x)
    case True
    with assms SendMessage a d assign_id_simps [OF a] s show ?thesis
      by (auto simp: net_effect_def Let_def schedule_now_def flight_schedule)
  next
    case False
    with assms SendMessage a d assign_id_simps [OF a] s show ?thesis
      by (auto simp: net_effect_def Let_def flight_schedule delivery_def sched_simps split: option.splits)
  qed
next
  case (MessageDelivered m)
  show ?thesis
  proof (cases "message_handlers t (tm_destination m)")
    case (Some k)
    then have "k \<noteq> tk" using assms(2) by (auto simp: ran_def)
    with Some MessageDelivered assms show ?thesis
      by (auto simp: net_effect_def Let_def handle_message_delivered_def schedule_now_def flight_schedule)
  qed (use MessageDelivered assms in \<open>auto simp: net_effect_def Let_def handle_message_delivered_def\<close>)
qed (use assms in \<open>auto simp: net_effect_def handle_message_dropped_def\<close>)

section \<open>Steps of the network\<close>

text \<open>
  The contract of the code around a transport: tasks and endpoint components act on the
  scheduler through its interface, and leave the deliveries to the transport.
\<close>

locale network_code =
  fixes tk :: uuid
    and NM :: "'n network_model"
    and exec :: "(transport_event, 't, 'v, 'z) task_exec"
    and hp :: "('h, transport_event, 't, 'v, 'z) handler"
  assumes task_code: "executing_task_id w \<noteq> None \<Longrightarrow>
      task_run w (snd (exec t w)) \<and> keeps_flight tk w (snd (exec t w))"
    and endpoint_code: "hp h k ev w = Some (h', w') \<Longrightarrow> api_run w w' \<and> keeps_flight tk w w'"

lemma network_handle_api:
  assumes "\<And>h k ev w h' w'. hp h k ev w = Some (h', w') \<Longrightarrow> api_run w w'"
    and "network_handle NM hp c k ev w = Some (c', w')"
  shows "api_run w w'"
  using assms by (cases c) (auto intro: transport_process_api)

sublocale network_code \<subseteq> simulation_code exec "network_handle NM hp"
proof (unfold_locales, goal_cases)
  case (2 c k ev w c' w')
  then show ?case by (rule network_handle_api [rotated]) (use endpoint_code in blast)
qed (use task_code in blast)

definition one_transport ::
  "uuid \<Rightarrow> ('n, 'w, 'h) network_component components \<Rightarrow> ('n, 'w) sim_transport \<Rightarrow> bool"
where
  "one_transport tk cs t \<longleftrightarrow>
     component_table cs tk = Some (TransportC t) \<and>
     (\<forall>k t. component_table cs k = Some (TransportC t) \<longrightarrow> k = tk) \<and> tk \<notin> ran (message_handlers t)"

lemma clear_deferred: "deferred_wakes (clear_scheduler_context w) = deferred_wakes w"
  by (simp add: clear_scheduler_context_def)

lemma context_next_event_id: "next_event_id (set_scheduler_context w) = next_event_id w"
  by (simp add: set_scheduler_context_def)

lemma net_effect_context [simp]:
  "net_effect NM tk e t (set_scheduler_context w) t' w' = net_effect NM tk e t w t' w'"
proof -
  have "time (set_scheduler_context w) = time w" "next_event_id (set_scheduler_context w) = next_event_id w"
    by (simp_all add: set_scheduler_context_def time_eq)
  moreover from this have "delivery tk d m (set_scheduler_context w) = delivery tk d m w" for d m
    by (simp add: delivery_def)
  ultimately show ?thesis by (simp only: net_effect_def context_flight)
qed

lemma net_effect_end:
  "net_effect NM tk e t w t' w1 \<Longrightarrow> flight tk w2 = flight tk w1 \<Longrightarrow> next_event_id w1 \<le> next_event_id w2 \<Longrightarrow>
   net_effect NM tk e t w t' w2"
  by (auto simp: net_effect_def Let_def split: option.splits transport_event.splits prod.splits if_splits)

context network_code
begin

lemma execute_task_flight:
  "keeps_flight tk w (snd (execute_task exec i w)) \<and> next_event_id w \<le> next_event_id (snd (execute_task exec i w))"
proof (cases "i \<in> cancelled_tasks w \<or> pending_tasks w i = None")
  case True
  then show ?thesis by (auto simp: execute_task_def intro: keeps_flight_events)
next
  case False
  then obtain t where pend: "pending_tasks w i = Some t" and nc: "i \<notin> cancelled_tasks w" by auto
  define w1 where "w1 = w\<lparr>pending_tasks := (pending_tasks w)(i := None), executing_task_id := Some i\<rparr>"
  obtain r w2 where ex: "exec t w1 = (r, w2)" by fastforce
  have "executing_task_id w1 \<noteq> None" by (simp add: w1_def)
  then have "task_run w1 w2" "keeps_flight tk w1 w2"
    using task_code [of w1 t] ex by auto
  moreover have "flight tk w1 = flight tk w" "deferred_wakes w1 = deferred_wakes w" "next_event_id w1 = next_event_id w"
    by (simp_all add: w1_def flight_def)
  ultimately show ?thesis
    using execute_task_eq [of i w t exec, folded w1_def, OF nc pend ex] task_run_next_event_id [of w1 w2]
    by (auto simp: keeps_flight_def flight_def)
qed

lemma process_entry_effect:
  assumes "process_event_entry exec (network_handle NM hp) e cs w = Some (cs', w')"
    and "one_transport tk cs t" "deferred_wakes w = []"
  shows "\<exists>t'. one_transport tk cs' t' \<and> net_effect NM tk e t w t' w' \<and> next_event_id w \<le> next_event_id w'
    \<and> (\<forall>(d, k, ev)\<in>set (deferred_wakes w'). k = tk \<longrightarrow> (\<forall>m. ev \<noteq> MessageDelivered m))"
proof (cases e)
  case (Task te)
  with assms execute_task_flight [of w "te_task_id te"] show ?thesis
    by (auto simp: keeps_flight_def net_effect_def intro!: exI [of _ t])
next
  case (Component ce)
  let ?k = "component ce"
  consider (none) "component_table cs ?k = None" | (transport) "?k = tk"
    | (endpoint) h where "component_table cs ?k = Some (EndpointC h)" "?k \<noteq> tk"
    using assms(2) by (metis network_component.exhaust one_transport_def option.exhaust)
  then show ?thesis
  proof cases
    case none
    with assms Component have "cs' = cs" "w' = w" "?k \<noteq> tk" by (auto simp: one_transport_def)
    with assms Component show ?thesis by (auto simp: net_effect_def intro!: exI [of _ t])
  next
    case transport
    with assms Component obtain t' where t': "transport_process_event NM tk (inner ce) t w = Some (t', w')"
      "cs' = cs\<lparr>component_table := (component_table cs)(tk \<mapsto> TransportC t')\<rparr>"
      by (auto simp: one_transport_def split: option.splits)
    have eff: "net_effect NM tk e t w t' w'" "deferred_wakes w' = deferred_wakes w"
      using transport_effect [OF t'(1), of ce] transport assms(2) Component by (auto simp: one_transport_def)
    then have "message_handlers t' = message_handlers t" by (simp add: net_effect_def)
    then have "one_transport tk cs' t'"
      using assms(2) t'(2) by (auto simp: one_transport_def)
    with eff assms(3) api_run_next_event_id [OF transport_process_api [OF t'(1)]] show ?thesis by auto
  next
    case (endpoint h)
    with assms Component obtain h' where h': "hp h ?k (inner ce) w = Some (h', w')"
      "cs' = cs\<lparr>component_table := (component_table cs)(?k \<mapsto> EndpointC h')\<rparr>"
      by (auto split: option.splits)
    have "one_transport tk cs' t"
      using assms(2) endpoint h'(2) by (auto simp: one_transport_def split: if_splits)
    with endpoint_code [OF h'(1)] api_run_next_event_id [of w w'] endpoint Component assms(3) show ?thesis
      by (auto simp: keeps_flight_def net_effect_def)
  qed
qed

lemma network_step:
  assumes "step exec (network_handle NM hp) sim = Some (True, sim')" "next_entry sim = Some e" "sim_ok sim"
    and "one_transport tk (sim_components sim) t"
  obtains w t' where "pop_effect (sched sim) e w" "one_transport tk (sim_components sim') t'"
    "net_effect NM tk e t w t' (sched sim')" "next_event_id w \<le> next_event_id (sched sim')"
    "time (sched sim') = time w"
  using assms(1)
proof (cases rule: stepE)
  case (event e' p w cs w')
  have e': "e' = e" using assms(2) event(1) by (simp add: next_entry_def)
  have so: "sched_ok (sched sim)" "distinct (task_ids (events (sched sim)))" "deferred_wakes (sched sim) = []"
    using assms(3) by (auto simp: sim_ok_def tasks_inv_def)
  have pe: "pop_effect (sched sim) e w"
    using pop_effect_with_policy [OF so(1,2) event(1)] e' by simp
  have dw: "deferred_wakes w = []"
    using pop_with_policy_frame [OF event(1)] so(3) by (metis world.select_convs(1) world.surjective scheduler.surjective scheduler.select_convs)
  obtain t' where t': "one_transport tk cs t'" "net_effect NM tk e t w t' w'" "next_event_id w \<le> next_event_id w'"
    "\<forall>(d, k, ev)\<in>set (deferred_wakes w'). k = tk \<longrightarrow> (\<forall>m. ev \<noteq> MessageDelivered m)"
    using process_entry_effect [OF event(2) assms(4)] dw e' by (auto simp: context_next_event_id)
  let ?w = "clear_scheduler_context w'"
  have "next_event_id ?w \<le> next_event_id (drain_deferred_wakes ?w)"
    by (rule api_run_next_event_id [OF api_run_drain])
  moreover have "flight tk (drain_deferred_wakes ?w) = flight tk w'"
    using flight_drain [of ?w tk] t'(4) by (simp add: clear_deferred)
  moreover have "next_event_id ?w = next_event_id w'" by (simp add: clear_scheduler_context_def)
  ultimately have "net_effect NM tk e t w t' (sched sim')" "next_event_id w \<le> next_event_id (sched sim')"
    using net_effect_end [OF t'(2)] t'(3) event(4) by auto
  moreover have "clock w' = clock w"
    using process_entry_sched_ok [OF event(2)] pop_effect_sched_ok [OF pe so(1)] by simp
  then have "time (sched sim') = time w"
    using event(4) api_run_frame [OF api_run_drain [of ?w]] by (simp add: time_eq)
  ultimately show thesis
    using that pe t'(1) event(4) by simp
qed simp

end

section \<open>No message is lost\<close>

definition sent_bytes :: "transport_event event_entry multiset \<Rightarrow> nat" where
  "sent_bytes F = (\<Sum>e\<in>#F. case e of Component ce \<Rightarrow>
     (case inner ce of MessageDelivered m \<Rightarrow> message_size m | _ \<Rightarrow> 0) | Task _ \<Rightarrow> 0)"

text \<open>
  Every message the transport has taken was dropped by the network model, has been delivered,
  or is in flight; no more bytes were delivered or are in flight than were sent.
\<close>

definition accounted :: "transport_stats \<Rightarrow> transport_event event_entry multiset \<Rightarrow> bool" where
  "accounted s F \<longleftrightarrow>
     messages_sent s = messages_delivered s + messages_dropped s + size F \<and>
     bytes_delivered s + sent_bytes F \<le> bytes_sent s"

lemma accounted_step:
  assumes "pop_effect w0 e w" "net_effect NM tk e t w t' w'" "accounted (stats t) (flight tk w0)"
  shows "accounted (stats t') (flight tk w')"
proof (cases "at_transport tk e")
  case None
  then have "\<not> in_flight tk e" by (cases e) (auto split: if_splits)
  with None assms flight_pop [OF assms(1), of tk] show ?thesis by (simp add: net_effect_def)
next
  case (Some ev)
  then obtain ce where e: "e = Component ce" "component ce = tk" "inner ce = ev"
    by (cases e) (auto split: if_splits)
  show ?thesis
  proof (cases ev)
    case (SendMessage m)
    with e assms flight_pop [OF assms(1), of tk] show ?thesis
      by (auto simp: net_effect_def Let_def accounted_def count_sent_def sent_bytes_def delivery_def message_size_def
          split: prod.splits if_splits)
  next
    case (MessageDelivered m)
    with e assms flight_pop [OF assms(1), of tk] show ?thesis
      by (auto simp: net_effect_def Let_def accounted_def sent_bytes_def)
  next
    case (MessageDropped m r)
    with e assms flight_pop [OF assms(1), of tk] show ?thesis
      by (auto simp: net_effect_def)
  qed
qed

context network_code
begin

lemma idle_flight:
  assumes "step exec (network_handle NM hp) sim = Some (False, sim')" "sim_ok sim"
  shows "flight tk (sched sim) = {#}" "flight tk (sched sim') = {#}" "sim_components sim' = sim_components sim"
proof -
  note i = step_idle [OF assms]
  have "in_flight tk e \<Longrightarrow> \<not> is_canc (cancelled_tasks (sched sim)) e" for e
    by (cases e) (auto simp: is_canc_def)
  with i show "flight tk (sched sim) = {#}"
    by (auto simp: flight_def live_def filter_empty_conv simp flip: mset_filter)
  from i show "flight tk (sched sim') = {#}" by (simp add: flight_def)
  from assms(1) show "sim_components sim' = sim_components sim" by (cases rule: stepE) simp_all
qed

lemma run_accounted:
  assumes "sim_run exec (network_handle NM hp) sim es sim'" "sim_ok sim" "ids_fit (sched sim')"
    and "one_transport tk (sim_components sim) t" "accounted (stats t) (flight tk (sched sim))"
  shows "\<exists>t'. one_transport tk (sim_components sim') t' \<and> accounted (stats t') (flight tk (sched sim'))"
  using assms
proof (induction arbitrary: t rule: sim_run.induct)
  case (run_step sim e sim1 es sim2)
  obtain w t1 where w: "pop_effect (sched sim) e w" "one_transport tk (sim_components sim1) t1"
    "net_effect NM tk e t w t1 (sched sim1)"
    using network_step [OF run_step.hyps(2,1) run_step.prems(1,3)] by metis
  have "sim_ok sim1"
    using step_sound [OF run_step.prems(1) run_step.hyps(2)] run_ids_fit [OF run_step.hyps(3) run_step.prems(2)] by blast
  with run_step.IH [OF _ run_step.prems(2) w(2)] accounted_step [OF w(1,3) run_step.prems(4)] show ?case by blast
next
  case (run_idle sim sim1 es sim2)
  have "sim_ok sim1" using step_idle [OF run_idle.hyps(2) run_idle.prems(1)] by blast
  with run_idle.IH [of t] run_idle.prems idle_flight [OF run_idle.hyps(2) run_idle.prems(1)] show ?case by simp
qed blast

end

section \<open>Messages arrive in order\<close>

text \<open>Entries of the transport for the messages from \<open>a\<close> to \<open>b\<close>.\<close>

definition for_pair :: "endpoint_id \<Rightarrow> endpoint_id \<Rightarrow> transport_message \<Rightarrow> bool" where
  "for_pair a b m \<longleftrightarrow> tm_source m = a \<and> tm_destination m = b"

fun delivers :: "endpoint_id \<Rightarrow> endpoint_id \<Rightarrow> transport_event event_entry \<Rightarrow> bool" where
  "delivers a b (Component e) = (case inner e of MessageDelivered m \<Rightarrow> for_pair a b m | _ \<Rightarrow> False)"
| "delivers a b (Task e) = False"

fun entry_payload :: "transport_event event_entry \<Rightarrow> byte list" where
  "entry_payload (Component e) =
     (case inner e of SendMessage m \<Rightarrow> tm_payload m | MessageDelivered m \<Rightarrow> tm_payload m
        | MessageDropped m _ \<Rightarrow> tm_payload m)"
| "entry_payload (Task e) = []"

text \<open>The payloads the transport takes in, and those it delivers, in a sequence of entries.\<close>

fun sent_payloads :: "uuid \<Rightarrow> endpoint_id \<Rightarrow> endpoint_id \<Rightarrow> transport_event event_entry list \<Rightarrow> byte list list" where
  "sent_payloads tk a b [] = []"
| "sent_payloads tk a b (e # es) =
     (case at_transport tk e of
        Some (SendMessage m) \<Rightarrow> (if for_pair a b m then [tm_payload m] else [])
      | _ \<Rightarrow> []) @ sent_payloads tk a b es"

fun delivered_payloads :: "uuid \<Rightarrow> endpoint_id \<Rightarrow> endpoint_id \<Rightarrow> transport_event event_entry list \<Rightarrow> byte list list" where
  "delivered_payloads tk a b [] = []"
| "delivered_payloads tk a b (e # es) =
     (case at_transport tk e of
        Some (MessageDelivered m) \<Rightarrow> (if for_pair a b m then [tm_payload m] else [])
      | _ \<Rightarrow> []) @ delivered_payloads tk a b es"

text \<open>
  The messages in flight from \<open>a\<close> to \<open>b\<close> as a list: their sequence numbers increase,
  their times do not decrease, and none is due later than a message sent now with the least
  delay \<open>B\<close> would be.
\<close>

definition lined_up ::
  "uuid \<Rightarrow> endpoint_id \<Rightarrow> endpoint_id \<Rightarrow> duration \<Rightarrow> transport_event event_entry list \<Rightarrow> ('t, 'v, 'z) net_world \<Rightarrow> bool"
where
  "lined_up tk a b B D w \<longleftrightarrow>
     mset D = filter_mset (delivers a b) (flight tk w) \<and>
     sorted_wrt (\<lambda>x y. seq x < seq y \<and> entry_time x \<le> entry_time y) D \<and>
     (\<forall>x\<in>set D. seq x \<le> next_event_id w \<and> entry_time x \<le> add_simtime (time w) (from_duration B))"

lemma from_duration_mono: "d \<le> d' \<Longrightarrow> from_duration d \<le> from_duration d'"
  by (auto simp: from_duration_def Let_def try_from_nat_def simtime_order word_le_nat_alt unat_of_nat sat_simps
      split: option.splits)

lemma add_simtime_mono: "t \<le> t' \<Longrightarrow> d \<le> d' \<Longrightarrow> add_simtime t d \<le> add_simtime t' d'"
  by (auto simp: add_simtime_def simtime_order word_le_nat_alt sat_simps)

lemma lined_up_mono:
  assumes "lined_up tk a b B D w" "flight tk w' = flight tk w" "next_event_id w \<le> next_event_id w'"
    "time w \<le> time w'" "B \<le> B'"
  shows "lined_up tk a b B' D w'"
proof -
  have "add_simtime (time w) (from_duration B) \<le> add_simtime (time w') (from_duration B')"
    using assms(4,5) by (intro add_simtime_mono from_duration_mono)
  with assms(1-3) show ?thesis unfolding lined_up_def by (auto intro: order_trans)
qed

lemma lined_up_send:
  assumes "lined_up tk a b B D w" "flight tk w' = add_mset (delivery tk d m w) (flight tk w)"
    "next_event_id w < next_event_id w'" "time w' = time w" "B \<le> d" "for_pair a b m"
  shows "lined_up tk a b d (D @ [delivery tk d m w]) w'"
proof -
  have "add_simtime (time w) (from_duration B) \<le> add_simtime (time w) (from_duration d)"
    using assms(5) by (intro add_simtime_mono from_duration_mono) auto
  with assms show ?thesis
    by (fastforce simp: lined_up_def delivery_def sorted_wrt_append)
qed

lemma pop_next_event_id: "pop_effect w0 e w \<Longrightarrow> next_event_id w = next_event_id w0"
  by (erule pop_effectE) simp

text \<open>Under the FIFO policy the delivery that is processed is the first in line.\<close>

lemma lined_up_pop:
  assumes "lined_up tk a b B D w0" "pop_effect w0 e w" "sched_ok w0" "in_flight tk e" "delivers a b e"
    and "\<forall>x\<in>#flight tk w. event_key e < event_key x"
  shows "\<exists>D'. D = e # D' \<and> lined_up tk a b B D' w"
proof -
  have fl: "flight tk w0 = add_mset e (flight tk w)" using flight_pop [OF assms(2), of tk] assms(4) by simp
  then have D: "mset D = add_mset e (filter_mset (delivers a b) (flight tk w))"
    using assms(1,5) by (simp add: lined_up_def)
  then have "e \<in> set D" by (metis set_mset_mset union_single_eq_member)
  then obtain x D' where x: "D = x # D'" by (cases D) auto
  have "x = e"
  proof (rule ccontr)
    assume "x \<noteq> e"
    with \<open>e \<in> set D\<close> x assms(1) have "seq x < seq e" "entry_time x \<le> entry_time e"
      by (auto simp: lined_up_def)
    then have "event_key x < event_key e" by (auto simp: event_key_def less_prod_def')
    moreover have "x \<in># filter_mset (delivers a b) (flight tk w)"
    proof -
      have "x \<in># add_mset e (filter_mset (delivers a b) (flight tk w))"
        unfolding D [symmetric] by (simp add: x)
      with \<open>x \<noteq> e\<close> show ?thesis by simp
    qed
    then have "event_key e < event_key x" using assms(6) by simp
    ultimately show False by simp
  qed
  have "time w0 \<le> time w" "next_event_id w = next_event_id w0"
    using pop_effect_time(2) [OF assms(2,3)] pop_next_event_id [OF assms(2)] by simp_all
  moreover have "mset D' = filter_mset (delivers a b) (flight tk w)" using D x \<open>x = e\<close> by simp
  moreover have "add_simtime (time w0) (from_duration B) \<le> add_simtime (time w) (from_duration B)"
    using \<open>time w0 \<le> time w\<close> by (intro add_simtime_mono) auto
  moreover have "sorted_wrt (\<lambda>x y. seq x < seq y \<and> entry_time x \<le> entry_time y) D'"
    "\<forall>x\<in>set D'. seq x \<le> next_event_id w0 \<and> entry_time x \<le> add_simtime (time w0) (from_duration B)"
    using assms(1) x by (auto simp: lined_up_def)
  ultimately have "lined_up tk a b B D' w"
    unfolding lined_up_def by (metis order_trans)
  with x \<open>x = e\<close> show ?thesis by blast
qed

lemma flight_live: "x \<in># flight tk w \<Longrightarrow> x \<in> set (live w)"
  by (cases x) (auto simp: flight_def live_def is_canc_def)

lemma in_flight_at: "in_flight tk e \<longleftrightarrow> (\<exists>m. at_transport tk e = Some (MessageDelivered m))"
  by (cases e) (auto split: transport_event.splits)

lemma line_send:
  assumes net: "fifo_network NM bound"
    and eff: "net_effect NM tk e t w t' w'" "next_event_id w \<le> next_event_id w'" "time w' = time w"
    and line: "lined_up tk a b (bound (st_network_model t) a b) D w"
    and ev: "at_transport tk e = Some (SendMessage m)"
  shows "\<exists>D'. lined_up tk a b (bound (st_network_model t') a b) D' w' \<and>
    subseq (map entry_payload D') (map entry_payload D @ (if for_pair a b m then [tm_payload m] else []))"
proof -
  let ?m = "(fst (assign_id m t))\<lparr>sent_at := time w\<rparr>"
  have m: "tm_source ?m = tm_source m" "tm_destination ?m = tm_destination m" "tm_payload ?m = tm_payload m"
    using assign_id_simps [OF prod.collapse [symmetric], of m t] by simp_all
  obtain x n where d: "should_drop_message NM (tm_source ?m) (tm_destination ?m) ?m (st_network_model t) = (x, n)"
    by fastforce
  have n: "bound n = bound (st_network_model t)"
    using fifo_network.drop_bound [OF net d] .
  show ?thesis
  proof (cases x)
    case True
    with eff(1) ev d have "st_network_model t' = n" "flight tk w' = flight tk w"
      by (auto simp: net_effect_def Let_def)
    then have "lined_up tk a b (bound (st_network_model t') a b) D w'"
      using eff(2,3) n by (intro lined_up_mono [OF line]) simp_all
    then show ?thesis by (auto intro!: exI [of _ D])
  next
    case False
    with eff(1) ev d obtain l where
      l: "calculate_latency NM (tm_source m) (tm_destination m) ?m n = Some (l, st_network_model t')"
      "flight tk w' = add_mset (delivery tk l ?m w) (flight tk w)" "next_event_id w < next_event_id w'"
      by (auto simp: net_effect_def Let_def m)
    show ?thesis
    proof (cases "for_pair a b m")
      case True
      then have "bound (st_network_model t) a b \<le> l" "bound (st_network_model t') a b = l"
        using fifo_network.latency_bound [OF net l(1)] n by (auto simp: for_pair_def)
      then have "lined_up tk a b (bound (st_network_model t') a b) (D @ [delivery tk l ?m w]) w'"
        using lined_up_send [OF line l(2,3) eff(3)] True m by (simp add: for_pair_def)
      moreover have "map entry_payload (D @ [delivery tk l ?m w]) = map entry_payload D @ [tm_payload m]"
        by (simp add: delivery_def m)
      ultimately show ?thesis
        using True by (intro exI [of _ "D @ [delivery tk l ?m w]"]) simp
    next
      case nopair: False
      then have "bound (st_network_model t') a b = bound (st_network_model t) a b"
        using fifo_network.latency_other [OF net l(1), of a b] n by (auto simp: for_pair_def)
      moreover have "filter_mset (delivers a b) (flight tk w') = filter_mset (delivers a b) (flight tk w)"
        using nopair m by (simp add: l(2) delivery_def for_pair_def)
      ultimately have "lined_up tk a b (bound (st_network_model t') a b) D w'"
        using line eff(2,3) by (auto simp: lined_up_def)
      with nopair show ?thesis by (auto intro!: exI [of _ D])
    qed
  qed
qed

text \<open>One event, seen from the line of messages from \<open>a\<close> to \<open>b\<close>.\<close>

lemma line_step:
  assumes net: "fifo_network NM bound"
    and pop: "pop_effect w0 e w" "sched_ok w0"
    and eff: "net_effect NM tk e t w t' w'" "next_event_id w \<le> next_event_id w'" "time w' = time w"
    and behind: "behind (event_key e) w'"
    and line: "lined_up tk a b (bound (st_network_model t) a b) D w0"
  shows "\<exists>D'. lined_up tk a b (bound (st_network_model t') a b) D' w' \<and>
    subseq (delivered_payloads tk a b [e] @ map entry_payload D') (map entry_payload D @ sent_payloads tk a b [e])"
proof (cases "in_flight tk e")
  case True
  then obtain m ce where m: "e = Component ce" "component ce = tk" "inner ce = MessageDelivered m"
    by (cases e) (auto split: transport_event.splits)
  have n: "st_network_model t' = st_network_model t" "flight tk w' = flight tk w"
    using eff(1) m by (auto simp: net_effect_def)
  show ?thesis
  proof (cases "for_pair a b m")
    case pair: True
    have "\<forall>x\<in>#flight tk w. event_key e < event_key x"
      using behind n(2) flight_live [of _ tk w'] by (auto simp: behind_def)
    then obtain D' where D': "D = e # D'" "lined_up tk a b (bound (st_network_model t) a b) D' w"
      using lined_up_pop [OF line pop True] m pair by auto
    then have "lined_up tk a b (bound (st_network_model t') a b) D' w'"
      using eff(2,3) n by (intro lined_up_mono [OF D'(2)]) simp_all
    with D'(1) m pair show ?thesis by (auto intro!: exI [of _ D'])
  next
    case False
    have "filter_mset (delivers a b) (flight tk w0) = filter_mset (delivers a b) (flight tk w)"
      using flight_pop [OF pop(1), of tk] True m False by simp
    with line have "lined_up tk a b (bound (st_network_model t) a b) D (w0\<lparr>events := events w\<rparr>)"
      by (simp add: lined_up_def time_eq flight_def)
    moreover have "flight tk w' = flight tk (w0\<lparr>events := events w\<rparr>)" using n(2) by (simp add: flight_def)
    ultimately have "lined_up tk a b (bound (st_network_model t') a b) D w'"
      using pop_effect_time(2) [OF pop] pop_next_event_id [OF pop(1)] eff(2,3) n(1)
      by (elim lined_up_mono) (simp_all add: time_eq)
    with m False show ?thesis by (auto intro!: exI [of _ D])
  qed
next
  case False
  have fl: "flight tk w0 = flight tk w" using flight_pop [OF pop(1), of tk] False by simp
  have le: "next_event_id w0 \<le> next_event_id w" "time w0 \<le> time w"
    using pop_effect_time(2) [OF pop] pop_next_event_id [OF pop(1)] by simp_all
  have line_w: "lined_up tk a b (bound (st_network_model t) a b) D w"
    using lined_up_mono [OF line fl [symmetric] le order_refl] .
  show ?thesis
  proof (cases "at_transport tk e")
    case None
    with eff have "t' = t" "flight tk w' = flight tk w" by (auto simp: net_effect_def)
    then have "lined_up tk a b (bound (st_network_model t') a b) D w'"
      using eff(2,3) by (intro lined_up_mono [OF line_w]) simp_all
    with None show ?thesis by (auto intro!: exI [of _ D])
  next
    case (Some ev)
    show ?thesis
    proof (cases ev)
      case (MessageDropped m r)
      with Some eff have "t' = t" "flight tk w' = flight tk w" by (auto simp: net_effect_def)
      then have "lined_up tk a b (bound (st_network_model t') a b) D w'"
        using eff(2,3) by (intro lined_up_mono [OF line_w]) simp_all
      with Some MessageDropped show ?thesis by (auto intro!: exI [of _ D])
    next
      case (MessageDelivered m)
      with Some False in_flight_at [of tk e] show ?thesis by simp
    next
      case (SendMessage m)
      then show ?thesis
        using line_send [OF net eff line_w] Some by simp
    qed
  qed
qed

lemma payloads_Cons:
  "sent_payloads tk a b (e # es) = sent_payloads tk a b [e] @ sent_payloads tk a b es"
  "delivered_payloads tk a b (e # es) = delivered_payloads tk a b [e] @ delivered_payloads tk a b es"
  by simp_all

context network_code
begin

lemma run_in_order:
  assumes net: "fifo_network NM bound"
    and "sim_run exec (network_handle NM hp) sim es sim'" "sim_ok sim" "ids_fit (sched sim')" "policy sim = fifo_choose"
    and "one_transport tk (sim_components sim) t"
    and "lined_up tk a b (bound (st_network_model t) a b) D (sched sim)"
  shows "subseq (delivered_payloads tk a b es) (map entry_payload D @ sent_payloads tk a b es)"
  using assms(2-)
proof (induction arbitrary: t D rule: sim_run.induct)
  case (run_step sim e sim1 es sim2)
  obtain w t1 where w: "pop_effect (sched sim) e w" "one_transport tk (sim_components sim1) t1"
    "net_effect NM tk e t w t1 (sched sim1)" "next_event_id w \<le> next_event_id (sched sim1)"
    "time (sched sim1) = time w"
    using network_step [OF run_step.hyps(2,1) run_step.prems(1,4)] by metis
  have s1: "sim_ok sim1" "policy sim1 = fifo_choose"
    using step_sound [OF run_step.prems(1) run_step.hyps(2)] run_ids_fit [OF run_step.hyps(3) run_step.prems(2)]
      run_step.prems(3) by auto
  have "behind (event_key e) (sched sim1)"
    by (rule fifo_step_behind [OF run_step.prems(1,3) run_step.hyps(1,2)])
  moreover have "sched_ok (sched sim)" using run_step.prems(1) by (simp add: sim_ok_def)
  ultimately obtain D' where D': "lined_up tk a b (bound (st_network_model t1) a b) D' (sched sim1)"
    "subseq (delivered_payloads tk a b [e] @ map entry_payload D') (map entry_payload D @ sent_payloads tk a b [e])"
    using line_step [OF net w(1) _ w(3-5) _ run_step.prems(5)] by blast
  have "subseq (delivered_payloads tk a b es) (map entry_payload D' @ sent_payloads tk a b es)"
    by (rule run_step.IH [OF s1(1) run_step.prems(2) s1(2) w(2) D'(1)])
  then have "subseq (delivered_payloads tk a b [e] @ delivered_payloads tk a b es)
    ((delivered_payloads tk a b [e] @ map entry_payload D') @ sent_payloads tk a b es)"
    unfolding append_assoc by (rule list_emb_append_mono [OF subseq_order.order_refl])
  also have "subseq \<dots> ((map entry_payload D @ sent_payloads tk a b [e]) @ sent_payloads tk a b es)"
    by (rule list_emb_append_mono [OF D'(2) subseq_order.order_refl])
  finally show ?case by (simp only: payloads_Cons [of tk a b e es] append_assoc)
next
  case (run_idle sim sim1 es sim2)
  have s1: "sim_ok sim1" "time (sched sim1) = time (sched sim)" "next_event_id (sched sim1) = next_event_id (sched sim)"
    using step_idle [OF run_idle.hyps(2) run_idle.prems(1)] by (auto simp: sim_time_def)
  have "policy sim1 = fifo_choose"
    using run_idle.hyps(2) run_idle.prems(3) by (cases rule: stepE) simp_all
  moreover have "lined_up tk a b (bound (st_network_model t) a b) D (sched sim1)"
    using idle_flight(1,2) [OF run_idle.hyps(2) run_idle.prems(1)] run_idle.prems(5) s1
    by (simp add: lined_up_def)
  ultimately show ?case
    using run_idle.IH [OF s1(1) run_idle.prems(2)] run_idle.prems(4) idle_flight(3) [OF run_idle.hyps(2) run_idle.prems(1)]
    by simp
qed simp

end

section \<open>Latency counted twice\<close>

lemma add_from_duration:
  assumes "d < 2 ^ 64"
  shows "as_duration (add_simtime t (from_duration d)) = min (as_duration t + d) (2 ^ 64 - 1)"
  using assms by (simp add: as_duration_def add_simtime_def from_duration_def try_from_nat_def sat_simps unat_of_nat)

text \<open>
  \<open>LatencyJitterModel\<close> counts the present time twice: it returns the absolute time of the
  arrival, and the transport schedules the delivery after a delay of that length. A message
  that is taken in at time \<open>t\<close> through an idle link with constant latency \<open>d\<close> arrives at
  \<open>t + (t + d)\<close>.
\<close>

theorem jitter_latency_doubled:
  fixes F :: "('f, 'y) net_f64_scheme" and g :: 'g and w :: "('t, 'v, 'z) net_world"
  assumes "\<not> f_less F (f_of_nat F 0) (f_of_nat F 0)" and "\<not> f_less F (fst (gen g)) (f_of_nat F 0)"
    and "2 * as_duration (time w) + d < 2 ^ 64"
  shows "\<exists>t' w' e. transport_process_event (latency_jitter_model F gen normal entropy) tk (SendMessage m)
      (sim_transport_new (latency_jitter_new (latency_config_new F d) g) :: (('f, 'g) latency_jitter, 'w) sim_transport) w
      = Some (t', w') \<and>
    flight tk w' = add_mset e (flight tk w) \<and> as_duration (entry_time e) = 2 * as_duration (time w) + d"
proof -
  let ?n = "latency_jitter_new (latency_config_new F d) g"
  let ?t = "sim_transport_new ?n :: (('f, 'g) latency_jitter, 'w) sim_transport"
  obtain m1 t1 where a: "assign_id m ?t = (m1, t1)" by fastforce
  then have n: "st_network_model t1 = ?n" using assign_id_simps [OF a] by (simp add: sim_transport_new_def)
  let ?m = "m1\<lparr>sent_at := time w\<rparr>"
  let ?x = "as_duration (time w) + d"
  have small: "?x < 2 ^ 64" using assms(3) by linarith
  then have "?x \<le> duration_max" by (simp add: duration_max_def)
  then have lat: "\<exists>n'. jitter_calculate_latency F normal (tm_source ?m) (tm_destination ?m) ?m (?n\<lparr>lj_rng := g'\<rparr>) = Some (?x, n')" for g'
    using assms(1)
    by (simp add: jitter_calculate_latency_def get_config_def latency_jitter_new_def latency_config_new_def
        jittered_latency_def bandwidth_delay_def duration_add_def Let_def)
  have "as_duration (add_simtime (time w) (from_duration ?x)) = 2 * as_duration (time w) + d"
    using add_from_duration [OF small, of "time w"] assms(3) by simp
  moreover obtain x g' where gg: "gen g = (x, g')" by fastforce
  obtain n' where n': "jitter_calculate_latency F normal (tm_source ?m) (tm_destination ?m) ?m (?n\<lparr>lj_rng := g'\<rparr>) = Some (?x, n')"
    using lat by blast
  have "lc_packet_loss_rate (get_config a b ?n) = f_of_nat F 0" "lj_rng ?n = g" for a b
    by (simp_all add: get_config_def latency_jitter_new_def latency_config_new_def)
  with a n n' gg assms(2) have "\<exists>t'. transport_process_event (latency_jitter_model F gen normal entropy) tk (SendMessage m) ?t w =
    Some (t', schedule (from_duration ?x) tk (MessageDelivered ?m) w)"
    by (simp add: latency_jitter_model_def Let_def)
  then obtain t' where "transport_process_event (latency_jitter_model F gen normal entropy) tk (SendMessage m) ?t w =
    Some (t', schedule (from_duration ?x) tk (MessageDelivered ?m) w)" by blast
  ultimately show ?thesis
    by (intro exI [of _ t'] exI [of _ "schedule (from_duration ?x) tk (MessageDelivered ?m) w"]
        exI [of _ "delivery tk ?x ?m w"]) (simp add: flight_schedule delivery_def)
qed

definition late_world :: "(unit, unit, unit) net_world" where
  "late_world = world.extend (scheduler.extend ((with_seed 0)\<lparr>clock := 100\<rparr>) (world.fields [] False)) ()"

theorem jitter_latency_doubled_witness:
  "\<exists>t' w' e. transport_process_event (latency_jitter_model nat_f64 (\<lambda>g. (5, g)) (\<lambda>_ _. None) ()) 5
      (SendMessage (transport_message_new 0 3 9 [] zero UnaryRequest))
      (sim_transport_new (latency_jitter_new (latency_config_new nat_f64 10) ()) :: ((nat, unit) latency_jitter, nat) sim_transport)
      late_world = Some (t', w') \<and> flight 5 w' = {#e#} \<and> as_duration (entry_time e) = 210"
proof -
  have w: "as_duration (time late_world) = 100" "flight 5 late_world = {#}"
    by (simp_all add: late_world_def as_duration_def time_eq world.defs scheduler.defs with_seed_def flight_def)
  have "\<not> f_less nat_f64 (f_of_nat nat_f64 0) (f_of_nat nat_f64 0)"
    "\<not> f_less nat_f64 (fst ((\<lambda>g :: unit. (5, g)) ())) (f_of_nat nat_f64 0)"
    "2 * as_duration (time late_world) + 10 < 2 ^ 64"
    by (simp_all add: nat_f64_def w)
  then show ?thesis
    using jitter_latency_doubled [of nat_f64 "\<lambda>g. (5, g)" "()" late_world 10 "\<lambda>_ _. None" "()" 5
        "transport_message_new 0 3 9 [] zero UnaryRequest"]
    by (simp add: w del: transport_process_event.simps)
qed

end
