(* ===== verification/Axum.thy ===== *)
theory Axum
  imports Sim_Transport Oneshot
begin

text \<open>
  \<open>des-axum\<close>: HTTP over the simulated transport. Clients send requests under a correlation
  identifier and wait on a one-shot channel, which the client endpoint completes when the
  response arrives; server endpoints decode a request, call the router and send the response
  back. The crates \<open>http\<close>, \<open>axum\<close> (routers, bodies) and \<open>bincode\<close> are parameters: the
  records \<open>http_lib\<close> and \<open>wire_codec\<close> and the function a router computes. The result
  of collecting a body is part of the request or response. Futures are represented by their
  steps: what a client does up to waiting, one poll of the wait, and what a server task does
  once its delay has passed.
\<close>

type_synonym u16 = "16 word"

section \<open>Wire format and errors\<close>

record http_request_wire =
  rq_method :: str
  rq_uri :: str
  rq_headers :: "(str \<times> str) list"
  rq_body :: "byte list"

record http_response_wire =
  rs_status :: u16
  rs_headers :: "(str \<times> str) list"
  rs_body :: "byte list"

text \<open>\<open>bincode\<close>; an error is its text.\<close>

record wire_codec =
  encode_request :: "http_request_wire \<Rightarrow> str + byte list"
  decode_request :: "byte list \<Rightarrow> str + http_request_wire"
  encode_response :: "http_response_wire \<Rightarrow> str + byte list"
  decode_response :: "byte list \<Rightarrow> str + http_response_wire"

datatype axum_error =
    InvalidArgument str
  | NotFound str
  | AlreadyExists str
  | Timeout str
  | Cancelled
  | Internal str

fun error_text :: "axum_error \<Rightarrow> str" where
  "error_text (InvalidArgument s) = lit ''invalid argument: '' @ s"
| "error_text (NotFound s) = lit ''not found: '' @ s"
| "error_text (AlreadyExists s) = lit ''already exists: '' @ s"
| "error_text (Timeout s) = lit ''timeout: '' @ s"
| "error_text Cancelled = lit ''cancelled''"
| "error_text (Internal s) = lit ''internal error: '' @ s"

section \<open>Requests and responses of the crate http\<close>

record ('m, 'u, 'n, 'v, 'hm) http_lib =
  method_from_bytes :: "str \<Rightarrow> str + 'm"
  method_str :: "'m \<Rightarrow> str"
  uri_parse :: "str \<Rightarrow> str + 'u"
  uri_str :: "'u \<Rightarrow> str"
  header_name :: "str \<Rightarrow> str + 'n"
  header_value :: "str \<Rightarrow> str + 'v"
  no_headers :: 'hm
  append_header :: "'n \<Rightarrow> 'v \<Rightarrow> 'hm \<Rightarrow> 'hm"
  header_iter :: "'hm \<Rightarrow> (str \<times> str option) list"
  valid_status :: "u16 \<Rightarrow> bool"

record ('m, 'u, 'hm) axum_request =
  hq_method :: 'm
  hq_uri :: 'u
  hq_headers :: 'hm
  hq_body :: "str + byte list"

record 'hm http_response =
  hr_status :: u16
  hr_headers :: 'hm
  hr_body :: "str + byte list"

text \<open>The loop over the headers of a wire message; \<open>wrap\<close> makes the error.\<close>

fun append_headers ::
  "('m, 'u, 'n, 'v, 'hm) http_lib \<Rightarrow> (str \<Rightarrow> axum_error) \<Rightarrow> (str \<Rightarrow> axum_error) \<Rightarrow> (str \<times> str) list \<Rightarrow> 'hm
    \<Rightarrow> axum_error + 'hm"
where
  "append_headers L bad_name bad_value [] hm = Inr hm"
| "append_headers L bad_name bad_value ((k, v) # rest) hm =
     (case header_name L k of
        Inl e \<Rightarrow> Inl (bad_name e)
      | Inr n \<Rightarrow>
          (case header_value L v of
             Inl e \<Rightarrow> Inl (bad_value e)
           | Inr x \<Rightarrow> append_headers L bad_name bad_value rest (append_header L n x hm)))"

definition request_from_wire ::
  "('m, 'u, 'n, 'v, 'hm) http_lib \<Rightarrow> http_request_wire \<Rightarrow> axum_error + ('m, 'u, 'hm) axum_request"
where
  "request_from_wire L wire =
     (case method_from_bytes L (rq_method wire) of
        Inl e \<Rightarrow> Inl (InvalidArgument (lit ''invalid method: '' @ e))
      | Inr m \<Rightarrow>
          (case uri_parse L (rq_uri wire) of
             Inl e \<Rightarrow> Inl (InvalidArgument (lit ''invalid uri: '' @ e))
           | Inr u \<Rightarrow>
               (case append_headers L (\<lambda>e. InvalidArgument (lit ''invalid header name: '' @ e))
                       (\<lambda>e. InvalidArgument (lit ''invalid header value: '' @ e)) (rq_headers wire) (no_headers L) of
                  Inl e \<Rightarrow> Inl e
                | Inr hm \<Rightarrow>
                    Inr \<lparr>hq_method = m, hq_uri = u, hq_headers = hm, hq_body = Inr (rq_body wire)\<rparr>)))"

text \<open>Header values that are not text become the empty string.\<close>

definition wire_headers :: "('m, 'u, 'n, 'v, 'hm) http_lib \<Rightarrow> 'hm \<Rightarrow> (str \<times> str) list" where
  "wire_headers L hm = map (\<lambda>(k, v). (k, case v of Some s \<Rightarrow> s | None \<Rightarrow> [])) (header_iter L hm)"

definition response_to_wire ::
  "('m, 'u, 'n, 'v, 'hm) http_lib \<Rightarrow> 'hm http_response \<Rightarrow> axum_error + http_response_wire"
where
  "response_to_wire L resp =
     (case hr_body resp of
        Inl e \<Rightarrow> Inl (Internal (lit ''response body error: '' @ e))
      | Inr b \<Rightarrow> Inr \<lparr>rs_status = hr_status resp, rs_headers = wire_headers L (hr_headers resp), rs_body = b\<rparr>)"

text \<open>A builder with an invalid status has no headers.\<close>

definition http_response_from_wire ::
  "('m, 'u, 'n, 'v, 'hm) http_lib \<Rightarrow> http_response_wire \<Rightarrow> axum_error + 'hm http_response"
where
  "http_response_from_wire L wire =
     (if \<not> valid_status L (rs_status wire) then Inl (Internal (lit ''response builder headers''))
      else
        (case append_headers L (\<lambda>e. Internal (lit ''header name: '' @ e)) (\<lambda>e. Internal (lit ''header value: '' @ e))
                (rs_headers wire) (no_headers L) of
           Inl e \<Rightarrow> Inl e
         | Inr hm \<Rightarrow> Inr \<lparr>hr_status = rs_status wire, hr_headers = hm, hr_body = Inr (rs_body wire)\<rparr>))"

section \<open>Shared state\<close>

text \<open>
  What the futures and components share besides the scheduler: the one-shot channels, the maps
  of pending requests (each an \<open>Arc\<close> with an address), the wakers called and the tasks
  spawned on the runtime.
\<close>

type_synonym 'hm axum_result = "axum_error + 'hm http_response"

record server_task =
  sk_correlation :: str
  sk_source :: endpoint_id
  sk_destination :: endpoint_id
  sk_request :: "byte list"
  sk_delay :: duration

record ('t, 'v, 'hm, 'w) axum_world = "(transport_event, 't, 'v) world" +
  oneshots :: "nat \<Rightarrow> ('hm axum_result, 'w) oneshot_state"
  next_oneshot :: nat
  pendings :: "nat \<Rightarrow> str \<rightharpoonup> nat"
  woken :: "'w list"
  spawned :: "server_task list"

definition schedule_transport ::
  "uuid \<Rightarrow> transport_event \<Rightarrow> ('t, 'v, 'z) net_world \<Rightarrow> ('t, 'v, 'z) net_world"
where
  "schedule_transport k ev w = (if in_scheduler_context w then defer_wake k ev w else schedule zero k ev w)"

definition now :: "('t, 'v, 'z) net_world \<Rightarrow> simtime" where
  "now w =
     (if in_scheduler_context w then (case current_time w of Some t \<Rightarrow> t | None \<Rightarrow> zero) else time w)"

lemma now_time [simp]: "now w = time w"
  by (simp add: now_def in_scheduler_context_def current_time_def)

section \<open>Client endpoint\<close>

record client_endpoint =
  ep_endpoint_id :: endpoint_id
  ep_pending :: nat

fun client_endpoint_event ::
  "('m, 'u, 'n, 'v, 'hm) http_lib \<Rightarrow> wire_codec \<Rightarrow> transport_event \<Rightarrow> client_endpoint
    \<Rightarrow> ('t, 'u1, 'hm, 'w, 'z) axum_world_scheme \<Rightarrow> ('t, 'u1, 'hm, 'w, 'z) axum_world_scheme"
where
  "client_endpoint_event L C (MessageDelivered m) ce w =
     (if tm_type m \<noteq> UnaryResponse then w
      else if tm_destination m \<noteq> ep_endpoint_id ce then w
      else
        (case correlation_id m of
           None \<Rightarrow> w
         | Some c \<Rightarrow>
             (let decoded = decode_response C (tm_payload m); p = pendings w (ep_pending ce)
              in case p c of
                   None \<Rightarrow> w
                 | Some tx \<Rightarrow>
                     (let w = w\<lparr>pendings := (pendings w)(ep_pending ce := p(c := None))\<rparr>;
                          r = (case decoded of
                                 Inl e \<Rightarrow> Inl (Internal (lit ''decode: '' @ e))
                               | Inr wire \<Rightarrow> http_response_from_wire L wire);
                          (_, ws, ch) = oneshot_send r (oneshots w tx)
                      in w\<lparr>oneshots := (oneshots w)(tx := ch), woken := woken w @ ws\<rparr>))))"
| "client_endpoint_event L C _ ce w = w"

section \<open>Client\<close>

record axum_client =
  ac_service_name :: str
  ac_transport_key :: uuid
  ac_endpoint :: endpoint_id
  ac_pending :: nat
  ac_next_counter :: u64
  ac_target :: "endpoint_id option"

definition axum_client_new :: "str \<Rightarrow> uuid \<Rightarrow> endpoint_id \<Rightarrow> nat \<Rightarrow> endpoint_id option \<Rightarrow> axum_client" where
  "axum_client_new service k ep pend target =
     \<lparr>ac_service_name = service, ac_transport_key = k, ac_endpoint = ep, ac_pending = pend,
      ac_next_counter = 0, ac_target = target\<rparr>"

definition next_correlation_id :: "axum_client \<Rightarrow> str \<times> axum_client" where
  "next_correlation_id c =
     (let n = ac_next_counter c + 1
      in (ac_service_name c @ lit '':'' @ decimal (unat (ac_endpoint c)) @ lit '':'' @ decimal (unat n),
          c\<lparr>ac_next_counter := n\<rparr>))"

text \<open>
  One round of the loop in \<open>select_target\<close>: an endpoint, an error, or waiting for a change of
  the registry. \<open>deadline\<close> is the present time plus the timeout, taken when the loop starts.
\<close>

datatype selection = Selected endpoint_info | SelectError axum_error | AwaitChange

definition select_target ::
  "simtime option \<Rightarrow> simtime \<Rightarrow> axum_client \<Rightarrow> 'x shared_registry \<Rightarrow> selection \<times> 'x shared_registry"
where
  "select_target deadline at c sr =
     (case ac_target c of
        Some target \<Rightarrow>
          ((case find (\<lambda>e. ei_id e = target) (shared_find_endpoints (ac_service_name c) sr) of
              Some e \<Rightarrow> Selected e
            | None \<Rightarrow>
                SelectError (NotFound (lit ''service not found at pinned endpoint ('' @ decimal (unat target) @ lit '')''))),
           sr)
      | None \<Rightarrow>
          (let (x, sr) = shared_get_endpoint_for_service (ac_service_name c) sr
           in case x of
                Some e \<Rightarrow> (Selected e, sr)
              | None \<Rightarrow>
                  ((case deadline of
                      None \<Rightarrow> AwaitChange
                    | Some d \<Rightarrow>
                        if d \<le> at
                        then SelectError (Timeout (lit ''no endpoints for '' @ [39] @ ac_service_name c @ [39]))
                        else AwaitChange), sr)))"

definition request_to_wire ::
  "('m, 'u, 'n, 'v, 'hm) http_lib \<Rightarrow> ('m, 'u, 'hm) axum_request \<Rightarrow> byte list \<Rightarrow> http_request_wire"
where
  "request_to_wire L req body =
     \<lparr>rq_method = method_str L (hq_method req), rq_uri = uri_str L (hq_uri req),
      rq_headers = wire_headers L (hq_headers req), rq_body = body\<rparr>"

definition request_message :: "axum_client \<Rightarrow> str \<Rightarrow> endpoint_info \<Rightarrow> byte list \<Rightarrow> simtime \<Rightarrow> transport_message" where
  "request_message c cid ep payload at =
     with_correlation_id cid (transport_message_new 0 (ac_endpoint c) (ei_id ep) payload at UnaryRequest)"

text \<open>From the selected endpoint to the wait: the address of the channel the client waits on.\<close>

definition client_send ::
  "('m, 'u, 'n, 'v, 'hm) http_lib \<Rightarrow> wire_codec \<Rightarrow> axum_client \<Rightarrow> str \<Rightarrow> endpoint_info \<Rightarrow> ('m, 'u, 'hm) axum_request
    \<Rightarrow> ('t, 'u1, 'hm, 'w, 'z) axum_world_scheme
    \<Rightarrow> (axum_error + nat) \<times> ('t, 'u1, 'hm, 'w, 'z) axum_world_scheme"
where
  "client_send L C c cid ep req w =
     (case hq_body req of
        Inl e \<Rightarrow> (Inl (Internal (lit ''request body error: '' @ e)), w)
      | Inr body \<Rightarrow>
          (case encode_request C (request_to_wire L req body) of
             Inl e \<Rightarrow> (Inl (Internal (lit ''encode: '' @ e)), w)
           | Inr payload \<Rightarrow>
               (let msg = request_message c cid ep payload (now w);
                    tx = next_oneshot w;
                    w = w\<lparr>next_oneshot := tx + 1, oneshots := (oneshots w)(tx := oneshot_channel)\<rparr>;
                    w = w\<lparr>pendings := (pendings w)(ac_pending c := (pendings w (ac_pending c))(cid \<mapsto> tx))\<rparr>
                in (Inr tx, schedule_transport (ac_transport_key c) (SendMessage msg) w))))"

text \<open>
  One poll of the wait by the task with waker \<open>wk\<close>; \<open>elapsed\<close> tells whether the timeout,
  if there is one, has passed. When the wait ends with the timeout the receiver is dropped.
\<close>

definition client_poll ::
  "'w \<Rightarrow> bool \<Rightarrow> str \<Rightarrow> axum_client \<Rightarrow> str \<Rightarrow> nat \<Rightarrow> ('t, 'u1, 'hm, 'w, 'z) axum_world_scheme
    \<Rightarrow> 'hm axum_result poll \<times> ('t, 'u1, 'hm, 'w, 'z) axum_world_scheme"
where
  "client_poll wk elapsed timeout_text c cid tx w =
     (let (p, ch) = oneshot_poll wk (oneshots w tx); w = w\<lparr>oneshots := (oneshots w)(tx := ch)\<rparr>
      in case p of
           Ready (Inr r) \<Rightarrow> (Ready r, w)
         | Ready (Inl _) \<Rightarrow> (Ready (Inl Cancelled), w)
         | Pending \<Rightarrow>
             if elapsed then
               (Ready (Inl (Timeout (lit ''request timed out after '' @ timeout_text))),
                w\<lparr>pendings := (pendings w)(ac_pending c := (pendings w (ac_pending c))(cid := None)),
                  oneshots := (oneshots w)(tx := oneshot_receiver_drop ch)\<rparr>)
             else (Pending, w))"

section \<open>Server endpoint\<close>

record server_endpoint =
  se_endpoint_id :: endpoint_id
  se_service_name :: str
  se_instance_name :: str
  se_transport_key :: uuid
  se_processing_delay :: duration

definition server_endpoint_build :: "str \<Rightarrow> str \<Rightarrow> uuid \<Rightarrow> duration \<Rightarrow> server_endpoint" where
  "server_endpoint_build service inst k delay =
     \<lparr>se_endpoint_id = endpoint_id_new (service @ lit '':'' @ inst), se_service_name = service,
      se_instance_name = inst, se_transport_key = k, se_processing_delay = delay\<rparr>"

text \<open>The texts of registry errors; only one of them says that something is already registered.\<close>

fun registry_error_text :: "registry_error \<Rightarrow> str" where
  "registry_error_text (AlreadyRegistered i) =
     lit ''Endpoint Endpoint('' @ decimal (unat i) @ lit '') is already registered''"
| "registry_error_text (EndpointNotFound i) = lit ''Endpoint Endpoint('' @ decimal (unat i) @ lit '') not found''"

definition server_start ::
  "server_endpoint \<Rightarrow> 'x shared_registry \<Rightarrow> (axum_error + unit) \<times> 'x list \<times> 'x shared_registry"
where
  "server_start se sr =
     (let info = with_metadata (lit ''endpoint_id'') (decimal (unat (se_endpoint_id se)))
                   (with_metadata (lit ''type'') (lit ''http'')
                     (endpoint_info_new (se_service_name se) (se_instance_name se)));
          (r, ws, sr) = shared_register_endpoint info sr
      in (case r of
            Inl (AlreadyRegistered i) \<Rightarrow> Inl (AlreadyExists (registry_error_text (AlreadyRegistered i)))
          | Inl e \<Rightarrow> Inl (Internal (lit ''failed to register endpoint: '' @ registry_error_text e))
          | Inr u \<Rightarrow> Inr u, ws, sr))"

fun server_endpoint_event ::
  "transport_event \<Rightarrow> server_endpoint \<Rightarrow> ('t, 'u1, 'hm, 'w, 'z) axum_world_scheme \<Rightarrow> ('t, 'u1, 'hm, 'w, 'z) axum_world_scheme"
where
  "server_endpoint_event (MessageDelivered m) se w =
     (if tm_type m \<noteq> UnaryRequest then w
      else
        (case correlation_id m of
           None \<Rightarrow> w
         | Some c \<Rightarrow>
             w\<lparr>spawned := spawned w @
                 [\<lparr>sk_correlation = c, sk_source = tm_source m, sk_destination = tm_destination m,
                   sk_request = tm_payload m, sk_delay = se_processing_delay se\<rparr>]\<rparr>))"
| "server_endpoint_event _ se w = w"

definition text_response :: "str \<Rightarrow> http_response_wire" where
  "text_response s =
     \<lparr>rs_status = 500, rs_headers = [(lit ''content-type'', lit ''text/plain'')], rs_body = s\<rparr>"

text \<open>The response to a decoded or undecodable request; \<open>call\<close> is the router.\<close>

definition response_wire ::
  "('m, 'u, 'n, 'v, 'hm) http_lib \<Rightarrow> (('m, 'u, 'hm) axum_request \<Rightarrow> str + 'hm http_response)
    \<Rightarrow> str + http_request_wire \<Rightarrow> http_response_wire"
where
  "response_wire L call decoded =
     (let resp_wire =
            (case decoded of
               Inl e \<Rightarrow> Inl (Internal (lit ''decode: '' @ e))
             | Inr req_wire \<Rightarrow>
                 (case request_from_wire L req_wire of
                    Inl e \<Rightarrow> Inl e
                  | Inr req \<Rightarrow>
                      (case call req of
                         Inr resp \<Rightarrow> response_to_wire L resp
                       | Inl e \<Rightarrow> Inl (Internal (lit ''service error: '' @ e)))))
      in case resp_wire of Inr x \<Rightarrow> x | Inl e \<Rightarrow> text_response (error_text e))"

definition serve ::
  "('m, 'u, 'n, 'v, 'hm) http_lib \<Rightarrow> wire_codec \<Rightarrow> (('m, 'u, 'hm) axum_request \<Rightarrow> str + 'hm http_response)
    \<Rightarrow> byte list \<Rightarrow> byte list"
where
  "serve L C call payload =
     (case encode_response C (response_wire L call (decode_request C payload)) of
        Inr p \<Rightarrow> p
      | Inl e \<Rightarrow> (case encode_response C (text_response (lit ''encode: '' @ e)) of Inr p \<Rightarrow> p | Inl _ \<Rightarrow> []))"

definition response_message :: "server_task \<Rightarrow> byte list \<Rightarrow> simtime \<Rightarrow> transport_message" where
  "response_message task payload at =
     with_correlation_id (sk_correlation task)
       (transport_message_new 0 (sk_destination task) (sk_source task) payload at UnaryResponse)"

text \<open>The end of the spawned task, after its delay.\<close>

definition server_task_finish ::
  "('m, 'u, 'n, 'v, 'hm) http_lib \<Rightarrow> wire_codec \<Rightarrow> (('m, 'u, 'hm) axum_request \<Rightarrow> str + 'hm http_response)
    \<Rightarrow> uuid \<Rightarrow> server_task \<Rightarrow> ('t, 'u1, 'hm, 'w, 'z) axum_world_scheme \<Rightarrow> ('t, 'u1, 'hm, 'w, 'z) axum_world_scheme"
where
  "server_task_finish L C call k task w =
     (let msg = response_message task (serve L C call (sk_request task)) (now w)
      in schedule_transport k (SendMessage msg) w)"

section \<open>Endpoint components\<close>

datatype axum_endpoint = ClientEndpoint client_endpoint | ServerEndpoint server_endpoint

fun axum_handle ::
  "('m, 'u, 'n, 'v, 'hm) http_lib \<Rightarrow> wire_codec \<Rightarrow> axum_endpoint \<Rightarrow> uuid \<Rightarrow> transport_event
    \<Rightarrow> ('t, 'u1, 'hm, 'w, 'z) axum_world_scheme
    \<Rightarrow> (axum_endpoint \<times> ('t, 'u1, 'hm, 'w, 'z) axum_world_scheme) option"
where
  "axum_handle L C (ClientEndpoint ce) k ev w = Some (ClientEndpoint ce, client_endpoint_event L C ev ce w)"
| "axum_handle L C (ServerEndpoint se) k ev w = Some (ServerEndpoint se, server_endpoint_event ev se w)"

section \<open>Installation\<close>

text \<open>
  \<open>Transport\<close>: a handle with the key of the transport component, the registry and a counter
  that names clients.
\<close>

record 'x axum_transport =
  at_transport_key :: uuid
  at_registry :: "'x shared_registry"
  next_client_id :: u64

type_synonym ('t, 'v, 'z, 'p, 'n, 'x) axum_sim =
  "(transport_event, 't, 'v, 'z, 'p, ('n, 'x, axum_endpoint) network_component) simulation"

definition transport_install ::
  "'n \<Rightarrow> ('t, 'v, 'z, 'p, 'n, 'x) axum_sim \<Rightarrow> 'x axum_transport \<times> ('t, 'v, 'z, 'p, 'n, 'x) axum_sim"
where
  "transport_install n sim =
     (let t = sim_transport_new n; (k, sim) = add_component (TransportC t) sim
      in (\<lparr>at_transport_key = k, at_registry = st_endpoint_registry t, next_client_id = 0\<rparr>, sim))"

text \<open>\<open>sim.get_component_mut::<TransportEvent, SimTransport>\<close> and \<open>register_handler\<close>.\<close>

definition add_handler ::
  "endpoint_id \<Rightarrow> uuid \<Rightarrow> uuid \<Rightarrow> ('t, 'v, 'z, 'p, 'n, 'x) axum_sim \<Rightarrow> axum_error + ('t, 'v, 'z, 'p, 'n, 'x) axum_sim"
where
  "add_handler ep key tk sim =
     (case component_table (sim_components sim) tk of
        Some (TransportC t) \<Rightarrow>
          Inr (sim\<lparr>sim_components := (sim_components sim)
                    \<lparr>component_table := (component_table (sim_components sim))
                       (tk \<mapsto> TransportC (register_handler ep key t))\<rparr>\<rparr>)
      | _ \<Rightarrow> Inl (Internal (lit ''transport component not found'')))"

text \<open>
  \<open>pend\<close> is the address of the new map of pending requests. On the error the component stays
  in the simulation.
\<close>

definition client_install ::
  "str \<Rightarrow> uuid \<Rightarrow> str \<Rightarrow> endpoint_id option \<Rightarrow> endpoint_id option \<Rightarrow> nat \<Rightarrow> ('t, 'v, 'z, 'p, 'n, 'x) axum_sim
    \<Rightarrow> (axum_error + endpoint_id \<times> uuid \<times> axum_client) \<times> ('t, 'v, 'z, 'p, 'n, 'x) axum_sim"
where
  "client_install service tk name endpoint target pend sim =
     (let ep = (case endpoint of Some e \<Rightarrow> e | None \<Rightarrow> endpoint_id_new (lit ''client:'' @ name));
          (key, sim) = add_component (EndpointC (ClientEndpoint \<lparr>ep_endpoint_id = ep, ep_pending = pend\<rparr>)) sim
      in case add_handler ep key tk sim of
           Inl e \<Rightarrow> (Inl e, sim)
         | Inr sim \<Rightarrow> (Inr (ep, key, axum_client_new service tk ep pend target), sim))"

definition server_install ::
  "server_endpoint \<Rightarrow> 'x shared_registry \<Rightarrow> ('t, 'v, 'z, 'p, 'n, 'x) axum_sim
    \<Rightarrow> (axum_error + endpoint_id \<times> uuid) \<times> 'x list \<times> 'x shared_registry \<times> ('t, 'v, 'z, 'p, 'n, 'x) axum_sim"
where
  "server_install se sr sim =
     (let (r, ws, sr) = server_start se sr
      in case r of
           Inl e \<Rightarrow> (Inl e, ws, sr, sim)
         | Inr _ \<Rightarrow>
             (let (key, sim) = add_component (EndpointC (ServerEndpoint se)) sim
              in case add_handler (se_endpoint_id se) key (se_transport_key se) sim of
                   Inl e \<Rightarrow> (Inl e, ws, sr, sim)
                 | Inr sim \<Rightarrow> (Inr (se_endpoint_id se, key), ws, sr, sim)))"

definition next_client_name :: "str \<Rightarrow> 'x axum_transport \<Rightarrow> str \<times> 'x axum_transport" where
  "next_client_name service tr =
     (let n = next_client_id tr + 1 in (service @ lit '':'' @ decimal (unat n), tr\<lparr>next_client_id := n\<rparr>))"

definition serve_named ::
  "str \<Rightarrow> str \<Rightarrow> 'x axum_transport \<Rightarrow> ('t, 'v, 'z, 'p, 'n, 'x) axum_sim
    \<Rightarrow> (axum_error + endpoint_id \<times> uuid) \<times> 'x list \<times> 'x axum_transport \<times> ('t, 'v, 'z, 'p, 'n, 'x) axum_sim"
where
  "serve_named service inst tr sim =
     (let (r, ws, sr, sim) =
            server_install (server_endpoint_build service inst (at_transport_key tr) 0) (at_registry tr) sim
      in (r, ws, tr\<lparr>at_registry := sr\<rparr>, sim))"

definition install_client ::
  "str \<Rightarrow> endpoint_id option \<Rightarrow> nat \<Rightarrow> 'x axum_transport \<Rightarrow> ('t, 'v, 'z, 'p, 'n, 'x) axum_sim
    \<Rightarrow> (axum_error + endpoint_id \<times> uuid \<times> axum_client) \<times> 'x axum_transport \<times> ('t, 'v, 'z, 'p, 'n, 'x) axum_sim"
where
  "install_client service target pend tr sim =
     (let (name, tr) = next_client_name service tr;
          (r, sim) = client_install service (at_transport_key tr) name None target pend sim
      in (r, tr, sim))"

definition connect ::
  "str \<Rightarrow> nat \<Rightarrow> 'x axum_transport \<Rightarrow> ('t, 'v, 'z, 'p, 'n, 'x) axum_sim
    \<Rightarrow> (axum_error + axum_client) \<times> 'x axum_transport \<times> ('t, 'v, 'z, 'p, 'n, 'x) axum_sim"
where
  "connect service pend tr sim =
     (let (r, tr, sim) = install_client service None pend tr sim
      in (case r of Inl e \<Rightarrow> Inl e | Inr (_, _, c) \<Rightarrow> Inr c, tr, sim))"

text \<open>\<open>addr\<close> is the text of the socket address.\<close>

definition connect_socket_addr ::
  "str \<Rightarrow> str \<Rightarrow> nat \<Rightarrow> 'x axum_transport \<Rightarrow> ('t, 'v, 'z, 'p, 'n, 'x) axum_sim
    \<Rightarrow> (axum_error + axum_client) \<times> 'x axum_transport \<times> ('t, 'v, 'z, 'p, 'n, 'x) axum_sim"
where
  "connect_socket_addr service addr pend tr sim =
     (let target = endpoint_id_new (service @ lit '':'' @ addr);
          found = list_ex (\<lambda>e. ei_id e = target) (shared_find_endpoints service (at_registry tr))
      in if \<not> found
         then (Inl (NotFound (lit ''service not found at '' @ addr @ lit '' ('' @ service @ lit '')'')), tr, sim)
         else
           (let (r, tr, sim) = install_client service (Some target) pend tr sim
            in (case r of Inl e \<Rightarrow> Inl e | Inr (_, _, c) \<Rightarrow> Inr c, tr, sim)))"

section \<open>Requests reach their responses\<close>

text \<open>A message as it arrives: the transport sets its identifier and the time.\<close>

definition arrives_as :: "transport_message \<Rightarrow> transport_message \<Rightarrow> bool" where
  "arrives_as m m' \<longleftrightarrow> m' = m\<lparr>tm_id := tm_id m', sent_at := sent_at m'\<rparr>"

lemma arrives_as_simps:
  assumes "arrives_as m m'"
  shows "tm_source m' = tm_source m" "tm_destination m' = tm_destination m" "tm_payload m' = tm_payload m"
    "correlation_id m' = correlation_id m" "tm_type m' = tm_type m"
  by (metis assms arrives_as_def transport_message.select_convs transport_message.surjective
      transport_message.update_convs)+

text \<open>What \<open>bincode\<close> promises: decoding an encoded value gives it back.\<close>

definition codec_ok :: "wire_codec \<Rightarrow> bool" where
  "codec_ok C \<longleftrightarrow>
     (\<forall>x p. encode_request C x = Inr p \<longrightarrow> decode_request C p = Inr x) \<and>
     (\<forall>x p. encode_response C x = Inr p \<longrightarrow> decode_response C p = Inr x)"

lemma request_message_simps [simp]:
  "tm_source (request_message c cid ep p t) = ac_endpoint c" "tm_destination (request_message c cid ep p t) = ei_id ep"
  "tm_payload (request_message c cid ep p t) = p" "correlation_id (request_message c cid ep p t) = Some cid"
  "tm_type (request_message c cid ep p t) = UnaryRequest"
  by (simp_all add: request_message_def with_correlation_id_def transport_message_new_def)

lemma response_message_simps [simp]:
  "tm_source (response_message k p t) = sk_destination k" "tm_destination (response_message k p t) = sk_source k"
  "tm_payload (response_message k p t) = p" "correlation_id (response_message k p t) = Some (sk_correlation k)"
  "tm_type (response_message k p t) = UnaryResponse"
  by (simp_all add: response_message_def with_correlation_id_def transport_message_new_def)

lemma server_spawns:
  assumes "arrives_as (request_message c cid ep p t) m"
  shows "server_endpoint_event (MessageDelivered m) se w = w\<lparr>spawned := spawned w @
    [\<lparr>sk_correlation = cid, sk_source = ac_endpoint c, sk_destination = ei_id ep, sk_request = p,
      sk_delay = se_processing_delay se\<rparr>]\<rparr>"
  using arrives_as_simps [OF assms] by simp

lemma send_poll_oneshot:
  assumes "os_receiver_alive ch" "oneshot_send r ch = (x, ws, ch')"
  shows "fst (oneshot_poll wk ch') = Ready (Inr r)"
  using assms by (auto simp: oneshot_defs split: option.splits)

lemma client_completes:
  assumes "tm_type m = UnaryResponse" "tm_destination m = ep_endpoint_id ce" "correlation_id m = Some cid"
    and "decode_response C (tm_payload m) = Inr wire" "pendings w (ep_pending ce) cid = Some tx"
    and "os_receiver_alive (oneshots w tx)" "ep_pending ce = ac_pending c"
    and "w' = client_endpoint_event L C (MessageDelivered m) ce w"
  shows "pendings w' = (pendings w)(ac_pending c := (pendings w (ac_pending c))(cid := None))"
    and "tx' \<noteq> tx \<Longrightarrow> oneshots w' tx' = oneshots w tx'"
    and "fst (client_poll wk elapsed label c cid tx w') = Ready (http_response_from_wire L wire)"
proof -
  obtain x ws ch where ch: "oneshot_send (http_response_from_wire L wire) (oneshots w tx) = (x, ws, ch)"
    using prod_cases3 by blast
  have w': "w' = w\<lparr>pendings := (pendings w)(ac_pending c := (pendings w (ac_pending c))(cid := None)),
      oneshots := (oneshots w)(tx := ch), woken := woken w @ ws\<rparr>"
    using assms(1-5,7,8) ch by simp
  show "pendings w' = (pendings w)(ac_pending c := (pendings w (ac_pending c))(cid := None))"
    "tx' \<noteq> tx \<Longrightarrow> oneshots w' tx' = oneshots w tx'"
    by (simp_all add: w')
  obtain ch' where "oneshot_poll wk ch = (Ready (Inr (http_response_from_wire L wire)), ch')"
    using send_poll_oneshot [OF assms(6) ch, of wk] by (metis prod.collapse)
  then show "fst (client_poll wk elapsed label c cid tx w') = Ready (http_response_from_wire L wire)"
    by (simp add: w' client_poll_def)
qed

text \<open>
  C31. A response completes the request it answers. A client's request is registered under its
  correlation identifier with a new channel and sent as one message, and nothing else happens to the
  world; a server endpoint where it arrives spawns one task, which sends one message back, whatever the
  router does. When this arrives at the client while the request is pending and its receiver
  waits, exactly this request is completed, with the router's response, also when the timeout
  passes at the same moment.
\<close>

theorem axum_request_response:
  assumes "codec_ok C" and "hq_body req = Inr body"
    and "encode_request C (request_to_wire L req body) = Inr payload"
    and "arrives_as (request_message c cid ep payload (time w)) m1"
    and "encode_response C (response_wire L call (Inr (request_to_wire L req body))) = Inr answer"
    and "arrives_as (response_message task answer (time w3)) m2"
    and "sk_correlation task = cid" "sk_source task = ac_endpoint c" "sk_request task = payload"
    and "ep_endpoint_id ce = ac_endpoint c" "ep_pending ce = ac_pending c"
    and "pendings w4 (ac_pending c) cid = Some tx" "os_receiver_alive (oneshots w4 tx)"
  shows "client_send L C c cid ep req w =
      (Inr (next_oneshot w),
       schedule_transport (ac_transport_key c) (SendMessage (request_message c cid ep payload (time w)))
         (w\<lparr>next_oneshot := next_oneshot w + 1, oneshots := (oneshots w)(next_oneshot w := oneshot_channel),
            pendings := (pendings w)(ac_pending c := (pendings w (ac_pending c))(cid \<mapsto> next_oneshot w))\<rparr>))
    \<and> (\<exists>task'. server_endpoint_event (MessageDelivered m1) se w2 = w2\<lparr>spawned := spawned w2 @ [task']\<rparr>
      \<and> sk_correlation task' = cid \<and> sk_source task' = ac_endpoint c \<and> sk_request task' = payload)
    \<and> (server_task_finish L C call k task w3 =
      schedule_transport k (SendMessage (response_message task answer (time w3))) w3)
    \<and> (let w5 = client_endpoint_event L C (MessageDelivered m2) ce w4
      in pendings w5 = (pendings w4)(ac_pending c := (pendings w4 (ac_pending c))(cid := None))
         \<and> (\<forall>tx'. tx' \<noteq> tx \<longrightarrow> oneshots w5 tx' = oneshots w4 tx')
         \<and> fst (client_poll wk elapsed label c cid tx w5) =
             Ready (http_response_from_wire L (response_wire L call (Inr (request_to_wire L req body)))))"
proof (intro conjI)
  show "client_send L C c cid ep req w =
      (Inr (next_oneshot w),
       schedule_transport (ac_transport_key c) (SendMessage (request_message c cid ep payload (time w)))
         (w\<lparr>next_oneshot := next_oneshot w + 1, oneshots := (oneshots w)(next_oneshot w := oneshot_channel),
            pendings := (pendings w)(ac_pending c := (pendings w (ac_pending c))(cid \<mapsto> next_oneshot w))\<rparr>))"
    using assms(2,3) by (simp add: client_send_def Let_def)
  show "\<exists>task'. server_endpoint_event (MessageDelivered m1) se w2 = w2\<lparr>spawned := spawned w2 @ [task']\<rparr>
      \<and> sk_correlation task' = cid \<and> sk_source task' = ac_endpoint c \<and> sk_request task' = payload"
    by (rule exI, rule conjI, rule server_spawns [OF assms(4)]) simp
  have dec: "decode_request C payload = Inr (request_to_wire L req body)"
    using assms(1,3) by (simp add: codec_ok_def)
  then show "server_task_finish L C call k task w3 =
      schedule_transport k (SendMessage (response_message task answer (time w3))) w3"
    using assms(5,9) by (simp add: server_task_finish_def serve_def)
  have "decode_response C (tm_payload m2) = Inr (response_wire L call (Inr (request_to_wire L req body)))"
    using assms(1,5) arrives_as_simps [OF assms(6)] by (simp add: codec_ok_def)
  note fin = client_completes [OF _ _ _ this _ assms(13,11) refl]
  have m2: "tm_type m2 = UnaryResponse" "tm_destination m2 = ep_endpoint_id ce" "correlation_id m2 = Some cid"
    "pendings w4 (ep_pending ce) cid = Some tx"
    using arrives_as_simps [OF assms(6)] assms(7,8,10-12) by simp_all
  show "let w5 = client_endpoint_event L C (MessageDelivered m2) ce w4
      in pendings w5 = (pendings w4)(ac_pending c := (pendings w4 (ac_pending c))(cid := None))
         \<and> (\<forall>tx'. tx' \<noteq> tx \<longrightarrow> oneshots w5 tx' = oneshots w4 tx')
         \<and> fst (client_poll wk elapsed label c cid tx w5) =
             Ready (http_response_from_wire L (response_wire L call (Inr (request_to_wire L req body))))"
    unfolding Let_def using fin(1) [OF m2] fin(2) [OF m2] fin(3) [OF m2] by blast
qed

text \<open>An instance: one known request and one known response, no headers.\<close>

definition demo_lib :: "(str, str, str, str, (str \<times> str) list) http_lib" where
  "demo_lib = \<lparr>method_from_bytes = Inr, method_str = id, uri_parse = Inr, uri_str = id, header_name = Inr,
     header_value = Inr, no_headers = [], append_header = (\<lambda>n v hm. hm @ [(n, v)]),
     header_iter = map (\<lambda>(n, v). (n, Some v)), valid_status = (\<lambda>s. 100 \<le> s \<and> s \<le> 999)\<rparr>"

definition demo_request :: "(str, str, (str \<times> str) list) axum_request" where
  "demo_request = \<lparr>hq_method = lit ''GET'', hq_uri = lit ''/'', hq_headers = [], hq_body = Inr []\<rparr>"

definition demo_call :: "(str, str, (str \<times> str) list) axum_request \<Rightarrow> str + (str \<times> str) list http_response" where
  "demo_call req = Inr \<lparr>hr_status = 200, hr_headers = [], hr_body = Inr (hq_uri req)\<rparr>"

definition demo_codec :: wire_codec where
  "demo_codec =
     (let q = request_to_wire demo_lib demo_request []; r = response_wire demo_lib demo_call (Inr q)
      in \<lparr>encode_request = (\<lambda>x. if x = q then Inr [1] else Inl []),
          decode_request = (\<lambda>p. if p = [1] then Inr q else Inl []),
          encode_response = (\<lambda>x. if x = r then Inr [2] else Inl []),
          decode_response = (\<lambda>p. if p = [2] then Inr r else Inl [])\<rparr>)"

definition demo_axum_world :: "(unit, unit, (str \<times> str) list, nat) axum_world" where
  "demo_axum_world =
     world.extend (scheduler.extend (with_seed 0) (world.fields [] False))
       \<lparr>axum_world.oneshots = (\<lambda>_. oneshot_channel), next_oneshot = 8, pendings = (\<lambda>_. [lit ''c'' \<mapsto> 7]),
        woken = [], spawned = []\<rparr>"

lemma demo_codec_ok: "codec_ok demo_codec"
  by (auto simp: codec_ok_def demo_codec_def Let_def split: if_splits)

definition demo_client :: axum_client where
  "demo_client = axum_client_new (lit ''svc'') 5 3 4 None"

definition demo_task :: server_task where
  "demo_task = \<lparr>sk_correlation = lit ''c'', sk_source = 3, sk_destination = 6, sk_request = [1], sk_delay = 0\<rparr>"

theorem axum_request_response_witness:
  "fst (client_send demo_lib demo_codec demo_client (lit ''c'') (endpoint_info_new (lit ''svc'') (lit ''0'')) demo_request
      demo_axum_world) = Inr 8 \<and>
   fst (client_poll 9 True [] demo_client (lit ''c'') 7
      (client_endpoint_event demo_lib demo_codec
        (MessageDelivered (response_message demo_task [2] (time demo_axum_world)))
        \<lparr>ep_endpoint_id = 3, ep_pending = 4\<rparr> demo_axum_world)) =
   Ready (Inr \<lparr>hr_status = 200, hr_headers = [], hr_body = Inr (lit ''/'')\<rparr>)"
proof -
  let ?q = "request_to_wire demo_lib demo_request []" and ?ce = "\<lparr>ep_endpoint_id = 3, ep_pending = 4\<rparr>"
  have enc: "encode_request demo_codec ?q = Inr [1]"
    "encode_response demo_codec (response_wire demo_lib demo_call (Inr ?q)) = Inr [2]"
    by (simp_all add: demo_codec_def Let_def)
  have w: "pendings demo_axum_world (ac_pending demo_client) (lit ''c'') = Some 7"
    "os_receiver_alive (oneshots demo_axum_world 7)"
    by (simp_all add: demo_axum_world_def world.defs scheduler.defs with_seed_def oneshot_channel_def)
  have resp: "http_response_from_wire demo_lib (response_wire demo_lib demo_call (Inr ?q)) =
    Inr \<lparr>hr_status = 200, hr_headers = [], hr_body = Inr (lit ''/'')\<rparr>"
    by (simp add: http_response_from_wire_def response_wire_def request_to_wire_def request_from_wire_def
        response_to_wire_def wire_headers_def demo_lib_def demo_request_def demo_call_def)
  have arr: "arrives_as m m" for m by (simp add: arrives_as_def)
  have "hq_body demo_request = Inr []" "sk_correlation demo_task = lit ''c''" "sk_source demo_task = ac_endpoint demo_client"
    "sk_request demo_task = [1]" "ep_endpoint_id ?ce = ac_endpoint demo_client" "ep_pending ?ce = ac_pending demo_client"
    by (simp_all add: demo_request_def demo_task_def demo_client_def axum_client_new_def)
  note fact = axum_request_response [where wk = 9 and elapsed = True and label = "[]"
      and w = demo_axum_world and ep = "endpoint_info_new (lit ''svc'') (lit ''0'')",
      OF demo_codec_ok this(1) enc(1) arr enc(2) arr this(2-6) w]
  have "next_oneshot demo_axum_world = 8"
    by (simp add: demo_axum_world_def world.defs scheduler.defs)
  with fact [THEN conjunct1] have "fst (client_send demo_lib demo_codec demo_client (lit ''c'')
      (endpoint_info_new (lit ''svc'') (lit ''0'')) demo_request demo_axum_world) = Inr 8" by simp
  moreover from fact [THEN conjunct2, THEN conjunct2, THEN conjunct2, unfolded Let_def, THEN conjunct2, THEN conjunct2] resp
  have "fst (client_poll 9 True [] demo_client (lit ''c'') 7
      (client_endpoint_event demo_lib demo_codec
        (MessageDelivered (response_message demo_task [2] (time demo_axum_world)))
        \<lparr>ep_endpoint_id = 3, ep_pending = 4\<rparr> demo_axum_world)) =
    Ready (Inr \<lparr>hr_status = 200, hr_headers = [], hr_body = Inr (lit ''/'')\<rparr>)"
    by (simp only:)
  ultimately show ?thesis ..
qed

text \<open>Correlation identifiers of one client do not repeat, so a pending request is never replaced.\<close>

primrec correlation_ids :: "nat \<Rightarrow> axum_client \<Rightarrow> str list" where
  "correlation_ids 0 c = []"
| "correlation_ids (Suc n) c = (let (i, c) = next_correlation_id c in i # correlation_ids n c)"

lemma correlation_ids_eq:
  "unat (ac_next_counter c) + n < 2 ^ 64 \<Longrightarrow>
   correlation_ids n c = map (\<lambda>j. ac_service_name c @ lit '':'' @ decimal (unat (ac_endpoint c)) @ lit '':'' @
     decimal (unat (ac_next_counter c) + Suc j)) [0..<n]"
proof (induction n arbitrary: c)
  case (Suc n)
  define c' where "c' = c\<lparr>ac_next_counter := ac_next_counter c + 1\<rparr>"
  have "ac_next_counter c \<noteq> - 1"
    using Suc.prems by (auto simp: unat_max)
  then have u: "unat (ac_next_counter c') = Suc (unat (ac_next_counter c))"
    by (simp add: c'_def unat_Suc_word)
  have "correlation_ids n c' = map (\<lambda>j. ac_service_name c @ lit '':'' @ decimal (unat (ac_endpoint c)) @ lit '':'' @
     decimal (unat (ac_next_counter c) + Suc j)) [Suc 0..<Suc n]"
    using Suc.IH [of c'] Suc.prems u
    by (simp add: c'_def comp_def map_Suc_upt [symmetric] del: upt_Suc)
  moreover have "next_correlation_id c = (ac_service_name c @ lit '':'' @ decimal (unat (ac_endpoint c)) @ lit '':'' @
     decimal (unat (ac_next_counter c) + Suc 0), c')"
    using u by (simp add: next_correlation_id_def c'_def)
  ultimately show ?case by (simp add: upt_conv_Cons del: upt_Suc)
qed simp

theorem correlation_ids_distinct:
  "unat (ac_next_counter c) + n < 2 ^ 64 \<Longrightarrow> distinct (correlation_ids n c)"
  by (simp add: correlation_ids_eq distinct_map inj_on_def)

text \<open>A second response under the same identifier is ignored.\<close>

theorem duplicate_response_ignored:
  "client_endpoint_event L C (MessageDelivered m) ce (client_endpoint_event L C (MessageDelivered m) ce w) =
   client_endpoint_event L C (MessageDelivered m) ce w"
proof (cases "correlation_id m")
  case (Some c)
  then show ?thesis
    by (cases "pendings w (ep_pending ce) c") (simp_all add: Let_def case_prod_beta)
qed simp

end
