(* ===== verification/Network_System.thy ===== *)
theory Network_System
  imports Axum
begin

text \<open>
  The transport with the endpoints of \<open>des-axum\<close> behind it, in one simulation. Tasks generate
  the load: each holds a message and sends it to the transport when it runs. The endpoints and
  these tasks satisfy the contract \<open>network_code\<close>; the properties of the transport are
  stated for any code that does.
\<close>

section \<open>The endpoints satisfy the contract\<close>

text \<open>Endpoints change only what lies outside the scheduler.\<close>

lemma client_endpoint_frame:
  "\<exists>z. client_endpoint_event L C ev ce w = w\<lparr>world.more := z\<rparr>"
proof (cases ev)
  case (MessageDelivered m)
  then show ?thesis
    by (cases w) (auto simp: Let_def split: option.splits prod.splits)
qed (cases w; auto)+

lemma server_endpoint_frame:
  "\<exists>z. server_endpoint_event ev se w = w\<lparr>world.more := z\<rparr>"
  by (cases ev; cases w) (auto split: option.splits)

lemma more_frame:
  "api_run w (w\<lparr>world.more := z\<rparr>)" "keeps_flight tk w (w\<lparr>world.more := z\<rparr>)"
proof -
  have "w\<lparr>world.more := z\<rparr> = w\<lparr>scheduler.more := scheduler.more (w\<lparr>world.more := z\<rparr>)\<rparr>"
    by (cases w) simp
  then show "api_run w (w\<lparr>world.more := z\<rparr>)" by (metis api_ambient r_into_rtranclp)
  show "keeps_flight tk w (w\<lparr>world.more := z\<rparr>)" by (rule keeps_flight_events) simp_all
qed

lemma axum_handle_frame:
  assumes "axum_handle L C ep k ev w = Some (ep', w')"
  shows "api_run w w' \<and> keeps_flight tk w w'"
proof -
  from assms obtain z where "w' = w\<lparr>world.more := z\<rparr>"
    by (cases ep) (auto dest: sym intro: client_endpoint_frame [THEN exE] server_endpoint_frame [THEN exE])
  then show ?thesis by (simp add: more_frame)
qed

section \<open>Tasks that send messages\<close>

definition message_code :: "(transport_event, uuid \<times> transport_message, unit, unit, 'z) user_code" where
  "message_code =
     \<lparr>run_closure = (\<lambda>(k, m) s. (AnyUnit, schedule_now k (SendMessage m) s)),
      run_callback = (\<lambda>(k, m) s. schedule_now k (SendMessage m) s),
      run_operation = (\<lambda>(k, m) s. (Inr (), schedule_now k (SendMessage m) s)),
      default_task_id = 0\<rparr>"

lemma message_code_ok: "code_ok message_code"
  by (auto simp: code_ok_def message_code_def schedule_now_def intro: api_run_schedule)

lemma keeps_flight_schedule: "keeps_flight tk w w' \<Longrightarrow> keeps_flight tk w (schedule d k (SendMessage m) w')"
  by (simp add: keeps_flight_def flight_schedule)

lemma keeps_flight_task_at: "keeps_flight tk w w' \<Longrightarrow> keeps_flight tk w (schedule_task_at t i task w')"
  by (simp add: keeps_flight_def flight_def sched_simps schedule_task_at_def Let_def)

lemma keeps_flight_refl: "keeps_flight tk w w"
  by (simp add: keeps_flight_def)

lemma message_task_flight: "keeps_flight tk w (snd (exec_task message_code t w))"
  by (cases t)
    (auto simp: message_code_def schedule_now_def execute_retry_def execute_periodic_def Let_def
      intro!: keeps_flight_schedule keeps_flight_task_at keeps_flight_refl split: prod.splits option.splits)

interpretation axum_net: network_code tk NM "exec_task message_code" "axum_handle L C" for tk NM L C
proof (unfold_locales, goal_cases)
  case (1 w t)
  then show ?case
    using exec_task_run [OF message_code_ok, of w _ t] message_task_flight [of tk w t] by auto
qed (rule axum_handle_frame)

section \<open>Properties of the transport\<close>

text \<open>
  C8. The transport loses and invents no message. Whatever the frontier policy, the network model
  and the components behind the endpoints do, after any run from a state in which nothing is
  in flight and the counters are reset, every message the transport has taken in was dropped
  by the network model, has been delivered, or is still in flight.
\<close>

theorem transport_conservation:
  assumes "network_code tk exec hp" and "sim_run exec (network_handle NM hp) sim es sim'" and "sim_ok sim"
    and "ids_fit (sched sim')" and "one_transport tk (sim_components sim) t"
    and "stats t = transport_stats_default" and "flight tk (sched sim) = {#}"
  shows "\<exists>t'. component_table (sim_components sim') tk = Some (TransportC t') \<and>
    messages_sent (stats t') =
      messages_delivered (stats t') + messages_dropped (stats t') + size (flight tk (sched sim')) \<and>
    bytes_delivered (stats t') \<le> bytes_sent (stats t')"
proof -
  have "accounted (stats t) (flight tk (sched sim))"
    using assms(6,7) by (simp add: accounted_def transport_stats_default_def sent_bytes_def)
  with network_code.run_accounted [OF assms(1-5)] show ?thesis
    by (fastforce simp: accounted_def one_transport_def)
qed

text \<open>
  C9. Messages between two endpoints arrive in the order they were sent. Under the FIFO frontier
  policy and a network model that keeps its delays monotone per pair of endpoints, as both
  network models do, the payloads delivered from \<open>a\<close> to \<open>b\<close> in a run that starts with
  nothing in flight are a subsequence of those the transport took in: some are dropped or
  still in flight, but none overtakes another, none is duplicated and none is made up.
\<close>

theorem transport_fifo:
  assumes "network_code tk exec hp" and "fifo_network NM bound" and "policy sim = fifo_choose"
    and "sim_run exec (network_handle NM hp) sim es sim'" and "sim_ok sim" and "ids_fit (sched sim')"
    and "one_transport tk (sim_components sim) t" and "flight tk (sched sim) = {#}"
  shows "subseq (delivered_payloads tk a b es) (sent_payloads tk a b es)"
proof -
  have "lined_up tk a b (bound (st_network_model t) a b) [] (sched sim)"
    using assms(8) by (simp add: lined_up_def)
  with network_code.run_in_order [OF assms(1,2,4-6,3,7)] show ?thesis by fastforce
qed

section \<open>Instances\<close>

definition demo_net :: "(nat, unit) simple_network network_model" where
  "demo_net = simple_network_model nat_f64 (\<lambda>g. (1, g)) ()"

definition demo_transport :: "((nat, unit) simple_network, nat) sim_transport" where
  "demo_transport =
     register_handler 9 6 (sim_transport_new \<lparr>sn_base_latency = 10, sn_packet_loss_rate = 0, sn_rng = ()\<rparr>)"

definition demo_message :: transport_message where
  "demo_message = transport_message_new 0 3 9 [7, 8] zero UnaryRequest"

text \<open>A transport, a server endpoint behind it, and a message that is about to be sent.\<close>

definition net_sim where
  "net_sim =
     (let sim = simulation_new 42 (world.more demo_axum_world);
          cs = \<lparr>component_table = [5 \<mapsto> TransportC demo_transport,
                  6 \<mapsto> EndpointC (ServerEndpoint (server_endpoint_build [] [] 5 0))],
                components_next_id = 0, components_id_seed = 0\<rparr>
      in sim\<lparr>sim_components := cs, sched := schedule zero 5 (SendMessage demo_message) (sched sim)\<rparr>)"

definition net_run where
  "net_run n = run_n (exec_task message_code) (network_handle demo_net (axum_handle demo_lib demo_codec)) n net_sim"

lemmas net_eval = net_run_def net_sim_def sim_new_eval sched_eval step_eval ids_fit_def demo_net_def
  demo_transport_def register_handler_def sim_transport_new_def demo_message_def transport_message_new_def
  simple_network_model_def nat_f64_def assign_id_def count_sent_def count_dropped_def schedule_now_def
  handle_message_delivered_def transport_stats_default_def message_size_def zero_def from_duration_def
  try_from_nat_def

lemma net_sim_ok: "sim_ok net_sim" "policy net_sim = fifo_choose"
  "one_transport 5 (sim_components net_sim) demo_transport" "flight 5 (sched net_sim) = {#}"
  "stats demo_transport = transport_stats_default"
  by (simp_all add: net_eval sim_ok_def sched_ok_def tasks_inv_def in_scheduler_context_def one_transport_def
      flight_def ran_def)

lemma net_run_two:
  "\<exists>e1 e2 sim'. net_run (Suc (Suc 0)) = Some ([e1, e2], sim') \<and> ids_fit (sched sim') \<and>
     delivered_payloads 5 3 9 [e1, e2] = [[7, 8]] \<and> flight 5 (sched sim') = {#}"
  by (simp add: net_eval for_pair_def flight_def)

theorem transport_conservation_witness:
  "\<exists>es sim' t. net_run (Suc (Suc 0)) = Some (es, sim') \<and> component_table (sim_components sim') 5 = Some (TransportC t)
     \<and> messages_sent (stats t) = messages_delivered (stats t) + messages_dropped (stats t)"
proof -
  obtain e1 e2 sim' where d: "net_run (Suc (Suc 0)) = Some ([e1, e2], sim')" "ids_fit (sched sim')"
    "flight 5 (sched sim') = {#}" using net_run_two by blast
  then have "sim_run (exec_task message_code) (network_handle demo_net (axum_handle demo_lib demo_codec)) net_sim [e1, e2] sim'"
    unfolding net_run_def by (blast dest: run_n_run)
  from transport_conservation [OF axum_net.network_code_axioms this net_sim_ok(1) d(2) net_sim_ok(3,5,4)] d
  show ?thesis by auto
qed

theorem transport_fifo_witness:
  "\<exists>es sim'. net_run (Suc (Suc 0)) = Some (es, sim') \<and> delivered_payloads 5 3 9 es = [[7, 8]]
     \<and> subseq (delivered_payloads 5 3 9 es) (sent_payloads 5 3 9 es)"
proof -
  obtain e1 e2 sim' where d: "net_run (Suc (Suc 0)) = Some ([e1, e2], sim')" "ids_fit (sched sim')"
    "delivered_payloads 5 3 9 [e1, e2] = [[7, 8]]" using net_run_two by blast
  then have run: "sim_run (exec_task message_code) (network_handle demo_net (axum_handle demo_lib demo_codec)) net_sim [e1, e2] sim'"
    unfolding net_run_def by (blast dest: run_n_run)
  have "subseq (delivered_payloads 5 3 9 [e1, e2]) (sent_payloads 5 3 9 [e1, e2])"
    by (rule transport_fifo [OF axum_net.network_code_axioms simple_net.fifo_network_axioms net_sim_ok(2)
          run [unfolded demo_net_def] net_sim_ok(1) d(2) net_sim_ok(3,4)])
  with d show ?thesis by blast
qed

end
