(* ===== verification/Tokio_Task.thy ===== *)
theory Tokio_Task
  imports Async_Runtime
begin

text \<open>
  \<open>des-tokio/src/task.rs\<close>, \<open>runtime_internal.rs\<close> and \<open>thread.rs\<close>: join handles, abort handles,
  sets of joined tasks and yielding. A join state is shared by the spawned task, its join
  handle and its abort handles; the operations on one state are functions on the record, and
  sets of handles refer to states by address. Wakers are those of the runtime, so calling one
  defers an event.
\<close>

section \<open>Join states\<close>

datatype join_error = JoinCancelled

record 'a join_state =
  js_completed :: bool
  js_cancelled :: bool
  js_result :: "'a option"
  js_waker :: "des_waker option"

definition join_state_new :: "'a join_state" where
  "join_state_new = \<lparr>js_completed = False, js_cancelled = False, js_result = None, js_waker = None\<rparr>"

text \<open>The waker that \<open>take()\<close> finds is called; the operations return it.\<close>

definition take_join_waker :: "'a join_state \<Rightarrow> des_waker list \<times> 'a join_state" where
  "take_join_waker s = (case js_waker s of Some w \<Rightarrow> [w] | None \<Rightarrow> [], s\<lparr>js_waker := None\<rparr>)"

definition join_complete :: "'a \<Rightarrow> 'a join_state \<Rightarrow> des_waker list \<times> 'a join_state" where
  "join_complete v s = take_join_waker (s\<lparr>js_result := Some v, js_completed := True\<rparr>)"

definition set_cancelled :: "'a join_state \<Rightarrow> des_waker list \<times> 'a join_state" where
  "set_cancelled s = take_join_waker (s\<lparr>js_cancelled := True\<rparr>)"

text \<open>\<open>JoinHandle::poll\<close>; \<open>None\<close> is the panic of \<open>expect\<close> when the result was taken before.\<close>

definition join_poll :: "des_waker \<Rightarrow> 'a join_state \<Rightarrow> ((join_error + 'a) poll \<times> 'a join_state) option" where
  "join_poll w s =
     (if js_cancelled s then Some (Ready (Inl JoinCancelled), s)
      else if js_completed s then
        map_option (\<lambda>v. (Ready (Inr v), s\<lparr>js_result := None\<rparr>)) (js_result s)
      else Some (Pending, s\<lparr>js_waker := Some w\<rparr>))"

section \<open>Handles\<close>

record join_handle =
  jh_task_id :: nat
  jh_runtime_key :: uuid
  jh_state :: nat

record abort_handle =
  ah_task_id :: nat
  ah_runtime_key :: uuid
  ah_state :: nat

type_synonym 'a join_store = "nat \<Rightarrow> 'a join_state"

type_synonym ('e, 't, 'v, 'f, 'z) task_world = "('e, 't, 'v, 'f, 'z) rt_world_scheme"

definition defer_cancel :: "uuid \<Rightarrow> nat \<Rightarrow> ('e, 't, 'v, 'f, 'z) task_world \<Rightarrow> ('e, 't, 'v, 'f, 'z) task_world" where
  "defer_cancel key i w = defer_wake key (RuntimeEv (Cancel i)) w"

definition join_abort ::
  "join_handle \<Rightarrow> 'a join_store \<Rightarrow> ('e, 't, 'v, 'f, 'z) task_world \<Rightarrow> 'a join_store \<times> ('e, 't, 'v, 'f, 'z) task_world"
where
  "join_abort h st w =
     (let (ws, s) = set_cancelled (st (jh_state h))
      in (st(jh_state h := s), defer_cancel (jh_runtime_key h) (jh_task_id h) (fold des_wake ws w)))"

definition join_abort_handle :: "join_handle \<Rightarrow> abort_handle" where
  "join_abort_handle h =
     \<lparr>ah_task_id = jh_task_id h, ah_runtime_key = jh_runtime_key h, ah_state = jh_state h\<rparr>"

text \<open>An abort handle shares the flag \<open>cancelled\<close> of the join state, but not its waker.\<close>

definition abort_handle_abort ::
  "abort_handle \<Rightarrow> 'a join_store \<Rightarrow> ('e, 't, 'v, 'f, 'z) task_world \<Rightarrow> 'a join_store \<times> ('e, 't, 'v, 'f, 'z) task_world"
where
  "abort_handle_abort h st w =
     (st(ah_state h := (st (ah_state h))\<lparr>js_cancelled := True\<rparr>), defer_cancel (ah_runtime_key h) (ah_task_id h) w)"

section \<open>Spawning\<close>

definition ensure_polled :: "uuid \<Rightarrow> ('e, 't, 'v, 'f, 'z) task_world \<Rightarrow> ('e, 't, 'v, 'f, 'z) task_world" where
  "ensure_polled key w =
     (if in_scheduler_context w then defer_wake key (RuntimeEv Poll) w else schedule_now key (RuntimeEv Poll) w)"

text \<open>
  \<open>spawn_inner\<close> and \<open>spawn_local_inner\<close> with a new join state at address \<open>a\<close>; \<open>wrap\<close> is the
  block \<open>async move { state.complete(future.await) }\<close>.
\<close>

definition spawn_inner ::
  "(nat \<Rightarrow> 'g \<Rightarrow> 'f) \<Rightarrow> uuid \<Rightarrow> 'g \<Rightarrow> nat \<Rightarrow> 'a join_store \<Rightarrow> ('e, 't, 'v, 'f, 'z) task_world
    \<Rightarrow> join_handle \<times> 'a join_store \<times> ('e, 't, 'v, 'f, 'z) task_world"
where
  "spawn_inner wrap key f a st w =
     (let st = st(a := join_state_new);
          (i, w) = handle_spawn key (wrap a f) w;
          w = ensure_polled key w
      in (\<lparr>jh_task_id = i, jh_runtime_key = key, jh_state = a\<rparr>, st, w))"

definition spawn_local_inner ::
  "(nat \<Rightarrow> 'g \<Rightarrow> 'f) \<Rightarrow> uuid \<Rightarrow> 'g \<Rightarrow> nat \<Rightarrow> 'a join_store \<Rightarrow> ('e, 't, 'v, 'f, 'z) task_world
    \<Rightarrow> join_handle \<times> 'a join_store \<times> ('e, 't, 'v, 'f, 'z) task_world"
where
  "spawn_local_inner wrap key f a st w =
     (let st = st(a := join_state_new);
          (i, w) = handle_spawn_local key (wrap a f) w;
          w = ensure_polled key w
      in (\<lparr>jh_task_id = i, jh_runtime_key = key, jh_state = a\<rparr>, st, w))"

text \<open>One poll of the wrapped block, from the result of polling the future in it.\<close>

definition joined_poll ::
  "'a poll \<Rightarrow> nat \<Rightarrow> 'a join_store \<Rightarrow> ('e, 't, 'v, 'f, 'z) task_world
    \<Rightarrow> unit poll \<times> 'a join_store \<times> ('e, 't, 'v, 'f, 'z) task_world"
where
  "joined_poll r a st w =
     (case r of
        Pending \<Rightarrow> (Pending, st, w)
      | Ready v \<Rightarrow> (let (ws, s) = join_complete v (st a) in (Ready (), st(a := s), fold des_wake ws w)))"

text \<open>\<open>yield_now\<close>: the flag is \<open>yielded\<close>.\<close>

definition yield_now_poll :: "des_waker \<Rightarrow> bool \<Rightarrow> unit poll \<times> bool \<times> des_waker list" where
  "yield_now_poll w yielded = (if yielded then (Ready (), True, []) else (Pending, True, [w]))"

section \<open>Sets of tasks\<close>

type_synonym join_set = "join_handle list"

definition join_set_spawn ::
  "(nat \<Rightarrow> 'g \<Rightarrow> 'f) \<Rightarrow> uuid \<Rightarrow> 'g \<Rightarrow> nat \<Rightarrow> join_set \<Rightarrow> 'a join_store \<Rightarrow> ('e, 't, 'v, 'f, 'z) task_world
    \<Rightarrow> abort_handle \<times> join_set \<times> 'a join_store \<times> ('e, 't, 'v, 'f, 'z) task_world"
where
  "join_set_spawn wrap key f a hs st w =
     (let (jh, st, w) = spawn_inner wrap key f a st w in (join_abort_handle jh, hs @ [jh], st, w))"

definition join_set_spawn_local ::
  "(nat \<Rightarrow> 'g \<Rightarrow> 'f) \<Rightarrow> uuid \<Rightarrow> 'g \<Rightarrow> nat \<Rightarrow> join_set \<Rightarrow> 'a join_store \<Rightarrow> ('e, 't, 'v, 'f, 'z) task_world
    \<Rightarrow> abort_handle \<times> join_set \<times> 'a join_store \<times> ('e, 't, 'v, 'f, 'z) task_world"
where
  "join_set_spawn_local wrap key f a hs st w =
     (let (jh, st, w) = spawn_local_inner wrap key f a st w in (join_abort_handle jh, hs @ [jh], st, w))"

text \<open>The loop of \<open>poll_join_next\<close>, with the number of rounds left.\<close>

fun join_next_loop ::
  "des_waker \<Rightarrow> nat \<Rightarrow> join_set \<Rightarrow> 'a join_store
    \<Rightarrow> ((join_error + 'a) option poll \<times> join_set \<times> 'a join_store) option"
where
  "join_next_loop w 0 hs st = Some (Pending, hs, st)"
| "join_next_loop w (Suc n) [] st = None"
| "join_next_loop w (Suc n) (h # hs) st =
     (case join_poll w (st (jh_state h)) of
        None \<Rightarrow> None
      | Some (Ready r, s) \<Rightarrow> Some (Ready (Some r), hs, st(jh_state h := s))
      | Some (Pending, s) \<Rightarrow> join_next_loop w n (hs @ [h]) (st(jh_state h := s)))"

definition poll_join_next ::
  "des_waker \<Rightarrow> join_set \<Rightarrow> 'a join_store \<Rightarrow> ((join_error + 'a) option poll \<times> join_set \<times> 'a join_store) option"
where
  "poll_join_next w hs st =
     (if hs = [] then Some (Ready None, hs, st) else join_next_loop w (length hs) hs st)"

definition abort_all ::
  "join_set \<Rightarrow> 'a join_store \<Rightarrow> ('e, 't, 'v, 'f, 'z) task_world \<Rightarrow> 'a join_store \<times> ('e, 't, 'v, 'f, 'z) task_world"
where
  "abort_all hs st w = fold (\<lambda>h (st, w). join_abort h st w) hs (st, w)"

definition detach_all :: "join_set \<Rightarrow> join_set" where
  "detach_all hs = []"

definition join_set_drop ::
  "join_set \<Rightarrow> 'a join_store \<Rightarrow> ('e, 't, 'v, 'f, 'z) task_world \<Rightarrow> 'a join_store \<times> ('e, 't, 'v, 'f, 'z) task_world"
where
  "join_set_drop hs st w = abort_all hs st w"

section \<open>Joining\<close>

text \<open>A poll of the handle is ready.\<close>

definition join_ready :: "'a join_state \<Rightarrow> bool" where
  "join_ready s \<longleftrightarrow> js_cancelled s \<or> js_completed s"

text \<open>The result has not been taken while it can still be asked for.\<close>

definition join_ok :: "'a join_state \<Rightarrow> bool" where
  "join_ok s \<longleftrightarrow> js_cancelled s \<or> (js_completed s \<longrightarrow> js_result s \<noteq> None)"

definition join_outcome :: "'a join_state \<Rightarrow> join_error + 'a" where
  "join_outcome s = (if js_cancelled s then Inl JoinCancelled else Inr (the (js_result s)))"

lemma join_poll_ready:
  "join_ok s \<Longrightarrow> join_ready s \<Longrightarrow>
   join_poll w s = Some (Ready (join_outcome s), if js_cancelled s then s else s\<lparr>js_result := None\<rparr>)"
  by (auto simp: join_poll_def join_ok_def join_ready_def join_outcome_def)

lemma join_poll_pending: "\<not> join_ready s \<Longrightarrow> join_poll w s = Some (Pending, s\<lparr>js_waker := Some w\<rparr>)"
  by (simp add: join_poll_def join_ready_def)

definition put_waker :: "des_waker \<Rightarrow> join_set \<Rightarrow> 'a join_store \<Rightarrow> 'a join_store" where
  "put_waker w hs st = (\<lambda>a. if a \<in> jh_state ` set hs then (st a)\<lparr>js_waker := Some w\<rparr> else st a)"

lemma join_next_prefix:
  assumes "distinct (map jh_state (pre @ post))" "\<forall>h\<in>set pre. \<not> join_ready (st (jh_state h))"
  shows "join_next_loop w (length pre + n) (pre @ post) st = join_next_loop w n (post @ pre) (put_waker w pre st)"
  using assms
proof (induction pre arbitrary: post st)
  case (Cons h pre)
  let ?st = "st(jh_state h := (st (jh_state h))\<lparr>js_waker := Some w\<rparr>)"
  have "join_next_loop w (length (h # pre) + n) ((h # pre) @ post) st =
    join_next_loop w (length pre + n) (pre @ (post @ [h])) ?st"
    using Cons.prems(2) by (simp add: join_poll_pending)
  also have "\<dots> = join_next_loop w n ((post @ [h]) @ pre) (put_waker w pre ?st)"
    using Cons.prems by (intro Cons.IH) (auto simp: image_iff)
  also have "put_waker w pre ?st = put_waker w (h # pre) st"
    using Cons.prems(1) by (auto simp: put_waker_def fun_eq_iff)
  finally show ?case by simp
qed (simp add: put_waker_def)

text \<open>
  C32. \<open>join_next\<close> takes the first task in the set that is finished or cancelled, returns its
  outcome and removes it alone; without one it waits, with its waker left at every task, and
  keeps the set as it is. It never panics on a set of distinct handles none of which has been
  asked for its result.
\<close>

theorem join_next_correct:
  assumes "distinct (map jh_state hs)" and "\<forall>h\<in>set hs. join_ok (st (jh_state h))"
  shows "case List.extract (\<lambda>h. join_ready (st (jh_state h))) hs of
      None \<Rightarrow> poll_join_next w hs st = Some (if hs = [] then Ready None else Pending, hs, put_waker w hs st)
    | Some (pre, h, post) \<Rightarrow>
        \<exists>st'. poll_join_next w hs st = Some (Ready (Some (join_outcome (st (jh_state h)))), post @ pre, st')
          \<and> (\<forall>x\<in>set pre. st' (jh_state x) = (st (jh_state x))\<lparr>js_waker := Some w\<rparr>)
          \<and> (\<forall>x\<in>set post. st' (jh_state x) = st (jh_state x))"
proof (cases "List.extract (\<lambda>h. join_ready (st (jh_state h))) hs")
  case None
  then have "\<forall>h\<in>set hs. \<not> join_ready (st (jh_state h))" by (simp add: extract_None_iff)
  then have "join_next_loop w (length hs) hs st = Some (Pending, hs, put_waker w hs st)"
    using join_next_prefix [of hs "[]" st w 0] assms(1) by simp
  with None show ?thesis by (auto simp: poll_join_next_def put_waker_def)
next
  case (Some x)
  then obtain pre h post where x: "x = (pre, h, post)" "hs = pre @ h # post" "join_ready (st (jh_state h))"
    "\<forall>h\<in>set pre. \<not> join_ready (st (jh_state h))"
    by (cases x) (auto simp: extract_Some_iff)
  have same: "put_waker w pre st (jh_state h) = st (jh_state h)"
    using assms(1) x(2) by (auto simp: put_waker_def)
  have "poll_join_next w hs st = join_next_loop w (Suc (length post)) ((h # post) @ pre) (put_waker w pre st)"
    using join_next_prefix [of pre "h # post" st w "Suc (length post)"] x(2,4) assms(1)
    by (simp add: poll_join_next_def)
  also have "\<dots> = Some (Ready (Some (join_outcome (st (jh_state h)))), post @ pre,
      (put_waker w pre st)(jh_state h := if js_cancelled (st (jh_state h)) then st (jh_state h)
        else (st (jh_state h))\<lparr>js_result := None\<rparr>))"
    using join_poll_ready [of "st (jh_state h)" w] assms(2) x(2,3) by (simp add: same)
  finally show ?thesis
    using assms(1) x(2) Some x(1) by (auto simp: put_waker_def image_iff)
qed

section \<open>Waiting for a task\<close>

text \<open>What happens to a join state other than polling it or using an abort handle.\<close>

inductive join_step :: "'a join_state \<Rightarrow> des_waker list \<Rightarrow> 'a join_state \<Rightarrow> bool" where
  js_complete: "join_complete v s = (ws, s') \<Longrightarrow> join_step s ws s'"
| js_abort: "set_cancelled s = (ws, s') \<Longrightarrow> join_step s ws s'"

interpretation join: waker_slot join_step js_waker join_ready
  by unfold_locales
    (auto elim!: join_step.cases simp: join_complete_def set_cancelled_def take_join_waker_def split: option.splits)

text \<open>
  A task that waits for a join handle has been woken by the time the handle is ready, when the
  joined task completes or is aborted through join handles.
\<close>

theorem join_handle_woken:
  assumes "join_poll w s = Some (Pending, s1)" and "trace join_step s1 ws s2" and "join_ready s2"
  shows "w \<in> set ws"
  using join.no_lost_wakeup [OF assms(2), of w] assms(1,3)
  by (auto simp: join_poll_def join_ready_def split: if_splits)

text \<open>
  An abort through an abort handle wakes nobody: the task that waits for the join handle keeps
  its waker in the state and its poll would be ready, but the only event the abort causes is
  the one that removes the aborted task from the runtime.
\<close>

theorem abort_handle_lost_wakeup:
  assumes "join_poll wk (st (jh_state h)) = Some (Pending, s1)"
    and "abort_handle_abort (join_abort_handle h) (st(jh_state h := s1)) w = (st', w')"
  shows "js_waker (st' (jh_state h)) = Some wk \<and> join_ready (st' (jh_state h)) \<and>
    deferred_wakes w' = deferred_wakes w @ [(zero, jh_runtime_key h, RuntimeEv (Cancel (jh_task_id h)))]"
  using assms
  by (auto simp: join_poll_def abort_handle_abort_def join_abort_handle_def defer_cancel_def defer_wake_def
      defer_wake_after_def join_ready_def split: if_splits)

section \<open>Instances\<close>

definition two_handles :: join_set where
  "two_handles = [\<lparr>jh_task_id = 5, jh_runtime_key = 9, jh_state = 3\<rparr>, \<lparr>jh_task_id = 6, jh_runtime_key = 9, jh_state = 4\<rparr>]"

definition second_done :: "nat join_store" where
  "second_done = (\<lambda>_. join_state_new)(4 := snd (join_complete 70 join_state_new))"

theorem join_next_correct_witness:
  "\<exists>st'. poll_join_next (9, Poll) two_handles second_done =
     Some (Ready (Some (Inr 70)), [\<lparr>jh_task_id = 5, jh_runtime_key = 9, jh_state = 3\<rparr>], st')"
proof -
  have "distinct (map jh_state two_handles)" "\<forall>h\<in>set two_handles. join_ok (second_done (jh_state h))"
    by (simp_all add: two_handles_def second_done_def join_ok_def join_complete_def take_join_waker_def join_state_new_def)
  from join_next_correct [OF this, of "(9, Poll)"] show ?thesis
    by (auto simp: two_handles_def second_done_def join_ready_def join_complete_def take_join_waker_def
        join_state_new_def join_outcome_def extract_Cons_code)
qed

theorem join_handle_woken_witness:
  "(9, Wake 5) \<in> set (fst (join_complete (7 :: nat) (join_state_new\<lparr>js_waker := Some (9, Wake 5)\<rparr>)))"
proof -
  let ?s = "join_state_new\<lparr>js_waker := Some (9, Wake 5)\<rparr> :: nat join_state"
  have p: "join_poll (9, Wake 5) join_state_new = Some (Pending, ?s)"
    by (simp add: join_poll_def join_state_new_def)
  obtain ws s' where c: "join_complete 7 ?s = (ws, s')" by fastforce
  then have "join_ready s'" by (auto simp: join_complete_def take_join_waker_def join_ready_def)
  from join_handle_woken [OF p trace_one [of join_step, OF js_complete [OF c]] this] c show ?thesis by simp
qed

end
