(* ===== verification/Tower_Retry.thy ===== *)
theory Tower_Retry
  imports Tower
begin

text \<open>
  \<open>des-tower/src/tower/retry\<close>: a layer that calls the service again after an error, and the
  policy \<open>DesRetryPolicy\<close>. The policy is a parameter of the future; the loop of its \<open>poll\<close>
  need not end for every policy and is a partial function, which is shown to return for
  \<open>DesRetryPolicy\<close>. The extensions of a request are represented by the one the crate uses. The
  static counter of retry identifiers is a component of the world.
\<close>

section \<open>Requests\<close>

record retry_metadata =
  rm_original_request_id :: request_id
  rm_attempt_number :: nat
  rm_total_attempts :: nat

definition retry_metadata_new :: "request_id \<Rightarrow> retry_metadata" where
  "retry_metadata_new i = \<lparr>rm_original_request_id = i, rm_attempt_number = 1, rm_total_attempts = 1\<rparr>"

definition next_attempt :: "retry_metadata \<Rightarrow> retry_metadata" where
  "next_attempt md =
     \<lparr>rm_original_request_id = rm_original_request_id md, rm_attempt_number = rm_attempt_number md + 1,
      rm_total_attempts = rm_total_attempts md + 1\<rparr>"

record tower_request = http_request +
  ex_retry :: "retry_metadata option"

definition add_retry_metadata :: "retry_metadata \<Rightarrow> tower_request \<Rightarrow> tower_request" where
  "add_retry_metadata md req = req\<lparr>ex_retry := Some md\<rparr>"

definition create_retry_request :: "tower_request \<Rightarrow> retry_metadata \<Rightarrow> tower_request" where
  "create_retry_request req md =
     add_retry_metadata md
       \<lparr>hr_method = hr_method req, hr_uri = hr_uri req, hr_headers = hr_headers req, hr_body = hr_body req,
        ex_retry = None\<rparr>"

definition initial_retry_id :: u64 where
  "initial_retry_id = 1000000"

definition next_retry_attempt_id :: "u64 \<Rightarrow> u64 \<times> u64" where
  "next_retry_attempt_id n = (n, n + 1)"

section \<open>Policy\<close>

record des_retry_policy =
  rp_max_retries :: nat
  rp_current_attempts :: nat

definition des_retry_policy_new :: "nat \<Rightarrow> des_retry_policy" where
  "des_retry_policy_new n = \<lparr>rp_max_retries = n, rp_current_attempts = 0\<rparr>"

fun retryable :: "service_error \<Rightarrow> bool" where
  "retryable (Timeout _) = True"
| "retryable Overloaded = True"
| "retryable (Internal _) = True"
| "retryable NotReady = True"
| "retryable Cancelled = False"
| "retryable (Http _) = False"
| "retryable CircuitBreakerInvalidState = True"
| "retryable RateLimiterInvalidState = True"
| "retryable (HttpResponseBuilder _) = False"

definition des_policy_retry :: "tower_request \<Rightarrow> service_error \<Rightarrow> des_retry_policy \<Rightarrow> bool \<times> tower_request \<times> des_retry_policy" where
  "des_policy_retry req e p =
     (if rp_max_retries p \<le> rp_current_attempts p then (False, req, p)
      else if retryable e then (True, req, p\<lparr>rp_current_attempts := rp_current_attempts p + 1\<rparr>)
      else (False, req, p))"

section \<open>Future\<close>

datatype 'f retry_state = Calling 'f | Checking service_error | Sleeping sim_sleep | RetryDone

record ('p, 's, 'f) retry_future =
  rt_policy :: 'p
  rt_service :: 's
  rt_original_request :: tower_request
  rt_current_request :: tower_request
  rt_state :: "'f retry_state"
  rt_metadata :: "retry_metadata option"

definition retry_future_new :: "'p \<Rightarrow> 's \<Rightarrow> tower_request \<Rightarrow> 'f \<Rightarrow> ('p, 's, 'f) retry_future" where
  "retry_future_new pol svc req f =
     \<lparr>rt_policy = pol, rt_service = svc, rt_original_request = req, rt_current_request = req,
      rt_state = Calling f, rt_metadata = ex_retry req\<rparr>"

definition future_retry_request :: "('p, 's, 'f) retry_future \<Rightarrow> u64 \<Rightarrow> tower_request \<times> ('p, 's, 'f) retry_future \<times> u64" where
  "future_retry_request f n =
     (let (md, n) =
            (case rt_metadata f of
               Some existing \<Rightarrow> (next_attempt existing, n)
             | None \<Rightarrow> (let (i, n) = next_retry_attempt_id n in (next_attempt (retry_metadata_new i), n)))
      in (create_retry_request (rt_original_request f) md, f\<lparr>rt_metadata := Some md\<rparr>, n))"

text \<open>
  One round of the loop in \<open>poll\<close>: a result to return, or \<open>None\<close> to continue. Leaving a state drops
  the future in it.
\<close>

definition retry_step ::
  "(tower_request \<Rightarrow> service_error \<Rightarrow> 'p \<Rightarrow> bool \<times> tower_request \<times> 'p) \<Rightarrow> ('k, 'x) sim_env
    \<Rightarrow> ('k, 's, 'x, tower_request, 'f, 'r) service_code \<Rightarrow> 'k \<Rightarrow> ('p, 's, 'f) retry_future \<Rightarrow> u64 \<times> 'x
    \<Rightarrow> (service_error + 'r) poll option \<times> ('p, 's, 'f) retry_future \<times> u64 \<times> 'x"
where
  "retry_step retry E C k f = (\<lambda>(n, x).
     case rt_state f of
       Calling g \<Rightarrow>
         (let (p, g, x) = poll_future C k g x
          in case p of
               Ready (Inr r) \<Rightarrow> (Some (Ready (Inr r)), f\<lparr>rt_state := RetryDone\<rparr>, n, drop_future C g x)
             | Ready (Inl e) \<Rightarrow> (None, f\<lparr>rt_state := Checking e\<rparr>, n, drop_future C g x)
             | Pending \<Rightarrow> (Some Pending, f\<lparr>rt_state := Calling g\<rparr>, n, x))
     | Checking e \<Rightarrow>
         (let (again, req, pol) = retry (rt_current_request f) e (rt_policy f);
              f = f\<lparr>rt_policy := pol, rt_current_request := req\<rparr>
          in if again then (None, f\<lparr>rt_state := Sleeping (sim_sleep_new (duration_from_millis 100))\<rparr>, n, x)
             else (Some (Ready (Inl e)), f\<lparr>rt_state := RetryDone\<rparr>, n, x))
     | Sleeping sl \<Rightarrow>
         (let (p, sl, x) = env_sleep E sl x
          in case p of
               Ready _ \<Rightarrow>
                 (let (req, f, n) = future_retry_request f n;
                      (g, svc, x) = call_service C req (rt_service f) x
                  in (None, f\<lparr>rt_service := svc, rt_current_request := req, rt_state := Calling g\<rparr>, n, env_sleep_drop E sl x))
             | Pending \<Rightarrow> (Some Pending, f\<lparr>rt_state := Sleeping sl\<rparr>, n, x))
     | RetryDone \<Rightarrow> (Some Pending, f, n, x))"

partial_function (option) retry_poll ::
  "(tower_request \<Rightarrow> service_error \<Rightarrow> 'p \<Rightarrow> bool \<times> tower_request \<times> 'p) \<Rightarrow> ('k, 'x) sim_env
    \<Rightarrow> ('k, 's, 'x, tower_request, 'f, 'r) service_code \<Rightarrow> 'k \<Rightarrow> ('p, 's, 'f) retry_future \<Rightarrow> u64 \<times> 'x
    \<Rightarrow> ((service_error + 'r) poll \<times> ('p, 's, 'f) retry_future \<times> u64 \<times> 'x) option"
where
  "retry_poll retry E C k f y =
     (let (p, f, y) = retry_step retry E C k f y
      in case p of Some r \<Rightarrow> Some (r, f, y) | None \<Rightarrow> retry_poll retry E C k f y)"

section \<open>Service\<close>

record ('p, 's) des_retry =
  dr_policy :: 'p
  dr_inner :: 's

definition retry_ready ::
  "('k, 's, 'x, 'q, 'f, 'r) service_code \<Rightarrow> 'k \<Rightarrow> ('p, 's) des_retry \<Rightarrow> u64 \<times> 'x
    \<Rightarrow> (service_error + unit) poll \<times> ('p, 's) des_retry \<times> u64 \<times> 'x"
where
  "retry_ready C k s = (\<lambda>(n, x). let (p, i, x) = poll_ready C k (dr_inner s) x in (p, s\<lparr>dr_inner := i\<rparr>, n, x))"

definition retry_call ::
  "('k, 's, 'x, tower_request, 'f, 'r) service_code \<Rightarrow> tower_request \<Rightarrow> ('p, 's) des_retry \<Rightarrow> u64 \<times> 'x
    \<Rightarrow> ('p, 's, 'f) retry_future \<times> ('p, 's) des_retry \<times> u64 \<times> 'x"
where
  "retry_call C req s = (\<lambda>(n, x).
     let (f, i, x) = call_service C req (dr_inner s) x
     in (retry_future_new (dr_policy s) (clone_service C i) req f, s\<lparr>dr_inner := i\<rparr>, n, x))"

definition exponential_backoff_layer :: "nat \<Rightarrow> 's \<Rightarrow> (des_retry_policy, 's) des_retry" where
  "exponential_backoff_layer n svc = \<lparr>dr_policy = des_retry_policy_new n, dr_inner = svc\<rparr>"

section \<open>Termination\<close>

text \<open>Retries left, and the rounds until the next call.\<close>

definition retry_rank :: "(des_retry_policy, 's, 'f) retry_future \<Rightarrow> nat" where
  "retry_rank f =
     3 * (rp_max_retries (rt_policy f) - rp_current_attempts (rt_policy f)) +
     (case rt_state f of Calling _ \<Rightarrow> 1 | Checking _ \<Rightarrow> 0 | Sleeping _ \<Rightarrow> 2 | RetryDone \<Rightarrow> 0)"

lemma future_retry_request_fields:
  "future_retry_request f n = (req, f', n') \<Longrightarrow>
     rt_policy f' = rt_policy f \<and> rt_service f' = rt_service f \<and> rt_state f' = rt_state f \<and>
     ex_retry req = rt_metadata f' \<and>
     (\<exists>md. rt_metadata f' = Some md \<and>
        rm_attempt_number md = (case rt_metadata f of Some old \<Rightarrow> rm_attempt_number old | None \<Rightarrow> 1) + 1)"
  by (auto simp: future_retry_request_def create_retry_request_def add_retry_metadata_def next_attempt_def
      retry_metadata_new_def next_retry_attempt_id_def Let_def split: option.splits)

lemma retry_step_rank:
  assumes "retry_step des_policy_retry E C k f y = (None, f', y')"
  shows "retry_rank f' < retry_rank f"
proof (cases "rt_state f")
  case (Calling g)
  with assms show ?thesis
    by (cases y) (auto simp: retry_step_def retry_rank_def Let_def split: prod.splits poll.splits sum.splits)
next
  case (Checking e)
  with assms show ?thesis
    by (cases y) (auto simp: retry_step_def retry_rank_def des_policy_retry_def Let_def split: if_splits)
next
  case (Sleeping sl)
  with assms show ?thesis
    by (cases y) (auto simp: retry_step_def retry_rank_def Let_def split: prod.splits poll.splits
        dest: future_retry_request_fields)
next
  case RetryDone
  with assms show ?thesis by (cases y) (simp add: retry_step_def)
qed

lemma retry_poll_rounds:
  assumes "J f" "\<And>f y f' y'. J f \<Longrightarrow> retry_step des_policy_retry E C k f y = (None, f', y') \<Longrightarrow> J f'"
  shows "\<exists>p f1 y1 f' y'. retry_poll des_policy_retry E C k f y = Some (p, f', y') \<and> J f1 \<and>
    retry_step des_policy_retry E C k f1 y1 = (Some p, f', y')"
  using assms(1)
proof (induction f arbitrary: y rule: measure_induct_rule [of retry_rank])
  case (less f)
  obtain q f2 y2 where st: "retry_step des_policy_retry E C k f y = (q, f2, y2)" using prod_cases3 by blast
  show ?case
  proof (cases q)
    case None
    with st retry_step_rank [of E C k f y f2 y2] less.IH [of f2 y2] assms(2) less.prems show ?thesis
      by (subst retry_poll.simps) auto
  next
    case (Some p)
    with st have "retry_poll des_policy_retry E C k f y = Some (p, f2, y2)" by (subst retry_poll.simps) simp
    with Some st less.prems show ?thesis by blast
  qed
qed

section \<open>Attempts\<close>

definition attempts_made :: "('p, 's, 'f) retry_future \<Rightarrow> nat" where
  "attempts_made f = (case rt_metadata f of Some md \<Rightarrow> rm_attempt_number md | None \<Rightarrow> 1)"

definition is_sleeping :: "'f retry_state \<Rightarrow> bool" where
  "is_sleeping st = (case st of Sleeping _ \<Rightarrow> True | _ \<Rightarrow> False)"

text \<open>The attempts are those before the retries, and one for each retry the policy has granted and that has been made.\<close>

definition retry_ok :: "nat \<Rightarrow> nat \<Rightarrow> (des_retry_policy, 's, 'f) retry_future \<Rightarrow> bool" where
  "retry_ok mx a f \<longleftrightarrow>
     rp_max_retries (rt_policy f) = mx \<and> rp_current_attempts (rt_policy f) \<le> mx \<and>
     attempts_made f + (if is_sleeping (rt_state f) then 1 else 0) = a + rp_current_attempts (rt_policy f)"

lemma retry_step_ok:
  assumes "retry_step des_policy_retry E C k f y = (q, f', y')" "retry_ok mx a f"
  shows "retry_ok mx a f'"
proof (cases "rt_state f")
  case (Calling g)
  with assms show ?thesis
    by (cases y) (auto simp: retry_step_def retry_ok_def attempts_made_def is_sleeping_def Let_def
        split: prod.splits poll.splits sum.splits)
next
  case (Checking e)
  with assms show ?thesis
    by (cases y) (auto simp: retry_step_def retry_ok_def attempts_made_def is_sleeping_def des_policy_retry_def Let_def
        split: if_splits)
next
  case (Sleeping sl)
  with assms show ?thesis
    by (cases y) (auto simp: retry_step_def retry_ok_def attempts_made_def is_sleeping_def Let_def
        split: prod.splits poll.splits option.splits dest!: future_retry_request_fields)
next
  case RetryDone
  with assms show ?thesis by (cases y) (auto simp: retry_step_def)
qed

lemma retry_step_result:
  assumes "retry_step des_policy_retry E C k f y = (Some p, f', y')" "retry_ok mx a f"
  shows "(p = Pending \<or> rt_state f' = RetryDone) \<and>
    (\<forall>e. p = Ready (Inl e) \<longrightarrow> retryable e \<longrightarrow> attempts_made f' = a + mx)"
proof (cases "rt_state f")
  case (Checking e)
  with assms show ?thesis
    by (cases y) (auto simp: retry_step_def retry_ok_def attempts_made_def is_sleeping_def des_policy_retry_def Let_def
        split: if_splits)
qed (use assms in \<open>cases y; auto simp: retry_step_def Let_def split: prod.splits poll.splits sum.splits\<close>)+

text \<open>
  The life of a future: it is created by a call, and polled at any times, between which the world
  changes in any way.
\<close>

inductive retry_life ::
  "('k, 'x) sim_env \<Rightarrow> ('k, 's, 'x, tower_request, 'f, 'r) service_code \<Rightarrow> nat \<Rightarrow> tower_request
    \<Rightarrow> (des_retry_policy, 's, 'f) retry_future \<Rightarrow> bool"
  for E :: "('k, 'x) sim_env" and C :: "('k, 's, 'x, tower_request, 'f, 'r) service_code" and mx req
where
  life_call: "retry_call C req (exponential_backoff_layer mx svc) y = (f, s', y') \<Longrightarrow> retry_life E C mx req f"
| life_poll: "retry_life E C mx req f \<Longrightarrow> retry_poll des_policy_retry E C k f y = Some (p, f', y') \<Longrightarrow>
    retry_life E C mx req f'"

definition first_attempt :: "tower_request \<Rightarrow> nat" where
  "first_attempt req = (case ex_retry req of Some md \<Rightarrow> rm_attempt_number md | None \<Rightarrow> 1)"

lemma retry_life_ok: "retry_life E C mx req f \<Longrightarrow> retry_ok mx (first_attempt req) f"
proof (induction rule: retry_life.induct)
  case (life_call svc y f s' y')
  then show ?case
    by (cases y) (auto simp: retry_call_def exponential_backoff_layer_def des_retry_policy_new_def retry_future_new_def
        retry_ok_def attempts_made_def first_attempt_def is_sleeping_def split: prod.splits)
next
  case (life_poll f k y p f' y')
  from retry_poll_rounds [of "retry_ok mx (first_attempt req)", OF life_poll.IH] life_poll.hyps(2) show ?case
    by (metis Pair_inject option.inject retry_step_ok)
qed

section \<open>Properties\<close>

text \<open>
  C20. A poll of a retried request always returns, whatever the service inside does. The request is
  attempted at most once and once more for each retry allowed; an error the policy would retry is
  reported only after all of these attempts, and a result is final.
\<close>

theorem retry_attempts_bounded:
  assumes "retry_life E C mx req f"
  shows "\<exists>p f' y'. retry_poll des_policy_retry E C k f y = Some (p, f', y') \<and>
    attempts_made f' \<le> first_attempt req + mx \<and> (p = Pending \<or> rt_state f' = RetryDone) \<and>
    (\<forall>e. p = Ready (Inl e) \<longrightarrow> retryable e \<longrightarrow> attempts_made f' = first_attempt req + mx)"
proof -
  obtain p f1 y1 f' y' where poll: "retry_poll des_policy_retry E C k f y = Some (p, f', y')"
    and ok: "retry_ok mx (first_attempt req) f1"
    and st: "retry_step des_policy_retry E C k f1 y1 = (Some p, f', y')"
    using retry_poll_rounds [of "retry_ok mx (first_attempt req)", OF retry_life_ok [OF assms]] retry_step_ok by metis
  from retry_step_ok [OF st ok] have "attempts_made f' \<le> first_attempt req + mx"
    by (auto simp: retry_ok_def split: if_splits)
  with poll retry_step_result [OF st ok] show ?thesis by blast
qed

definition plain_request :: tower_request where
  "plain_request = \<lparr>hr_method = [], hr_uri = [], hr_headers = [], hr_body = [], ex_retry = None\<rparr>"

text \<open>A service that refuses every request, and a simulation in which sleeps end at once.\<close>

definition instant_env :: "(nat, unit) sim_env" where
  "instant_env =
     \<lparr>env_time = (\<lambda>x. None), env_wake = (\<lambda>k x. x), env_sleep = (\<lambda>sl x. (Ready (), sl, x)), env_sleep_drop = (\<lambda>sl x. x)\<rparr>"

definition refusing_service :: "(nat, unit, unit, tower_request, unit, unit) service_code" where
  "refusing_service =
     \<lparr>poll_ready = (\<lambda>k s x. (Ready (Inr ()), s, x)), call_service = (\<lambda>q s x. ((), s, x)),
      poll_future = (\<lambda>k f x. (Ready (Inl Overloaded), f, x)), drop_future = (\<lambda>f x. x), clone_service = id\<rparr>"

lemma refused_life:
  "retry_life instant_env refusing_service 2 plain_request
     (retry_future_new (des_retry_policy_new 2) () plain_request ())"
  by (rule life_call [where svc = "()" and y = "(initial_retry_id, ())"])
    (simp add: retry_call_def refusing_service_def exponential_backoff_layer_def)

theorem retry_attempts_bounded_witness:
  "\<exists>f' y'. retry_poll des_policy_retry instant_env refusing_service 5
      (retry_future_new (des_retry_policy_new 2) () plain_request ()) (initial_retry_id, ()) =
    Some (Ready (Inl Overloaded), f', y') \<and> attempts_made f' = 3"
proof -
  have "map_option fst (retry_poll des_policy_retry instant_env refusing_service 5
      (retry_future_new (des_retry_policy_new 2) () plain_request ()) (initial_retry_id, ())) = Some (Ready (Inl Overloaded))"
    by (simp add: retry_poll.simps retry_step_def refusing_service_def instant_env_def retry_future_new_def
        des_policy_retry_def des_retry_policy_new_def future_retry_request_def plain_request_def next_retry_attempt_id_def)
  with retry_attempts_bounded [OF refused_life, of 5 "(initial_retry_id, ())"] show ?thesis
    by (auto simp: first_attempt_def plain_request_def)
qed

end
