(* ===== verification/Tower_Limit.thy ===== *)
theory Tower_Limit
  imports Tower Retry_Policy
begin

text \<open>
  \<open>des-tower/src/tower/limit\<close>: the token bucket and the two concurrency limiters. The local
  limiter counts the requests of one service and its clones, the global one those of all
  services that share its state; their code is the same but for where the maximum is kept,
  which \<open>global_is_local\<close> makes precise.
\<close>

section \<open>Rate limit\<close>

record 'v rate_f64 = "'v f64" +
  f_plus :: "'v \<Rightarrow> 'v \<Rightarrow> 'v"
  f_minus :: "'v \<Rightarrow> 'v \<Rightarrow> 'v"
  f_min :: "'v \<Rightarrow> 'v \<Rightarrow> 'v"
  f_ge :: "'v \<Rightarrow> 'v \<Rightarrow> bool"

record ('v, 's) des_rate_limit =
  rl_inner :: 's
  rl_rate :: 'v
  rl_burst :: nat

text \<open>Shared by a service and its clones.\<close>

record 'v rate_bucket =
  rb_tokens :: 'v
  rb_last_refill :: simtime

record 'f rate_future =
  rf_inner :: "'f option"
  rf_immediate_error :: "service_error option"

definition rate_limit_new ::
  "('v, 'z) rate_f64_scheme \<Rightarrow> 's \<Rightarrow> 'v \<Rightarrow> nat \<Rightarrow> ('v, 's) des_rate_limit \<times> 'v rate_bucket"
where
  "rate_limit_new N svc rate burst =
     (\<lparr>rl_inner = svc, rl_rate = rate, rl_burst = burst\<rparr>,
      \<lparr>rb_tokens = f_of_nat N burst, rb_last_refill = zero\<rparr>)"

definition try_acquire_token ::
  "('v, 'z) rate_f64_scheme \<Rightarrow> ('v, 's) des_rate_limit \<Rightarrow> simtime option \<Rightarrow> 'v rate_bucket \<Rightarrow> bool \<times> 'v rate_bucket"
where
  "try_acquire_token N s at m =
     (let present = (case at of Some t \<Rightarrow> t | None \<Rightarrow> zero);
          elapsed = duration_since present (rb_last_refill m);
          tokens_to_add = f_mul N (f_secs N elapsed) (rl_rate s);
          tokens = f_min N (f_plus N (rb_tokens m) tokens_to_add) (f_of_nat N (rl_burst s));
          m = m\<lparr>rb_tokens := tokens, rb_last_refill := present\<rparr>
      in if f_ge N tokens (f_of_nat N 1) then (True, m\<lparr>rb_tokens := f_minus N tokens (f_of_nat N 1)\<rparr>)
         else (False, m))"

definition rate_ready ::
  "('k, 's, 'x, 'q, 'f, 'r) service_code \<Rightarrow> 'k \<Rightarrow> ('v, 's) des_rate_limit \<Rightarrow> 'v rate_bucket \<times> 'x
    \<Rightarrow> (service_error + unit) poll \<times> ('v, 's) des_rate_limit \<times> 'v rate_bucket \<times> 'x"
where
  "rate_ready C k s = (\<lambda>(m, x). let (p, i, x) = poll_ready C k (rl_inner s) x in (p, s\<lparr>rl_inner := i\<rparr>, m, x))"

definition rate_call ::
  "('v, 'z) rate_f64_scheme \<Rightarrow> ('k, 'x) sim_env \<Rightarrow> ('k, 's, 'x, 'q, 'f, 'r) service_code \<Rightarrow> 'q
    \<Rightarrow> ('v, 's) des_rate_limit \<Rightarrow> 'v rate_bucket \<times> 'x \<Rightarrow> 'f rate_future \<times> ('v, 's) des_rate_limit \<times> 'v rate_bucket \<times> 'x"
where
  "rate_call N E C q s = (\<lambda>(m, x).
     let (ok, m) = try_acquire_token N s (env_time E x) m
     in if \<not> ok then (\<lparr>rf_inner = None, rf_immediate_error = Some Overloaded\<rparr>, s, m, x)
        else
          (let (f, i, x) = call_service C q (rl_inner s) x
           in (\<lparr>rf_inner = Some f, rf_immediate_error = None\<rparr>, s\<lparr>rl_inner := i\<rparr>, m, x)))"

definition rate_future_poll ::
  "('k, 's, 'x, 'q, 'f, 'r) service_code \<Rightarrow> 'k \<Rightarrow> 'f rate_future \<Rightarrow> 'v rate_bucket \<times> 'x
    \<Rightarrow> (service_error + 'r) poll \<times> 'f rate_future \<times> 'v rate_bucket \<times> 'x"
where
  "rate_future_poll C k f = (\<lambda>(m, x).
     case rf_immediate_error f of
       Some e \<Rightarrow> (Ready (Inl e), f\<lparr>rf_immediate_error := None\<rparr>, m, x)
     | None \<Rightarrow>
         (case rf_inner f of
            Some i \<Rightarrow> (let (p, i, x) = poll_future C k i x in (p, f\<lparr>rf_inner := Some i\<rparr>, m, x))
          | None \<Rightarrow> (Ready (Inl RateLimiterInvalidState), f, m, x)))"

definition rate_service ::
  "('v, 'z) rate_f64_scheme \<Rightarrow> ('k, 'x) sim_env \<Rightarrow> ('k, 's, 'x, 'q, 'f, 'r) service_code
    \<Rightarrow> ('k, ('v, 's) des_rate_limit, 'v rate_bucket \<times> 'x, 'q, 'f rate_future, 'r) service_code"
where
  "rate_service N E C =
     \<lparr>poll_ready = rate_ready C, call_service = rate_call N E C, poll_future = rate_future_poll C,
      drop_future = (\<lambda>f (m, x). (m, drop_inner C (rf_inner f) x)),
      clone_service = (\<lambda>s. s\<lparr>rl_inner := clone_service C (rl_inner s)\<rparr>)\<rparr>"

definition rate_inv ::
  "('s multiset \<Rightarrow> 'f multiset \<Rightarrow> 'x \<Rightarrow> bool) \<Rightarrow> ('v, 's) des_rate_limit multiset \<Rightarrow> 'f rate_future multiset
    \<Rightarrow> 'v rate_bucket \<times> 'x \<Rightarrow> bool"
where
  "rate_inv I H F = (\<lambda>(m, x). I (image_mset rl_inner H) (somes (image_mset rf_inner F)) x)"

lemmas rate_defs = rate_service_def rate_ready_def rate_call_def rate_future_poll_def rate_inv_def

context service_contract
begin

lemma rate_layer: "service_contract (lift_env E) (rate_inv I) (rate_service N E C)"
  by unfold_locales
    (auto simp: rate_defs lift_env_defs split: prod.splits option.splits if_splits
      intro: contract_intros drop_inner_inv)

end

text \<open>
  At one instant, from a full bucket, exactly the first \<open>burst\<close> requests are admitted. The
  assumptions on the arithmetic hold for \<open>f64\<close> as long as \<open>burst\<close> is below \<open>2 ^ 53\<close> and
  the rate is finite: these sums and differences are exact.
\<close>

fun acquire_times ::
  "('v, 'z) rate_f64_scheme \<Rightarrow> ('v, 's) des_rate_limit \<Rightarrow> simtime option \<Rightarrow> nat \<Rightarrow> 'v rate_bucket \<Rightarrow> bool list"
where
  "acquire_times N s at 0 m = []"
| "acquire_times N s at (Suc n) m =
     (let (ok, m) = try_acquire_token N s at m in ok # acquire_times N s at n m)"

lemma rate_burst:
  assumes "\<And>n. n \<le> rl_burst s \<Longrightarrow>
      f_min N (f_plus N (f_of_nat N n) (f_mul N (f_secs N 0) (rl_rate s))) (f_of_nat N (rl_burst s)) = f_of_nat N n"
    and "\<And>n. n \<le> rl_burst s \<Longrightarrow> f_ge N (f_of_nat N n) (f_of_nat N 1) \<longleftrightarrow> 1 \<le> n"
    and "\<And>n. n < rl_burst s \<Longrightarrow> f_minus N (f_of_nat N (Suc n)) (f_of_nat N 1) = f_of_nat N n"
    and "b \<le> rl_burst s"
  shows "acquire_times N s (Some t) n \<lparr>rb_tokens = f_of_nat N b, rb_last_refill = t\<rparr> =
    replicate (min n b) True @ replicate (n - b) False"
  using assms(4)
proof (induction n arbitrary: b)
  case (Suc n)
  from Suc.prems have "try_acquire_token N s (Some t) \<lparr>rb_tokens = f_of_nat N b, rb_last_refill = t\<rparr> =
      (1 \<le> b, \<lparr>rb_tokens = f_of_nat N (b - 1), rb_last_refill = t\<rparr>)"
    using assms(1) [of b] assms(2) [of b] assms(3) [of "b - 1"]
    by (cases b) (simp_all add: try_acquire_token_def duration_since_def saturating_sub_def Let_def)
  with Suc.IH [of "b - 1"] Suc.prems show ?case by (cases b) simp_all
qed simp

section \<open>Concurrency limit\<close>

record 's concurrency_limit =
  cl_inner :: 's
  cl_max :: u64
  cl_permit :: bool

record 'k limit_state =
  lm_current :: u64
  lm_waiters :: "'k list"

record 'f limit_future =
  lf_inner :: "'f option"
  lf_acquired :: bool
  lf_immediate_error :: "service_error option"

definition concurrency_limit_new :: "'s \<Rightarrow> u64 \<Rightarrow> 's concurrency_limit \<times> 'k limit_state" where
  "concurrency_limit_new svc mx =
     (\<lparr>cl_inner = svc, cl_max = mx, cl_permit = False\<rparr>, \<lparr>lm_current = 0, lm_waiters = []\<rparr>)"

text \<open>\<open>cas\<close> tells whether \<open>compare_exchange_weak\<close> succeeds; it may fail spuriously.\<close>

definition try_acquire_slot :: "bool \<Rightarrow> u64 \<Rightarrow> 'k limit_state \<Rightarrow> bool \<times> 'k limit_state" where
  "try_acquire_slot cas mx m =
     (if lm_current m < mx then (if cas then (True, m\<lparr>lm_current := lm_current m + 1\<rparr>) else (False, m))
      else (False, m))"

definition register_limit_waker :: "'k \<Rightarrow> 'k limit_state \<Rightarrow> 'k limit_state" where
  "register_limit_waker k m = m\<lparr>lm_waiters := lm_waiters m @ [k]\<rparr>"

definition release_slot :: "('k, 'x) sim_env \<Rightarrow> 'k limit_state \<times> 'x \<Rightarrow> 'k limit_state \<times> 'x" where
  "release_slot E = (\<lambda>(m, x).
     let ks = lm_waiters m in (m\<lparr>lm_current := lm_current m - 1, lm_waiters := []\<rparr>, wake_wakers E ks x))"

definition concurrency_ready ::
  "('k, 's, 'x, 'q, 'f, 'r) service_code \<Rightarrow> ('x \<Rightarrow> bool) \<Rightarrow> 'k \<Rightarrow> 's concurrency_limit
    \<Rightarrow> 'k limit_state \<times> 'x \<Rightarrow> (service_error + unit) poll \<times> 's concurrency_limit \<times> 'k limit_state \<times> 'x"
where
  "concurrency_ready C cas k s = (\<lambda>(m, x).
     let (p, i, x) = poll_ready C k (cl_inner s) x; s = s\<lparr>cl_inner := i\<rparr>
     in case p of
          Ready (Inr _) \<Rightarrow>
            if cl_permit s then (Ready (Inr ()), s, m, x)
            else
              (let (ok, m) = try_acquire_slot (cas x) (cl_max s) m
               in if ok then (Ready (Inr ()), s\<lparr>cl_permit := True\<rparr>, m, x)
                  else (Pending, s, register_limit_waker k m, x))
        | Ready (Inl e) \<Rightarrow> (Ready (Inl e), s, m, x)
        | Pending \<Rightarrow> (Pending, s, m, x))"

definition concurrency_call ::
  "('k, 's, 'x, 'q, 'f, 'r) service_code \<Rightarrow> ('x \<Rightarrow> bool) \<Rightarrow> 'q \<Rightarrow> 's concurrency_limit
    \<Rightarrow> 'k limit_state \<times> 'x \<Rightarrow> 'f limit_future \<times> 's concurrency_limit \<times> 'k limit_state \<times> 'x"
where
  "concurrency_call C cas q s = (\<lambda>(m, x).
     let (acquired, s, m) =
           (if cl_permit s then (True, s\<lparr>cl_permit := False\<rparr>, m)
            else (let (ok, m) = try_acquire_slot (cas x) (cl_max s) m in (ok, s, m)))
     in if \<not> acquired
        then (\<lparr>lf_inner = None, lf_acquired = False, lf_immediate_error = Some NotReady\<rparr>, s, m, x)
        else
          (let (f, i, x) = call_service C q (cl_inner s) x
           in (\<lparr>lf_inner = Some f, lf_acquired = True, lf_immediate_error = None\<rparr>, s\<lparr>cl_inner := i\<rparr>, m, x)))"

definition limit_future_poll ::
  "('k, 'x) sim_env \<Rightarrow> ('k, 's, 'x, 'q, 'f, 'r) service_code \<Rightarrow> 'k \<Rightarrow> 'f limit_future \<Rightarrow> 'k limit_state \<times> 'x
    \<Rightarrow> (service_error + 'r) poll \<times> 'f limit_future \<times> 'k limit_state \<times> 'x"
where
  "limit_future_poll E C k f = (\<lambda>(m, x).
     case lf_immediate_error f of
       Some e \<Rightarrow> (Ready (Inl e), f\<lparr>lf_immediate_error := None\<rparr>, m, x)
     | None \<Rightarrow>
         (case lf_inner f of
            None \<Rightarrow> (Ready (Inl NotReady), f, m, x)
          | Some i \<Rightarrow>
              (let (p, i, x) = poll_future C k i x; f = f\<lparr>lf_inner := Some i\<rparr>
               in case p of
                    Ready r \<Rightarrow>
                      if lf_acquired f
                      then (let (m, x) = release_slot E (m, x) in (Ready r, f\<lparr>lf_acquired := False\<rparr>, m, x))
                      else (Ready r, f, m, x)
                  | Pending \<Rightarrow> (Pending, f, m, x))))"

text \<open>\<open>PinnedDrop\<close> runs first, then the fields are dropped.\<close>

definition limit_future_drop ::
  "('k, 'x) sim_env \<Rightarrow> ('k, 's, 'x, 'q, 'f, 'r) service_code \<Rightarrow> 'f limit_future \<Rightarrow> 'k limit_state \<times> 'x
    \<Rightarrow> 'k limit_state \<times> 'x"
where
  "limit_future_drop E C f y =
     (let (m, x) = (if lf_acquired f then release_slot E y else y) in (m, drop_inner C (lf_inner f) x))"

definition concurrency_clone :: "('k, 's, 'x, 'q, 'f, 'r) service_code \<Rightarrow> 's concurrency_limit \<Rightarrow> 's concurrency_limit" where
  "concurrency_clone C s = s\<lparr>cl_inner := clone_service C (cl_inner s), cl_permit := False\<rparr>"

definition concurrency_service ::
  "('k, 'x) sim_env \<Rightarrow> ('x \<Rightarrow> bool) \<Rightarrow> ('k, 's, 'x, 'q, 'f, 'r) service_code
    \<Rightarrow> ('k, 's concurrency_limit, 'k limit_state \<times> 'x, 'q, 'f limit_future, 'r) service_code"
where
  "concurrency_service E cas C =
     \<lparr>poll_ready = concurrency_ready C cas, call_service = concurrency_call C cas,
      poll_future = limit_future_poll E C, drop_future = limit_future_drop E C,
      clone_service = concurrency_clone C\<rparr>"

lemma concurrency_service_simps [simp]:
  "poll_ready (concurrency_service E cas C) = concurrency_ready C cas"
  "call_service (concurrency_service E cas C) = concurrency_call C cas"
  "poll_future (concurrency_service E cas C) = limit_future_poll E C"
  "drop_future (concurrency_service E cas C) = limit_future_drop E C"
  "clone_service (concurrency_service E cas C) = concurrency_clone C"
  by (simp_all add: concurrency_service_def)

subsection \<open>Accounting\<close>

definition permits :: "'s concurrency_limit multiset \<Rightarrow> nat" where
  "permits H = size (filter_mset cl_permit H)"

definition in_flight :: "'f limit_future multiset \<Rightarrow> nat" where
  "in_flight F = size (filter_mset lf_acquired F)"

lemma slot_counts [simp]:
  "permits {#} = 0" "permits (add_mset s H) = (if cl_permit s then 1 else 0) + permits H"
  "in_flight {#} = 0" "in_flight (add_mset f F) = (if lf_acquired f then 1 else 0) + in_flight F"
  by (simp_all add: permits_def in_flight_def)

text \<open>
  Every permit and every request in flight is counted, and the count keeps to the maximum; if
  compare-and-exchange does not fail spuriously, tasks wait only while the limit is reached.
\<close>

definition slots_ok :: "bool \<Rightarrow> u64 \<Rightarrow> nat \<Rightarrow> 'k limit_state \<Rightarrow> bool" where
  "slots_ok strong mx n m \<longleftrightarrow>
     n \<le> unat (lm_current m) \<and> lm_current m \<le> mx \<and> (strong \<longrightarrow> lm_waiters m \<noteq> [] \<longrightarrow> lm_current m = mx)"

lemma try_acquire_slot_ok:
  assumes "slots_ok strong mx n m" "try_acquire_slot cas mx m = (ok, m')" "strong \<longrightarrow> cas"
  shows "slots_ok strong mx (if ok then n + 1 else n) m' \<and>
    (strong \<longrightarrow> \<not> ok \<longrightarrow> lm_current m' = mx) \<and> (ok \<or> m' = m)"
proof (cases "lm_current m < mx")
  case True
  then have "unat (lm_current m) + unat (1 :: u64) < 2 ^ LENGTH(64)"
    using unat_lt_pow [of mx] by (simp add: word_less_nat_alt)
  then have "unat (lm_current m + 1) = unat (lm_current m) + 1" by (subst (asm) unat_add_lem) simp
  moreover have "lm_current m + 1 \<le> mx" using True by (rule inc_le)
  ultimately have "unat (lm_current m + 1) = unat (lm_current m) + 1" "lm_current m + 1 \<le> mx" .
  with True assms show ?thesis by (auto simp: try_acquire_slot_def slots_ok_def split: if_splits)
next
  case False
  with assms show ?thesis by (auto simp: try_acquire_slot_def slots_ok_def)
qed

lemma register_limit_waker_ok:
  "slots_ok strong mx n m \<Longrightarrow> (strong \<Longrightarrow> lm_current m = mx) \<Longrightarrow> slots_ok strong mx n (register_limit_waker k m)"
  by (simp add: slots_ok_def register_limit_waker_def)

lemma release_slot_ok:
  assumes "slots_ok strong mx (n + 1) m" "release_slot E (m, x) = (m', x')"
  shows "slots_ok strong mx n m' \<and> lm_waiters m' = [] \<and> x' = wake_wakers E (lm_waiters m) x"
proof -
  from assms(1) have "lm_current m \<noteq> 0" by (auto simp: slots_ok_def)
  then have "unat (lm_current m - 1) = unat (lm_current m) - 1" "lm_current m - 1 \<le> lm_current m"
    by (simp_all add: unat_minus_one word_le_nat_alt)
  with assms show ?thesis by (auto simp: slots_ok_def release_slot_def Let_def)
qed

lemma slots_ok_mono: "slots_ok strong mx n m \<Longrightarrow> n' \<le> n \<Longrightarrow> slots_ok strong mx n' m"
  by (simp add: slots_ok_def)

definition limit_inv ::
  "bool \<Rightarrow> u64 \<Rightarrow> ('s multiset \<Rightarrow> 'f multiset \<Rightarrow> 'x \<Rightarrow> bool) \<Rightarrow> 's concurrency_limit multiset
    \<Rightarrow> 'f limit_future multiset \<Rightarrow> 'k limit_state \<times> 'x \<Rightarrow> bool"
where
  "limit_inv strong mx I H F = (\<lambda>(m, x).
     (\<forall>s\<in>#H. cl_max s = mx) \<and> slots_ok strong mx (permits H + in_flight F) m \<and>
     I (image_mset cl_inner H) (somes (image_mset lf_inner F)) x)"

context service_contract
begin

lemma concurrency_ready_inv:
  assumes "limit_inv strong mx I (add_mset s H) F (m, x)" "concurrency_ready C cas k s (m, x) = (p, s', m', x')"
    and cas: "\<And>y. strong \<Longrightarrow> cas y"
  shows "limit_inv strong mx I (add_mset s' H) F (m', x')"
proof -
  obtain p1 i x1 where rd: "poll_ready C k (cl_inner s) x = (p1, i, x1)" using prod_cases3 by blast
  with assms(1) have I: "I (add_mset i (image_mset cl_inner H)) (somes (image_mset lf_inner F)) x1"
    by (auto simp: limit_inv_def intro: ready_inv)
  obtain ok m1 where ac: "try_acquire_slot (cas x1) mx m = (ok, m1)" by fastforce
  with assms(1) cas have "slots_ok strong mx (if ok then permits (add_mset s H) + in_flight F + 1
      else permits (add_mset s H) + in_flight F) m1 \<and> (strong \<longrightarrow> \<not> ok \<longrightarrow> lm_current m1 = mx)"
    using try_acquire_slot_ok [OF _ ac] by (auto simp: limit_inv_def)
  with assms(1,2) rd ac I show ?thesis
    by (auto simp: concurrency_ready_def limit_inv_def Let_def split: poll.splits sum.splits if_splits
        intro!: register_limit_waker_ok)
qed

lemma concurrency_call_inv:
  assumes "limit_inv strong mx I (add_mset s H) F (m, x)" "concurrency_call C cas q s (m, x) = (f, s', m', x')"
    and cas: "\<And>y. strong \<Longrightarrow> cas y"
  shows "limit_inv strong mx I (add_mset s' H) (add_mset f F) (m', x')"
proof -
  obtain g i x1 where cl: "call_service C q (cl_inner s) x = (g, i, x1)" using prod_cases3 by blast
  with assms(1) have I: "I (add_mset i (image_mset cl_inner H)) (add_mset g (somes (image_mset lf_inner F))) x1"
    by (auto simp: limit_inv_def intro: call_inv)
  obtain ok m1 where ac: "try_acquire_slot (cas x) mx m = (ok, m1)" by fastforce
  with assms(1) cas have "slots_ok strong mx (if ok then permits (add_mset s H) + in_flight F + 1
      else permits (add_mset s H) + in_flight F) m1"
    using try_acquire_slot_ok [OF _ ac] by (auto simp: limit_inv_def)
  with assms(1,2) cl ac I show ?thesis
    by (auto simp: concurrency_call_def limit_inv_def Let_def split: if_splits)
qed

lemma release_slot_inv:
  assumes "slots_ok strong mx (n + 1) m" "I H F x" "release_slot E (m, x) = (m', x')"
  shows "slots_ok strong mx n m' \<and> I H F x'"
  using release_slot_ok [OF assms(1,3)] assms(2) by (auto intro: wake_wakers_inv)

lemma limit_future_poll_inv:
  assumes "limit_inv strong mx I H (add_mset f F) (m, x)" "limit_future_poll E C k f (m, x) = (p, f', m', x')"
  shows "limit_inv strong mx I H (add_mset f' F) (m', x')"
proof (cases "lf_immediate_error f = None \<and> lf_inner f \<noteq> None")
  case True
  then obtain i where i: "lf_immediate_error f = None" "lf_inner f = Some i" by auto
  obtain p1 j x1 where pl: "poll_future C k i x = (p1, j, x1)" using prod_cases3 by blast
  with assms(1) i have I: "I (image_mset cl_inner H) (add_mset j (somes (image_mset lf_inner F))) x1"
    by (auto simp: limit_inv_def intro: poll_inv)
  obtain m2 x2 where rl: "release_slot E (m, x1) = (m2, x2)" by fastforce
  from assms(1) have "lf_acquired f \<Longrightarrow> slots_ok strong mx (permits H + in_flight F + 1) m"
    by (simp add: limit_inv_def)
  from release_slot_inv [OF this I rl] assms i pl rl I show ?thesis
    by (auto simp: limit_future_poll_def limit_inv_def Let_def split: poll.splits if_splits)
next
  case False
  with assms show ?thesis by (auto simp: limit_future_poll_def limit_inv_def split: option.splits)
qed

lemma limit_future_drop_inv:
  assumes "limit_inv strong mx I H (add_mset f F) (m, x)" "limit_future_drop E C f (m, x) = (m', x')"
  shows "limit_inv strong mx I H F (m', x')"
proof -
  obtain m2 x2 where rl: "release_slot E (m, x) = (m2, x2)" by fastforce
  from assms(1) have I: "I (image_mset cl_inner H) (somes (add_mset (lf_inner f) (image_mset lf_inner F))) x"
    and "lf_acquired f \<Longrightarrow> slots_ok strong mx (permits H + in_flight F + 1) m"
    by (simp_all add: limit_inv_def)
  from release_slot_inv [OF this(2) I rl] drop_inner_inv [of _ "lf_inner f"] assms rl I show ?thesis
    by (auto simp: limit_future_drop_def limit_inv_def split: if_splits)
qed

lemma limit_layer:
  assumes "\<And>y. strong \<Longrightarrow> cas y"
  shows "service_contract (lift_env E) (limit_inv strong mx I) (concurrency_service E cas C)"
proof
  fix H F x k
  show "limit_inv strong mx I H F x \<Longrightarrow> limit_inv strong mx I H F (env_wake (lift_env E) k x)"
    by (cases x) (auto simp: limit_inv_def lift_env_def intro: wake_inv)
next
  fix H F x sl p sl' x'
  show "limit_inv strong mx I H F x \<Longrightarrow> env_sleep (lift_env E) sl x = (p, sl', x') \<Longrightarrow> limit_inv strong mx I H F x'"
    by (cases x) (auto simp: limit_inv_def lift_env_def split: prod.splits intro: sleep_inv)
next
  fix H F x sl
  show "limit_inv strong mx I H F x \<Longrightarrow> limit_inv strong mx I H F (env_sleep_drop (lift_env E) sl x)"
    by (cases x) (auto simp: limit_inv_def lift_env_def intro: sleep_drop_inv)
next
  fix H f F x
  show "limit_inv strong mx I H (add_mset f F) x \<Longrightarrow>
      limit_inv strong mx I H F (drop_future (concurrency_service E cas C) f x)"
    by (cases x; cases "limit_future_drop E C f x") (auto intro: limit_future_drop_inv)
next
  fix s H F x
  show "limit_inv strong mx I (add_mset s H) F x \<Longrightarrow> limit_inv strong mx I H F x"
    by (auto simp: limit_inv_def intro: drop_handle_inv elim: slots_ok_mono)
next
  fix s H F x
  show "limit_inv strong mx I (add_mset s H) F x \<Longrightarrow>
      limit_inv strong mx I (add_mset (clone_service (concurrency_service E cas C) s) (add_mset s H)) F x"
    by (auto simp: limit_inv_def concurrency_clone_def intro: clone_inv)
qed (auto intro: concurrency_ready_inv concurrency_call_inv limit_future_poll_inv assms)

end

text \<open>
  A limiter all of whose slots are taken, with no permit and no request in flight that could
  give one back, stays as it is.
\<close>

definition exhausted_inv ::
  "u64 \<Rightarrow> 's concurrency_limit multiset \<Rightarrow> 'f limit_future multiset \<Rightarrow> 'k limit_state \<times> 'x \<Rightarrow> bool"
where
  "exhausted_inv mx H F = (\<lambda>(m, x).
     (\<forall>s\<in>#H. cl_max s = mx \<and> \<not> cl_permit s) \<and> (\<forall>f\<in>#F. \<not> lf_acquired f) \<and> lm_current m = mx)"

lemma exhausted_slots [simp]: "lm_current m = mx \<Longrightarrow> try_acquire_slot cas mx m = (False, m)"
  by (simp add: try_acquire_slot_def)

lemma exhausted_contract: "service_contract (lift_env E) (exhausted_inv mx) (concurrency_service E cas C)"
  by unfold_locales
    (auto simp: exhausted_inv_def lift_env_defs concurrency_ready_def concurrency_call_def limit_future_poll_def
      limit_future_drop_def concurrency_clone_def register_limit_waker_def
      split: prod.splits poll.splits sum.splits option.splits if_splits)

section \<open>Global concurrency limit\<close>

record 'k global_state =
  gs_max :: u64
  gs_current :: u64
  gs_waiters :: "'k list"

record 's global_limit =
  gl_inner :: 's
  gl_permit :: bool

definition global_state_new :: "u64 \<Rightarrow> 'k global_state" where
  "global_state_new mx = \<lparr>gs_max = mx, gs_current = 0, gs_waiters = []\<rparr>"

definition global_limit_new :: "'s \<Rightarrow> 's global_limit" where
  "global_limit_new svc = \<lparr>gl_inner = svc, gl_permit = False\<rparr>"

definition global_try_acquire :: "bool \<Rightarrow> 'k global_state \<Rightarrow> bool \<times> 'k global_state" where
  "global_try_acquire cas m =
     (if gs_current m < gs_max m then (if cas then (True, m\<lparr>gs_current := gs_current m + 1\<rparr>) else (False, m))
      else (False, m))"

definition global_register_waker :: "'k \<Rightarrow> 'k global_state \<Rightarrow> 'k global_state" where
  "global_register_waker k m = m\<lparr>gs_waiters := gs_waiters m @ [k]\<rparr>"

definition global_release :: "('k, 'x) sim_env \<Rightarrow> 'k global_state \<times> 'x \<Rightarrow> 'k global_state \<times> 'x" where
  "global_release E = (\<lambda>(m, x).
     let ks = gs_waiters m in (m\<lparr>gs_current := gs_current m - 1, gs_waiters := []\<rparr>, wake_wakers E ks x))"

definition global_ready ::
  "('k, 's, 'x, 'q, 'f, 'r) service_code \<Rightarrow> ('x \<Rightarrow> bool) \<Rightarrow> 'k \<Rightarrow> 's global_limit
    \<Rightarrow> 'k global_state \<times> 'x \<Rightarrow> (service_error + unit) poll \<times> 's global_limit \<times> 'k global_state \<times> 'x"
where
  "global_ready C cas k s = (\<lambda>(m, x).
     let (p, i, x) = poll_ready C k (gl_inner s) x; s = s\<lparr>gl_inner := i\<rparr>
     in case p of
          Ready (Inr _) \<Rightarrow>
            if gl_permit s then (Ready (Inr ()), s, m, x)
            else
              (let (ok, m) = global_try_acquire (cas x) m
               in if ok then (Ready (Inr ()), s\<lparr>gl_permit := True\<rparr>, m, x)
                  else (Pending, s, global_register_waker k m, x))
        | Ready (Inl e) \<Rightarrow> (Ready (Inl e), s, m, x)
        | Pending \<Rightarrow> (Pending, s, m, x))"

definition global_call ::
  "('k, 's, 'x, 'q, 'f, 'r) service_code \<Rightarrow> ('x \<Rightarrow> bool) \<Rightarrow> 'q \<Rightarrow> 's global_limit
    \<Rightarrow> 'k global_state \<times> 'x \<Rightarrow> 'f limit_future \<times> 's global_limit \<times> 'k global_state \<times> 'x"
where
  "global_call C cas q s = (\<lambda>(m, x).
     let (acquired, s, m) =
           (if gl_permit s then (True, s\<lparr>gl_permit := False\<rparr>, m)
            else (let (ok, m) = global_try_acquire (cas x) m in (ok, s, m)))
     in if \<not> acquired
        then (\<lparr>lf_inner = None, lf_acquired = False, lf_immediate_error = Some NotReady\<rparr>, s, m, x)
        else
          (let (f, i, x) = call_service C q (gl_inner s) x
           in (\<lparr>lf_inner = Some f, lf_acquired = True, lf_immediate_error = None\<rparr>, s\<lparr>gl_inner := i\<rparr>, m, x)))"

text \<open>The futures of the two limiters have the same fields.\<close>

definition global_future_poll ::
  "('k, 'x) sim_env \<Rightarrow> ('k, 's, 'x, 'q, 'f, 'r) service_code \<Rightarrow> 'k \<Rightarrow> 'f limit_future \<Rightarrow> 'k global_state \<times> 'x
    \<Rightarrow> (service_error + 'r) poll \<times> 'f limit_future \<times> 'k global_state \<times> 'x"
where
  "global_future_poll E C k f = (\<lambda>(m, x).
     case lf_immediate_error f of
       Some e \<Rightarrow> (Ready (Inl e), f\<lparr>lf_immediate_error := None\<rparr>, m, x)
     | None \<Rightarrow>
         (case lf_inner f of
            None \<Rightarrow> (Ready (Inl NotReady), f, m, x)
          | Some i \<Rightarrow>
              (let (p, i, x) = poll_future C k i x; f = f\<lparr>lf_inner := Some i\<rparr>
               in case p of
                    Ready r \<Rightarrow>
                      if lf_acquired f
                      then (let (m, x) = global_release E (m, x) in (Ready r, f\<lparr>lf_acquired := False\<rparr>, m, x))
                      else (Ready r, f, m, x)
                  | Pending \<Rightarrow> (Pending, f, m, x))))"

definition global_future_drop ::
  "('k, 'x) sim_env \<Rightarrow> ('k, 's, 'x, 'q, 'f, 'r) service_code \<Rightarrow> 'f limit_future \<Rightarrow> 'k global_state \<times> 'x
    \<Rightarrow> 'k global_state \<times> 'x"
where
  "global_future_drop E C f y =
     (let (m, x) = (if lf_acquired f then global_release E y else y) in (m, drop_inner C (lf_inner f) x))"

definition global_clone :: "('k, 's, 'x, 'q, 'f, 'r) service_code \<Rightarrow> 's global_limit \<Rightarrow> 's global_limit" where
  "global_clone C s = s\<lparr>gl_inner := clone_service C (gl_inner s), gl_permit := False\<rparr>"

definition global_service ::
  "('k, 'x) sim_env \<Rightarrow> ('x \<Rightarrow> bool) \<Rightarrow> ('k, 's, 'x, 'q, 'f, 'r) service_code
    \<Rightarrow> ('k, 's global_limit, 'k global_state \<times> 'x, 'q, 'f limit_future, 'r) service_code"
where
  "global_service E cas C =
     \<lparr>poll_ready = global_ready C cas, call_service = global_call C cas,
      poll_future = global_future_poll E C, drop_future = global_future_drop E C, clone_service = global_clone C\<rparr>"

lemma global_service_simps [simp]:
  "poll_ready (global_service E cas C) = global_ready C cas"
  "call_service (global_service E cas C) = global_call C cas"
  "poll_future (global_service E cas C) = global_future_poll E C"
  "drop_future (global_service E cas C) = global_future_drop E C"
  "clone_service (global_service E cas C) = global_clone C"
  by (simp_all add: global_service_def)

text \<open>The state and the handles of the global limiter, seen as those of a local one.\<close>

definition limit_view :: "'k global_state \<Rightarrow> 'k limit_state" where
  "limit_view m = \<lparr>lm_current = gs_current m, lm_waiters = gs_waiters m\<rparr>"

definition handle_view :: "'k global_state \<Rightarrow> 's global_limit \<Rightarrow> 's concurrency_limit" where
  "handle_view m s = \<lparr>cl_inner = gl_inner s, cl_max = gs_max m, cl_permit = gl_permit s\<rparr>"

definition step_view ::
  "'p \<times> 's global_limit \<times> 'k global_state \<times> 'x \<Rightarrow> 'p \<times> 's concurrency_limit \<times> 'k limit_state \<times> 'x"
where
  "step_view = (\<lambda>(p, s, m, x). (p, handle_view m s, limit_view m, x))"

lemmas view_defs = limit_view_def handle_view_def step_view_def

lemma global_ready_view:
  "step_view (global_ready C cas k s (m, x)) = concurrency_ready C cas k (handle_view m s) (limit_view m, x)"
  by (auto simp: global_ready_def concurrency_ready_def view_defs global_try_acquire_def try_acquire_slot_def
      global_register_waker_def register_limit_waker_def Let_def split: prod.splits poll.splits sum.splits)

lemma global_call_view:
  "step_view (global_call C cas q s (m, x)) = concurrency_call C cas q (handle_view m s) (limit_view m, x)"
  by (auto simp: global_call_def concurrency_call_def view_defs global_try_acquire_def try_acquire_slot_def
      Let_def split: prod.splits)

lemma global_release_view:
  "map_prod limit_view id (global_release E (m, x)) = release_slot E (limit_view m, x)"
  by (simp add: global_release_def release_slot_def view_defs Let_def)

lemma global_poll_view:
  "map_prod id (map_prod id (map_prod limit_view id)) (global_future_poll E C k f (m, x)) =
     limit_future_poll E C k f (limit_view m, x)"
  using global_release_view [of E m]
  by (auto simp: global_future_poll_def limit_future_poll_def global_release_def Let_def
      split: prod.splits option.splits poll.splits)

lemma global_drop_view:
  "map_prod limit_view id (global_future_drop E C f (m, x)) = limit_future_drop E C f (limit_view m, x)"
  by (simp add: global_future_drop_def limit_future_drop_def global_release_def release_slot_def view_defs Let_def)

lemma global_max:
  "global_ready C cas k s (m, x) = (p, s', m', x') \<Longrightarrow> gs_max m' = gs_max m"
  "global_call C cas q s (m, x) = (f, s', m', x') \<Longrightarrow> gs_max m' = gs_max m"
  "global_future_poll E C k f (m, x) = (p', f', m', x') \<Longrightarrow> gs_max m' = gs_max m"
  "global_future_drop E C f (m, x) = (m', x') \<Longrightarrow> gs_max m' = gs_max m"
  by (auto simp: global_ready_def global_call_def global_future_poll_def global_future_drop_def global_try_acquire_def
      global_register_waker_def global_release_def Let_def
      split: prod.splits poll.splits sum.splits option.splits if_splits)

definition global_inv ::
  "bool \<Rightarrow> ('s multiset \<Rightarrow> 'f multiset \<Rightarrow> 'x \<Rightarrow> bool) \<Rightarrow> 's global_limit multiset
    \<Rightarrow> 'f limit_future multiset \<Rightarrow> 'k global_state \<times> 'x \<Rightarrow> bool"
where
  "global_inv strong I H F = (\<lambda>(m, x).
     limit_inv strong (gs_max m) I (image_mset (handle_view m) H) F (limit_view m, x))"

lemma handle_view_cong: "gs_max m' = gs_max m \<Longrightarrow> handle_view m' = handle_view m"
  by (rule ext) (simp add: handle_view_def)

context service_contract
begin

lemma global_layer:
  assumes cas: "\<And>x. strong \<Longrightarrow> cas x"
  shows "service_contract (lift_env E) (global_inv strong I) (global_service E cas C)"
proof
  fix s H F x k p s' x'
  assume I: "global_inv strong I (add_mset s H) F x" and st: "poll_ready (global_service E cas C) k s x = (p, s', x')"
  obtain m y m' y' where x: "x = (m, y)" "x' = (m', y')" by fastforce
  from st x have mx: "gs_max m' = gs_max m" by (auto dest: global_max(1))
  have "concurrency_ready C cas k (handle_view m s) (limit_view m, y) = (p, handle_view m' s', limit_view m', y')"
    using global_ready_view [of C cas k s m y] st x by (simp add: step_view_def)
  then show "global_inv strong I (add_mset s' H) F x'"
    using I unfolding x global_inv_def prod.case mx handle_view_cong [OF mx] image_mset_add_mset
    by (blast intro: concurrency_ready_inv cas)
next
  fix s H F x q f s' x'
  assume I: "global_inv strong I (add_mset s H) F x" and st: "call_service (global_service E cas C) q s x = (f, s', x')"
  obtain m y m' y' where x: "x = (m, y)" "x' = (m', y')" by fastforce
  from st x have mx: "gs_max m' = gs_max m" by (auto dest: global_max(2))
  have "concurrency_call C cas q (handle_view m s) (limit_view m, y) = (f, handle_view m' s', limit_view m', y')"
    using global_call_view [of C cas q s m y] st x by (simp add: step_view_def)
  then show "global_inv strong I (add_mset s' H) (add_mset f F) x'"
    using I unfolding x global_inv_def prod.case mx handle_view_cong [OF mx] image_mset_add_mset
    by (blast intro: concurrency_call_inv cas)
next
  fix H f F x k p f' x'
  assume I: "global_inv strong I H (add_mset f F) x" and st: "poll_future (global_service E cas C) k f x = (p, f', x')"
  obtain m y m' y' where x: "x = (m, y)" "x' = (m', y')" by fastforce
  from st x have mx: "gs_max m' = gs_max m" by (auto dest: global_max(3))
  have "limit_future_poll E C k f (limit_view m, y) = (p, f', limit_view m', y')"
    using global_poll_view [of E C k f m y] st x by simp
  then show "global_inv strong I H (add_mset f' F) x'"
    using I unfolding x global_inv_def prod.case mx handle_view_cong [OF mx] image_mset_add_mset
    by (blast intro: limit_future_poll_inv)
next
  fix H f F and x :: "'k global_state \<times> 'x"
  assume I: "global_inv strong I H (add_mset f F) x"
  obtain m y m' y' where x: "x = (m, y)" and d: "global_future_drop E C f (m, y) = (m', y')" by fastforce
  from d have mx: "gs_max m' = gs_max m" by (auto dest: global_max(4))
  have "limit_future_drop E C f (limit_view m, y) = (limit_view m', y')"
    using global_drop_view [of E C f m y] d by simp
  then show "global_inv strong I H F (drop_future (global_service E cas C) f x)"
    using I unfolding x global_service_simps d global_inv_def prod.case mx handle_view_cong [OF mx] image_mset_add_mset
    by (blast intro: limit_future_drop_inv)
next
  fix s H F and x :: "'k global_state \<times> 'x"
  assume "global_inv strong I (add_mset s H) F x"
  then show "global_inv strong I (add_mset (clone_service (global_service E cas C) s) (add_mset s H)) F x"
    by (auto simp: global_inv_def limit_inv_def handle_view_def global_clone_def intro: clone_inv)
next
  fix s H F and x :: "'k global_state \<times> 'x"
  assume "global_inv strong I (add_mset s H) F x"
  then show "global_inv strong I H F x"
    by (auto simp: global_inv_def limit_inv_def handle_view_def intro: drop_handle_inv elim: slots_ok_mono)
qed (auto simp: global_inv_def limit_inv_def lift_env_defs split: prod.splits
      intro: wake_inv sleep_inv sleep_drop_inv)

end

section \<open>Properties\<close>

text \<open>
  C18. However a limited service is used, by any number of clones of its handle and with futures
  polled and dropped in any order, the permits given out and the requests in flight together
  never exceed the maximum. If no compare-and-exchange fails spuriously, a task waits for a slot
  only while the limit is reached, so the release of a slot, which wakes all that wait, comes.
\<close>

theorem concurrency_limit_respected:
  assumes "concurrency_limit_new svc mx = (s, m)"
    and "service_run (concurrency_service E cas C) other ({#s#}, {#}, m, x) (H, F, m', x')"
    and "\<And>m x m' x'. other (m, x) (m', x') \<Longrightarrow> m' = m"
  shows "permits H + in_flight F \<le> unat mx \<and>
    ((\<forall>x. cas x) \<longrightarrow> lm_waiters m' \<noteq> [] \<longrightarrow> lm_current m' = mx)"
proof -
  have "limit_inv (\<forall>x. cas x) mx (\<lambda>H F x. True) H F (m', x')"
  proof (rule service_contract.run_inv [OF _ assms(2)])
    show "service_contract (lift_env E) (limit_inv (\<forall>x. cas x) mx (\<lambda>H F x. True)) (concurrency_service E cas C)"
      by (rule service_contract.limit_layer [OF any_service]) blast
  qed (use assms(1,3) in \<open>auto simp: limit_inv_def concurrency_limit_new_def slots_ok_def\<close>)
  then show ?thesis by (auto simp: limit_inv_def slots_ok_def word_le_nat_alt)
qed

lemma idle_ready:
  "concurrency_ready idle_service (\<lambda>x. True) 5 \<lparr>cl_inner = (), cl_max = 1, cl_permit = False\<rparr> (\<lparr>lm_current = 0, lm_waiters = []\<rparr>, ()) =
     (Ready (Inr ()), \<lparr>cl_inner = (), cl_max = 1, cl_permit = True\<rparr>, \<lparr>lm_current = 1, lm_waiters = []\<rparr>, ())"
  by (simp add: concurrency_ready_def idle_defs try_acquire_slot_def)

lemma idle_run:
  "service_run (concurrency_service idle_env (\<lambda>x. True) idle_service) (\<lambda>_ _. False)
     ({#\<lparr>cl_inner = (), cl_max = 1, cl_permit = False\<rparr>#}, {#}, \<lparr>lm_current = 0, lm_waiters = []\<rparr>, ())
     ({#\<lparr>cl_inner = (), cl_max = 1, cl_permit = False\<rparr>#},
      {#\<lparr>lf_inner = Some (), lf_acquired = True, lf_immediate_error = None\<rparr>#},
      \<lparr>lm_current = 1, lm_waiters = []\<rparr>, ())"
proof -
  let ?C = "concurrency_service idle_env (\<lambda>x. True) idle_service"
  have "poll_ready ?C 5 \<lparr>cl_inner = (), cl_max = 1, cl_permit = False\<rparr> (\<lparr>lm_current = 0, lm_waiters = []\<rparr>, ()) =
     (Ready (Inr ()), \<lparr>cl_inner = (), cl_max = 1, cl_permit = True\<rparr>, \<lparr>lm_current = 1, lm_waiters = []\<rparr>, ())"
    by (simp add: idle_ready)
  moreover have "call_service ?C () \<lparr>cl_inner = (), cl_max = 1, cl_permit = True\<rparr> (\<lparr>lm_current = 1, lm_waiters = []\<rparr>, ()) =
     (\<lparr>lf_inner = Some (), lf_acquired = True, lf_immediate_error = None\<rparr>,
      \<lparr>cl_inner = (), cl_max = 1, cl_permit = False\<rparr>, \<lparr>lm_current = 1, lm_waiters = []\<rparr>, ())"
    by (simp add: concurrency_call_def idle_defs)
  ultimately show ?thesis by (metis run_start run_ready run_call)
qed

theorem concurrency_limit_respected_witness:
  "permits {#\<lparr>cl_inner = (), cl_max = 1, cl_permit = False\<rparr>#} +
     in_flight {#\<lparr>lf_inner = Some (), lf_acquired = True, lf_immediate_error = None\<rparr>#} \<le> unat (1 :: u64)"
  using concurrency_limit_respected [OF _ idle_run, of "()" 1] by (simp add: concurrency_limit_new_def)

text \<open>
  A permit taken by \<open>poll_ready\<close> is lost when the handle is dropped without a call: for a limit
  of one the handle's clone is then never ready again and none of its calls gets through, whatever
  happens afterwards.
\<close>

theorem concurrency_permit_leak:
  assumes "concurrency_limit_new svc 1 = (s, m)"
    and "poll_ready C k svc x = (Ready (Inr ()), svc', x1)" "cas x1"
  shows "\<exists>s1 m1. concurrency_ready C cas k s (m, x) = (Ready (Inr ()), s1, m1, x1) \<and>
    (\<forall>other H F m2 x2.
       service_run (concurrency_service E cas C) other ({#concurrency_clone C s1#}, {#}, m1, x1) (H, F, m2, x2) \<longrightarrow>
       (\<forall>m x m' x'. other (m, x) (m', x') \<longrightarrow> m' = m) \<longrightarrow>
       in_flight F = 0 \<and> (\<forall>s2\<in>#H. \<forall>k. fst (concurrency_ready C cas k s2 (m2, x2)) \<noteq> Ready (Inr ())))"
proof (intro exI conjI allI impI)
  let ?s1 = "\<lparr>cl_inner = svc', cl_max = 1, cl_permit = True\<rparr>" and ?m1 = "\<lparr>lm_current = 1, lm_waiters = []\<rparr>"
  show "concurrency_ready C cas k s (m, x) = (Ready (Inr ()), ?s1, ?m1, x1)"
    using assms by (auto simp: concurrency_limit_new_def concurrency_ready_def try_acquire_slot_def Let_def)
  fix other H F m2 x2
  assume run: "service_run (concurrency_service E cas C) other ({#concurrency_clone C ?s1#}, {#}, ?m1, x1) (H, F, m2, x2)"
    and other: "\<forall>m x m' x'. other (m, x) (m', x') \<longrightarrow> m' = m"
  have inv: "exhausted_inv 1 H F (m2, x2)"
    by (rule service_contract.run_inv [OF exhausted_contract run])
      (use other in \<open>auto simp: exhausted_inv_def concurrency_clone_def\<close>)
  then show "in_flight F = 0" by (auto simp: exhausted_inv_def in_flight_def)
  show "\<forall>s2\<in>#H. \<forall>k. fst (concurrency_ready C cas k s2 (m2, x2)) \<noteq> Ready (Inr ())"
    using inv by (auto simp: exhausted_inv_def concurrency_ready_def Let_def split: prod.splits poll.splits sum.splits)
qed

theorem concurrency_permit_leak_witness:
  "\<exists>s1 m1. concurrency_ready idle_service (\<lambda>x. True) 5 \<lparr>cl_inner = (), cl_max = 1, cl_permit = False\<rparr>
        (\<lparr>lm_current = 0, lm_waiters = []\<rparr>, ()) = (Ready (Inr ()), s1, m1, ()) \<and>
    (\<forall>other H F m2 x2.
       service_run (concurrency_service idle_env (\<lambda>x. True) idle_service) other
         ({#concurrency_clone idle_service s1#}, {#}, m1, ()) (H, F, m2, x2) \<longrightarrow>
       (\<forall>m x m' x'. other (m, x) (m', x') \<longrightarrow> m' = m) \<longrightarrow>
       in_flight F = 0 \<and> (\<forall>s2\<in>#H. \<forall>k. fst (concurrency_ready idle_service (\<lambda>x. True) k s2 (m2, x2)) \<noteq> Ready (Inr ())))"
  by (rule concurrency_permit_leak [where svc = "()" and svc' = "()" and x = "()"])
    (simp_all add: concurrency_limit_new_def idle_defs)

text \<open>
  C21. The global limiter does on every operation what the local one does, seen through the views: it
  is the local limiter with its maximum in the shared state.
\<close>

theorem global_is_local:
  "step_view (global_ready C cas k s (m, x)) = concurrency_ready C cas k (handle_view m s) (limit_view m, x) \<and>
   step_view (global_call C cas q s (m, x)) = concurrency_call C cas q (handle_view m s) (limit_view m, x) \<and>
   map_prod id (map_prod id (map_prod limit_view id)) (global_future_poll E C k f (m, x)) =
     limit_future_poll E C k f (limit_view m, x) \<and>
   map_prod limit_view id (global_future_drop E C f (m, x)) = limit_future_drop E C f (limit_view m, x) \<and>
   handle_view m (global_clone C s) = concurrency_clone C (handle_view m s)"
  by (simp add: global_ready_view global_call_view global_poll_view global_drop_view)
    (simp add: global_clone_def concurrency_clone_def handle_view_def)

text \<open>The services that share a global limiter never have more than its maximum in flight together.\<close>

theorem global_limit_respected:
  assumes "service_run (global_service E cas C) other (H0, {#}, global_state_new mx, x) (H, F, m, x')"
    and "\<forall>s\<in>#H0. \<not> gl_permit s" and "\<And>m x m' x'. other (m, x) (m', x') \<Longrightarrow> m' = m"
  shows "size (filter_mset gl_permit H) + in_flight F \<le> unat (gs_max m) \<and>
    ((\<forall>x. cas x) \<longrightarrow> gs_waiters m \<noteq> [] \<longrightarrow> gs_current m = gs_max m)"
proof -
  have start: "permits (image_mset (handle_view (global_state_new mx)) H0) = 0"
    using assms(2) by (auto simp: permits_def handle_view_def)
  have "global_inv (\<forall>x. cas x) (\<lambda>H F x. True) H F (m, x')"
  proof (rule service_contract.run_inv [OF _ assms(1)])
    show "service_contract (lift_env E) (global_inv (\<forall>x. cas x) (\<lambda>H F x. True)) (global_service E cas C)"
      by (rule service_contract.global_layer [OF any_service]) blast
    show "global_inv (\<forall>x. cas x) (\<lambda>H F x. True) H0 {#} (global_state_new mx, x)"
      using start by (simp add: global_inv_def limit_inv_def slots_ok_def)
        (auto simp: global_state_new_def view_defs)
  next
    fix H F y y'
    assume I: "global_inv (\<forall>x. cas x) (\<lambda>H F x. True) H F y" and o: "other y y'"
    obtain m x m' x' where y: "y = (m, x)" "y' = (m', x')" by fastforce
    with o assms(3) have "m' = m" by blast
    with I y show "global_inv (\<forall>x. cas x) (\<lambda>H F x. True) H F y'" by (simp add: global_inv_def limit_inv_def)
  qed
  moreover have "size (filter_mset gl_permit H) = permits (image_mset (handle_view m) H)"
    by (simp add: permits_def filter_mset_image_mset) (simp add: handle_view_def)
  ultimately show ?thesis
    by (auto simp: global_inv_def limit_inv_def slots_ok_def word_le_nat_alt limit_view_def)
qed

end
