(* ===== verification/Tower_Service.thy ===== *)
theory Tower_Service
  imports Tower_Retry Tower_Limit Circuit_Breaker Server Oneshot
begin

text \<open>
  \<open>des-tower/src/tower/service\<close>: the service at the bottom of a stack of layers. A call
  turns an HTTP request into an attempt, stores the sender of a one-shot channel under the
  attempt's identifier and sends the attempt to the server; the component \<open>ResponseRouter\<close>
  completes the channel when the response arrives. What handles, futures and the router share is
  the record \<open>tower_state\<close>, next to the world of the simulation, whose events contain those of
  servers by \<open>emb\<close>. The channels are those of the crate \<open>tokio\<close>: a record of operations.
\<close>

section \<open>State\<close>

record ('c, 'k) oneshot_code =
  oc_channel :: 'c
  oc_send :: "response \<Rightarrow> 'c \<Rightarrow> 'k list \<times> 'c"
  oc_drop_sender :: "'c \<Rightarrow> 'k list \<times> 'c"
  oc_poll :: "'k \<Rightarrow> 'c \<Rightarrow> (recv_error + response) poll \<times> 'c"
  oc_drop_receiver :: "'c \<Rightarrow> 'c"

record ('c, 'k) tower_state =
  ts_pending_responses :: "attempt_id \<rightharpoonup> nat"
  ts_channels :: "nat \<Rightarrow> 'c"
  ts_next_channel :: nat
  ts_current_load :: u64
  ts_wakers :: "'k list"
  ts_next_request_id :: nat
  ts_next_attempt_id :: nat

record tower_handle =
  th_server_key :: uuid
  th_router_key :: uuid
  th_capacity :: u64

definition tower_state_new :: "'c \<Rightarrow> ('c, 'k) tower_state" where
  "tower_state_new c =
     \<lparr>ts_pending_responses = Map.empty, ts_channels = (\<lambda>_. c), ts_next_channel = 0, ts_current_load = 0,
      ts_wakers = [], ts_next_request_id = 1, ts_next_attempt_id = 1\<rparr>"

section \<open>Router\<close>

definition set_channel :: "nat \<Rightarrow> 'k list \<times> 'c \<Rightarrow> ('c, 'k) tower_state \<Rightarrow> 'k list \<times> ('c, 'k) tower_state" where
  "set_channel ch = (\<lambda>(ks, c) m. (ks, m\<lparr>ts_channels := (ts_channels m)(ch := c)\<rparr>))"

fun router_process_event ::
  "('k, 'x) sim_env \<Rightarrow> ('c, 'k) oneshot_code \<Rightarrow> client_event \<Rightarrow> ('c, 'k) tower_state \<times> 'x \<Rightarrow> ('c, 'k) tower_state \<times> 'x"
where
  "router_process_event E Ch (ResponseReceived response) (m, x) =
     (let m = m\<lparr>ts_current_load := ts_current_load m - 1\<rparr>;
          a = rs_attempt_id response;
          (ks, m) =
            (case ts_pending_responses m a of
               Some ch \<Rightarrow>
                 set_channel ch (oc_send Ch response (ts_channels m ch))
                   (m\<lparr>ts_pending_responses := (ts_pending_responses m)(a := None)\<rparr>)
             | None \<Rightarrow> ([], m));
          x = wake_wakers E ks x;
          wakers = ts_wakers m
      in (m\<lparr>ts_wakers := []\<rparr>, wake_wakers E wakers x))"
| "router_process_event E Ch SendRequest y = y"
| "router_process_event E Ch (RequestTimeout _ _) y = y"
| "router_process_event E Ch (RetryRequest _) y = y"

section \<open>Handle\<close>

definition tower_has_capacity :: "tower_handle \<Rightarrow> ('c, 'k) tower_state \<Rightarrow> bool" where
  "tower_has_capacity h m \<longleftrightarrow> ts_current_load m < th_capacity h"

definition tower_register_waker :: "'k \<Rightarrow> ('c, 'k) tower_state \<Rightarrow> ('c, 'k) tower_state" where
  "tower_register_waker k m = m\<lparr>ts_wakers := ts_wakers m @ [k]\<rparr>"

text \<open>A sender that was stored under the same identifier before is dropped.\<close>

definition schedule_request ::
  "('k, ('ev, 't, 'v, 'z) world_scheme) sim_env \<Rightarrow> ('c, 'k) oneshot_code \<Rightarrow> (server_event \<Rightarrow> 'ev) \<Rightarrow> tower_handle
    \<Rightarrow> request_attempt \<Rightarrow> nat \<Rightarrow> ('c, 'k) tower_state \<times> ('ev, 't, 'v, 'z) world_scheme
    \<Rightarrow> ('c, 'k) tower_state \<times> ('ev, 't, 'v, 'z) world_scheme"
where
  "schedule_request E Ch emb h attempt tx = (\<lambda>(m, x).
     let m = m\<lparr>ts_current_load := ts_current_load m + 1\<rparr>;
         (ks, m) =
           (case ts_pending_responses m (at_id attempt) of
              Some old \<Rightarrow> set_channel old (oc_drop_sender Ch (ts_channels m old)) m
            | None \<Rightarrow> ([], m));
         m = m\<lparr>ts_pending_responses := (ts_pending_responses m)(at_id attempt \<mapsto> tx)\<rparr>;
         x = wake_wakers E ks x;
         ev = emb (ProcessRequest attempt (th_router_key h))
     in (m, if in_scheduler_context x then defer_wake (th_server_key h) ev x
            else schedule zero (th_server_key h) ev x))"

definition create_request_attempt :: "tower_request \<Rightarrow> ('c, 'k) tower_state \<Rightarrow> request_attempt \<times> ('c, 'k) tower_state" where
  "create_request_attempt req m =
     (case ex_retry req of
        Some md \<Rightarrow>
          (request_attempt_new (word_of_nat (ts_next_attempt_id m)) (rm_original_request_id md) (rm_attempt_number md)
             (from_duration 0) (serialize_http_request (http_request.truncate req)),
           m\<lparr>ts_next_attempt_id := ts_next_attempt_id m + 1\<rparr>)
      | None \<Rightarrow>
          (request_attempt_new (word_of_nat (ts_next_attempt_id m)) (word_of_nat (ts_next_request_id m)) 1
             (from_duration 0) (serialize_http_request (http_request.truncate req)),
           m\<lparr>ts_next_request_id := ts_next_request_id m + 1, ts_next_attempt_id := ts_next_attempt_id m + 1\<rparr>))"

section \<open>Service\<close>

definition des_service_ready ::
  "'k \<Rightarrow> tower_handle \<Rightarrow> ('c, 'k) tower_state \<times> 'x \<Rightarrow> (service_error + unit) poll \<times> tower_handle \<times> ('c, 'k) tower_state \<times> 'x"
where
  "des_service_ready k h = (\<lambda>(m, x).
     if tower_has_capacity h m then (Ready (Inr ()), h, m, x) else (Pending, h, tower_register_waker k m, x))"

text \<open>The future is the receiver of the channel, represented by the channel's number.\<close>

definition des_service_call ::
  "('k, ('ev, 't, 'v, 'z) world_scheme) sim_env \<Rightarrow> ('c, 'k) oneshot_code \<Rightarrow> (server_event \<Rightarrow> 'ev) \<Rightarrow> tower_request
    \<Rightarrow> tower_handle \<Rightarrow> ('c, 'k) tower_state \<times> ('ev, 't, 'v, 'z) world_scheme
    \<Rightarrow> nat \<times> tower_handle \<times> ('c, 'k) tower_state \<times> ('ev, 't, 'v, 'z) world_scheme"
where
  "des_service_call E Ch emb req h = (\<lambda>(m, x).
     let (attempt, m) = create_request_attempt req m;
         ch = ts_next_channel m;
         m = m\<lparr>ts_next_channel := ch + 1, ts_channels := (ts_channels m)(ch := oc_channel Ch)\<rparr>;
         (m, x) = schedule_request E Ch emb h attempt ch (m, x)
     in (ch, h, m, x))"

definition des_service_poll ::
  "('c, 'k) oneshot_code \<Rightarrow> (16 word \<Rightarrow> 16 word option) \<Rightarrow> 'k \<Rightarrow> nat \<Rightarrow> ('c, 'k) tower_state \<times> 'x
    \<Rightarrow> (service_error + tower_response) poll \<times> nat \<times> ('c, 'k) tower_state \<times> 'x"
where
  "des_service_poll Ch from_u16 k ch = (\<lambda>(m, x).
     let (p, c) = oc_poll Ch k (ts_channels m ch); m = m\<lparr>ts_channels := (ts_channels m)(ch := c)\<rparr>
     in case p of
          Ready (Inr response) \<Rightarrow> (Ready (Inr (response_to_http from_u16 response)), ch, m, x)
        | Ready (Inl _) \<Rightarrow> (Ready (Inl Cancelled), ch, m, x)
        | Pending \<Rightarrow> (Pending, ch, m, x))"

definition des_service ::
  "('k, ('ev, 't, 'v, 'z) world_scheme) sim_env \<Rightarrow> ('c, 'k) oneshot_code \<Rightarrow> (server_event \<Rightarrow> 'ev)
    \<Rightarrow> (16 word \<Rightarrow> 16 word option)
    \<Rightarrow> ('k, tower_handle, ('c, 'k) tower_state \<times> ('ev, 't, 'v, 'z) world_scheme, tower_request, nat, tower_response) service_code"
where
  "des_service E Ch emb from_u16 =
     \<lparr>poll_ready = des_service_ready, call_service = des_service_call E Ch emb,
      poll_future = des_service_poll Ch from_u16,
      drop_future = (\<lambda>ch (m, x). (m\<lparr>ts_channels := (ts_channels m)(ch := oc_drop_receiver Ch (ts_channels m ch))\<rparr>, x)),
      clone_service = id\<rparr>"

section \<open>Invariant\<close>

text \<open>
  While fewer than \<open>2 ^ 64\<close> attempts have been made, the load is the number of attempts without
  a response, and tasks wait only while it reaches the capacity.
\<close>

definition load_ok :: "u64 \<Rightarrow> ('c, 'k) tower_state \<Rightarrow> bool" where
  "load_ok cap m \<longleftrightarrow>
     0 < ts_next_attempt_id m \<and>
     (ts_next_attempt_id m \<le> 2 ^ 64 \<longrightarrow>
        dom (ts_pending_responses m) \<subseteq> word_of_nat ` {1..<ts_next_attempt_id m} \<and>
        ts_current_load m = word_of_nat (card (dom (ts_pending_responses m))) \<and>
        (ts_wakers m \<noteq> [] \<longrightarrow> cap \<le> ts_current_load m))"

definition tower_inv :: "u64 \<Rightarrow> tower_handle multiset \<Rightarrow> nat multiset \<Rightarrow> ('c, 'k) tower_state \<times> 'x \<Rightarrow> bool" where
  "tower_inv cap H F = (\<lambda>(m, x). (\<forall>h\<in>#H. th_capacity h = cap) \<and> load_ok cap m)"

lemma set_channel_fields [simp]:
  "ts_pending_responses (snd (set_channel ch z m)) = ts_pending_responses m"
  "ts_current_load (snd (set_channel ch z m)) = ts_current_load m"
  "ts_wakers (snd (set_channel ch z m)) = ts_wakers m"
  "ts_next_attempt_id (snd (set_channel ch z m)) = ts_next_attempt_id m"
  by (simp_all add: set_channel_def split: prod.splits)

lemma attempt_ids_distinct:
  "n < 2 ^ 64 \<Longrightarrow> (word_of_nat n :: u64) \<notin> word_of_nat ` {1..<n}"
  by (auto simp: unat_of_nat dest!: arg_cong [where f = unat])

lemma pending_finite: "dom p \<subseteq> word_of_nat ` {1..<n} \<Longrightarrow> finite (dom p)"
  by (rule finite_subset) auto

lemma pending_card:
  assumes "dom p \<subseteq> (word_of_nat ` {1..<n} :: u64 set)" "n \<le> 2 ^ 64"
  shows "unat (word_of_nat (card (dom p)) :: u64) = card (dom p) \<and> card (dom p) \<le> n - 1"
proof -
  have "card (dom p) \<le> card (word_of_nat ` {1..<n} :: u64 set)" using assms(1) by (simp add: card_mono)
  also have "\<dots> \<le> card {1..<n}" by (rule card_image_le) simp
  finally have c: "card (dom p) \<le> n - 1" by simp
  show ?thesis
  proof (cases "n = 0")
    case True
    with assms(1) show ?thesis by simp
  next
    case False
    with c assms(2) have "card (dom p) < 2 ^ 64" by linarith
    with c show ?thesis by (simp add: unat_of_nat)
  qed
qed

text \<open>A new attempt is added to those without a response.\<close>

lemma load_ok_add:
  assumes "load_ok cap m" "ts_next_attempt_id m' = ts_next_attempt_id m + 1"
    and "ts_pending_responses m' = (ts_pending_responses m)(word_of_nat (ts_next_attempt_id m) \<mapsto> ch)"
    and "ts_current_load m' = ts_current_load m + 1" "ts_wakers m' = ts_wakers m"
  shows "load_ok cap m'"
proof -
  let ?n = "ts_next_attempt_id m" and ?D = "dom (ts_pending_responses m)"
  have "dom (ts_pending_responses m') \<subseteq> word_of_nat ` {1..<Suc ?n} \<and>
      ts_current_load m' = word_of_nat (card (dom (ts_pending_responses m'))) \<and>
      (ts_wakers m' \<noteq> [] \<longrightarrow> cap \<le> ts_current_load m')" if n: "Suc ?n \<le> 2 ^ 64"
  proof -
    from assms(1) n have D: "?D \<subseteq> word_of_nat ` {1..<?n}" and l: "ts_current_load m = word_of_nat (card ?D)"
      and w: "ts_wakers m \<noteq> [] \<longrightarrow> cap \<le> ts_current_load m" by (auto simp: load_ok_def)
    from n attempt_ids_distinct [of ?n] D have "(word_of_nat ?n :: u64) \<notin> ?D" by auto
    then have c: "card (dom (ts_pending_responses m')) = Suc (card ?D)"
      using pending_finite [OF D] by (simp add: assms(3))
    from pending_card [OF D] n have "unat (ts_current_load m) + 1 < 2 ^ 64"
      by (simp add: l) linarith
    then have "unat (ts_current_load m + 1) = unat (ts_current_load m) + 1"
      by (subst unat_word_ariths(1)) simp
    with w have "ts_wakers m' \<noteq> [] \<longrightarrow> cap \<le> ts_current_load m'"
      by (auto simp: assms word_le_nat_alt)
    moreover have "dom (ts_pending_responses m') \<subseteq> word_of_nat ` {1..<Suc ?n}"
      using D assms(1) by (auto simp: assms(3) load_ok_def)
    ultimately show ?thesis using c l by (simp add: assms(4))
  qed
  then show ?thesis unfolding load_ok_def assms(2) Suc_eq_plus1 [symmetric] by blast
qed

lemma des_service_call_effect:
  assumes "des_service_call E Ch emb req h (m, x) = (ch, h', m', x')"
  shows "ts_next_attempt_id m' = ts_next_attempt_id m + 1" "ts_current_load m' = ts_current_load m + 1"
    "ts_wakers m' = ts_wakers m" "h' = h"
    "ts_pending_responses m' = (ts_pending_responses m)(word_of_nat (ts_next_attempt_id m) \<mapsto> ch)"
proof -
  let ?n = "ts_next_attempt_id m"
  define m1 where "m1 = snd (create_request_attempt req m)"
  have at: "at_id (fst (create_request_attempt req m)) = word_of_nat ?n"
    and m1: "ts_next_attempt_id m1 = ?n + 1" "ts_pending_responses m1 = ts_pending_responses m"
      "ts_current_load m1 = ts_current_load m" "ts_wakers m1 = ts_wakers m"
    by (simp_all add: m1_def create_request_attempt_def request_attempt_new_def split: option.splits)
  show "ts_next_attempt_id m' = ts_next_attempt_id m + 1" "ts_current_load m' = ts_current_load m + 1"
    "ts_wakers m' = ts_wakers m" "h' = h"
    "ts_pending_responses m' = (ts_pending_responses m)(word_of_nat (ts_next_attempt_id m) \<mapsto> ch)"
    using assms at m1
    by (auto simp: des_service_call_def schedule_request_def m1_def Let_def set_channel_def case_prod_beta
        split: option.splits)
qed

lemma des_service_call_ok:
  assumes "load_ok cap m" "des_service_call E Ch emb req h (m, x) = (ch, h', m', x')"
  shows "load_ok cap m' \<and> h' = h"
  using load_ok_add [OF assms(1)] des_service_call_effect [OF assms(2)] by blast

text \<open>A response removes one.\<close>

lemma router_response_ok:
  assumes "load_ok cap m" "rs_attempt_id r \<in> dom (ts_pending_responses m)"
    and "router_process_event E Ch (ResponseReceived r) (m, x) = (m', x')"
  shows "load_ok cap m' \<and> ts_wakers m' = []"
proof -
  let ?a = "rs_attempt_id r" and ?D = "dom (ts_pending_responses m)"
  from assms(2) obtain ch where ch: "ts_pending_responses m ?a = Some ch" by auto
  have m': "ts_pending_responses m' = (ts_pending_responses m)(?a := None)"
    "ts_current_load m' = ts_current_load m - 1" "ts_wakers m' = []" "ts_next_attempt_id m' = ts_next_attempt_id m"
    using assms(3) ch by (auto simp: Let_def case_prod_beta)
  have "ts_current_load m - 1 = word_of_nat (card (?D - {?a}))"
    if "?D \<subseteq> word_of_nat ` {1..<n}" "ts_current_load m = word_of_nat (card ?D)" for n
  proof -
    have "card ?D = Suc (card (?D - {?a}))" using card.remove [OF pending_finite [OF that(1)] assms(2)] .
    with that(2) show ?thesis by simp
  qed
  with assms(1) show ?thesis by (auto simp: load_ok_def m')
qed

lemma load_ok_register: "load_ok cap m \<Longrightarrow> cap \<le> ts_current_load m \<Longrightarrow> load_ok cap (tower_register_waker k m)"
  by (auto simp: load_ok_def tower_register_waker_def)

lemma load_ok_channels [simp]: "load_ok cap (m\<lparr>ts_channels := c\<rparr>) = load_ok cap m"
  by (simp add: load_ok_def)

lemma des_service_contract:
  fixes E :: "('k, ('ev, 't, 'v, 'z) world_scheme) sim_env" and Ch :: "('c, 'k) oneshot_code"
  shows "service_contract (lift_env E) (tower_inv cap) (des_service E Ch emb from_u16)"
proof
  fix h H F k p h' and x x' :: "('c, 'k) tower_state \<times> ('ev, 't, 'v, 'z) world_scheme"
  assume "tower_inv cap (add_mset h H) F x" "poll_ready (des_service E Ch emb from_u16) k h x = (p, h', x')"
  then show "tower_inv cap (add_mset h' H) F x'"
    by (auto simp: tower_inv_def des_service_def des_service_ready_def tower_has_capacity_def
        split: if_splits intro: load_ok_register simp: not_less)
next
  fix h H F q f h' and x x' :: "('c, 'k) tower_state \<times> ('ev, 't, 'v, 'z) world_scheme"
  assume "tower_inv cap (add_mset h H) F x" "call_service (des_service E Ch emb from_u16) q h x = (f, h', x')"
  then show "tower_inv cap (add_mset h' H) (add_mset f F) x'"
    by (cases x; cases x') (auto simp: tower_inv_def des_service_def dest: des_service_call_ok)
qed (auto simp: tower_inv_def des_service_def des_service_poll_def lift_env_defs
      split: prod.splits poll.splits sum.splits)

interpretation tower: service_contract "lift_env E" "tower_inv cap" "des_service E Ch emb from_u16"
  for E :: "('k, ('ev, 't, 'v, 'z) world_scheme) sim_env" and cap and Ch :: "('c, 'k) oneshot_code" and emb from_u16
  by (rule des_service_contract)

section \<open>Building a service\<close>

datatype 'd tower_component = RouterC | ServerC "'d server"

text \<open>
  \<open>build\<close> registers the router and the server. The server is wrapped with the layers by
  applying them to \<open>des_service\<close>; its service time is 100 ms unless one is given.
\<close>

definition tower_build ::
  "str \<Rightarrow> nat \<Rightarrow> 'd distribution option \<Rightarrow> 'c \<Rightarrow> ('ev, 't, 'v, 'z, 'p, 'd tower_component) simulation
    \<Rightarrow> tower_handle \<times> ('c, 'k) tower_state \<times> ('ev, 't, 'v, 'z, 'p, 'd tower_component) simulation"
where
  "tower_build name capacity dist ch sim =
     (let d = (case dist of Some d \<Rightarrow> d | None \<Rightarrow> Constant (duration_from_millis 100));
          (router_key, sim) = add_component RouterC sim;
          (server_key, sim) = add_component (ServerC (server_new name capacity d)) sim
      in (\<lparr>th_server_key = server_key, th_router_key = router_key, th_capacity = word_of_nat capacity\<rparr>,
          tower_state_new ch, sim))"

section \<open>Properties\<close>

text \<open>
  The rest of the program: the router gets the response to an attempt that has none yet, or
  something happens that does not concern the service.
\<close>

definition tower_other ::
  "('k, 'x) sim_env \<Rightarrow> ('c, 'k) oneshot_code \<Rightarrow> ('x \<Rightarrow> 'x \<Rightarrow> bool) \<Rightarrow> ('c, 'k) tower_state \<times> 'x
    \<Rightarrow> ('c, 'k) tower_state \<times> 'x \<Rightarrow> bool"
where
  "tower_other E Ch other y y' \<longleftrightarrow>
     (\<exists>r. rs_attempt_id r \<in> dom (ts_pending_responses (fst y)) \<and> y' = router_process_event E Ch (ResponseReceived r) y) \<or>
     (fst y' = fst y \<and> other (snd y) (snd y'))"

lemma tower_other_inv: "tower_inv cap H F y \<Longrightarrow> tower_other E Ch other y y' \<Longrightarrow> tower_inv cap H F y'"
  by (cases y; cases y') (auto simp: tower_inv_def tower_other_def dest: router_response_ok [OF _ domI sym])

lemma tower_start_inv: "tower_inv (th_capacity h) {#h#} {#} (tower_state_new c, x)"
  by (simp add: tower_inv_def load_ok_def tower_state_new_def)

text \<open>
  C17. However a service is used, its load is the number of requests that have no response yet, so it is
  ready exactly while there are fewer of these than its capacity; and tasks wait for it only while
  it is not ready. Every response wakes those that wait.
\<close>

theorem tower_load_accounting:
  assumes "service_run (des_service E Ch emb from_u16) (tower_other E Ch other)
      ({#h#}, {#}, tower_state_new c, x) (H, F, m, x')"
    and "ts_next_attempt_id m \<le> 2 ^ 64"
  shows "(fst (des_service_ready k h (m, x')) = Ready (Inr ()) \<longleftrightarrow>
      card (dom (ts_pending_responses m)) < unat (th_capacity h)) \<and>
    (ts_wakers m \<noteq> [] \<longrightarrow> fst (des_service_ready k h (m, x')) = Pending)"
proof -
  have "tower_inv (th_capacity h) H F (m, x')"
    by (rule tower.run_inv [OF assms(1) tower_start_inv]) (rule tower_other_inv)
  with assms(2) have D: "dom (ts_pending_responses m) \<subseteq> word_of_nat ` {1..<ts_next_attempt_id m}"
    and l: "ts_current_load m = word_of_nat (card (dom (ts_pending_responses m)))"
    and w: "ts_wakers m \<noteq> [] \<longrightarrow> th_capacity h \<le> ts_current_load m" by (auto simp: tower_inv_def load_ok_def)
  have "unat (ts_current_load m) = card (dom (ts_pending_responses m))"
    using pending_card [OF D assms(2)] by (simp add: l)
  with w show ?thesis
    by (auto simp: des_service_ready_def tower_has_capacity_def word_less_nat_alt word_le_nat_alt split: if_splits)
qed

text \<open>Channels as those of \<open>des-tokio\<close>, which follow the crate \<open>tokio\<close>.\<close>

definition oneshot_channels :: "((response, 'k) oneshot_state, 'k) oneshot_code" where
  "oneshot_channels =
     \<lparr>oc_channel = oneshot_channel, oc_send = (\<lambda>r c. snd (oneshot_send r c)), oc_drop_sender = oneshot_sender_drop,
      oc_poll = oneshot_poll, oc_drop_receiver = oneshot_receiver_drop\<rparr>"

definition demo_handle :: tower_handle where
  "demo_handle = \<lparr>th_server_key = 2, th_router_key = 1, th_capacity = 1\<rparr>"

theorem tower_load_accounting_witness:
  "\<forall>E emb from_u16 x. \<exists>F m x'.
    service_run (des_service E oneshot_channels emb from_u16) (tower_other E oneshot_channels (\<lambda>_ _. False))
      ({#demo_handle#}, {#}, tower_state_new oneshot_channel, (x :: (service_event, unit, unit) world)) ({#demo_handle#}, F, m, x') \<and>
    dom (ts_pending_responses m) = {1} \<and> fst (des_service_ready (5 :: nat) demo_handle (m, x')) = Pending"
proof (intro allI)
  fix E :: "(nat, (service_event, unit, unit) world) sim_env" and emb from_u16 x
  let ?C = "des_service E oneshot_channels emb from_u16"
  obtain f h' m x' where cl: "call_service ?C plain_request demo_handle (tower_state_new oneshot_channel, x) = (f, h', m, x')"
    using prod_cases4 by blast
  then have m: "h' = demo_handle" "dom (ts_pending_responses m) = {1}" "ts_next_attempt_id m = 2"
    by (auto simp: des_service_def des_service_call_def create_request_attempt_def plain_request_def schedule_request_def
        tower_state_new_def request_attempt_new_def Let_def split: if_splits)
  have run: "service_run ?C (tower_other E oneshot_channels (\<lambda>_ _. False))
      ({#demo_handle#}, {#}, tower_state_new oneshot_channel, x) ({#h'#}, {#f#}, m, x')"
    using run_call [OF _ cl] run_start by fastforce
  have "fst (des_service_ready 5 demo_handle (m, x')) \<noteq> Ready (Inr ())"
    using tower_load_accounting [OF run, of 5] m by (simp add: demo_handle_def)
  then have "fst (des_service_ready 5 demo_handle (m, x')) = Pending"
    by (auto simp: des_service_ready_def split: if_splits)
  with run m show "\<exists>F m x'. service_run ?C (tower_other E oneshot_channels (\<lambda>_ _. False))
      ({#demo_handle#}, {#}, tower_state_new oneshot_channel, x) ({#demo_handle#}, F, m, x') \<and>
      dom (ts_pending_responses m) = {1} \<and> fst (des_service_ready 5 demo_handle (m, x')) = Pending"
    by blast
qed

text \<open>
  The future of a call gets exactly the response the router received for its attempt, if the channel
  delivers what is sent on it.
\<close>

lemma tower_response_routed:
  assumes "ts_pending_responses m (rs_attempt_id r) = Some ch" "oc_send Ch r (ts_channels m ch) = (ks, c)"
    and "oc_poll Ch k c = (Ready (Inr r), c')"
    and "router_process_event E Ch (ResponseReceived r) (m, x) = (m', x')"
  shows "fst (des_service_poll Ch from_u16 k ch (m', x')) = Ready (Inr (response_to_http from_u16 r)) \<and>
    ts_pending_responses m' (rs_attempt_id r) = None"
  using assms by (auto simp: set_channel_def des_service_poll_def Let_def)





















text \<open>
  The code of an error is cut to sixteen bits before it becomes a status: an error whose code is
  \<open>2 ^ 16 + 200\<close> reaches the client as a success.
\<close>

theorem error_code_truncated:
  assumes "\<And>s. 100 \<le> s \<Longrightarrow> s < 1000 \<Longrightarrow> from_u16 s = Some s" and "rs_status r = RespError (2 ^ 16 + code) message"
    and "100 \<le> code" "code < 1000"
  shows "tr_status (response_to_http from_u16 r) = ucast code"
proof -
  have "unat (ucast (2 ^ 16 + code) :: 16 word) = unat code" "unat (ucast code :: 16 word) = unat code"
    using assms(3,4) by (simp_all add: unsigned_ucast_eq take_bit_eq_mod unat_word_ariths word_less_nat_alt word_le_nat_alt)
  then have "(ucast (2 ^ 16 + code) :: 16 word) = ucast code" by (simp add: word_unat_eq_iff)
  moreover have "100 \<le> (ucast code :: 16 word)" "(ucast code :: 16 word) < 1000"
    using assms(3,4) \<open>unat (ucast code :: 16 word) = unat code\<close> by (simp_all add: word_less_nat_alt word_le_nat_alt)
  ultimately show ?thesis using assms(1,2) by (simp add: response_to_http_def)
qed

theorem error_code_truncated_witness:
  "tr_status (response_to_http Some (response_error 1 1 zero (2 ^ 16 + 200) ''failed'')) = 200"
  using error_code_truncated [of Some "response_error 1 1 zero (2 ^ 16 + 200) ''failed''" 200 "''failed''"]
  by (simp add: response_error_def)

text \<open>
  A retried request changes its identity: its first attempt has the next identifier of the service,
  its second one that of the retry layer's own counter.
\<close>

theorem retry_changes_request_id:
  assumes "ex_retry req = None" "rt_metadata f = None" "future_retry_request f n = (req', f', n')"
  shows "at_request_id (fst (create_request_attempt req m)) = word_of_nat (ts_next_request_id m) \<and>
    at_request_id (fst (create_request_attempt req' m')) = n \<and> at_number (fst (create_request_attempt req' m')) = 2"
  using assms by (auto simp: create_request_attempt_def request_attempt_new_def future_retry_request_def
      create_retry_request_def add_retry_metadata_def next_attempt_def retry_metadata_new_def next_retry_attempt_id_def)

end
