(* ===== verification/Trace.thy ===== *)
theory Trace
  imports Async_Runtime Concurrency "HOL-Library.AList"
begin

text \<open>
  \<open>des-explore/src/trace.rs\<close>, \<open>schedule_explore.rs\<close> and \<open>concurrency.rs\<close>: the trace of a
  run, the scheduling decisions read off a trace, the scripts that force decisions, and the
  validator of concurrency events. Floating-point numbers are values of a type \<open>'f\<close>; the
  counters of decisions are natural numbers, as the identifiers they count are. The text of
  an identifier comes from the \<open>uuid\<close> crate and is a parameter \<open>show_uuid\<close>.
\<close>

section \<open>Traces\<close>

datatype 'f draw_value = DF64 'f | DU64 u64 | DBool bool | DString string | DBytes "8 word list"

record 'f random_draw =
  rd_time_nanos :: "u64 option"
  rd_tag :: string
  rd_site_id :: u64
  rd_value :: "'f draw_value"

datatype frontier_kind = KComponent | KTask

record frontier_entry =
  en_seq :: nat
  en_kind :: frontier_kind
  en_component_id :: "string option"
  en_task_id :: "string option"

record scheduler_decision =
  sd_time_nanos :: u64
  sd_chosen_index :: usize
  sd_chosen_seq :: "nat option"
  sd_frontier_seqs :: "nat list"
  sd_frontier :: "frontier_entry list"

record async_runtime_decision =
  ad_time_nanos :: u64
  ad_chosen_index :: usize
  ad_chosen_task_id :: "nat option"
  ad_ready_task_ids :: "nat list"

datatype atomic_ordering = ORelaxed | OAcquire | ORelease | OAcqRel | OSeqCst

datatype concurrency_event_kind =
  KMutexContended u64 usize
| KMutexAcquire u64
| KMutexRelease u64
| KAtomicLoad u64 atomic_ordering u64
| KAtomicStore u64 atomic_ordering u64
| KAtomicFetchAdd u64 atomic_ordering u64 u64 u64
| KAtomicCompareExchange u64 atomic_ordering atomic_ordering u64 u64 u64 bool

record concurrency_trace_event =
  ct_time_nanos :: "u64 option"
  ct_task_id :: u64
  ct_event :: concurrency_event_kind

datatype 'f trace_event =
  RandomDraw "'f random_draw"
| SchedulerDecision scheduler_decision
| AsyncRuntimeDecision async_runtime_decision
| ConcurrencyObserved concurrency_trace_event

record trace_meta =
  tm_seed :: u64
  tm_scenario :: string

record 'f trace =
  tr_meta :: trace_meta
  tr_events :: "'f trace_event list"

definition trace_new :: "trace_meta \<Rightarrow> 'f trace" where
  "trace_new meta = \<lparr>tr_meta = meta, tr_events = []\<rparr>"

definition trace_record :: "'f trace_event \<Rightarrow> 'f trace \<Rightarrow> 'f trace" where
  "trace_record event tr = tr\<lparr>tr_events := tr_events tr @ [event]\<rparr>"

text \<open>The \<open>filter_map\<close> with which every replay reads its own kind of event from a trace.\<close>

fun scheduler_decisions :: "'f trace_event list \<Rightarrow> scheduler_decision list" where
  "scheduler_decisions [] = []"
| "scheduler_decisions (SchedulerDecision d # es) = d # scheduler_decisions es"
| "scheduler_decisions (_ # es) = scheduler_decisions es"

fun async_decisions :: "'f trace_event list \<Rightarrow> async_runtime_decision list" where
  "async_decisions [] = []"
| "async_decisions (AsyncRuntimeDecision d # es) = d # async_decisions es"
| "async_decisions (_ # es) = async_decisions es"

fun random_draws :: "'f trace_event list \<Rightarrow> 'f random_draw list" where
  "random_draws [] = []"
| "random_draws (RandomDraw d # es) = d # random_draws es"
| "random_draws (_ # es) = random_draws es"

fun concurrency_events :: "'f trace_event list \<Rightarrow> concurrency_trace_event list" where
  "concurrency_events [] = []"
| "concurrency_events (ConcurrencyObserved e # es) = e # concurrency_events es"
| "concurrency_events (_ # es) = concurrency_events es"

lemma projections_append [simp]:
  "scheduler_decisions (es @ es') = scheduler_decisions es @ scheduler_decisions es'"
  "async_decisions (es @ es') = async_decisions es @ async_decisions es'"
  "random_draws (es @ es') = random_draws es @ random_draws es'"
  "concurrency_events (es @ es') = concurrency_events es @ concurrency_events es'"
  by (induction es rule: scheduler_decisions.induct) simp_all

lemma projections_map [simp]:
  "scheduler_decisions (map SchedulerDecision ds) = ds" "async_decisions (map SchedulerDecision ds) = []"
  "async_decisions (map AsyncRuntimeDecision as) = as" "scheduler_decisions (map AsyncRuntimeDecision as) = []"
  by (induction ds) (simp_all, (induction as, simp_all)+)

section \<open>Decisions and scripts\<close>

datatype decision_kind = Frontier | TokioReady

record decision_key =
  dk_kind :: decision_kind
  dk_time_nanos :: u64
  dk_ordinal :: nat
  dk_choice_set :: "nat list"

text \<open>\<open>sort_unstable\<close> then \<open>dedup\<close>; on numbers an unstable sort is the sort.\<close>

definition normalize_ids :: "nat list \<Rightarrow> nat list" where
  "normalize_ids ids = remdups_adj (sort ids)"

definition normalize_key :: "decision_key \<Rightarrow> decision_key" where
  "normalize_key k = k\<lparr>dk_choice_set := normalize_ids (dk_choice_set k)\<rparr>"

definition decision_key_new :: "decision_kind \<Rightarrow> u64 \<Rightarrow> nat \<Rightarrow> nat list \<Rightarrow> decision_key" where
  "decision_key_new kd time_nanos ordinal choice_set =
     normalize_key \<lparr>dk_kind = kd, dk_time_nanos = time_nanos, dk_ordinal = ordinal,
                     dk_choice_set = choice_set\<rparr>"

record observed_decision =
  od_key :: decision_key
  od_chosen :: nat

text \<open>The script is a \<open>HashMap\<close>: an association list without duplicate keys.\<close>

type_synonym decision_script = "(decision_key \<times> nat) list"

definition script_insert :: "decision_key \<Rightarrow> nat \<Rightarrow> decision_script \<Rightarrow> nat option \<times> decision_script" where
  "script_insert key chosen script =
     (map_of script (normalize_key key), AList.update (normalize_key key) chosen script)"

definition script_get :: "decision_script \<Rightarrow> decision_key \<Rightarrow> nat option" where
  "script_get script key = map_of script (normalize_key key)"

definition script_from_observed :: "observed_decision list \<Rightarrow> decision_script" where
  "script_from_observed ds =
     fold (\<lambda>d script. snd (script_insert (od_key d) (od_chosen d) script)) ds []"

record decision_key_mismatch =
  mm_kind :: decision_kind
  mm_time_nanos :: u64
  mm_ordinal :: nat
  mm_expected_choice_set :: "nat list"
  mm_observed_choice_set :: "nat list"

definition match_decision ::
  "decision_script \<Rightarrow> decision_key \<Rightarrow> decision_key_mismatch + nat option"
where
  "match_decision script key =
     (let n = normalize_key key
      in case map_of script n of
           Some chosen \<Rightarrow> Inr (Some chosen)
         | None \<Rightarrow>
             (case find (\<lambda>k. dk_kind k = dk_kind n \<and> dk_time_nanos k = dk_time_nanos n
                              \<and> dk_ordinal k = dk_ordinal n) (map fst script) of
                None \<Rightarrow> Inr None
              | Some expected \<Rightarrow>
                  Inl \<lparr>mm_kind = dk_kind n, mm_time_nanos = dk_time_nanos n, mm_ordinal = dk_ordinal n,
                       mm_expected_choice_set = dk_choice_set expected,
                       mm_observed_choice_set = dk_choice_set n\<rparr>))"

definition choice_from_index :: "nat list \<Rightarrow> usize \<Rightarrow> nat option" where
  "choice_from_index choice_set i = (if i < length choice_set then Some (choice_set ! i) else None)"

definition scheduler_choice_set :: "scheduler_decision \<Rightarrow> nat list" where
  "scheduler_choice_set d =
     (if sd_frontier_seqs d \<noteq> [] then sd_frontier_seqs d
      else if sd_frontier d \<noteq> [] then map en_seq (sd_frontier d)
      else [])"

definition ready_task_choice_set :: "async_runtime_decision \<Rightarrow> nat list" where
  "ready_task_choice_set d = ad_ready_task_ids d"

text \<open>
  The loop over the events of a trace, with the two ordinals; \<open>None\<close> is the panic on an
  index that is out of bounds.
\<close>

fun extract_loop :: "nat \<Rightarrow> nat \<Rightarrow> 'f trace_event list \<Rightarrow> observed_decision list option" where
  "extract_loop fo tor [] = Some []"
| "extract_loop fo tor (SchedulerDecision d # es) =
     (let choice_set = scheduler_choice_set d
      in case (case sd_chosen_seq d of
                 Some c \<Rightarrow> Some c
               | None \<Rightarrow> choice_from_index choice_set (sd_chosen_index d)) of
           None \<Rightarrow> None
         | Some chosen \<Rightarrow>
             map_option
               (Cons \<lparr>od_key = decision_key_new Frontier (sd_time_nanos d) fo choice_set,
                      od_chosen = chosen\<rparr>)
               (extract_loop (fo + 1) tor es))"
| "extract_loop fo tor (AsyncRuntimeDecision d # es) =
     (let choice_set = ready_task_choice_set d
      in case (case ad_chosen_task_id d of
                 Some c \<Rightarrow> Some c
               | None \<Rightarrow> choice_from_index choice_set (ad_chosen_index d)) of
           None \<Rightarrow> None
         | Some chosen \<Rightarrow>
             map_option
               (Cons \<lparr>od_key = decision_key_new TokioReady (ad_time_nanos d) tor choice_set,
                      od_chosen = chosen\<rparr>)
               (extract_loop fo (tor + 1) es))"
| "extract_loop fo tor (_ # es) = extract_loop fo tor es"

definition extract_decisions :: "'f trace \<Rightarrow> observed_decision list option" where
  "extract_decisions tr = extract_loop 0 0 (tr_events tr)"

section \<open>Normalised keys\<close>

lemma distinct_remdups_adj_sorted: "sorted xs \<Longrightarrow> distinct (remdups_adj xs)"
  by (induction xs rule: remdups_adj.induct) (auto simp: order_antisym)

lemma normalize_ids_spec [simp]:
  "set (normalize_ids ids) = set ids" "sorted (normalize_ids ids)" "distinct (normalize_ids ids)"
  by (simp_all add: normalize_ids_def distinct_remdups_adj_sorted)

lemma normalize_ids_eq_iff: "normalize_ids a = normalize_ids b \<longleftrightarrow> set a = set b"
  by (metis normalize_ids_spec sorted_distinct_set_unique)

lemma normalize_ids_idem [simp]: "normalize_ids (normalize_ids a) = normalize_ids a"
  by (simp add: normalize_ids_eq_iff)

lemma normalize_key_idem [simp]: "normalize_key (normalize_key k) = normalize_key k"
  by (simp add: normalize_key_def)

lemma decision_key_new_fields [simp]:
  "dk_kind (decision_key_new kd t n c) = kd" "dk_time_nanos (decision_key_new kd t n c) = t"
  "dk_ordinal (decision_key_new kd t n c) = n"
  "dk_choice_set (decision_key_new kd t n c) = normalize_ids c"
  "normalize_key (decision_key_new kd t n c) = decision_key_new kd t n c"
  by (simp_all add: decision_key_new_def normalize_key_def)

text \<open>A key of \<open>decision_key_new\<close> identifies the kind, the time, the ordinal and the set of choices.\<close>

lemma decision_key_new_eq_iff:
  "decision_key_new kd t n c = decision_key_new kd' t' n' c' \<longleftrightarrow>
     kd = kd' \<and> t = t' \<and> n = n' \<and> set c = set c'"
  by (auto simp: decision_key_new_def normalize_key_def normalize_ids_eq_iff)

section \<open>Scripts built from a trace\<close>

lemma map_of_script_insert [simp]:
  "map_of (snd (script_insert k c script)) = (map_of script)(normalize_key k \<mapsto> c)"
  by (simp add: script_insert_def update_conv')

lemma map_of_script_from_observed:
  "map_of (script_from_observed ds) = map_of (rev (map (\<lambda>d. (normalize_key (od_key d), od_chosen d)) ds))"
proof -
  have "map_of (fold (\<lambda>d script. snd (script_insert (od_key d) (od_chosen d) script)) ds s) =
      map_of (rev (map (\<lambda>d. (normalize_key (od_key d), od_chosen d)) ds) @ s)" for s
    by (induction ds arbitrary: s) (simp_all add: map_add_def fun_eq_iff split: option.splits)
  from this [of "[]"] show ?thesis by (simp add: script_from_observed_def)
qed

text \<open>The choice an event of the trace stands for, and the decisions of one kind.\<close>

definition scheduler_choice :: "scheduler_decision \<Rightarrow> nat option" where
  "scheduler_choice d =
     (case sd_chosen_seq d of
        Some c \<Rightarrow> Some c
      | None \<Rightarrow> choice_from_index (scheduler_choice_set d) (sd_chosen_index d))"

definition async_choice :: "async_runtime_decision \<Rightarrow> nat option" where
  "async_choice d =
     (case ad_chosen_task_id d of
        Some c \<Rightarrow> Some c
      | None \<Rightarrow> choice_from_index (ready_task_choice_set d) (ad_chosen_index d))"

lemmas extract_simps = scheduler_choice_def async_choice_def Let_def

lemma extract_loop_frontier:
  "extract_loop fo tor es = Some ods \<Longrightarrow>
   map (\<lambda>x. (od_key x, Some (od_chosen x))) (filter (\<lambda>x. dk_kind (od_key x) = Frontier) ods) =
   map (\<lambda>(n, d). (decision_key_new Frontier (sd_time_nanos d) n (scheduler_choice_set d), scheduler_choice d))
     (List.enumerate fo (scheduler_decisions es))"
  by (induction fo tor es arbitrary: ods rule: extract_loop.induct)
    (auto simp: extract_simps split: option.splits)

lemma extract_loop_ready:
  "extract_loop fo tor es = Some ods \<Longrightarrow>
   map (\<lambda>x. (od_key x, Some (od_chosen x))) (filter (\<lambda>x. dk_kind (od_key x) = TokioReady) ods) =
   map (\<lambda>(n, d). (decision_key_new TokioReady (ad_time_nanos d) n (ready_task_choice_set d), async_choice d))
     (List.enumerate tor (async_decisions es))"
  by (induction fo tor es arbitrary: ods rule: extract_loop.induct)
    (auto simp: extract_simps split: option.splits)

lemma extract_loop_normal:
  "extract_loop fo tor es = Some ods \<Longrightarrow> x \<in> set ods \<Longrightarrow> normalize_key (od_key x) = od_key x"
  by (induction fo tor es arbitrary: ods rule: extract_loop.induct)
    (auto simp: extract_simps split: option.splits)

text \<open>Extraction panics only on a decision without a choice.\<close>

lemma extract_decisions_total:
  "extract_decisions tr \<noteq> None \<longleftrightarrow>
     (\<forall>d\<in>set (scheduler_decisions (tr_events tr)). scheduler_choice d \<noteq> None) \<and>
     (\<forall>d\<in>set (async_decisions (tr_events tr)). async_choice d \<noteq> None)"
proof -
  have "extract_loop fo tor es \<noteq> None \<longleftrightarrow>
     (\<forall>d\<in>set (scheduler_decisions es). scheduler_choice d \<noteq> None) \<and>
     (\<forall>d\<in>set (async_decisions es). async_choice d \<noteq> None)" for fo tor and es :: "'a trace_event list"
    by (induction fo tor es rule: extract_loop.induct) (auto simp: extract_simps split: option.splits)
  then show ?thesis by (simp add: extract_decisions_def)
qed

text \<open>
  The script built from a trace answers for the decision with ordinal \<open>n\<close> of a kind exactly
  what the \<open>n\<close>-th recorded decision of this kind chose, if the time and the choices agree.
\<close>

lemma script_lookup:
  assumes kd: "map (\<lambda>x. (od_key x, Some (od_chosen x))) (filter (\<lambda>x. dk_kind (od_key x) = kd) ods) =
      map (\<lambda>(n, d). (decision_key_new kd (tm d) n (cs d), ch d)) (List.enumerate 0 ds)"
    and norm: "\<And>x. x \<in> set ods \<Longrightarrow> normalize_key (od_key x) = od_key x"
  shows "script_get (script_from_observed ods) (decision_key_new kd t n c) =
    (if n < length ds \<and> tm (ds ! n) = t \<and> set (cs (ds ! n)) = set c then ch (ds ! n) else None)"
proof -
  let ?k = "decision_key_new kd t n c"
  let ?e = "\<lambda>x. (od_key x, od_chosen x)"
  have n: "map (\<lambda>d. (normalize_key (od_key d), od_chosen d)) ods = map ?e ods"
    using norm by simp
  have get: "script_get (script_from_observed ods) ?k = map_of (rev (map ?e ods)) ?k"
    unfolding script_get_def map_of_script_from_observed n by simp
  have split: "map_of (rev (map ?e xs)) ?k = map_of (rev (map ?e (filter (\<lambda>x. dk_kind (od_key x) = kd) xs))) ?k"
    for xs by (induction xs rule: rev_induct) (auto dest: arg_cong [where f = dk_kind])
  have opt: "map_of (rev (map ?e xs)) ?k = Option.bind (map_of (rev (map (\<lambda>x. (od_key x, Some (od_chosen x))) xs)) ?k) id"
    for xs by (induction xs rule: rev_induct) auto
  have "map_of (rev (map (\<lambda>(n, d). (decision_key_new kd (tm d) n (cs d), ch d)) (List.enumerate 0 ds))) ?k =
      (if n < length ds \<and> tm (ds ! n) = t \<and> set (cs (ds ! n)) = set c then Some (ch (ds ! n)) else None)"
    by (induction ds rule: rev_induct)
      (auto simp: enumerate_append_eq decision_key_new_eq_iff nth_append)
  then show ?thesis
    using trans [OF get trans [OF split [of ods] opt]] unfolding kd by simp
qed

lemma frontier_script_lookup:
  assumes "extract_decisions tr = Some ods"
  shows "script_get (script_from_observed ods) (decision_key_new Frontier t n c) =
    (let ds = scheduler_decisions (tr_events tr)
     in if n < length ds \<and> sd_time_nanos (ds ! n) = t \<and> set (scheduler_choice_set (ds ! n)) = set c
        then scheduler_choice (ds ! n) else None)"
  using script_lookup [OF extract_loop_frontier, of 0 "tr_events tr" ods t n c] assms
    extract_loop_normal [of 0 0 "tr_events tr" ods]
  by (simp add: extract_decisions_def Let_def)

lemma ready_script_lookup:
  assumes "extract_decisions tr = Some ods"
  shows "script_get (script_from_observed ods) (decision_key_new TokioReady t n c) =
    (let ds = async_decisions (tr_events tr)
     in if n < length ds \<and> ad_time_nanos (ds ! n) = t \<and> set (ready_task_choice_set (ds ! n)) = set c
        then async_choice (ds ! n) else None)"
  using script_lookup [OF extract_loop_ready, of 0 "tr_events tr" ods t n c] assms
    extract_loop_normal [of 0 0 "tr_events tr" ods]
  by (simp add: extract_decisions_def Let_def)

end
