(* ===== verification/Frontier_Replay.thy ===== *)
theory Frontier_Replay
  imports Trace Executor
begin

text \<open>
  \<open>des-explore/src/frontier.rs\<close>: the frontier policies that record their choices in a trace,
  replay the choices of a trace, or force the choices of a script. The recorder that a policy
  shares with the other recorders of a run is part of its state; the others only append
  events of their own kinds to it, which no replay of frontier choices reads.
\<close>

section \<open>Recording\<close>

record ('p, 'f) recording =
  rp_inner :: 'p
  rp_recorder :: "'f trace"

record ('p, 'f) exploration = "('p, 'f) recording" +
  ex_script :: "decision_script option"
  ex_next_ordinal :: nat

definition recording_new :: "'p \<Rightarrow> 'f trace \<Rightarrow> ('p, 'f) recording" where
  "recording_new inner0 recorder = \<lparr>rp_inner = inner0, rp_recorder = recorder\<rparr>"

definition exploration_new :: "'p \<Rightarrow> decision_script option \<Rightarrow> 'f trace \<Rightarrow> ('p, 'f) exploration" where
  "exploration_new inner0 script recorder =
     \<lparr>rp_inner = inner0, rp_recorder = recorder, ex_script = script, ex_next_ordinal = 0\<rparr>"

fun kind_to_trace :: "frontier_event_kind \<Rightarrow> frontier_kind" where
  "kind_to_trace FComponent = KComponent"
| "kind_to_trace FTask = KTask"

definition to_frontier_entry :: "(uuid \<Rightarrow> string) \<Rightarrow> frontier_event \<Rightarrow> frontier_entry" where
  "to_frontier_entry show_uuid event =
     \<lparr>en_seq = fe_seq event, en_kind = kind_to_trace (fe_kind event),
      en_component_id = map_option show_uuid (fe_component_id event),
      en_task_id = map_option (\<lambda>i. ''Task('' @ show_uuid i @ '')'') (fe_task_id event)\<rparr>"

text \<open>What both recording policies do once they have an index: clamp it and record it.\<close>

definition frontier_decision ::
  "(uuid \<Rightarrow> string) \<Rightarrow> simtime \<Rightarrow> frontier_event list \<Rightarrow> usize \<Rightarrow> scheduler_decision"
where
  "frontier_decision show_uuid t frontier chosen_index =
     (let sig = frontier_signature_new t frontier
      in \<lparr>sd_time_nanos = sig_time_nanos sig, sd_chosen_index = chosen_index,
          sd_chosen_seq = (if chosen_index < length frontier then Some (fe_seq (frontier ! chosen_index)) else None),
          sd_frontier_seqs = sig_frontier_seqs sig,
          sd_frontier = map (to_frontier_entry show_uuid) frontier\<rparr>)"

definition record_frontier_choice ::
  "(uuid \<Rightarrow> string) \<Rightarrow> simtime \<Rightarrow> frontier_event list \<Rightarrow> usize \<Rightarrow> 'f trace \<Rightarrow> usize \<times> 'f trace"
where
  "record_frontier_choice show_uuid t frontier chosen_index recorder =
     (let chosen_index = min chosen_index (length frontier - 1)
      in (chosen_index,
          trace_record (SchedulerDecision (frontier_decision show_uuid t frontier chosen_index)) recorder))"

definition recording_choose ::
  "(uuid \<Rightarrow> string) \<Rightarrow> 'p frontier_policy \<Rightarrow> ('p, 'f) recording frontier_policy"
where
  "recording_choose show_uuid pol rp t frontier =
     (let (chosen_index, p) = pol (rp_inner rp) t frontier;
          (chosen_index, recorder) = record_frontier_choice show_uuid t frontier chosen_index (rp_recorder rp)
      in (chosen_index, rp\<lparr>rp_inner := p, rp_recorder := recorder\<rparr>))"

text \<open>\<open>iter().position(|&s| s == x)\<close>.\<close>

fun position :: "'a \<Rightarrow> 'a list \<Rightarrow> nat option" where
  "position x [] = None"
| "position x (y # ys) = (if y = x then Some 0 else map_option Suc (position x ys))"

definition exploration_choose ::
  "(uuid \<Rightarrow> string) \<Rightarrow> 'p frontier_policy \<Rightarrow> ('p, 'f) exploration frontier_policy"
where
  "exploration_choose show_uuid pol rp t frontier =
     (let sig = frontier_signature_new t frontier;
          ordinal = ex_next_ordinal rp;
          rp = rp\<lparr>ex_next_ordinal := ordinal + 1\<rparr>;
          key = decision_key_new Frontier (sig_time_nanos sig) ordinal (sig_frontier_seqs sig);
          (chosen_index, p) =
            (case ex_script rp of
               None \<Rightarrow> pol (rp_inner rp) t frontier
             | Some script \<Rightarrow>
                 (case script_get script key of
                    Some chosen_seq \<Rightarrow>
                      (case position chosen_seq (sig_frontier_seqs sig) of
                         Some pos \<Rightarrow> (pos, rp_inner rp)
                       | None \<Rightarrow> pol (rp_inner rp) t frontier)
                  | None \<Rightarrow> pol (rp_inner rp) t frontier));
          (chosen_index, recorder) = record_frontier_choice show_uuid t frontier chosen_index (rp_recorder rp)
      in (chosen_index, rp\<lparr>rp_inner := p, rp_recorder := recorder\<rparr>))"

section \<open>Replay\<close>

datatype replay_frontier_error =
  OutOfDecisions (fr_index: usize) (fr_time_nanos: u64) (fr_frontier_seqs: "nat list")
| TimeMismatch (fr_index: usize) (fr_expected_time: u64) (fr_actual_time: u64)
| FrontierMismatch (fr_index: usize) (fr_time_nanos: u64) (fr_expected: "nat list") (fr_actual: "nat list")
| ChosenSeqNotFound (fr_index: usize) (fr_time_nanos: u64) (fr_chosen: nat) (fr_actual: "nat list")
| ChosenIndexOutOfBounds (fr_index: usize) (fr_time_nanos: u64) (fr_chosen_index: usize) (fr_frontier_len: usize)

record replay_frontier =
  rf_decisions :: "scheduler_decision list"
  rf_next :: usize
  rf_error :: "replay_frontier_error option"

definition replay_frontier_from_trace_events :: "'f trace_event list \<Rightarrow> replay_frontier" where
  "replay_frontier_from_trace_events es =
     \<lparr>rf_decisions = scheduler_decisions es, rf_next = 0, rf_error = None\<rparr>"

definition replay_frontier_take_error :: "replay_frontier \<Rightarrow> replay_frontier_error option \<times> replay_frontier" where
  "replay_frontier_take_error q = (rf_error q, q\<lparr>rf_error := None\<rparr>)"

definition expected_seqs :: "scheduler_decision \<Rightarrow> nat list" where
  "expected_seqs d =
     (if sd_frontier_seqs d \<noteq> [] then sd_frontier_seqs d
      else if sd_frontier d \<noteq> [] then map en_seq (sd_frontier d)
      else [])"

definition replay_frontier_choose :: "replay_frontier frontier_policy" where
  "replay_frontier_choose q t frontier =
     (if rf_error q \<noteq> None then (0, q)
      else
        let index = rf_next q;
            sig = frontier_signature_new t frontier;
            actual_time = sig_time_nanos sig;
            actual_seqs = sig_frontier_seqs sig
        in if \<not> index < length (rf_decisions q)
           then (0, q\<lparr>rf_error := Some (OutOfDecisions index actual_time actual_seqs)\<rparr>)
           else
             let decision = rf_decisions q ! index;
                 q = q\<lparr>rf_next := index + 1\<rparr>;
                 expected = expected_seqs decision
             in if sd_time_nanos decision \<noteq> actual_time
                then (0, q\<lparr>rf_error := Some (TimeMismatch index (sd_time_nanos decision) actual_time)\<rparr>)
                else if expected \<noteq> [] \<and> normalize_ids expected \<noteq> normalize_ids actual_seqs
                then (0, q\<lparr>rf_error := Some (FrontierMismatch index (sd_time_nanos decision) expected actual_seqs)\<rparr>)
                else (case sd_chosen_seq decision of
                        Some chosen_seq \<Rightarrow>
                          (case position chosen_seq actual_seqs of
                             Some idx \<Rightarrow> (idx, q)
                           | None \<Rightarrow>
                               (0, q\<lparr>rf_error := Some (ChosenSeqNotFound index (sd_time_nanos decision) chosen_seq
                                                         actual_seqs)\<rparr>))
                      | None \<Rightarrow>
                          if frontier = [] then (0, q)
                          else (min (sd_chosen_index decision) (length frontier - 1),
                                if sd_chosen_index decision \<ge> length frontier
                                then q\<lparr>rf_error := Some (ChosenIndexOutOfBounds index (sd_time_nanos decision)
                                         (sd_chosen_index decision) (length frontier))\<rparr>
                                else q)))"

section \<open>Recorders and replayers of decisions\<close>

text \<open>
  The interface between the two halves of a replay: the recording side appends to its log a
  decision that describes the choice it returns, and the replaying side, standing at a
  decision that describes a choice among distinguishable candidates, returns that choice and
  moves on. \<open>taken d t xs i\<close>: the decision \<open>d\<close> describes the choice of index \<open>i\<close> among
  \<open>xs\<close> at time \<open>t\<close>; \<open>standing ds q\<close>: the replaying side has \<open>ds\<close> still to replay and has met
  no mismatch.
\<close>

locale decision_recorder =
  fixes rec :: "'r \<Rightarrow> simtime \<Rightarrow> 'x list \<Rightarrow> usize \<times> 'r"
    and log :: "'r \<Rightarrow> 'd list"
    and taken :: "'d \<Rightarrow> simtime \<Rightarrow> 'x list \<Rightarrow> usize \<Rightarrow> bool"
  assumes recorded: "rec p t xs = (i, p') \<Longrightarrow> xs \<noteq> [] \<Longrightarrow> \<exists>d. log p' = log p @ [d] \<and> taken d t xs i"

locale decision_replayer =
  fixes rep :: "'q \<Rightarrow> simtime \<Rightarrow> 'x list \<Rightarrow> usize \<times> 'q"
    and ident :: "'x \<Rightarrow> nat"
    and standing :: "'d list \<Rightarrow> 'q \<Rightarrow> bool"
    and taken :: "'d \<Rightarrow> simtime \<Rightarrow> 'x list \<Rightarrow> usize \<Rightarrow> bool"
  assumes replayed:
    "standing (d # ds) q \<Longrightarrow> taken d t xs i \<Longrightarrow> distinct (map ident xs) \<Longrightarrow>
     \<exists>q'. rep q t xs = (i, q') \<and> standing ds q'"

locale record_replay =
  decision_recorder rec log taken + decision_replayer rep ident standing taken
  for rec :: "'r \<Rightarrow> simtime \<Rightarrow> 'x list \<Rightarrow> usize \<times> 'r" and log :: "'r \<Rightarrow> 'd list"
    and taken :: "'d \<Rightarrow> simtime \<Rightarrow> 'x list \<Rightarrow> usize \<Rightarrow> bool"
    and rep :: "'q \<Rightarrow> simtime \<Rightarrow> 'x list \<Rightarrow> usize \<times> 'q" and ident :: "'x \<Rightarrow> nat"
    and standing :: "'d list \<Rightarrow> 'q \<Rightarrow> bool"
begin

text \<open>
  The two sides in lockstep: from \<open>p\<close> to \<open>p'\<close> the recording side logs some decisions, and a
  replaying side with these decisions in front of it does the same as \<open>same q q'\<close> says, and
  then stands behind them.
\<close>

definition lockstep :: "'r \<Rightarrow> 'r \<Rightarrow> ('q \<Rightarrow> 'q \<Rightarrow> bool) \<Rightarrow> bool" where
  "lockstep p p' same \<longleftrightarrow>
     (\<exists>ds. log p' = log p @ ds \<and>
        (\<forall>ds' q. standing (ds @ ds') q \<longrightarrow> (\<exists>q'. same q q' \<and> standing ds' q')))"

lemma lockstep_refl: "(\<And>q. same q q) \<Longrightarrow> lockstep p p same"
  by (auto simp: lockstep_def)

lemma lockstep_trans:
  assumes "lockstep p p1 same1" "lockstep p1 p2 same2"
    and "\<And>q q1 q2. same1 q q1 \<Longrightarrow> same2 q1 q2 \<Longrightarrow> same q q2"
  shows "lockstep p p2 same"
proof -
  obtain ds1 ds2 where l: "log p1 = log p @ ds1" "log p2 = log p1 @ ds2"
    and s: "\<And>ds' q. standing (ds1 @ ds') q \<Longrightarrow> \<exists>q'. same1 q q' \<and> standing ds' q'"
      "\<And>ds' q. standing (ds2 @ ds') q \<Longrightarrow> \<exists>q'. same2 q q' \<and> standing ds' q'"
    using assms(1,2) by (auto simp: lockstep_def)
  have "\<exists>q'. same q q' \<and> standing ds' q'" if "standing ((ds1 @ ds2) @ ds') q" for ds' q
    using s(1) [of "ds2 @ ds'" q] s(2) that assms(3) by (metis append_assoc)
  with l show ?thesis by (auto simp: lockstep_def intro!: exI [of _ "ds1 @ ds2"])
qed

lemma lockstep_whole:
  assumes "lockstep p p' same" "log p = []" "standing (log p') q"
  shows "\<exists>q'. same q q' \<and> standing [] q'"
proof -
  obtain ds where "log p' = log p @ ds" "\<forall>ds' q. standing (ds @ ds') q \<longrightarrow> (\<exists>q'. same q q' \<and> standing ds' q')"
    using assms(1) by (auto simp: lockstep_def)
  with assms(2,3) show ?thesis by (metis append_Nil append_Nil2)
qed

lemma lockstep_choice:
  assumes "rec p t xs = (i, p')" "xs \<noteq> []" "distinct (map ident xs)"
  shows "lockstep p p' (\<lambda>q q'. rep q t xs = (i, q'))"
proof -
  obtain d where "log p' = log p @ [d]" "taken d t xs i"
    using recorded [OF assms(1,2)] by blast
  then show ?thesis
    using replayed [OF _ _ assms(3)] by (auto simp: lockstep_def intro!: exI [of _ "[d]"])
qed

end

section \<open>Simulations in lockstep\<close>

lemma frontier_seqs_distinct:
  assumes "sched_ok s" "distinct (task_ids (events s))" "pop_live s = (Some e, s1)"
    and "collect_frontier (entry_time e) s1 = (others, s2)"
  shows "distinct (map fe_seq (map to_frontier_event (e # others)))"
proof -
  have "fe_seq (to_frontier_event x) = seq x" for x :: "'a event_entry"
    by (cases x) simp_all
  then have eq: "map fe_seq (map to_frontier_event xs) = map seq xs" for xs :: "'a event_entry list"
    by simp
  from frontier_spec [OF assms] have "e # others = filter (\<lambda>x. entry_time x = entry_time e) (live s)"
    by metis
  moreover have "distinct (map seq (live s))"
    using assms(1) by (simp add: sched_ok_def live_def distinct_map_filter)
  ultimately show ?thesis
    unfolding eq by (simp only: distinct_map_filter)
qed

locale frontier_record_replay =
  record_replay rec log taken rep fe_seq standing
  for rec :: "'r frontier_policy" and log :: "'r \<Rightarrow> 'd list"
    and taken :: "'d \<Rightarrow> simtime \<Rightarrow> frontier_event list \<Rightarrow> usize \<Rightarrow> bool"
    and rep :: "'q frontier_policy" and standing :: "'d list \<Rightarrow> 'q \<Rightarrow> bool"
begin

lemma pop_lockstep:
  assumes "sched_ok s" "distinct (task_ids (events s))" "pop_with_policy rec p s = (e, p', s')"
  shows "lockstep p p' (\<lambda>q q'. pop_with_policy rep q s = (e, q', s'))"
proof (cases "pop_live s")
  case (Pair x s1)
  show ?thesis
  proof (cases x)
    case None
    then show ?thesis
      using assms(3) Pair by (auto simp: pop_with_policy_def intro: lockstep_refl)
  next
    case (Some a)
    obtain others s2 where cf: "collect_frontier (entry_time a) s1 = (others, s2)" by fastforce
    note d = frontier_seqs_distinct [OF assms(1,2) Pair [unfolded Some] cf]
    show ?thesis
    proof (cases "others = []")
      case True
      then show ?thesis
        using assms(3) Pair Some cf
        by (auto simp: pop_with_policy_def Let_def split: option.splits intro: lockstep_refl)
    next
      case False
      let ?xs = "map to_frontier_event (a # others)"
      obtain i p1 where c: "rec p (entry_time a) ?xs = (i, p1)" by fastforce
      have p1: "p1 = p'"
        using assms(3) c Pair Some cf False
        by (auto simp: pop_with_policy_def Let_def split: option.splits)
      have "pop_with_policy rep q s = (e, q', s')" if "rep q (entry_time a) ?xs = (i, q')" for q q'
        using that assms(3) c Pair Some cf False
        by (auto simp: pop_with_policy_def Let_def split: option.splits)
      then show ?thesis
        using lockstep_choice [OF c _ d] unfolding p1 lockstep_def by blast
    qed
  qed
qed

lemma step_lockstep:
  assumes "sim_ok sim" "policy sim = rec" "step exec handle sim = Some (b, sim')"
  shows "lockstep (policy_state sim) (policy_state sim') (\<lambda>q q'.
     next_entry (set_frontier_policy rep q sim) = next_entry sim \<and>
     step exec handle (set_frontier_policy rep q sim) = Some (b, set_frontier_policy rep q' sim'))"
proof -
  obtain e p w where pop: "pop_with_policy rec (policy_state sim) (sched sim) = (e, p, w)"
    by (cases "pop_with_policy rec (policy_state sim) (sched sim)") auto
  have ok: "sched_ok (sched sim)" "distinct (task_ids (events (sched sim)))"
    using assms(1) by (auto simp: sim_ok_def tasks_inv_def)
  have p: "p = policy_state sim'"
    using assms(2,3) pop by (auto simp: step_def Let_def split: option.splits prod.splits)
  have "next_entry (set_frontier_policy rep q sim) = next_entry sim \<and>
     step exec handle (set_frontier_policy rep q sim) = Some (b, set_frontier_policy rep q' sim')"
    if "pop_with_policy rep q (sched sim) = (e, q', w)" for q q'
    using that pop assms(2,3)
    by (auto simp: step_def Let_def next_entry_def set_frontier_policy_def split: option.splits prod.splits)
  then show ?thesis
    using pop_lockstep [OF ok pop] unfolding p lockstep_def by blast
qed

lemma run_lockstep:
  assumes "sim_run exec handle sim es sim'" "sim_ok sim" "policy sim = rec" "ids_fit (sched sim')"
    and code: "simulation_code exec handle"
  shows "lockstep (policy_state sim) (policy_state sim') (\<lambda>q q'.
     sim_run exec handle (set_frontier_policy rep q sim) es (set_frontier_policy rep q' sim'))"
  using assms(1-4)
proof (induction rule: sim_run.induct)
  case (run_nil sim)
  show ?case by (rule lockstep_refl) (rule sim_run.run_nil)
next
  case (run_step sim e sim1 es sim2)
  have fit: "ids_fit (sched sim1)"
    by (rule simulation_code.run_ids_fit [OF code]) fact+
  note s = simulation_code.step_sound [OF code run_step.prems(1) run_step.hyps(2) fit]
  show ?case
  proof (rule lockstep_trans)
    show "lockstep (policy_state sim) (policy_state sim1) (\<lambda>q q'.
       next_entry (set_frontier_policy rep q sim) = next_entry sim \<and>
       step exec handle (set_frontier_policy rep q sim) = Some (True, set_frontier_policy rep q' sim1))"
      by (rule step_lockstep) fact+
    show "lockstep (policy_state sim1) (policy_state sim2) (\<lambda>q q'.
       sim_run exec handle (set_frontier_policy rep q sim1) es (set_frontier_policy rep q' sim2))"
      using s run_step.prems by (intro run_step.IH) simp_all
  qed (use run_step.hyps(1) in \<open>auto intro: sim_run.run_step\<close>)
next
  case (run_idle sim sim1 es sim2)
  have fit: "ids_fit (sched sim1)"
    by (rule simulation_code.run_ids_fit [OF code]) fact+
  note s = simulation_code.step_sound [OF code run_idle.prems(1) run_idle.hyps(2) fit]
  show ?case
  proof (rule lockstep_trans)
    show "lockstep (policy_state sim) (policy_state sim1) (\<lambda>q q'.
       next_entry (set_frontier_policy rep q sim) = next_entry sim \<and>
       step exec handle (set_frontier_policy rep q sim) = Some (False, set_frontier_policy rep q' sim1))"
      by (rule step_lockstep) fact+
    show "lockstep (policy_state sim1) (policy_state sim2) (\<lambda>q q'.
       sim_run exec handle (set_frontier_policy rep q sim1) es (set_frontier_policy rep q' sim2))"
      using s run_idle.prems by (intro run_idle.IH) simp_all
  qed (use run_idle.hyps(1) in \<open>auto intro: sim_run.run_idle\<close>)
qed

end

section \<open>The policies as recorders and replayers\<close>

definition frontier_log :: "('p, 'f, 'x) recording_scheme \<Rightarrow> scheduler_decision list" where
  "frontier_log p = scheduler_decisions (tr_events (rp_recorder p))"

definition frontier_taken ::
  "(uuid \<Rightarrow> string) \<Rightarrow> scheduler_decision \<Rightarrow> simtime \<Rightarrow> frontier_event list \<Rightarrow> usize \<Rightarrow> bool"
where
  "frontier_taken show_uuid d t xs i \<longleftrightarrow> i < length xs \<and> d = frontier_decision show_uuid t xs i"

definition frontier_standing :: "scheduler_decision list \<Rightarrow> replay_frontier \<Rightarrow> bool" where
  "frontier_standing ds q \<longleftrightarrow>
     rf_error q = None \<and> rf_next q \<le> length (rf_decisions q) \<and> drop (rf_next q) (rf_decisions q) = ds"

text \<open>
  The exploration policy with the script of a trace: it has the remaining decisions of the
  trace in front of it and has recorded the others.
\<close>

definition frontier_scripted ::
  "'g trace \<Rightarrow> scheduler_decision list \<Rightarrow> ('p, 'f) exploration \<Rightarrow> bool"
where
  "frontier_scripted tr ds q \<longleftrightarrow>
     (\<exists>ods. extract_decisions tr = Some ods \<and> ex_script q = Some (script_from_observed ods)) \<and>
     length (frontier_log q) = ex_next_ordinal q \<and>
     scheduler_decisions (tr_events tr) = frontier_log q @ ds"

lemma frontier_decision_fields [simp]:
  "sd_time_nanos (frontier_decision show_uuid t xs i) = simtime_to_nanos t"
  "sd_frontier_seqs (frontier_decision show_uuid t xs i) = map fe_seq xs"
  "i < length xs \<Longrightarrow> sd_chosen_seq (frontier_decision show_uuid t xs i) = Some (fe_seq (xs ! i))"
  by (simp_all add: frontier_decision_def frontier_signature_new_def Let_def)

lemma position_nth: "distinct xs \<Longrightarrow> i < length xs \<Longrightarrow> position (xs ! i) xs = Some i"
  by (induction xs arbitrary: i) (auto simp: nth_Cons split: nat.splits)

lemma record_frontier_choice_log:
  assumes "record_frontier_choice show_uuid t xs c tr = (i, tr')" "xs \<noteq> []"
  shows "tr_events tr' = tr_events tr @ [SchedulerDecision (frontier_decision show_uuid t xs i)] \<and>
    i < length xs \<and> i = min c (length xs - 1)"
  using assms by (cases xs) (auto simp: record_frontier_choice_def trace_record_def Let_def)

interpretation frontier_recording: decision_recorder
  "recording_choose show_uuid pol" frontier_log "frontier_taken show_uuid" for show_uuid pol
proof
  fix p p' :: "('a, 'b) recording" and t xs i
  assume "recording_choose show_uuid pol p t xs = (i, p')" "xs \<noteq> []"
  then show "\<exists>d. frontier_log p' = frontier_log p @ [d] \<and> frontier_taken show_uuid d t xs i"
    by (auto simp: recording_choose_def frontier_log_def frontier_taken_def split: prod.splits
        dest!: record_frontier_choice_log)
qed

interpretation frontier_exploring: decision_recorder
  "exploration_choose show_uuid pol" frontier_log "frontier_taken show_uuid" for show_uuid pol
proof
  fix p p' :: "('a, 'b) exploration" and t xs i
  assume "exploration_choose show_uuid pol p t xs = (i, p')" "xs \<noteq> []"
  then show "\<exists>d. frontier_log p' = frontier_log p @ [d] \<and> frontier_taken show_uuid d t xs i"
    by (auto simp: exploration_choose_def frontier_log_def frontier_taken_def Let_def split: prod.splits
        dest!: record_frontier_choice_log)
qed

interpretation frontier_replaying: decision_replayer
  replay_frontier_choose fe_seq frontier_standing "frontier_taken show_uuid" for show_uuid
proof
  fix d ds q t xs i
  assume st: "frontier_standing (d # ds) q" and tk: "frontier_taken show_uuid d t xs i"
    and di: "distinct (map fe_seq xs)"
  have nth: "rf_next q < length (rf_decisions q)" "rf_decisions q ! rf_next q = d"
    "drop (Suc (rf_next q)) (rf_decisions q) = ds"
    using st by (auto simp: frontier_standing_def drop_Suc tl_drop [symmetric] dest: nth_via_drop
        intro: linorder_not_le [THEN iffD1])
  have pos: "position (fe_seq (xs ! i)) (map fe_seq xs) = Some i"
    using position_nth [OF di, of i] tk by (simp add: frontier_taken_def)
  show "\<exists>q'. replay_frontier_choose q t xs = (i, q') \<and> frontier_standing ds q'"
    using st tk nth pos
    by (auto simp: replay_frontier_choose_def frontier_standing_def frontier_taken_def Let_def
        frontier_signature_new_def expected_seqs_def)
qed

interpretation frontier_scripting: decision_replayer
  "exploration_choose show_uuid pol" fe_seq "frontier_scripted tr" "frontier_taken show_uuid"
  for show_uuid pol and tr :: "'g trace"
proof
  fix d ds t xs i and q :: "('a, 'b) exploration"
  assume st: "frontier_scripted tr (d # ds) q" and tk: "frontier_taken show_uuid d t xs i"
    and di: "distinct (map fe_seq xs)"
  obtain ods where tr: "extract_decisions tr = Some ods"
      "ex_script q = Some (script_from_observed ods)" "length (frontier_log q) = ex_next_ordinal q"
      "scheduler_decisions (tr_events tr) = frontier_log q @ d # ds"
    using st by (auto simp: frontier_scripted_def)
  have i: "i < length xs" "xs \<noteq> []" and d: "d = frontier_decision show_uuid t xs i"
    using tk by (auto simp: frontier_taken_def)
  have "script_get (script_from_observed ods)
      (decision_key_new Frontier (simtime_to_nanos t) (ex_next_ordinal q) (map fe_seq xs)) = Some (fe_seq (xs ! i))"
    unfolding frontier_script_lookup [OF tr(1)] using tr(3,4) d i
    by (auto simp: Let_def scheduler_choice_set_def scheduler_choice_def nth_append)
  moreover have "position (fe_seq (xs ! i)) (map fe_seq xs) = Some i"
    using position_nth [OF di, of i] i by simp
  ultimately have "exploration_choose show_uuid pol q t xs =
      (i, q\<lparr>ex_next_ordinal := ex_next_ordinal q + 1,
           rp_recorder := trace_record (SchedulerDecision d) (rp_recorder q)\<rparr>)"
    using tr(2) i d
    by (simp add: exploration_choose_def Let_def frontier_signature_new_def record_frontier_choice_def)
  moreover have "frontier_scripted tr ds (q\<lparr>ex_next_ordinal := ex_next_ordinal q + 1,
           rp_recorder := trace_record (SchedulerDecision d) (rp_recorder q)\<rparr>)"
    using tr by (simp add: frontier_scripted_def frontier_log_def trace_record_def)
  ultimately show "\<exists>q'. exploration_choose show_uuid pol q t xs = (i, q') \<and> frontier_scripted tr ds q'"
    by blast
qed

interpretation recorded_replay: frontier_record_replay
  "recording_choose show_uuid pol" frontier_log "frontier_taken show_uuid"
  replay_frontier_choose frontier_standing for show_uuid pol ..

interpretation explored_script: frontier_record_replay
  "exploration_choose show_uuid pol" frontier_log "frontier_taken show_uuid"
  "exploration_choose show_uuid pol'" "frontier_scripted tr" for show_uuid pol pol' and tr :: "'g trace" ..

section \<open>Replayed runs\<close>

text \<open>
  A run under a recording frontier policy, whatever the policy it wraps, can be replayed: a
  simulation in the same state with the replay policy loaded from a trace with the recorded
  frontier decisions (and any events of other kinds) processes the same entries in the same
  order and ends in the same state; the replay uses every recorded decision and meets no
  mismatch.
\<close>

theorem recorded_run_replayed:
  assumes "simulation_code exec handle" and "sim_ok sim"
    and "policy sim = recording_choose show_uuid pol" and "policy_state sim = recording_new p (trace_new meta)"
    and "sim_run exec handle sim es sim'" and "ids_fit (sched sim')"
    and "scheduler_decisions evs = scheduler_decisions (tr_events (rp_recorder (policy_state sim')))"
  shows "\<exists>q. sim_run exec handle
       (set_frontier_policy replay_frontier_choose (replay_frontier_from_trace_events evs) sim) es
       (set_frontier_policy replay_frontier_choose q sim') \<and>
     rf_error q = None \<and> rf_next q = length (rf_decisions q)"
proof -
  have nil: "frontier_log (policy_state sim) = []"
    using assms(4) by (simp add: frontier_log_def recording_new_def trace_new_def)
  have "frontier_standing (frontier_log (policy_state sim')) (replay_frontier_from_trace_events evs)"
    using assms(7) by (simp add: frontier_standing_def frontier_log_def replay_frontier_from_trace_events_def)
  from recorded_replay.lockstep_whole [OF recorded_replay.run_lockstep [OF assms(5,2,3,6,1)] nil this]
  obtain q where "sim_run exec handle
      (set_frontier_policy replay_frontier_choose (replay_frontier_from_trace_events evs) sim) es
      (set_frontier_policy replay_frontier_choose q sim')" "frontier_standing [] q" by blast
  then show ?thesis by (auto simp: frontier_standing_def)
qed

text \<open>
  The same through scripts: the decisions extracted from the trace of an exploration run,
  turned into a script, reproduce the run under the exploration policy over any other base
  policy, and the trace of the second run has the same frontier decisions.
\<close>

theorem explored_run_scripted:
  assumes "simulation_code exec handle" and "sim_ok sim"
    and "policy sim = exploration_choose show_uuid pol"
    and "policy_state sim = exploration_new p script (trace_new meta)"
    and "sim_run exec handle sim es sim'" and "ids_fit (sched sim')"
    and "extract_decisions tr = Some ods"
    and "scheduler_decisions (tr_events tr) = scheduler_decisions (tr_events (rp_recorder (policy_state sim')))"
  shows "\<exists>q. sim_run exec handle
       (set_frontier_policy (exploration_choose show_uuid pol')
          (exploration_new p' (Some (script_from_observed ods)) (trace_new meta' :: 'g trace)) sim) es
       (set_frontier_policy (exploration_choose show_uuid pol') q sim') \<and>
     scheduler_decisions (tr_events (rp_recorder q)) = scheduler_decisions (tr_events tr)"
proof -
  let ?q = "exploration_new p' (Some (script_from_observed ods)) (trace_new meta' :: 'g trace)"
  have nil: "frontier_log (policy_state sim) = []"
    using assms(4) by (simp add: frontier_log_def exploration_new_def trace_new_def)
  have "frontier_scripted tr (frontier_log (policy_state sim')) ?q"
    using assms(7,8) by (simp add: frontier_scripted_def frontier_log_def exploration_new_def trace_new_def)
  from explored_script.lockstep_whole
    [OF explored_script.run_lockstep [where pol' = pol', OF assms(5,2,3,6,1)] nil this]
  obtain q where "sim_run exec handle (set_frontier_policy (exploration_choose show_uuid pol') ?q sim) es
      (set_frontier_policy (exploration_choose show_uuid pol') q sim')" "frontier_scripted tr [] q" by blast
  then show ?thesis
    by (intro exI [of _ q] conjI) (simp_all add: frontier_scripted_def frontier_log_def)
qed

text \<open>
  C40. A replay that stands at a recorded decision either finds the recorded time, the recorded
  set of candidates and the recorded choice among them, and then returns the index of that
  choice, whatever the order of the candidates; or it stores an error and returns index 0,
  and from then on every call returns index 0 and leaves the stored error as it is.
\<close>

theorem replay_mismatch_reported:
  assumes "rf_error q = None" and "rf_next q < length (rf_decisions q)" and "d = rf_decisions q ! rf_next q"
    and "sd_frontier_seqs d \<noteq> []" and "sd_chosen_seq d = Some c"
    and "replay_frontier_choose q t xs = (i, q')"
  shows "if sd_time_nanos d = simtime_to_nanos t \<and> set (sd_frontier_seqs d) = set (map fe_seq xs) \<and>
            c \<in> set (map fe_seq xs)
         then i < length xs \<and> fe_seq (xs ! i) = c \<and> q' = q\<lparr>rf_next := rf_next q + 1\<rparr>
         else i = 0 \<and> rf_error q' \<noteq> None \<and> replay_frontier_choose q' t' ys = (0, q')"
proof -
  have pos: "position c ys = None \<longleftrightarrow> c \<notin> set ys" for ys
    by (induction ys) auto
  have nth: "i < length ys \<and> ys ! i = c" if "position c ys = Some i" for ys i
    using that by (induction ys arbitrary: i) (auto split: if_splits)
  show ?thesis
    using assms nth [of "map fe_seq xs"] pos [of "map fe_seq xs"]
    by (auto simp: replay_frontier_choose_def Let_def frontier_signature_new_def expected_seqs_def
        normalize_ids_eq_iff split: option.splits if_splits)
qed

section \<open>Instances\<close>

text \<open>Two events for one component at the same time, and a policy that takes the last candidate.\<close>

definition tie_sim :: "'p frontier_policy \<Rightarrow> 'p
    \<Rightarrow> (nat, unit task, (unit, nat) task_value, unit, 'p, nat) simulation" where
  "tie_sim pol p =
     (let (k, sim) = add_component 0 (simulation_new 42 ())
      in set_frontier_policy pol p
           (sim\<lparr>sched := schedule (SimTime 5) k 0 (schedule (SimTime 5) k 0 (sched sim))\<rparr>))"

definition take_last :: "unit frontier_policy" where
  "take_last = uniform_random_choose (\<lambda>g n. (n - 1, g))"

definition tie_meta :: trace_meta where
  "tie_meta = \<lparr>tm_seed = 42, tm_scenario = ''tie''\<rparr>"

lemma tie_sim_ok: "sim_ok (tie_sim pol p)"
  by (simp add: tie_sim_def sim_new_eval sched_eval sim_ok_def sched_ok_def tasks_inv_def
      in_scheduler_context_def set_frontier_policy_def)

lemma tie_sim_policy [simp]: "policy (tie_sim pol p) = pol" "policy_state (tie_sim pol p) = p"
  by (simp_all add: tie_sim_def set_frontier_policy_def split_beta)

lemmas tie_eval = tie_sim_def sim_new_eval sched_eval step_eval count_handle_def ids_fit_def
  set_frontier_policy_def take_last_def uniform_random_choose_def

definition no_text :: "uuid \<Rightarrow> string" where
  "no_text u = []"

type_synonym 'p tie = "(nat, unit task, (unit, nat) task_value, unit, 'p, nat) simulation"

definition tie_recorded :: "(unit, unit) recording tie" where
  "tie_recorded = tie_sim (recording_choose no_text take_last) (recording_new () (trace_new tie_meta))"

lemma tie_recorded_run:
  "\<exists>es sim'. run_n (exec_task idle_code) count_handle (Suc (Suc 0)) tie_recorded = Some (es, sim') \<and>
     ids_fit (sched sim') \<and> map seq es = [2, 1] \<and>
     map sd_chosen_seq (scheduler_decisions (tr_events (rp_recorder (policy_state sim')))) = [Some 2]"
  by (simp add: tie_recorded_def tie_eval recording_choose_def recording_new_def record_frontier_choice_def
      trace_record_def trace_new_def frontier_decision_def frontier_signature_new_def)

theorem recorded_run_replayed_witness:
  "\<exists>es (sim' :: (unit, unit) recording tie) q. map seq es = [2, 1] \<and>
     sim_run (exec_task idle_code) count_handle
       (set_frontier_policy replay_frontier_choose
          (replay_frontier_from_trace_events (tr_events (rp_recorder (policy_state sim')))) tie_recorded) es
       (set_frontier_policy replay_frontier_choose q sim') \<and>
     rf_error q = None"
proof -
  from tie_recorded_run obtain es sim' where
    n: "run_n (exec_task idle_code) count_handle (Suc (Suc 0)) tie_recorded = Some (es, sim')"
    and fit: "ids_fit (sched sim')" and es: "map seq es = [2, 1]" by (elim exE conjE) (rule that)
  from recorded_run_replayed [OF count_handle_code tie_sim_ok tie_sim_policy run_n_run [OF n [unfolded tie_recorded_def], THEN conjunct1] fit refl,
      folded tie_recorded_def]
  show ?thesis
    using es by (elim exE conjE, intro exI conjI)
qed

definition tie_explored :: "(unit, unit) exploration tie" where
  "tie_explored = tie_sim (exploration_choose no_text take_last) (exploration_new () None (trace_new tie_meta))"

lemma tie_explored_run:
  "\<exists>es sim' ods. run_n (exec_task idle_code) count_handle (Suc (Suc 0)) tie_explored = Some (es, sim') \<and>
     ids_fit (sched sim') \<and> map seq es = [2, 1] \<and>
     extract_decisions (rp_recorder (policy_state sim')) = Some ods"
  by (simp add: tie_explored_def tie_eval exploration_choose_def exploration_new_def record_frontier_choice_def
      trace_record_def trace_new_def frontier_decision_def frontier_signature_new_def extract_decisions_def)

theorem explored_run_scripted_witness:
  "\<exists>es (sim' :: (unit, unit) exploration tie) ods q. map seq es = [2, 1] \<and>
     sim_run (exec_task idle_code) count_handle
       (set_frontier_policy (exploration_choose no_text fifo_choose)
          (exploration_new () (Some (script_from_observed ods)) (trace_new tie_meta :: unit trace)) tie_explored) es
       (set_frontier_policy (exploration_choose no_text fifo_choose) q sim')"
proof -
  from tie_explored_run obtain es sim' ods where
    n: "run_n (exec_task idle_code) count_handle (Suc (Suc 0)) tie_explored = Some (es, sim')"
    and fit: "ids_fit (sched sim')" and es: "map seq es = [2, 1]"
    and ods: "extract_decisions (rp_recorder (policy_state sim')) = Some ods" by (elim exE conjE) (rule that)
  from explored_run_scripted [OF count_handle_code tie_sim_ok tie_sim_policy run_n_run [OF n [unfolded tie_explored_def], THEN conjunct1] fit
      ods refl, folded tie_explored_def, where pol' = fifo_choose and p' = "()" and meta' = tie_meta and 'g = unit]
  show ?thesis
    using es by (elim exE conjE, intro exI conjI)
qed

theorem replay_mismatch_reported_witness:
  "replay_frontier_choose
     \<lparr>rf_decisions = [frontier_decision no_text (SimTime 5)
        [\<lparr>fe_seq = 1, fe_kind = FTask, fe_component_id = None, fe_task_id = None\<rparr>] 0],
      rf_next = 0, rf_error = None\<rparr> (SimTime 6) [] = (0, snd (replay_frontier_choose
     \<lparr>rf_decisions = [frontier_decision no_text (SimTime 5)
        [\<lparr>fe_seq = 1, fe_kind = FTask, fe_component_id = None, fe_task_id = None\<rparr>] 0],
      rf_next = 0, rf_error = None\<rparr> (SimTime 6) []))"
  using replay_mismatch_reported
    [of "\<lparr>rf_decisions = [frontier_decision no_text (SimTime 5)
        [\<lparr>fe_seq = 1, fe_kind = FTask, fe_component_id = None, fe_task_id = None\<rparr>] 0],
      rf_next = 0, rf_error = None\<rparr>", OF _ _ refl _ _ surjective_pairing, of 1 "SimTime 6" "[]"]
  by (simp add: prod_eq_iff)

end
