(* ===== verification/Ready_Replay.thy ===== *)
theory Ready_Replay
  imports Frontier_Replay Runtime_System
begin

text \<open>
  \<open>des-explore/src/ready_task.rs\<close>: the policies of the async runtime that record, replay or
  force the choice of the next ready task, as in \<open>Frontier_Replay\<close>. They live in the runtime
  component of a simulation, so a replayed run is one in which this component has another
  policy.
\<close>

section \<open>Policies\<close>

text \<open>The states are the ones of the frontier policies: a wrapped policy and a recorder.\<close>

definition ready_decision :: "simtime \<Rightarrow> nat list \<Rightarrow> usize \<Rightarrow> async_runtime_decision" where
  "ready_decision now ready chosen_index =
     (let sig = ready_task_signature_new now ready
      in \<lparr>ad_time_nanos = rs_time_nanos sig, ad_chosen_index = chosen_index,
          ad_chosen_task_id = (if chosen_index < length ready then Some (ready ! chosen_index) else None),
          ad_ready_task_ids = rs_ready_task_ids sig\<rparr>)"

definition record_ready_choice ::
  "simtime \<Rightarrow> nat list \<Rightarrow> usize \<Rightarrow> 'f trace \<Rightarrow> usize \<times> 'f trace"
where
  "record_ready_choice now ready chosen_index recorder =
     (let chosen_index = min chosen_index (length ready - 1)
      in (chosen_index,
          trace_record (AsyncRuntimeDecision (ready_decision now ready chosen_index)) recorder))"

definition recording_ready_choose :: "'p ready_policy \<Rightarrow> ('p, 'f) recording ready_policy" where
  "recording_ready_choose pol rp now ready =
     (let (chosen_index, p) = pol (rp_inner rp) now ready;
          (chosen_index, recorder) = record_ready_choice now ready chosen_index (rp_recorder rp)
      in (chosen_index, rp\<lparr>rp_inner := p, rp_recorder := recorder\<rparr>))"

definition exploration_ready_choose :: "'p ready_policy \<Rightarrow> ('p, 'f) exploration ready_policy" where
  "exploration_ready_choose pol rp now ready =
     (let sig = ready_task_signature_new now ready;
          ordinal = ex_next_ordinal rp;
          rp = rp\<lparr>ex_next_ordinal := ordinal + 1\<rparr>;
          key = decision_key_new TokioReady (rs_time_nanos sig) ordinal (rs_ready_task_ids sig);
          (chosen_index, p) =
            (case ex_script rp of
               None \<Rightarrow> pol (rp_inner rp) now ready
             | Some script \<Rightarrow>
                 (case script_get script key of
                    Some chosen_task_id \<Rightarrow>
                      (case position chosen_task_id (rs_ready_task_ids sig) of
                         Some pos \<Rightarrow> (pos, rp_inner rp)
                       | None \<Rightarrow> pol (rp_inner rp) now ready)
                  | None \<Rightarrow> pol (rp_inner rp) now ready));
          (chosen_index, recorder) = record_ready_choice now ready chosen_index (rp_recorder rp)
      in (chosen_index, rp\<lparr>rp_inner := p, rp_recorder := recorder\<rparr>))"

datatype replay_ready_error =
  ReadyOutOfDecisions (re_index: usize) (re_time_nanos: u64) (re_ready_task_ids: "nat list")
| ReadyTimeMismatch (re_index: usize) (re_expected_time: u64) (re_actual_time: u64)
| ReadySetMismatch (re_index: usize) (re_time_nanos: u64) (re_expected: "nat list") (re_actual: "nat list")
| ChosenTaskNotFound (re_index: usize) (re_time_nanos: u64) (re_chosen: nat) (re_actual: "nat list")

record replay_ready =
  rr_decisions :: "async_runtime_decision list"
  rr_next :: usize
  rr_error :: "replay_ready_error option"
  rr_fifo_fallback :: bool
  rr_warned :: bool

definition replay_ready_from_trace_events :: "'f trace_event list \<Rightarrow> replay_ready" where
  "replay_ready_from_trace_events es =
     (let decisions = async_decisions es
      in \<lparr>rr_decisions = decisions, rr_next = 0, rr_error = None,
          rr_fifo_fallback = (decisions = []), rr_warned = False\<rparr>)"

definition replay_ready_take_error :: "replay_ready \<Rightarrow> replay_ready_error option \<times> replay_ready" where
  "replay_ready_take_error q = (rr_error q, q\<lparr>rr_error := None\<rparr>)"

definition replay_ready_choose :: "replay_ready ready_policy" where
  "replay_ready_choose q now ready =
     (if rr_error q \<noteq> None then (0, q)
      else
        let sig = ready_task_signature_new now ready;
            actual = rs_ready_task_ids sig
        in if rr_fifo_fallback q then (0, q\<lparr>rr_warned := True\<rparr>)
           else
             let index = rr_next q
             in if \<not> index < length (rr_decisions q)
                then (0, q\<lparr>rr_error := Some (ReadyOutOfDecisions index (rs_time_nanos sig) actual)\<rparr>)
                else
                  let decision = rr_decisions q ! index;
                      q = q\<lparr>rr_next := index + 1\<rparr>;
                      expected = ad_ready_task_ids decision
                  in if ad_time_nanos decision \<noteq> rs_time_nanos sig
                     then (0, q\<lparr>rr_error := Some (ReadyTimeMismatch index (ad_time_nanos decision)
                                                   (rs_time_nanos sig))\<rparr>)
                     else if expected \<noteq> [] \<and> normalize_ids expected \<noteq> normalize_ids actual
                     then (0, q\<lparr>rr_error := Some (ReadySetMismatch index (ad_time_nanos decision) expected actual)\<rparr>)
                     else (case ad_chosen_task_id decision of
                             Some chosen_task_id \<Rightarrow>
                               (case position chosen_task_id actual of
                                  Some pos \<Rightarrow> (pos, q)
                                | None \<Rightarrow>
                                    (0, q\<lparr>rr_error := Some (ChosenTaskNotFound index (ad_time_nanos decision)
                                             chosen_task_id actual)\<rparr>))
                           | None \<Rightarrow>
                               if ready = [] then (0, q)
                               else (min (ad_chosen_index decision) (length ready - 1), q)))"

section \<open>The policies as recorders and replayers\<close>

definition ready_log :: "('p, 'f, 'x) recording_scheme \<Rightarrow> async_runtime_decision list" where
  "ready_log p = async_decisions (tr_events (rp_recorder p))"

definition ready_taken :: "async_runtime_decision \<Rightarrow> simtime \<Rightarrow> nat list \<Rightarrow> usize \<Rightarrow> bool" where
  "ready_taken d now xs i \<longleftrightarrow> i < length xs \<and> d = ready_decision now xs i"

definition ready_standing :: "async_runtime_decision list \<Rightarrow> replay_ready \<Rightarrow> bool" where
  "ready_standing ds q \<longleftrightarrow>
     rr_error q = None \<and> rr_next q \<le> length (rr_decisions q) \<and> drop (rr_next q) (rr_decisions q) = ds \<and>
     (rr_fifo_fallback q \<longrightarrow> rr_decisions q = [])"

definition ready_scripted ::
  "'g trace \<Rightarrow> async_runtime_decision list \<Rightarrow> ('p, 'f) exploration \<Rightarrow> bool"
where
  "ready_scripted tr ds q \<longleftrightarrow>
     (\<exists>ods. extract_decisions tr = Some ods \<and> ex_script q = Some (script_from_observed ods)) \<and>
     length (ready_log q) = ex_next_ordinal q \<and>
     async_decisions (tr_events tr) = ready_log q @ ds"

lemma ready_decision_fields [simp]:
  "ad_time_nanos (ready_decision now xs i) = rs_time_nanos (ready_task_signature_new now xs)"
  "ad_ready_task_ids (ready_decision now xs i) = xs"
  "i < length xs \<Longrightarrow> ad_chosen_task_id (ready_decision now xs i) = Some (xs ! i)"
  by (simp_all add: ready_decision_def ready_task_signature_new_def Let_def)

lemma ready_signature_ids [simp]: "rs_ready_task_ids (ready_task_signature_new now xs) = xs"
  by (simp add: ready_task_signature_new_def)

lemma record_ready_choice_log:
  assumes "record_ready_choice now xs c tr = (i, tr')" "xs \<noteq> []"
  shows "tr_events tr' = tr_events tr @ [AsyncRuntimeDecision (ready_decision now xs i)] \<and>
    i < length xs \<and> i = min c (length xs - 1)"
  using assms by (cases xs) (auto simp: record_ready_choice_def trace_record_def Let_def)

interpretation ready_recording: decision_recorder
  "recording_ready_choose pol" ready_log ready_taken for pol
proof
  fix p p' :: "('a, 'b) recording" and t xs i
  assume "recording_ready_choose pol p t xs = (i, p')" "xs \<noteq> []"
  then show "\<exists>d. ready_log p' = ready_log p @ [d] \<and> ready_taken d t xs i"
    by (auto simp: recording_ready_choose_def ready_log_def ready_taken_def split: prod.splits
        dest!: record_ready_choice_log)
qed

interpretation ready_exploring: decision_recorder
  "exploration_ready_choose pol" ready_log ready_taken for pol
proof
  fix p p' :: "('a, 'b) exploration" and t xs i
  assume "exploration_ready_choose pol p t xs = (i, p')" "xs \<noteq> []"
  then show "\<exists>d. ready_log p' = ready_log p @ [d] \<and> ready_taken d t xs i"
    by (auto simp: exploration_ready_choose_def ready_log_def ready_taken_def Let_def split: prod.splits
        dest!: record_ready_choice_log)
qed

interpretation ready_replaying: decision_replayer
  replay_ready_choose "\<lambda>x. x" ready_standing ready_taken
proof
  fix d ds q t xs i
  assume st: "ready_standing (d # ds) q" and tk: "ready_taken d t xs i" and di: "distinct (map (\<lambda>x. x) xs)"
  have nth: "rr_next q < length (rr_decisions q)" "rr_decisions q ! rr_next q = d" "\<not> rr_fifo_fallback q"
    "drop (Suc (rr_next q)) (rr_decisions q) = ds"
    using st by (auto simp: ready_standing_def drop_Suc tl_drop [symmetric] dest: nth_via_drop
        intro: linorder_not_le [THEN iffD1])
  have pos: "position (xs ! i) xs = Some i"
    using position_nth [of xs i] tk di by (simp add: ready_taken_def)
  show "\<exists>q'. replay_ready_choose q t xs = (i, q') \<and> ready_standing ds q'"
    using st tk nth pos
    by (auto simp: replay_ready_choose_def ready_standing_def ready_taken_def Let_def)
qed

interpretation ready_scripting: decision_replayer
  "exploration_ready_choose pol" "\<lambda>x. x" "ready_scripted tr" ready_taken for pol and tr :: "'g trace"
proof
  fix d ds t xs i and q :: "('a, 'b) exploration"
  assume st: "ready_scripted tr (d # ds) q" and tk: "ready_taken d t xs i"
    and di: "distinct (map (\<lambda>x. x) xs)"
  obtain ods where tr: "extract_decisions tr = Some ods"
      "ex_script q = Some (script_from_observed ods)" "length (ready_log q) = ex_next_ordinal q"
      "async_decisions (tr_events tr) = ready_log q @ d # ds"
    using st by (auto simp: ready_scripted_def)
  have i: "i < length xs" "xs \<noteq> []" and d: "d = ready_decision t xs i"
    using tk by (auto simp: ready_taken_def)
  have "script_get (script_from_observed ods)
      (decision_key_new TokioReady (rs_time_nanos (ready_task_signature_new t xs)) (ex_next_ordinal q) xs) = Some (xs ! i)"
    unfolding ready_script_lookup [OF tr(1)] using tr(3,4) d i
    by (auto simp: Let_def ready_task_choice_set_def async_choice_def nth_append)
  moreover have "position (xs ! i) xs = Some i"
    using position_nth [of xs i] i di by simp
  ultimately have "exploration_ready_choose pol q t xs =
      (i, q\<lparr>ex_next_ordinal := ex_next_ordinal q + 1,
           rp_recorder := trace_record (AsyncRuntimeDecision d) (rp_recorder q)\<rparr>)"
    using tr(2) i d
    by (simp add: exploration_ready_choose_def Let_def record_ready_choice_def)
  moreover have "ready_scripted tr ds (q\<lparr>ex_next_ordinal := ex_next_ordinal q + 1,
           rp_recorder := trace_record (AsyncRuntimeDecision d) (rp_recorder q)\<rparr>)"
    using tr by (simp add: ready_scripted_def ready_log_def trace_record_def)
  ultimately show "\<exists>q'. exploration_ready_choose pol q t xs = (i, q') \<and> ready_scripted tr ds q'"
    by blast
qed

section \<open>The runtime under another policy\<close>

lemma set_policy_fields [simp]:
  "rt_tasks (set_ready_task_policy pol q r) = rt_tasks r"
  "ready_queue (set_ready_task_policy pol q r) = ready_queue r"
  "ready_task_policy (set_ready_task_policy pol q r) = pol"
  "ready_policy_state (set_ready_task_policy pol q r) = q"
  "timers (set_ready_task_policy pol q r) = timers r"
  "next_timer_deadline (set_ready_task_policy pol q r) = next_timer_deadline r"
  "runtime_key (set_ready_task_policy pol q r) = runtime_key r"
  by (simp_all add: set_ready_task_policy_def)

lemma set_policy_updates [simp]:
  "(set_ready_task_policy pol q r)\<lparr>rt_tasks := ts\<rparr> = set_ready_task_policy pol q (r\<lparr>rt_tasks := ts\<rparr>)"
  "(set_ready_task_policy pol q r)\<lparr>ready_queue := rq\<rparr> = set_ready_task_policy pol q (r\<lparr>ready_queue := rq\<rparr>)"
  "(set_ready_task_policy pol q r)\<lparr>timers := tm\<rparr> = set_ready_task_policy pol q (r\<lparr>timers := tm\<rparr>)"
  "(set_ready_task_policy pol q r)\<lparr>next_timer_deadline := nd\<rparr> = set_ready_task_policy pol q (r\<lparr>next_timer_deadline := nd\<rparr>)"
  "(set_ready_task_policy pol q r)\<lparr>runtime_key := key\<rparr> = set_ready_task_policy pol q (r\<lparr>runtime_key := key\<rparr>)"
  "(set_ready_task_policy pol q r)\<lparr>ready_policy_state := q'\<rparr> = set_ready_task_policy pol q' r"
  "set_ready_task_policy pol q (r\<lparr>ready_policy_state := p\<rparr>) = set_ready_task_policy pol q r"
  by (simp_all add: set_ready_task_policy_def)

lemma set_policy_task_count [simp]:
  "task_count (set_ready_task_policy pol q r) = task_count r"
  "timer_count (set_ready_task_policy pol q r) = timer_count r"
  "total_timer_registrations (set_ready_task_policy pol q r) = total_timer_registrations r"
  "first_deadline (set_ready_task_policy pol q r) = first_deadline r"
  by (simp_all add: task_count_def timer_count_def total_timer_registrations_def first_deadline_def)

lemma update_diag_policy [simp]: "update_diag (set_ready_task_policy pol q r) w = update_diag r w"
  by (simp add: update_diag_def)

lemma install_requests_policy [simp]:
  "install_requests reqs (set_ready_task_policy pol q r) = set_ready_task_policy pol q (install_requests reqs r)"
  by (induction reqs r rule: install_requests.induct) simp_all

lemma wake_task_policy [simp]:
  "wake_task t (set_ready_task_policy pol q r) = set_ready_task_policy pol q (wake_task t r)"
  by (simp add: wake_task_def split: option.splits)

lemma fold_wake_policy [simp]:
  "fold wake_task ts (set_ready_task_policy pol q r) = set_ready_task_policy pol q (fold wake_task ts r)"
  by (induction ts arbitrary: r) simp_all

lemma fire_timers_policy [simp]:
  "fire_timers now ts (set_ready_task_policy pol q r) = set_ready_task_policy pol q (fire_timers now ts r)"
  by (induction now ts r rule: fire_timers.induct) simp_all

lemma timer_tick_policy [simp]:
  "schedule_next_timer_tick key (set_ready_task_policy pol q r) w =
     (set_ready_task_policy pol q (fst (schedule_next_timer_tick key r w)), snd (schedule_next_timer_tick key r w))"
  by (simp add: schedule_next_timer_tick_def Let_def split: option.splits)

lemma poll_one_set_policy:
  "poll_one fc t (set_ready_task_policy pol q r, w) =
     (set_ready_task_policy pol q (fst (poll_one fc t (r, w))), snd (poll_one fc t (r, w)))"
  by (auto simp: poll_one_def poll_task_def remove_task_def Let_def split: option.splits prod.splits)

lemma poll_loop_one:
  assumes "poll_set \<noteq> []" "ready_task_policy r (ready_policy_state r) (time w) poll_set = (c, p)"
    and "swap_remove poll_set (min c (length poll_set - 1)) = Some (t, rest)"
    and "poll_one fc t (r\<lparr>ready_policy_state := p\<rparr>, w) = (r1, w1)"
  shows "poll_loop fc poll_set r w = poll_loop fc rest r1 w1"
  using assms
  by (subst poll_loop.simps) (auto simp: poll_one_def Let_def split: option.splits prod.splits)

lemma tasks_ok_distinct: "tasks_ok (ready_queue r) r w \<Longrightarrow> distinct (ready_queue r @ spawn_ids w)"
  by (auto simp: tasks_ok_def known_def spawn_ok_def)

lemma timer_tick_keeps_policy [simp]:
  "ready_task_policy (fst (schedule_next_timer_tick key r w)) = ready_task_policy r"
  "ready_policy_state (fst (schedule_next_timer_tick key r w)) = ready_policy_state r"
  by (simp_all add: schedule_next_timer_tick_def Let_def split: option.splits)

lemma wake_task_keeps_policy [simp]:
  "ready_task_policy (wake_task t r) = ready_task_policy r"
  "ready_policy_state (wake_task t r) = ready_policy_state r"
  by (simp_all add: wake_task_def split: option.splits)

lemma fold_wake_keeps_policy [simp]:
  "ready_task_policy (fold wake_task ts r) = ready_task_policy r"
  "ready_policy_state (fold wake_task ts r) = ready_policy_state r"
  by (induction ts arbitrary: r) simp_all

lemma fire_timers_keeps_policy [simp]:
  "ready_task_policy (fire_timers now ts r) = ready_task_policy r"
  "ready_policy_state (fire_timers now ts r) = ready_policy_state r"
  by (induction now ts r rule: fire_timers.induct) simp_all

lemma timer_tick_world:
  assumes "schedule_next_timer_tick key r w = (r', w')"
  shows "tasks_ok (ready_queue r') r' w' = tasks_ok (ready_queue r) r w"
proof -
  have "tasks_ok Q r w' = tasks_ok Q r w \<and> spawn_ids w' = spawn_ids w" for Q
    using assms by (intro known_cong) (auto simp: schedule_next_timer_tick_def Let_def split: option.splits if_splits)
  moreover have "ready_queue r' = ready_queue r" "rt_tasks r' = rt_tasks r"
    using assms by (auto simp: schedule_next_timer_tick_def Let_def split: option.splits if_splits)
  ultimately show ?thesis by (simp add: tasks_ok_def)
qed

text \<open>The events that poll no task leave the policy alone.\<close>

definition polls :: "runtime_event \<Rightarrow> bool" where
  "polls ev \<longleftrightarrow> (case ev of Poll \<Rightarrow> True | Wake _ \<Rightarrow> True | TimerTick \<Rightarrow> True | _ \<Rightarrow> False)"

lemma dispatch_other_policy:
  assumes "\<not> polls ev"
  shows "ready_task_policy (fst (dispatch_event fc key ev r w)) = ready_task_policy r"
    "ready_policy_state (fst (dispatch_event fc key ev r w)) = ready_policy_state r"
    "dispatch_event fc key ev (set_ready_task_policy pol q r) w =
       (set_ready_task_policy pol q (fst (dispatch_event fc key ev r w)), snd (dispatch_event fc key ev r w))"
  using assms
  by (cases ev; auto simp: polls_def rt_cancel_task_def register_timer_def cancel_timer_def Let_def
      split: option.splits)+

locale ready_record_replay =
  record_replay rec log taken rep "\<lambda>x. x" standing
  for rec :: "'r ready_policy" and log :: "'r \<Rightarrow> 'd list"
    and taken :: "'d \<Rightarrow> simtime \<Rightarrow> nat list \<Rightarrow> usize \<Rightarrow> bool"
    and rep :: "'q ready_policy" and standing :: "'d list \<Rightarrow> 'q \<Rightarrow> bool"
begin

lemma poll_loop_lockstep:
  assumes "distinct poll_set" "ready_task_policy r = rec" "poll_loop fc poll_set r w = (r', w')"
  shows "ready_task_policy r' = rec \<and> lockstep (ready_policy_state r) (ready_policy_state r') (\<lambda>q q'.
    poll_loop fc poll_set (set_ready_task_policy rep q r) w = (set_ready_task_policy rep q' r', w'))"
  using assms
proof (induction "length poll_set" arbitrary: poll_set r w)
  case 0
  then show ?case by (auto simp: poll_loop.simps intro: lockstep_refl)
next
  case (Suc n)
  then have ne: "poll_set \<noteq> []" by auto
  obtain c p where c: "rec (ready_policy_state r) (time w) poll_set = (c, p)" by fastforce
  from ne have "min c (length poll_set - 1) < length poll_set" by (cases poll_set) auto
  then obtain t rest where s: "swap_remove poll_set (min c (length poll_set - 1)) = Some (t, rest)"
    by (auto simp: swap_remove_def)
  obtain r1 w1 where one: "poll_one fc t (r\<lparr>ready_policy_state := p\<rparr>, w) = (r1, w1)" by fastforce
  have r1: "ready_task_policy r1 = rec" "ready_policy_state r1 = p"
    using poll_one_policy(2,3) [where r = "r\<lparr>ready_policy_state := p\<rparr>" and fc = fc and t = t and w = w]
      one Suc.prems(2) by simp_all
  have len: "n = length rest" using Suc.hyps(2) swap_remove_length [OF s] by simp
  have d: "distinct rest"
    using Suc.prems(1) swap_remove_mset [OF s]
    by (metis distinct.simps(2) mset.simps(2) mset_eq_imp_distinct_iff)
  have "poll_loop fc rest r1 w1 = (r', w')"
    using poll_loop_one [OF ne _ s one] c Suc.prems(2,3) by simp
  from Suc.hyps(1) [OF len d r1(1) this]
  have ih: "ready_task_policy r' = rec" "lockstep p (ready_policy_state r') (\<lambda>q q'.
      poll_loop fc rest (set_ready_task_policy rep q r1) w1 = (set_ready_task_policy rep q' r', w'))"
    by (simp_all add: r1)
  have "lockstep (ready_policy_state r) p (\<lambda>q q'. rep q (time w) poll_set = (c, q'))"
    using lockstep_choice [OF c ne] Suc.prems(1) by simp
  from this ih(2) have "lockstep (ready_policy_state r) (ready_policy_state r') (\<lambda>q q'.
      poll_loop fc poll_set (set_ready_task_policy rep q r) w = (set_ready_task_policy rep q' r', w'))"
  proof (rule lockstep_trans)
    fix q q1 q2
    assume q1: "rep q (time w) poll_set = (c, q1)"
      and q2: "poll_loop fc rest (set_ready_task_policy rep q1 r1) w1 = (set_ready_task_policy rep q2 r', w')"
    have "poll_one fc t ((set_ready_task_policy rep q r)\<lparr>ready_policy_state := q1\<rparr>, w) =
        (set_ready_task_policy rep q1 r1, w1)"
      using poll_one_set_policy [of fc t rep q1 "r\<lparr>ready_policy_state := p\<rparr>" w] one by simp
    from poll_loop_one [OF ne _ s this] q1 q2
    show "poll_loop fc poll_set (set_ready_task_policy rep q r) w = (set_ready_task_policy rep q2 r', w')"
      by simp
  qed
  with ih(1) show ?case by blast
qed

lemma poll_ready_tasks_lockstep:
  assumes "tasks_ok (ready_queue r) r w" "ready_task_policy r = rec" "poll_ready_tasks fc r w = (r', w')"
  shows "ready_task_policy r' = rec \<and> lockstep (ready_policy_state r) (ready_policy_state r') (\<lambda>q q'.
    poll_ready_tasks fc (set_ready_task_policy rep q r) w = (set_ready_task_policy rep q' r', w'))"
proof -
  let ?r = "(install_requests (spawn_queue_local w) (install_requests (spawn_queue w) r))\<lparr>ready_queue := []\<rparr>"
  let ?w = "w\<lparr>spawn_queue := [], spawn_queue_local := []\<rparr>"
  have poll: "poll_ready_tasks fc r w = poll_loop fc (ready_queue r @ spawn_ids w) ?r ?w"
    "poll_ready_tasks fc (set_ready_task_policy rep q r) w =
       poll_loop fc (ready_queue r @ spawn_ids w) (set_ready_task_policy rep q ?r) ?w" for q
    by (simp_all add: poll_ready_tasks_def install_requests_fields spawn_ids_def Let_def)
  have r: "ready_task_policy ?r = rec" "ready_policy_state ?r = ready_policy_state r"
    using assms(2) by (simp_all add: install_requests_fields)
  have "poll_loop fc (ready_queue r @ spawn_ids w) ?r ?w = (r', w')"
    using assms(3) unfolding poll .
  from poll_loop_lockstep [OF tasks_ok_distinct [OF assms(1)] r(1) this] show ?thesis
    unfolding poll r(2) by simp
qed

lemma dispatch_lockstep:
  assumes "tasks_ok (ready_queue r) r w" "ready_task_policy r = rec" "dispatch_event fc key ev r w = (r', w')"
  shows "ready_task_policy r' = rec \<and> lockstep (ready_policy_state r) (ready_policy_state r') (\<lambda>q q'.
    dispatch_event fc key ev (set_ready_task_policy rep q r) w = (set_ready_task_policy rep q' r', w'))"
proof (cases "polls ev")
  case False
  note o = dispatch_other_policy [OF False, where fc = fc and key = key and r = r and w = w, unfolded assms(2,3) fst_conv snd_conv]
  note o(1,2)
  moreover have "lockstep (ready_policy_state r) (ready_policy_state r) (\<lambda>q q'.
      dispatch_event fc key ev (set_ready_task_policy rep q r) w = (set_ready_task_policy rep q' r', w'))"
    by (rule lockstep_refl) (rule o(3))
  ultimately show ?thesis by simp
next
  case True
  then consider "ev = Poll" | t where "ev = Wake t" | "ev = TimerTick"
    by (auto simp: polls_def split: runtime_event.splits)
  then show ?thesis
  proof cases
    case 1
    with poll_ready_tasks_lockstep [OF assms(1,2)] assms(3) show ?thesis by simp
  next
    case (2 t)
    with poll_ready_tasks_lockstep [OF wake_task_ok [OF assms(1)], of t fc r' w'] assms(2,3)
    show ?thesis by simp
  next
    case 3
    let ?f = "fire_timers (time w) (timers r) (r\<lparr>next_timer_deadline := None\<rparr>)"
    obtain r1 w1 where t: "schedule_next_timer_tick key ?f w = (r1, w1)" by fastforce
    have "tasks_ok (ready_queue r1) r1 w1"
      using timer_tick_world [OF t] fire_timers_ok [of "r\<lparr>next_timer_deadline := None\<rparr>" w] assms(1) by simp
    moreover have r1: "ready_task_policy r1 = rec" "ready_policy_state r1 = ready_policy_state r"
      using timer_tick_keeps_policy [of key ?f w] t assms(2) by simp_all
    moreover have "poll_ready_tasks fc r1 w1 = (r', w')"
      using assms(3) 3 t by (simp add: handle_timer_tick_def Let_def)
    moreover have "dispatch_event fc key ev (set_ready_task_policy rep q r) w =
        poll_ready_tasks fc (set_ready_task_policy rep q r1) w1" for q
      using 3 t by (simp add: handle_timer_tick_def Let_def)
    ultimately show ?thesis
      using poll_ready_tasks_lockstep [of r1 w1 fc r' w'] by simp
  qed
qed

lemma process_event_lockstep:
  assumes "tasks_ok (ready_queue r) r w" "ready_task_policy r = rec" "rt_process_event fc key ev r w = (r', w')"
  shows "ready_task_policy r' = rec \<and> lockstep (ready_policy_state r) (ready_policy_state r') (\<lambda>q q'.
    rt_process_event fc key ev (set_ready_task_policy rep q r) w = (set_ready_task_policy rep q' r', w'))"
proof -
  let ?r = "if runtime_key r = None then r\<lparr>runtime_key := Some key\<rparr> else r"
  obtain r1 w1 where d: "dispatch_event fc key ev ?r w = (r1, w1)" by fastforce
  let ?w = "if ready_queue r1 \<noteq> [] then schedule_now key (RuntimeEv Poll) w1 else w1"
  have r': "r' = r1" "w' = update_diag r1 ?w"
    using assms(3) d by (simp_all add: rt_process_event_def Let_def split: if_splits)
  have r: "tasks_ok (ready_queue ?r) ?r w" "ready_task_policy ?r = rec" "ready_policy_state ?r = ready_policy_state r"
    using assms(1,2) by simp_all
  have "rt_process_event fc key ev (set_ready_task_policy rep q r) w = (set_ready_task_policy rep q' r', w')"
    if "dispatch_event fc key ev (set_ready_task_policy rep q ?r) w = (set_ready_task_policy rep q' r1, w1)" for q q'
    using that by (auto simp: rt_process_event_def Let_def r' split: if_splits)
  then show ?thesis
    using dispatch_lockstep [OF r(1,2) d] unfolding r(3) r'(1) lockstep_def by blast
qed

end

section \<open>Simulations with another policy in the runtime\<close>

fun component_with_policy :: "'q ready_policy \<Rightarrow> 'q \<Rightarrow> ('f, 'p, 'o) rt_component \<Rightarrow> ('f, 'q, 'o) rt_component" where
  "component_with_policy pol q (RuntimeC r) = RuntimeC (set_ready_task_policy pol q r)"
| "component_with_policy pol q (OtherC c) = OtherC c"

definition components_with_policy ::
  "'q ready_policy \<Rightarrow> 'q \<Rightarrow> ('f, 'p, 'o) rt_component components \<Rightarrow> ('f, 'q, 'o) rt_component components"
where
  "components_with_policy pol q cs =
     \<lparr>component_table = map_option (component_with_policy pol q) \<circ> component_table cs,
      components_next_id = components_next_id cs, components_id_seed = components_id_seed cs\<rparr>"

definition sim_with_ready_policy ::
  "'q ready_policy \<Rightarrow> 'q \<Rightarrow> ('ev, 't, 'v, 'z, 'fp, ('f, 'p, 'o) rt_component) simulation
    \<Rightarrow> ('ev, 't, 'v, 'z, 'fp, ('f, 'q, 'o) rt_component) simulation"
where
  "sim_with_ready_policy pol q sim =
     \<lparr>sched = sched sim, policy = policy sim, policy_state = policy_state sim,
      next_component_id = next_component_id sim,
      sim_components = components_with_policy pol q (sim_components sim), config_seed = config_seed sim\<rparr>"

lemma sim_with_ready_policy_fields [simp]:
  "sched (sim_with_ready_policy pol q sim) = sched sim" "policy (sim_with_ready_policy pol q sim) = policy sim"
  "policy_state (sim_with_ready_policy pol q sim) = policy_state sim"
  "sim_components (sim_with_ready_policy pol q sim) = components_with_policy pol q (sim_components sim)"
  by (simp_all add: sim_with_ready_policy_def)

lemma next_entry_ready_policy [simp]: "next_entry (sim_with_ready_policy pol q sim) = next_entry sim"
  by (simp add: next_entry_def)

text \<open>An entry that is not for the runtime is processed alike under every policy.\<close>

lemma process_other_entry:
  assumes "runtime_at k r sim" "\<And>ce. e = Component ce \<Longrightarrow> component ce \<noteq> k"
    and "process_event_entry exec (rt_handle fc other) e (sim_components sim) w = Some (cs, w')"
  shows "component_table cs k = Some (RuntimeC r) \<and>
    process_event_entry exec (rt_handle fc other) e (components_with_policy pol q (sim_components sim)) w =
      Some (components_with_policy pol q cs, w')"
proof (cases e)
  case (Task te)
  with assms show ?thesis by (auto simp: runtime_at_def)
next
  case (Component ce)
  show ?thesis
  proof (cases "component_table (sim_components sim) (component ce)")
    case None
    with assms Component show ?thesis by (auto simp: runtime_at_def components_with_policy_def)
  next
    case (Some c)
    with assms(1,2) Component obtain o' where o': "c = OtherC o'" by (cases c) (auto simp: runtime_at_def)
    with assms Component Some show ?thesis
      by (cases "inner ce") (auto simp: runtime_at_def components_with_policy_def fun_eq_iff
          split: option.splits prod.splits)
  qed
qed

context async_system
begin

lemma runtime_code: "simulation_code exec (rt_handle fc other)"
  by (rule simulation_code_axioms)

end

context ready_record_replay
begin

lemma process_entry_lockstep:
  assumes at: "runtime_at k r sim" and ok: "tasks_ok (ready_queue r) r w" and pol: "ready_task_policy r = rec"
    and p: "process_event_entry exec (rt_handle fc other) e (sim_components sim) w = Some (cs, w')"
    and at': "component_table cs k = Some (RuntimeC r')"
  shows "ready_task_policy r' = rec \<and> lockstep (ready_policy_state r) (ready_policy_state r') (\<lambda>q q'.
    process_event_entry exec (rt_handle fc other) e (components_with_policy rep q (sim_components sim)) w =
      Some (components_with_policy rep q' cs, w'))"
proof (cases "\<exists>ce. e = Component ce \<and> component ce = k")
  case False
  note o = process_other_entry [OF at _ p]
  have "r' = r" using o(1) [THEN conjunct1] False at' by auto
  moreover have "lockstep (ready_policy_state r) (ready_policy_state r) (\<lambda>q q'.
    process_event_entry exec (rt_handle fc other) e (components_with_policy rep q (sim_components sim)) w =
      Some (components_with_policy rep q' cs, w'))"
    by (rule lockstep_refl, rule o [THEN conjunct2]) (use False in blast)
  ultimately show ?thesis using pol by simp
next
  case True
  then obtain ce where ce: "e = Component ce" "component ce = k" by blast
  with at p obtain ev r1 where ev: "inner ce = RuntimeEv ev"
    and pr: "rt_process_event fc k ev r w = (r1, w')"
    and cs: "cs = (sim_components sim)\<lparr>component_table := (component_table (sim_components sim))(k \<mapsto> RuntimeC r1)\<rparr>"
    by (cases "inner ce") (auto simp: runtime_at_def split: prod.splits)
  have r1: "r1 = r'" using cs at' by simp
  have only: "component_table (sim_components sim) k' = Some (RuntimeC r2) \<Longrightarrow> k' = k" for k' r2
    using at by (auto simp: runtime_at_def)
  have tab: "(components_with_policy rep q (sim_components sim))\<lparr>component_table :=
      (component_table (components_with_policy rep q (sim_components sim)))(k \<mapsto> RuntimeC (set_ready_task_policy rep q' r'))\<rparr> =
      components_with_policy rep q' cs" for q q'
  proof -
    have "map_option (component_with_policy rep q) (component_table (sim_components sim) k') =
        map_option (component_with_policy rep q') (component_table (sim_components sim) k')" if "k' \<noteq> k" for k'
      using only [of k'] that
      by (cases "component_table (sim_components sim) k'") (auto elim: component_with_policy.elims, metis rt_component.exhaust component_with_policy.simps(2))
    then show ?thesis
      by (auto simp: cs components_with_policy_def fun_eq_iff r1)
  qed
  have "process_event_entry exec (rt_handle fc other) e (components_with_policy rep q (sim_components sim)) w =
      Some (components_with_policy rep q' cs, w')"
    if "rt_process_event fc k ev (set_ready_task_policy rep q r) w = (set_ready_task_policy rep q' r', w')" for q q'
  proof -
    have "component_table (components_with_policy rep q (sim_components sim)) k =
        Some (RuntimeC (set_ready_task_policy rep q r))"
      using at by (simp add: components_with_policy_def runtime_at_def)
    with that ce ev show ?thesis by (simp add: tab)
  qed
  then show ?thesis
    using process_event_lockstep [OF ok pol pr] unfolding r1 lockstep_def by blast
qed

lemma ready_step_lockstep:
  assumes ok: "sim_ok sim" and at: "runtime_at k r sim" and idle: "runtime_idle_ok k r (sched sim)"
    and pol: "ready_task_policy r = rec" and st: "step exec (rt_handle fc other) sim = Some (b, sim')"
    and at': "runtime_at k r' sim'"
  shows "ready_task_policy r' = rec \<and> lockstep (ready_policy_state r) (ready_policy_state r') (\<lambda>q q'.
    step exec (rt_handle fc other) (sim_with_ready_policy rep q sim) = Some (b, sim_with_ready_policy rep q' sim'))"
  using st
proof (cases rule: stepE)
  case (idle p w)
  have "r' = r" using at at' idle(3) by (simp add: runtime_at_def)
  moreover have "lockstep (ready_policy_state r) (ready_policy_state r) (\<lambda>q q'.
    step exec (rt_handle fc other) (sim_with_ready_policy rep q sim) = Some (b, sim_with_ready_policy rep q' sim'))"
    by (rule lockstep_refl) (use idle in \<open>simp add: step_def sim_with_ready_policy_def\<close>)
  ultimately show ?thesis using pol by simp
next
  case (event e p w cs w')
  have d: "distinct (task_ids (events (sched sim)))" and so: "sched_ok (sched sim)"
    using ok by (auto simp: sim_ok_def tasks_inv_def)
  have pe: "pop_effect (sched sim) e w" by (rule pop_effect_with_policy [OF so d event(1)])
  have "tasks_ok (ready_queue r) r (set_scheduler_context w) = tasks_ok (ready_queue r) r w"
    using known_cong [of "set_scheduler_context w" w "ready_queue r" r] by (simp add: set_scheduler_context_def)
  then have t: "tasks_ok (ready_queue r) r (set_scheduler_context w)"
    using pop_idle(1) [OF pe so \<open>runtime_idle_ok k r (sched sim)\<close>] by simp
  have c: "component_table cs k = Some (RuntimeC r')"
    using at' event(4) by (simp add: runtime_at_def)
  have "step exec (rt_handle fc other) (sim_with_ready_policy rep q sim) = Some (b, sim_with_ready_policy rep q' sim')"
    if "process_event_entry exec (rt_handle fc other) e (components_with_policy rep q (sim_components sim))
        (set_scheduler_context w) = Some (components_with_policy rep q' cs, w')" for q q'
    using that event by (simp add: step_def Let_def sim_with_ready_policy_def)
  then show ?thesis
    using process_entry_lockstep [OF at t pol event(2) c] unfolding lockstep_def by blast
qed

lemma ready_run_lockstep:
  assumes sys: "async_system k fc other exec"
    and "sim_run exec (rt_handle fc other) sim es sim'" "sim_ok sim" "runtime_at k r sim"
    "runtime_idle_ok k r (sched sim)" "ids_fit (sched sim')" "ready_task_policy r = rec" "runtime_at k r' sim'"
  shows "lockstep (ready_policy_state r) (ready_policy_state r') (\<lambda>q q'.
    sim_run exec (rt_handle fc other) (sim_with_ready_policy rep q sim) es (sim_with_ready_policy rep q' sim'))"
  using assms(2-)
proof (induction arbitrary: r rule: sim_run.induct)
  case (run_nil sim)
  then have "r' = r" by (simp add: runtime_at_def)
  then show ?case by (auto intro: lockstep_refl sim_run.run_nil)
next
  case (run_step sim e sim1 es sim2)
  have fit: "ids_fit (sched sim1)"
    by (rule simulation_code.run_ids_fit [OF async_system.runtime_code [OF sys]]) fact+
  from async_system.runtime_step [OF sys run_step.prems(1-3) run_step.hyps(2) fit]
  obtain r1 where r1: "sim_ok sim1" "runtime_at k r1 sim1" "runtime_idle_ok k r1 (sched sim1)" by blast
  note s = ready_step_lockstep [OF run_step.prems(1-3,5) run_step.hyps(2) r1(2)]
  from s [THEN conjunct2] run_step.IH [OF r1 run_step.prems(4) s [THEN conjunct1] run_step.prems(6)] show ?case
    by (rule lockstep_trans) (use run_step.hyps(1) in \<open>auto intro: sim_run.run_step\<close>)
next
  case (run_idle sim sim1 es sim2)
  have fit: "ids_fit (sched sim1)"
    by (rule simulation_code.run_ids_fit [OF async_system.runtime_code [OF sys]]) fact+
  from async_system.runtime_step [OF sys run_idle.prems(1-3) run_idle.hyps(2) fit]
  obtain r1 where r1: "sim_ok sim1" "runtime_at k r1 sim1" "runtime_idle_ok k r1 (sched sim1)" by blast
  note s = ready_step_lockstep [OF run_idle.prems(1-3,5) run_idle.hyps(2) r1(2)]
  from s [THEN conjunct2] run_idle.IH [OF r1 run_idle.prems(4) s [THEN conjunct1] run_idle.prems(6)] show ?case
    by (rule lockstep_trans) (use run_idle.hyps(1) in \<open>auto intro: sim_run.run_idle\<close>)
qed

end

interpretation recorded_ready: ready_record_replay
  "recording_ready_choose pol" ready_log ready_taken replay_ready_choose ready_standing for pol ..

interpretation explored_ready: ready_record_replay
  "exploration_ready_choose pol" ready_log ready_taken "exploration_ready_choose pol'" "ready_scripted tr"
  for pol pol' and tr :: "'g trace" ..

section \<open>Replayed schedules\<close>

lemma frontier_policy_keeps [simp]:
  "sim_ok (set_frontier_policy pol q sim) = sim_ok sim"
  "runtime_at k r (set_frontier_policy pol q sim) = runtime_at k r sim"
  "sched (set_frontier_policy pol q sim) = sched sim"
  by (simp_all add: sim_ok_def runtime_at_def set_frontier_policy_def)

text \<open>
  C14. A run with recording policies at both levels, among events of the same time and among
  ready tasks, is reproduced by the two replay policies loaded from one trace that has the
  recorded decisions of both kinds in their order, however they are interleaved with each
  other and with other events: the same entries are processed in the same order, all
  components and the world end in the same state, and both replays have used all their
  decisions without a mismatch.
\<close>

theorem recorded_schedule_replayed:
  assumes "async_system k fc other exec" and "sim_ok sim"
    and "runtime_at k r sim" and "runtime_idle_ok k r (sched sim)"
    and "policy sim = recording_choose show_uuid pol" and "policy_state sim = recording_new p (trace_new meta)"
    and "ready_task_policy r = recording_ready_choose rpol"
    and "ready_policy_state r = recording_new rp (trace_new meta)"
    and "sim_run exec (rt_handle fc other) sim es sim'" and "ids_fit (sched sim')" and "runtime_at k r' sim'"
    and "scheduler_decisions evs = scheduler_decisions (tr_events (rp_recorder (policy_state sim')))"
    and "async_decisions evs = async_decisions (tr_events (rp_recorder (ready_policy_state r')))"
  shows "\<exists>q qr. sim_run exec (rt_handle fc other)
      (sim_with_ready_policy replay_ready_choose (replay_ready_from_trace_events evs)
        (set_frontier_policy replay_frontier_choose (replay_frontier_from_trace_events evs) sim)) es
      (sim_with_ready_policy replay_ready_choose qr (set_frontier_policy replay_frontier_choose q sim')) \<and>
    rf_error q = None \<and> rf_next q = length (rf_decisions q) \<and>
    rr_error qr = None \<and> rr_next qr = length (rr_decisions qr)"
proof -
  let ?sim = "set_frontier_policy replay_frontier_choose (replay_frontier_from_trace_events evs) sim"
  from recorded_run_replayed [OF async_system.runtime_code [OF assms(1)] assms(2,5,6,9,10,12)]
  obtain q where run: "sim_run exec (rt_handle fc other) ?sim es (set_frontier_policy replay_frontier_choose q sim')"
    and q: "rf_error q = None" "rf_next q = length (rf_decisions q)" by blast
  have nil: "ready_log (ready_policy_state r) = []"
    using assms(8) by (simp add: ready_log_def recording_new_def trace_new_def)
  have st: "ready_standing (ready_log (ready_policy_state r')) (replay_ready_from_trace_events evs)"
    using assms(13) by (simp add: ready_standing_def ready_log_def replay_ready_from_trace_events_def Let_def)
  have "recorded_ready.lockstep (ready_policy_state r) (ready_policy_state r') (\<lambda>qr qr'.
      sim_run exec (rt_handle fc other) (sim_with_ready_policy replay_ready_choose qr ?sim) es
        (sim_with_ready_policy replay_ready_choose qr' (set_frontier_policy replay_frontier_choose q sim')))"
    by (rule recorded_ready.ready_run_lockstep [OF assms(1) run]) (use assms in simp_all)
  from recorded_ready.lockstep_whole [OF this nil st] obtain qr where
    "sim_run exec (rt_handle fc other)
       (sim_with_ready_policy replay_ready_choose (replay_ready_from_trace_events evs) ?sim) es
       (sim_with_ready_policy replay_ready_choose qr (set_frontier_policy replay_frontier_choose q sim'))"
    "ready_standing [] qr" by blast
  with q show ?thesis
    by (intro exI [of _ q] exI [of _ qr] conjI) (simp_all add: ready_standing_def)
qed

text \<open>
  C15. The same through a script: the decisions extracted from a trace of an exploration run give
  a script that reproduces the run at both levels under exploration policies over any other
  base policies, and the policies record the same decisions again.
\<close>

theorem explored_schedule_scripted:
  fixes meta' :: trace_meta
  assumes "async_system k fc other exec" and "sim_ok sim"
    and "runtime_at k r sim" and "runtime_idle_ok k r (sched sim)"
    and "policy sim = exploration_choose show_uuid pol" and "policy_state sim = exploration_new p script (trace_new meta)"
    and "ready_task_policy r = exploration_ready_choose rpol"
    and "ready_policy_state r = exploration_new rp script (trace_new meta)"
    and "sim_run exec (rt_handle fc other) sim es sim'" and "ids_fit (sched sim')" and "runtime_at k r' sim'"
    and "extract_decisions tr = Some ods"
    and "scheduler_decisions (tr_events tr) = scheduler_decisions (tr_events (rp_recorder (policy_state sim')))"
    and "async_decisions (tr_events tr) = async_decisions (tr_events (rp_recorder (ready_policy_state r')))"
  shows "\<exists>q qr. sim_run exec (rt_handle fc other)
      (sim_with_ready_policy (exploration_ready_choose rpol')
        (exploration_new rp' (Some (script_from_observed ods)) (trace_new meta' :: 'g trace))
        (set_frontier_policy (exploration_choose show_uuid pol')
          (exploration_new p' (Some (script_from_observed ods)) (trace_new meta' :: 'g trace)) sim)) es
      (sim_with_ready_policy (exploration_ready_choose rpol') qr
        (set_frontier_policy (exploration_choose show_uuid pol') q sim')) \<and>
    scheduler_decisions (tr_events (rp_recorder q)) = scheduler_decisions (tr_events tr) \<and>
    async_decisions (tr_events (rp_recorder qr)) = async_decisions (tr_events tr)"
proof -
  let ?script = "Some (script_from_observed ods)"
  let ?sim = "set_frontier_policy (exploration_choose show_uuid pol')
      (exploration_new p' ?script (trace_new meta' :: 'g trace)) sim"
  let ?qr = "exploration_new rp' ?script (trace_new meta' :: 'g trace)"
  from explored_run_scripted
      [where 'g = 'g and pol' = pol' and p' = p' and meta' = meta', OF async_system.runtime_code [OF assms(1)] assms(2,5,6,9,10,12,13)]
  obtain q where run: "sim_run exec (rt_handle fc other) ?sim es
      (set_frontier_policy (exploration_choose show_uuid pol') q sim')"
    and q: "scheduler_decisions (tr_events (rp_recorder q)) = scheduler_decisions (tr_events tr)" by blast
  have nil: "ready_log (ready_policy_state r) = []"
    using assms(8) by (simp add: ready_log_def exploration_new_def trace_new_def)
  have st: "ready_scripted tr (ready_log (ready_policy_state r')) ?qr"
    using assms(12,14) by (simp add: ready_scripted_def ready_log_def exploration_new_def trace_new_def)
  have "record_replay.lockstep ready_log (ready_scripted tr) (ready_policy_state r) (ready_policy_state r') (\<lambda>qr qr'.
      sim_run exec (rt_handle fc other) (sim_with_ready_policy (exploration_ready_choose rpol') qr ?sim) es
        (sim_with_ready_policy (exploration_ready_choose rpol') qr'
          (set_frontier_policy (exploration_choose show_uuid pol') q sim')))"
    by (rule explored_ready.ready_run_lockstep [OF assms(1) run]) (use assms in simp_all)
  from explored_ready.lockstep_whole [OF this nil st] obtain qr where
    "sim_run exec (rt_handle fc other) (sim_with_ready_policy (exploration_ready_choose rpol') ?qr ?sim) es
       (sim_with_ready_policy (exploration_ready_choose rpol') qr
         (set_frontier_policy (exploration_choose show_uuid pol') q sim'))" "ready_scripted tr [] qr" by blast
  with q show ?thesis
    by (intro exI [of _ q] exI [of _ qr] conjI) (simp_all add: ready_scripted_def ready_log_def)
qed

section \<open>Instances\<close>

text \<open>
  Two sleeping tasks. The policies take the last candidate, so the tasks are polled in the
  order 1, 0, and then the two timer registrations, which are due at the same time, are
  processed in the reverse of the order in which they were made.
\<close>

definition two_sleepers :: "'p ready_policy \<Rightarrow> 'p \<Rightarrow> (sim_sleep list, 'p) des_runtime" where
  "two_sleepers pol p = set_ready_task_policy pol p (des_runtime_new
     \<lparr>rt_tasks := [0 \<mapsto> \<lparr>rt_future = [sim_sleep_new 5], queued = True\<rparr>,
                    1 \<mapsto> \<lparr>rt_future = [sim_sleep_new 7], queued = True\<rparr>], ready_queue := [0, 1]\<rparr>)"

definition two_base_sim ::
  "'p frontier_policy \<Rightarrow> 'p \<Rightarrow> (unit sim_event, unit, unit, (sim_sleep list, unit) rt_world_ext, 'p,
    (sim_sleep list, 'q, unit) rt_component) simulation"
where
  "two_base_sim pol p = set_frontier_policy pol p (simulation_new 42 (rt_world.fields 2 [] [] None None
     \<lparr>diag_task_count = 0, diag_timer_count = 0, diag_timer_registration = 0, diag_ready_queue_len = 0,
      diag_events_processed = 0\<rparr>))"

definition two_sleep_sim where
  "two_sleep_sim pol p rpol rp = snd (install (two_sleepers rpol rp) (two_base_sim pol p))"

definition take_last_ready :: "unit ready_policy" where
  "take_last_ready = random_ready_choose (\<lambda>g n. (n - 1, g))"

lemmas two_eval = two_sleep_sim_def two_sleepers_def two_base_sim_def base_sim_eval set_frontier_policy_def

lemma two_sleep_install: "install (two_sleepers rpol rp) (two_base_sim pol p) = (sleep_key, two_sleep_sim pol p rpol rp)"
  by (simp add: two_eval install_def add_component_def register_with_id_def Let_def)

lemma two_sleep_ok:
  "sim_ok (two_sleep_sim pol p rpol rp) \<and> runtime_at sleep_key (two_sleepers rpol rp) (two_sleep_sim pol p rpol rp) \<and>
   runtime_idle_ok sleep_key (two_sleepers rpol rp) (sched (two_sleep_sim pol p rpol rp))"
proof (rule install_ok [OF two_sleep_install])
  show "sim_ok (two_base_sim pol p)"
    by (simp add: two_eval sim_ok_def sched_ok_def tasks_inv_def in_scheduler_context_def)
  show "runtime_fresh (two_sleepers rpol rp) (sched (two_base_sim pol p))"
    by (simp add: two_eval runtime_fresh_def des_runtime_new_def tasks_ok_def
        known_def spawn_ok_def spawn_ids_def)
  show "\<forall>c\<in>ran (component_table (sim_components (two_base_sim pol p))). \<not> (\<exists>r'. c = RuntimeC r')"
    by (simp add: two_eval)
qed

lemma two_sleep_policies [simp]:
  "policy (two_sleep_sim pol p rpol rp) = pol" "policy_state (two_sleep_sim pol p rpol rp) = p"
  "ready_task_policy (two_sleepers rpol rp) = rpol" "ready_policy_state (two_sleepers rpol rp) = rp"
  by (simp_all add: two_eval install_def add_component_def register_with_id_def Let_def)

type_synonym ('p, 'q) two_sim = "(unit sim_event, unit, unit, (sim_sleep list, unit) rt_world_ext, 'p,
  (sim_sleep list, 'q, unit) rt_component) simulation"

definition two_recorded :: "((unit, unit) recording, (unit, unit) recording) two_sim" where
  "two_recorded = two_sleep_sim (recording_choose no_text take_last) (recording_new () (trace_new tie_meta))
     (recording_ready_choose take_last_ready) (recording_new () (trace_new tie_meta))"

lemmas two_run_eval = two_sleep_sim_def two_sleepers_def two_base_sim_def set_frontier_policy_def
  set_ready_task_policy_def started_eval take_last_def uniform_random_choose_def
  take_last_ready_def random_ready_choose_def record_frontier_choice_def record_ready_choice_def
  trace_record_def trace_new_def frontier_decision_def ready_decision_def ready_task_signature_new_def
  frontier_signature_new_def ids_fit_def

lemma two_recorded_run:
  "\<exists>es sim' r'. run_n no_task (rt_handle sleeps_code no_component) (Suc (Suc 0)) two_recorded = Some (es, sim') \<and>
     ids_fit (sched sim') \<and> map seq es = [1, 3] \<and>
     component_table (sim_components sim') sleep_key = Some (RuntimeC r') \<and>
     map ad_chosen_task_id (async_decisions (tr_events (rp_recorder (ready_policy_state r')))) = [Some 1, Some 0] \<and>
     map sd_chosen_seq (scheduler_decisions (tr_events (rp_recorder (policy_state sim')))) = [Some 3]"
  by (simp add: two_recorded_def two_run_eval recording_choose_def recording_ready_choose_def recording_new_def)

text \<open>A trace with the decisions of both kinds.\<close>

definition both_decisions :: "scheduler_decision list \<Rightarrow> async_runtime_decision list \<Rightarrow> unit trace_event list" where
  "both_decisions ds as = map AsyncRuntimeDecision as @ map SchedulerDecision ds"

theorem recorded_schedule_replayed_witness:
  "\<exists>es (sim' :: ((unit, unit) recording, (unit, unit) recording) two_sim) evs q qr. map seq es = [1, 3] \<and>
     map ad_chosen_task_id (async_decisions evs) = [Some 1, Some 0] \<and>
     sim_run no_task (rt_handle sleeps_code no_component)
       (sim_with_ready_policy replay_ready_choose (replay_ready_from_trace_events (evs :: unit trace_event list))
         (set_frontier_policy replay_frontier_choose (replay_frontier_from_trace_events evs) two_recorded)) es
       (sim_with_ready_policy replay_ready_choose qr (set_frontier_policy replay_frontier_choose q sim')) \<and>
     rf_error q = None \<and> rr_error qr = None"
proof -
  from two_recorded_run obtain es sim' r' where
    n: "run_n no_task (rt_handle sleeps_code no_component) (Suc (Suc 0)) two_recorded = Some (es, sim')"
    and fit: "ids_fit (sched sim')" and es: "map seq es = [1, 3]"
    and r': "component_table (sim_components sim') sleep_key = Some (RuntimeC r')"
    and a: "map ad_chosen_task_id (async_decisions (tr_events (rp_recorder (ready_policy_state r')))) = [Some 1, Some 0]"
    by (elim exE conjE) (rule that)
  let ?r = "two_sleepers (recording_ready_choose take_last_ready) (recording_new () (trace_new tie_meta :: unit trace))"
  have ok: "sim_ok two_recorded" "runtime_at sleep_key ?r two_recorded" "runtime_idle_ok sleep_key ?r (sched two_recorded)"
    unfolding two_recorded_def by (simp_all add: two_sleep_ok)
  note run = run_n_run [OF n, THEN conjunct1]
  obtain r2 where "runtime_at sleep_key r2 sim'"
    using sleepers.runtime_run [OF run ok fit] by blast
  with r' have at: "runtime_at sleep_key r' sim'" by (auto simp: runtime_at_def)
  let ?evs = "both_decisions (scheduler_decisions (tr_events (rp_recorder (policy_state sim'))))
     (async_decisions (tr_events (rp_recorder (ready_policy_state r'))))"
  have "policy two_recorded = recording_choose no_text take_last"
    "policy_state two_recorded = recording_new () (trace_new tie_meta)"
    by (simp_all add: two_recorded_def)
  from recorded_schedule_replayed [OF sleepers.async_system_axioms ok this two_sleep_policies(3,4) run fit at, of ?evs]
  obtain q qr where "sim_run no_task (rt_handle sleeps_code no_component)
       (sim_with_ready_policy replay_ready_choose (replay_ready_from_trace_events ?evs)
         (set_frontier_policy replay_frontier_choose (replay_frontier_from_trace_events ?evs) two_recorded)) es
       (sim_with_ready_policy replay_ready_choose qr (set_frontier_policy replay_frontier_choose q sim'))"
    "rf_error q = None" "rr_error qr = None" by (auto simp: both_decisions_def)
  with es a show ?thesis
    by (intro exI [of _ es] exI [of _ sim'] exI [of _ ?evs] exI [of _ q] exI [of _ qr] conjI)
      (simp_all add: both_decisions_def)
qed

definition two_explored :: "((unit, unit) exploration, (unit, unit) exploration) two_sim" where
  "two_explored = two_sleep_sim (exploration_choose no_text take_last) (exploration_new () None (trace_new tie_meta))
     (exploration_ready_choose take_last_ready) (exploration_new () None (trace_new tie_meta))"

lemma two_explored_run:
  "\<exists>es sim' r'. run_n no_task (rt_handle sleeps_code no_component) (Suc (Suc 0)) two_explored = Some (es, sim') \<and>
     ids_fit (sched sim') \<and> map seq es = [1, 3] \<and>
     component_table (sim_components sim') sleep_key = Some (RuntimeC r') \<and>
     map async_choice (async_decisions (tr_events (rp_recorder (ready_policy_state r')))) = [Some 1, Some 0] \<and>
     map scheduler_choice (scheduler_decisions (tr_events (rp_recorder (policy_state sim')))) = [Some 3]"
  by (simp add: two_explored_def two_run_eval exploration_choose_def exploration_ready_choose_def exploration_new_def
      async_choice_def scheduler_choice_def)

theorem explored_schedule_scripted_witness:
  "\<exists>es (sim' :: ((unit, unit) exploration, (unit, unit) exploration) two_sim) ods q qr. map seq es = [1, 3] \<and>
     sim_run no_task (rt_handle sleeps_code no_component)
       (sim_with_ready_policy (exploration_ready_choose fifo_ready_choose)
         (exploration_new () (Some (script_from_observed ods)) (trace_new tie_meta :: unit trace))
         (set_frontier_policy (exploration_choose no_text fifo_choose)
           (exploration_new () (Some (script_from_observed ods)) (trace_new tie_meta :: unit trace)) two_explored)) es
       (sim_with_ready_policy (exploration_ready_choose fifo_ready_choose) qr
         (set_frontier_policy (exploration_choose no_text fifo_choose) q sim'))"
proof -
  from two_explored_run obtain es sim' r' where
    n: "run_n no_task (rt_handle sleeps_code no_component) (Suc (Suc 0)) two_explored = Some (es, sim')"
    and fit: "ids_fit (sched sim')" and es: "map seq es = [1, 3]"
    and r': "component_table (sim_components sim') sleep_key = Some (RuntimeC r')"
    and a: "map async_choice (async_decisions (tr_events (rp_recorder (ready_policy_state r')))) = [Some 1, Some 0]"
    and d: "map scheduler_choice (scheduler_decisions (tr_events (rp_recorder (policy_state sim')))) = [Some 3]"
    by (elim exE conjE) (rule that)
  let ?r = "two_sleepers (exploration_ready_choose take_last_ready)
    (exploration_new () None (trace_new tie_meta :: unit trace))"
  have ok: "sim_ok two_explored" "runtime_at sleep_key ?r two_explored" "runtime_idle_ok sleep_key ?r (sched two_explored)"
    unfolding two_explored_def by (simp_all add: two_sleep_ok)
  note run = run_n_run [OF n, THEN conjunct1]
  obtain r2 where "runtime_at sleep_key r2 sim'"
    using sleepers.runtime_run [OF run ok fit] by blast
  with r' have at: "runtime_at sleep_key r' sim'" by (auto simp: runtime_at_def)
  let ?tr = "\<lparr>tr_meta = tie_meta, tr_events =
     both_decisions (scheduler_decisions (tr_events (rp_recorder (policy_state sim'))))
       (async_decisions (tr_events (rp_recorder (ready_policy_state r'))))\<rparr>"
  have choice: "\<forall>x\<in>set xs. f x \<noteq> None" if "map f xs = map Some ys" for f :: "'x \<Rightarrow> nat option" and xs ys
    using that by (induction xs arbitrary: ys) auto
  have "extract_decisions ?tr \<noteq> None"
    unfolding extract_decisions_total
    using choice [of async_choice _ "[1, 0]"] choice [of scheduler_choice _ "[3]"] a d
    by (simp add: both_decisions_def)
  then obtain ods where ods: "extract_decisions ?tr = Some ods" by blast
  have "policy two_explored = exploration_choose no_text take_last"
    "policy_state two_explored = exploration_new () None (trace_new tie_meta)"
    by (simp_all add: two_explored_def)
  from explored_schedule_scripted [where 'g = unit and rpol' = fifo_ready_choose and rp' = "()" and meta' = tie_meta
      and pol' = fifo_choose and p' = "()",
      OF sleepers.async_system_axioms ok this two_sleep_policies(3,4) run fit at ods]
  obtain q qr where "sim_run no_task (rt_handle sleeps_code no_component)
       (sim_with_ready_policy (exploration_ready_choose fifo_ready_choose)
         (exploration_new () (Some (script_from_observed ods)) (trace_new tie_meta :: unit trace))
         (set_frontier_policy (exploration_choose no_text fifo_choose)
           (exploration_new () (Some (script_from_observed ods)) (trace_new tie_meta :: unit trace)) two_explored)) es
       (sim_with_ready_policy (exploration_ready_choose fifo_ready_choose) qr
         (set_frontier_policy (exploration_choose no_text fifo_choose) q sim'))"
    by (auto simp: both_decisions_def)
  with es show ?thesis
    by (intro exI [of _ es] exI [of _ sim'] exI [of _ ods] exI [of _ q] exI [of _ qr] conjI)
qed

end
