(* ===== verification/Draw_Replay.thy ===== *)
theory Draw_Replay
  imports Trace
begin

text \<open>
  Random draws and concurrency events in traces: \<open>des-core/src/randomness.rs\<close>,
  \<open>des-explore/src/rng.rs\<close>, \<open>replay_rng.rs\<close>, their shared variants, and \<open>concurrency.rs\<close>. A
  provider is a function of its state, the draw site and the rate; \<open>None\<close> is a panic. The
  generator and the exponential distribution are external: \<open>exp_sample rng rate\<close> stands for
  \<open>rng.sample(Exp::new(rate))\<close>. The providers of a run write to one recorder.
\<close>

section \<open>Draw sites\<close>

record draw_site =
  ds_tag :: string
  ds_site_id :: u64

definition draw_site_new :: "string \<Rightarrow> u64 \<Rightarrow> draw_site" where
  "draw_site_new tag site_id = \<lparr>ds_tag = tag, ds_site_id = site_id\<rparr>"

section \<open>Providers\<close>

type_synonym ('s, 'f) random_provider = "'s \<Rightarrow> draw_site \<Rightarrow> 'f \<Rightarrow> ('f \<times> 's) option"

definition record_draw :: "draw_site \<Rightarrow> 'f \<Rightarrow> 'f trace \<Rightarrow> 'f trace" where
  "record_draw site value recorder =
     trace_record (RandomDraw \<lparr>rd_time_nanos = None, rd_tag = ds_tag site, rd_site_id = ds_site_id site,
                               rd_value = DF64 value\<rparr>) recorder"

record ('g, 'f) tracing_provider =
  tp_rng :: 'g
  tp_recorder :: "'f trace"

definition tracing_sample ::
  "('g \<Rightarrow> 'f \<Rightarrow> ('f \<times> 'g) option) \<Rightarrow> (('g, 'f) tracing_provider, 'f) random_provider"
where
  "tracing_sample exp_sample tp site rate =
     (case exp_sample (tp_rng tp) rate of
        None \<Rightarrow> None
      | Some (value, rng) \<Rightarrow>
          Some (value, tp\<lparr>tp_rng := rng, tp_recorder := record_draw site value (tp_recorder tp)\<rparr>))"

text \<open>The state of a replay: the remaining draws, and the recorder it appends to.\<close>

definition replay_sample ::
  "'f random_draw list \<times> 'f trace \<Rightarrow> draw_site \<Rightarrow> ('f \<times> 'f random_draw list \<times> 'f trace) option"
where
  "replay_sample st site =
     (case fst st of
        [] \<Rightarrow> None
      | nxt # draws \<Rightarrow>
          if rd_site_id nxt \<noteq> ds_site_id site then None
          else (case rd_value nxt of
                  DF64 value \<Rightarrow> Some (value, draws, record_draw site value (snd st))
                | _ \<Rightarrow> None))"

text \<open>The provider that replays a prefix and then draws afresh.\<close>

record ('g, 'f) chained_provider =
  ch_draws :: "'f random_draw list"
  ch_fallback :: "('g, 'f) tracing_provider"

definition chained_new :: "'f trace \<Rightarrow> ('g, 'f) tracing_provider \<Rightarrow> ('g, 'f) chained_provider" where
  "chained_new pre fb = \<lparr>ch_draws = random_draws (tr_events pre), ch_fallback = fb\<rparr>"

definition chained_sample ::
  "('g \<Rightarrow> 'f \<Rightarrow> ('f \<times> 'g) option) \<Rightarrow> (('g, 'f) chained_provider, 'f) random_provider"
where
  "chained_sample exp_sample ch site rate =
     (if ch_draws ch \<noteq> [] then
        (case replay_sample (ch_draws ch, tp_recorder (ch_fallback ch)) site of
           None \<Rightarrow> None
         | Some (value, draws, recorder) \<Rightarrow>
             Some (value, ch\<lparr>ch_draws := draws, ch_fallback := (ch_fallback ch)\<lparr>tp_recorder := recorder\<rparr>\<rparr>))
      else
        (case tracing_sample exp_sample (ch_fallback ch) site rate of
           None \<Rightarrow> None
         | Some (value, fb) \<Rightarrow> Some (value, ch\<lparr>ch_fallback := fb\<rparr>)))"

definition shared_chained_new ::
  "'f trace option \<Rightarrow> ('g, 'f) tracing_provider \<Rightarrow> ('g, 'f) chained_provider"
where
  "shared_chained_new pre fb =
     \<lparr>ch_draws = (case pre of None \<Rightarrow> [] | Some tr \<Rightarrow> random_draws (tr_events tr)), ch_fallback = fb\<rparr>"

definition shared_chained_sample ::
  "('g \<Rightarrow> 'f \<Rightarrow> ('f \<times> 'g) option) \<Rightarrow> (('g, 'f) chained_provider, 'f) random_provider"
where
  "shared_chained_sample exp_sample ch site rate =
     (case ch_draws ch of
        nxt # draws \<Rightarrow>
          if rd_site_id nxt \<noteq> ds_site_id site then None
          else (case rd_value nxt of
                  DF64 value \<Rightarrow>
                    Some (value, ch\<lparr>ch_draws := draws, ch_fallback := (ch_fallback ch)
                      \<lparr>tp_recorder := record_draw site value (tp_recorder (ch_fallback ch))\<rparr>\<rparr>)
                | _ \<Rightarrow> None)
      | [] \<Rightarrow>
          (case tracing_sample exp_sample (ch_fallback ch) site rate of
             None \<Rightarrow> None
           | Some (value, fb) \<Rightarrow> Some (value, ch\<lparr>ch_fallback := fb\<rparr>)))"

text \<open>The draws a simulation makes, one after the other.\<close>

fun draw_all :: "('s, 'f) random_provider \<Rightarrow> 's \<Rightarrow> (draw_site \<times> 'f) list \<Rightarrow> ('f list \<times> 's) option" where
  "draw_all prov s [] = Some ([], s)"
| "draw_all prov s ((site, rate) # calls) =
     (case prov s site rate of
        None \<Rightarrow> None
      | Some (v, s) \<Rightarrow> map_option (\<lambda>(vs, s). (v # vs, s)) (draw_all prov s calls))"

section \<open>Replayed draws\<close>

lemma shared_chained_eq [simp]: "shared_chained_sample exp_sample = chained_sample exp_sample"
  by (intro ext) (auto simp: shared_chained_sample_def chained_sample_def replay_sample_def
      split: list.splits draw_value.splits option.splits)

lemma draw_all_append:
  "draw_all prov s (calls @ later) =
     (case draw_all prov s calls of
        None \<Rightarrow> None
      | Some (vs, s) \<Rightarrow> map_option (\<lambda>(vs', s). (vs @ vs', s)) (draw_all prov s later))"
  by (induction prov s calls rule: draw_all.induct)
    (auto simp: option.map_comp comp_def map_option_case split: option.splits prod.splits)

lemma record_draw_events [simp]:
  "tr_events (record_draw site v tr) = tr_events tr @ [RandomDraw \<lparr>rd_time_nanos = None,
     rd_tag = ds_tag site, rd_site_id = ds_site_id site, rd_value = DF64 v\<rparr>]"
  by (simp add: record_draw_def trace_record_def)

text \<open>The draw that a provider records.\<close>

definition drawn :: "draw_site \<times> 'f \<Rightarrow> 'f \<Rightarrow> 'f random_draw" where
  "drawn call v = \<lparr>rd_time_nanos = None, rd_tag = ds_tag (fst call), rd_site_id = ds_site_id (fst call),
     rd_value = DF64 v\<rparr>"

lemma drawn_values: "length vs = length calls \<Longrightarrow> map rd_value (map2 drawn calls vs) = map DF64 vs"
  by (induction vs calls rule: list_induct2) (simp_all add: drawn_def)

lemma tracing_sample_Some:
  "tracing_sample exp_sample tp site rate = Some (v, s) \<longleftrightarrow>
     (\<exists>rng. exp_sample (tp_rng tp) rate = Some (v, rng) \<and>
        s = tp\<lparr>tp_rng := rng, tp_recorder := record_draw site v (tp_recorder tp)\<rparr>)"
  by (auto simp: tracing_sample_def split: option.splits)

lemma tracing_log:
  "draw_all (tracing_sample exp_sample) tp calls = Some (vs, tp') \<Longrightarrow>
   length vs = length calls \<and>
   random_draws (tr_events (tp_recorder tp')) = random_draws (tr_events (tp_recorder tp)) @ map2 drawn calls vs"
proof (induction calls arbitrary: tp vs)
  case (Cons c calls)
  then obtain v rng vs' where
    "exp_sample (tp_rng tp) (snd c) = Some (v, rng)" "vs = v # vs'"
    "draw_all (tracing_sample exp_sample)
       (tp\<lparr>tp_rng := rng, tp_recorder := record_draw (fst c) v (tp_recorder tp)\<rparr>) calls = Some (vs', tp')"
    by (cases c) (auto simp: tracing_sample_Some split: option.splits prod.splits)
  with Cons.IH [OF this(3)] show ?case by (simp add: drawn_def)
qed simp

lemma chained_replays:
  assumes "length vs = length calls" "map (\<lambda>c. ds_site_id (fst c)) calls' = map (\<lambda>c. ds_site_id (fst c)) calls"
  shows "\<exists>fb'. draw_all (chained_sample exp_sample) \<lparr>ch_draws = map2 drawn calls vs, ch_fallback = fb\<rparr> calls' =
      Some (vs, \<lparr>ch_draws = [], ch_fallback = fb'\<rparr>) \<and> tp_rng fb' = tp_rng fb \<and>
    random_draws (tr_events (tp_recorder fb')) = random_draws (tr_events (tp_recorder fb)) @ map2 drawn calls' vs"
  using assms
proof (induction vs calls arbitrary: calls' fb rule: list_induct2)
  case Nil
  then show ?case by simp
next
  case (Cons v vs c calls)
  then obtain c' rest where c': "calls' = c' # rest" by (cases calls') auto
  with Cons.prems have site: "ds_site_id (fst c') = ds_site_id (fst c)"
    and rest: "map (\<lambda>c. ds_site_id (fst c)) rest = map (\<lambda>c. ds_site_id (fst c)) calls" by simp_all
  let ?fb = "fb\<lparr>tp_recorder := record_draw (fst c') v (tp_recorder fb)\<rparr>"
  have "chained_sample exp_sample \<lparr>ch_draws = drawn c v # map2 drawn calls vs, ch_fallback = fb\<rparr> (fst c') (snd c') =
      Some (v, \<lparr>ch_draws = map2 drawn calls vs, ch_fallback = ?fb\<rparr>)"
    using site by (simp add: chained_sample_def replay_sample_def drawn_def)
  with Cons.IH [OF rest, of ?fb] c' show ?case
    by (cases c') (auto simp: drawn_def)
qed

text \<open>
  C39. Replay of random draws: the draws recorded in one run, replayed as a prefix, give the same
  values at the same sites, in their order, whatever generator, seed and rates the second run
  uses; the draws after the prefix come from the fresh generator, from its start. The second
  run records what the first one recorded, under its own tags.
\<close>

theorem draw_prefix_replayed:
  assumes "draw_all (tracing_sample exp_sample) tp calls = Some (vs, tp')"
    and "random_draws (tr_events (tp_recorder tp)) = []"
    and "random_draws (tr_events pre) = random_draws (tr_events (tp_recorder tp'))"
    and "map (\<lambda>c. ds_site_id (fst c)) calls' = map (\<lambda>c. ds_site_id (fst c)) calls"
  shows "\<exists>fb'. tp_rng fb' = tp_rng fb \<and>
    map rd_value (random_draws (tr_events (tp_recorder fb'))) =
      map rd_value (random_draws (tr_events (tp_recorder fb))) @ map DF64 vs \<and>
    draw_all (shared_chained_sample exp_sample') (shared_chained_new (Some pre) fb) (calls' @ later) =
      map_option (\<lambda>(vs', fb''). (vs @ vs', \<lparr>ch_draws = [], ch_fallback = fb''\<rparr>))
        (draw_all (tracing_sample exp_sample') fb' later)"
proof -
  have log: "length vs = length calls" "random_draws (tr_events pre) = map2 drawn calls vs"
    using tracing_log [OF assms(1)] assms(2,3) by simp_all
  have len: "length calls' = length calls"
    using assms(4) by (rule map_eq_imp_length_eq)
  from chained_replays [OF log(1) assms(4), of exp_sample' fb] obtain fb' where
    fb: "draw_all (chained_sample exp_sample') (shared_chained_new (Some pre) fb) calls' =
      Some (vs, \<lparr>ch_draws = [], ch_fallback = fb'\<rparr>)" "tp_rng fb' = tp_rng fb"
      "random_draws (tr_events (tp_recorder fb')) = random_draws (tr_events (tp_recorder fb)) @ map2 drawn calls' vs"
    by (auto simp: shared_chained_new_def log(2))
  have tail: "draw_all (chained_sample exp_sample') \<lparr>ch_draws = [], ch_fallback = f\<rparr> later =
      map_option (\<lambda>(vs', fb''). (vs', \<lparr>ch_draws = [], ch_fallback = fb''\<rparr>))
        (draw_all (tracing_sample exp_sample') f later)" for f
    by (induction later arbitrary: f)
      (auto simp: chained_sample_def option.map_comp comp_def split_beta split: option.splits)
  have "map rd_value (map2 drawn calls' vs) = map DF64 vs"
    by (rule drawn_values) (use log(1) len in simp)
  with fb tail show ?thesis
    by (intro exI [of _ fb']) (simp add: draw_all_append option.map_comp comp_def case_prod_unfold)
qed

theorem draw_prefix_replayed_witness:
  "draw_all (shared_chained_sample (\<lambda>g r. Some (100 + g + r, g + 1)))
     (shared_chained_new (Some \<lparr>tr_meta = \<lparr>tm_seed = 1, tm_scenario = []\<rparr>,
         tr_events = [SchedulerDecision \<lparr>sd_time_nanos = 0, sd_chosen_index = 0, sd_chosen_seq = None,
                        sd_frontier_seqs = [], sd_frontier = []\<rparr>,
                      RandomDraw (drawn (draw_site_new ''arrival'' 7, 3 :: nat) 8),
                      RandomDraw (drawn (draw_site_new ''service'' 9, 3) 9)]\<rparr>)
        \<lparr>tp_rng = 0, tp_recorder = trace_new \<lparr>tm_seed = 2, tm_scenario = []\<rparr>\<rparr>)
     ([(draw_site_new ''arrival'' 7, 1), (draw_site_new ''service'' 9, 1)] @ [(draw_site_new ''arrival'' 7, 1)])
   \<noteq> None"
proof -
  let ?pre = "\<lparr>tr_meta = \<lparr>tm_seed = 1, tm_scenario = []\<rparr>,
         tr_events = [SchedulerDecision \<lparr>sd_time_nanos = 0, sd_chosen_index = 0, sd_chosen_seq = None,
                        sd_frontier_seqs = [], sd_frontier = []\<rparr>,
                      RandomDraw (drawn (draw_site_new ''arrival'' 7, 3 :: nat) 8),
                      RandomDraw (drawn (draw_site_new ''service'' 9, 3) 9)]\<rparr>"
  let ?tp = "\<lparr>tp_rng = 5, tp_recorder = trace_new \<lparr>tm_seed = 1, tm_scenario = []\<rparr>\<rparr>"
  let ?calls = "[(draw_site_new ''arrival'' 7, 3 :: nat), (draw_site_new ''service'' 9, 3)]"
  let ?calls' = "[(draw_site_new ''arrival'' 7, 1 :: nat), (draw_site_new ''service'' 9, 1)]"
  obtain tp' where tp: "draw_all (tracing_sample (\<lambda>g r. Some (g + r, g + 1))) ?tp ?calls = Some ([8, 9], tp')"
    "random_draws (tr_events ?pre) = random_draws (tr_events (tp_recorder tp'))"
    by (simp add: tracing_sample_def trace_new_def drawn_def)
  have "random_draws (tr_events (tp_recorder ?tp)) = []"
    "map (\<lambda>c. ds_site_id (fst c)) ?calls' = map (\<lambda>c. ds_site_id (fst c)) ?calls"
    by (simp_all add: trace_new_def)
  from draw_prefix_replayed [OF tp(1) this(1) tp(2) this(2), where exp_sample' = "\<lambda>g r. Some (100 + g + r, g + 1)"
      and fb = "\<lparr>tp_rng = 0, tp_recorder = trace_new \<lparr>tm_seed = 2, tm_scenario = []\<rparr>\<rparr>"
      and later = "[(draw_site_new ''arrival'' 7, 1)]"]
  show ?thesis by (auto simp: tracing_sample_def)
qed

section \<open>Concurrency events\<close>

fun to_atomic_ordering :: "ordering \<Rightarrow> atomic_ordering" where
  "to_atomic_ordering Relaxed = ORelaxed"
| "to_atomic_ordering Acquire = OAcquire"
| "to_atomic_ordering Release = ORelease"
| "to_atomic_ordering AcqRel = OAcqRel"
| "to_atomic_ordering SeqCst = OSeqCst"

fun to_trace_event :: "concurrency_event \<Rightarrow> concurrency_trace_event" where
  "to_trace_event (MutexContended mutex_id task t waiter_count) =
     \<lparr>ct_time_nanos = t, ct_task_id = task, ct_event = KMutexContended mutex_id waiter_count\<rparr>"
| "to_trace_event (MutexAcquire mutex_id task t) =
     \<lparr>ct_time_nanos = t, ct_task_id = task, ct_event = KMutexAcquire mutex_id\<rparr>"
| "to_trace_event (MutexRelease mutex_id task t) =
     \<lparr>ct_time_nanos = t, ct_task_id = task, ct_event = KMutexRelease mutex_id\<rparr>"
| "to_trace_event (AtomicLoad site task t ord v) =
     \<lparr>ct_time_nanos = t, ct_task_id = task, ct_event = KAtomicLoad site (to_atomic_ordering ord) v\<rparr>"
| "to_trace_event (AtomicStore site task t ord v) =
     \<lparr>ct_time_nanos = t, ct_task_id = task, ct_event = KAtomicStore site (to_atomic_ordering ord) v\<rparr>"
| "to_trace_event (AtomicFetchAdd site task t ord prev nxt delta) =
     \<lparr>ct_time_nanos = t, ct_task_id = task,
      ct_event = KAtomicFetchAdd site (to_atomic_ordering ord) prev nxt delta\<rparr>"
| "to_trace_event (AtomicCompareExchange site task t success_order failure_order current expected new succeeded) =
     \<lparr>ct_time_nanos = t, ct_task_id = task,
      ct_event = KAtomicCompareExchange site (to_atomic_ordering success_order) (to_atomic_ordering failure_order)
        current expected new succeeded\<rparr>"

definition recording_concurrency_record :: "concurrency_event \<Rightarrow> 'f trace \<Rightarrow> 'f trace" where
  "recording_concurrency_record event recorder = trace_record (ConcurrencyObserved (to_trace_event event)) recorder"

datatype replay_concurrency_error =
  OutOfEvents (ce_index: usize)
| Mismatch (ce_index: usize) (ce_expected: concurrency_trace_event) (ce_actual: concurrency_trace_event)

record concurrency_validator =
  cv_expected :: "concurrency_trace_event list"
  cv_next :: usize
  cv_error :: "replay_concurrency_error option"

definition validator_from_trace_events :: "'f trace_event list \<Rightarrow> concurrency_validator" where
  "validator_from_trace_events es = \<lparr>cv_expected = concurrency_events es, cv_next = 0, cv_error = None\<rparr>"

definition has_expected_events :: "concurrency_validator \<Rightarrow> bool" where
  "has_expected_events v \<longleftrightarrow> cv_expected v \<noteq> []"

definition validator_fail :: "replay_concurrency_error \<Rightarrow> concurrency_validator \<Rightarrow> concurrency_validator" where
  "validator_fail err v = (if cv_error v = None then v\<lparr>cv_error := Some err\<rparr> else v)"

definition validator_record :: "concurrency_event \<Rightarrow> concurrency_validator \<Rightarrow> concurrency_validator" where
  "validator_record event v =
     (if cv_error v \<noteq> None then v
      else
        let actual = to_trace_event event; index = cv_next v
        in if \<not> index < length (cv_expected v) then validator_fail (OutOfEvents index) v
           else
             let expected = cv_expected v ! index
             in if expected \<noteq> actual then validator_fail (Mismatch index expected actual) v
                else v\<lparr>cv_next := index + 1\<rparr>)"

text \<open>The tee passes an event on to each of its recorders; here the two that a replay combines.\<close>

definition tee_record :: "concurrency_event \<Rightarrow> concurrency_validator \<times> 'f trace \<Rightarrow> concurrency_validator \<times> 'f trace" where
  "tee_record event vt = (validator_record event (fst vt), recording_concurrency_record event (snd vt))"

lemma tee_fold: "fold tee_record evs (v, tr) = (fold validator_record evs v, fold recording_concurrency_record evs tr)"
  by (induction evs arbitrary: v tr) (simp_all add: tee_record_def)

lemma recording_concurrency_log:
  "concurrency_events (tr_events (fold recording_concurrency_record evs tr)) =
     concurrency_events (tr_events tr) @ map to_trace_event evs"
  by (induction evs arbitrary: tr) (simp_all add: recording_concurrency_record_def trace_record_def)

lemma to_trace_event_inj: "to_trace_event e = to_trace_event e' \<longleftrightarrow> e = e'"
proof -
  have "to_atomic_ordering a = to_atomic_ordering b \<longleftrightarrow> a = b" for a b
    by (cases a; cases b) simp_all
  then show ?thesis by (cases e; cases e') auto
qed

lemma validator_step:
  "validator_record e \<lparr>cv_expected = pre, cv_next = length pre, cv_error = None\<rparr> =
     \<lparr>cv_expected = pre, cv_next = length pre, cv_error = Some (OutOfEvents (length pre))\<rparr>"
  "validator_record e \<lparr>cv_expected = pre @ x # xs, cv_next = length pre, cv_error = None\<rparr> =
     (if x = to_trace_event e
      then \<lparr>cv_expected = pre @ x # xs, cv_next = Suc (length pre), cv_error = None\<rparr>
      else \<lparr>cv_expected = pre @ x # xs, cv_next = length pre,
            cv_error = Some (Mismatch (length pre) x (to_trace_event e))\<rparr>)"
  by (simp_all add: validator_record_def validator_fail_def nth_append Let_def)

lemma validator_spec:
  "fold validator_record evs \<lparr>cv_expected = pre @ rest, cv_next = length pre, cv_error = None\<rparr> =
     (let i = length (takeWhile (\<lambda>(x, y). x = y) (zip rest (map to_trace_event evs)))
      in \<lparr>cv_expected = pre @ rest, cv_next = length pre + i,
          cv_error = (if i = length evs then None
            else if i < length rest then Some (Mismatch (length pre + i) (rest ! i) (to_trace_event (evs ! i)))
            else Some (OutOfEvents (length pre + i)))\<rparr>)"
proof (induction evs arbitrary: pre rest)
  case (Cons e evs)
  have stuck: "fold validator_record evs v = v" if "cv_error v \<noteq> None" for v
    using that by (induction evs) (simp_all add: validator_record_def)
  show ?case
  proof (cases rest)
    case Nil
    then show ?thesis by (simp add: validator_step stuck)
  next
    case (Cons x xs)
    show ?thesis
    proof (cases "x = to_trace_event e")
      case True
      then show ?thesis
        using Cons.IH [of "pre @ [x]" xs] \<open>rest = x # xs\<close>
        by (simp add: validator_step Let_def)
    next
      case False
      then show ?thesis
        using \<open>rest = x # xs\<close> by (simp add: validator_step stuck Let_def)
    qed
  qed
qed simp

text \<open>
  The validator of concurrency events accepts exactly the event sequences that begin as the
  recorded one: every deviation and every event too many is reported, at the position of the
  first difference. A run that ends before the recorded events are used up is accepted.
\<close>

theorem validator_accepts_prefixes:
  "cv_error (fold validator_record evs (validator_from_trace_events tes)) = None \<longleftrightarrow>
     (\<exists>rest. concurrency_events tes = map to_trace_event evs @ rest)"
proof -
  have all: "length (takeWhile (\<lambda>(x, y). x = y) (zip xs ys)) = length ys \<longleftrightarrow> (\<exists>rest. xs = ys @ rest)"
    for xs ys :: "concurrency_trace_event list"
  proof (induction ys arbitrary: xs)
    case (Cons y ys)
    then show ?case by (cases xs) auto
  qed simp
  show ?thesis
    using validator_spec [of evs "[]" "concurrency_events tes"] all [of "concurrency_events tes" "map to_trace_event evs"]
    by (simp add: validator_from_trace_events_def Let_def)
qed

end
