(* ===== verification/Monitor.thy ===== *)
theory Monitor
  imports Retry_Policy "HOL-Library.AList"
begin

text \<open>
  \<open>des-explore/src/monitor.rs\<close>: the monitor that summarises a run in windows of equal length,
  compares each window with a baseline and tells whether the system has recovered or stays
  in a bad state. The floating-point operations are those of a record and the latency
  histogram of the crate \<open>hdrhistogram\<close> is a parameter: no theorem depends on how they compute.
  Counters are natural numbers, and so is the 128-bit integral of a queue length. The map of
  queues is an association list, in an order in which its values are visited.
\<close>

section \<open>Configuration and summaries\<close>

record 'f mon_f64 = "'f f64" +
  f_add :: "'f \<Rightarrow> 'f \<Rightarrow> 'f"
  f_sub :: "'f \<Rightarrow> 'f \<Rightarrow> 'f"
  f_sqrt :: "'f \<Rightarrow> 'f"
  f_ceil :: "'f \<Rightarrow> 'f"
  f_min :: "'f \<Rightarrow> 'f \<Rightarrow> 'f"
  f_max :: "'f \<Rightarrow> 'f \<Rightarrow> 'f"
  f_le :: "'f \<Rightarrow> 'f \<Rightarrow> bool"
  f_infinity :: 'f
  f_literal :: "nat \<Rightarrow> nat \<Rightarrow> 'f"

text \<open>\<open>f_literal a b\<close> is the literal for the fraction \<open>a / b\<close>; \<open>'h\<close> is the type of histograms.\<close>

record ('h, 'f) hist_ops =
  hist_new_with_bounds :: "nat \<Rightarrow> nat \<Rightarrow> nat \<Rightarrow> 'h option"
  hist_record :: "u64 \<Rightarrow> 'h \<Rightarrow> 'h"
  hist_is_empty :: "'h \<Rightarrow> bool"
  hist_value_at_quantile :: "'f \<Rightarrow> 'h \<Rightarrow> nat"
  hist_reset :: "'h \<Rightarrow> 'h"

record 'f score_weights =
  sw_queue_mean :: 'f
  sw_retry_amplification :: 'f
  sw_timeout_rate_rps :: 'f
  sw_drop_rate_rps :: 'f
  sw_distance :: 'f

record 'f window_summary =
  ws_window_start :: simtime
  ws_window_end :: simtime
  ws_queue_mean :: 'f
  ws_queue_max :: nat
  ws_completed_in_time :: nat
  ws_completed_late :: nat
  ws_dropped :: nat
  ws_timeouts :: nat
  ws_retries :: nat
  ws_latency_mean_ms :: "'f option"
  ws_latency_p95_ms :: "'f option"
  ws_latency_p99_ms :: "'f option"
  ws_throughput_rps :: 'f
  ws_timeout_rate_rps :: 'f
  ws_retry_rate_rps :: 'f
  ws_drop_rate_rps :: 'f
  ws_retry_amplification :: 'f
  ws_distance_to_baseline :: "'f option"

record 'f monitor_config =
  mc_window :: duration
  mc_baseline_warmup_windows :: usize
  mc_recovery_hold_windows :: usize
  mc_baseline_epsilon :: 'f
  mc_metastable_persist_windows :: usize
  mc_recovery_time_limit :: "duration option"
  mc_track_latency_quantiles :: bool
  mc_latency_histogram_max_ms :: nat
  mc_retry_amplification_cap :: 'f
  mc_score_weights :: "'f score_weights"

record 'f monitor_status =
  ms_windows_seen :: usize
  ms_recovered :: bool
  ms_metastable :: bool
  ms_recovery_time :: "duration option"
  ms_last_distance :: "'f option"
  ms_score :: 'f

section \<open>Baseline\<close>

record 'f running_stats =
  rs_n :: nat
  rs_mean :: 'f
  rs_m2 :: 'f

definition running_stats_update :: "('f, 'z) mon_f64_scheme \<Rightarrow> 'f \<Rightarrow> 'f running_stats \<Rightarrow> 'f running_stats" where
  "running_stats_update F x s =
     (let s = s\<lparr>rs_n := rs_n s + 1\<rparr>;
          n = f_of_nat F (rs_n s);
          delta = f_sub F x (rs_mean s);
          s = s\<lparr>rs_mean := f_add F (rs_mean s) (f_div F delta n)\<rparr>;
          delta2 = f_sub F x (rs_mean s)
      in s\<lparr>rs_m2 := f_add F (rs_m2 s) (f_mul F delta delta2)\<rparr>)"

definition running_stats_variance :: "('f, 'z) mon_f64_scheme \<Rightarrow> 'f running_stats \<Rightarrow> 'f" where
  "running_stats_variance F s =
     (if rs_n s < 2 then f_of_nat F 0
      else f_div F (rs_m2 s) (f_sub F (f_of_nat F (rs_n s)) (f_of_nat F 1)))"

type_synonym 'f baseline_model = "'f running_stats list"

definition baseline_default :: "('f, 'z) mon_f64_scheme \<Rightarrow> 'f baseline_model" where
  "baseline_default F = replicate 6 \<lparr>rs_n = 0, rs_mean = f_of_nat F 0, rs_m2 = f_of_nat F 0\<rparr>"

definition baseline_observe :: "('f, 'z) mon_f64_scheme \<Rightarrow> 'f list \<Rightarrow> 'f baseline_model \<Rightarrow> 'f baseline_model" where
  "baseline_observe F features b = map2 (running_stats_update F) features b"

definition baseline_var :: "('f, 'z) mon_f64_scheme \<Rightarrow> 'f baseline_model \<Rightarrow> 'f list" where
  "baseline_var F b = map (\<lambda>s. f_max F (running_stats_variance F s) (f_of_nat F 1)) b"

definition baseline_distance :: "('f, 'z) mon_f64_scheme \<Rightarrow> 'f baseline_model \<Rightarrow> 'f list \<Rightarrow> 'f" where
  "baseline_distance F b features =
     f_sqrt F (fold (\<lambda>(x, mu, v) acc.
         let z = f_div F (f_sub F x mu) (f_sqrt F v) in f_add F acc (f_mul F z z))
       (zip features (zip (map rs_mean b) (baseline_var F b))) (f_of_nat F 0))"

section \<open>Queues\<close>

record queue_state =
  qs_len :: u64
  qs_max :: u64
  qs_window_start :: simtime
  qs_last_time :: simtime
  qs_integral_len_nanos :: nat

definition queue_state_new :: "simtime \<Rightarrow> queue_state" where
  "queue_state_new ws =
     \<lparr>qs_len = 0, qs_max = 0, qs_window_start = ws, qs_last_time = ws, qs_integral_len_nanos = 0\<rparr>"

definition observe_len :: "simtime \<Rightarrow> u64 \<Rightarrow> queue_state \<Rightarrow> queue_state" where
  "observe_len now new_len q =
     (let dt = duration_since now (qs_last_time q)
      in q\<lparr>qs_integral_len_nanos := qs_integral_len_nanos q + unat (qs_len q) * dt, qs_last_time := now,
           qs_len := new_len, qs_max := max (qs_max q) new_len\<rparr>)"

definition queue_mean :: "('f, 'z) mon_f64_scheme \<Rightarrow> simtime \<Rightarrow> queue_state \<Rightarrow> 'f" where
  "queue_mean F wend q =
     (let window_dur_nanos = duration_since wend (qs_window_start q)
      in if window_dur_nanos = 0 then f_of_nat F (unat (qs_len q))
         else f_div F (f_of_nat F (qs_integral_len_nanos q)) (f_of_nat F window_dur_nanos))"

definition finalize_window ::
  "('f, 'z) mon_f64_scheme \<Rightarrow> simtime \<Rightarrow> queue_state \<Rightarrow> ('f \<times> u64) \<times> queue_state"
where
  "finalize_window F wend q =
     (let dt = duration_since wend (qs_last_time q);
          q = q\<lparr>qs_integral_len_nanos := qs_integral_len_nanos q + unat (qs_len q) * dt, qs_last_time := wend\<rparr>
      in ((queue_mean F wend q, qs_max q), q))"

definition reset_for_next_window :: "simtime \<Rightarrow> queue_state \<Rightarrow> queue_state" where
  "reset_for_next_window now q =
     q\<lparr>qs_window_start := now, qs_last_time := now, qs_max := qs_len q, qs_integral_len_nanos := 0\<rparr>"

section \<open>The monitor\<close>

record ('f, 'h) monitor =
  mo_cfg :: "'f monitor_config"
  mo_window_start :: simtime
  mo_window_end :: simtime
  mo_queues :: "(nat \<times> queue_state) list"
  mo_completed_in_time :: nat
  mo_completed_late :: nat
  mo_dropped :: nat
  mo_timeouts :: nat
  mo_retries :: nat
  mo_latency_sum_ms :: 'f
  mo_latency_count :: nat
  mo_latency_hist :: "'h option"
  mo_baseline :: "'f baseline_model"
  mo_baseline_windows_seen :: usize
  mo_recovered_hold :: usize
  mo_post_spike_start :: "simtime option"
  mo_metastable_persist :: usize
  mo_timeline :: "'f window_summary list"

text \<open>\<open>None\<close> is the panic on invalid bounds of the histogram.\<close>

definition monitor_new ::
  "('f, 'z) mon_f64_scheme \<Rightarrow> ('h, 'f) hist_ops \<Rightarrow> 'f monitor_config \<Rightarrow> simtime \<Rightarrow> ('f, 'h) monitor option"
where
  "monitor_new F H cfg start =
     (case (if mc_track_latency_quantiles cfg
            then map_option Some (hist_new_with_bounds H 1 (mc_latency_histogram_max_ms cfg) 3)
            else Some None) of
        None \<Rightarrow> None
      | Some hist \<Rightarrow> Some
          \<lparr>mo_cfg = cfg, mo_window_start = start, mo_window_end = add_duration start (mc_window cfg),
           mo_queues = [], mo_completed_in_time = 0, mo_completed_late = 0, mo_dropped = 0, mo_timeouts = 0,
           mo_retries = 0, mo_latency_sum_ms = f_of_nat F 0, mo_latency_count = 0, mo_latency_hist = hist,
           mo_baseline = baseline_default F, mo_baseline_windows_seen = 0, mo_recovered_hold = 0,
           mo_post_spike_start = None, mo_metastable_persist = 0, mo_timeline = []\<rparr>)"

definition mark_post_spike_start :: "simtime \<Rightarrow> ('f, 'h) monitor \<Rightarrow> ('f, 'h) monitor" where
  "mark_post_spike_start t m = m\<lparr>mo_post_spike_start := Some t\<rparr>"

text \<open>The summary of the window that ends, before its distance is known, and its features.\<close>

definition window_summary_of ::
  "('f, 'z) mon_f64_scheme \<Rightarrow> ('h, 'f) hist_ops \<Rightarrow> simtime \<Rightarrow> ('f \<times> u64) list \<Rightarrow> ('f, 'h) monitor
    \<Rightarrow> 'f window_summary"
where
  "window_summary_of F H wend finals m =
     (let total = fold (\<lambda>(mean, _) acc. f_add F acc mean) finals (f_of_nat F 0);
          window_secs = f_secs F (mc_window (mo_cfg m));
          rate = (\<lambda>n. f_div F (f_of_nat F n) window_secs);
          quantile = (\<lambda>a. case mo_latency_hist m of
             Some hist \<Rightarrow> if hist_is_empty H hist then None
                          else Some (f_of_nat F (hist_value_at_quantile H (f_literal F a 100) hist))
           | None \<Rightarrow> None)
      in \<lparr>ws_window_start = mo_window_start m, ws_window_end = wend,
          ws_queue_mean = (if finals = [] then f_of_nat F 0 else f_div F total (f_of_nat F (length finals))),
          ws_queue_max = unat (fold (\<lambda>(_, mx) acc. max acc mx) finals 0),
          ws_completed_in_time = mo_completed_in_time m, ws_completed_late = mo_completed_late m,
          ws_dropped = mo_dropped m, ws_timeouts = mo_timeouts m, ws_retries = mo_retries m,
          ws_latency_mean_ms = Some (if mo_latency_count m = 0 then f_of_nat F 0
             else f_div F (mo_latency_sum_ms m) (f_of_nat F (mo_latency_count m))),
          ws_latency_p95_ms = quantile 95, ws_latency_p99_ms = quantile 99,
          ws_throughput_rps = rate (mo_completed_in_time m), ws_timeout_rate_rps = rate (mo_timeouts m),
          ws_retry_rate_rps = rate (mo_retries m), ws_drop_rate_rps = rate (mo_dropped m),
          ws_retry_amplification = (if mo_completed_in_time m = 0 then f_infinity F
             else f_div F (f_of_nat F (mo_retries m)) (f_of_nat F (mo_completed_in_time m))),
          ws_distance_to_baseline = None\<rparr>)"

definition window_features ::
  "('f, 'z) mon_f64_scheme \<Rightarrow> 'f monitor_config \<Rightarrow> 'f window_summary \<Rightarrow> 'f list"
where
  "window_features F cfg w =
     [ws_queue_mean w, (case ws_latency_mean_ms w of Some x \<Rightarrow> x | None \<Rightarrow> f_of_nat F 0),
      ws_drop_rate_rps w, ws_timeout_rate_rps w,
      f_min F (ws_retry_amplification w) (mc_retry_amplification_cap cfg), ws_throughput_rps w]"

text \<open>Baseline during the warm-up, then the counters of recovery and persistence.\<close>

definition classify_window ::
  "('f, 'z) mon_f64_scheme \<Rightarrow> 'f window_summary \<Rightarrow> ('f, 'h) monitor \<Rightarrow> 'f window_summary \<times> ('f, 'h) monitor"
where
  "classify_window F w m =
     (let features = window_features F (mo_cfg m) w
      in if mo_baseline_windows_seen m < mc_baseline_warmup_windows (mo_cfg m)
         then (w, m\<lparr>mo_baseline := baseline_observe F features (mo_baseline m),
                     mo_baseline_windows_seen := mo_baseline_windows_seen m + 1\<rparr>)
         else
           let d = baseline_distance F (mo_baseline m) features;
               w = w\<lparr>ws_distance_to_baseline := Some d\<rparr>
           in if f_le F d (mc_baseline_epsilon (mo_cfg m))
              then (w, m\<lparr>mo_recovered_hold := mo_recovered_hold m + 1, mo_metastable_persist := 0\<rparr>)
              else (w, m\<lparr>mo_recovered_hold := 0, mo_metastable_persist := mo_metastable_persist m + 1\<rparr>))"

definition flush_window ::
  "('f, 'z) mon_f64_scheme \<Rightarrow> ('h, 'f) hist_ops \<Rightarrow> simtime \<Rightarrow> ('f, 'h) monitor \<Rightarrow> ('f, 'h) monitor"
where
  "flush_window F H wend m =
     (let finals = map (\<lambda>(_, q). fst (finalize_window F wend q)) (mo_queues m);
          m = m\<lparr>mo_queues := map (\<lambda>(i, q). (i, snd (finalize_window F wend q))) (mo_queues m)\<rparr>;
          (w, m) = classify_window F (window_summary_of F H wend finals m) m
      in m\<lparr>mo_timeline := mo_timeline m @ [w],
           mo_window_start := wend, mo_window_end := add_duration wend (mc_window (mo_cfg m)),
           mo_completed_in_time := 0, mo_completed_late := 0, mo_dropped := 0, mo_timeouts := 0,
           mo_retries := 0, mo_latency_sum_ms := f_of_nat F 0, mo_latency_count := 0,
           mo_latency_hist := map_option (hist_reset H) (mo_latency_hist m),
           mo_queues := map (\<lambda>(i, q). (i, reset_for_next_window wend q)) (mo_queues m)\<rparr>)"

text \<open>The loop of \<open>flush_up_to\<close>; \<open>None\<close> is a loop that does not end.\<close>

partial_function (option) flush_loop ::
  "('f, 'z) mon_f64_scheme \<Rightarrow> ('h, 'f) hist_ops \<Rightarrow> simtime \<Rightarrow> ('f, 'h) monitor \<Rightarrow> ('f, 'h) monitor option"
where
  "flush_loop F H now m =
     (if mo_window_end m \<le> now then flush_loop F H now (flush_window F H (mo_window_end m) m) else Some m)"

definition flush_up_to ::
  "('f, 'z) mon_f64_scheme \<Rightarrow> ('h, 'f) hist_ops \<Rightarrow> simtime \<Rightarrow> ('f, 'h) monitor \<Rightarrow> ('f, 'h) monitor option"
where
  "flush_up_to F H now m =
     map_option (\<lambda>m. m\<lparr>mo_queues := map (\<lambda>(i, q). (i, observe_len now (qs_len q) q)) (mo_queues m)\<rparr>)
       (flush_loop F H now m)"

section \<open>Observations\<close>

datatype observation =
  QueueLen nat u64
| Dropped
| TimedOut
| Retried
| Completed duration bool

definition complete_in_time ::
  "('f, 'z) mon_f64_scheme \<Rightarrow> ('h, 'f) hist_ops \<Rightarrow> duration \<Rightarrow> ('f, 'h) monitor \<Rightarrow> ('f, 'h) monitor"
where
  "complete_in_time F H latency m =
     (let ms = f_mul F (f_secs F latency) (f_of_nat F 1000);
          ms_u64 = f_to_u64 F (f_clamp F (f_ceil F ms) (f_of_nat F 1)
                     (f_of_nat F (mc_latency_histogram_max_ms (mo_cfg m))))
      in m\<lparr>mo_completed_in_time := mo_completed_in_time m + 1,
           mo_latency_sum_ms := f_add F (mo_latency_sum_ms m) ms, mo_latency_count := mo_latency_count m + 1,
           mo_latency_hist := map_option (hist_record H ms_u64) (mo_latency_hist m)\<rparr>)"

text \<open>The five \<open>observe_\<close> methods: each flushes first.\<close>

fun observe_flushed ::
  "('f, 'z) mon_f64_scheme \<Rightarrow> ('h, 'f) hist_ops \<Rightarrow> simtime \<Rightarrow> observation \<Rightarrow> ('f, 'h) monitor \<Rightarrow> ('f, 'h) monitor"
where
  "observe_flushed F H now (QueueLen i len) m =
     (let q = (case map_of (mo_queues m) i of Some q \<Rightarrow> q | None \<Rightarrow> queue_state_new (mo_window_start m))
      in m\<lparr>mo_queues := AList.update i (observe_len now len q) (mo_queues m)\<rparr>)"
| "observe_flushed F H now Dropped m = m\<lparr>mo_dropped := mo_dropped m + 1\<rparr>"
| "observe_flushed F H now TimedOut m = m\<lparr>mo_timeouts := mo_timeouts m + 1\<rparr>"
| "observe_flushed F H now Retried m = m\<lparr>mo_retries := mo_retries m + 1\<rparr>"
| "observe_flushed F H now (Completed latency in_time) m =
     (if in_time then complete_in_time F H latency m
      else m\<lparr>mo_completed_late := mo_completed_late m + 1\<rparr>)"

definition observe ::
  "('f, 'z) mon_f64_scheme \<Rightarrow> ('h, 'f) hist_ops \<Rightarrow> simtime \<times> observation \<Rightarrow> ('f, 'h) monitor \<Rightarrow> ('f, 'h) monitor option"
where
  "observe F H = (\<lambda>(now, ob) m. map_option (observe_flushed F H now ob) (flush_up_to F H now m))"

fun observe_all ::
  "('f, 'z) mon_f64_scheme \<Rightarrow> ('h, 'f) hist_ops \<Rightarrow> (simtime \<times> observation) list \<Rightarrow> ('f, 'h) monitor \<Rightarrow> ('f, 'h) monitor option"
where
  "observe_all F H [] m = Some m"
| "observe_all F H (x # xs) m = Option.bind (observe F H x m) (observe_all F H xs)"

section \<open>Status\<close>

definition monitor_recovered :: "('f, 'h) monitor \<Rightarrow> bool" where
  "monitor_recovered m \<longleftrightarrow> mc_recovery_hold_windows (mo_cfg m) \<le> mo_recovered_hold m"

definition last_window :: "('f, 'h) monitor \<Rightarrow> 'f window_summary option" where
  "last_window m = (if mo_timeline m = [] then None else Some (last (mo_timeline m)))"

definition recovery_time :: "('f, 'h) monitor \<Rightarrow> duration option" where
  "recovery_time m =
     (if \<not> monitor_recovered m then None
      else case mo_post_spike_start m of
             None \<Rightarrow> None
           | Some post \<Rightarrow> map_option (\<lambda>w. duration_since (ws_window_end w) post) (last_window m))"

definition is_metastable :: "('f, 'h) monitor \<Rightarrow> bool" where
  "is_metastable m \<longleftrightarrow>
     mc_metastable_persist_windows (mo_cfg m) \<le> mo_metastable_persist m \<or>
     (case (mc_recovery_time_limit (mo_cfg m), mo_post_spike_start m, last_window m) of
        (Some limit, Some post, Some w) \<Rightarrow>
          limit \<le> duration_since (ws_window_end w) post \<and> mo_recovered_hold m < mc_recovery_hold_windows (mo_cfg m)
      | _ \<Rightarrow> False)"

definition score :: "('f, 'z) mon_f64_scheme \<Rightarrow> ('f, 'h) monitor \<Rightarrow> 'f window_summary \<Rightarrow> 'f" where
  "score F m w =
     (let sw = mc_score_weights (mo_cfg m);
          s = f_of_nat F 0;
          s = f_add F s (f_mul F (sw_queue_mean sw) (ws_queue_mean w));
          s = f_add F s (f_mul F (sw_retry_amplification sw)
                (f_min F (ws_retry_amplification w) (mc_retry_amplification_cap (mo_cfg m))));
          s = f_add F s (f_mul F (sw_timeout_rate_rps sw) (ws_timeout_rate_rps w));
          s = f_add F s (f_mul F (sw_drop_rate_rps sw) (ws_drop_rate_rps w))
      in case ws_distance_to_baseline w of
           Some d \<Rightarrow> f_add F s (f_mul F (sw_distance sw) d)
         | None \<Rightarrow> s)"

definition status_of :: "('f, 'z) mon_f64_scheme \<Rightarrow> ('f, 'h) monitor \<Rightarrow> 'f monitor_status" where
  "status_of F m =
     \<lparr>ms_windows_seen = length (mo_timeline m), ms_recovered = monitor_recovered m,
      ms_metastable = is_metastable m, ms_recovery_time = recovery_time m,
      ms_last_distance = Option.bind (last_window m) ws_distance_to_baseline,
      ms_score = (case last_window m of Some w \<Rightarrow> score F m w | None \<Rightarrow> f_of_nat F 0)\<rparr>"

section \<open>Windows\<close>

text \<open>The counts of a summary, of the current window, and of the observations in an interval.\<close>

definition summary_counts :: "'f window_summary \<Rightarrow> nat list" where
  "summary_counts w = [ws_completed_in_time w, ws_completed_late w, ws_dropped w, ws_timeouts w, ws_retries w]"

definition current_counts :: "('f, 'h) monitor \<Rightarrow> nat list" where
  "current_counts m =
     [mo_completed_in_time m, mo_completed_late m, mo_dropped m, mo_timeouts m, mo_retries m]"

fun completes :: "bool \<Rightarrow> observation \<Rightarrow> bool" where
  "completes b (Completed latency in_time) \<longleftrightarrow> in_time = b"
| "completes b _ \<longleftrightarrow> False"

definition obs_counts :: "simtime \<Rightarrow> simtime \<Rightarrow> (simtime \<times> observation) list \<Rightarrow> nat list" where
  "obs_counts s e obs =
     map (\<lambda>k. length (filter (\<lambda>(t, ob). s \<le> t \<and> t < e \<and> k ob) obs))
       [completes True, completes False, (=) Dropped, (=) TimedOut, (=) Retried]"

text \<open>Windows of length \<open>W\<close>, without gaps, from \<open>s\<close> to \<open>e\<close>.\<close>

fun tiled :: "duration \<Rightarrow> simtime \<Rightarrow> 'f window_summary list \<Rightarrow> simtime \<Rightarrow> bool" where
  "tiled W s [] e \<longleftrightarrow> e = s"
| "tiled W s (w # ws) e \<longleftrightarrow>
     ws_window_start w = s \<and> as_duration (ws_window_end w) = as_duration s + W \<and> tiled W (ws_window_end w) ws e"

lemma tiled_snoc:
  "tiled W s (ws @ [w]) e \<longleftrightarrow>
     tiled W s ws (ws_window_start w) \<and> as_duration (ws_window_end w) = as_duration (ws_window_start w) + W \<and>
     e = ws_window_end w"
  by (induction W s ws e rule: tiled.induct) auto

lemma as_duration_le: "t \<le> u \<longleftrightarrow> as_duration t \<le> as_duration u"
  by (simp add: as_duration_def simtime_order word_le_nat_alt)

lemma as_duration_less: "t < u \<longleftrightarrow> as_duration t < as_duration u"
  by (simp add: as_duration_def simtime_order word_less_nat_alt)

lemma as_duration_add_min: "as_duration (add_duration t d) = min (as_duration t + d) (2 ^ 64 - 1)"
  using simtime_arithmetic by blast

lemma tiled_bounds: "tiled W s ws e \<Longrightarrow> w \<in> set ws \<Longrightarrow> ws_window_end w \<le> e"
proof (induction ws arbitrary: e rule: rev_induct)
  case (snoc x ws)
  then have x: "tiled W s ws (ws_window_start x)" "as_duration (ws_window_end x) = as_duration (ws_window_start x) + W"
    "e = ws_window_end x" by (simp_all add: tiled_snoc)
  show ?case
  proof (cases "w \<in> set ws")
    case True
    from snoc.IH [OF x(1) True] x show ?thesis by (simp add: as_duration_le)
  qed (use snoc.prems x in simp)
qed simp

lemma obs_counts_outside: "\<not> (s \<le> t \<and> t < e) \<Longrightarrow> obs_counts s e (obs @ [(t, ob)]) = obs_counts s e obs"
  by (auto simp: obs_counts_def)

lemma obs_counts_before:
  assumes "\<And>t ob. (t, ob) \<in> set obs \<Longrightarrow> t < s"
  shows "obs_counts s e obs = [0, 0, 0, 0, 0]"
proof -
  have "filter (\<lambda>(t, ob). s \<le> t \<and> t < e \<and> k ob) obs = []" for k
    using assms by (fastforce simp: filter_empty_conv)
  then show ?thesis by (simp add: obs_counts_def)
qed

text \<open>What flushing a window does to the fields that the counting depends on.\<close>

lemma classify_window_fields [simp]:
  "mo_cfg (snd (classify_window F w m)) = mo_cfg m" "mo_timeline (snd (classify_window F w m)) = mo_timeline m"
  "ws_window_start (fst (classify_window F w m)) = ws_window_start w"
  "ws_window_end (fst (classify_window F w m)) = ws_window_end w"
  "summary_counts (fst (classify_window F w m)) = summary_counts w"
  "mo_post_spike_start (snd (classify_window F w m)) = mo_post_spike_start m"
  by (simp_all add: classify_window_def Let_def summary_counts_def)

lemma flush_window_fields [simp]:
  "mo_cfg (flush_window F H wend m) = mo_cfg m" "mo_window_start (flush_window F H wend m) = wend"
  "mo_window_end (flush_window F H wend m) = add_duration wend (mc_window (mo_cfg m))"
  "current_counts (flush_window F H wend m) = [0, 0, 0, 0, 0]"
  "mo_post_spike_start (flush_window F H wend m) = mo_post_spike_start m"
  by (simp_all add: flush_window_def Let_def current_counts_def split_beta)

lemma flush_window_timeline:
  "\<exists>w. mo_timeline (flush_window F H wend m) = mo_timeline m @ [w] \<and> ws_window_start w = mo_window_start m \<and>
     ws_window_end w = wend \<and> summary_counts w = current_counts m"
  by (simp add: flush_window_def Let_def split_beta)
    (simp add: window_summary_of_def summary_counts_def current_counts_def Let_def)

text \<open>The observations so far are counted in the windows they fall into.\<close>

definition counts_ok :: "simtime \<Rightarrow> duration \<Rightarrow> (simtime \<times> observation) list \<Rightarrow> ('f, 'h) monitor \<Rightarrow> bool" where
  "counts_ok start W obs m \<longleftrightarrow>
     mc_window (mo_cfg m) = W \<and> mo_window_end m = add_duration (mo_window_start m) W \<and>
     tiled W start (mo_timeline m) (mo_window_start m) \<and>
     (\<forall>w\<in>set (mo_timeline m). summary_counts w = obs_counts (ws_window_start w) (ws_window_end w) obs) \<and>
     current_counts m = obs_counts (mo_window_start m) (mo_window_end m) obs \<and>
     (\<forall>(t, ob)\<in>set obs. t < mo_window_end m)"

lemma flush_window_counts:
  assumes ok: "counts_ok start W obs m" and le: "mo_window_end m \<le> now" and now: "as_duration now < 2 ^ 64 - 1"
  shows "counts_ok start W obs (flush_window F H (mo_window_end m) m)"
proof -
  let ?m = "flush_window F H (mo_window_end m) m"
  obtain w where w: "mo_timeline ?m = mo_timeline m @ [w]" "ws_window_start w = mo_window_start m"
    "ws_window_end w = mo_window_end m" "summary_counts w = current_counts m"
    using flush_window_timeline by blast
  have "as_duration (mo_window_end m) = as_duration (mo_window_start m) + W"
    using ok le now by (simp add: counts_ok_def as_duration_le as_duration_add_min min_def split: if_splits)
  with ok w have "tiled W start (mo_timeline ?m) (mo_window_start ?m)"
    by (simp add: counts_ok_def tiled_snoc)
  moreover have before: "t < mo_window_end m" if "(t, ob) \<in> set obs" for t ob
    using ok that by (auto simp: counts_ok_def)
  then have "current_counts ?m = obs_counts (mo_window_start ?m) (mo_window_end ?m) obs"
    by (simp add: obs_counts_before)
  moreover have "mo_window_end m \<le> add_duration (mo_window_end m) W"
    using now le by (simp add: as_duration_le as_duration_add_min)
  ultimately show ?thesis
    using ok w by (auto simp: counts_ok_def dest!: before)
qed

lemma flush_loop_counts:
  assumes "counts_ok start W obs m" "0 < W" "mo_window_start m \<le> now" "as_duration now < 2 ^ 64 - 1"
  shows "\<exists>m'. flush_loop F H now m = Some m' \<and> counts_ok start W obs m' \<and> mo_window_start m' \<le> now \<and>
    now < mo_window_end m'"
  using assms
proof (induction "as_duration now + 1 - as_duration (mo_window_end m)" arbitrary: m rule: less_induct)
  case less
  show ?case
  proof (cases "mo_window_end m \<le> now")
    case True
    let ?m = "flush_window F H (mo_window_end m) m"
    have W: "mc_window (mo_cfg m) = W" using less.prems(1) by (simp add: counts_ok_def)
    have "as_duration now + 1 - as_duration (mo_window_end ?m) < as_duration now + 1 - as_duration (mo_window_end m)"
      using True less.prems(2,4) by (auto simp: W as_duration_le as_duration_add_min min_def)
    from less.hyps [OF this flush_window_counts [OF less.prems(1) True less.prems(4)] less.prems(2) _ less.prems(4)]
    show ?thesis using True by (subst flush_loop.simps) simp
  next
    case False
    then have "flush_loop F H now m = Some m" by (subst flush_loop.simps) simp
    then show ?thesis using False less.prems by simp
  qed
qed

lemma observe_counts:
  assumes "counts_ok start W obs m" "0 < W" "mo_window_start m \<le> t" "as_duration t < 2 ^ 64 - 1"
  shows "\<exists>m'. observe F H (t, ob) m = Some m' \<and> counts_ok start W (obs @ [(t, ob)]) m' \<and> mo_window_start m' \<le> t"
proof -
  from flush_loop_counts [OF assms, of F H] obtain m1 where
    m1: "flush_loop F H t m = Some m1" "counts_ok start W obs m1" "mo_window_start m1 \<le> t" "t < mo_window_end m1"
    by blast
  let ?m = "observe_flushed F H t ob (m1\<lparr>mo_queues := map (\<lambda>(i, q). (i, observe_len t (qs_len q) q)) (mo_queues m1)\<rparr>)"
  have obs: "observe F H (t, ob) m = Some ?m" using m1(1) by (simp add: observe_def flush_up_to_def)
  have keep: "mo_cfg ?m = mo_cfg m1" "mo_window_start ?m = mo_window_start m1" "mo_window_end ?m = mo_window_end m1"
    "mo_timeline ?m = mo_timeline m1"
    by (cases ob; simp add: complete_in_time_def Let_def)+
  have "current_counts ?m = obs_counts (mo_window_start m1) (mo_window_end m1) (obs @ [(t, ob)])"
    using m1 by (cases ob) (auto simp: counts_ok_def current_counts_def obs_counts_def complete_in_time_def Let_def)
  moreover have "obs_counts (ws_window_start w) (ws_window_end w) (obs @ [(t, ob)]) =
      obs_counts (ws_window_start w) (ws_window_end w) obs" if "w \<in> set (mo_timeline m1)" for w
  proof (rule obs_counts_outside)
    have "ws_window_end w \<le> mo_window_start m1"
      using m1(2) that by (auto simp: counts_ok_def intro: tiled_bounds)
    with m1(3) show "\<not> (ws_window_start w \<le> t \<and> t < ws_window_end w)" by auto
  qed
  ultimately have "counts_ok start W (obs @ [(t, ob)]) ?m"
    using m1 by (auto simp: counts_ok_def keep)
  with obs m1(3) keep show ?thesis by auto
qed

lemma observe_all_append:
  "observe_all F H (xs @ ys) m = Option.bind (observe_all F H xs m) (observe_all F H ys)"
proof (induction xs arbitrary: m)
  case (Cons x xs)
  then show ?case by (cases "observe F H x m") simp_all
qed simp

lemma monitor_new_counts:
  "monitor_new F H cfg start = Some m \<Longrightarrow> counts_ok start (mc_window cfg) [] m \<and> mo_window_start m = start"
  by (auto simp: monitor_new_def counts_ok_def current_counts_def obs_counts_def split: option.splits if_splits)

text \<open>
  C37. The windows of the monitor are exact. For observations in the order of time, monitoring
  never gets stuck; the closed windows have the configured length and follow each other
  without gaps from the start; each of them counts precisely the drops, timeouts, retries and
  completions observed in it, the current window those observed since, and no observation
  lies behind the current window.
\<close>

theorem monitor_counts_exact:
  assumes "monitor_new F H cfg start = Some m0" and "0 < mc_window cfg"
    and "sorted (map fst obs)" and "\<forall>(t, ob)\<in>set obs. start \<le> t \<and> as_duration t < 2 ^ 64 - 1"
  shows "\<exists>m. observe_all F H obs m0 = Some m \<and>
    tiled (mc_window cfg) start (mo_timeline m) (mo_window_start m) \<and>
    (\<forall>w\<in>set (mo_timeline m). summary_counts w = obs_counts (ws_window_start w) (ws_window_end w) obs) \<and>
    current_counts m = obs_counts (mo_window_start m) (mo_window_end m) obs \<and>
    (\<forall>(t, ob)\<in>set obs. t < mo_window_end m)"
proof -
  have "\<exists>m. observe_all F H obs m0 = Some m \<and> counts_ok start (mc_window cfg) obs m \<and>
      (\<forall>t. start \<le> t \<and> (\<forall>x\<in>set obs. fst x \<le> t) \<longrightarrow> mo_window_start m \<le> t)"
    using assms(3,4)
  proof (induction obs rule: rev_induct)
    case Nil
    then show ?case using monitor_new_counts [OF assms(1)] by simp
  next
    case (snoc x obs)
    obtain t ob where x: "x = (t, ob)" by fastforce
    from snoc obtain m where m: "observe_all F H obs m0 = Some m" "counts_ok start (mc_window cfg) obs m"
      "\<forall>t. start \<le> t \<and> (\<forall>x\<in>set obs. fst x \<le> t) \<longrightarrow> mo_window_start m \<le> t"
      by (auto simp: sorted_append)
    have t: "start \<le> t" "as_duration t < 2 ^ 64 - 1" "\<forall>x\<in>set obs. fst x \<le> t"
      using snoc.prems x by (auto simp: sorted_append)
    with m(3) have "mo_window_start m \<le> t" by blast
    from observe_counts [OF m(2) assms(2) this t(2), of F H ob] obtain m' where
      m': "observe F H (t, ob) m = Some m'" "counts_ok start (mc_window cfg) (obs @ [(t, ob)]) m'" "mo_window_start m' \<le> t"
      by blast
    have "observe_all F H (obs @ [x]) m0 = Some m'" by (simp add: observe_all_append m(1) x m'(1))
    moreover have "\<forall>u. start \<le> u \<and> (\<forall>y\<in>set (obs @ [x]). fst y \<le> u) \<longrightarrow> mo_window_start m' \<le> u"
      using m'(3) x by auto
    ultimately show ?case using m'(2) x by blast
  qed
  then show ?thesis by (auto simp: counts_ok_def)
qed

section \<open>Verdicts\<close>

text \<open>Everything a client of the monitor can do.\<close>

inductive monitored ::
  "('f, 'z) mon_f64_scheme \<Rightarrow> ('h, 'f) hist_ops \<Rightarrow> 'f monitor_config \<Rightarrow> ('f, 'h) monitor \<Rightarrow> bool"
  for F H cfg
where
  mon_new: "monitor_new F H cfg start = Some m \<Longrightarrow> monitored F H cfg m"
| mon_observe: "monitored F H cfg m \<Longrightarrow> observe F H x m = Some m' \<Longrightarrow> monitored F H cfg m'"
| mon_flush: "monitored F H cfg m \<Longrightarrow> flush_up_to F H now m = Some m' \<Longrightarrow> monitored F H cfg m'"
| mon_spike: "monitored F H cfg m \<Longrightarrow> monitored F H cfg (mark_post_spike_start t m)"

text \<open>The distances of the windows after the warm-up, the latest first.\<close>

definition distances :: "('f, 'h) monitor \<Rightarrow> 'f list" where
  "distances m = List.map_filter ws_distance_to_baseline (rev (mo_timeline m))"

definition verdict_ok :: "('f, 'z) mon_f64_scheme \<Rightarrow> 'f monitor_config \<Rightarrow> ('f, 'h) monitor \<Rightarrow> bool" where
  "verdict_ok F cfg m \<longleftrightarrow>
     (let near = (\<lambda>d. f_le F d (mc_baseline_epsilon cfg))
      in mo_cfg m = cfg \<and>
         mo_baseline_windows_seen m = min (length (mo_timeline m)) (mc_baseline_warmup_windows cfg) \<and>
         length (distances m) = length (mo_timeline m) - mc_baseline_warmup_windows cfg \<and>
         mo_recovered_hold m = length (takeWhile near (distances m)) \<and>
         mo_metastable_persist m = length (takeWhile (\<lambda>d. \<not> near d) (distances m)) \<and>
         (\<forall>w. last_window m = Some w \<longrightarrow> ws_window_end w = mo_window_start m) \<and>
         mo_window_end m = add_duration (mo_window_start m) (mc_window cfg))"

lemma classify_windowE:
  assumes "classify_window F s m = (w, m1)" "ws_distance_to_baseline s = None"
  obtains (warm) "mo_baseline_windows_seen m < mc_baseline_warmup_windows (mo_cfg m)"
      "ws_distance_to_baseline w = None" "mo_baseline_windows_seen m1 = mo_baseline_windows_seen m + 1"
      "mo_recovered_hold m1 = mo_recovered_hold m" "mo_metastable_persist m1 = mo_metastable_persist m"
    | (near) d where "\<not> mo_baseline_windows_seen m < mc_baseline_warmup_windows (mo_cfg m)"
      "ws_distance_to_baseline w = Some d" "f_le F d (mc_baseline_epsilon (mo_cfg m))"
      "mo_baseline_windows_seen m1 = mo_baseline_windows_seen m"
      "mo_recovered_hold m1 = mo_recovered_hold m + 1" "mo_metastable_persist m1 = 0"
    | (far) d where "\<not> mo_baseline_windows_seen m < mc_baseline_warmup_windows (mo_cfg m)"
      "ws_distance_to_baseline w = Some d" "\<not> f_le F d (mc_baseline_epsilon (mo_cfg m))"
      "mo_baseline_windows_seen m1 = mo_baseline_windows_seen m"
      "mo_recovered_hold m1 = 0" "mo_metastable_persist m1 = mo_metastable_persist m + 1"
proof -
  let ?d = "baseline_distance F (mo_baseline m) (window_features F (mo_cfg m) s)"
  show thesis
  proof (cases "mo_baseline_windows_seen m < mc_baseline_warmup_windows (mo_cfg m)")
    case True
    with assms show thesis by (intro warm) (auto simp: classify_window_def Let_def)
  next
    case False
    show thesis
    proof (cases "f_le F ?d (mc_baseline_epsilon (mo_cfg m))")
      case True
      with False assms show thesis by (intro near [of ?d]) (auto simp: classify_window_def Let_def)
    next
      case far': False
      with False assms show thesis by (intro far [of ?d]) (auto simp: classify_window_def Let_def)
    qed
  qed
qed

lemma flush_window_verdict:
  assumes "verdict_ok F cfg m"
  shows "verdict_ok F cfg (flush_window F H wend m)"
proof -
  let ?m = "m\<lparr>mo_queues := map (\<lambda>(i, q). (i, snd (finalize_window F wend q))) (mo_queues m)\<rparr>"
  let ?s = "window_summary_of F H wend (map (\<lambda>(_, q). fst (finalize_window F wend q)) (mo_queues m)) ?m"
  obtain w m1 where c: "classify_window F ?s ?m = (w, m1)" by fastforce
  have s: "ws_distance_to_baseline ?s = None" "ws_window_end ?s = wend"
    by (simp_all add: window_summary_of_def Let_def)
  have w: "ws_window_end w = wend" using classify_window_fields(4) [of F ?s ?m] c s(2) by simp
  have fl: "mo_timeline (flush_window F H wend m) = mo_timeline m1 @ [w]"
    "mo_baseline_windows_seen (flush_window F H wend m) = mo_baseline_windows_seen m1"
    "mo_recovered_hold (flush_window F H wend m) = mo_recovered_hold m1"
    "mo_metastable_persist (flush_window F H wend m) = mo_metastable_persist m1"
    using c by (simp_all add: flush_window_def Let_def)
  have "mo_timeline m1 = mo_timeline m" using classify_window_fields(2) [of F ?s ?m] c by simp
  note tl = fl(1) [unfolded this]
  have cfg: "mo_cfg m = cfg" and seen: "mo_baseline_windows_seen m = min (length (mo_timeline m)) (mc_baseline_warmup_windows cfg)"
    and len: "length (distances m) = length (mo_timeline m) - mc_baseline_warmup_windows cfg"
    and hold: "mo_recovered_hold m = length (takeWhile (\<lambda>d. f_le F d (mc_baseline_epsilon cfg)) (distances m))"
      "mo_metastable_persist m = length (takeWhile (\<lambda>d. \<not> f_le F d (mc_baseline_epsilon cfg)) (distances m))"
    using assms by (simp_all add: verdict_ok_def Let_def)
  have dist: "distances (flush_window F H wend m) =
      (case ws_distance_to_baseline w of None \<Rightarrow> distances m | Some d \<Rightarrow> d # distances m)"
    by (simp add: distances_def tl List.map_filter_simps split: option.splits)
  have last: "\<forall>x. last_window (flush_window F H wend m) = Some x \<longrightarrow> ws_window_end x = wend"
    by (simp add: last_window_def tl w)
  from c s(1) show ?thesis
  proof (cases rule: classify_windowE)
    case warm
    then show ?thesis
      using seen len hold last by (simp add: verdict_ok_def Let_def fl(2-4) tl dist cfg)
  next
    case (near d)
    then show ?thesis
      using seen len last hold by (simp add: verdict_ok_def Let_def fl(2-4) tl dist cfg Suc_diff_le)
  next
    case (far d)
    then show ?thesis
      using seen len last hold by (simp add: verdict_ok_def Let_def fl(2-4) tl dist cfg Suc_diff_le)
  qed
qed

lemma flush_loop_verdict:
  assumes "flush_loop F H now m = Some m'" "verdict_ok F cfg m"
  shows "verdict_ok F cfg m'"
proof -
  have "verdict_ok F cfg m \<longrightarrow> verdict_ok F cfg m'"
    by (rule flush_loop.raw_induct [OF _ assms(1), where P = "\<lambda>F H now m m'. verdict_ok F cfg m \<longrightarrow> verdict_ok F cfg m'"])
      (auto split: if_splits, blast intro: flush_window_verdict)
  with assms(2) show ?thesis by blast
qed

lemma verdict_ok_cong:
  assumes "mo_cfg m' = mo_cfg m" "mo_timeline m' = mo_timeline m" "mo_window_start m' = mo_window_start m"
    "mo_window_end m' = mo_window_end m" "mo_baseline_windows_seen m' = mo_baseline_windows_seen m"
    "mo_recovered_hold m' = mo_recovered_hold m" "mo_metastable_persist m' = mo_metastable_persist m"
  shows "verdict_ok F cfg m' = verdict_ok F cfg m"
  using assms by (simp add: verdict_ok_def distances_def last_window_def)

lemma monitored_verdict: "monitored F H cfg m \<Longrightarrow> verdict_ok F cfg m"
proof (induction rule: monitored.induct)
  case (mon_new start m)
  then show ?case
    by (auto simp: monitor_new_def verdict_ok_def distances_def last_window_def List.map_filter_simps Let_def
        split: option.splits if_splits)
next
  case (mon_observe m x m')
  then obtain m1 where m1: "flush_loop F H (fst x) m = Some m1"
    "m' = observe_flushed F H (fst x) (snd x)
       (m1\<lparr>mo_queues := map (\<lambda>(i, q). (i, observe_len (fst x) (qs_len q) q)) (mo_queues m1)\<rparr>)"
    by (auto simp: observe_def flush_up_to_def split: prod.splits)
  have "verdict_ok F cfg m' = verdict_ok F cfg m1"
    unfolding m1(2) by (rule verdict_ok_cong; cases "snd x"; simp add: complete_in_time_def Let_def)
  with flush_loop_verdict [OF m1(1)] mon_observe.IH show ?case by blast
next
  case (mon_flush m now m')
  then obtain m1 where m1: "flush_loop F H now m = Some m1"
    "m' = m1\<lparr>mo_queues := map (\<lambda>(i, q). (i, observe_len now (qs_len q) q)) (mo_queues m1)\<rparr>"
    by (auto simp: flush_up_to_def)
  have "verdict_ok F cfg m' = verdict_ok F cfg m1"
    unfolding m1(2) by (rule verdict_ok_cong) simp_all
  with flush_loop_verdict [OF m1(1)] mon_flush.IH show ?case by blast
next
  case (mon_spike m t)
  have "verdict_ok F cfg (mark_post_spike_start t m) = verdict_ok F cfg m"
    by (rule verdict_ok_cong) (simp_all add: mark_post_spike_start_def)
  with mon_spike.IH show ?case by blast
qed

text \<open>
  C38. The verdict follows from the timeline, however the monitor is used: the first windows, as
  many as the warm-up has, have no distance and all later ones have one; the system counts
  as recovered exactly when the last windows, as many as configured, all have a distance
  within the threshold. It counts as metastable exactly when the last windows, as many as
  configured for that, all lie beyond the threshold, or when a limit on the recovery time is
  configured, the end of the spike is marked, the end of the last window is at least the limit
  after it, and the system does not count as recovered.
\<close>

theorem monitor_verdict:
  assumes "monitored F H cfg m"
  shows "length (distances m) = length (mo_timeline m) - mc_baseline_warmup_windows cfg \<and>
    (ms_recovered (status_of F m) \<longleftrightarrow>
       mc_recovery_hold_windows cfg \<le> length (distances m) \<and>
       list_all (\<lambda>d. f_le F d (mc_baseline_epsilon cfg)) (take (mc_recovery_hold_windows cfg) (distances m))) \<and>
    (ms_metastable (status_of F m) \<longleftrightarrow>
       mc_metastable_persist_windows cfg \<le> length (distances m) \<and>
       list_all (\<lambda>d. \<not> f_le F d (mc_baseline_epsilon cfg))
         (take (mc_metastable_persist_windows cfg) (distances m)) \<or>
       (\<exists>limit post. mc_recovery_time_limit cfg = Some limit \<and> mo_post_spike_start m = Some post \<and>
          mo_timeline m \<noteq> [] \<and> limit \<le> as_duration (ws_window_end (last (mo_timeline m))) - as_duration post \<and>
          \<not> ms_recovered (status_of F m)))"
proof -
  have tw: "n \<le> length (takeWhile P xs) \<longleftrightarrow> n \<le> length xs \<and> list_all P (take n xs)" for n P and xs :: "'a list"
  proof (induction xs arbitrary: n)
    case (Cons x xs)
    then show ?case by (cases n) auto
  qed simp
  have since: "duration_since t u = as_duration t - as_duration u" for t u
    using simtime_arithmetic by blast
  from monitored_verdict [OF assms] have v: "mo_cfg m = cfg"
    "length (distances m) = length (mo_timeline m) - mc_baseline_warmup_windows cfg"
    "mo_recovered_hold m = length (takeWhile (\<lambda>d. f_le F d (mc_baseline_epsilon cfg)) (distances m))"
    "mo_metastable_persist m = length (takeWhile (\<lambda>d. \<not> f_le F d (mc_baseline_epsilon cfg)) (distances m))"
    by (simp_all add: verdict_ok_def Let_def)
  have rec: "ms_recovered (status_of F m) \<longleftrightarrow> mc_recovery_hold_windows cfg \<le> mo_recovered_hold m"
    by (simp add: status_of_def monitor_recovered_def v(1))
  have "ms_metastable (status_of F m) \<longleftrightarrow> mc_metastable_persist_windows cfg \<le> mo_metastable_persist m \<or>
      (\<exists>limit post. mc_recovery_time_limit cfg = Some limit \<and> mo_post_spike_start m = Some post \<and>
        mo_timeline m \<noteq> [] \<and> limit \<le> as_duration (ws_window_end (last (mo_timeline m))) - as_duration post \<and>
        \<not> ms_recovered (status_of F m))"
    unfolding rec
    by (auto simp: status_of_def is_metastable_def v(1) last_window_def since split: option.splits if_splits)
  then show ?thesis using v(2) by (simp add: rec v(3,4) tw)
qed

text \<open>
  The recovery time is not the time of the recovery: it is measured up to the end of the last
  window, so while a system stays recovered it grows by the length of a window with every
  window that passes.
\<close>

theorem recovery_time_grows:
  assumes "monitored F H cfg m" and "mo_timeline m \<noteq> []" and "mo_post_spike_start m = Some post"
    and "post \<le> mo_window_start m" and "as_duration (mo_window_start m) + mc_window cfg < 2 ^ 64"
    and "m' = flush_window F H (mo_window_end m) m"
    and "monitor_recovered m" and "monitor_recovered m'"
  shows "\<exists>d. recovery_time m = Some d \<and> recovery_time m' = Some (d + mc_window cfg)"
proof -
  note v = monitored_verdict [OF assms(1)]
  have cfg: "mo_cfg m = cfg" and e: "mo_window_end m = add_duration (mo_window_start m) (mc_window cfg)"
    and l: "\<forall>w. last_window m = Some w \<longrightarrow> ws_window_end w = mo_window_start m"
    using v by (simp_all add: verdict_ok_def Let_def)
  have since: "duration_since t u = as_duration t - as_duration u" for t u
    using simtime_arithmetic by blast
  have "recovery_time m = Some (duration_since (mo_window_start m) post)"
    using assms(2,3,7) l by (simp add: recovery_time_def last_window_def)
  moreover obtain w where "mo_timeline m' = mo_timeline m @ [w]" "ws_window_end w = mo_window_end m"
    using flush_window_timeline [of F H "mo_window_end m" m] assms(6) by blast
  then have "recovery_time m' = Some (duration_since (mo_window_end m) post)"
    using assms(3,6,8) by (simp add: recovery_time_def last_window_def)
  moreover have "duration_since (mo_window_end m) post = duration_since (mo_window_start m) post + mc_window cfg"
    using assms(4,5) by (simp add: since e as_duration_add_min as_duration_le)
  ultimately show ?thesis by simp
qed

section \<open>Instances\<close>

text \<open>Numbers in place of floating-point numbers; windows of length 10, one of them for the warm-up.\<close>

definition nat_f64 :: "nat mon_f64" where
  "nat_f64 = \<lparr>f_of_nat = \<lambda>n. n, f_mul = (*), f_div = (div), f_powi = \<lambda>x n. x ^ unat n, f_less = (<),
     f_clamp = \<lambda>x a b. max a (min x b), f_secs = \<lambda>d. d, f_to_u64 = word_of_nat, f_to_u32 = word_of_nat,
     f_add = (+), f_sub = (-), f_sqrt = \<lambda>x. x, f_ceil = \<lambda>x. x, f_min = min, f_max = max, f_le = (\<le>),
     f_infinity = 1000, f_literal = \<lambda>a b. a div b\<rparr>"

definition no_hist :: "(unit, nat) hist_ops" where
  "no_hist = \<lparr>hist_new_with_bounds = \<lambda>a b c. Some (), hist_record = \<lambda>v h. h, hist_is_empty = \<lambda>h. True,
     hist_value_at_quantile = \<lambda>q h. 0, hist_reset = \<lambda>h. h\<rparr>"

definition demo_config :: "nat monitor_config" where
  "demo_config = \<lparr>mc_window = 10, mc_baseline_warmup_windows = 1, mc_recovery_hold_windows = 1,
     mc_baseline_epsilon = 3, mc_metastable_persist_windows = 2, mc_recovery_time_limit = None,
     mc_track_latency_quantiles = False, mc_latency_histogram_max_ms = 100, mc_retry_amplification_cap = 100,
     mc_score_weights = \<lparr>sw_queue_mean = 1, sw_retry_amplification = 1, sw_timeout_rate_rps = 1,
       sw_drop_rate_rps = 1, sw_distance = 1\<rparr>\<rparr>"

definition demo_monitor :: "(nat, unit) monitor" where
  "demo_monitor = the (monitor_new nat_f64 no_hist demo_config (SimTime 0))"

lemmas monitor_eval = monitor_new_def demo_config_def nat_f64_def no_hist_def flush_window_def
  classify_window_def window_summary_of_def window_features_def baseline_distance_def baseline_observe_def
  baseline_var_def running_stats_update_def running_stats_variance_def Let_def
  add_duration_def try_from_nat_def saturating_add_def

lemma demo_monitor_new: "monitor_new nat_f64 no_hist demo_config (SimTime 0) = Some demo_monitor"
  by (simp add: demo_monitor_def monitor_new_def demo_config_def)

theorem monitor_counts_exact_witness:
  "\<exists>m. observe_all nat_f64 no_hist [(SimTime 3, Dropped), (SimTime 25, Retried), (SimTime 27, Dropped)] demo_monitor = Some m \<and>
     tiled 10 (SimTime 0) (mo_timeline m) (mo_window_start m)"
proof -
  have "0 < mc_window demo_config" by (simp add: demo_config_def)
  from monitor_counts_exact [OF demo_monitor_new this,
      of "[(SimTime 3, Dropped), (SimTime 25, Retried), (SimTime 27, Dropped)]"]
  show ?thesis by (auto simp: as_duration_def demo_config_def)
qed

text \<open>Without queues, two windows of length 10 are flushed up to time 25.\<close>

lemma flush_two_windows:
  fixes m :: "(nat, unit) monitor"
  assumes "mo_window_end m = SimTime 10" "mc_window (mo_cfg m) = 10" "mo_queues m = []"
  shows "flush_up_to nat_f64 no_hist (SimTime 25) m =
    Some (flush_window nat_f64 no_hist (SimTime 20) (flush_window nat_f64 no_hist (SimTime 10) m))"
proof -
  have q: "mo_queues (flush_window F H t x) = []" if "mo_queues x = []"
    for F :: "nat mon_f64" and H :: "(unit, nat) hist_ops" and t and x :: "(nat, unit) monitor"
    using that by (simp add: flush_window_def classify_window_def Let_def)
  show ?thesis
    by (simp add: flush_up_to_def flush_loop.simps assms q add_duration_def try_from_nat_def saturating_add_def)
qed

lemmas two_windows_eval = mark_post_spike_start_def monitor_new_def demo_config_def add_duration_def
  try_from_nat_def saturating_add_def

lemma demo_flushed:
  "flush_up_to nat_f64 no_hist (SimTime 25) (mark_post_spike_start (SimTime 5) demo_monitor) =
     Some (flush_window nat_f64 no_hist (SimTime 20) (flush_window nat_f64 no_hist (SimTime 10)
       (mark_post_spike_start (SimTime 5) demo_monitor)))"
  by (rule flush_two_windows) (simp_all add: demo_monitor_def two_windows_eval)

lemma baseline_nat:
  "baseline_default nat_f64 =
     [\<lparr>rs_n = 0, rs_mean = 0, rs_m2 = 0\<rparr>, \<lparr>rs_n = 0, rs_mean = 0, rs_m2 = 0\<rparr>, \<lparr>rs_n = 0, rs_mean = 0, rs_m2 = 0\<rparr>,
      \<lparr>rs_n = 0, rs_mean = 0, rs_m2 = 0\<rparr>, \<lparr>rs_n = 0, rs_mean = 0, rs_m2 = 0\<rparr>, \<lparr>rs_n = 0, rs_mean = 0, rs_m2 = 0\<rparr>]"
  by (simp add: baseline_default_def nat_f64_def numeral_eq_Suc)

definition demo_recovered :: "(nat, unit) monitor" where
  "demo_recovered = flush_window nat_f64 no_hist (SimTime 20) (flush_window nat_f64 no_hist (SimTime 10)
     (mark_post_spike_start (SimTime 5) demo_monitor))"

lemma demo_recovered_eval:
  "monitor_recovered demo_recovered" "mo_timeline demo_recovered \<noteq> []" "mo_window_start demo_recovered = SimTime 20"
  "mo_window_end demo_recovered = SimTime 30" "mo_post_spike_start demo_recovered = Some (SimTime 5)"
  "monitor_recovered (flush_window nat_f64 no_hist (SimTime 30) demo_recovered)"
  by (simp_all add: demo_recovered_def demo_monitor_def mark_post_spike_start_def monitor_recovered_def
      monitor_new_def demo_config_def baseline_nat)
    (simp_all add: monitor_eval)

lemma demo_monitored: "monitored nat_f64 no_hist demo_config demo_recovered"
  using mon_flush [OF mon_spike [OF mon_new [OF demo_monitor_new]] demo_flushed] by (simp add: demo_recovered_def)

text \<open>
  The same run with a limit of 10 on the recovery time and five windows to hold: only one window
  has been compared, and it is near, but the last window ends 15 after the spike.
\<close>

definition limited_config :: "nat monitor_config" where
  "limited_config = demo_config\<lparr>mc_recovery_hold_windows := 5, mc_recovery_time_limit := Some 10\<rparr>"

definition limited_start :: "(nat, unit) monitor" where
  "limited_start = the (monitor_new nat_f64 no_hist limited_config (SimTime 0))"

definition demo_limited :: "(nat, unit) monitor" where
  "demo_limited = flush_window nat_f64 no_hist (SimTime 20) (flush_window nat_f64 no_hist (SimTime 10)
     (mark_post_spike_start (SimTime 5) limited_start))"

lemma demo_limited_monitored: "monitored nat_f64 no_hist limited_config demo_limited"
proof -
  have "monitor_new nat_f64 no_hist limited_config (SimTime 0) = Some limited_start"
    by (simp add: limited_start_def limited_config_def monitor_new_def demo_config_def)
  moreover have "flush_up_to nat_f64 no_hist (SimTime 25) (mark_post_spike_start (SimTime 5) limited_start) = Some demo_limited"
    unfolding demo_limited_def
    by (rule flush_two_windows) (simp_all add: limited_start_def limited_config_def two_windows_eval)
  ultimately show ?thesis using mon_flush [OF mon_spike [OF mon_new]] by blast
qed

lemma demo_limited_eval:
  "length (mo_timeline demo_limited) = 2" "as_duration (ws_window_end (last (mo_timeline demo_limited))) = 20"
  "mo_post_spike_start demo_limited = Some (SimTime 5)"
  by (simp_all add: demo_limited_def limited_start_def limited_config_def mark_post_spike_start_def
      monitor_new_def demo_config_def baseline_nat)
    (simp_all add: monitor_eval limited_config_def as_duration_def)

theorem monitor_verdict_witness:
  "ms_recovered (status_of nat_f64 demo_recovered) \<and> list_all (\<lambda>d. f_le nat_f64 d 3) (take 1 (distances demo_recovered)) \<and>
   \<not> ms_recovered (status_of nat_f64 demo_limited) \<and> ms_metastable (status_of nat_f64 demo_limited)"
proof -
  have "ms_recovered (status_of nat_f64 demo_recovered)"
    using demo_recovered_eval(1) by (simp add: status_of_def)
  moreover from this have "list_all (\<lambda>d. f_le nat_f64 d 3) (take 1 (distances demo_recovered))"
    using monitor_verdict [OF demo_monitored] by (simp add: demo_config_def)
  moreover have "\<not> ms_recovered (status_of nat_f64 demo_limited)"
    using monitor_verdict [OF demo_limited_monitored] demo_limited_eval(1) by (simp add: limited_config_def demo_config_def)
  moreover from this have "ms_metastable (status_of nat_f64 demo_limited)"
    using monitor_verdict [OF demo_limited_monitored] demo_limited_eval
    by (auto simp: limited_config_def demo_config_def as_duration_def)
  ultimately show ?thesis by blast
qed

theorem recovery_time_grows_witness:
  "\<exists>d. recovery_time demo_recovered = Some d \<and>
     recovery_time (flush_window nat_f64 no_hist (SimTime 30) demo_recovered) = Some (d + 10)"
proof -
  have "SimTime 5 \<le> mo_window_start demo_recovered"
    "as_duration (mo_window_start demo_recovered) + mc_window demo_config < 2 ^ 64"
    by (simp_all add: demo_recovered_eval demo_config_def as_duration_def)
  from recovery_time_grows [OF demo_monitored demo_recovered_eval(2,5) this refl demo_recovered_eval(1)]
  show ?thesis using demo_recovered_eval(4,6) by (simp add: demo_config_def)
qed

end
