(* ===== verification/Spec2Isabelle.thy ===== *)
theory Spec2Isabelle
  imports Runtime_System Executor Rw_Lock Mpsc Oneshot Notify Async_Mutex Barrier Watch
    Service_System Attempt_Numbers Tonic_Rpc Network_System Tokio_Task Tower_Service Load_Balancer
    Ready_Replay Draw_Replay Monitor
begin

text \<open>
  DesCartes is a discrete-event simulator for distributed systems, written in Rust. A
  scheduler keeps a heap of timed events; a simulation pops them one by one and hands them
  to components; an async runtime, itself a component, runs futures in simulated time; and
  libraries of servers, clients, channels, locks and wire formats are built on top. This
  development models that code as HOL functions and step relations and proves what makes it
  correct. Every definition names the Rust item it translates in its theory's text; names are
  those of the source where HOL allows it.

  \<^bold>\<open>Parts and theories\<close>

  \<^item> \<open>Des_Prelude\<close>: machine integers, saturating and checked arithmetic, \<open>Ord::cmp\<close>,
    \<open>swap_remove\<close>, and the lemma collections \<open>sat_simps\<close> and \<open>vec_simps\<close>.
  \<^item> \<open>Sim_Time\<close> (\<open>des-core/src/time.rs\<close>) and \<open>Ids\<close> (\<open>ids.rs\<close>, \<open>randomness.rs\<close>): 64-bit
    nanosecond time that saturates, and deterministic identifiers.
  \<^item> \<open>Binary_Heap\<close>, \<open>Scheduler\<close>, \<open>Scheduler_Props\<close> (\<open>scheduler.rs\<close>): the event heap, popping
    with a frontier policy, cancellation. A heap is an abstract priority queue with the
    documented behaviour of \<open>BinaryHeap\<close>. The properties say which entry is popped, that
    nothing is lost, and that cancelled tasks are skipped.
  \<^item> \<open>Tasks\<close> (\<open>task.rs\<close>): closures, timeouts, periodic and retry tasks, with user code as a
    parameter.
  \<^item> \<open>Simulation\<close> (\<open>lib.rs\<close>) and \<open>Executor\<close> (\<open>execute.rs\<close>): components, deferred wakes, one
    step, and runs. The locale \<open>simulation_code\<close> is the contract of handlers and tasks; under it
    steps and runs are causal and deterministic, and timed runs end.
  \<^item> \<open>Async_Runtime\<close>, \<open>Runtime_Calls\<close>, \<open>Runtime_Polling\<close>, \<open>Runtime_Events\<close>, \<open>Runtime_System\<close>
    (\<open>async_runtime.rs\<close>, \<open>waker.rs\<close>): tasks, ready queue, timers, spawn and cancel handles,
    sleep. \<open>rt_call\<close> lists what futures and components may do to the world; the locale
    \<open>async_futures\<close> is the contract of futures and \<open>async_system\<close> that of the whole system, a
    sublocale of \<open>simulation_code\<close>, interpreted by tasks that await sleeps. The runtime's
    invariant is lifted through event processing to the steps of the simulation.
  \<^item> \<open>Wakers\<close>: results of polls, labelled runs, and the locale \<open>waker_slot\<close>, the contract by which
    a waiting task is woken; it is interpreted by the receivers of the three channels.
  \<^item> \<open>Batch_Semaphore\<close>, \<open>Rw_Lock\<close>, \<open>Async_Mutex\<close>, \<open>Mpsc\<close>, \<open>Oneshot\<close>, \<open>Watch\<close>, \<open>Notify\<close>,
    \<open>Barrier\<close>, \<open>Concurrency\<close> (\<open>des-tokio/src/sync/*.rs\<close>, \<open>concurrency.rs\<close>): the
    synchronization primitives as state machines over opaque wakers, with the drops of their
    futures and guards, and the events they record.
  \<^item> \<open>Request\<close> (\<open>request.rs\<close>), \<open>Queue_Component\<close> (\<open>des-components/src/queue.rs\<close>),
    \<open>Service_Time\<close> (\<open>dists.rs\<close>), \<open>Retry_Policy\<close> (\<open>retry_policy.rs\<close>), \<open>Pending_Events\<close>,
    \<open>Server\<close> (\<open>server.rs\<close>), \<open>Simple_Client\<close> (\<open>simple_client.rs\<close>), \<open>Service_System\<close>,
    \<open>Attempt_Numbers\<close>: clients and servers that exchange events, whole systems of them in a
    simulation, and the numbers of the attempts that clients send.
  \<^item> \<open>Endpoint_Registry\<close>, \<open>Network_Model\<close>, \<open>Sim_Transport\<close>, \<open>Network_System\<close>
    (\<open>des-components/src/transport/*.rs\<close>): endpoints with round-robin lookup, refined from a list
    of registered endpoints; latency and loss models; the transport component; and runs of a
    simulation with one transport, in which every message sent is in flight, delivered or dropped.
  \<^item> \<open>Axum\<close> (\<open>des-axum/src/*.rs\<close>): HTTP requests over the transport, from a client through a server
    back to the client's one-shot channel.
  \<^item> \<open>Tokio_Task\<close>, \<open>Tokio_Time\<close> (\<open>des-tokio/src/task.rs\<close>, \<open>time.rs\<close>): join handles and sets,
    instants, timeouts, intervals.
  \<^item> \<open>Tower\<close>, \<open>Tower_Limit\<close>, \<open>Circuit_Breaker\<close>, \<open>Load_Balancer\<close>, \<open>Tower_Retry\<close>, \<open>Tower_Service\<close>
    (\<open>des-tower/src/tower/*\<close>): services as records of \<open>poll_ready\<close>, \<open>call\<close>, \<open>poll\<close> and drops over a
    state and an environment. The locale \<open>service_contract\<close> is what a middleware relies on and
    promises; timeouts, hedging, rate and concurrency limits, circuit breaker and retries are functions
    from services to services, and the base service with its response router interprets the contract.
  \<^item> \<open>Utf8\<close>, \<open>Tonic_Wire\<close> (\<open>des-tonic/src/wire.rs\<close>) and \<open>Http_Text\<close>
    (\<open>des-tower/src/tower/mod.rs\<close>): byte formats, with encoders and decoders over 8-bit words.
  \<^item> \<open>Reorder_Buffer\<close>, \<open>Tonic_Stream\<close>, \<open>Tonic_Delivery\<close>, \<open>Tonic_Unary\<close>, \<open>Tonic_Rpc\<close>
    (\<open>des-tonic/src/channel.rs\<close>, \<open>server.rs\<close>): gRPC calls. The reorder buffer handles frames in the
    order of their numbers whatever the order of arrival (\<open>in_order\<close>); from that follow what readers
    and handlers get, first over frames and then over encoded messages, for all kinds of calls.

  \<^item> \<open>Trace\<close>, \<open>Frontier_Replay\<close>, \<open>Ready_Replay\<close>, \<open>Draw_Replay\<close> (\<open>des-explore/src/trace.rs\<close>,
    \<open>schedule_explore.rs\<close>, \<open>frontier.rs\<close>, \<open>ready_task.rs\<close>, the \<open>rng\<close> files, \<open>concurrency.rs\<close>): traces of
    scheduling decisions, random draws and concurrency events, the policies and providers that record,
    replay or script them. The locales \<open>decision_recorder\<close> and \<open>decision_replayer\<close> are the two halves of
    a replay, interpreted by the policies; in \<open>record_replay\<close> both run in lockstep, which is lifted to
    runs of a simulation (\<open>frontier_record_replay\<close>) and of its runtime (\<open>ready_record_replay\<close>).
  \<^item> \<open>Monitor\<close> (\<open>des-explore/src/monitor.rs\<close>): windows, baseline, and the verdicts drawn from them.

  \<^bold>\<open>Bounds and parameters\<close>

  Identifiers drawn from 64-bit counters (events, tasks, waiters, decisions) are natural numbers; where a
  statement depends on fewer than \<open>2 ^ 64\<close> of them having been issued it says so
  (\<open>ids_fit\<close>, the generation of the barrier). Natural numbers are also the sequence numbers of a
  priority queue, the statistics of the transport, the attempts and failures counted by retries and
  circuit breakers, and the counters of a monitor's window. Time, versions, permits of \<open>Notify\<close> and counters of
  the server are words. Loops are total functions,
  whose termination proofs need no fuel, but for two that may not end and are partial functions with
  \<open>None\<close> for that: the loops of an executor, for which timed runs are shown to return, and the loop that
  flushes the windows of a monitor, shown to return for windows of positive length.
  A reorder buffer holds 64 frames: the statements about streams ask that fewer than 63 frames wait
  for an earlier one at a time, and that a reader is at most 16 items behind, the room of its channel.
  Code outside the repository is a parameter with named hypotheses: random generators,
  samplers of distributions, futures, handlers and closures of the user, floating-point arithmetic,
  the crates \<open>http\<close>, \<open>axum\<close>, \<open>bincode\<close> and \<open>hdrhistogram\<close>, the text of a \<open>uuid\<close>,
  the spurious failures of a weak compare-and-exchange,
  and the status codes, their numbers and the metadata maps of \<open>tonic\<close>. \<open>Duration::from_secs_f64\<close>
  is total and allocation does not fail. The router of the tower services gets responses to pending
  attempts only: a second response to an attempt would make the counter of the load underflow.
  Futures of tasks that are cancelled before they are installed are dropped when the spawn queue has
  been filtered, where the source drops them one by one and holds the lock of the queue meanwhile.

  \<^bold>\<open>Not modelled\<close>

  Logging, the recording and export of metrics and plotting (\<open>logging.rs\<close>, \<open>des-metrics\<close>,
  \<open>des-viz\<close>) write reports; statistical estimation and the search by splitting in \<open>des-explore\<close>
  and most distributions of \<open>dists.rs\<close> are floating-point numerics; the harness of \<open>des-explore\<close>
  wires closures, files and the policies above together; \<open>des-tonic-build\<close> generates code. Of \<open>des-tonic\<close>, the
  timers that end a stream, the adapters to \<open>prost\<close> messages and the socket addresses are left out; of
  \<open>des-tokio\<close>, the simulated files. \<open>attic\<close> is retired code.
\<close>

end
